(* ===== verification/Prelude.thy ===== *)
theory Prelude
  imports Main "HOL-Library.Monad_Syntax" "HOL-Library.Word" "HOL-Library.Sublist"
begin

text \<open>
  Shared vocabulary of the development: the types that stand for C addresses, the collections of
  rewrite rules the component theories fill, generic facts on lists, on the option monad and on
  bytes, C strings, and the interface locales that several components interpret: a key/value store
  and a codec that reads a value off the front of a byte stream.

  A C function that may abort (a failed \<open>check()\<close>) or dereference a null pointer is a function
  into \<open>option\<close>: \<open>None\<close> is the crash, \<open>Some\<close> carries the returned value and the new state.
\<close>

section \<open>Addresses and error codes\<close>

type_synonym ptr = nat    \<comment> \<open>an opaque \<open>void*\<close>\<close>
type_synonym fn = nat     \<comment> \<open>the address of a function\<close>
type_synonym error_t = int
type_synonym byte = "8 word"

named_theorems kernel_defs \<open>definitions of the kernel's operations\<close>
named_theorems wire_simps \<open>byte-level facts of the wire formats\<close>

unbundle bit_operations_syntax

section \<open>Lists used as ledgers\<close>

lemma distinct_snoc [simp]: "distinct (xs @ [x]) \<longleftrightarrow> distinct xs \<and> x \<notin> set xs"
  by auto

lemma filter_remove1_length:
  assumes "distinct xs" "x \<in> set xs"
  shows "length (filter P xs) = length (filter P (remove1 x xs)) + (if P x then 1 else 0)"
  using assms by (induction xs) auto

lemma filter_cong_length:
  assumes "\<And>x. x \<in> set xs \<Longrightarrow> P x = Q x"
  shows "length (filter P xs) = length (filter Q xs)"
  using assms by (induction xs) auto

lemma filter_flip_length:
  assumes "distinct xs" "d \<in> set xs" "\<not> P d" "Q d" "\<And>x. x \<noteq> d \<Longrightarrow> P x = Q x"
  shows "length (filter Q xs) = Suc (length (filter P xs))"
  using assms
proof (induction xs)
  case (Cons a xs)
  show ?case
  proof (cases "a = d")
    case True
    have "\<And>x. x \<in> set xs \<Longrightarrow> Q x = P x"
      using True Cons.prems(1) Cons.prems(5) by (metis distinct.simps(2))
    then have "length (filter Q xs) = length (filter P xs)" by (rule filter_cong_length)
    with True Cons.prems show ?thesis by simp
  next
    case False
    with Cons show ?thesis by auto
  qed
qed simp

lemma find_Some_in: "List.find P xs = Some x \<Longrightarrow> x \<in> set xs \<and> P x"
  by (auto simp: find_Some_iff)

section \<open>The option monad\<close>

lemma bind_Some_iff: "Option.bind m f = Some y \<longleftrightarrow> (\<exists>x. m = Some x \<and> f x = Some y)"
  by (cases m) auto

lemma bind_pair_Some_iff:
  "Option.bind m (\<lambda>(a, b). f a b) = Some y \<longleftrightarrow> (\<exists>a b. m = Some (a, b) \<and> f a b = Some y)"
  by (cases m) auto

section \<open>C and C++ strings\<close>

text \<open>
  A \<open>std::string\<close> is a list of characters, which may contain the character 0; what a C function
  that takes \<open>c_str()\<close> sees of it ends before the first 0.
\<close>

abbreviation NUL :: char where "NUL \<equiv> CHR 0x00"

definition c_str :: "string \<Rightarrow> string" where
  "c_str s = takeWhile (\<lambda>c. c \<noteq> NUL) s"

lemma c_str_id: "NUL \<notin> set s \<Longrightarrow> c_str s = s"
  by (simp add: c_str_def takeWhile_eq_all_conv) metis

definition find_first_not_of :: "string \<Rightarrow> string \<Rightarrow> nat option" where
  "find_first_not_of s cs =
     (let n = length (takeWhile (\<lambda>c. c \<in> set cs) s) in if n = length s then None else Some n)"

definition find_last_not_of :: "string \<Rightarrow> string \<Rightarrow> nat option" where
  "find_last_not_of s cs = map_option (\<lambda>n. length s - 1 - n) (find_first_not_of (rev s) cs)"

definition find_char :: "string \<Rightarrow> char \<Rightarrow> nat option" where
  "find_char s c = (let n = length (takeWhile (\<lambda>x. x \<noteq> c) s) in if n = length s then None else Some n)"

lemma find_char_split: "c \<notin> set s \<Longrightarrow> find_char (s @ c # t) c = Some (length s)"
proof -
  assume "c \<notin> set s"
  then have "takeWhile (\<lambda>x. x \<noteq> c) (s @ c # t) = s" by (induction s) auto
  then show ?thesis by (simp add: find_char_def)
qed

definition substr :: "string \<Rightarrow> nat \<Rightarrow> nat \<Rightarrow> string" where
  "substr s i n = take n (drop i s)"

lemma map_of_rev_distinct: "distinct (map fst es) \<Longrightarrow> map_of (rev es) = map_of es"
  by (rule map_of_eqI) (auto simp: rev_map [symmetric] map_of_eq_Some_iff)

section \<open>A key/value store\<close>

text \<open>The contract of a store: what a lookup returns after a put.\<close>

locale kv_store =
  fixes lookup :: "'s \<Rightarrow> 'k \<Rightarrow> 'v option"
    and put :: "'k \<Rightarrow> 'v \<Rightarrow> 's \<Rightarrow> 's"
  assumes lookup_put: "lookup (put k v s) k' = (if k' = k then Some v else lookup s k')"
begin

definition put_all :: "('k \<times> 'v) list \<Rightarrow> 's \<Rightarrow> 's" where
  "put_all es s = fold (\<lambda>(k, v). put k v) es s"

lemma put_all_simps [simp]:
  "put_all [] s = s" "put_all ((k, v) # es) s = put_all es (put k v s)"
  by (simp_all add: put_all_def)

lemma lookup_put_all:
  "lookup (put_all es s) k = (case map_of (rev es) k of Some v \<Rightarrow> Some v | None \<Rightarrow> lookup s k)"
  by (induction es arbitrary: s) (auto simp: lookup_put map_add_def split: option.splits)

lemma lookup_put_all_distinct:
  assumes "distinct (map fst es)" and "\<And>k. lookup s k = None"
  shows "lookup (put_all es s) k = map_of es k"
proof -
  have "map_of (rev es) = map_of es" by (rule map_of_rev_distinct [OF assms(1)])
  then show ?thesis by (simp add: lookup_put_all assms(2) split: option.splits)
qed

lemma represented_put:
  assumes "\<And>k. lookup s k = map_option repr (m k)"
  shows "lookup (put k (repr v) s) k' = map_option repr ((m(k \<mapsto> v)) k')"
  by (simp add: lookup_put assms)

lemma put_last_wins: "lookup (put k w (put k v s)) k' = lookup (put k w s) k'"
  by (simp add: lookup_put)

lemma put_other: "k \<noteq> l \<Longrightarrow> lookup (put k v (put l w s)) k' = lookup (put l w (put k v s)) k'"
  by (auto simp: lookup_put)

end

section \<open>Reading values off a byte stream\<close>

text \<open>
  The contract of an encoder and a decoder: what the decoder takes off the front of a stream is
  what the encoder put there, and the rest of the stream is left.
\<close>

locale stream_codec =
  fixes enc :: "'a \<Rightarrow> byte list"
    and dec :: "byte list \<Rightarrow> ('a \<times> byte list) option"
    and valid :: "'a \<Rightarrow> bool"
  assumes dec_enc: "valid x \<Longrightarrow> dec (enc x @ rest) = Some (x, rest)"
begin

lemma dec_whole: "valid x \<Longrightarrow> dec (enc x) = Some (x, [])"
  using dec_enc [of x "[]"] by simp

lemma prefix_free: "valid x \<Longrightarrow> valid y \<Longrightarrow> enc x @ r = enc y @ s \<Longrightarrow> x = y \<and> r = s"
proof -
  assume v: "valid x" "valid y" and eq: "enc x @ r = enc y @ s"
  have "Some (x, r) = dec (enc y @ s)" using dec_enc [OF v(1), of r] unfolding eq by (rule sym)
  also have "\<dots> = Some (y, s)" by (rule dec_enc [OF v(2)])
  finally show "x = y \<and> r = s" by simp
qed

lemma enc_inj: "valid x \<Longrightarrow> valid y \<Longrightarrow> enc x = enc y \<Longrightarrow> x = y"
  by (rule prefix_free [of x y "[]" "[]", THEN conjunct1]) simp_all

lemma enc_many_inj:
  "list_all valid xs \<Longrightarrow> list_all valid ys \<Longrightarrow> length xs = length ys \<Longrightarrow>
     concat (map enc xs) = concat (map enc ys) \<Longrightarrow> xs = ys"
proof (induction xs arbitrary: ys)
  case (Cons x xs)
  from Cons.prems(3) obtain y zs where ys: "ys = y # zs" by (cases ys) auto
  have "x = y \<and> concat (map enc xs) = concat (map enc zs)"
    by (rule prefix_free) (use Cons.prems ys in auto)
  with Cons.IH [of zs] Cons.prems ys show ?case by simp
qed simp

end

section \<open>Little-endian integers\<close>

definition le32 :: "32 word \<Rightarrow> byte list" where
  "le32 w = map (\<lambda>i. ucast (drop_bit (8 * i) w)) [0, 1, 2, 3]"

definition from_le32 :: "byte \<Rightarrow> byte \<Rightarrow> byte \<Rightarrow> byte \<Rightarrow> 32 word" where
  "from_le32 a b c d = ucast a OR push_bit 8 (ucast b) OR push_bit 16 (ucast c) OR push_bit 24 (ucast d)"

lemma le32_unfold [wire_simps]:
  "le32 w = [ucast w, ucast (drop_bit 8 w), ucast (drop_bit 16 w), ucast (drop_bit 24 w)]"
proof -
  have "8 * (0 :: nat) = 0" "8 * (1 :: nat) = 8" "8 * (2 :: nat) = 16" "8 * (3 :: nat) = 24" by simp_all
  then show ?thesis by (simp only: le32_def list.map drop_bit_0 id_apply)
qed

lemma le32_length [simp]: "length (le32 w) = 4"
  by (simp add: le32_def)

lemma bit_byte_high: "8 \<le> n \<Longrightarrow> \<not> bit (b :: byte) n"
  using bit_imp_le_length [of b n] by auto

lemma bit_from_le32:
  "bit (from_le32 a b c d) n \<longleftrightarrow>
     (bit a n \<or> 8 \<le> n \<and> bit b (n - 8) \<or> 16 \<le> n \<and> bit c (n - 16) \<or> 24 \<le> n \<and> bit d (n - 24))"
proof (cases "n < 32")
  case True
  then have "n - 8 < 32" "n - 16 < 32" "n - 24 < 32" by linarith+
  with True show ?thesis by (simp add: from_le32_def bit_or_iff bit_push_bit_iff bit_ucast_iff)
next
  case False
  then have "\<not> bit (from_le32 a b c d) n" "\<not> bit a n" "\<not> bit b (n - 8)" "\<not> bit c (n - 16)" "\<not> bit d (n - 24)"
    using bit_imp_le_length [of "from_le32 a b c d" n] by (auto simp: bit_byte_high)
  then show ?thesis by simp
qed

lemma from_le32_le32 [wire_simps]:
  "from_le32 (ucast w) (ucast (drop_bit 8 w)) (ucast (drop_bit 16 w)) (ucast (drop_bit 24 w)) = w"
proof (rule bit_eqI)
  fix n assume "possible_bit TYPE(32 word) n"
  then have n: "n < 32" by (simp add: possible_bit_word)
  consider "n < 8" | "8 \<le> n" "n < 16" | "16 \<le> n" "n < 24" | "24 \<le> n" "n < 32" using n by linarith
  then show "bit (from_le32 (ucast w) (ucast (drop_bit 8 w)) (ucast (drop_bit 16 w)) (ucast (drop_bit 24 w))) n = bit w n"
    by cases (auto simp: bit_from_le32 bit_ucast_iff bit_drop_bit_eq)
qed

lemma le32_from_le32 [wire_simps]:
  "(ucast (from_le32 a b c d) :: byte) = a" "(ucast (drop_bit 8 (from_le32 a b c d)) :: byte) = b"
  "(ucast (drop_bit 16 (from_le32 a b c d)) :: byte) = c" "(ucast (drop_bit 24 (from_le32 a b c d)) :: byte) = d"
  by (rule bit_eqI; simp add: bit_ucast_iff bit_drop_bit_eq bit_from_le32 bit_byte_high possible_bit_word)+
end
