(* ===== verification/Kernel_Error.thy ===== *)
theory Kernel_Error
  imports Prelude
begin

text \<open>
  The kernel's error codes (\<open>TactilityKernel/include/tactility/error.h\<close>) and their printable names
  (\<open>TactilityKernel/source/error.cpp\<close>). \<open>error_t\<close> is an \<open>int\<close>: drivers may return any value, so it
  is not a closed enumeration.
\<close>

abbreviation ERROR_NONE :: error_t where "ERROR_NONE \<equiv> 0"
abbreviation ERROR_UNDEFINED :: error_t where "ERROR_UNDEFINED \<equiv> 1"
abbreviation ERROR_INVALID_STATE :: error_t where "ERROR_INVALID_STATE \<equiv> 2"
abbreviation ERROR_INVALID_ARGUMENT :: error_t where "ERROR_INVALID_ARGUMENT \<equiv> 3"
abbreviation ERROR_MISSING_PARAMETER :: error_t where "ERROR_MISSING_PARAMETER \<equiv> 4"
abbreviation ERROR_NOT_FOUND :: error_t where "ERROR_NOT_FOUND \<equiv> 5"
abbreviation ERROR_ISR_STATUS :: error_t where "ERROR_ISR_STATUS \<equiv> 6"
abbreviation ERROR_RESOURCE :: error_t where "ERROR_RESOURCE \<equiv> 7"
abbreviation ERROR_TIMEOUT :: error_t where "ERROR_TIMEOUT \<equiv> 8"
abbreviation ERROR_OUT_OF_MEMORY :: error_t where "ERROR_OUT_OF_MEMORY \<equiv> 9"
abbreviation ERROR_NOT_SUPPORTED :: error_t where "ERROR_NOT_SUPPORTED \<equiv> 10"
abbreviation ERROR_NOT_ALLOWED :: error_t where "ERROR_NOT_ALLOWED \<equiv> 11"
abbreviation ERROR_BUFFER_OVERFLOW :: error_t where "ERROR_BUFFER_OVERFLOW \<equiv> 12"
abbreviation ERROR_OUT_OF_RANGE :: error_t where "ERROR_OUT_OF_RANGE \<equiv> 13"
abbreviation ERROR_RESOURCE_BUSY :: error_t where "ERROR_RESOURCE_BUSY \<equiv> 14"
abbreviation ERROR_ALREADY_EXISTS :: error_t where "ERROR_ALREADY_EXISTS \<equiv> 15"
abbreviation ERROR_NOT_EMPTY :: error_t where "ERROR_NOT_EMPTY \<equiv> 16"

definition error_to_string :: "error_t \<Rightarrow> string" where
  "error_to_string e =
     (if e = ERROR_NONE then ''no error''
      else if e = ERROR_UNDEFINED then ''undefined''
      else if e = ERROR_INVALID_STATE then ''invalid state''
      else if e = ERROR_INVALID_ARGUMENT then ''invalid argument''
      else if e = ERROR_MISSING_PARAMETER then ''missing parameter''
      else if e = ERROR_NOT_FOUND then ''not found''
      else if e = ERROR_ISR_STATUS then ''ISR status''
      else if e = ERROR_RESOURCE then ''resource''
      else if e = ERROR_TIMEOUT then ''timeout''
      else if e = ERROR_OUT_OF_MEMORY then ''out of memory''
      else if e = ERROR_NOT_SUPPORTED then ''not supported''
      else if e = ERROR_NOT_ALLOWED then ''not allowed''
      else if e = ERROR_BUFFER_OVERFLOW then ''buffer overflow''
      else if e = ERROR_RESOURCE_BUSY then ''resource busy''
      else if e = ERROR_ALREADY_EXISTS then ''already exists''
      else if e = ERROR_NOT_EMPTY then ''not empty''
      else ''unknown'')"

text \<open>
  The copy of a \<open>std::string\<close> into a caller's buffer of a given size: the result code, and the bytes
  written when the string fits with its terminator.
\<close>

definition copy_out :: "string \<Rightarrow> nat \<Rightarrow> error_t \<times> string option" where
  "copy_out v out_value_size =
     (if length v + 1 > out_value_size then (ERROR_BUFFER_OVERFLOW, None) else (ERROR_NONE, Some (v @ [NUL])))"

end
