(* ===== verification/Kernel_State.thy ===== *)
theory Kernel_State
  imports Kernel_Error
begin

text \<open>
  The data model of the kernel's object system: \<open>struct Device\<close>, \<open>struct Driver\<close> and
  \<open>struct Module\<close> with their internals, the three ledgers, the device listeners and the hotplug
  registry. A C pointer to one of the structs is an address (a \<open>nat\<close>); the kernel state maps every
  address to the struct stored there. A null \<open>internal\<close> pointer is \<open>None\<close>, and every function that
  dereferences it is \<open>None\<close> there.

  Function pointers are code addresses; what the code at an address does is the environment
  \<open>kenv\<close>, an argument of every operation that calls through a pointer. A callback runs on the
  kernel state, so it may call back into the kernel, and what other tasks do while the kernel holds
  no lock is part of what a callback does to the state. The mutexes themselves are not represented:
  each critical section is one indivisible definition. Logging and tick counting have no effect on
  the state and are left out.

  \<open>new(std::nothrow)\<close> may fail at any time: the field \<open>allocs\<close> lists the outcome of the coming
  allocations (an empty list means that they all succeed), and theorems hold for every such list.
\<close>

section \<open>Structs\<close>

type_synonym dev = nat      \<comment> \<open>\<open>Device*\<close>\<close>
type_synonym drv = nat      \<comment> \<open>\<open>Driver*\<close>\<close>
type_synonym modref = nat   \<comment> \<open>\<open>Module*\<close>\<close>
type_synonym dtype = nat    \<comment> \<open>\<open>const DeviceType*\<close>\<close>

record DeviceInternal =
  driver :: "drv option"
  driver_data :: "ptr option"
  start_result :: error_t
  started :: bool
  added :: bool
  starting :: bool
  stopping :: bool
  removing :: bool
  children :: "dev list"
  hp_consecutive :: byte
  hp_present :: bool
  ref_count :: int

definition DeviceInternal_init :: DeviceInternal where
  "DeviceInternal_init = \<lparr>driver = None, driver_data = None, start_result = 0, started = False,
     added = False, starting = False, stopping = False, removing = False, children = [],
     hp_consecutive = 0, hp_present = False, ref_count = 0\<rparr>"

record Device =
  dev_address :: int
  dev_name :: "string option"
  dev_config :: "ptr option"
  parent :: "dev option"
  dev_flags :: byte
  dev_internal :: "DeviceInternal option"

record DriverInternal =
  use_count :: int
  destroying :: bool
  owner :: "modref option"

definition DriverInternal_init :: DriverInternal where
  "DriverInternal_init = \<lparr>use_count = 0, destroying = False, owner = None\<rparr>"

record Driver =
  drv_name :: string
  compatible :: "string list option"   \<comment> \<open>the array up to its NULL terminator\<close>
  start_device :: "fn option"
  stop_device :: "fn option"
  probe :: "fn option"
  api :: "ptr option"
  device_type :: "dtype option"
  drv_internal :: "DriverInternal option"

record ModuleInternal =
  mod_started :: bool
  drivers_ready :: bool

definition ModuleInternal_init :: ModuleInternal where
  "ModuleInternal_init = \<lparr>mod_started = False, drivers_ready = False\<rparr>"

record Module =
  mod_name :: string
  mod_start :: "fn option"
  mod_stop :: "fn option"
  mod_drivers :: "drv list option"     \<comment> \<open>the array up to its NULL terminator\<close>
  mod_symbols :: "(string \<times> ptr) list option"
  mod_internal :: "ModuleInternal option"

record kernel =
  devices :: "dev \<Rightarrow> Device"
  drivers :: "drv \<Rightarrow> Driver"
  modules :: "modref \<Rightarrow> Module"
  device_ledger :: "dev list"
  driver_ledger :: "drv list"
  module_ledger :: "modref list"
  listeners :: "(fn \<times> ptr) list"
  hotplug_registered_devices :: "dev list"
  hotplug_timer :: bool
  allocs :: "bool list"

datatype DeviceEvent = DEVICE_EVENT_STARTED | DEVICE_EVENT_STOPPING | DEVICE_EVENT_STOPPED

record kenv =
  run_start_device :: "fn \<Rightarrow> dev \<Rightarrow> kernel \<Rightarrow> (error_t \<times> kernel) option"
  run_stop_device :: "fn \<Rightarrow> dev \<Rightarrow> kernel \<Rightarrow> (error_t \<times> kernel) option"
  run_probe :: "fn \<Rightarrow> dev \<Rightarrow> kernel \<Rightarrow> (error_t \<times> kernel) option"
  run_listener :: "fn \<Rightarrow> dev \<Rightarrow> DeviceEvent \<Rightarrow> ptr \<Rightarrow> kernel \<Rightarrow> kernel option"
  run_module_fn :: "fn \<Rightarrow> kernel \<Rightarrow> (error_t \<times> kernel) option"

section \<open>Access to the structs\<close>

definition new_nothrow :: "kernel \<Rightarrow> bool \<times> kernel" where
  "new_nothrow s = (case allocs s of [] \<Rightarrow> (True, s) | b # bs \<Rightarrow> (b, s\<lparr>allocs := bs\<rparr>))"

abbreviation device_internal :: "dev \<Rightarrow> kernel \<Rightarrow> DeviceInternal option" where
  "device_internal d s \<equiv> dev_internal (devices s d)"

abbreviation driver_internal :: "drv \<Rightarrow> kernel \<Rightarrow> DriverInternal option" where
  "driver_internal r s \<equiv> drv_internal (drivers s r)"

abbreviation module_internal :: "modref \<Rightarrow> kernel \<Rightarrow> ModuleInternal option" where
  "module_internal m s \<equiv> mod_internal (modules s m)"

definition upd_device :: "dev \<Rightarrow> (Device \<Rightarrow> Device) \<Rightarrow> kernel \<Rightarrow> kernel" where
  "upd_device d f s = s\<lparr>devices := (devices s)(d := f (devices s d))\<rparr>"

definition upd_internal :: "dev \<Rightarrow> (DeviceInternal \<Rightarrow> DeviceInternal) \<Rightarrow> kernel \<Rightarrow> kernel" where
  "upd_internal d f = upd_device d (\<lambda>x. x\<lparr>dev_internal := map_option f (dev_internal x)\<rparr>)"

definition upd_driver :: "drv \<Rightarrow> (Driver \<Rightarrow> Driver) \<Rightarrow> kernel \<Rightarrow> kernel" where
  "upd_driver r f s = s\<lparr>drivers := (drivers s)(r := f (drivers s r))\<rparr>"

definition upd_driver_internal :: "drv \<Rightarrow> (DriverInternal \<Rightarrow> DriverInternal) \<Rightarrow> kernel \<Rightarrow> kernel" where
  "upd_driver_internal r f = upd_driver r (\<lambda>x. x\<lparr>drv_internal := map_option f (drv_internal x)\<rparr>)"

definition upd_module :: "modref \<Rightarrow> (Module \<Rightarrow> Module) \<Rightarrow> kernel \<Rightarrow> kernel" where
  "upd_module m f s = s\<lparr>modules := (modules s)(m := f (modules s m))\<rparr>"

lemma upd_sel [simp]:
  "devices (upd_device d f s) = (devices s)(d := f (devices s d))"
  "drivers (upd_device d f s) = drivers s"
  "modules (upd_device d f s) = modules s"
  "device_ledger (upd_device d f s) = device_ledger s"
  "driver_ledger (upd_device d f s) = driver_ledger s"
  "module_ledger (upd_device d f s) = module_ledger s"
  "listeners (upd_device d f s) = listeners s"
  "hotplug_registered_devices (upd_device d f s) = hotplug_registered_devices s"
  "drivers (upd_driver r g s) = (drivers s)(r := g (drivers s r))"
  "devices (upd_driver r g s) = devices s"
  "modules (upd_driver r g s) = modules s"
  "device_ledger (upd_driver r g s) = device_ledger s"
  "driver_ledger (upd_driver r g s) = driver_ledger s"
  "module_ledger (upd_driver r g s) = module_ledger s"
  "listeners (upd_driver r g s) = listeners s"
  "hotplug_registered_devices (upd_driver r g s) = hotplug_registered_devices s"
  "modules (upd_module m h s) = (modules s)(m := h (modules s m))"
  "devices (upd_module m h s) = devices s"
  "drivers (upd_module m h s) = drivers s"
  "device_ledger (upd_module m h s) = device_ledger s"
  "driver_ledger (upd_module m h s) = driver_ledger s"
  "module_ledger (upd_module m h s) = module_ledger s"
  "listeners (upd_module m h s) = listeners s"
  "hotplug_registered_devices (upd_module m h s) = hotplug_registered_devices s"
  by (simp_all add: upd_device_def upd_driver_def upd_module_def)

lemma upd_internal_sel [simp]:
  "devices (upd_internal d f s) = (devices s)(d := (devices s d)\<lparr>dev_internal := map_option f (device_internal d s)\<rparr>)"
  "drivers (upd_internal d f s) = drivers s"
  "modules (upd_internal d f s) = modules s"
  "device_ledger (upd_internal d f s) = device_ledger s"
  "driver_ledger (upd_internal d f s) = driver_ledger s"
  "module_ledger (upd_internal d f s) = module_ledger s"
  "listeners (upd_internal d f s) = listeners s"
  "hotplug_registered_devices (upd_internal d f s) = hotplug_registered_devices s"
  "drivers (upd_driver_internal r g s) = (drivers s)(r := (drivers s r)\<lparr>drv_internal := map_option g (driver_internal r s)\<rparr>)"
  "devices (upd_driver_internal r g s) = devices s"
  "modules (upd_driver_internal r g s) = modules s"
  "device_ledger (upd_driver_internal r g s) = device_ledger s"
  "driver_ledger (upd_driver_internal r g s) = driver_ledger s"
  "module_ledger (upd_driver_internal r g s) = module_ledger s"
  "listeners (upd_driver_internal r g s) = listeners s"
  "hotplug_registered_devices (upd_driver_internal r g s) = hotplug_registered_devices s"
  by (simp_all add: upd_internal_def upd_driver_internal_def)

lemma new_nothrow_sel [simp]:
  "devices (snd (new_nothrow s)) = devices s"
  "drivers (snd (new_nothrow s)) = drivers s"
  "modules (snd (new_nothrow s)) = modules s"
  "device_ledger (snd (new_nothrow s)) = device_ledger s"
  "driver_ledger (snd (new_nothrow s)) = driver_ledger s"
  "module_ledger (snd (new_nothrow s)) = module_ledger s"
  "listeners (snd (new_nothrow s)) = listeners s"
  "hotplug_registered_devices (snd (new_nothrow s)) = hotplug_registered_devices s"
  by (simp_all add: new_nothrow_def split: list.splits)

end
