(* ===== verification/Kernel_Driver.thy ===== *)
theory Kernel_Driver
  imports Kernel_State
begin

text \<open>
  \<open>TactilityKernel/source/driver.cpp\<close>: the driver ledger and the binding of drivers to devices.
  \<open>driver_bind\<close> and \<open>driver_unbind\<close> call the driver's function pointers through the environment.
\<close>

section \<open>Construction and the ledger\<close>

definition driver_construct :: "drv \<Rightarrow> kernel \<Rightarrow> (error_t \<times> kernel) option" where
  "driver_construct r s =
     (case new_nothrow s of (ok, s) \<Rightarrow>
        if \<not> ok then Some (ERROR_OUT_OF_MEMORY, upd_driver r (\<lambda>x. x\<lparr>drv_internal := None\<rparr>) s)
        else Some (ERROR_NONE, upd_driver r (\<lambda>x. x\<lparr>drv_internal := Some DriverInternal_init\<rparr>) s))"

definition driver_destruct :: "drv \<Rightarrow> kernel \<Rightarrow> (error_t \<times> kernel) option" where
  "driver_destruct r s = do {
     i \<leftarrow> driver_internal r s;
     if use_count i \<noteq> 0 \<or> destroying i then Some (ERROR_INVALID_STATE, s)
     else Some (ERROR_NONE, upd_driver r (\<lambda>x. x\<lparr>drv_internal := None\<rparr>) s)
   }"

definition driver_add :: "drv \<Rightarrow> kernel \<Rightarrow> (error_t \<times> kernel) option" where
  "driver_add r s = Some (ERROR_NONE, s\<lparr>driver_ledger := driver_ledger s @ [r]\<rparr>)"

definition driver_remove :: "drv \<Rightarrow> kernel \<Rightarrow> (error_t \<times> kernel) option" where
  "driver_remove r s =
     (if r \<notin> set (driver_ledger s) then Some (ERROR_NOT_FOUND, s)
      else Some (ERROR_NONE, s\<lparr>driver_ledger := remove1 r (driver_ledger s)\<rparr>))"

definition driver_construct_add :: "drv \<Rightarrow> kernel \<Rightarrow> (error_t \<times> kernel) option" where
  "driver_construct_add r s = do {
     (e, s) \<leftarrow> driver_construct r s;
     if e \<noteq> ERROR_NONE then Some (ERROR_RESOURCE, s) else do {
     (e, s) \<leftarrow> driver_add r s;
     if e \<noteq> ERROR_NONE then Some (ERROR_RESOURCE, s) else Some (ERROR_NONE, s) }
   }"

definition driver_remove_destruct :: "drv \<Rightarrow> kernel \<Rightarrow> (error_t \<times> kernel) option" where
  "driver_remove_destruct r s = do {
     (e, s) \<leftarrow> driver_remove r s;
     if e \<noteq> ERROR_NONE then Some (ERROR_RESOURCE, s) else do {
     (e, s) \<leftarrow> driver_destruct r s;
     if e \<noteq> ERROR_NONE then Some (ERROR_RESOURCE, s) else Some (ERROR_NONE, s) }
   }"

definition driver_set_owner :: "drv \<Rightarrow> modref option \<Rightarrow> kernel \<Rightarrow> kernel option" where
  "driver_set_owner r m s = do {
     i \<leftarrow> driver_internal r s;
     Some (upd_driver_internal r (\<lambda>i. i\<lparr>owner := m\<rparr>) s)
   }"

definition driver_get_owner :: "drv \<Rightarrow> kernel \<Rightarrow> modref option option" where
  "driver_get_owner r s = map_option owner (driver_internal r s)"

section \<open>Compatibility\<close>

fun compatible_loop :: "string list \<Rightarrow> string \<Rightarrow> bool" where
  "compatible_loop [] c = False"
| "compatible_loop (x # xs) c = (if x = c then True else compatible_loop xs c)"

definition driver_is_compatible :: "Driver \<Rightarrow> string option \<Rightarrow> bool" where
  "driver_is_compatible r c =
     (case c of None \<Rightarrow> False
      | Some c \<Rightarrow> (case compatible r of None \<Rightarrow> False | Some cs \<Rightarrow> compatible_loop cs c))"

fun find_compatible_loop :: "drv list \<Rightarrow> string option \<Rightarrow> kernel \<Rightarrow> drv option" where
  "find_compatible_loop [] c s = None"
| "find_compatible_loop (r # rs) c s =
     (if driver_is_compatible (drivers s r) c then Some r else find_compatible_loop rs c s)"

definition driver_find_compatible :: "string option \<Rightarrow> kernel \<Rightarrow> drv option" where
  "driver_find_compatible c s = find_compatible_loop (driver_ledger s) c s"

lemma compatible_loop_set [simp]: "compatible_loop cs c \<longleftrightarrow> c \<in> set cs"
  by (induction cs) auto

lemma find_compatible_loop_find:
  "find_compatible_loop rs c s = List.find (\<lambda>r. driver_is_compatible (drivers s r) c) rs"
  by (induction rs) auto

section \<open>Binding\<close>

definition DEVICE_FLAG_HOTPLUG :: byte where
  "DEVICE_FLAG_HOTPLUG = push_bit 4 1"

definition device_is_added :: "dev \<Rightarrow> kernel \<Rightarrow> bool option" where
  "device_is_added d s = map_option added (device_internal d s)"

text \<open>The condition \<open>probe != nullptr && (flags & HOTPLUG) != 0 && probe(device) != ERROR_NONE\<close>.\<close>

definition probe_reports_absent :: "kenv \<Rightarrow> drv \<Rightarrow> dev \<Rightarrow> kernel \<Rightarrow> (bool \<times> kernel) option" where
  "probe_reports_absent env r d s =
     (case probe (drivers s r) of
        None \<Rightarrow> Some (False, s)
      | Some f \<Rightarrow>
          if dev_flags (devices s d) AND DEVICE_FLAG_HOTPLUG = 0 then Some (False, s)
          else do { (e, s) \<leftarrow> run_probe env f d s; Some (e \<noteq> ERROR_NONE, s) })"

definition run_optional :: "(fn \<Rightarrow> dev \<Rightarrow> kernel \<Rightarrow> (error_t \<times> kernel) option) \<Rightarrow> fn option \<Rightarrow> dev \<Rightarrow> kernel
    \<Rightarrow> (error_t \<times> kernel) option" where
  "run_optional run fo d s = (case fo of None \<Rightarrow> Some (ERROR_NONE, s) | Some f \<Rightarrow> run f d s)"

definition driver_bind :: "kenv \<Rightarrow> drv \<Rightarrow> dev \<Rightarrow> kernel \<Rightarrow> (error_t \<times> kernel) option" where
  "driver_bind env r d s = do {
     i \<leftarrow> driver_internal r s;
     if destroying i then Some (ERROR_INVALID_STATE, s) else do {
     is_added \<leftarrow> device_is_added d s;
     if \<not> is_added then Some (ERROR_INVALID_STATE, s) else do {
     (absent, s) \<leftarrow> probe_reports_absent env r d s;
     if absent then Some (ERROR_NOT_FOUND, s) else do {
     (e, s) \<leftarrow> run_optional (run_start_device env) (start_device (drivers s r)) d s;
     if e \<noteq> ERROR_NONE then Some (e, s) else do {
     i \<leftarrow> driver_internal r s;
     Some (ERROR_NONE, upd_driver_internal r (\<lambda>i. i\<lparr>use_count := use_count i + 1\<rparr>) s) } } } }
   }"

definition driver_unbind :: "kenv \<Rightarrow> drv \<Rightarrow> dev \<Rightarrow> kernel \<Rightarrow> (error_t \<times> kernel) option" where
  "driver_unbind env r d s = do {
     i \<leftarrow> driver_internal r s;
     if destroying i then Some (ERROR_INVALID_STATE, s) else do {
     is_added \<leftarrow> device_is_added d s;
     if \<not> is_added then Some (ERROR_INVALID_STATE, s) else do {
     (e, s) \<leftarrow> run_optional (run_stop_device env) (stop_device (drivers s r)) d s;
     if e \<noteq> ERROR_NONE then Some (e, s) else do {
     i \<leftarrow> driver_internal r s;
     Some (ERROR_NONE, upd_driver_internal r (\<lambda>i. i\<lparr>use_count := use_count i - 1\<rparr>) s) } } }
   }"

definition driver_get_device_type :: "drv \<Rightarrow> kernel \<Rightarrow> dtype option" where
  "driver_get_device_type r s = device_type (drivers s r)"

lemmas driver_defs =
  driver_construct_def driver_destruct_def driver_add_def driver_remove_def driver_construct_add_def
  driver_remove_destruct_def driver_set_owner_def

end
