(* ===== verification/Device_Listener.thy ===== *)
theory Device_Listener
  imports Kernel_State
begin

text \<open>
  \<open>TactilityKernel/source/device_listener.cpp\<close>: listeners that are told when a device starts, is
  about to stop and has stopped. A notification runs over a copy of the listener list, so a
  listener that registers or removes listeners does not change who is told about this event.
\<close>

definition device_listener_add :: "fn \<Rightarrow> ptr \<Rightarrow> kernel \<Rightarrow> kernel" where
  "device_listener_add cb ctx s = s\<lparr>listeners := listeners s @ [(cb, ctx)]\<rparr>"

definition device_listener_remove :: "fn \<Rightarrow> ptr \<Rightarrow> kernel \<Rightarrow> kernel" where
  "device_listener_remove cb ctx s = s\<lparr>listeners := remove1 (cb, ctx) (listeners s)\<rparr>"

fun notify_loop :: "kenv \<Rightarrow> dev \<Rightarrow> DeviceEvent \<Rightarrow> (fn \<times> ptr) list \<Rightarrow> kernel \<Rightarrow> kernel option" where
  "notify_loop env d ev [] s = Some s"
| "notify_loop env d ev ((cb, ctx) # ls) s = do {
     s \<leftarrow> run_listener env cb d ev ctx s;
     notify_loop env d ev ls s
   }"

definition device_listener_notify :: "kenv \<Rightarrow> dev \<Rightarrow> DeviceEvent \<Rightarrow> kernel \<Rightarrow> kernel option" where
  "device_listener_notify env d ev s = notify_loop env d ev (listeners s) s"

end
