(* ===== verification/Kernel_Device.thy ===== *)
theory Kernel_Device
  imports Kernel_Driver Device_Listener
begin

text \<open>
  \<open>TactilityKernel/source/device.cpp\<close>: the life cycle of a device (construct, add, start, stop,
  remove, destruct), reference counting and the lookups over the device ledger.

  \<open>device_start\<close> and \<open>device_stop\<close> release the device's mutex while the driver's callback runs.
  Each is therefore composed of an entry section, the callback and a closing section, the two
  sections being indivisible. \<open>device_remove\<close> is composed in the same way.
\<close>

section \<open>Construction\<close>

definition device_construct :: "dev \<Rightarrow> kernel \<Rightarrow> (error_t \<times> kernel) option" where
  "device_construct d s =
     (case new_nothrow s of (ok, s) \<Rightarrow>
        if \<not> ok then Some (ERROR_OUT_OF_MEMORY, upd_device d (\<lambda>x. x\<lparr>dev_internal := None\<rparr>) s)
        else Some (ERROR_NONE, upd_device d (\<lambda>x. x\<lparr>dev_internal := Some DeviceInternal_init\<rparr>) s))"

definition device_destruct :: "dev \<Rightarrow> kernel \<Rightarrow> (error_t \<times> kernel) option" where
  "device_destruct d s = do {
     i \<leftarrow> device_internal d s;
     if ref_count i > 0 then Some (ERROR_RESOURCE_BUSY, s)
     else if started i \<or> added i \<or> removing i then Some (ERROR_INVALID_STATE, s)
     else if children i \<noteq> [] then Some (ERROR_INVALID_STATE, s)
     else Some (ERROR_NONE, upd_device d (\<lambda>x. x\<lparr>dev_internal := None\<rparr>) s)
   }"

section \<open>The ledger and the device tree\<close>

definition device_add_child :: "dev \<Rightarrow> dev \<Rightarrow> kernel \<Rightarrow> kernel option" where
  "device_add_child p c s = do {
     i \<leftarrow> device_internal p s;
     if \<not> added i then None   \<comment> \<open>\<open>check(device->internal->state.added)\<close>\<close>
     else Some (upd_internal p (\<lambda>i. i\<lparr>children := children i @ [c]\<rparr>) s)
   }"

definition device_remove_child :: "dev \<Rightarrow> dev \<Rightarrow> kernel \<Rightarrow> kernel option" where
  "device_remove_child p c s = do {
     i \<leftarrow> device_internal p s;
     Some (upd_internal p (\<lambda>i. i\<lparr>children := remove1 c (children i)\<rparr>) s)
   }"

definition for_parent :: "(dev \<Rightarrow> kernel \<Rightarrow> kernel option) \<Rightarrow> dev option \<Rightarrow> kernel \<Rightarrow> kernel option" where
  "for_parent f po s = (case po of None \<Rightarrow> Some s | Some p \<Rightarrow> f p s)"

definition device_add :: "dev \<Rightarrow> kernel \<Rightarrow> (error_t \<times> kernel) option" where
  "device_add d s = do {
     i \<leftarrow> device_internal d s;
     if started i \<or> added i \<or> removing i then Some (ERROR_INVALID_STATE, s) else do {
     let s = s\<lparr>device_ledger := device_ledger s @ [d]\<rparr>;
     s \<leftarrow> for_parent (\<lambda>p. device_add_child p d) (parent (devices s d)) s;
     Some (ERROR_NONE, upd_internal d (\<lambda>i. i\<lparr>added := True\<rparr>) s) }
   }"

definition device_remove_enter :: "dev \<Rightarrow> kernel \<Rightarrow> (bool \<times> kernel) option" where
  "device_remove_enter d s = do {
     i \<leftarrow> device_internal d s;
     if started i \<or> starting i \<or> \<not> added i then Some (False, s)
     else Some (True, upd_internal d (\<lambda>i. i\<lparr>added := False, removing := True\<rparr>) s)
   }"

definition device_remove :: "dev \<Rightarrow> kernel \<Rightarrow> (error_t \<times> kernel) option" where
  "device_remove d s = do {
     (ok, s) \<leftarrow> device_remove_enter d s;
     if \<not> ok then Some (ERROR_INVALID_STATE, s) else do {
     let po = parent (devices s d);
     s \<leftarrow> for_parent (\<lambda>p. device_remove_child p d) po s;
     if d \<notin> set (device_ledger s) then do {
       s \<leftarrow> for_parent (\<lambda>p. device_add_child p d) po s;
       Some (ERROR_NOT_FOUND, upd_internal d (\<lambda>i. i\<lparr>added := True, removing := False\<rparr>) s) }
     else do {
       let s = s\<lparr>device_ledger := remove1 d (device_ledger s)\<rparr>;
       Some (ERROR_NONE, upd_internal d (\<lambda>i. i\<lparr>removing := False\<rparr>) s) } }
   }"

section \<open>Starting and stopping\<close>

text \<open>What the entry section decides: return at once, or go on with the driver.\<close>

datatype entry = Return error_t | Proceed

definition device_start_enter :: "dev \<Rightarrow> kernel \<Rightarrow> (entry \<times> kernel) option" where
  "device_start_enter d s = do {
     i \<leftarrow> device_internal d s;
     if \<not> added i \<or> driver i = None then Some (Return ERROR_INVALID_STATE, s)
     else if started i then Some (Return ERROR_NONE, s)
     else if starting i then Some (Return ERROR_RESOURCE_BUSY, s)
     else Some (Proceed, upd_internal d (\<lambda>i. i\<lparr>starting := True\<rparr>) s)
   }"

definition device_start_finish :: "dev \<Rightarrow> error_t \<Rightarrow> kernel \<Rightarrow> kernel option" where
  "device_start_finish d e s = do {
     i \<leftarrow> device_internal d s;
     Some (upd_internal d (\<lambda>i. i\<lparr>starting := False, started := (e = ERROR_NONE), start_result := e\<rparr>) s)
   }"

definition device_start :: "kenv \<Rightarrow> dev \<Rightarrow> kernel \<Rightarrow> (error_t \<times> kernel) option" where
  "device_start env d s = do {
     (en, s) \<leftarrow> device_start_enter d s;
     (case en of Return e \<Rightarrow> Some (e, s) | Proceed \<Rightarrow> do {
       i \<leftarrow> device_internal d s;
       r \<leftarrow> driver i;
       (e, s) \<leftarrow> driver_bind env r d s;
       s \<leftarrow> device_start_finish d e s;
       if e \<noteq> ERROR_NONE
       then Some (if e = ERROR_NOT_FOUND then ERROR_NOT_FOUND else ERROR_RESOURCE, s)
       else do { s \<leftarrow> device_listener_notify env d DEVICE_EVENT_STARTED s; Some (ERROR_NONE, s) } })
   }"

definition device_stop_enter :: "dev \<Rightarrow> kernel \<Rightarrow> (entry \<times> kernel) option" where
  "device_stop_enter d s = do {
     i \<leftarrow> device_internal d s;
     if \<not> added i then Some (Return ERROR_INVALID_STATE, s)
     else if \<not> started i then Some (Return ERROR_NONE, s)
     else if stopping i then Some (Return ERROR_RESOURCE_BUSY, s)
     else Some (Proceed, upd_internal d (\<lambda>i. i\<lparr>stopping := True\<rparr>) s)
   }"

definition device_stop_finish :: "dev \<Rightarrow> error_t \<Rightarrow> kernel \<Rightarrow> kernel option" where
  "device_stop_finish d e s = do {
     i \<leftarrow> device_internal d s;
     Some (upd_internal d (\<lambda>i. if e \<noteq> ERROR_NONE then i\<lparr>stopping := False\<rparr>
                              else i\<lparr>stopping := False, started := False, start_result := 0\<rparr>) s)
   }"

definition device_stop :: "kenv \<Rightarrow> dev \<Rightarrow> kernel \<Rightarrow> (error_t \<times> kernel) option" where
  "device_stop env d s = do {
     (en, s) \<leftarrow> device_stop_enter d s;
     (case en of Return e \<Rightarrow> Some (e, s) | Proceed \<Rightarrow> do {
       s \<leftarrow> device_listener_notify env d DEVICE_EVENT_STOPPING s;
       i \<leftarrow> device_internal d s;
       r \<leftarrow> driver i;
       (e, s) \<leftarrow> driver_unbind env r d s;
       s \<leftarrow> device_stop_finish d e s;
       if e \<noteq> ERROR_NONE then Some (ERROR_RESOURCE, s)
       else do { s \<leftarrow> device_listener_notify env d DEVICE_EVENT_STOPPED s; Some (ERROR_NONE, s) } })
   }"

section \<open>Accessors\<close>

definition device_set_parent :: "dev \<Rightarrow> dev option \<Rightarrow> kernel \<Rightarrow> kernel option" where
  "device_set_parent d po s = do {
     i \<leftarrow> device_internal d s;
     if started i then None   \<comment> \<open>\<open>assert(!device->internal->state.started)\<close>\<close>
     else Some (upd_device d (\<lambda>x. x\<lparr>parent := po\<rparr>) s)
   }"

definition device_get_parent :: "dev \<Rightarrow> kernel \<Rightarrow> dev option" where
  "device_get_parent d s = parent (devices s d)"

definition device_set_driver :: "dev \<Rightarrow> drv option \<Rightarrow> kernel \<Rightarrow> kernel option" where
  "device_set_driver d r s = do {
     i \<leftarrow> device_internal d s;
     Some (upd_internal d (\<lambda>i. i\<lparr>driver := r\<rparr>) s)
   }"

definition device_get_driver :: "dev \<Rightarrow> kernel \<Rightarrow> drv option option" where
  "device_get_driver d s = map_option driver (device_internal d s)"

definition device_is_ready :: "dev \<Rightarrow> kernel \<Rightarrow> bool option" where
  "device_is_ready d s = map_option started (device_internal d s)"

definition device_is_compatible :: "dev \<Rightarrow> string option \<Rightarrow> kernel \<Rightarrow> bool option" where
  "device_is_compatible d c s = do {
     i \<leftarrow> device_internal d s;
     (case driver i of None \<Rightarrow> Some False | Some r \<Rightarrow> Some (driver_is_compatible (drivers s r) c))
   }"

definition device_set_driver_data :: "dev \<Rightarrow> ptr option \<Rightarrow> kernel \<Rightarrow> kernel option" where
  "device_set_driver_data d p s = do {
     i \<leftarrow> device_internal d s;
     Some (upd_internal d (\<lambda>i. i\<lparr>driver_data := p\<rparr>) s)
   }"

definition device_get_driver_data :: "dev \<Rightarrow> kernel \<Rightarrow> ptr option option" where
  "device_get_driver_data d s = map_option driver_data (device_internal d s)"

definition device_is_constructed :: "dev \<Rightarrow> kernel \<Rightarrow> bool" where
  "device_is_constructed d s \<longleftrightarrow> device_internal d s \<noteq> None"

definition device_get :: "dev \<Rightarrow> kernel \<Rightarrow> error_t \<times> kernel" where
  "device_get d s =
     (if device_internal d s = None then (ERROR_INVALID_STATE, s)
      else (ERROR_NONE, upd_internal d (\<lambda>i. i\<lparr>ref_count := ref_count i + 1\<rparr>) s))"

definition device_put :: "dev \<Rightarrow> kernel \<Rightarrow> kernel option" where
  "device_put d s = do {
     i \<leftarrow> device_internal d s;
     if ref_count i \<le> 0 then None   \<comment> \<open>\<open>check(internal->ref_count > 0)\<close>\<close>
     else Some (upd_internal d (\<lambda>i. i\<lparr>ref_count := ref_count i - 1\<rparr>) s)
   }"

definition device_get_type :: "dev \<Rightarrow> kernel \<Rightarrow> dtype option option" where
  "device_get_type d s = do {
     i \<leftarrow> device_internal d s;
     (case driver i of None \<Rightarrow> Some None | Some r \<Rightarrow> Some (device_type (drivers s r)))
   }"

definition device_get_child_count :: "dev \<Rightarrow> kernel \<Rightarrow> nat option" where
  "device_get_child_count d s = map_option (\<lambda>i. length (children i)) (device_internal d s)"

section \<open>Composed operations\<close>

definition device_construct_add :: "dev \<Rightarrow> string option \<Rightarrow> kernel \<Rightarrow> (error_t \<times> kernel) option" where
  "device_construct_add d c s =
     (case driver_find_compatible c s of
        None \<Rightarrow> Some (ERROR_RESOURCE, s)
      | Some r \<Rightarrow> do {
          (e, s) \<leftarrow> device_construct d s;
          if e \<noteq> ERROR_NONE then Some (e, s) else do {
          s \<leftarrow> device_set_driver d (Some r) s;
          (e, s) \<leftarrow> device_add d s;
          if e \<noteq> ERROR_NONE then do { (e', s) \<leftarrow> device_destruct d s; Some (e, s) }
          else Some (ERROR_NONE, s) } })"

definition device_construct_add_start :: "kenv \<Rightarrow> dev \<Rightarrow> string option \<Rightarrow> kernel \<Rightarrow> (error_t \<times> kernel) option" where
  "device_construct_add_start env d c s = do {
     (e, s) \<leftarrow> device_construct_add d c s;
     if e \<noteq> ERROR_NONE then Some (e, s) else do {
     (e, s) \<leftarrow> device_start env d s;
     if e \<noteq> ERROR_NONE then do {
       (e1, s) \<leftarrow> device_remove d s;
       (e2, s) \<leftarrow> device_destruct d s;
       Some (e, s) }
     else Some (ERROR_NONE, s) }
   }"

section \<open>Lookups over the ledger\<close>

text \<open>The loops of the lookups: the first device of the ledger that satisfies a test.\<close>

fun find_device :: "(dev \<Rightarrow> kernel \<Rightarrow> bool option) \<Rightarrow> dev list \<Rightarrow> kernel \<Rightarrow> dev option option" where
  "find_device p [] s = Some None"
| "find_device p (d # ds) s = do { b \<leftarrow> p d s; if b then Some (Some d) else find_device p ds s }"

definition has_name :: "string \<Rightarrow> dev \<Rightarrow> kernel \<Rightarrow> bool option" where
  "has_name n d s = Some (dev_name (devices s d) = Some n)"

definition has_type :: "dtype option \<Rightarrow> dev \<Rightarrow> kernel \<Rightarrow> bool option" where
  "has_type t d s = do {
     i \<leftarrow> device_internal d s;
     Some (case driver i of None \<Rightarrow> False | Some r \<Rightarrow> device_type (drivers s r) = t)
   }"

definition has_active_type :: "dtype option \<Rightarrow> dev \<Rightarrow> kernel \<Rightarrow> bool option" where
  "has_active_type t d s = do {
     i \<leftarrow> device_internal d s;
     Some (case driver i of None \<Rightarrow> False | Some r \<Rightarrow> device_type (drivers s r) = t \<and> started i)
   }"

definition device_get_found :: "dev option \<Rightarrow> kernel \<Rightarrow> error_t \<times> dev option \<times> kernel" where
  "device_get_found fo s =
     (case fo of
        None \<Rightarrow> (ERROR_NOT_FOUND, None, s)
      | Some d \<Rightarrow> (case device_get d s of (e, s) \<Rightarrow> (e, if e = ERROR_NONE then Some d else None, s)))"

definition device_get_by_name :: "string \<Rightarrow> kernel \<Rightarrow> (error_t \<times> dev option \<times> kernel) option" where
  "device_get_by_name n s = do {
     fo \<leftarrow> find_device (has_name n) (device_ledger s) s; Some (device_get_found fo s) }"

definition device_get_first_by_type :: "dtype option \<Rightarrow> kernel \<Rightarrow> (error_t \<times> dev option \<times> kernel) option" where
  "device_get_first_by_type t s = do {
     fo \<leftarrow> find_device (has_type t) (device_ledger s) s; Some (device_get_found fo s) }"

definition device_get_first_active_by_type :: "dtype option \<Rightarrow> kernel \<Rightarrow> (error_t \<times> dev option \<times> kernel) option" where
  "device_get_first_active_by_type t s = do {
     fo \<leftarrow> find_device (has_active_type t) (device_ledger s) s; Some (device_get_found fo s) }"

definition device_get_first_by_compatible :: "string option \<Rightarrow> kernel \<Rightarrow> (error_t \<times> dev option \<times> kernel) option" where
  "device_get_first_by_compatible c s = do {
     fo \<leftarrow> find_device (\<lambda>d. device_is_compatible d c) (device_ledger s) s; Some (device_get_found fo s) }"

definition device_exists_of_type :: "dtype option \<Rightarrow> kernel \<Rightarrow> bool option" where
  "device_exists_of_type t s = map_option (\<lambda>fo. fo \<noteq> None) (find_device (has_type t) (device_ledger s) s)"

definition device_has_active_by_type :: "dtype option \<Rightarrow> kernel \<Rightarrow> bool option" where
  "device_has_active_by_type t s =
     map_option (\<lambda>fo. fo \<noteq> None) (find_device (has_active_type t) (device_ledger s) s)"

text \<open>The iterations: the callback works on its context and ends the loop by returning false.\<close>

fun for_each_loop :: "(dev \<Rightarrow> 'c \<Rightarrow> bool \<times> 'c) \<Rightarrow> dev list \<Rightarrow> 'c \<Rightarrow> 'c" where
  "for_each_loop f [] c = c"
| "for_each_loop f (d # ds) c = (case f d c of (go, c) \<Rightarrow> if go then for_each_loop f ds c else c)"

definition device_for_each :: "(dev \<Rightarrow> 'c \<Rightarrow> bool \<times> 'c) \<Rightarrow> 'c \<Rightarrow> kernel \<Rightarrow> 'c" where
  "device_for_each f c s = for_each_loop f (device_ledger s) c"

definition device_for_each_child :: "dev \<Rightarrow> (dev \<Rightarrow> 'c \<Rightarrow> bool \<times> 'c) \<Rightarrow> 'c \<Rightarrow> kernel \<Rightarrow> 'c option" where
  "device_for_each_child d f c s = map_option (\<lambda>i. for_each_loop f (children i) c) (device_internal d s)"

fun for_each_of_type_loop :: "dtype option \<Rightarrow> (dev \<Rightarrow> 'c \<Rightarrow> bool \<times> 'c) \<Rightarrow> dev list \<Rightarrow> 'c \<Rightarrow> kernel \<Rightarrow> 'c option" where
  "for_each_of_type_loop t f [] c s = Some c"
| "for_each_of_type_loop t f (d # ds) c s = do {
     b \<leftarrow> has_type t d s;
     if b then (case f d c of (go, c) \<Rightarrow> if go then for_each_of_type_loop t f ds c s else Some c)
     else for_each_of_type_loop t f ds c s
   }"

definition device_for_each_of_type :: "dtype option \<Rightarrow> (dev \<Rightarrow> 'c \<Rightarrow> bool \<times> 'c) \<Rightarrow> 'c \<Rightarrow> kernel \<Rightarrow> 'c option" where
  "device_for_each_of_type t f c s = for_each_of_type_loop t f (device_ledger s) c s"

lemmas device_defs [kernel_defs] =
  device_construct_def device_destruct_def device_add_child_def device_remove_child_def for_parent_def
  device_add_def device_remove_enter_def device_remove_def device_start_enter_def
  device_start_finish_def device_stop_enter_def device_stop_finish_def device_set_parent_def
  device_set_driver_def device_set_driver_data_def device_get_def device_put_def

end
