(* ===== verification/Device_Invariant.thy ===== *)
theory Device_Invariant
  imports Kernel_Device
begin

text \<open>
  The invariant of the object system and its preservation. \<open>kernel_inv\<close> ties the device states to
  the ledger, to the children lists and to the use counts of the drivers. \<open>kernel_frame\<close> says that
  a device in transition (starting or stopping) is left in that transition, with its driver, by
  everybody but the task that performs the transition. Both are proved for the operations without
  callbacks first, then, in the locale \<open>kernel_callbacks\<close>, for the operations that call drivers,
  listeners and modules, given that the callbacks keep them.
\<close>

section \<open>The invariant\<close>

definition is_added :: "dev \<Rightarrow> kernel \<Rightarrow> bool" where
  "is_added d s \<longleftrightarrow> (\<exists>i. device_internal d s = Some i \<and> added i)"

definition is_started :: "dev \<Rightarrow> kernel \<Rightarrow> bool" where
  "is_started d s \<longleftrightarrow> (\<exists>i. device_internal d s = Some i \<and> started i)"

definition bound_to :: "drv \<Rightarrow> kernel \<Rightarrow> dev \<Rightarrow> bool" where
  "bound_to r s d \<longleftrightarrow> (\<exists>i. device_internal d s = Some i \<and> started i \<and> driver i = Some r)"

definition state_ok :: "DeviceInternal \<Rightarrow> bool" where
  "state_ok i \<longleftrightarrow>
     (started i \<longrightarrow> added i \<and> driver i \<noteq> None \<and> \<not> starting i) \<and>
     (starting i \<longrightarrow> added i \<and> driver i \<noteq> None) \<and>
     (stopping i \<longrightarrow> started i) \<and> \<not> removing i \<and> 0 \<le> ref_count i"

definition states_ok :: "kernel \<Rightarrow> bool" where
  "states_ok s \<longleftrightarrow> (\<forall>d i. device_internal d s = Some i \<longrightarrow> state_ok i)"

definition ledger_ok :: "kernel \<Rightarrow> bool" where
  "ledger_ok s \<longleftrightarrow> distinct (device_ledger s) \<and> (\<forall>d. d \<in> set (device_ledger s) \<longleftrightarrow> is_added d s)"

definition tree_ok :: "kernel \<Rightarrow> bool" where
  "tree_ok s \<longleftrightarrow>
     (\<forall>p i. device_internal p s = Some i \<longrightarrow> distinct (children i) \<and>
        (\<forall>c. c \<in> set (children i) \<longleftrightarrow> is_added c s \<and> parent (devices s c) = Some p)) \<and>
     (\<forall>c p. is_added c s \<longrightarrow> parent (devices s c) = Some p \<longrightarrow> device_internal p s \<noteq> None)"

definition use_counts_ok :: "kernel \<Rightarrow> bool" where
  "use_counts_ok s \<longleftrightarrow>
     (\<forall>r i. driver_internal r s = Some i \<longrightarrow> \<not> destroying i \<and>
        use_count i = int (length (filter (bound_to r s) (device_ledger s)))) \<and>
     (\<forall>d r. bound_to r s d \<longrightarrow> driver_internal r s \<noteq> None)"

definition kernel_inv :: "kernel \<Rightarrow> bool" where
  "kernel_inv s \<longleftrightarrow> states_ok s \<and> ledger_ok s \<and> tree_ok s \<and> use_counts_ok s"

definition busy :: "DeviceInternal \<Rightarrow> bool" where
  "busy i \<longleftrightarrow> starting i \<or> stopping i"

definition same_transition :: "DeviceInternal \<Rightarrow> DeviceInternal \<Rightarrow> bool" where
  "same_transition i j \<longleftrightarrow> starting j = starting i \<and> stopping j = stopping i \<and>
     started j = started i \<and> driver j = driver i"

definition kernel_frame :: "kernel \<Rightarrow> kernel \<Rightarrow> bool" where
  "kernel_frame s s' \<longleftrightarrow> (\<forall>d i. device_internal d s = Some i \<longrightarrow> busy i \<longrightarrow>
     (\<exists>j. device_internal d s' = Some j \<and> same_transition i j))"

text \<open>A state change that keeps the invariant and leaves transitions alone.\<close>

definition kernel_safe :: "kernel \<Rightarrow> kernel \<Rightarrow> bool" where
  "kernel_safe s s' \<longleftrightarrow> (kernel_inv s \<longrightarrow> kernel_inv s' \<and> kernel_frame s s')"

lemmas kernel_inv_defs = kernel_inv_def states_ok_def ledger_ok_def tree_ok_def use_counts_ok_def

lemma kernel_frame_refl [simp]: "kernel_frame s s"
  by (auto simp: kernel_frame_def same_transition_def)

lemma kernel_frame_trans: "kernel_frame s t \<Longrightarrow> kernel_frame t u \<Longrightarrow> kernel_frame s u"
  unfolding kernel_frame_def
proof (intro allI impI)
  fix d i
  assume 1: "\<forall>d i. device_internal d s = Some i \<longrightarrow> busy i \<longrightarrow> (\<exists>j. device_internal d t = Some j \<and> same_transition i j)"
    and 2: "\<forall>d i. device_internal d t = Some i \<longrightarrow> busy i \<longrightarrow> (\<exists>j. device_internal d u = Some j \<and> same_transition i j)"
    and i: "device_internal d s = Some i" "busy i"
  from 1 i obtain j where j: "device_internal d t = Some j" "same_transition i j" by blast
  from j(2) i(2) have "busy j" by (simp add: busy_def same_transition_def)
  with 2 j(1) obtain k where "device_internal d u = Some k" "same_transition j k" by blast
  with j(2) show "\<exists>k. device_internal d u = Some k \<and> same_transition i k"
    by (simp add: same_transition_def)
qed

lemma kernel_safe_refl [simp]: "kernel_safe s s"
  by (simp add: kernel_safe_def)

lemma kernel_safe_trans [trans]: "kernel_safe s t \<Longrightarrow> kernel_safe t u \<Longrightarrow> kernel_safe s u"
  by (auto simp: kernel_safe_def intro: kernel_frame_trans)

lemma kernel_safeD: "kernel_safe s s' \<Longrightarrow> kernel_inv s \<Longrightarrow> kernel_inv s'"
  by (simp add: kernel_safe_def)

lemma kernel_inv_children:
  assumes "kernel_inv s" and "device_internal p s = Some i"
  shows "c \<in> set (children i) \<longleftrightarrow> is_added c s \<and> parent (devices s c) = Some p"
    and "distinct (children i)" and "state_ok i"
  using assms by (simp_all add: kernel_inv_def tree_ok_def states_ok_def)

lemma kernel_inv_ledger:
  assumes "kernel_inv s"
  shows "d \<in> set (device_ledger s) \<longleftrightarrow> is_added d s" and "distinct (device_ledger s)"
  using assms by (simp_all add: kernel_inv_def ledger_ok_def)

lemma kernel_inv_parent:
  assumes "kernel_inv s" and "is_added c s" and "parent (devices s c) = Some p"
  shows "\<exists>i. device_internal p s = Some i"
  using assms by (simp add: kernel_inv_def tree_ok_def)

lemma kernel_inv_use_count:
  assumes "kernel_inv s"
  shows "driver_internal r s = Some i \<Longrightarrow> \<not> destroying i"
    and "driver_internal r s = Some i \<Longrightarrow>
           use_count i = int (length (filter (bound_to r s) (device_ledger s)))"
    and "bound_to r s d \<Longrightarrow> \<exists>i. driver_internal r s = Some i"
  using assms by (simp_all add: kernel_inv_def use_counts_ok_def)

lemma kernel_invI:
  assumes "\<And>d i. device_internal d s = Some i \<Longrightarrow> state_ok i"
    and "distinct (device_ledger s)"
    and "\<And>d. d \<in> set (device_ledger s) \<longleftrightarrow> is_added d s"
    and "\<And>p i. device_internal p s = Some i \<Longrightarrow> distinct (children i)"
    and "\<And>p i c. device_internal p s = Some i \<Longrightarrow>
           c \<in> set (children i) \<longleftrightarrow> is_added c s \<and> parent (devices s c) = Some p"
    and "\<And>c p. is_added c s \<Longrightarrow> parent (devices s c) = Some p \<Longrightarrow> device_internal p s \<noteq> None"
    and "\<And>r i. driver_internal r s = Some i \<Longrightarrow> \<not> destroying i"
    and "\<And>r i. driver_internal r s = Some i \<Longrightarrow>
           use_count i = int (length (filter (bound_to r s) (device_ledger s)))"
    and "\<And>d r. bound_to r s d \<Longrightarrow> driver_internal r s \<noteq> None"
  shows "kernel_inv s"
  unfolding kernel_inv_defs using assms by blast

section \<open>Changes the invariant does not see\<close>

text \<open>Two kernels that agree on everything the invariant reads.\<close>

definition view :: "DeviceInternal \<Rightarrow> _" where
  "view i = (driver i, started i, added i, starting i, stopping i, removing i, children i)"

definition same_view :: "kernel \<Rightarrow> kernel \<Rightarrow> bool" where
  "same_view s s' \<longleftrightarrow>
     (\<forall>d. map_option view (device_internal d s') = map_option view (device_internal d s)) \<and>
     (\<forall>d. parent (devices s' d) = parent (devices s d)) \<and>
     device_ledger s' = device_ledger s \<and>
     (\<forall>r. map_option (\<lambda>i. (use_count i, destroying i)) (driver_internal r s') =
          map_option (\<lambda>i. (use_count i, destroying i)) (driver_internal r s))"

lemma same_view_device:
  assumes "same_view s s'"
  shows "device_internal d s' = None \<longleftrightarrow> device_internal d s = None"
    and "device_internal d s' = Some j \<Longrightarrow> \<exists>i. device_internal d s = Some i \<and> view i = view j"
    and "device_internal d s = Some i \<Longrightarrow> \<exists>j. device_internal d s' = Some j \<and> view i = view j"
proof -
  have e: "map_option view (device_internal d s') = map_option view (device_internal d s)"
    using assms by (simp add: same_view_def)
  show "device_internal d s' = None \<longleftrightarrow> device_internal d s = None"
    using e by (metis map_option_is_None)
  show "\<exists>i. device_internal d s = Some i \<and> view i = view j" if "device_internal d s' = Some j"
    using e that by (cases "device_internal d s") auto
  show "\<exists>j. device_internal d s' = Some j \<and> view i = view j" if "device_internal d s = Some i"
    using e that by (cases "device_internal d s'") auto
qed

lemma same_view_preds:
  assumes "same_view s s'"
  shows "is_added d s' = is_added d s" "bound_to r s' = bound_to r s"
    "parent (devices s' d) = parent (devices s d)"
    "device_ledger s' = device_ledger s"
proof -
  have e: "map_option view (device_internal d s') = map_option view (device_internal d s)" for d
    using assms by (simp add: same_view_def)
  show "is_added d s' = is_added d s"
    using e [of d]
    by (cases "device_internal d s"; cases "device_internal d s'") (simp_all add: is_added_def view_def)
  have "bound_to r s' d = bound_to r s d" for d
    using e [of d]
    by (cases "device_internal d s"; cases "device_internal d s'") (simp_all add: bound_to_def view_def)
  then show "bound_to r s' = bound_to r s" by blast
  show "parent (devices s' d) = parent (devices s d)" "device_ledger s' = device_ledger s"
    using assms by (simp_all add: same_view_def)
qed

lemma same_view_use_counts:
  assumes "same_view s s'" and "use_counts_ok s"
  shows "use_counts_ok s'"
proof -
  have e: "map_option (\<lambda>i. (use_count i, destroying i)) (driver_internal r s') =
           map_option (\<lambda>i. (use_count i, destroying i)) (driver_internal r s)" for r
    using assms by (simp add: same_view_def)
  have "\<not> destroying j \<and> use_count j = int (length (filter (bound_to r s') (device_ledger s')))"
    if j: "driver_internal r s' = Some j" for r j
  proof -
    from e [of r] j obtain i where "driver_internal r s = Some i"
      "use_count j = use_count i" "destroying j = destroying i"
      by (cases "driver_internal r s") auto
    with assms show ?thesis by (simp add: use_counts_ok_def same_view_preds [OF assms(1)])
  qed
  moreover have "driver_internal r s' \<noteq> None" if "bound_to r s' d" for r d
  proof -
    from that assms(2) have "driver_internal r s \<noteq> None"
      by (auto simp: use_counts_ok_def same_view_preds(2) [OF assms(1)])
    with e [of r] show ?thesis by (cases "driver_internal r s'") auto
  qed
  ultimately show ?thesis by (simp add: use_counts_ok_def)
qed

lemma same_view_safe:
  assumes sv: "same_view s s'"
    and rc: "\<And>d j. device_internal d s' = Some j \<Longrightarrow> states_ok s \<Longrightarrow> 0 \<le> ref_count j"
  shows "kernel_safe s s'"
  unfolding kernel_safe_def
proof (intro impI conjI)
  assume inv: "kernel_inv s"
  note svd = same_view_device [OF sv] and svp = same_view_preds [OF sv]
  have "state_ok j" if j: "device_internal d s' = Some j" for d j
  proof -
    from svd(2) [OF j] obtain i where "device_internal d s = Some i" "view i = view j" by blast
    moreover from this(1) inv have "state_ok i" by (simp add: kernel_inv_def states_ok_def)
    moreover have "0 \<le> ref_count j" using rc [OF j] inv by (simp add: kernel_inv_def)
    ultimately show ?thesis by (simp add: state_ok_def view_def)
  qed
  then have "states_ok s'" by (simp add: states_ok_def)
  moreover have "ledger_ok s'"
    using inv by (simp add: kernel_inv_def ledger_ok_def svp)
  moreover have "tree_ok s'"
    unfolding tree_ok_def svp
  proof (intro conjI allI impI)
    fix p j c assume j: "device_internal p s' = Some j"
    from svd(2) [OF j] obtain i where i: "device_internal p s = Some i" "view i = view j" by blast
    from i(2) have "children j = children i" by (simp add: view_def)
    with i(1) inv show "distinct (children j)"
      "c \<in> set (children j) \<longleftrightarrow> is_added c s \<and> parent (devices s c) = Some p"
      by (simp_all add: kernel_inv_def tree_ok_def)
  next
    fix c p assume "is_added c s" "parent (devices s c) = Some p"
    with inv show "device_internal p s' \<noteq> None"
      unfolding svd(1) by (simp add: kernel_inv_def tree_ok_def)
  qed
  moreover have "use_counts_ok s'"
    using inv same_view_use_counts [OF sv] by (simp add: kernel_inv_def)
  ultimately show "kernel_inv s'" by (simp add: kernel_inv_def)
  show "kernel_frame s s'"
    unfolding kernel_frame_def
  proof (intro allI impI)
    fix d i assume "device_internal d s = Some i"
    from svd(3) [OF this] show "\<exists>j. device_internal d s' = Some j \<and> same_transition i j"
      by (auto simp: view_def same_transition_def)
  qed
qed

lemma upd_internal_safe:
  assumes "\<And>i. view (f i) = view i" and "\<And>i. 0 \<le> ref_count i \<Longrightarrow> 0 \<le> ref_count (f i)"
  shows "kernel_safe s (upd_internal d f s)"
proof (rule same_view_safe)
  show "same_view s (upd_internal d f s)"
    by (simp add: same_view_def assms(1) option.map_comp comp_def)
next
  fix e j assume j: "device_internal e (upd_internal d f s) = Some j" and ok: "states_ok s"
  have pos: "0 \<le> ref_count i" if "device_internal e s = Some i" for i
    using ok that by (simp add: states_ok_def state_ok_def)
  show "0 \<le> ref_count j"
  proof (cases "e = d")
    case True
    with j obtain i where "device_internal e s = Some i" "j = f i" by auto
    with pos assms(2) show ?thesis by simp
  next
    case False
    with j pos show ?thesis by simp
  qed
qed

section \<open>Operations without callbacks\<close>

lemma same_view_new_nothrow: "same_view s (snd (new_nothrow s))"
  by (simp add: same_view_def)

lemma new_nothrow_safe: "new_nothrow s = (ok, t) \<Longrightarrow> kernel_safe s t"
  by (metis same_view_safe same_view_new_nothrow snd_conv states_ok_def state_ok_def new_nothrow_sel(1))

lemma new_nothrow_devices: "new_nothrow s = (ok, t) \<Longrightarrow> devices t = devices s \<and> drivers t = drivers s"
  by (metis new_nothrow_sel(1,2) snd_conv)

text \<open>Replacing the internals of a device that is neither added nor in transition.\<close>

lemma set_internal_safe:
  assumes no: "\<not> is_added d s" and io: "io = None \<or> io = Some DeviceInternal_init"
    and nochild: "\<And>i. device_internal d s = Some i \<Longrightarrow> children i = []"
  shows "kernel_safe s (upd_device d (\<lambda>x. x\<lparr>dev_internal := io\<rparr>) s)" (is "kernel_safe s ?t")
  unfolding kernel_safe_def
proof (intro impI conjI)
  assume inv: "kernel_inv s"
  have idle: "\<not> started i \<and> \<not> busy i" if "device_internal d s = Some i" for i
    using kernel_inv_children(3) [OF inv that] no that by (auto simp: state_ok_def is_added_def busy_def)
  have add: "is_added e ?t = is_added e s" for e
    using no io by (auto simp: is_added_def DeviceInternal_init_def)
  have bnd: "bound_to r ?t = bound_to r s" for r
    using idle io by (auto simp: bound_to_def DeviceInternal_init_def fun_eq_iff)
  have orphan: "\<not> (is_added c s \<and> parent (devices s c) = Some d)" for c
    using kernel_inv_parent [OF inv, of c d] kernel_inv_children(1) [OF inv, of d _ c] nochild by force
  have new: "i = DeviceInternal_init" if "device_internal d ?t = Some i" for i
    using that io by simp
  show "kernel_inv ?t"
  proof (rule kernel_invI, unfold add bnd)
    fix e i assume e: "device_internal e ?t = Some i"
    show "state_ok i"
      using e new kernel_inv_children(3) [OF inv, of e i]
      by (cases "e = d") (auto simp: state_ok_def DeviceInternal_init_def)
    show "distinct (children i)"
      using e new kernel_inv_children(2) [OF inv, of e i]
      by (cases "e = d") (auto simp: DeviceInternal_init_def)
    fix c show "c \<in> set (children i) \<longleftrightarrow> is_added c s \<and> parent (devices ?t c) = Some e"
      using e new kernel_inv_children(1) [OF inv, of e i c] orphan
      by (cases "e = d") (auto simp: DeviceInternal_init_def)
  next
    fix c p assume "is_added c s" "parent (devices ?t c) = Some p"
    then show "device_internal p ?t \<noteq> None"
      using kernel_inv_parent [OF inv, of c p] orphan by (cases "p = d") (auto split: if_splits)
  qed (use kernel_inv_ledger [OF inv] kernel_inv_use_count [OF inv] in auto)
  show "kernel_frame s ?t"
    using idle by (auto simp: kernel_frame_def same_transition_def)
qed

lemma device_construct_safe:
  assumes "device_internal d s = None" and "device_construct d s = Some (e, s')"
  shows "kernel_safe s s'"
proof -
  obtain ok t where t: "new_nothrow s = (ok, t)" by fastforce
  have "kernel_safe t s'"
    using assms t new_nothrow_devices [OF t]
    by (auto simp: device_construct_def is_added_def intro!: set_internal_safe split: if_splits)
  with new_nothrow_safe [OF t] show ?thesis by (rule kernel_safe_trans)
qed

lemma device_destruct_safe:
  assumes "device_destruct d s = Some (e, s')"
  shows "kernel_safe s s'"
  using assms
  by (auto simp: device_destruct_def bind_Some_iff is_added_def intro!: set_internal_safe split: if_splits)

lemma device_add_Some:
  assumes "device_add d s = Some (e, s')"
  obtains (invalid) i where "device_internal d s = Some i" "started i \<or> added i \<or> removing i"
      "e = ERROR_INVALID_STATE" "s' = s"
  | (root) i where "device_internal d s = Some i" "\<not> started i" "\<not> added i" "\<not> removing i"
      "parent (devices s d) = None" "e = ERROR_NONE"
      "s' = upd_internal d (\<lambda>i. i\<lparr>added := True\<rparr>) (s\<lparr>device_ledger := device_ledger s @ [d]\<rparr>)"
  | (child) i p j where "device_internal d s = Some i" "\<not> started i" "\<not> added i" "\<not> removing i"
      "parent (devices s d) = Some p" "device_internal p s = Some j" "added j" "p \<noteq> d" "e = ERROR_NONE"
      "s' = upd_internal d (\<lambda>i. i\<lparr>added := True\<rparr>)
              (upd_internal p (\<lambda>i. i\<lparr>children := children i @ [d]\<rparr>) (s\<lparr>device_ledger := device_ledger s @ [d]\<rparr>))"
proof -
  from assms obtain i where i: "device_internal d s = Some i" by (auto simp: device_add_def bind_Some_iff)
  show thesis
  proof (cases "started i \<or> added i \<or> removing i")
    case True
    with assms i show thesis by (auto simp: device_add_def intro: invalid)
  next
    case False
    show thesis
    proof (cases "parent (devices s d)")
      case None
      with False assms i show thesis by (auto simp: device_add_def for_parent_def intro: root)
    next
      case (Some p)
      with False assms i obtain j where "device_internal p s = Some j" "added j"
        by (auto simp: device_add_def for_parent_def device_add_child_def bind_Some_iff split: if_splits)
      moreover from this i False have "p \<noteq> d" by auto
      ultimately show thesis
        using Some False assms i
        by (auto simp: device_add_def for_parent_def device_add_child_def intro!: child)
    qed
  qed
qed

text \<open>
  The two changes of the ledger, in one shape: \<open>relink\<close> sets the ledger, the \<open>added\<close> flag of a
  device and the children list of its parent.
\<close>

definition relinked_dev :: "bool \<Rightarrow> dev \<Rightarrow> dev \<Rightarrow> bool \<Rightarrow> DeviceInternal \<Rightarrow> DeviceInternal \<Rightarrow> bool" where
  "relinked_dev isparent e d b i j \<longleftrightarrow>
     driver j = driver i \<and> started j = started i \<and> starting j = starting i \<and> stopping j = stopping i \<and>
     removing j = removing i \<and> ref_count j = ref_count i \<and>
     added j = (if e = d then b else added i) \<and> distinct (children j) \<and>
     (\<forall>c. c \<in> set (children j) \<longleftrightarrow> (if c = d \<and> isparent then b else c \<in> set (children i)))"

definition relinked :: "dev \<Rightarrow> bool \<Rightarrow> kernel \<Rightarrow> kernel \<Rightarrow> bool" where
  "relinked d b s t \<longleftrightarrow>
     drivers t = drivers s \<and> (\<forall>e. parent (devices t e) = parent (devices s e)) \<and>
     distinct (device_ledger t) \<and> set (device_ledger t) = {e. e \<in> set (device_ledger s) - {d} \<or> b \<and> e = d} \<and>
     (\<forall>P. \<not> P d \<longrightarrow> length (filter P (device_ledger t)) = length (filter P (device_ledger s))) \<and>
     (\<forall>e. rel_option (relinked_dev (parent (devices s d) = Some e) e d b)
            (device_internal e s) (device_internal e t))"

lemma relinked_device:
  assumes "relinked d b s t" and "device_internal e t = Some j"
  obtains i where "device_internal e s = Some i" "relinked_dev (parent (devices s d) = Some e) e d b i j"
proof -
  have "rel_option (relinked_dev (parent (devices s d) = Some e) e d b)
          (device_internal e s) (device_internal e t)"
    using assms(1) by (simp add: relinked_def)
  with assms(2) show thesis by (cases "device_internal e s") (auto intro: that)
qed

lemma relinked_none:
  assumes "relinked d b s t"
  shows "device_internal e t = None \<longleftrightarrow> device_internal e s = None"
proof -
  have "rel_option (relinked_dev (parent (devices s d) = Some e) e d b)
          (device_internal e s) (device_internal e t)"
    using assms(1) by (simp add: relinked_def)
  then show ?thesis by (cases "device_internal e s"; cases "device_internal e t") auto
qed

lemma relinked_safe:
  assumes rl: "relinked d b s t" and d: "device_internal d s = Some i"
    and idle: "\<not> started i" "\<not> starting i \<or> b"
    and par: "\<And>p. b \<Longrightarrow> parent (devices s d) = Some p \<Longrightarrow> device_internal p s \<noteq> None"
  shows "kernel_safe s t"
  unfolding kernel_safe_def
proof (intro impI conjI)
  assume inv: "kernel_inv s"
  note none = relinked_none [OF rl]
  have add: "is_added e t \<longleftrightarrow> (if e = d then b else is_added e s)" for e
  proof (cases "device_internal e t")
    case None
    then have "device_internal e s = None" by (simp add: none)
    with None d show ?thesis by (cases "e = d") (simp_all add: is_added_def)
  next
    case (Some j)
    from relinked_device [OF rl Some] obtain i where
      "device_internal e s = Some i" "relinked_dev (parent (devices s d) = Some e) e d b i j" .
    with Some show ?thesis by (simp add: is_added_def relinked_dev_def)
  qed
  have "bound_to r t e = bound_to r s e" for r e
  proof (cases "device_internal e t")
    case None
    then have "device_internal e s = None" by (simp add: none)
    with None show ?thesis by (simp add: bound_to_def)
  next
    case (Some j)
    from relinked_device [OF rl Some] obtain i where
      "device_internal e s = Some i" "relinked_dev (parent (devices s d) = Some e) e d b i j" .
    with Some show ?thesis by (simp add: bound_to_def relinked_dev_def)
  qed
  then have bnd: "bound_to r t = bound_to r s" for r by blast
  have nb: "\<not> bound_to r s d" for r using d idle by (simp add: bound_to_def)
  have pare: "parent (devices t e) = parent (devices s e)" for e using rl by (simp add: relinked_def)
  show "kernel_inv t"
  proof (rule kernel_invI, unfold bnd pare)
    fix e j assume e: "device_internal e t = Some j"
    from relinked_device [OF rl e] obtain i' where
      i': "device_internal e s = Some i'" "relinked_dev (parent (devices s d) = Some e) e d b i' j" .
    have ok: "state_ok i'" by (rule kernel_inv_children(3) [OF inv i'(1)])
    show "state_ok j"
    proof (cases "e = d")
      case True
      with d i'(1) have "i' = i" by simp
      with True ok i'(2) idle show ?thesis by (auto simp: state_ok_def relinked_dev_def)
    next
      case False
      with ok i'(2) show ?thesis by (simp add: state_ok_def relinked_dev_def)
    qed
    show "distinct (children j)" using i'(2) by (simp add: relinked_dev_def)
    fix c show "c \<in> set (children j) \<longleftrightarrow> is_added c t \<and> parent (devices s c) = Some e"
      using i'(2) kernel_inv_children(1) [OF inv i'(1), of c] by (auto simp: add relinked_dev_def)
  next
    fix c p assume "is_added c t" "parent (devices s c) = Some p"
    then show "device_internal p t \<noteq> None"
      using kernel_inv_parent [OF inv, of c p] par [of p] none [of p] by (auto simp: add split: if_splits)
  next
    fix e show "e \<in> set (device_ledger t) \<longleftrightarrow> is_added e t"
      using rl kernel_inv_ledger(1) [OF inv, of e] by (auto simp: relinked_def add)
  next
    fix r k assume "driver_internal r t = Some k"
    with kernel_inv_use_count(2) [OF inv, of r k] rl nb
    show "use_count k = int (length (filter (bound_to r s) (device_ledger t)))"
      by (simp add: relinked_def)
  qed (use rl kernel_inv_use_count [OF inv] in \<open>auto simp: relinked_def\<close>)
  show "kernel_frame s t"
    unfolding kernel_frame_def
  proof (intro allI impI)
    fix e k assume k: "device_internal e s = Some k" "busy k"
    then have "device_internal e t \<noteq> None" by (simp add: none)
    then obtain j where j: "device_internal e t = Some j" by blast
    from relinked_device [OF rl j] obtain i where
      "device_internal e s = Some i" "relinked_dev (parent (devices s d) = Some e) e d b i j" .
    with k(1) j show "\<exists>j. device_internal e t = Some j \<and> same_transition k j"
      by (simp add: same_transition_def relinked_dev_def)
  qed
qed

lemma relinked_add:
  assumes inv: "kernel_inv s" and d: "device_internal d s = Some i" "\<not> added i"
    and st: "parent (devices s d) = po" "\<And>p. po = Some p \<Longrightarrow> p \<noteq> d"
    and t: "t = upd_internal d (\<lambda>i. i\<lparr>added := True\<rparr>)
       (case po of None \<Rightarrow> s\<lparr>device_ledger := device_ledger s @ [d]\<rparr>
        | Some p \<Rightarrow> upd_internal p (\<lambda>i. i\<lparr>children := children i @ [d]\<rparr>) (s\<lparr>device_ledger := device_ledger s @ [d]\<rparr>))"
  shows "relinked d True s t"
proof -
  have nd: "d \<notin> set (device_ledger s)" using kernel_inv_ledger(1) [OF inv, of d] d by (simp add: is_added_def)
  have kid: "d \<notin> set (children j)" if "device_internal e s = Some j" for e j
    using kernel_inv_children(1) [OF inv that, of d] d by (simp add: is_added_def)
  have "rel_option (relinked_dev (parent (devices s d) = Some e) e d True)
          (device_internal e s) (device_internal e t)" for e
  proof (cases "device_internal e s")
    case None
    then show ?thesis by (auto simp: t split: option.splits)
  next
    case (Some j)
    with kernel_inv_children(2) [OF inv Some] kid [OF Some] st show ?thesis
      by (cases po) (auto simp: t relinked_dev_def)
  qed
  then show ?thesis
    using nd kernel_inv_ledger(2) [OF inv] by (auto simp: relinked_def t split: option.splits)
qed

lemma device_add_safe:
  assumes add: "device_add d s = Some (e, s')"
  shows "kernel_safe s s'"
proof (cases "kernel_inv s")
  case inv: True
  from add show ?thesis
  proof (cases rule: device_add_Some)
    case (root i)
    have "relinked d True s s'"
      using root by (intro relinked_add [OF inv, where po = None]) auto
    then show ?thesis using root by (intro relinked_safe [where b = True and d = d]) auto
  next
    case (child i p j)
    have "relinked d True s s'"
      using child by (intro relinked_add [OF inv, where po = "Some p"]) auto
    then show ?thesis using child by (intro relinked_safe [where b = True and d = d]) auto
  qed simp
qed (simp add: kernel_safe_def)

lemma device_remove_Some:
  assumes inv: "kernel_inv s" and rem: "device_remove d s = Some (e, s')"
  obtains (invalid) i where "device_internal d s = Some i" "started i \<or> starting i \<or> \<not> added i"
      "e = ERROR_INVALID_STATE" "s' = s"
  | (removed) i where "device_internal d s = Some i" "\<not> started i" "\<not> starting i" "added i"
      "d \<in> set (device_ledger s)" "e = ERROR_NONE" "relinked d False s s'"
proof -
  from rem obtain i where i: "device_internal d s = Some i"
    by (auto simp: device_remove_def device_remove_enter_def bind_Some_iff)
  show thesis
  proof (cases "started i \<or> starting i \<or> \<not> added i")
    case True
    with rem i show thesis by (auto simp: device_remove_def device_remove_enter_def intro: invalid)
  next
    case False
    define s1 where "s1 = upd_internal d (\<lambda>i. i\<lparr>added := False, removing := True\<rparr>) s"
    have mem: "d \<in> set (device_ledger s)"
      using False i kernel_inv_ledger(1) [OF inv, of d] by (simp add: is_added_def)
    let ?po = "parent (devices s d)"
    have "?po = parent (devices s1 d)" "device_ledger s1 = device_ledger s" by (simp_all add: s1_def)
    moreover have enter: "device_remove_enter d s = Some (True, s1)"
      using False i by (simp add: device_remove_enter_def s1_def)
    ultimately obtain s2 where s2: "for_parent (\<lambda>p. device_remove_child p d) ?po s1 = Some s2"
      using rem by (auto simp: device_remove_def Let_def bind_Some_iff)
    moreover from this have led: "device_ledger s2 = device_ledger s"
      by (auto simp: s1_def for_parent_def device_remove_child_def bind_Some_iff split: option.splits)
    moreover have "parent (devices s1 d) = ?po" by (simp add: s1_def)
    ultimately have s': "s' = upd_internal d (\<lambda>i. i\<lparr>removing := False\<rparr>) (s2\<lparr>device_ledger := remove1 d (device_ledger s2)\<rparr>)"
      and e: "e = ERROR_NONE"
      using rem enter mem by (simp_all add: device_remove_def Let_def)
    have "rel_option (relinked_dev (?po = Some e) e d False) (device_internal e s) (device_internal e s')" for e
    proof (cases "device_internal e s")
      case None
      then show ?thesis
        using s2 i by (auto simp: s' s1_def for_parent_def device_remove_child_def bind_Some_iff split: option.splits)
    next
      case (Some j)
      from kernel_inv_children(3) [OF inv Some] have "\<not> removing j" by (simp add: state_ok_def)
      moreover have "device_internal e s' = Some (j\<lparr>added := (if e = d then False else added j),
          removing := (if e = d then False else removing j),
          children := (if ?po = Some e then remove1 d (children j) else children j)\<rparr>)"
        using Some s2 by (cases ?po) (auto simp: s' s1_def for_parent_def device_remove_child_def bind_Some_iff)
      ultimately show ?thesis
        using Some kernel_inv_children(2) [OF inv Some]
        by (simp add: relinked_dev_def)
    qed
    moreover have "device_ledger s2 = device_ledger s" "drivers s2 = drivers s"
      "\<And>e. parent (devices s2 e) = parent (devices s e)"
      using s2 by (auto simp: s1_def for_parent_def device_remove_child_def bind_Some_iff split: option.splits)
    ultimately have "relinked d False s s'"
      using kernel_inv_ledger(2) [OF inv] filter_remove1_length [OF kernel_inv_ledger(2) [OF inv] mem]
      by (auto simp: relinked_def s')
    with False i mem e show thesis by (intro removed) auto
  qed
qed

lemma device_remove_safe:
  assumes rem: "device_remove d s = Some (e, s')"
  shows "kernel_safe s s'"
proof (cases "kernel_inv s")
  case inv: True
  from inv rem show ?thesis
  proof (cases rule: device_remove_Some)
    case (removed i)
    then show ?thesis by (intro relinked_safe [where b = False and d = d]) auto
  qed simp
qed (simp add: kernel_safe_def)

lemma device_get_safe: "device_get d s = (e, s') \<Longrightarrow> kernel_safe s s'"
  by (auto simp: device_get_def view_def intro: upd_internal_safe split: if_splits)

text \<open>A put never takes the count below zero, so it is not covered by \<open>upd_internal_safe\<close> alone.\<close>

lemma device_put_safe:
  assumes "device_put d s = Some s'"
  shows "kernel_safe s s'"
proof -
  from assms obtain i where i: "device_internal d s = Some i" "0 < ref_count i"
    and s': "s' = upd_internal d (\<lambda>i. i\<lparr>ref_count := ref_count i - 1\<rparr>) s"
    by (auto simp: device_put_def bind_Some_iff split: if_splits)
  show ?thesis
  proof (rule same_view_safe)
    have "view (i\<lparr>ref_count := n\<rparr>) = view i" for i n by (simp add: view_def)
    then show "same_view s s'" by (simp add: s' same_view_def option.map_comp comp_def)
    fix e j assume "device_internal e s' = Some j" "states_ok s"
    with i show "0 \<le> ref_count j"
      by (cases "e = d") (auto simp: s' states_ok_def state_ok_def)
  qed
qed

lemma device_set_driver_data_safe: "device_set_driver_data d p s = Some s' \<Longrightarrow> kernel_safe s s'"
  by (auto simp: device_set_driver_data_def bind_Some_iff view_def intro!: upd_internal_safe)

lemma same_view_sameI:
  assumes "devices t = devices s" "drivers t = drivers s" "device_ledger t = device_ledger s"
  shows "kernel_safe s t"
  by (rule same_view_safe) (use assms in \<open>simp_all add: same_view_def states_ok_def state_ok_def\<close>)

lemma device_set_parent_safe:
  assumes no: "\<not> is_added d s" and set: "device_set_parent d po s = Some s'"
  shows "kernel_safe s s'"
  unfolding kernel_safe_def
proof (intro impI conjI)
  assume inv: "kernel_inv s"
  from set have s': "s' = upd_device d (\<lambda>x. x\<lparr>parent := po\<rparr>) s"
    by (auto simp: device_set_parent_def bind_Some_iff split: if_splits)
  have int: "device_internal e s' = device_internal e s" for e by (simp add: s')
  have add: "is_added e s' = is_added e s" for e by (simp add: is_added_def int)
  have bnd: "bound_to r s' = bound_to r s" for r by (simp add: bound_to_def int fun_eq_iff)
  have par: "is_added c s \<and> parent (devices s' c) = Some p \<longleftrightarrow>
             is_added c s \<and> parent (devices s c) = Some p" for c p
    using no by (auto simp: s')
  show "kernel_inv s'"
  proof (rule kernel_invI, unfold int add bnd)
    fix p i c assume "device_internal p s = Some i"
    with kernel_inv_children [OF inv this] show "state_ok i" "distinct (children i)"
      "c \<in> set (children i) \<longleftrightarrow> is_added c s \<and> parent (devices s' c) = Some p" by (simp_all only: par)
  next
    fix c p assume "is_added c s" "parent (devices s' c) = Some p"
    with par [of c p] kernel_inv_parent [OF inv, of c p] show "device_internal p s \<noteq> None" by simp
  qed (use kernel_inv_ledger [OF inv] kernel_inv_use_count [OF inv] in \<open>auto simp: s'\<close>)
  show "kernel_frame s s'" by (auto simp: kernel_frame_def int same_transition_def)
qed

lemma device_set_driver_safe:
  assumes idle: "\<And>i. device_internal d s = Some i \<Longrightarrow> \<not> started i \<and> \<not> starting i"
    and set: "device_set_driver d ro s = Some s'"
  shows "kernel_safe s s'"
  unfolding kernel_safe_def
proof (intro impI conjI)
  assume inv: "kernel_inv s"
  from set obtain i where i: "device_internal d s = Some i"
    and s': "s' = upd_internal d (\<lambda>i. i\<lparr>driver := ro\<rparr>) s"
    by (auto simp: device_set_driver_def bind_Some_iff split: if_splits)
  have add: "is_added e s' = is_added e s" for e using i by (auto simp: is_added_def s')
  have bnd: "bound_to r s' = bound_to r s" for r using i idle by (auto simp: bound_to_def s' fun_eq_iff)
  have ok: "state_ok i" by (rule kernel_inv_children(3) [OF inv i])
  show "kernel_inv s'"
  proof (rule kernel_invI, unfold add bnd)
    fix e j assume j: "device_internal e s' = Some j"
    show "state_ok j"
      using j i ok idle kernel_inv_children(3) [OF inv, of e j]
      by (cases "e = d") (auto simp: s' state_ok_def)
    show "distinct (children j)"
      using j i kernel_inv_children(2) [OF inv i] kernel_inv_children(2) [OF inv, of e j]
      by (cases "e = d") (auto simp: s')
    fix c show "c \<in> set (children j) \<longleftrightarrow> is_added c s \<and> parent (devices s' c) = Some e"
      using j i kernel_inv_children(1) [OF inv i, of c] kernel_inv_children(1) [OF inv, of e j c]
      by (cases "e = d") (auto simp: s')
  next
    fix c p assume "is_added c s" "parent (devices s' c) = Some p"
    then show "device_internal p s' \<noteq> None"
      using kernel_inv_parent [OF inv, of c p] by (auto simp: s' split: if_splits)
  qed (use kernel_inv_ledger [OF inv] kernel_inv_use_count [OF inv] in \<open>auto simp: s'\<close>)
  show "kernel_frame s s'"
    using idle i ok by (auto simp: kernel_frame_def same_transition_def busy_def s' state_ok_def)
qed

text \<open>Changes of one driver's internals: allowed when no device is bound to it and the count is 0.\<close>

lemma set_driver_internal_safe:
  assumes free: "\<And>d. \<not> bound_to r s d"
    and io: "io = None \<or> io = Some DriverInternal_init"
  shows "kernel_safe s (upd_driver r (\<lambda>x. x\<lparr>drv_internal := io\<rparr>) s)" (is "kernel_safe s ?t")
  unfolding kernel_safe_def
proof (intro impI conjI)
  assume inv: "kernel_inv s"
  have add: "is_added e ?t = is_added e s" for e by (simp add: is_added_def)
  have bnd: "bound_to q ?t = bound_to q s" for q by (simp add: bound_to_def fun_eq_iff)
  have cnt: "length (filter (bound_to r s) (device_ledger s)) = 0" using free by simp
  show "kernel_inv ?t"
  proof (rule kernel_invI, unfold add bnd)
    fix q i assume i: "driver_internal q ?t = Some i"
    show "\<not> destroying i"
      using i io kernel_inv_use_count(1) [OF inv, of q i]
      by (cases "q = r") (auto simp: DriverInternal_init_def)
    show "use_count i = int (length (filter (bound_to q s) (device_ledger ?t)))"
      using i io kernel_inv_use_count(2) [OF inv, of q i] cnt
      by (cases "q = r") (auto simp: DriverInternal_init_def)
  next
    fix d q assume "bound_to q s d"
    with kernel_inv_use_count(3) [OF inv this] free show "driver_internal q ?t \<noteq> None"
      by (cases "q = r") auto
  qed (use kernel_inv_ledger [OF inv] kernel_inv_children [OF inv] kernel_inv_parent [OF inv] in auto)
  show "kernel_frame s ?t" by (auto simp: kernel_frame_def same_transition_def)
qed

lemma driver_destruct_safe:
  assumes "driver_destruct r s = Some (e, s')"
  shows "kernel_safe s s'"
proof (cases "kernel_inv s \<and> e = ERROR_NONE")
  case True
  then have inv: "kernel_inv s" by simp
  from assms True obtain i where i: "driver_internal r s = Some i" "use_count i = 0"
    and s': "s' = upd_driver r (\<lambda>x. x\<lparr>drv_internal := None\<rparr>) s"
    by (auto simp: driver_destruct_def bind_Some_iff split: if_splits)
  have "\<not> bound_to r s d" for d
  proof
    assume b: "bound_to r s d"
    then have "is_added d s"
      using kernel_inv_children(3) [OF inv] by (fastforce simp: bound_to_def is_added_def state_ok_def)
    then have "d \<in> set (device_ledger s)" by (simp add: kernel_inv_ledger(1) [OF inv])
    with b have "filter (bound_to r s) (device_ledger s) \<noteq> []" by (auto simp: filter_empty_conv)
    with kernel_inv_use_count(2) [OF inv i(1)] i(2) show False by simp
  qed
  then show ?thesis unfolding s' by (intro set_driver_internal_safe) auto
next
  case False
  with assms show ?thesis
    by (auto simp: kernel_safe_def driver_destruct_def bind_Some_iff split: if_splits)
qed

lemma driver_construct_safe:
  assumes none: "driver_internal r s = None" and con: "driver_construct r s = Some (e, s')"
  shows "kernel_safe s s'"
proof (cases "kernel_inv s")
  case inv: True
  obtain ok t where t: "new_nothrow s = (ok, t)" by fastforce
  have "\<not> bound_to r t d" for d
    using kernel_inv_use_count(3) [OF inv, of r d] none new_nothrow_devices [OF t]
    by (auto simp: bound_to_def)
  then have "kernel_safe t s'"
    using con t by (auto simp: driver_construct_def intro!: set_driver_internal_safe split: if_splits)
  with new_nothrow_safe [OF t] show ?thesis by (rule kernel_safe_trans)
qed (simp add: kernel_safe_def)

lemma driver_ledger_safe [simp]: "kernel_safe s (s\<lparr>driver_ledger := l\<rparr>)"
  by (rule same_view_sameI) simp_all

lemma driver_set_owner_safe: "driver_set_owner r m s = Some s' \<Longrightarrow> kernel_safe s s'"
  by (rule same_view_safe)
     (auto simp: driver_set_owner_def bind_Some_iff same_view_def option.map_comp comp_def
        states_ok_def state_ok_def)

lemma driver_add_safe: "driver_add r s = Some (e, s') \<Longrightarrow> kernel_safe s s'"
  by (auto simp: driver_add_def)

lemma driver_remove_safe: "driver_remove r s = Some (e, s') \<Longrightarrow> kernel_safe s s'"
  by (auto simp: driver_remove_def split: if_splits)

lemmas operation_safe =
  device_construct_safe device_destruct_safe device_add_safe device_remove_safe device_get_safe
  device_put_safe device_set_driver_data_safe device_set_parent_safe device_set_driver_safe
  driver_construct_safe driver_destruct_safe driver_add_safe driver_remove_safe driver_set_owner_safe

end
