(* ===== verification/Device_Callbacks.thy ===== *)
theory Device_Callbacks
  imports Device_Invariant
begin

text \<open>
  The operations that run foreign code. The locale \<open>kernel_callbacks\<close> is the contract between the
  kernel and the code it calls through function pointers: a callback that returns has kept the
  kernel's invariant and has left the transitions of other tasks alone. Under it, \<open>device_start\<close>,
  \<open>device_stop\<close> and their compositions do the same, so they may be used inside callbacks again.
\<close>

section \<open>Closing a transition\<close>

definition kernel_frame_except :: "dev \<Rightarrow> kernel \<Rightarrow> kernel \<Rightarrow> bool" where
  "kernel_frame_except d s s' \<longleftrightarrow> (\<forall>e i. e \<noteq> d \<longrightarrow> device_internal e s = Some i \<longrightarrow> busy i \<longrightarrow>
     (\<exists>j. device_internal e s' = Some j \<and> same_transition i j))"

lemma frame_exceptI: "kernel_frame s s' \<Longrightarrow> kernel_frame_except d s s'"
  by (simp add: kernel_frame_def kernel_frame_except_def)

lemma frame_except_trans:
  assumes "kernel_frame_except d s t" and "kernel_frame_except d t u"
  shows "kernel_frame_except d s u"
  unfolding kernel_frame_except_def
proof (intro allI impI)
  fix e i assume e: "e \<noteq> d" "device_internal e s = Some i" "busy i"
  with assms(1) obtain j where j: "device_internal e t = Some j" "same_transition i j"
    by (auto simp: kernel_frame_except_def)
  with e(3) have "busy j" by (simp add: busy_def same_transition_def)
  with assms(2) e(1) j(1) obtain k where "device_internal e u = Some k" "same_transition j k"
    by (auto simp: kernel_frame_except_def)
  with j(2) show "\<exists>k. device_internal e u = Some k \<and> same_transition i k" by (simp add: same_transition_def)
qed

lemma frame_except_other:
  assumes "\<And>e. e \<noteq> d \<Longrightarrow> device_internal e s' = device_internal e s"
  shows "kernel_frame_except d s s'"
  using assms by (auto simp: kernel_frame_except_def same_transition_def)

lemma frame_from_except:
  assumes "kernel_frame_except d s s'" and "\<And>i. device_internal d s = Some i \<Longrightarrow> \<not> busy i"
  shows "kernel_frame s s'"
  unfolding kernel_frame_def
proof (intro allI impI)
  fix e i assume "device_internal e s = Some i" "busy i"
  with assms show "\<exists>j. device_internal e s' = Some j \<and> same_transition i j"
    by (cases "e = d") (auto simp: kernel_frame_except_def)
qed

text \<open>
  A change of one device's flags together with the use count of its driver: \<open>f\<close> changes the device,
  \<open>n\<close> is added to the count of \<open>r\<close>.
\<close>

definition close_transition :: "dev \<Rightarrow> drv \<Rightarrow> int \<Rightarrow> (DeviceInternal \<Rightarrow> DeviceInternal) \<Rightarrow> kernel \<Rightarrow> kernel" where
  "close_transition d r n f s =
     upd_internal d f (upd_driver_internal r (\<lambda>i. i\<lparr>use_count := use_count i + n\<rparr>) s)"

lemma close_transition_inv:
  assumes inv: "kernel_inv s" and d: "device_internal d s = Some i" "driver i = Some r" "added i"
    and f: "state_ok (f i)" "driver (f i) = driver i" "added (f i) = added i" "children (f i) = children i"
    and n: "n = (if started (f i) then 1 else 0) - (if started i then 1 else 0)"
    and r: "driver_internal r s \<noteq> None"
  shows "kernel_inv (close_transition d r n f s)" (is "kernel_inv ?t")
proof -
  have int: "device_internal e ?t = (if e = d then Some (f i) else device_internal e s)" for e
    using d by (simp add: close_transition_def)
  have add: "is_added e ?t = is_added e s" for e using d f by (auto simp: is_added_def int)
  have par: "parent (devices ?t e) = parent (devices s e)" for e by (simp add: close_transition_def)
  have led: "device_ledger ?t = device_ledger s" by (simp add: close_transition_def)
  have bnd: "bound_to q ?t e = (if e = d then q = r \<and> started (f i) else bound_to q s e)" for q e
    using d f by (auto simp: bound_to_def int)
  have bd: "bound_to q s d \<longleftrightarrow> q = r \<and> started i" for q using d by (auto simp: bound_to_def)
  have mem: "d \<in> set (device_ledger s)" using kernel_inv_ledger(1) [OF inv] d by (simp add: is_added_def)
  have other: "filter (bound_to q ?t) (device_ledger s) = filter (bound_to q s) (device_ledger s)"
    if "q \<noteq> r \<or> started (f i) = started i" for q
    using that bd by (intro filter_cong) (auto simp: bnd)
  have cnt: "int (length (filter (bound_to r ?t) (device_ledger s))) =
             int (length (filter (bound_to r s) (device_ledger s))) + n"
  proof (cases "started (f i) = started i")
    case True
    with other n show ?thesis by simp
  next
    case False
    note flip = filter_flip_length [OF kernel_inv_ledger(2) [OF inv] mem]
    show ?thesis
    proof (cases "started i")
      case True
      have "length (filter (bound_to r s) (device_ledger s)) = Suc (length (filter (bound_to r ?t) (device_ledger s)))"
        by (rule flip) (use True False bd in \<open>simp_all add: bnd\<close>)
      moreover have "n = - 1" using True False n by simp
      ultimately show ?thesis by simp
    next
      case nst: False
      have "length (filter (bound_to r ?t) (device_ledger s)) = Suc (length (filter (bound_to r s) (device_ledger s)))"
        by (rule flip) (use nst False bd in \<open>simp_all add: bnd\<close>)
      moreover have "n = 1" using nst False n by simp
      ultimately show ?thesis by simp
    qed
  qed
  show ?thesis
  proof (rule kernel_invI, unfold add par led)
    fix e j assume j: "device_internal e ?t = Some j"
    show "state_ok j" using j f(1) kernel_inv_children(3) [OF inv, of e j] by (auto simp: int split: if_splits)
    show "distinct (children j)"
      using j f(4) kernel_inv_children(2) [OF inv d(1)] kernel_inv_children(2) [OF inv, of e j]
      by (auto simp: int split: if_splits)
    fix c show "c \<in> set (children j) \<longleftrightarrow> is_added c s \<and> parent (devices s c) = Some e"
      using j f(4) kernel_inv_children(1) [OF inv d(1), of c] kernel_inv_children(1) [OF inv, of e j c]
      by (auto simp: int split: if_splits)
  next
    fix c p assume "is_added c s" "parent (devices s c) = Some p"
    with kernel_inv_parent [OF inv this] show "device_internal p ?t \<noteq> None" by (auto simp: int)
  next
    fix q k assume "driver_internal q ?t = Some k"
    then obtain k0 where k0: "driver_internal q s = Some k0"
      "destroying k = destroying k0" "use_count k = use_count k0 + (if q = r then n else 0)"
      by (auto simp: close_transition_def split: if_splits)
    with kernel_inv_use_count(1,2) [OF inv, of q k0] cnt other [of q]
    show "\<not> destroying k" "use_count k = int (length (filter (bound_to q ?t) (device_ledger s)))"
      by auto
  next
    fix e q assume "bound_to q ?t e"
    then have "driver_internal q s \<noteq> None"
      using r kernel_inv_use_count(3) [OF inv, of q e] by (auto simp: bnd split: if_splits)
    then show "driver_internal q ?t \<noteq> None" by (auto simp: close_transition_def)
  qed (use kernel_inv_ledger [OF inv] in auto)
qed

lemma close_transition_frame: "kernel_frame_except d s (close_transition d r n f s)"
  by (rule frame_except_other) (simp add: close_transition_def)

lemma entry_step:
  assumes inv: "kernel_inv s" and d: "device_internal d s = Some i" and f: "state_ok (f i)"
    "driver (f i) = driver i" "started (f i) = started i" "added (f i) = added i" "children (f i) = children i"
  shows "kernel_inv (upd_internal d f s)" (is "kernel_inv ?t")
proof -
  have int: "device_internal e ?t = (if e = d then Some (f i) else device_internal e s)" for e
    using d by simp
  have add: "is_added e ?t = is_added e s" for e using d f by (auto simp: is_added_def int)
  have bnd: "bound_to q ?t = bound_to q s" for q using d f by (auto simp: bound_to_def int fun_eq_iff)
  have par: "parent (devices ?t e) = parent (devices s e)" for e by simp
  show ?thesis
  proof (rule kernel_invI, unfold add par bnd)
    fix e j assume "device_internal e ?t = Some j"
    then have j: "(if e = d then Some (f i) else device_internal e s) = Some j" by (simp only: int)
    show "state_ok j" using j f(1) kernel_inv_children(3) [OF inv, of e j] by (auto split: if_splits)
    show "distinct (children j)"
      using j f kernel_inv_children(2) [OF inv d] kernel_inv_children(2) [OF inv, of e j]
      by (auto split: if_splits)
    fix c show "c \<in> set (children j) \<longleftrightarrow> is_added c s \<and> parent (devices s c) = Some e"
      using j f kernel_inv_children(1) [OF inv d, of c] kernel_inv_children(1) [OF inv, of e j c]
      by (auto split: if_splits)
  next
    fix c p assume "is_added c s" "parent (devices s c) = Some p"
    with kernel_inv_parent [OF inv this] show "device_internal p ?t \<noteq> None" by (auto simp: int)
  qed (use kernel_inv_ledger [OF inv] kernel_inv_use_count [OF inv] in auto)
qed

section \<open>The contract of the callbacks\<close>

locale kernel_callbacks =
  fixes env :: kenv
  assumes start_device_safe: "run_start_device env f d s = Some (e, s') \<Longrightarrow> kernel_safe s s'"
    and stop_device_safe: "run_stop_device env f d s = Some (e, s') \<Longrightarrow> kernel_safe s s'"
    and probe_safe: "run_probe env f d s = Some (e, s') \<Longrightarrow> kernel_safe s s'"
    and listener_safe: "run_listener env f d ev c s = Some s' \<Longrightarrow> kernel_safe s s'"
    and module_fn_safe: "run_module_fn env f s = Some (e, s') \<Longrightarrow> kernel_safe s s'"
begin

lemma notify_loop_safe: "notify_loop env d ev ls s = Some s' \<Longrightarrow> kernel_safe s s'"
proof (induction ls arbitrary: s)
  case (Cons l ls)
  obtain cb ctx where l: "l = (cb, ctx)" by fastforce
  with Cons.prems obtain t where "run_listener env cb d ev ctx s = Some t" "notify_loop env d ev ls t = Some s'"
    by (auto simp: bind_Some_iff)
  with Cons.IH listener_safe show ?case by (blast intro: kernel_safe_trans)
qed simp

lemma notify_safe: "device_listener_notify env d ev s = Some s' \<Longrightarrow> kernel_safe s s'"
  unfolding device_listener_notify_def by (rule notify_loop_safe)

lemma probe_absent_safe: "probe_reports_absent env r d s = Some (b, s') \<Longrightarrow> kernel_safe s s'"
  by (auto simp: probe_reports_absent_def bind_Some_iff dest: probe_safe split: option.splits if_splits)

lemma run_optional_start_safe: "run_optional (run_start_device env) fo d s = Some (e, s') \<Longrightarrow> kernel_safe s s'"
  by (auto simp: run_optional_def dest: start_device_safe split: option.splits)

lemma run_optional_stop_safe: "run_optional (run_stop_device env) fo d s = Some (e, s') \<Longrightarrow> kernel_safe s s'"
  by (auto simp: run_optional_def dest: stop_device_safe split: option.splits)

text \<open>A bind is a safe change, followed by the increment of the use count when it succeeds.\<close>

lemma driver_bind_cases:
  assumes "driver_bind env r d s = Some (e, s')"
  obtains (failed) "e \<noteq> ERROR_NONE" "kernel_safe s s'"
  | (bound) t where "e = ERROR_NONE" "kernel_safe s t" "driver_internal r t \<noteq> None"
      "s' = upd_driver_internal r (\<lambda>i. i\<lparr>use_count := use_count i + 1\<rparr>) t"
proof -
  from assms obtain i where i: "driver_internal r s = Some i" by (auto simp: driver_bind_def bind_Some_iff)
  from assms i obtain a where a: "device_is_added d s = Some a" if "\<not> destroying i"
    by (auto simp: driver_bind_def bind_Some_iff split: if_splits)
  show thesis
  proof (cases "destroying i \<or> \<not> a")
    case True
    with assms i a show thesis by (auto simp: driver_bind_def intro: failed split: if_splits)
  next
    case False
    with assms i a obtain b t where t: "probe_reports_absent env r d s = Some (b, t)"
      by (auto simp: driver_bind_def bind_Some_iff split: if_splits)
    note st = probe_absent_safe [OF t]
    show thesis
    proof (cases b)
      case True
      with False assms i a t st show thesis by (auto simp: driver_bind_def intro!: failed split: if_splits)
    next
      case nb: False
      with False assms i a t obtain e1 u where
        u: "run_optional (run_start_device env) (start_device (drivers t r)) d t = Some (e1, u)"
        by (auto simp: driver_bind_def bind_Some_iff split: if_splits)
      with st have su: "kernel_safe s u" by (blast intro: kernel_safe_trans run_optional_start_safe)
      from False nb assms i a t u su show thesis
        by (auto simp: driver_bind_def bind_Some_iff intro: failed bound split: if_splits)
    qed
  qed
qed

lemma driver_unbind_cases:
  assumes "driver_unbind env r d s = Some (e, s')"
  obtains (failed) "e \<noteq> ERROR_NONE" "kernel_safe s s'"
  | (unbound) t where "e = ERROR_NONE" "kernel_safe s t" "driver_internal r t \<noteq> None"
      "s' = upd_driver_internal r (\<lambda>i. i\<lparr>use_count := use_count i - 1\<rparr>) t"
proof -
  from assms obtain i where i: "driver_internal r s = Some i" by (auto simp: driver_unbind_def bind_Some_iff)
  from assms i obtain a where a: "device_is_added d s = Some a" if "\<not> destroying i"
    by (auto simp: driver_unbind_def bind_Some_iff split: if_splits)
  show thesis
  proof (cases "destroying i \<or> \<not> a")
    case True
    with assms i a show thesis by (auto simp: driver_unbind_def intro: failed split: if_splits)
  next
    case False
    with assms i a obtain e1 u where
      u: "run_optional (run_stop_device env) (stop_device (drivers s r)) d s = Some (e1, u)"
      by (auto simp: driver_unbind_def bind_Some_iff split: if_splits)
    note su = run_optional_stop_safe [OF u]
    from False assms i a u su show thesis
      by (auto simp: driver_unbind_def bind_Some_iff intro: failed unbound split: if_splits)
  qed
qed

text \<open>During a callback the device of the transition stays in it.\<close>

lemma transition_kept:
  assumes "kernel_safe s t" and "kernel_inv s" and "device_internal d s = Some i" and "busy i"
  obtains j where "kernel_inv t" "device_internal d t = Some j" "same_transition i j" "kernel_frame s t"
  using assms by (auto simp: kernel_safe_def kernel_frame_def)

lemma device_start_safe:
  assumes "device_start env d s = Some (e, s')"
  shows "kernel_safe s s'"
proof (cases "kernel_inv s")
  case inv: True
  from assms obtain en s1 where en: "device_start_enter d s = Some (en, s1)"
    by (auto simp: device_start_def bind_Some_iff)
  then obtain i where i: "device_internal d s = Some i" by (auto simp: device_start_enter_def bind_Some_iff)
  note ok = kernel_inv_children(3) [OF inv i]
  show ?thesis
  proof (cases en)
    case (Return x)
    with en i have "s1 = s" by (auto simp: device_start_enter_def split: if_splits)
    with assms en Return show ?thesis by (simp add: device_start_def)
  next
    case Proceed
    with en i obtain r where i': "added i" "driver i = Some r" "\<not> started i" "\<not> starting i"
      and s1: "s1 = upd_internal d (\<lambda>i. i\<lparr>starting := True\<rparr>) s"
      by (auto simp: device_start_enter_def split: if_splits)
    have idle: "\<not> busy i" and nstop: "\<not> stopping i" using ok i' by (auto simp: busy_def state_ok_def)
    let ?i1 = "i\<lparr>starting := True\<rparr>"
    have i1: "device_internal d s1 = Some ?i1" "busy ?i1" using i by (simp_all add: s1 busy_def)
    have inv1: "kernel_inv s1"
      unfolding s1 using ok i' by (intro entry_step [OF inv i]) (auto simp: state_ok_def)
    have fr1: "kernel_frame_except d s s1" by (rule frame_except_other) (simp add: s1)
    from assms en Proceed i1 i' obtain e2 s2 where s2: "driver_bind env r d s1 = Some (e2, s2)"
      by (auto simp: device_start_def bind_Some_iff)
    from s2 show ?thesis
    proof (cases rule: driver_bind_cases)
      case failed
      from transition_kept [OF failed(2) inv1 i1] obtain j where
        j: "kernel_inv s2" "device_internal d s2 = Some j" "same_transition ?i1 j" "kernel_frame s1 s2" .
      let ?f = "\<lambda>i. i\<lparr>starting := False, started := (e2 = ERROR_NONE), start_result := e2\<rparr>"
      have s': "s' = upd_internal d ?f s2"
        using assms en Proceed i1 i' s2 failed j(2) by (auto simp: device_start_def device_start_finish_def)
      have "kernel_inv s'"
        unfolding s' using j(3) failed i' nstop kernel_inv_children(3) [OF j(1,2)]
        by (intro entry_step [OF j(1,2)]) (auto simp: state_ok_def same_transition_def)
      moreover have "kernel_frame_except d s2 s'" by (rule frame_except_other) (simp add: s')
      ultimately show ?thesis
        using idle i frame_from_except frame_except_trans fr1 frame_exceptI [OF j(4)]
        unfolding kernel_safe_def by (metis option.inject)
    next
      case (bound t)
      from transition_kept [OF bound(2) inv1 i1] obtain j where
        j: "kernel_inv t" "device_internal d t = Some j" "same_transition ?i1 j" "kernel_frame s1 t" .
      let ?f = "\<lambda>i. i\<lparr>starting := False, started := True, start_result := 0\<rparr>"
      let ?u = "close_transition d r 1 ?f t"
      have fin: "device_start_finish d e2 s2 = Some ?u"
        using bound j(2) by (simp add: device_start_finish_def close_transition_def)
      have "kernel_inv ?u"
        using j(3) bound i' nstop kernel_inv_children(3) [OF j(1,2)]
        by (intro close_transition_inv [OF j(1,2)]) (auto simp: state_ok_def same_transition_def)
      moreover have "kernel_safe ?u s'"
        using assms en Proceed i1 i' s2 bound fin
        by (auto simp: device_start_def bind_Some_iff intro: notify_safe)
      moreover have "kernel_frame_except d s ?u"
        using fr1 frame_exceptI [OF j(4)] close_transition_frame by (blast intro: frame_except_trans)
      ultimately show ?thesis
        unfolding kernel_safe_def using idle i
        by (auto intro!: frame_from_except [of d] intro: frame_except_trans frame_exceptI)
    qed
  qed
qed (simp add: kernel_safe_def)

lemma device_stop_safe:
  assumes "device_stop env d s = Some (e, s')"
  shows "kernel_safe s s'"
proof (cases "kernel_inv s")
  case inv: True
  from assms obtain en s1 where en: "device_stop_enter d s = Some (en, s1)"
    by (auto simp: device_stop_def bind_Some_iff)
  then obtain i where i: "device_internal d s = Some i" by (auto simp: device_stop_enter_def bind_Some_iff)
  note ok = kernel_inv_children(3) [OF inv i]
  show ?thesis
  proof (cases en)
    case (Return x)
    with en i have "s1 = s" by (auto simp: device_stop_enter_def split: if_splits)
    with assms en Return show ?thesis by (simp add: device_stop_def)
  next
    case Proceed
    with en i have i': "added i" "started i" "\<not> stopping i"
      and s1: "s1 = upd_internal d (\<lambda>i. i\<lparr>stopping := True\<rparr>) s"
      by (auto simp: device_stop_enter_def split: if_splits)
    have idle: "\<not> busy i" and nstart: "\<not> starting i" using ok i' by (auto simp: busy_def state_ok_def)
    let ?i1 = "i\<lparr>stopping := True\<rparr>"
    have i1: "device_internal d s1 = Some ?i1" "busy ?i1" using i by (simp_all add: s1 busy_def)
    have inv1: "kernel_inv s1"
      unfolding s1 using ok i' by (intro entry_step [OF inv i]) (auto simp: state_ok_def)
    have fr1: "kernel_frame_except d s s1" by (rule frame_except_other) (simp add: s1)
    from assms en Proceed obtain s2 where s2: "device_listener_notify env d DEVICE_EVENT_STOPPING s1 = Some s2"
      by (auto simp: device_stop_def bind_Some_iff)
    from transition_kept [OF notify_safe [OF s2] inv1 i1] obtain i2 where
      i2: "kernel_inv s2" "device_internal d s2 = Some i2" "same_transition ?i1 i2" "kernel_frame s1 s2" .
    then have b2: "busy i2" by (simp add: busy_def same_transition_def)
    have fr2: "kernel_frame_except d s s2" using fr1 frame_exceptI [OF i2(4)] by (rule frame_except_trans)
    from assms en Proceed s2 i2(2) obtain r e3 s3 where
      r: "driver i2 = Some r" and s3: "driver_unbind env r d s2 = Some (e3, s3)"
      by (auto simp: device_stop_def bind_Some_iff)
    from s3 show ?thesis
    proof (cases rule: driver_unbind_cases)
      case failed
      from transition_kept [OF failed(2) i2(1,2) b2] obtain j where
        j: "kernel_inv s3" "device_internal d s3 = Some j" "same_transition i2 j" "kernel_frame s2 s3" .
      have s': "s' = upd_internal d (\<lambda>i. i\<lparr>stopping := False\<rparr>) s3"
        using assms en Proceed s2 i2(2) r s3 failed j(2) by (auto simp: device_stop_def device_stop_finish_def)
      have "kernel_inv s'"
        unfolding s' using kernel_inv_children(3) [OF j(1,2)]
        by (intro entry_step [OF j(1,2)]) (auto simp: state_ok_def)
      moreover have "kernel_frame_except d s3 s'" by (rule frame_except_other) (simp add: s')
      ultimately show ?thesis
        using idle i fr2 frame_exceptI [OF j(4)] unfolding kernel_safe_def
        by (auto intro!: frame_from_except [of d] intro: frame_except_trans)
    next
      case (unbound t)
      from transition_kept [OF unbound(2) i2(1,2) b2] obtain j where
        j: "kernel_inv t" "device_internal d t = Some j" "same_transition i2 j" "kernel_frame s2 t" .
      let ?f = "\<lambda>i. i\<lparr>stopping := False, started := False, start_result := 0\<rparr>"
      let ?u = "close_transition d r (- 1) ?f t"
      have fin: "device_stop_finish d e3 s3 = Some ?u"
        using unbound j(2) by (simp add: device_stop_finish_def close_transition_def)
      have "kernel_inv ?u"
        using j(3) i2(3) r unbound i' nstart kernel_inv_children(3) [OF j(1,2)]
        by (intro close_transition_inv [OF j(1,2)]) (auto simp: state_ok_def same_transition_def)
      moreover have "kernel_safe ?u s'"
        using assms en Proceed s2 i2(2) r s3 unbound fin
        by (auto simp: device_stop_def bind_Some_iff intro: notify_safe)
      moreover have "kernel_frame_except d s ?u"
        using fr2 frame_exceptI [OF j(4)] close_transition_frame by (blast intro: frame_except_trans)
      ultimately show ?thesis
        unfolding kernel_safe_def using idle i
        by (auto intro!: frame_from_except [of d] intro: frame_except_trans frame_exceptI)
    qed
  qed
qed (simp add: kernel_safe_def)

end

end
