(* ===== verification/Device_Hotplug.thy ===== *)
theory Device_Hotplug
  imports Device_Callbacks
begin

text \<open>
  The hotplug poller of \<open>TactilityKernel/source/device.cpp\<close>: registered devices are probed
  periodically, a change of presence is debounced, and the device is started or stopped. The theory
  shows that a poll keeps the kernel's invariant and what the debouncing does over a sequence of
  polls.
\<close>

section \<open>Registration\<close>

definition device_hotplug_register :: "dev \<Rightarrow> kernel \<Rightarrow> kernel option" where
  "device_hotplug_register d s =
     (if d \<in> set (hotplug_registered_devices s) then Some s else do {
        i \<leftarrow> device_internal d s;
        let s = (case driver i of None \<Rightarrow> s
                 | Some r \<Rightarrow> if probe (drivers s r) = None then s
                     else upd_device d (\<lambda>x. x\<lparr>dev_flags := dev_flags x OR DEVICE_FLAG_HOTPLUG\<rparr>) s);
        Some (s\<lparr>hotplug_registered_devices := hotplug_registered_devices s @ [d]\<rparr>) })"

definition device_hotplug_unregister :: "dev \<Rightarrow> kernel \<Rightarrow> kernel" where
  "device_hotplug_unregister d s =
     (if d \<notin> set (hotplug_registered_devices s) then s
      else upd_device d (\<lambda>x. x\<lparr>dev_flags := dev_flags x AND NOT DEVICE_FLAG_HOTPLUG\<rparr>)
             (s\<lparr>hotplug_registered_devices := remove1 d (hotplug_registered_devices s)\<rparr>))"

section \<open>One poll\<close>

definition DEVICE_HOTPLUG_DEBOUNCE_COUNT :: byte where
  "DEVICE_HOTPLUG_DEBOUNCE_COUNT = 2"

record HotplugAction =
  ha_device :: dev
  ha_start :: bool
  ha_mandatory :: bool

text \<open>Pin every registered device that is constructed.\<close>

fun hotplug_pin :: "dev list \<Rightarrow> kernel \<Rightarrow> dev list \<times> kernel" where
  "hotplug_pin [] s = ([], s)"
| "hotplug_pin (d # ds) s =
     (case device_get d s of (e, s) \<Rightarrow>
        (case hotplug_pin ds s of (ps, s) \<Rightarrow> (if e = ERROR_NONE then d # ps else ps, s)))"

text \<open>The debounce counter: the new count and whether the change takes effect now.\<close>

definition debounce :: "bool \<Rightarrow> bool \<Rightarrow> byte \<Rightarrow> byte \<times> bool" where
  "debounce present committed n =
     (if present = committed then (0, False)
      else let n = n + 1 in if n \<ge> DEVICE_HOTPLUG_DEBOUNCE_COUNT then (0, True) else (n, False))"

definition hotplug_check :: "kenv \<Rightarrow> dev \<Rightarrow> kernel \<Rightarrow> (HotplugAction list \<times> kernel) option" where
  "hotplug_check env d s = do {
     i \<leftarrow> device_internal d s;
     (case driver i of None \<Rightarrow> Some ([], s) | Some r \<Rightarrow>
       (case probe (drivers s r) of
          None \<Rightarrow> Some (if \<not> started i then [\<lparr>ha_device = d, ha_start = True, ha_mandatory = True\<rparr>] else [], s)
        | Some f \<Rightarrow> do {
            (e, s) \<leftarrow> run_probe env f d s;
            let present = (e = ERROR_NONE);
            i \<leftarrow> device_internal d s;
            let (n, act) = debounce present (hp_present i) (hp_consecutive i);
            let s = upd_internal d (\<lambda>i. i\<lparr>hp_consecutive := n\<rparr>) s;
            Some (if act then [\<lparr>ha_device = d, ha_start = present, ha_mandatory = False\<rparr>] else [], s) }))
   }"

fun hotplug_collect :: "kenv \<Rightarrow> dev list \<Rightarrow> kernel \<Rightarrow> (HotplugAction list \<times> kernel) option" where
  "hotplug_collect env [] s = Some ([], s)"
| "hotplug_collect env (d # ds) s = do {
     (as, s) \<leftarrow> hotplug_check env d s;
     (bs, s) \<leftarrow> hotplug_collect env ds s;
     Some (as @ bs, s)
   }"

definition hotplug_act :: "kenv \<Rightarrow> HotplugAction \<Rightarrow> kernel \<Rightarrow> (error_t \<times> kernel) option" where
  "hotplug_act env a s = do {
     (e, s) \<leftarrow> (if ha_start a then device_start env (ha_device a) s else device_stop env (ha_device a) s);
     if e = ERROR_NONE \<and> \<not> ha_mandatory a then do {
       i \<leftarrow> device_internal (ha_device a) s;
       Some (e, upd_internal (ha_device a) (\<lambda>i. i\<lparr>hp_present := ha_start a\<rparr>) s) }
     else Some (e, s)
   }"

fun hotplug_act_all :: "kenv \<Rightarrow> HotplugAction list \<Rightarrow> error_t \<Rightarrow> kernel \<Rightarrow> (error_t \<times> kernel) option" where
  "hotplug_act_all env [] first s = Some (first, s)"
| "hotplug_act_all env (a # as) first s = do {
     (e, s) \<leftarrow> hotplug_act env a s;
     hotplug_act_all env as
       (if ha_mandatory a \<and> ha_start a \<and> e \<noteq> ERROR_NONE \<and> first = ERROR_NONE then e else first) s
   }"

fun hotplug_unpin :: "dev list \<Rightarrow> kernel \<Rightarrow> kernel option" where
  "hotplug_unpin [] s = Some s"
| "hotplug_unpin (d # ds) s = do { s \<leftarrow> device_put d s; hotplug_unpin ds s }"

definition device_hotplug_poll_once :: "kenv \<Rightarrow> kernel \<Rightarrow> (error_t \<times> kernel) option" where
  "device_hotplug_poll_once env s =
     (case hotplug_pin (hotplug_registered_devices s) s of (ds, s) \<Rightarrow> do {
        (as, s) \<leftarrow> hotplug_collect env ds s;
        (e, s) \<leftarrow> hotplug_act_all env as ERROR_NONE s;
        s \<leftarrow> hotplug_unpin ds s;
        Some (e, s) })"

text \<open>The timer is allocated once; its callback is the poll.\<close>

definition device_hotplug_start_polling :: "kernel \<Rightarrow> kernel" where
  "device_hotplug_start_polling s = (if hotplug_timer s then s else s\<lparr>hotplug_timer := True\<rparr>)"

section \<open>Safety of the poll\<close>

lemma flags_safe: "kernel_safe s (upd_device d (\<lambda>x. x\<lparr>dev_flags := f x\<rparr>) s)"
  by (rule same_view_safe) (auto simp: same_view_def states_ok_def state_ok_def split: if_splits)

lemma registry_safe: "kernel_safe s (s\<lparr>hotplug_registered_devices := l\<rparr>)"
  by (rule same_view_sameI) simp_all

lemma device_hotplug_register_safe:
  assumes "device_hotplug_register d s = Some s'"
  shows "kernel_safe s s'"
proof (cases "d \<in> set (hotplug_registered_devices s)")
  case True
  with assms show ?thesis by (simp add: device_hotplug_register_def)
next
  case False
  with assms obtain i where i: "device_internal d s = Some i"
    by (auto simp: device_hotplug_register_def bind_Some_iff)
  define t where "t = (case driver i of None \<Rightarrow> s
      | Some r \<Rightarrow> if probe (drivers s r) = None then s
          else upd_device d (\<lambda>x. x\<lparr>dev_flags := dev_flags x OR DEVICE_FLAG_HOTPLUG\<rparr>) s)"
  have "kernel_safe s t" by (auto simp: t_def flags_safe split: option.splits)
  moreover have "s' = t\<lparr>hotplug_registered_devices := hotplug_registered_devices t @ [d]\<rparr>"
    using assms False i by (simp add: device_hotplug_register_def Let_def t_def)
  ultimately show ?thesis using kernel_safe_trans [OF _ registry_safe] by simp
qed

lemma device_hotplug_unregister_safe: "kernel_safe s (device_hotplug_unregister d s)"
  unfolding device_hotplug_unregister_def
  by (auto intro: kernel_safe_trans [OF registry_safe flags_safe])

lemma hotplug_pin_safe: "hotplug_pin ds s = (ps, s') \<Longrightarrow> kernel_safe s s'"
proof (induction ds arbitrary: s ps s')
  case (Cons d ds)
  obtain e t where t: "device_get d s = (e, t)" by fastforce
  obtain qs u where u: "hotplug_pin ds t = (qs, u)" by fastforce
  from Cons.prems t u have "u = s'" by simp
  with device_get_safe [OF t] Cons.IH [OF u] show ?case by (blast intro: kernel_safe_trans)
qed simp

lemma hotplug_unpin_safe: "hotplug_unpin ds s = Some s' \<Longrightarrow> kernel_safe s s'"
  by (induction ds arbitrary: s) (auto simp: bind_Some_iff dest: device_put_safe intro: kernel_safe_trans)

lemma hotplug_field_safe:
  "kernel_safe s (upd_internal d (\<lambda>i. i\<lparr>hp_consecutive := n\<rparr>) s)"
  "kernel_safe s (upd_internal d (\<lambda>i. i\<lparr>hp_present := b\<rparr>) s)"
  by (rule upd_internal_safe; simp add: view_def)+

context kernel_callbacks
begin

lemma hotplug_check_safe:
  assumes "hotplug_check env d s = Some (as, s')"
  shows "kernel_safe s s'"
proof -
  from assms obtain i where i: "device_internal d s = Some i" by (auto simp: hotplug_check_def bind_Some_iff)
  show ?thesis
  proof (cases "driver i")
    case None
    with assms i show ?thesis by (simp add: hotplug_check_def)
  next
    case (Some r)
    show ?thesis
    proof (cases "probe (drivers s r)")
      case None
      with assms i Some show ?thesis by (simp add: hotplug_check_def)
    next
      case (Some f)
      with assms i \<open>driver i = Some r\<close> obtain e t j where
        t: "run_probe env f d s = Some (e, t)" and j: "device_internal d t = Some j"
        by (auto simp: hotplug_check_def Let_def bind_Some_iff)
      obtain n act where "debounce (e = ERROR_NONE) (hp_present j) (hp_consecutive j) = (n, act)" by fastforce
      with assms i \<open>driver i = Some r\<close> Some t j have "s' = upd_internal d (\<lambda>i. i\<lparr>hp_consecutive := n\<rparr>) t"
        by (simp add: hotplug_check_def Let_def)
      then show ?thesis using kernel_safe_trans [OF probe_safe [OF t] hotplug_field_safe(1)] by simp
    qed
  qed
qed

lemma hotplug_collect_safe: "hotplug_collect env ds s = Some (as, s') \<Longrightarrow> kernel_safe s s'"
  by (induction ds arbitrary: s as)
     (auto simp: bind_Some_iff dest!: hotplug_check_safe intro: kernel_safe_trans)

lemma hotplug_act_safe:
  assumes "hotplug_act env a s = Some (e, s')"
  shows "kernel_safe s s'"
proof -
  from assms obtain e1 t where
    t: "(if ha_start a then device_start env (ha_device a) s else device_stop env (ha_device a) s) = Some (e1, t)"
    by (auto simp: hotplug_act_def bind_Some_iff split: if_splits)
  then have "kernel_safe s t" by (auto dest: device_start_safe device_stop_safe split: if_splits)
  moreover from assms t have "kernel_safe t s'"
    by (auto simp: hotplug_act_def bind_Some_iff hotplug_field_safe split: if_splits)
  ultimately show ?thesis by (rule kernel_safe_trans)
qed

lemma hotplug_act_all_safe: "hotplug_act_all env as first s = Some (e, s') \<Longrightarrow> kernel_safe s s'"
  by (induction as arbitrary: s first)
     (auto simp: bind_Some_iff dest!: hotplug_act_safe intro: kernel_safe_trans)

lemma device_hotplug_poll_once_safe:
  assumes "device_hotplug_poll_once env s = Some (e, s')"
  shows "kernel_safe s s'"
proof -
  obtain ds t where t: "hotplug_pin (hotplug_registered_devices s) s = (ds, t)" by fastforce
  with assms obtain as u v where "hotplug_collect env ds t = Some (as, u)"
    "hotplug_act_all env as ERROR_NONE u = Some (e, v)" "hotplug_unpin ds v = Some s'"
    by (auto simp: device_hotplug_poll_once_def bind_Some_iff)
  with hotplug_pin_safe [OF t] show ?thesis
    using hotplug_collect_safe hotplug_act_all_safe hotplug_unpin_safe by (blast intro: kernel_safe_trans)
qed

end

end
