(* ===== verification/Kernel_Module.thy ===== *)
theory Kernel_Module
  imports Device_Callbacks
begin

text \<open>
  \<open>TactilityKernel/source/module.cpp\<close>: modules bring drivers and symbols. Starting a module
  constructs and registers its drivers, stopping it removes and destructs them in reverse order; a
  driver that is still in use makes the \<open>check()\<close> of the stop crash the kernel.
\<close>

section \<open>Operations\<close>

definition upd_module_internal :: "modref \<Rightarrow> (ModuleInternal \<Rightarrow> ModuleInternal) \<Rightarrow> kernel \<Rightarrow> kernel" where
  "upd_module_internal m f = upd_module m (\<lambda>x. x\<lparr>mod_internal := map_option f (mod_internal x)\<rparr>)"

definition module_construct :: "modref \<Rightarrow> kernel \<Rightarrow> error_t \<times> kernel" where
  "module_construct m s =
     (if module_internal m s \<noteq> None then (ERROR_INVALID_STATE, s)
      else case new_nothrow s of (ok, s) \<Rightarrow>
        if \<not> ok then (ERROR_OUT_OF_MEMORY, s)
        else (ERROR_NONE, upd_module m (\<lambda>x. x\<lparr>mod_internal := Some ModuleInternal_init\<rparr>) s))"

definition module_destruct :: "modref \<Rightarrow> kernel \<Rightarrow> error_t \<times> kernel" where
  "module_destruct m s =
     (if module_internal m s = None then (ERROR_INVALID_STATE, s)
      else (ERROR_NONE, upd_module m (\<lambda>x. x\<lparr>mod_internal := None\<rparr>) s))"

definition module_add :: "modref \<Rightarrow> kernel \<Rightarrow> error_t \<times> kernel" where
  "module_add m s =
     (if m \<in> set (module_ledger s) then (ERROR_INVALID_STATE, s)
      else (ERROR_NONE, s\<lparr>module_ledger := module_ledger s @ [m]\<rparr>))"

definition module_remove :: "modref \<Rightarrow> kernel \<Rightarrow> error_t \<times> kernel" where
  "module_remove m s = (ERROR_NONE, s\<lparr>module_ledger := removeAll m (module_ledger s)\<rparr>)"

fun module_add_drivers :: "modref \<Rightarrow> drv list \<Rightarrow> kernel \<Rightarrow> kernel option" where
  "module_add_drivers m [] s = Some s"
| "module_add_drivers m (r # rs) s = do {
     (e, s) \<leftarrow> driver_construct r s;
     if e \<noteq> ERROR_NONE then None else do {   \<comment> \<open>\<open>check(driver_construct(driver) == ERROR_NONE)\<close>\<close>
     s \<leftarrow> driver_set_owner r (Some m) s;
     (e, s) \<leftarrow> driver_add r s;
     if e \<noteq> ERROR_NONE then None else module_add_drivers m rs s }
   }"

fun module_remove_drivers :: "drv list \<Rightarrow> kernel \<Rightarrow> kernel option" where
  "module_remove_drivers [] s = Some s"
| "module_remove_drivers (r # rs) s = do {
     (e, s) \<leftarrow> driver_remove_destruct r s;
     if e \<noteq> ERROR_NONE then None else module_remove_drivers rs s
   }"

definition run_module :: "kenv \<Rightarrow> fn option \<Rightarrow> kernel \<Rightarrow> (error_t \<times> kernel) option" where
  "run_module env fo s = (case fo of None \<Rightarrow> Some (ERROR_NONE, s) | Some f \<Rightarrow> run_module_fn env f s)"

definition module_start :: "kenv \<Rightarrow> modref \<Rightarrow> kernel \<Rightarrow> (error_t \<times> kernel) option" where
  "module_start env m s =
     (case module_internal m s of None \<Rightarrow> Some (ERROR_INVALID_STATE, s) | Some i \<Rightarrow>
        if mod_started i then Some (ERROR_NONE, s) else do {
        (e, s) \<leftarrow> run_module env (mod_start (modules s m)) s;
        if e \<noteq> ERROR_NONE then Some (e, s) else do {
        i \<leftarrow> module_internal m s;
        s \<leftarrow> (case mod_drivers (modules s m) of None \<Rightarrow> Some s | Some rs \<Rightarrow>
               if drivers_ready i then Some s else do {
                 s \<leftarrow> module_add_drivers m rs s;
                 Some (upd_module_internal m (\<lambda>i. i\<lparr>drivers_ready := True\<rparr>) s) });
        Some (ERROR_NONE, upd_module_internal m (\<lambda>i. i\<lparr>mod_started := True\<rparr>) s) } })"

definition module_is_started :: "modref \<Rightarrow> kernel \<Rightarrow> bool" where
  "module_is_started m s = (case module_internal m s of None \<Rightarrow> False | Some i \<Rightarrow> mod_started i)"

definition module_stop :: "kenv \<Rightarrow> modref \<Rightarrow> kernel \<Rightarrow> (error_t \<times> kernel) option" where
  "module_stop env m s =
     (case module_internal m s of None \<Rightarrow> Some (ERROR_INVALID_STATE, s) | Some i \<Rightarrow>
        if \<not> mod_started i then Some (ERROR_NONE, s) else do {
        s \<leftarrow> (case mod_drivers (modules s m) of None \<Rightarrow> Some s | Some rs \<Rightarrow>
               if \<not> drivers_ready i then Some s else do {
                 s \<leftarrow> module_remove_drivers (rev rs) s;
                 Some (upd_module_internal m (\<lambda>i. i\<lparr>drivers_ready := False\<rparr>) s) });
        (e, s) \<leftarrow> run_module env (mod_stop (modules s m)) s;
        if e \<noteq> ERROR_NONE then Some (e, s) else do {
        i \<leftarrow> module_internal m s;
        Some (ERROR_NONE, upd_module_internal m (\<lambda>i. i\<lparr>mod_started := False\<rparr>) s) } })"

definition module_construct_add_start :: "kenv \<Rightarrow> modref \<Rightarrow> kernel \<Rightarrow> (error_t \<times> kernel) option" where
  "module_construct_add_start env m s =
     (case module_construct m s of (e, s) \<Rightarrow>
        if e \<noteq> ERROR_NONE then Some (e, s)
        else case module_add m s of (e, s) \<Rightarrow>
          if e \<noteq> ERROR_NONE then Some (e, s) else module_start env m s)"

definition module_ensure_started :: "kenv \<Rightarrow> modref \<Rightarrow> kernel \<Rightarrow> (error_t \<times> kernel) option" where
  "module_ensure_started env m s =
     (case (if module_internal m s = None then module_construct m s else (ERROR_NONE, s)) of (e, s) \<Rightarrow>
        if e \<noteq> ERROR_NONE then Some (e, s)
        else case module_add m s of (e, s) \<Rightarrow>
          if e \<noteq> ERROR_NONE \<and> e \<noteq> ERROR_INVALID_STATE then Some (e, s) else do {
          i \<leftarrow> module_internal m s;
          if \<not> mod_started i then do {
            (e, s) \<leftarrow> module_start env m s;
            if e \<noteq> ERROR_NONE then Some (e, s) else Some (ERROR_NONE, s) }
          else Some (ERROR_NONE, s) })"

definition module_ensure_destructed :: "kenv \<Rightarrow> modref \<Rightarrow> kernel \<Rightarrow> (error_t \<times> kernel) option" where
  "module_ensure_destructed env m s =
     (case module_internal m s of None \<Rightarrow> Some (ERROR_NONE, s) | Some i \<Rightarrow> do {
        (e, s) \<leftarrow> (if mod_started i then module_stop env m s else Some (ERROR_NONE, s));
        if e \<noteq> ERROR_NONE then Some (e, s)
        else case module_remove m s of (e, s) \<Rightarrow>
          if e \<noteq> ERROR_NONE then Some (e, s)
          else case module_destruct m s of (e, s) \<Rightarrow>
            if e \<noteq> ERROR_NONE then Some (e, s) else Some (ERROR_NONE, s) })"

fun symbol_loop :: "(string \<times> ptr) list \<Rightarrow> string \<Rightarrow> ptr option" where
  "symbol_loop [] n = None"
| "symbol_loop ((k, a) # ss) n = (if k = n then Some a else symbol_loop ss n)"

text \<open>\<open>Some a\<close> is the return value true with the address \<open>a\<close> stored.\<close>

definition module_resolve_symbol :: "modref \<Rightarrow> string \<Rightarrow> kernel \<Rightarrow> ptr option" where
  "module_resolve_symbol m n s =
     (if \<not> module_is_started m s then None
      else case mod_symbols (modules s m) of None \<Rightarrow> None | Some ss \<Rightarrow> symbol_loop ss n)"

fun resolve_loop :: "modref list \<Rightarrow> string \<Rightarrow> kernel \<Rightarrow> ptr option" where
  "resolve_loop [] n s = None"
| "resolve_loop (m # ms) n s =
     (if \<not> module_is_started m s then resolve_loop ms n s
      else case module_resolve_symbol m n s of Some a \<Rightarrow> Some a | None \<Rightarrow> resolve_loop ms n s)"

definition module_resolve_symbol_global :: "string \<Rightarrow> kernel \<Rightarrow> ptr option" where
  "module_resolve_symbol_global n s = resolve_loop (module_ledger s) n s"

section \<open>The driver loops\<close>

definition with_drivers :: "modref \<Rightarrow> drv list \<Rightarrow> kernel \<Rightarrow> drv \<Rightarrow> Driver" where
  "with_drivers m rs s = (\<lambda>r. if r \<in> set rs
     then (drivers s r)\<lparr>drv_internal := Some (DriverInternal_init\<lparr>owner := Some m\<rparr>)\<rparr> else drivers s r)"

lemma upd_driver_unfold: "upd_driver r f s = s\<lparr>drivers := (drivers s)(r := f (drivers s r))\<rparr>"
  by (simp add: upd_driver_def)

lemma module_add_drivers_result:
  assumes "allocs s = []"
  shows "module_add_drivers m rs s =
           Some (s\<lparr>driver_ledger := driver_ledger s @ rs, drivers := with_drivers m rs s\<rparr>)"
  using assms
proof (induction rs arbitrary: s)
  case Nil
  show ?case by (simp add: with_drivers_def)
next
  case (Cons r rs)
  let ?i = "DriverInternal_init\<lparr>owner := Some m\<rparr>"
  define s1 where "s1 = s\<lparr>drivers := (drivers s)(r := (drivers s r)\<lparr>drv_internal := Some ?i\<rparr>),
     driver_ledger := driver_ledger s @ [r]\<rparr>"
  have step: "module_add_drivers m (r # rs) s = module_add_drivers m rs s1"
    using Cons.prems
    by (simp add: driver_construct_def new_nothrow_def driver_set_owner_def driver_add_def s1_def
          upd_driver_def upd_driver_internal_def)
  have "with_drivers m rs s1 = with_drivers m (r # rs) s"
    by (auto simp: with_drivers_def s1_def fun_eq_iff)
  with Cons.IH [of s1] Cons.prems show ?case unfolding step by (simp add: s1_def)
qed

lemma driver_remove_destruct_ok:
  assumes "r \<in> set (driver_ledger s)" "driver_internal r s = Some i" "use_count i = 0" "\<not> destroying i"
  shows "driver_remove_destruct r s = Some (ERROR_NONE,
           s\<lparr>driver_ledger := remove1 r (driver_ledger s),
             drivers := (drivers s)(r := (drivers s r)\<lparr>drv_internal := None\<rparr>)\<rparr>)"
  using assms by (simp add: driver_remove_destruct_def driver_remove_def driver_destruct_def upd_driver_def)

lemma module_remove_drivers_result:
  assumes "distinct rs" "set rs \<inter> set L = {}" "driver_ledger s = L @ rs"
    and "\<And>r. r \<in> set rs \<Longrightarrow> \<exists>i. driver_internal r s = Some i \<and> use_count i = 0 \<and> \<not> destroying i"
  shows "module_remove_drivers (rev rs) s = Some (s\<lparr>driver_ledger := L,
           drivers := (\<lambda>r. if r \<in> set rs then (drivers s r)\<lparr>drv_internal := None\<rparr> else drivers s r)\<rparr>)"
  using assms
proof (induction rs arbitrary: s rule: rev_induct)
  case Nil
  then show ?case by simp
next
  case (snoc r rs)
  from snoc.prems(4) [of r] obtain i where i: "driver_internal r s = Some i" "use_count i = 0" "\<not> destroying i"
    by auto
  let ?s1 = "s\<lparr>driver_ledger := L @ rs, drivers := (drivers s)(r := (drivers s r)\<lparr>drv_internal := None\<rparr>)\<rparr>"
  have "remove1 r (L @ rs @ [r]) = L @ rs" using snoc.prems(1,2) by (simp add: remove1_append)
  with driver_remove_destruct_ok [OF _ i] snoc.prems(3)
  have step: "module_remove_drivers (rev (rs @ [r])) s = module_remove_drivers (rev rs) ?s1" by simp
  have "module_remove_drivers (rev rs) ?s1 = Some (?s1\<lparr>driver_ledger := L,
      drivers := (\<lambda>q. if q \<in> set rs then (drivers ?s1 q)\<lparr>drv_internal := None\<rparr> else drivers ?s1 q)\<rparr>)"
    using snoc.prems by (intro snoc.IH) auto
  moreover have "(\<lambda>q. if q \<in> set rs then (drivers ?s1 q)\<lparr>drv_internal := None\<rparr> else drivers ?s1 q) =
      (\<lambda>q. if q \<in> set (rs @ [r]) then (drivers s q)\<lparr>drv_internal := None\<rparr> else drivers s q)"
    by (auto simp: fun_eq_iff)
  ultimately show ?case unfolding step by simp
qed

lemma module_remove_drivers_in_use:
  assumes "r \<in> set rs" "driver_internal r s = Some i" "use_count i \<noteq> 0"
  shows "module_remove_drivers rs s = None"
  using assms
proof (induction rs arbitrary: s)
  case (Cons q rs)
  show ?case
  proof (cases "driver_remove_destruct q s")
    case (Some x)
    obtain e t where x: "x = (e, t)" by fastforce
    show ?thesis
    proof (cases "e = ERROR_NONE")
      case True
      with Some x Cons.prems(2,3) have "q \<noteq> r" "driver_internal r t = Some i"
        by (auto simp: driver_remove_destruct_def driver_remove_def driver_destruct_def bind_Some_iff
              split: if_splits)
      with Cons Some x show ?thesis by simp
    next
      case False
      with Some x show ?thesis by simp
    qed
  qed simp
qed simp

section \<open>Symbols\<close>

lemma symbol_loop_map_of: "symbol_loop ss n = map_of ss n"
  by (induction ss) auto

lemma resolve_loop_find:
  "resolve_loop ms n s =
     (case List.find (\<lambda>m. module_resolve_symbol m n s \<noteq> None) ms of
        None \<Rightarrow> None | Some m \<Rightarrow> module_resolve_symbol m n s)"
  by (induction ms) (auto simp: module_resolve_symbol_def split: option.splits)

end
