(* ===== verification/Kernel_Programs.thy ===== *)
theory Kernel_Programs
  imports Device_Hotplug Kernel_Module
begin

text \<open>
  Callbacks as programs over the kernel's own interface. A call of the interface is a value of
  \<open>kcall\<close>; \<open>kexec\<close> performs it, \<open>None\<close> when the kernel crashes or the caller breaks a rule of the
  interface (constructing what is constructed, changing the driver of a running device, moving a
  device that is in the tree). \<open>nested_env\<close> ties the knot: its callbacks run lists of such calls,
  whose own callbacks run lists of calls, to any depth; that discharges the contract
  \<open>kernel_callbacks\<close>, so the reachable states of the whole system satisfy the invariant with no
  assumption on the callbacks left.
\<close>

datatype kcall =
    Device_construct dev | Device_destruct dev | Device_add dev | Device_remove dev
  | Device_start dev | Device_stop dev | Device_get dev | Device_put dev
  | Device_set_driver dev "drv option" | Device_set_parent dev "dev option"
  | Device_set_driver_data dev "ptr option"
  | Device_construct_add dev "string option" | Device_construct_add_start dev "string option"
  | Driver_construct drv | Driver_destruct drv | Driver_add drv | Driver_remove drv
  | Listener_add fn ptr | Listener_remove fn ptr
  | Hotplug_register dev | Hotplug_unregister dev | Hotplug_poll_once

text \<open>The rules of the interface that the code does not check itself.\<close>

fun kcall_allowed :: "kcall \<Rightarrow> kernel \<Rightarrow> bool" where
  "kcall_allowed (Device_construct d) s = (device_internal d s = None)"
| "kcall_allowed (Device_construct_add d c) s = (device_internal d s = None)"
| "kcall_allowed (Device_construct_add_start d c) s = (device_internal d s = None)"
| "kcall_allowed (Driver_construct r) s = (driver_internal r s = None)"
| "kcall_allowed (Device_set_driver d r) s =
     (case device_internal d s of None \<Rightarrow> False | Some i \<Rightarrow> \<not> started i \<and> \<not> starting i)"
| "kcall_allowed (Device_set_parent d p) s =
     (case device_internal d s of None \<Rightarrow> False | Some i \<Rightarrow> \<not> added i)"
| "kcall_allowed _ s = True"

fun kcall_run :: "kenv \<Rightarrow> kcall \<Rightarrow> kernel \<Rightarrow> kernel option" where
  "kcall_run env (Device_construct d) s = map_option snd (device_construct d s)"
| "kcall_run env (Device_destruct d) s = map_option snd (device_destruct d s)"
| "kcall_run env (Device_add d) s = map_option snd (device_add d s)"
| "kcall_run env (Device_remove d) s = map_option snd (device_remove d s)"
| "kcall_run env (Device_start d) s = map_option snd (device_start env d s)"
| "kcall_run env (Device_stop d) s = map_option snd (device_stop env d s)"
| "kcall_run env (Device_get d) s = Some (snd (device_get d s))"
| "kcall_run env (Device_put d) s = device_put d s"
| "kcall_run env (Device_set_driver d r) s = device_set_driver d r s"
| "kcall_run env (Device_set_parent d p) s = device_set_parent d p s"
| "kcall_run env (Device_set_driver_data d p) s = device_set_driver_data d p s"
| "kcall_run env (Device_construct_add d c) s = map_option snd (device_construct_add d c s)"
| "kcall_run env (Device_construct_add_start d c) s = map_option snd (device_construct_add_start env d c s)"
| "kcall_run env (Driver_construct r) s = map_option snd (driver_construct r s)"
| "kcall_run env (Driver_destruct r) s = map_option snd (driver_destruct r s)"
| "kcall_run env (Driver_add r) s = map_option snd (driver_add r s)"
| "kcall_run env (Driver_remove r) s = map_option snd (driver_remove r s)"
| "kcall_run env (Listener_add cb c) s = Some (device_listener_add cb c s)"
| "kcall_run env (Listener_remove cb c) s = Some (device_listener_remove cb c s)"
| "kcall_run env (Hotplug_register d) s = device_hotplug_register d s"
| "kcall_run env (Hotplug_unregister d) s = Some (device_hotplug_unregister d s)"
| "kcall_run env Hotplug_poll_once s = map_option snd (device_hotplug_poll_once env s)"

definition kexec :: "kenv \<Rightarrow> kcall \<Rightarrow> kernel \<Rightarrow> kernel option" where
  "kexec env c s = (if kcall_allowed c s then kcall_run env c s else None)"

fun kexec_all :: "kenv \<Rightarrow> kcall list \<Rightarrow> kernel \<Rightarrow> kernel option" where
  "kexec_all env [] s = Some s"
| "kexec_all env (c # cs) s = do { s \<leftarrow> kexec env c s; kexec_all env cs s }"

text \<open>
  A program gives, for the code at an address and the device it is called for, the calls it makes
  and the result it returns. Depth 0 callbacks only return their result.
\<close>

type_synonym program = "fn \<Rightarrow> dev option \<Rightarrow> kcall list \<times> error_t"

fun nested_env :: "program \<Rightarrow> nat \<Rightarrow> kenv" where
  "nested_env prog 0 = \<lparr>
     run_start_device = (\<lambda>f d s. Some (snd (prog f (Some d)), s)),
     run_stop_device = (\<lambda>f d s. Some (snd (prog f (Some d)), s)),
     run_probe = (\<lambda>f d s. Some (snd (prog f (Some d)), s)),
     run_listener = (\<lambda>f d ev c s. Some s),
     run_module_fn = (\<lambda>f s. Some (snd (prog f None), s))\<rparr>"
| "nested_env prog (Suc n) = (let run = (\<lambda>f d s. kexec_all (nested_env prog n) (fst (prog f d)) s) in \<lparr>
     run_start_device = (\<lambda>f d s. map_option (Pair (snd (prog f (Some d)))) (run f (Some d) s)),
     run_stop_device = (\<lambda>f d s. map_option (Pair (snd (prog f (Some d)))) (run f (Some d) s)),
     run_probe = (\<lambda>f d s. map_option (Pair (snd (prog f (Some d)))) (run f (Some d) s)),
     run_listener = (\<lambda>f d ev c s. run f (Some d) s),
     run_module_fn = (\<lambda>f s. map_option (Pair (snd (prog f None))) (run f None s))\<rparr>)"

section \<open>Every call is safe\<close>

lemma device_construct_add_safe:
  assumes none: "device_internal d s = None" and run: "device_construct_add d c s = Some (e, s')"
  shows "kernel_safe s s'"
proof (cases "driver_find_compatible c s")
  case None
  with run show ?thesis by (simp add: device_construct_add_def)
next
  case (Some r)
  with run obtain e1 t where t: "device_construct d s = Some (e1, t)"
    by (auto simp: device_construct_add_def bind_Some_iff)
  note st = device_construct_safe [OF none t]
  show ?thesis
  proof (cases "e1 = ERROR_NONE")
    case False
    with run Some t st show ?thesis by (simp add: device_construct_add_def)
  next
    case True
    with t have idle: "device_internal d t = Some DeviceInternal_init"
      by (auto simp: device_construct_def split: prod.splits if_splits)
    from run Some t True obtain u e2 v where u: "device_set_driver d (Some r) t = Some u"
      and v: "device_add d u = Some (e2, v)"
      by (auto simp: device_construct_add_def bind_Some_iff)
    have "kernel_safe s v"
      using st device_set_driver_safe [OF _ u] device_add_safe [OF v] idle
      by (auto simp: DeviceInternal_init_def intro: kernel_safe_trans)
    moreover have "kernel_safe v s'"
      using run Some t True u v
      by (auto simp: device_construct_add_def bind_Some_iff dest: device_destruct_safe split: if_splits)
    ultimately show ?thesis by (rule kernel_safe_trans)
  qed
qed

context kernel_callbacks
begin

lemma device_construct_add_start_safe:
  assumes none: "device_internal d s = None" and run: "device_construct_add_start env d c s = Some (e, s')"
  shows "kernel_safe s s'"
proof -
  from run obtain e1 t where t: "device_construct_add d c s = Some (e1, t)"
    by (auto simp: device_construct_add_start_def bind_Some_iff)
  note st = device_construct_add_safe [OF none t]
  show ?thesis
  proof (cases "e1 = ERROR_NONE")
    case False
    with run t st show ?thesis by (simp add: device_construct_add_start_def)
  next
    case True
    with run t obtain e2 u where u: "device_start env d t = Some (e2, u)"
      by (auto simp: device_construct_add_start_def bind_Some_iff)
    have "kernel_safe u s'"
      using run t True u
      by (auto simp: device_construct_add_start_def bind_Some_iff split: if_splits
            dest!: device_remove_safe device_destruct_safe intro: kernel_safe_trans)
    with st device_start_safe [OF u] show ?thesis by (blast intro: kernel_safe_trans)
  qed
qed

lemma kexec_safe: "kexec env c s = Some s' \<Longrightarrow> kernel_safe s s'"
proof (cases c)
  case (Listener_add cb ctx)
  then show "kexec env c s = Some s' \<Longrightarrow> kernel_safe s s'"
    by (auto simp: kexec_def device_listener_add_def intro!: same_view_sameI)
next
  case (Listener_remove cb ctx)
  then show "kexec env c s = Some s' \<Longrightarrow> kernel_safe s s'"
    by (auto simp: kexec_def device_listener_remove_def intro!: same_view_sameI)
next
  case (Device_get d)
  then show "kexec env c s = Some s' \<Longrightarrow> kernel_safe s s'"
    using device_get_safe [of d s "fst (device_get d s)" "snd (device_get d s)"] by (auto simp: kexec_def)
next
  case (Device_set_parent d p)
  then show "kexec env c s = Some s' \<Longrightarrow> kernel_safe s s'"
    by (auto simp: kexec_def is_added_def intro!: device_set_parent_safe [of d s p] split: if_splits option.splits)
next
  case (Device_set_driver d r)
  then show "kexec env c s = Some s' \<Longrightarrow> kernel_safe s s'"
    by (auto simp: kexec_def intro!: device_set_driver_safe [where d = d and ro = r] split: if_splits option.splits)
qed (auto simp: kexec_def device_hotplug_unregister_safe split: if_splits
      dest: operation_safe(1-8) operation_safe(10-14) device_start_safe device_stop_safe
        device_construct_add_safe device_construct_add_start_safe device_hotplug_register_safe
        device_hotplug_poll_once_safe)

lemma kexec_all_safe: "kexec_all env cs s = Some s' \<Longrightarrow> kernel_safe s s'"
  by (induction cs arbitrary: s) (auto simp: bind_Some_iff dest!: kexec_safe intro: kernel_safe_trans)

end

lemma nested_env_callbacks: "kernel_callbacks (nested_env prog n)"
proof (induction n)
  case 0
  show ?case by (rule kernel_callbacks.intro) auto
next
  case (Suc n)
  note all = kernel_callbacks.kexec_all_safe [OF Suc.IH]
  show ?case by (rule kernel_callbacks.intro) (auto simp: Let_def dest: all)
qed

interpretation nested: kernel_callbacks "nested_env prog n" for prog n
  by (rule nested_env_callbacks)

section \<open>Reachable states\<close>

definition boot_kernel :: "(dev \<Rightarrow> Device) \<Rightarrow> (drv \<Rightarrow> Driver) \<Rightarrow> (modref \<Rightarrow> Module) \<Rightarrow> bool list \<Rightarrow> kernel" where
  "boot_kernel dv dr md al = \<lparr>devices = (\<lambda>d. (dv d)\<lparr>dev_internal := None\<rparr>),
     drivers = (\<lambda>r. (dr r)\<lparr>drv_internal := None\<rparr>), modules = (\<lambda>m. (md m)\<lparr>mod_internal := None\<rparr>),
     device_ledger = [], driver_ledger = [], module_ledger = [], listeners = [],
     hotplug_registered_devices = [], hotplug_timer = False, allocs = al\<rparr>"

inductive kernel_reachable :: "program \<Rightarrow> kernel \<Rightarrow> bool" for prog where
  boot: "kernel_reachable prog (boot_kernel dv dr md al)"
| call: "kernel_reachable prog s \<Longrightarrow> kexec (nested_env prog n) c s = Some s' \<Longrightarrow> kernel_reachable prog s'"

inductive_cases kernel_reachable_cases: "kernel_reachable prog s"

lemma boot_kernel_inv: "kernel_inv (boot_kernel dv dr md al)"
  by (rule kernel_invI) (auto simp: boot_kernel_def is_added_def bound_to_def)

lemma kernel_reachable_inv: "kernel_reachable prog s \<Longrightarrow> kernel_inv s"
  by (induction rule: kernel_reachable.induct) (auto simp: boot_kernel_inv dest: nested.kexec_safe kernel_safeD)

end
