(* ===== verification/Kernel_Properties.thy ===== *)
theory Kernel_Properties
  imports Kernel_Programs
begin

text \<open>
  What the object system promises: the properties of devices, drivers, modules and the hotplug
  poller, over the definitions of the component theories, with concrete instances.
\<close>

section \<open>A concrete system\<close>

definition quiet_device :: "string \<Rightarrow> dev option \<Rightarrow> Device" where
  "quiet_device n p = \<lparr>dev_address = 0, dev_name = Some n, dev_config = None, parent = p, dev_flags = 0,
     dev_internal = None\<rparr>"

definition quiet_driver :: "string \<Rightarrow> fn option \<Rightarrow> fn option \<Rightarrow> fn option \<Rightarrow> Driver" where
  "quiet_driver c sta sto pro = \<lparr>drv_name = c, compatible = Some [c], start_device = sta, stop_device = sto,
     probe = pro, api = None, device_type = Some 7, drv_internal = None\<rparr>"

definition quiet_module :: "drv list \<Rightarrow> fn option \<Rightarrow> Module" where
  "quiet_module rs sto = \<lparr>mod_name = ''m'', mod_start = None, mod_stop = sto, mod_drivers = Some rs,
     mod_symbols = Some [(''f'', 100), (''g'', 200)], mod_internal = None\<rparr>"

text \<open>Device 0 is the root and device 1 its child; driver 0 is plain, driver 1 has callbacks.\<close>

definition demo_boot :: kernel where
  "demo_boot = boot_kernel
     (\<lambda>d. if d = 0 then quiet_device ''root'' None else quiet_device ''child'' (Some 0))
     (\<lambda>r. if r = 0 then quiet_driver ''plain'' None None None
          else quiet_driver ''full'' (Some 1) (Some 2) (Some 3))
     (\<lambda>m. quiet_module [4, 5] (if m = 0 then None else Some 9)) []"

text \<open>
  The code at address 1 (a start callback) takes and drops a reference on its device, code 9 fails
  with \<open>ERROR_TIMEOUT\<close>, everything else returns success.
\<close>

definition demo_program :: program where
  "demo_program f d =
     (if f = 1 then (case d of None \<Rightarrow> [] | Some d \<Rightarrow> [Device_get d, Device_put d], ERROR_NONE)
      else if f = 9 then ([], ERROR_TIMEOUT) else ([], ERROR_NONE))"

abbreviation demo_env :: kenv where "demo_env \<equiv> nested_env demo_program 1"

definition demo_calls :: "kcall list" where
  "demo_calls = [Driver_construct 0, Driver_add 0, Driver_construct 1, Driver_add 1,
     Device_construct_add_start 0 (Some ''plain''), Device_construct_add_start 1 (Some ''full'')]"

definition demo_state :: kernel where
  "demo_state = the (kexec_all demo_env demo_calls demo_boot)"

lemma kexec_all_reachable:
  "kernel_reachable prog s \<Longrightarrow> kexec_all (nested_env prog n) cs s = Some s' \<Longrightarrow> kernel_reachable prog s'"
  by (induction cs arbitrary: s) (auto simp: bind_Some_iff intro: kernel_reachable.call)

lemma demo_state_runs: "Option.is_none (kexec_all demo_env demo_calls demo_boot) = False"
  by code_simp

lemma demo_state_reachable: "kernel_reachable demo_program demo_state"
proof -
  have "kexec_all demo_env demo_calls demo_boot = Some demo_state"
    using demo_state_runs by (auto simp: demo_state_def Option.is_none_def)
  moreover have "kernel_reachable demo_program demo_boot"
    unfolding demo_boot_def by (rule kernel_reachable.boot)
  ultimately show ?thesis by (rule kexec_all_reachable [rotated])
qed

lemma demo_state_facts:
  "device_ledger demo_state = [0, 1]"
  "map_option started (device_internal 1 demo_state) = Some True"
  "map_option driver (device_internal 1 demo_state) = Some (Some 1)"
  "map_option use_count (driver_internal 1 demo_state) = Some 1"
  by code_simp+

section \<open>Reachable kernels\<close>

text \<open>
  C2: every state that the kernel reaches by calls of its interface, with callbacks that call back
  into the kernel to any depth and allocations that fail at any time, satisfies the invariant: the
  ledger lists exactly the added devices, each once; the children lists are exactly the added
  children; a started device is added and has a constructed driver; use counts are exact.
\<close>

theorem reachable_kernel_invariant: "kernel_reachable prog s \<Longrightarrow> kernel_inv s"
  by (rule kernel_reachable_inv)

theorem reachable_kernel_invariant_witness: "kernel_inv demo_state"
  by (rule reachable_kernel_invariant [OF demo_state_reachable])

lemma bound_card:
  assumes "kernel_inv s"
  shows "{d. bound_to r s d} = set (filter (bound_to r s) (device_ledger s))"
    and "card {d. bound_to r s d} = length (filter (bound_to r s) (device_ledger s))"
proof -
  have "is_added d s" if "bound_to r s d" for d
    using that kernel_inv_children(3) [OF assms] by (auto simp: bound_to_def is_added_def state_ok_def)
  then show eq: "{d. bound_to r s d} = set (filter (bound_to r s) (device_ledger s))"
    by (auto simp: kernel_inv_ledger(1) [OF assms])
  show "card {d. bound_to r s d} = length (filter (bound_to r s) (device_ledger s))"
    unfolding eq using kernel_inv_ledger(2) [OF assms] by (intro distinct_card distinct_filter)
qed

text \<open>
  C11: in every reachable kernel the use count of a constructed driver is the number of started
  devices bound to it, so \<open>driver_destruct\<close> succeeds exactly when no started device uses the driver,
  and otherwise refuses with \<open>ERROR_INVALID_STATE\<close> and changes nothing.
\<close>

theorem driver_destruct_iff_unused:
  assumes "kernel_reachable prog s" and "driver_internal r s = Some i"
  shows "use_count i = int (card {d. bound_to r s d}) \<and>
         driver_destruct r s =
           (if \<exists>d. bound_to r s d then Some (ERROR_INVALID_STATE, s)
            else Some (ERROR_NONE, upd_driver r (\<lambda>x. x\<lparr>drv_internal := None\<rparr>) s))"
proof -
  have inv: "kernel_inv s" by (rule kernel_reachable_inv [OF assms(1)])
  have uc: "use_count i = int (card {d. bound_to r s d})"
    by (simp add: kernel_inv_use_count(2) [OF inv assms(2)] bound_card(2) [OF inv])
  have "finite {d. bound_to r s d}" unfolding bound_card(1) [OF inv] by simp
  with uc have "use_count i = 0 \<longleftrightarrow> \<not> (\<exists>d. bound_to r s d)" by auto
  with kernel_inv_use_count(1) [OF inv assms(2)] assms(2) uc show ?thesis
    by (simp add: driver_destruct_def)
qed

lemma demo_driver: "\<exists>i. driver_internal 1 demo_state = Some i \<and> use_count i = 1"
  using demo_state_facts(4) by (cases "driver_internal 1 demo_state") auto

lemma demo_bound: "bound_to 1 demo_state 1"
  using demo_state_facts(2,3) by (cases "device_internal 1 demo_state") (auto simp: bound_to_def)

theorem driver_destruct_iff_unused_witness:
  "driver_destruct 1 demo_state = Some (ERROR_INVALID_STATE, demo_state)"
proof -
  from demo_driver obtain i where i: "driver_internal 1 demo_state = Some i" by blast
  from driver_destruct_iff_unused [OF demo_state_reachable i] demo_bound show ?thesis by auto
qed

section \<open>Transitions\<close>


lemma device_start_enter_inv:
  assumes "kernel_inv s" and "device_start_enter d s = Some (Proceed, s1)"
  shows "kernel_inv s1 \<and> (\<exists>i. device_internal d s1 = Some i \<and> starting i)"
proof -
  from assms(2) obtain i where i: "device_internal d s = Some i" "added i" "driver i \<noteq> None" "\<not> started i"
    and s1: "s1 = upd_internal d (\<lambda>i. i\<lparr>starting := True\<rparr>) s"
    by (auto simp: device_start_enter_def bind_Some_iff split: if_splits)
  with kernel_inv_children(3) [OF assms(1) i(1)] show ?thesis
    using entry_step [OF assms(1) i(1), of "\<lambda>i. i\<lparr>starting := True\<rparr>"] by (auto simp: state_ok_def)
qed

text \<open>Device 1 stopped, and another task inside its start callback.\<close>

definition demo_stopped :: kernel where
  "demo_stopped = the (kexec_all demo_env (demo_calls @ [Device_stop 1]) demo_boot)"

lemma demo_stopped_runs:
  "Option.is_none (kexec_all demo_env (demo_calls @ [Device_stop 1]) demo_boot) = False"
  "map_option fst (device_start_enter 1 demo_stopped) = Some Proceed"
  "map_option (\<lambda>i. (started i, added i)) (device_internal 1 demo_stopped) = Some (False, True)"
  by code_simp+

lemma demo_stopped_reachable: "kernel_reachable demo_program demo_stopped"
proof -
  have "kexec_all demo_env (demo_calls @ [Device_stop 1]) demo_boot = Some demo_stopped"
    using demo_stopped_runs(1) by (auto simp: demo_stopped_def Option.is_none_def)
  moreover have "kernel_reachable demo_program demo_boot"
    unfolding demo_boot_def by (rule kernel_reachable.boot)
  ultimately show ?thesis by (rule kexec_all_reachable [rotated])
qed

definition demo_starting :: kernel where
  "demo_starting = snd (the (device_start_enter 1 demo_stopped))"

lemma demo_starting_enter: "device_start_enter 1 demo_stopped = Some (Proceed, demo_starting)"
  using demo_stopped_runs(2) by (cases "device_start_enter 1 demo_stopped") (auto simp: demo_starting_def)




end
