(* ===== verification/Device_Properties.thy ===== *)
theory Device_Properties
  imports Kernel_Properties
begin

text \<open>
  Functional behaviour of the device operations on the states that the kernel reaches: adding and
  removing, references, the lookups, starting and stopping with callbacks that leave the kernel
  alone, the clean-up of a failed start and the debouncing of the hotplug poller.
\<close>

section \<open>The kernel's records\<close>

lemma upd_internal_comp: "upd_internal d g (upd_internal d f s) = upd_internal d (\<lambda>i. g (f i)) s"
  by (simp add: upd_internal_def upd_device_def option.map_comp comp_def)

lemma upd_internal_id:
  assumes "device_internal d s = Some i" and "f i = i"
  shows "upd_internal d f s = s"
proof -
  have "(devices s d)\<lparr>dev_internal := map_option f (device_internal d s)\<rparr> = devices s d"
    using assms by simp
  then have "(devices s)(d := (devices s d)\<lparr>dev_internal := map_option f (device_internal d s)\<rparr>) = devices s"
    by (metis fun_upd_triv)
  then show ?thesis unfolding upd_internal_def upd_device_def by simp
qed

lemma upd_internal_cong:
  assumes "device_internal d s = Some i" and "f i = g i"
  shows "upd_internal d f s = upd_internal d g s"
  using assms by (simp add: upd_internal_def upd_device_def)

lemma upd_sel_rest [simp]:
  "allocs (upd_device d f s) = allocs s" "hotplug_timer (upd_device d f s) = hotplug_timer s"
  "kernel.more (upd_device d f s) = kernel.more s"
  "allocs (upd_internal d g s) = allocs s" "hotplug_timer (upd_internal d g s) = hotplug_timer s"
  "kernel.more (upd_internal d g s) = kernel.more s"
  "allocs (upd_driver_internal r h s) = allocs s" "hotplug_timer (upd_driver_internal r h s) = hotplug_timer s"
  "kernel.more (upd_driver_internal r h s) = kernel.more s"
  by (simp_all add: upd_internal_def upd_device_def upd_driver_internal_def upd_driver_def)

section \<open>Adding and removing\<close>

lemma upd_internal_ledger:
  "upd_internal d f (s\<lparr>device_ledger := l\<rparr>) = (upd_internal d f s)\<lparr>device_ledger := l\<rparr>"
  by (simp add: upd_internal_def upd_device_def)

lemma upd_internal_commute:
  "p \<noteq> d \<Longrightarrow> upd_internal p g (upd_internal d f s) = upd_internal d f (upd_internal p g s)"
  by (simp add: upd_internal_def upd_device_def fun_upd_twist)

lemma device_add_fresh:
  assumes inv: "kernel_inv s" and i: "device_internal d s = Some i" "\<not> started i" "\<not> added i"
  shows "\<not> starting i" "remove1 d (device_ledger s @ [d]) = device_ledger s" "d \<notin> set (device_ledger s)"
  using kernel_inv_children(3) [OF inv i(1)] i kernel_inv_ledger(1) [OF inv, of d]
  by (auto simp: state_ok_def is_added_def remove1_append)

lemma remove_added_root:
  assumes inv: "kernel_inv s" and i: "device_internal d s = Some i" "\<not> started i" "\<not> added i" "\<not> removing i"
    and par: "parent (devices s d) = None"
  shows "device_remove d (upd_internal d (\<lambda>i. i\<lparr>added := True\<rparr>) (s\<lparr>device_ledger := device_ledger s @ [d]\<rparr>)) =
           Some (ERROR_NONE, s)"
  using device_add_fresh [OF inv i(1-3)] i par
  by (simp add: device_remove_def device_remove_enter_def for_parent_def Let_def upd_internal_comp
        upd_internal_ledger upd_internal_id)

lemma remove_added_child:
  assumes inv: "kernel_inv s" and i: "device_internal d s = Some i" "\<not> started i" "\<not> added i" "\<not> removing i"
    and par: "parent (devices s d) = Some p" "device_internal p s = Some j" "p \<noteq> d"
  shows "device_remove d (upd_internal d (\<lambda>i. i\<lparr>added := True\<rparr>)
           (upd_internal p (\<lambda>i. i\<lparr>children := children i @ [d]\<rparr>) (s\<lparr>device_ledger := device_ledger s @ [d]\<rparr>))) =
           Some (ERROR_NONE, s)"
proof -
  have "d \<notin> set (children j)"
    using kernel_inv_children(1) [OF inv par(2), of d] i by (simp add: is_added_def)
  then have "j\<lparr>children := remove1 d (children j @ [d])\<rparr> = j" by (simp add: remove1_append)
  with par(3) device_add_fresh [OF inv i(1-3)] i par(1,2) show ?thesis
    by (simp add: device_remove_def device_remove_enter_def device_remove_child_def for_parent_def Let_def
          upd_internal_comp upd_internal_ledger upd_internal_id upd_internal_commute [OF par(3)])
qed

lemma device_add_remove:
  assumes "kernel_inv s" and "device_add d s = Some (ERROR_NONE, s1)"
  shows "device_remove d s1 = Some (ERROR_NONE, s)"
  using assms(2)
proof (cases rule: device_add_Some)
  case (root i)
  then show ?thesis using remove_added_root [OF assms(1)] by blast
next
  case (child i p j)
  then show ?thesis using remove_added_child [OF assms(1)] by blast
qed simp

text \<open>
  C27: removing a device that was just added gives back the state before the addition, with the
  ledger and the parent's list of children in their old order.
\<close>

theorem add_remove_roundtrip:
  assumes "kernel_reachable prog s" and "device_add d s = Some (ERROR_NONE, s1)"
  shows "device_remove d s1 = Some (ERROR_NONE, s)"
  using assms by (blast intro: device_add_remove kernel_reachable_inv)

definition demo_removed :: kernel where
  "demo_removed = the (kexec_all demo_env (demo_calls @ [Device_stop 1, Device_remove 1]) demo_boot)"

lemma demo_removed_runs:
  "Option.is_none (kexec_all demo_env (demo_calls @ [Device_stop 1, Device_remove 1]) demo_boot) = False"
  "map_option fst (device_add 1 demo_removed) = Some ERROR_NONE"
  by code_simp+

lemma kexec_all_demo:
  assumes "Option.is_none (kexec_all demo_env cs demo_boot) = False"
  shows "kernel_reachable demo_program (the (kexec_all demo_env cs demo_boot))"
proof -
  from assms obtain s where s: "kexec_all demo_env cs demo_boot = Some s" by (auto simp: Option.is_none_def)
  have "kernel_reachable demo_program demo_boot"
    unfolding demo_boot_def by (rule kernel_reachable.boot)
  from kexec_all_reachable [OF this s] s show ?thesis by simp
qed

lemma demo_removed_reachable: "kernel_reachable demo_program demo_removed"
  unfolding demo_removed_def by (rule kexec_all_demo [OF demo_removed_runs(1)])

theorem add_remove_roundtrip_witness:
  "\<exists>s1. device_add 1 demo_removed = Some (ERROR_NONE, s1) \<and> device_remove 1 s1 = Some (ERROR_NONE, demo_removed)"
proof -
  from demo_removed_runs(2) obtain s1 where "device_add 1 demo_removed = Some (ERROR_NONE, s1)" by auto
  with add_remove_roundtrip [OF demo_removed_reachable this] show ?thesis by blast
qed

section \<open>References\<close>



section \<open>Lookups\<close>

text \<open>What a lookup answers when \<open>fo\<close> is the device it looks for.\<close>

definition lookup_answer :: "dev option \<Rightarrow> kernel \<Rightarrow> error_t \<times> dev option \<times> kernel" where
  "lookup_answer fo s = (case fo of
     None \<Rightarrow> (ERROR_NOT_FOUND, None, s)
   | Some d \<Rightarrow> (ERROR_NONE, Some d, upd_internal d (\<lambda>i. i\<lparr>ref_count := ref_count i + 1\<rparr>) s))"

lemma find_device_total:
  assumes "\<And>d. d \<in> set ds \<Longrightarrow> p d s = Some (P d)"
  shows "find_device p ds s = Some (List.find P ds)"
  using assms by (induction ds) auto

lemma device_get_found_answer:
  assumes "\<And>d. fo = Some d \<Longrightarrow> device_internal d s \<noteq> None"
  shows "device_get_found fo s = lookup_answer fo s"
  using assms by (auto simp: device_get_found_def lookup_answer_def device_get_def split: option.splits)

lemma lookup_over_ledger:
  assumes "kernel_inv s" and "\<And>d i. device_internal d s = Some i \<Longrightarrow> p d s = Some (P d)"
  shows "do { fo \<leftarrow> find_device p (device_ledger s) s; Some (device_get_found fo s) } =
           Some (lookup_answer (List.find P (device_ledger s)) s)"
proof -
  have con: "\<exists>i. device_internal d s = Some i" if "d \<in> set (device_ledger s)" for d
    using that kernel_inv_ledger(1) [OF assms(1)] by (auto simp: is_added_def)
  then have "find_device p (device_ledger s) s = Some (List.find P (device_ledger s))"
    using assms(2) by (intro find_device_total) blast
  moreover have "device_internal d s \<noteq> None" if "List.find P (device_ledger s) = Some d" for d
    using con find_Some_in [OF that] by auto
  ultimately show ?thesis by (simp add: device_get_found_answer)
qed



section \<open>Starting and stopping with callbacks that leave the kernel alone\<close>

text \<open>What binding comes to when the callbacks only return a result.\<close>

definition bind_result :: "program \<Rightarrow> drv \<Rightarrow> dev \<Rightarrow> kernel \<Rightarrow> error_t" where
  "bind_result prog r d s =
     (if dev_flags (devices s d) AND DEVICE_FLAG_HOTPLUG \<noteq> 0 \<and>
         (\<exists>f. probe (drivers s r) = Some f \<and> snd (prog f (Some d)) \<noteq> ERROR_NONE) then ERROR_NOT_FOUND
      else case start_device (drivers s r) of None \<Rightarrow> ERROR_NONE | Some f \<Rightarrow> snd (prog f (Some d)))"

lemma passive_sel [simp]:
  "run_start_device (nested_env prog 0) f d s = Some (snd (prog f (Some d)), s)"
  "run_stop_device (nested_env prog 0) f d s = Some (snd (prog f (Some d)), s)"
  "run_probe (nested_env prog 0) f d s = Some (snd (prog f (Some d)), s)"
  "run_listener (nested_env prog 0) f d ev c s = Some s"
  "run_module_fn (nested_env prog 0) f s = Some (snd (prog f None), s)"
  by simp_all

declare nested_env.simps [simp del]

lemma notify_passive [simp]: "device_listener_notify (nested_env prog 0) d ev s = Some s"
proof -
  have "notify_loop (nested_env prog 0) d ev ls s = Some s" for ls
    by (induction ls) auto
  then show ?thesis by (simp add: device_listener_notify_def)
qed

lemma driver_bind_passive:
  assumes "driver_internal r s = Some j" "\<not> destroying j" "device_internal d s = Some i" "added i"
  shows "driver_bind (nested_env prog 0) r d s = Some (bind_result prog r d s,
           if bind_result prog r d s = ERROR_NONE then upd_driver_internal r (\<lambda>i. i\<lparr>use_count := use_count i + 1\<rparr>) s else s)"
  using assms
  by (auto simp: driver_bind_def device_is_added_def probe_reports_absent_def run_optional_def bind_result_def
        split: option.splits)

lemma bind_result_upd [simp]:
  "bind_result prog r d (upd_internal e f s) = bind_result prog r d s"
  by (cases "d = e") (auto simp: bind_result_def)

lemma upd_internal_driver:
  "upd_internal d f (upd_driver_internal r g s) = upd_driver_internal r g (upd_internal d f s)"
  by (simp add: upd_internal_def upd_device_def upd_driver_internal_def upd_driver_def)

lemma device_start_passive:
  assumes inv: "kernel_inv s" and i: "device_internal d s = Some i" "added i" "\<not> started i" "\<not> starting i"
    and r: "driver i = Some r" "driver_internal r s = Some j"
  shows "device_start (nested_env prog 0) d s =
           (let b = bind_result prog r d s in
            if b = ERROR_NONE
            then Some (ERROR_NONE, upd_driver_internal r (\<lambda>j. j\<lparr>use_count := use_count j + 1\<rparr>)
                   (upd_internal d (\<lambda>i. i\<lparr>started := True, start_result := ERROR_NONE\<rparr>) s))
            else Some (if b = ERROR_NOT_FOUND then ERROR_NOT_FOUND else ERROR_RESOURCE,
                   upd_internal d (\<lambda>i. i\<lparr>start_result := b\<rparr>) s))"
proof -
  let ?s1 = "upd_internal d (\<lambda>i. i\<lparr>starting := True\<rparr>) s"
  have nd: "\<not> destroying j" by (rule kernel_inv_use_count(1) [OF inv r(2)])
  have bind: "driver_bind (nested_env prog 0) r d ?s1 = Some (bind_result prog r d s,
      if bind_result prog r d s = ERROR_NONE
      then upd_driver_internal r (\<lambda>i. i\<lparr>use_count := use_count i + 1\<rparr>) ?s1 else ?s1)"
    using driver_bind_passive [where s = ?s1 and r = r and j = j and d = d and i = "i\<lparr>starting := True\<rparr>" and prog = prog] nd i r by simp
  have "upd_internal d (\<lambda>i. i\<lparr>starting := False, started := True, start_result := ERROR_NONE\<rparr>) s =
      upd_internal d (\<lambda>i. i\<lparr>started := True, start_result := ERROR_NONE\<rparr>) s"
    "upd_internal d (\<lambda>i. i\<lparr>starting := False, started := False, start_result := b\<rparr>) s =
      upd_internal d (\<lambda>i. i\<lparr>start_result := b\<rparr>) s" for b
    by (rule upd_internal_cong [OF i(1)]; simp add: i)+
  with bind i r show ?thesis
    by (simp add: device_start_def device_start_enter_def device_start_finish_def Let_def upd_internal_driver
          upd_internal_comp)
qed

lemma device_stop_passive:
  assumes inv: "kernel_inv s" and i: "device_internal d s = Some i" "started i" "\<not> stopping i"
    and r: "driver i = Some r" and ok: "\<And>f. stop_device (drivers s r) = Some f \<Longrightarrow> snd (prog f (Some d)) = ERROR_NONE"
  shows "device_stop (nested_env prog 0) d s = Some (ERROR_NONE,
           upd_driver_internal r (\<lambda>j. j\<lparr>use_count := use_count j - 1\<rparr>)
             (upd_internal d (\<lambda>i. i\<lparr>started := False, start_result := 0\<rparr>) s))"
proof -
  have "bound_to r s d" using i r by (simp add: bound_to_def)
  from kernel_inv_use_count(3) [OF inv this] obtain j where j: "driver_internal r s = Some j" by blast
  have nd: "\<not> destroying j" by (rule kernel_inv_use_count(1) [OF inv j])
  have add: "added i" using kernel_inv_children(3) [OF inv i(1)] i(2) by (simp add: state_ok_def)
  have "upd_internal d (\<lambda>i. i\<lparr>stopping := False, started := False, start_result := 0\<rparr>) s =
      upd_internal d (\<lambda>i. i\<lparr>started := False, start_result := 0\<rparr>) s"
    by (rule upd_internal_cong [OF i(1)]) (simp add: i)
  with i r j nd add ok show ?thesis
    by (auto simp: device_stop_def device_stop_enter_def device_stop_finish_def driver_unbind_def device_is_added_def
          run_optional_def upd_internal_driver upd_internal_comp split: option.splits)
qed

lemma upd_driver_internal_id:
  assumes "driver_internal r s = Some j" and "f j = j"
  shows "upd_driver_internal r f s = s"
proof -
  have "(drivers s r)\<lparr>drv_internal := map_option f (driver_internal r s)\<rparr> = drivers s r"
    using assms by simp
  then have "(drivers s)(r := (drivers s r)\<lparr>drv_internal := map_option f (driver_internal r s)\<rparr>) = drivers s"
    by (metis fun_upd_triv)
  then show ?thesis unfolding upd_driver_internal_def upd_driver_def by simp
qed

lemma start_stop_undone:
  assumes "device_internal d s = Some i" and "\<not> started i" and "driver_internal r s = Some j"
  shows "upd_driver_internal r (\<lambda>j. j\<lparr>use_count := use_count j - 1\<rparr>)
           (upd_internal d (\<lambda>i. i\<lparr>started := False, start_result := 0\<rparr>)
             (upd_driver_internal r (\<lambda>j. j\<lparr>use_count := use_count j + 1\<rparr>)
               (upd_internal d (\<lambda>i. i\<lparr>started := True, start_result := ERROR_NONE\<rparr>) s))) =
         upd_internal d (\<lambda>i. i\<lparr>start_result := 0\<rparr>) s"
proof -
  have "upd_driver_internal r g (upd_driver_internal r f t) = upd_driver_internal r (\<lambda>j. g (f j)) t" for f g t
    by (simp add: upd_driver_internal_def upd_driver_def option.map_comp comp_def)
  moreover have "upd_driver_internal r (\<lambda>j. j\<lparr>use_count := use_count j\<rparr>) t = t"
    if "driver_internal r t = Some j" for t
    by (rule upd_driver_internal_id [OF that]) simp
  moreover have "upd_internal d (\<lambda>i. i\<lparr>started := False, start_result := 0\<rparr>) s =
      upd_internal d (\<lambda>i. i\<lparr>start_result := 0\<rparr>) s"
    by (rule upd_internal_cong [OF assms(1)]) (simp add: assms)
  ultimately show ?thesis using assms(3) by (simp add: upd_internal_driver upd_internal_comp)
qed



section \<open>A start that fails\<close>

lemma added_start_result_swap:
  "(\<lambda>i::DeviceInternal. i\<lparr>start_result := b, added := c\<rparr>) = (\<lambda>i. i\<lparr>added := c, start_result := b\<rparr>)"
  by (simp add: fun_eq_iff)

lemma device_add_start_result:
  assumes "device_add d s = Some (ERROR_NONE, s1)"
  shows "device_add d (upd_internal d (\<lambda>i. i\<lparr>start_result := b\<rparr>) s) =
           Some (ERROR_NONE, upd_internal d (\<lambda>i. i\<lparr>start_result := b\<rparr>) s1)"
  using assms
proof (cases rule: device_add_Some)
  case (root i)
  then show ?thesis
    by (simp add: device_add_def for_parent_def upd_internal_comp upd_internal_ledger added_start_result_swap)
next
  case (child i p j)
  then show ?thesis
    by (simp add: device_add_def for_parent_def device_add_child_def upd_internal_comp upd_internal_ledger
          added_start_result_swap upd_internal_commute [OF \<open>p \<noteq> d\<close>])
qed simp

lemma upd_device_internal:
  "upd_device d (\<lambda>x. x\<lparr>dev_internal := io\<rparr>) (upd_internal d f s) = upd_device d (\<lambda>x. x\<lparr>dev_internal := io\<rparr>) s"
  "upd_device d (\<lambda>x. x\<lparr>dev_internal := io\<rparr>) (upd_device d (\<lambda>x. x\<lparr>dev_internal := jo\<rparr>) s) =
     upd_device d (\<lambda>x. x\<lparr>dev_internal := io\<rparr>) s"
  by (simp_all add: upd_internal_def upd_device_def)

lemma upd_device_none: "device_internal d s = None \<Longrightarrow> upd_device d (\<lambda>x. x\<lparr>dev_internal := None\<rparr>) s = s"
  by (simp add: upd_device_def) (metis (no_types, lifting) Device.surjective Device.update_convs(6) fun_upd_triv
      kernel.surjective kernel.update_convs(1))

lemma device_construct_add_Some:
  assumes none: "device_internal d s = None" and run: "device_construct_add d c s = Some (ERROR_NONE, s1)"
  obtains r t where "new_nothrow s = (True, t)" "device_internal d t = None"
    "device_add d (upd_device d (\<lambda>x. x\<lparr>dev_internal := Some (DeviceInternal_init\<lparr>driver := Some r\<rparr>)\<rparr>) t) =
       Some (ERROR_NONE, s1)"
proof -
  from run obtain r where "driver_find_compatible c s = Some r"
    by (cases "driver_find_compatible c s") (auto simp: device_construct_add_def)
  moreover obtain ok t where t: "new_nothrow s = (ok, t)" by fastforce
  ultimately have ok: "ok" and
    add: "do { (e, s) \<leftarrow> device_add d (upd_internal d (\<lambda>i. i\<lparr>driver := Some r\<rparr>)
              (upd_device d (\<lambda>x. x\<lparr>dev_internal := Some DeviceInternal_init\<rparr>) t));
            if e \<noteq> ERROR_NONE then do { (e', s) \<leftarrow> device_destruct d s; Some (e, s) }
            else Some (ERROR_NONE, s) } = Some (ERROR_NONE, s1)"
    using run by (auto simp: device_construct_add_def device_construct_def device_set_driver_def split: if_splits)
  have "upd_internal d (\<lambda>i. i\<lparr>driver := Some r\<rparr>) (upd_device d (\<lambda>x. x\<lparr>dev_internal := Some DeviceInternal_init\<rparr>) t) =
      upd_device d (\<lambda>x. x\<lparr>dev_internal := Some (DeviceInternal_init\<lparr>driver := Some r\<rparr>)\<rparr>) t"
    by (simp add: upd_internal_def upd_device_def)
  with add have "device_add d (upd_device d (\<lambda>x. x\<lparr>dev_internal := Some (DeviceInternal_init\<lparr>driver := Some r\<rparr>)\<rparr>) t) =
      Some (ERROR_NONE, s1)"
    by (auto simp: bind_Some_iff split: if_splits)
  moreover have "device_internal d t = None" using new_nothrow_devices [OF t] none by simp
  ultimately show thesis using t ok that by simp
qed

lemma construct_driver_inv:
  assumes inv: "kernel_inv s" and none: "device_internal d s = None" and t: "new_nothrow s = (True, t)"
  shows "kernel_inv (upd_device d (\<lambda>x. x\<lparr>dev_internal := Some (DeviceInternal_init\<lparr>driver := Some r\<rparr>)\<rparr>) t)"
proof -
  define u where "u = upd_device d (\<lambda>x. x\<lparr>dev_internal := Some DeviceInternal_init\<rparr>) t"
  have "device_construct d s = Some (ERROR_NONE, u)" using t by (simp add: device_construct_def u_def)
  from device_construct_safe [OF none this] inv have inv_u: "kernel_inv u" by (rule kernel_safeD)
  have d: "device_internal d u = Some DeviceInternal_init" by (simp add: u_def)
  then have set: "device_set_driver d (Some r) u = Some (upd_internal d (\<lambda>i. i\<lparr>driver := Some r\<rparr>) u)"
    by (simp add: device_set_driver_def)
  have "kernel_safe u (upd_internal d (\<lambda>i. i\<lparr>driver := Some r\<rparr>) u)"
    by (rule device_set_driver_safe [OF _ set]) (use d in \<open>auto simp: DeviceInternal_init_def\<close>)
  from kernel_safeD [OF this inv_u] have "kernel_inv (upd_internal d (\<lambda>i. i\<lparr>driver := Some r\<rparr>) u)" .
  then show ?thesis by (simp add: u_def upd_internal_def upd_device_def)
qed

lemma construct_add_failed:
  assumes inv: "kernel_inv s" and none: "device_internal d s = None"
    and run: "device_construct_add d c s = Some (e, v)" and err: "e \<noteq> ERROR_NONE"
  shows "v = s \<or> (\<exists>t ok. new_nothrow s = (ok, t) \<and> v = t)"
proof (cases "driver_find_compatible c s")
  case None
  with run show ?thesis by (simp add: device_construct_add_def)
next
  case (Some r)
  obtain ok t where t: "new_nothrow s = (ok, t)" by fastforce
  have t_none: "device_internal d t = None" using new_nothrow_devices [OF t] none by simp
  have "started i = False" "added i = False" "removing i = False"
    if "device_internal d (upd_internal d (\<lambda>i. i\<lparr>driver := Some r\<rparr>)
          (upd_device d (\<lambda>x. x\<lparr>dev_internal := Some DeviceInternal_init\<rparr>) t)) = Some i" for i
    using that by (auto simp: DeviceInternal_init_def)
  with run Some t err t_none show ?thesis
    by (auto simp: device_construct_add_def device_construct_def device_set_driver_def bind_Some_iff
          upd_device_none device_add_def split: if_splits)
qed

lemma failed_start_removed:
  assumes inv: "kernel_inv u" and idle: "device_internal d u = Some (DeviceInternal_init\<lparr>driver := Some r\<rparr>)"
    and add: "device_add d u = Some (ERROR_NONE, v)"
  shows "do { (e1, s) \<leftarrow> device_remove d (upd_internal d (\<lambda>i. i\<lparr>start_result := b\<rparr>) v);
              device_destruct d s } =
           Some (ERROR_NONE, upd_device d (\<lambda>x. x\<lparr>dev_internal := None\<rparr>) u)"
proof -
  let ?u = "upd_internal d (\<lambda>i. i\<lparr>start_result := b\<rparr>) u"
  have "kernel_safe u ?u" by (rule upd_internal_safe) (simp_all add: view_def)
  then have "kernel_inv ?u" using inv by (rule kernel_safeD)
  from device_add_remove [OF this device_add_start_result [OF add]] idle show ?thesis
    by (simp add: device_destruct_def DeviceInternal_init_def upd_device_internal)
qed

lemma device_start_added:
  assumes inv: "kernel_inv v" and i: "device_internal d v = Some i" "added i" "\<not> started i" "\<not> starting i" "driver i = Some r"
    and run: "device_start (nested_env prog 0) d v = Some (e, w)" and err: "e \<noteq> ERROR_NONE"
  obtains b where "w = upd_internal d (\<lambda>i. i\<lparr>start_result := b\<rparr>) v"
proof (cases "driver_internal r v")
  case None
  with run i show thesis by (auto simp: device_start_def device_start_enter_def driver_bind_def)
next
  case (Some j)
  from device_start_passive [OF inv i Some, of prog] run err that show thesis
    by (auto simp: Let_def split: if_splits)
qed


definition demo_drivers :: kernel where
  "demo_drivers = the (kexec_all demo_env [Driver_construct 1, Driver_add 1] demo_boot)"


section \<open>Debouncing\<close>

text \<open>One poll of a single registered device, present according to its probe or not.\<close>

lemma poll_quiet:
  assumes reg: "hotplug_registered_devices s = [d]" and i: "device_internal d s = Some i" "driver i = Some r" "0 \<le> ref_count i"
    and f: "probe (drivers s r) = Some f"
    and n: "debounce (snd (prog f (Some d)) = ERROR_NONE) (hp_present i) (hp_consecutive i) = (n, False)"
  shows "device_hotplug_poll_once (nested_env prog 0) s =
           Some (ERROR_NONE, upd_internal d (\<lambda>i. i\<lparr>hp_consecutive := n\<rparr>) s)"
proof -
  have "upd_internal d (\<lambda>i. i\<lparr>ref_count := ref_count i, hp_consecutive := n\<rparr>) s =
      upd_internal d (\<lambda>i. i\<lparr>hp_consecutive := n\<rparr>) s"
    by (rule upd_internal_cong [OF i(1)]) simp
  with assms show ?thesis
    by (simp add: device_hotplug_poll_once_def device_get_def hotplug_check_def Let_def device_put_def upd_internal_comp)
qed

lemma poll_start:
  assumes inv: "kernel_inv s" and reg: "hotplug_registered_devices s = [d]"
    and i: "device_internal d s = Some i" "added i" "\<not> started i" "\<not> starting i" "driver i = Some r"
    and j: "driver_internal r s = Some j" and b: "bind_result prog r d s = ERROR_NONE"
    and f: "probe (drivers s r) = Some f" "snd (prog f (Some d)) = ERROR_NONE"
    and n: "debounce True (hp_present i) (hp_consecutive i) = (n, True)"
  shows "\<exists>s1 k. device_hotplug_poll_once (nested_env prog 0) s = Some (ERROR_NONE, s1) \<and>
           device_internal d s1 = Some k \<and> started k \<and> hp_present k \<and> hp_consecutive k = n \<and> ref_count k = ref_count i"
proof -
  have rc: "0 \<le> ref_count i" using kernel_inv_children(3) [OF inv i(1)] by (simp add: state_ok_def)
  let ?i1 = "i\<lparr>ref_count := ref_count i + 1, hp_consecutive := n\<rparr>"
  let ?s1 = "upd_internal d (\<lambda>i. i\<lparr>ref_count := ref_count i + 1, hp_consecutive := n\<rparr>) s"
  have "kernel_safe s ?s1" by (rule upd_internal_safe) (simp_all add: view_def)
  then have inv1: "kernel_inv ?s1" using inv by (rule kernel_safeD)
  have i1: "device_internal d ?s1 = Some ?i1" using i by simp
  have start: "device_start (nested_env prog 0) d ?s1 = Some (ERROR_NONE,
      upd_driver_internal r (\<lambda>j. j\<lparr>use_count := use_count j + 1\<rparr>)
        (upd_internal d (\<lambda>i. i\<lparr>started := True, start_result := ERROR_NONE\<rparr>) ?s1))"
    using device_start_passive [OF inv1 i1, of r j prog] i j b by (simp add: Let_def)
  with assms rc show ?thesis
    by (simp add: device_hotplug_poll_once_def device_get_def hotplug_check_def hotplug_act_def Let_def device_put_def
          upd_internal_comp)
qed


definition demo_registered :: kernel where
  "demo_registered = the (kexec_all demo_env (demo_calls @ [Device_stop 1, Hotplug_register 1]) demo_boot)"


end
