(* ===== verification/Module_Properties.thy ===== *)
theory Module_Properties
  imports Device_Properties
begin

text \<open>
  What starting and stopping a module does to the drivers it brings, and how symbols are resolved
  over the started modules.
\<close>

section \<open>Starting and stopping\<close>

lemma upd_module_internal_comp:
  "upd_module_internal m g (upd_module_internal m f s) = upd_module_internal m (\<lambda>i. g (f i)) s"
  by (simp add: upd_module_internal_def upd_module_def option.map_comp comp_def)

lemma upd_module_internal_sel [simp]:
  "modules (upd_module_internal m f s) = (modules s)(m := (modules s m)\<lparr>mod_internal := map_option f (module_internal m s)\<rparr>)"
  "devices (upd_module_internal m f s) = devices s"
  "drivers (upd_module_internal m f s) = drivers s"
  "driver_ledger (upd_module_internal m f s) = driver_ledger s"
  "module_ledger (upd_module_internal m f s) = module_ledger s"
  "allocs (upd_module_internal m f s) = allocs s"
  by (simp_all add: upd_module_internal_def upd_module_def)

lemma upd_module_internal_drivers:
  "upd_module_internal m f (s\<lparr>driver_ledger := l, drivers := v\<rparr>) = (upd_module_internal m f s)\<lparr>driver_ledger := l, drivers := v\<rparr>"
  "upd_module_internal m f (s\<lparr>drivers := v\<rparr>) = (upd_module_internal m f s)\<lparr>drivers := v\<rparr>"
  by (simp_all add: upd_module_internal_def upd_module_def)

lemma upd_module_internal_id:
  assumes "module_internal m s = Some i" and "f i = i"
  shows "upd_module_internal m f s = s"
proof -
  have "(modules s m)\<lparr>mod_internal := map_option f (module_internal m s)\<rparr> = modules s m"
    using assms by simp
  then have "(modules s)(m := (modules s m)\<lparr>mod_internal := map_option f (module_internal m s)\<rparr>) = modules s"
    by (metis fun_upd_triv)
  then show ?thesis unfolding upd_module_internal_def upd_module_def by simp
qed

text \<open>The state a successful start leaves: every driver constructed, owned by the module and registered.\<close>

definition module_running :: "modref \<Rightarrow> drv list \<Rightarrow> kernel \<Rightarrow> kernel" where
  "module_running m rs s = upd_module_internal m (\<lambda>i. i\<lparr>drivers_ready := True, mod_started := True\<rparr>)
     (s\<lparr>driver_ledger := driver_ledger s @ rs, drivers := with_drivers m rs s\<rparr>)"

lemma module_start_running:
  assumes "module_internal m s = Some i" "\<not> mod_started i" "\<not> drivers_ready i"
    and "mod_drivers (modules s m) = Some rs" and "allocs s = []"
    and "\<And>f. mod_start (modules s m) = Some f \<Longrightarrow> snd (prog f None) = ERROR_NONE"
  shows "module_start (nested_env prog 0) m s = Some (ERROR_NONE, module_running m rs s)"
  using assms module_add_drivers_result [of s m rs]
  by (auto simp: module_start_def run_module_def module_running_def upd_module_internal_comp split: option.splits)

lemma module_remove_running:
  assumes "distinct rs" "set rs \<inter> set (driver_ledger s) = {}" and "\<And>r. r \<in> set rs \<Longrightarrow> driver_internal r s = None"
  shows "module_remove_drivers (rev rs) (module_running m rs s) =
           Some (upd_module_internal m (\<lambda>i. i\<lparr>drivers_ready := True, mod_started := True\<rparr>) s)"
proof -
  have un: "(\<lambda>r. if r \<in> set rs then (drivers (module_running m rs s) r)\<lparr>drv_internal := None\<rparr>
      else drivers (module_running m rs s) r) = drivers s"
    using assms(3) by (auto simp: module_running_def with_drivers_def fun_eq_iff)
  have "module_remove_drivers (rev rs) (module_running m rs s) = Some ((module_running m rs s)\<lparr>driver_ledger := driver_ledger s,
      drivers := (\<lambda>r. if r \<in> set rs then (drivers (module_running m rs s) r)\<lparr>drv_internal := None\<rparr>
                     else drivers (module_running m rs s) r)\<rparr>)"
    using assms by (intro module_remove_drivers_result)
      (auto simp: module_running_def with_drivers_def DriverInternal_init_def)
  then show ?thesis unfolding un by (simp add: module_running_def upd_module_internal_def upd_module_def)
qed


definition demo_module :: kernel where
  "demo_module = snd (module_construct 0 demo_boot)"


section \<open>Stopping while a driver is in use, and a stop that fails\<close>

text \<open>
  C39: stopping a running module while a started device is bound to one of its drivers never
  returns: the \<open>check()\<close> on \<open>driver_remove_destruct\<close> crashes the system, whatever the callbacks do.
\<close>

theorem module_stop_in_use_crashes:
  assumes "kernel_inv s" and "module_internal m s = Some i" "mod_started i" "drivers_ready i"
    and "mod_drivers (modules s m) = Some rs" "r \<in> set rs" and "bound_to r s d"
  shows "module_stop env m s = None"
proof -
  from kernel_inv_use_count(3) [OF assms(1,7)] obtain j where j: "driver_internal r s = Some j" by blast
  have "d \<in> set (filter (bound_to r s) (device_ledger s))"
    using assms(7) bound_card(1) [OF assms(1), of r] by blast
  then have "filter (bound_to r s) (device_ledger s) \<noteq> []" by (metis empty_iff empty_set)
  then have "use_count j \<noteq> 0" using kernel_inv_use_count(2) [OF assms(1) j] by simp
  with module_remove_drivers_in_use [OF _ j, of "rev rs"] assms(2-6) show ?thesis
    by (simp add: module_stop_def)
qed

text \<open>A module whose driver 1 drives a started device.\<close>

definition demo_owner :: kernel where
  "demo_owner = demo_state\<lparr>modules := (\<lambda>m. (quiet_module [0, 1] None)\<lparr>mod_internal :=
     Some \<lparr>mod_started = True, drivers_ready = True\<rparr>\<rparr>)\<rparr>"

theorem module_stop_in_use_crashes_witness: "module_stop demo_env 0 demo_owner = None"
proof -
  have "kernel_safe demo_state demo_owner"
    unfolding demo_owner_def by (rule same_view_sameI) simp_all
  then have inv: "kernel_inv demo_owner" using kernel_reachable_inv [OF demo_state_reachable] by (rule kernel_safeD)
  have m: "module_internal 0 demo_owner = Some \<lparr>mod_started = True, drivers_ready = True\<rparr>"
    "mod_drivers (modules demo_owner 0) = Some [0, 1]"
    by (simp_all add: demo_owner_def quiet_module_def)
  have b: "bound_to 1 demo_owner 1" using demo_bound by (simp add: demo_owner_def bound_to_def)
  from module_stop_in_use_crashes [OF inv m(1) _ _ m(2) _ b] show ?thesis by simp
qed

text \<open>
  C40: when the \<open>stop\<close> function of a running module fails, its drivers are gone but the module still
  counts as started: a later \<open>module_start\<close> returns success at once and brings none of them back.
\<close>

theorem failed_module_stop_loses_drivers:
  assumes "module_internal m s = Some ModuleInternal_init" and "mod_drivers (modules s m) = Some rs"
    and "distinct rs" "set rs \<inter> set (driver_ledger s) = {}" and "\<And>r. r \<in> set rs \<Longrightarrow> driver_internal r s = None"
    and "mod_stop (modules s m) = Some f" "snd (prog f None) = e" "e \<noteq> ERROR_NONE"
  shows "\<exists>s2. module_stop (nested_env prog 0) m (module_running m rs s) = Some (e, s2) \<and>
           module_is_started m s2 \<and> driver_ledger s2 = driver_ledger s \<and> drivers s2 = drivers s \<and>
           module_start env m s2 = Some (ERROR_NONE, s2)"
proof -
  have m1: "module_internal m (module_running m rs s) = Some \<lparr>mod_started = True, drivers_ready = True\<rparr>"
    "mod_drivers (modules (module_running m rs s) m) = Some rs"
    using assms(1,2) by (simp_all add: module_running_def ModuleInternal_init_def)
  with module_remove_running [OF assms(3-5), of m] assms(1,6-8) show ?thesis
    by (auto simp: module_stop_def run_module_def upd_module_internal_comp module_is_started_def module_start_def
          ModuleInternal_init_def)
qed

definition demo_module1 :: kernel where
  "demo_module1 = snd (module_construct 1 demo_boot)"

theorem failed_module_stop_loses_drivers_witness:
  "\<exists>s2. module_stop (nested_env demo_program 0) 1 (module_running 1 [4, 5] demo_module1) = Some (ERROR_TIMEOUT, s2) \<and>
     module_start demo_env 1 s2 = Some (ERROR_NONE, s2) \<and> driver_ledger s2 = []"
proof -
  have m: "module_internal 1 demo_module1 = Some ModuleInternal_init" "mod_drivers (modules demo_module1 1) = Some [4, 5]"
    "driver_ledger demo_module1 = []" "driver_internal 4 demo_module1 = None" "driver_internal 5 demo_module1 = None"
    "mod_stop (modules demo_module1 1) = Some 9"
    by (simp_all add: demo_module1_def module_construct_def new_nothrow_def demo_boot_def boot_kernel_def quiet_module_def
        upd_module_def)
  have un: "\<And>r. r \<in> set [4, 5] \<Longrightarrow> driver_internal r demo_module1 = None" using m by auto
  have "snd (demo_program 9 None) = ERROR_TIMEOUT" by (simp add: demo_program_def)
  from failed_module_stop_loses_drivers [where prog = demo_program and env = demo_env, OF m(1,2) _ _ un m(6) this] m(3) show ?thesis by auto
qed

section \<open>Reaching a state\<close>

lemma module_add_drivers_modules: "module_add_drivers m rs s = Some s' \<Longrightarrow> modules s' = modules s"
proof (induction rs arbitrary: s)
  case (Cons r rs)
  from Cons.prems obtain t u v e where "driver_construct r s = Some (e, t)" "driver_set_owner r (Some m) t = Some u"
    "driver_add r u = Some (ERROR_NONE, v)" "module_add_drivers m rs v = Some s'"
    by (auto simp: bind_Some_iff split: if_splits)
  moreover from this have "modules t = modules s" "modules u = modules t" "modules v = modules u"
    by (auto simp: driver_construct_def driver_set_owner_def driver_add_def bind_Some_iff split: prod.splits if_splits
        dest: arg_cong [of _ _ "\<lambda>x. modules (snd x)"])
  ultimately show ?case using Cons.IH by simp
qed simp

lemma module_start_started:
  assumes "module_start env m s = Some (ERROR_NONE, s')"
  shows "module_is_started m s'"
proof (cases "module_is_started m s")
  case True
  with assms show ?thesis by (auto simp: module_start_def module_is_started_def split: option.splits)
next
  case False
  with assms obtain i where "module_internal m s = Some i" "\<not> mod_started i"
    by (auto simp: module_start_def module_is_started_def split: option.splits)
  with assms obtain t j where t: "run_module env (mod_start (modules s m)) s = Some (ERROR_NONE, t)"
    and j: "module_internal m t = Some j"
    and rest: "do { s \<leftarrow> (case mod_drivers (modules t m) of None \<Rightarrow> Some t | Some rs \<Rightarrow>
               if drivers_ready j then Some t else do {
                 s \<leftarrow> module_add_drivers m rs t;
                 Some (upd_module_internal m (\<lambda>i. i\<lparr>drivers_ready := True\<rparr>) s) });
              Some (ERROR_NONE, upd_module_internal m (\<lambda>i. i\<lparr>mod_started := True\<rparr>) s) } = Some (ERROR_NONE, s')"
    by (auto simp: module_start_def bind_Some_iff [where m = "run_module _ _ _"] bind_Some_iff [where m = "module_internal _ _"]
        split: if_splits)
  from rest obtain u where u: "(case mod_drivers (modules t m) of None \<Rightarrow> Some t | Some rs \<Rightarrow>
               if drivers_ready j then Some t else do {
                 s \<leftarrow> module_add_drivers m rs t;
                 Some (upd_module_internal m (\<lambda>i. i\<lparr>drivers_ready := True\<rparr>) s) }) = Some u"
    and s': "s' = upd_module_internal m (\<lambda>i. i\<lparr>mod_started := True\<rparr>) u"
    by (auto simp: bind_Some_iff)
  from u j have "module_internal m u \<noteq> None"
    by (auto simp: bind_Some_iff dest: module_add_drivers_modules split: option.splits if_splits)
  then show ?thesis unfolding s' by (auto simp: module_is_started_def)
qed

lemma module_ensure_destructed_cases:
  assumes "module_ensure_destructed env m s = Some (ERROR_NONE, s')" and "module_internal m s \<noteq> None"
  obtains t where "module_destruct m (t\<lparr>module_ledger := removeAll m (module_ledger t)\<rparr>) = (ERROR_NONE, s')"
proof -
  from assms obtain t where t: "(case module_remove m t of (e, s) \<Rightarrow>
      if e \<noteq> ERROR_NONE then Some (e, s)
      else case module_destruct m s of (e, s) \<Rightarrow>
        if e \<noteq> ERROR_NONE then Some (e, s) else Some (ERROR_NONE, s)) = Some (ERROR_NONE, s')"
    by (auto simp: module_ensure_destructed_def bind_Some_iff split: option.splits if_splits)
  obtain e u where u: "module_destruct m (t\<lparr>module_ledger := removeAll m (module_ledger t)\<rparr>) = (e, u)" by fastforce
  with t have "e = ERROR_NONE \<and> u = s'" by (simp add: module_remove_def split: if_splits)
  with u that show thesis by blast
qed

text \<open>
  \<open>module_ensure_started\<close> that returns success leaves the module started, and
  \<open>module_ensure_destructed\<close> that returns success leaves it destructed and, if it was constructed,
  off the ledger, for all callbacks.
\<close>

theorem module_ensure_reaches:
  "(module_ensure_started env m s = Some (ERROR_NONE, s') \<longrightarrow> module_is_started m s') \<and>
   (module_ensure_destructed env m s = Some (ERROR_NONE, s') \<longrightarrow>
      module_internal m s' = None \<and> (module_internal m s \<noteq> None \<longrightarrow> m \<notin> set (module_ledger s')))"
proof (intro conjI impI)
  assume run: "module_ensure_started env m s = Some (ERROR_NONE, s')"
  obtain e t where t: "(if module_internal m s = None then module_construct m s else (ERROR_NONE, s)) = (e, t)"
    by fastforce
  obtain e1 u where u: "module_add m t = (e1, u)" by fastforce
  from run t u have "module_is_started m u \<and> u = s' \<or> module_start env m u = Some (ERROR_NONE, s')"
    by (auto simp: module_ensure_started_def module_is_started_def bind_Some_iff module_add_def
        split: if_splits option.splits)
  then show "module_is_started m s'" using module_start_started by blast
next
  assume run: "module_ensure_destructed env m s = Some (ERROR_NONE, s')"
  show "module_internal m s' = None"
  proof (cases "module_internal m s = None")
    case True
    with run show ?thesis by (simp add: module_ensure_destructed_def)
  next
    case False
    from run False obtain t where "module_destruct m (t\<lparr>module_ledger := removeAll m (module_ledger t)\<rparr>) = (ERROR_NONE, s')"
      by (rule module_ensure_destructed_cases)
    then show ?thesis by (auto simp: module_destruct_def split: if_splits)
  qed
next
  assume "module_ensure_destructed env m s = Some (ERROR_NONE, s')" "module_internal m s \<noteq> None"
  then obtain t where "module_destruct m (t\<lparr>module_ledger := removeAll m (module_ledger t)\<rparr>) = (ERROR_NONE, s')"
    by (rule module_ensure_destructed_cases)
  then show "m \<notin> set (module_ledger s')" by (auto simp: module_destruct_def split: if_splits)
qed

theorem module_ensure_reaches_witness:
  "\<exists>s'. module_ensure_started demo_env 0 demo_boot = Some (ERROR_NONE, s') \<and> module_is_started 0 s'"
proof -
  have "map_option fst (module_ensure_started demo_env 0 demo_boot) = Some ERROR_NONE" by code_simp
  then obtain s' where "module_ensure_started demo_env 0 demo_boot = Some (ERROR_NONE, s')" by auto
  with module_ensure_reaches [of demo_env 0 demo_boot s'] show ?thesis by blast
qed

section \<open>Symbols\<close>

text \<open>
  a global symbol lookup answers from the first module of the ledger that is started and
  exports the symbol, with the first entry of that name in its table, and fails when there is none.
\<close>

theorem symbol_from_first_started_module:
  "module_resolve_symbol_global n s =
     (case List.find (\<lambda>m. module_is_started m s \<and>
             (\<exists>ss. mod_symbols (modules s m) = Some ss \<and> n \<in> fst ` set ss)) (module_ledger s) of
        None \<Rightarrow> None | Some m \<Rightarrow> Option.bind (mod_symbols (modules s m)) (\<lambda>ss. map_of ss n))"
proof -
  have "(module_resolve_symbol m n s \<noteq> None) =
      (module_is_started m s \<and> (\<exists>ss. mod_symbols (modules s m) = Some ss \<and> n \<in> fst ` set ss))" for m
    by (cases "mod_symbols (modules s m)")
       (simp_all add: module_resolve_symbol_def symbol_loop_map_of map_of_eq_None_iff del: not_None_eq)
  moreover have "module_resolve_symbol m n s = Option.bind (mod_symbols (modules s m)) (\<lambda>ss. map_of ss n)"
    if "module_is_started m s" for m
    using that by (simp add: module_resolve_symbol_def symbol_loop_map_of split: option.splits)
  ultimately show ?thesis
    unfolding module_resolve_symbol_global_def resolve_loop_find
    by (auto dest: find_Some_in split: option.splits)
qed

end
