(* ===== verification/Bundle.thy ===== *)
theory Bundle
  imports Kernel_Error
begin

text \<open>
  \<open>TactilityKernel/source/bundle.cpp\<close>: a typed key/value store. An entry is a type tag, a union of
  the scalar types and a string. Reading a union member that is not the active one, or the entry of
  a key that is absent, is undefined: \<open>None\<close>. The refinement shows that the operations implement a
  map from keys to typed values.
\<close>

section \<open>Data\<close>

datatype BType = TBool | TInt32 | TInt64 | TString

datatype BUnion = value_bool bool | value_int32 "32 word" | value_int64 "64 word"

record BValue =
  btype :: BType
  bunion :: BUnion
  value_string :: string

record Bundle =
  bentries :: "string \<rightharpoonup> BValue"

section \<open>Operations\<close>

text \<open>The allocations may fail, which is their flag argument.\<close>

definition bundle_alloc :: "bool \<Rightarrow> Bundle option" where
  "bundle_alloc ok = (if ok then Some \<lparr>bentries = Map.empty\<rparr> else None)"

definition bundle_clone :: "bool \<Rightarrow> Bundle \<Rightarrow> Bundle option" where
  "bundle_clone ok b = (case bundle_alloc ok of None \<Rightarrow> None | Some c \<Rightarrow> Some (c\<lparr>bentries := bentries b\<rparr>))"

definition bundle_get_bool :: "Bundle \<Rightarrow> string \<Rightarrow> bool option" where
  "bundle_get_bool b k = (case bentries b k of None \<Rightarrow> None | Some v \<Rightarrow>
     (case bunion v of value_bool x \<Rightarrow> Some x | _ \<Rightarrow> None))"

definition bundle_get_int32 :: "Bundle \<Rightarrow> string \<Rightarrow> 32 word option" where
  "bundle_get_int32 b k = (case bentries b k of None \<Rightarrow> None | Some v \<Rightarrow>
     (case bunion v of value_int32 x \<Rightarrow> Some x | _ \<Rightarrow> None))"

definition bundle_get_int64 :: "Bundle \<Rightarrow> string \<Rightarrow> 64 word option" where
  "bundle_get_int64 b k = (case bentries b k of None \<Rightarrow> None | Some v \<Rightarrow>
     (case bunion v of value_int64 x \<Rightarrow> Some x | _ \<Rightarrow> None))"

definition bundle_get_string :: "Bundle \<Rightarrow> string \<Rightarrow> nat \<Rightarrow> (error_t \<times> string option) option" where
  "bundle_get_string b k n = (case bentries b k of None \<Rightarrow> None | Some v \<Rightarrow> Some (copy_out (value_string v) n))"

definition has_btype :: "BType \<Rightarrow> Bundle \<Rightarrow> string \<Rightarrow> bool" where
  "has_btype t b k = (case bentries b k of None \<Rightarrow> False | Some v \<Rightarrow> btype v = t)"

definition bundle_has_bool :: "Bundle \<Rightarrow> string \<Rightarrow> bool" where
  "bundle_has_bool = has_btype TBool"

definition bundle_has_int32 :: "Bundle \<Rightarrow> string \<Rightarrow> bool" where
  "bundle_has_int32 = has_btype TInt32"

definition bundle_has_int64 :: "Bundle \<Rightarrow> string \<Rightarrow> bool" where
  "bundle_has_int64 = has_btype TInt64"

definition bundle_has_string :: "Bundle \<Rightarrow> string \<Rightarrow> bool" where
  "bundle_has_string = has_btype TString"

text \<open>The outer \<open>None\<close> is undefined behaviour, the inner one the return value false.\<close>

definition bundle_opt_bool :: "Bundle \<Rightarrow> string \<Rightarrow> bool option option" where
  "bundle_opt_bool b k = (if has_btype TBool b k then map_option Some (bundle_get_bool b k) else Some None)"

definition bundle_opt_int32 :: "Bundle \<Rightarrow> string \<Rightarrow> 32 word option option" where
  "bundle_opt_int32 b k = (if has_btype TInt32 b k then map_option Some (bundle_get_int32 b k) else Some None)"

definition bundle_opt_int64 :: "Bundle \<Rightarrow> string \<Rightarrow> 64 word option option" where
  "bundle_opt_int64 b k = (if has_btype TInt64 b k then map_option Some (bundle_get_int64 b k) else Some None)"

definition bundle_opt_string :: "Bundle \<Rightarrow> string \<Rightarrow> nat \<Rightarrow> error_t \<times> string option" where
  "bundle_opt_string b k n = (case bentries b k of
     None \<Rightarrow> (ERROR_NOT_FOUND, None)
   | Some v \<Rightarrow> if btype v \<noteq> TString then (ERROR_NOT_FOUND, None) else copy_out (value_string v) n)"

definition bundle_put :: "string \<Rightarrow> BValue \<Rightarrow> Bundle \<Rightarrow> Bundle" where
  "bundle_put k v b = b\<lparr>bentries := (bentries b)(k \<mapsto> v)\<rparr>"

definition bundle_put_bool :: "Bundle \<Rightarrow> string \<Rightarrow> bool \<Rightarrow> Bundle" where
  "bundle_put_bool b k x = bundle_put k \<lparr>btype = TBool, bunion = value_bool x, value_string = ''''\<rparr> b"

definition bundle_put_int32 :: "Bundle \<Rightarrow> string \<Rightarrow> 32 word \<Rightarrow> Bundle" where
  "bundle_put_int32 b k x = bundle_put k \<lparr>btype = TInt32, bunion = value_int32 x, value_string = ''''\<rparr> b"

definition bundle_put_int64 :: "Bundle \<Rightarrow> string \<Rightarrow> 64 word \<Rightarrow> Bundle" where
  "bundle_put_int64 b k x = bundle_put k \<lparr>btype = TInt64, bunion = value_int64 x, value_string = ''''\<rparr> b"

definition bundle_put_string :: "Bundle \<Rightarrow> string \<Rightarrow> string \<Rightarrow> Bundle" where
  "bundle_put_string b k x = bundle_put k \<lparr>btype = TString, bunion = value_bool False, value_string = x\<rparr> b"

interpretation bundle_kv: kv_store bentries bundle_put
  by unfold_locales (simp add: bundle_put_def)

section \<open>The abstract store\<close>

datatype typed = Bool bool | Int32 "32 word" | Int64 "64 word" | Str string

fun type_of :: "typed \<Rightarrow> BType" where
  "type_of (Bool _) = TBool" | "type_of (Int32 _) = TInt32" | "type_of (Int64 _) = TInt64" | "type_of (Str _) = TString"

text \<open>The entry that stands for a typed value: the tag names the active member of the union.\<close>

fun represent :: "typed \<Rightarrow> BValue" where
  "represent (Bool x) = \<lparr>btype = TBool, bunion = value_bool x, value_string = ''''\<rparr>"
| "represent (Int32 x) = \<lparr>btype = TInt32, bunion = value_int32 x, value_string = ''''\<rparr>"
| "represent (Int64 x) = \<lparr>btype = TInt64, bunion = value_int64 x, value_string = ''''\<rparr>"
| "represent (Str x) = \<lparr>btype = TString, bunion = value_bool False, value_string = x\<rparr>"

definition bundle_rel :: "(string \<rightharpoonup> typed) \<Rightarrow> Bundle \<Rightarrow> bool" where
  "bundle_rel m b \<longleftrightarrow> (\<forall>k. bentries b k = map_option represent (m k))"

lemma bundle_rel_lookup: "bundle_rel m b \<Longrightarrow> bentries b k = map_option represent (m k)"
  by (simp add: bundle_rel_def)

lemma bundle_rel_put: "bundle_rel m b \<Longrightarrow> bundle_rel (m(k \<mapsto> v)) (bundle_put k (represent v) b)"
  unfolding bundle_rel_def by (intro allI bundle_kv.represented_put) simp

text \<open>
  the bundle implements a map from keys to typed values. Whatever state it represents, each put
  represents the updated map; each \<open>has\<close> and \<open>opt\<close> function answers from the map, never reading an
  inactive union member; and a string is returned with its terminator exactly when it fits the
  buffer. A clone represents the same map.
\<close>

theorem bundle_refines_typed_map:
  assumes "bundle_rel m b"
  shows "bundle_rel (m(k \<mapsto> Bool x)) (bundle_put_bool b k x) \<and> bundle_rel (m(k \<mapsto> Int32 i)) (bundle_put_int32 b k i) \<and>
         bundle_rel (m(k \<mapsto> Int64 l)) (bundle_put_int64 b k l) \<and> bundle_rel (m(k \<mapsto> Str t)) (bundle_put_string b k t) \<and>
         bundle_opt_bool b q = Some (case m q of Some (Bool y) \<Rightarrow> Some y | _ \<Rightarrow> None) \<and>
         bundle_opt_int32 b q = Some (case m q of Some (Int32 y) \<Rightarrow> Some y | _ \<Rightarrow> None) \<and>
         bundle_opt_int64 b q = Some (case m q of Some (Int64 y) \<Rightarrow> Some y | _ \<Rightarrow> None) \<and>
         bundle_opt_string b q n = (case m q of Some (Str y) \<Rightarrow> copy_out y n | _ \<Rightarrow> (ERROR_NOT_FOUND, None)) \<and>
         has_btype ty b q = (\<exists>v. m q = Some v \<and> type_of v = ty) \<and>
         bundle_clone ok b = (if ok then Some b else None)"
proof -
  have put: "bundle_rel (m(k \<mapsto> v)) (bundle_put k (represent v) b)" for v by (rule bundle_rel_put [OF assms])
  note q = bundle_rel_lookup [OF assms, of q]
  show ?thesis
    using put [of "Bool x"] put [of "Int32 i"] put [of "Int64 l"] put [of "Str t"] q
    by (auto simp: bundle_put_bool_def bundle_put_int32_def bundle_put_int64_def bundle_put_string_def
          bundle_opt_bool_def bundle_opt_int32_def bundle_opt_int64_def bundle_opt_string_def bundle_get_bool_def
          bundle_get_int32_def bundle_get_int64_def has_btype_def bundle_clone_def bundle_alloc_def
          split: option.splits typed.splits)
qed

theorem bundle_refines_typed_map_witness:
  "bundle_opt_int32 (bundle_put_int32 \<lparr>bentries = Map.empty\<rparr> ''a'' 7) ''a'' = Some (Some 7)"
proof -
  have "bundle_rel Map.empty \<lparr>bentries = Map.empty\<rparr>" by (simp add: bundle_rel_def)
  then have "bundle_rel (Map.empty(''a'' \<mapsto> Int32 7)) (bundle_put_int32 \<lparr>bentries = Map.empty\<rparr> ''a'' 7)"
    using bundle_refines_typed_map by blast
  then show ?thesis
    using bundle_refines_typed_map [of "Map.empty(''a'' \<mapsto> Int32 7)" _ "''a''"] by simp
qed

end
