(* ===== verification/Properties_File.thy ===== *)
theory Properties_File
  imports Kernel_Error
begin

text \<open>
  \<open>TactilityKernel/source/properties_file.cpp\<close>: a persistent key/value store in a text file of
  \<open>key=value\<close> lines. The file system is a map from paths to contents, and \<open>io_faults\<close> says which of
  the calls of the C library fail. \<open>std::unordered_map\<close> iterates in an order of its own: the
  iteration is the argument \<open>order\<close> of what depends on it.
\<close>

section \<open>Data\<close>

record PropertiesFile =
  pf_path :: string
  pf_entries :: "string \<rightharpoonup> string"

type_synonym file_map = "string \<rightharpoonup> string"   \<comment> \<open>path to content\<close>

record io_faults =
  open_read_fails :: bool               \<comment> \<open>\<open>fopen(path, "r")\<close> fails with an error other than \<open>ENOENT\<close>\<close>
  read_fails_after :: "nat option"      \<comment> \<open>a read error after so many characters\<close>
  open_write_fails :: bool
  write_fails_after :: "nat option"     \<comment> \<open>writing, flushing or closing fails with so much on disk\<close>
  remove_fails :: bool
  rename_fails :: bool

definition no_faults :: io_faults where
  "no_faults = \<lparr>open_read_fails = False, read_fails_after = None, open_write_fails = False,
     write_fails_after = None, remove_fails = False, rename_fails = False\<rparr>"

section \<open>Parsing\<close>

definition trim :: "string \<Rightarrow> string \<Rightarrow> string" where
  "trim value chars =
     (case find_first_not_of value chars of
        None \<Rightarrow> ''''
      | Some start \<Rightarrow>
          (case find_last_not_of value chars of
             None \<Rightarrow> ''''
           | Some fin \<Rightarrow> substr value start (fin - start + 1)))"

definition split_key_value :: "string \<Rightarrow> (string \<times> string) option" where
  "split_key_value line =
     (case find_char line (CHR ''='') of
        None \<Rightarrow> None
      | Some index \<Rightarrow> Some (substr line 0 index, drop (index + 1) line))"

definition WS_LINE :: string where "WS_LINE = [CHR '' '', CHR 0x09, CHR 0x0D, CHR 0x0A]"
definition WS_FIELD :: string where "WS_FIELD = [CHR '' '', CHR 0x09]"

text \<open>The parser's state: the section prefix, the line read so far and the entries.\<close>

record loader =
  key_prefix :: string
  raw_line :: string
  ld_entries :: "string \<rightharpoonup> string"

definition flush_line :: "loader \<Rightarrow> loader" where
  "flush_line l = (let trimmed_line = trim (raw_line l) WS_LINE; l = l\<lparr>raw_line := ''''\<rparr> in
     if trimmed_line = '''' \<or> hd trimmed_line = CHR ''#'' then l
     else if hd trimmed_line = CHR ''['' then l\<lparr>key_prefix := trimmed_line\<rparr>
     else case split_key_value trimmed_line of
            None \<Rightarrow> l
          | Some (key, value) \<Rightarrow>
              l\<lparr>ld_entries := (ld_entries l)(key_prefix l @ trim key WS_FIELD \<mapsto> trim value WS_FIELD)\<rparr>)"

fun read_chars :: "string \<Rightarrow> loader \<Rightarrow> loader" where
  "read_chars [] l = l"
| "read_chars (c # cs) l =
     (if c = CHR 0x0A then read_chars cs (flush_line l) else read_chars cs (l\<lparr>raw_line := raw_line l @ [c]\<rparr>))"

definition load_from_file :: "io_faults \<Rightarrow> file_map \<Rightarrow> PropertiesFile \<Rightarrow> bool \<times> PropertiesFile" where
  "load_from_file io fs file =
     (if open_read_fails io then (False, file) else
      case fs (pf_path file) of
        None \<Rightarrow> (True, file)
      | Some content \<Rightarrow>
          (let cs = (case read_fails_after io of None \<Rightarrow> content | Some n \<Rightarrow> take n content);
               l = flush_line (read_chars cs \<lparr>key_prefix = '''', raw_line = '''', ld_entries = pf_entries file\<rparr>)
           in (read_fails_after io = None, file\<lparr>pf_entries := ld_entries l\<rparr>)))"

section \<open>Saving\<close>

definition print_entry :: "string \<times> string \<Rightarrow> string" where
  "print_entry e = c_str (fst e) @ ''='' @ c_str (snd e) @ [CHR 0x0A]"

definition fs_remove :: "bool \<Rightarrow> string \<Rightarrow> file_map \<Rightarrow> file_map" where
  "fs_remove fails p fs = (if fails then fs else fs(p := None))"

definition fs_rename :: "bool \<Rightarrow> string \<Rightarrow> string \<Rightarrow> file_map \<Rightarrow> bool \<times> file_map" where
  "fs_rename fails p q fs = (if fails then (False, fs) else
     case fs p of None \<Rightarrow> (False, fs) | Some c \<Rightarrow> (True, fs(p := None, q \<mapsto> c)))"

definition save_to_file :: "io_faults \<Rightarrow> (string \<times> string) list \<Rightarrow> PropertiesFile \<Rightarrow> file_map \<Rightarrow> bool \<times> file_map" where
  "save_to_file io order file fs =
     (let temp_path = pf_path file @ ''.tmp'' in
      if open_write_fails io then (False, fs) else
      let content = concat (map print_entry order) in
      case write_fails_after io of
        Some n \<Rightarrow> (False, fs_remove (remove_fails io) temp_path (fs(temp_path \<mapsto> take n content)))
      | None \<Rightarrow>
          (let fs = fs(temp_path \<mapsto> content); fs = fs_remove (remove_fails io) (pf_path file) fs in
           case fs_rename (rename_fails io) temp_path (pf_path file) fs of
             (True, fs) \<Rightarrow> (True, fs)
           | (False, fs) \<Rightarrow> (False, fs_remove (remove_fails io) temp_path fs)))"

section \<open>The interface\<close>

definition properties_file_open :: "bool \<Rightarrow> io_faults \<Rightarrow> file_map \<Rightarrow> string \<Rightarrow> PropertiesFile option" where
  "properties_file_open alloc_ok io fs path =
     (if \<not> alloc_ok then None else
      case load_from_file io fs \<lparr>pf_path = path, pf_entries = Map.empty\<rparr> of
        (ok, file) \<Rightarrow> if ok then Some file else None)"

definition properties_file_close :: "io_faults \<Rightarrow> (string \<times> string) list \<Rightarrow> PropertiesFile \<Rightarrow> file_map \<Rightarrow> error_t \<times> file_map" where
  "properties_file_close io order file fs =
     (case save_to_file io order file fs of (saved, fs) \<Rightarrow> (if saved then ERROR_NONE else ERROR_RESOURCE, fs))"

definition properties_file_has :: "PropertiesFile \<Rightarrow> string \<Rightarrow> bool" where
  "properties_file_has file key = (pf_entries file key \<noteq> None)"

definition properties_file_get :: "PropertiesFile \<Rightarrow> string \<Rightarrow> nat \<Rightarrow> error_t \<times> string option" where
  "properties_file_get file key n =
     (case pf_entries file key of None \<Rightarrow> (ERROR_NOT_FOUND, None) | Some v \<Rightarrow> copy_out v n)"

definition properties_file_set :: "string \<Rightarrow> string \<Rightarrow> PropertiesFile \<Rightarrow> PropertiesFile" where
  "properties_file_set key value file = file\<lparr>pf_entries := (pf_entries file)(key \<mapsto> value)\<rparr>"

definition properties_file_for_each :: "(string \<times> string) list \<Rightarrow> (string \<Rightarrow> string \<Rightarrow> 'c \<Rightarrow> 'c) \<Rightarrow> 'c \<Rightarrow> 'c" where
  "properties_file_for_each order visitor ctx = fold (\<lambda>(k, v). visitor (c_str k) (c_str v)) order ctx"

interpretation properties: kv_store pf_entries properties_file_set
  by unfold_locales (simp add: properties_file_set_def)

text \<open>An enumeration of the entries, each once: what iterating an \<open>unordered_map\<close> gives.\<close>

definition enumerates :: "(string \<times> string) list \<Rightarrow> PropertiesFile \<Rightarrow> bool" where
  "enumerates order file \<longleftrightarrow> distinct (map fst order) \<and> map_of order = pf_entries file"

section \<open>Trimming\<close>

lemma drop_takeWhile: "drop (length (takeWhile P xs)) xs = dropWhile P xs"
  by (induction xs) auto

lemma takeWhile_all_length: "length (takeWhile P xs) = length xs \<longleftrightarrow> (\<forall>x\<in>set xs. P x)"
  by (induction xs) auto

lemma takeWhile_rev_dropWhile:
  "\<not> (\<forall>x\<in>set xs. P x) \<Longrightarrow> takeWhile P (rev xs) = takeWhile P (rev (dropWhile P xs))"
proof (induction xs)
  case (Cons x xs)
  then show ?case
  proof (cases "P x")
    case True
    with Cons.prems have "\<exists>y\<in>set (rev xs). \<not> P y" by auto
    then have "takeWhile P (rev xs @ [x]) = takeWhile P (rev xs)" by (metis takeWhile_append1)
    with Cons True show ?thesis by auto
  qed simp
qed simp

lemma trim_dropWhile:
  "trim v cs = rev (dropWhile (\<lambda>c. c \<in> set cs) (rev (dropWhile (\<lambda>c. c \<in> set cs) v)))"
proof (cases "\<forall>c\<in>set v. c \<in> set cs")
  case True
  then have dw: "dropWhile (\<lambda>c. c \<in> set cs) v = []" by simp
  have "trim v cs = []" using True by (simp add: trim_def find_first_not_of_def takeWhile_all_length)
  then show ?thesis unfolding dw by simp
next
  case False
  define P where "P = (\<lambda>c. c \<in> set cs)"
  define w where "w = dropWhile P v"
  let ?n = "length (takeWhile P v)" and ?m = "length (takeWhile P (rev w))"
  have nv: "?n \<noteq> length v" "length (takeWhile P (rev v)) = ?m"
    using False takeWhile_rev_dropWhile [of v P] takeWhile_all_length [of P v] by (simp_all add: P_def w_def)
  have "length (takeWhile P (rev v)) \<noteq> length v"
    using False takeWhile_all_length [of P "rev v"] by (simp add: P_def)
  have lw: "length v = ?n + length w" unfolding w_def by (metis length_append takeWhile_dropWhile_id)
  have "?m \<le> length w" using length_takeWhile_le [of P "rev w"] by simp
  moreover have "?m \<noteq> length w"
    using nv(1) lw takeWhile_all_length [of P "rev w"] hd_dropWhile [of P v] by (metis hd_in_set length_rev set_rev w_def
        add.right_neutral list.size(3))
  ultimately have m: "length v - 1 - ?m - ?n + 1 = length w - ?m" using lw by linarith
  have "trim v cs = take (length w - ?m) w"
    using nv m \<open>length (takeWhile P (rev v)) \<noteq> length v\<close>
    by (simp add: trim_def find_first_not_of_def find_last_not_of_def substr_def P_def [symmetric] drop_takeWhile
        w_def [symmetric] del: One_nat_def)
  also have "\<dots> = rev (drop ?m (rev w))" by (simp add: rev_drop)
  also have "\<dots> = rev (dropWhile P (rev w))" by (simp add: drop_takeWhile)
  finally show ?thesis by (simp add: P_def w_def)
qed

lemma trim_id:
  assumes "v = [] \<or> hd v \<notin> set cs \<and> last v \<notin> set cs"
  shows "trim v cs = v"
proof (cases v)
  case Nil
  then show ?thesis by (simp add: trim_dropWhile)
next
  case (Cons c w)
  with assms have h: "hd v \<notin> set cs" "last v \<notin> set cs" by auto
  obtain d u where r: "rev v = d # u" using Cons by (cases "rev v") auto
  then have "d = last v" by (metis hd_rev list.sel(1))
  with h have "d \<notin> set cs" by blast
  then have "dropWhile (\<lambda>c. c \<in> set cs) (rev v) = rev v" unfolding r by simp
  moreover have "dropWhile (\<lambda>c. c \<in> set cs) v = v" using h Cons by simp
  ultimately show ?thesis unfolding trim_dropWhile by simp
qed

section \<open>Reading back what was printed\<close>

text \<open>
  The entries that a line of the file can carry, up to the blanks at the end of the value, which
  are lost; and the entries that it carries as they are.
\<close>

definition line_entry :: "string \<times> string \<Rightarrow> bool" where
  "line_entry e = (case e of (k, v) \<Rightarrow>
     NUL \<notin> set k \<and> NUL \<notin> set v \<and> CHR 0x0A \<notin> set k \<and> CHR 0x0A \<notin> set v \<and> CHR ''='' \<notin> set k \<and>
     (k = [] \<or> hd k \<notin> set WS_LINE \<and> last k \<notin> set WS_FIELD \<and> hd k \<noteq> CHR ''#'' \<and> hd k \<noteq> CHR ''['') \<and>
     (v = [] \<or> hd v \<notin> set WS_FIELD))"

definition rtrim :: "string \<Rightarrow> string" where
  "rtrim v = rev (dropWhile (\<lambda>c. c \<in> set WS_LINE) (rev v))"

definition clean_entry :: "string \<times> string \<Rightarrow> bool" where
  "clean_entry e \<longleftrightarrow> line_entry e \<and> rtrim (snd e) = snd e"

lemma rtrim_id: "v = [] \<or> last v \<notin> set WS_LINE \<Longrightarrow> rtrim v = v"
  by (cases v rule: rev_cases) (auto simp: rtrim_def)

lemma rtrim_last: "rtrim v = [] \<or> last (rtrim v) \<notin> set WS_LINE"
  using hd_dropWhile [of "\<lambda>c. c \<in> set WS_LINE" "rev v"] by (auto simp: rtrim_def last_rev)

lemma rtrim_prefix: "\<exists>w. v = rtrim v @ w"
proof -
  have "rev v = takeWhile (\<lambda>c. c \<in> set WS_LINE) (rev v) @ dropWhile (\<lambda>c. c \<in> set WS_LINE) (rev v)" by simp
  then have "rev (rev v) = rtrim v @ rev (takeWhile (\<lambda>c. c \<in> set WS_LINE) (rev v))"
    unfolding rtrim_def rev_append [symmetric] by (rule arg_cong)
  then show ?thesis by auto
qed

lemma rtrim_hd: "rtrim v = [] \<or> hd (rtrim v) = hd v"
  using rtrim_prefix [of v] by (metis hd_append2)

lemma rtrim_trim: "v = [] \<or> hd v \<notin> set WS_LINE \<Longrightarrow> trim v WS_LINE = rtrim v"
  by (cases v) (auto simp: trim_dropWhile rtrim_def)

lemma rtrim_append:
  assumes "c \<notin> set WS_LINE"
  shows "rtrim (k @ c # v) = k @ c # rtrim v"
  using assms by (simp add: rtrim_def dropWhile_append)

lemma read_chars_line:
  assumes "CHR 0x0A \<notin> set line"
  shows "read_chars (line @ CHR 0x0A # rest) l = read_chars rest (flush_line (l\<lparr>raw_line := raw_line l @ line\<rparr>))"
  using assms by (induction line arbitrary: l) auto

lemma split_key_value_print: "CHR ''='' \<notin> set k \<Longrightarrow> split_key_value (k @ CHR ''='' # v) = Some (k, v)"
  by (simp add: split_key_value_def find_char_split substr_def)

lemma ws_field_line: "c \<notin> set WS_LINE \<Longrightarrow> c \<notin> set WS_FIELD"
  by (auto simp: WS_LINE_def WS_FIELD_def)

lemma flush_entry:
  assumes "line_entry (k, v)" and "raw_line l = k @ CHR ''='' # v"
  shows "flush_line l = l\<lparr>raw_line := [], ld_entries := (ld_entries l)(key_prefix l @ k \<mapsto> rtrim v)\<rparr>"
proof -
  have eq: "CHR ''='' \<notin> set WS_LINE" by (simp add: WS_LINE_def)
  have "trim (k @ CHR ''='' # v) WS_LINE = rtrim (k @ CHR ''='' # v)"
    using assms(1) eq by (intro rtrim_trim) (cases k; simp add: line_entry_def)
  then have line: "trim (k @ CHR ''='' # v) WS_LINE = k @ CHR ''='' # rtrim v" by (simp only: rtrim_append [OF eq])
  have "trim k WS_FIELD = k"
    using assms(1) ws_field_line by (auto simp: line_entry_def intro!: trim_id)
  moreover have "trim (rtrim v) WS_FIELD = rtrim v"
    using assms(1) ws_field_line rtrim_last [of v] rtrim_hd [of v] rtrim_prefix [of v]
    by (intro trim_id) (auto simp: line_entry_def)
  moreover have "hd (k @ CHR ''='' # rtrim v) \<noteq> CHR ''#''" "hd (k @ CHR ''='' # rtrim v) \<noteq> CHR ''[''"
    using assms(1) by (cases k; auto simp: line_entry_def)+
  moreover have "split_key_value (k @ CHR ''='' # rtrim v) = Some (k, rtrim v)"
    using assms(1) by (intro split_key_value_print) (simp add: line_entry_def)
  ultimately show ?thesis by (simp add: flush_line_def assms(2) line Let_def)
qed

lemma pf_set_eq:
  "properties_file_set k v \<lparr>pf_path = p, pf_entries = m\<rparr> = \<lparr>pf_path = p, pf_entries = m(k \<mapsto> v)\<rparr>"
  by (simp add: properties_file_set_def)

lemma read_printed:
  assumes "list_all line_entry es" and "raw_line l = []" and "key_prefix l = []"
  shows "read_chars (concat (map print_entry es)) l =
           l\<lparr>ld_entries := pf_entries (properties.put_all (map (apsnd rtrim) es) \<lparr>pf_path = p, pf_entries = ld_entries l\<rparr>)\<rparr>"
  using assms
proof (induction es arbitrary: l)
  case (Cons e es)
  obtain k v where e: "e = (k, v)" by fastforce
  have cl: "line_entry (k, v)" "c_str k = k" "c_str v = v" "CHR 0x0A \<notin> set (k @ CHR ''='' # v)"
    using Cons.prems(1) by (auto simp: e line_entry_def c_str_id)
  have "read_chars (concat (map print_entry (e # es))) l =
      read_chars (concat (map print_entry es)) (flush_line (l\<lparr>raw_line := k @ CHR ''='' # v\<rparr>))"
    using cl read_chars_line [OF cl(4), of "concat (map print_entry es)" l] Cons.prems(2) by (simp add: e print_entry_def)
  also have "flush_line (l\<lparr>raw_line := k @ CHR ''='' # v\<rparr>) = l\<lparr>ld_entries := (ld_entries l)(k \<mapsto> rtrim v)\<rparr>"
    using flush_entry [OF cl(1), of "l\<lparr>raw_line := k @ CHR ''='' # v\<rparr>"] Cons.prems(2,3) by simp
  finally show ?case using Cons.IH [of "l\<lparr>ld_entries := (ld_entries l)(k \<mapsto> rtrim v)\<rparr>"] Cons.prems
    by (simp add: e pf_set_eq fun_upd_def)
qed simp

lemma flush_empty: "raw_line l = [] \<Longrightarrow> flush_line l = l"
  by (simp add: flush_line_def trim_id Let_def)

lemma saved_content:
  assumes "properties_file_close no_faults order file fs = (ERROR_NONE, fs')"
  shows "fs' (pf_path file) = Some (concat (map print_entry order))"
  using assms
  by (auto simp: properties_file_close_def save_to_file_def no_faults_def fs_remove_def fs_rename_def Let_def
        split: if_splits option.splits)

lemma close_no_faults:
  "\<exists>fs'. properties_file_close no_faults order file fs = (ERROR_NONE, fs')"
  by (simp add: properties_file_close_def save_to_file_def no_faults_def fs_remove_def fs_rename_def Let_def)

lemma open_printed:
  assumes "fs path = Some (concat (map print_entry es))"
  shows "properties_file_open True no_faults fs path =
           Some \<lparr>pf_path = path, pf_entries = ld_entries (flush_line (read_chars (concat (map print_entry es))
             \<lparr>key_prefix = '''', raw_line = '''', ld_entries = Map.empty\<rparr>))\<rparr>"
  using assms by (simp add: properties_file_open_def load_from_file_def no_faults_def Let_def)

lemma close_reopen:
  assumes "enumerates order file" and "list_all line_entry order"
  shows "\<exists>fs'. properties_file_close no_faults order file fs = (ERROR_NONE, fs') \<and>
           properties_file_open True no_faults fs' (pf_path file) =
             Some (file\<lparr>pf_entries := \<lambda>k. map_option rtrim (pf_entries file k)\<rparr>)"
proof -
  obtain fs' where close: "properties_file_close no_faults order file fs = (ERROR_NONE, fs')"
    using close_no_faults by blast
  let ?es = "map (apsnd rtrim) order"
  let ?m = "pf_entries (properties.put_all ?es \<lparr>pf_path = [], pf_entries = Map.empty\<rparr>)"
  have "read_chars (concat (map print_entry order)) \<lparr>key_prefix = '''', raw_line = '''', ld_entries = Map.empty\<rparr> =
      \<lparr>key_prefix = '''', raw_line = '''', ld_entries = ?m\<rparr>"
    using read_printed [OF assms(2), of "\<lparr>key_prefix = '''', raw_line = '''', ld_entries = Map.empty\<rparr>" "[]"] by simp
  moreover have "map_of ?es k = map_option rtrim (map_of order k)" for k
    by (induction order) auto
  then have "?m = (\<lambda>k. map_option rtrim (pf_entries file k))"
    using properties.lookup_put_all_distinct [of ?es "\<lparr>pf_path = [], pf_entries = Map.empty\<rparr>"] assms(1)
    by (auto simp: enumerates_def fun_eq_iff comp_def)
  ultimately have "properties_file_open True no_faults fs' (pf_path file) =
      Some (file\<lparr>pf_entries := \<lambda>k. map_option rtrim (pf_entries file k)\<rparr>)"
    using open_printed [where fs = fs' and es = order, OF saved_content [OF close]] by (cases "file") (simp add: flush_empty)
  with close show ?thesis by simp
qed

text \<open>
  what is saved is read back. If every entry is one that a line can carry (no line break, no
  \<open>=\<close> in the key, no surrounding blanks, no key that looks like a comment or a section), closing
  without I/O errors succeeds and opening the path again gives the same properties, in whatever
  order the hash map is iterated.
\<close>

theorem properties_file_roundtrip:
  assumes "enumerates order file" and "list_all clean_entry order"
  shows "\<exists>fs'. properties_file_close no_faults order file fs = (ERROR_NONE, fs') \<and>
           properties_file_open True no_faults fs' (pf_path file) = Some file"
proof -
  have "list_all line_entry order" using assms(2) by (simp add: list_all_iff clean_entry_def)
  moreover have "map_option rtrim (pf_entries file k) = pf_entries file k" for k
    using assms map_of_SomeD [of order k] by (cases "pf_entries file k") (auto simp: enumerates_def list_all_iff clean_entry_def)
  ultimately show ?thesis using close_reopen [OF assms(1), of fs] by simp
qed

theorem properties_file_roundtrip_witness:
  "\<exists>fs'. properties_file_close no_faults [(''ssid'', ''home net''), (''k'', '''')]
           \<lparr>pf_path = ''/w'', pf_entries = map_of [(''k'', ''''), (''ssid'', ''home net'')]\<rparr> Map.empty = (ERROR_NONE, fs') \<and>
         properties_file_open True no_faults fs' ''/w'' =
           Some \<lparr>pf_path = ''/w'', pf_entries = map_of [(''k'', ''''), (''ssid'', ''home net'')]\<rparr>"
proof -
  have "enumerates [(''ssid'', ''home net''), (''k'', '''')]
      \<lparr>pf_path = ''/w'', pf_entries = map_of [(''k'', ''''), (''ssid'', ''home net'')]\<rparr>"
    by (auto simp: enumerates_def fun_eq_iff)
  moreover have "list_all clean_entry [(''ssid'', ''home net''), (''k'', '''')]" by code_simp
  ultimately show ?thesis using properties_file_roundtrip by fastforce
qed

section \<open>Sections\<close>

lemma flush_section:
  assumes "raw_line l = k @ CHR ''='' # v" and "k \<noteq> []" "hd k = CHR ''[''"
  shows "ld_entries (flush_line l) = ld_entries l \<and> raw_line (flush_line l) = []"
proof -
  define w where "w = trim (raw_line l) WS_LINE"
  obtain k' where k': "k = CHR ''['' # k'" using assms(2,3) by (cases k) auto
  have ws: "CHR ''['' \<notin> set WS_LINE" by code_simp
  then have d: "dropWhile (\<lambda>c. c \<in> set WS_LINE) (raw_line l) = raw_line l" by (simp add: assms(1) k')
  have "\<exists>ys. rev (raw_line l) = ys @ [CHR ''['']" by (simp add: assms(1) k')
  then obtain ys where ys: "rev (raw_line l) = ys @ [CHR ''['']" by blast
  have "dropWhile (\<lambda>c. c \<in> set WS_LINE) (ys @ [CHR ''['']) = dropWhile (\<lambda>c. c \<in> set WS_LINE) ys @ [CHR ''['']"
    using ws by (simp add: dropWhile_append)
  then have "\<exists>u. w = CHR ''['' # u" unfolding w_def trim_dropWhile d ys by simp
  then show ?thesis by (auto simp: flush_line_def w_def [symmetric] Let_def)
qed

lemma read_sections:
  assumes "list_all (\<lambda>(k, v). k \<noteq> [] \<and> hd k = CHR ''['' \<and> NUL \<notin> set (k @ v) \<and> CHR 0x0A \<notin> set (k @ v)) es"
    and "raw_line l = []"
  shows "ld_entries (read_chars (concat (map print_entry es)) l) = ld_entries l \<and>
         raw_line (read_chars (concat (map print_entry es)) l) = []"
  using assms
proof (induction es arbitrary: l)
  case (Cons e es)
  obtain k v where e: "e = (k, v)" by fastforce
  have kv: "k \<noteq> []" "hd k = CHR ''[''" "c_str k = k" "c_str v = v" "CHR 0x0A \<notin> set (k @ CHR ''='' # v)"
    using Cons.prems(1) by (auto simp: e c_str_id)
  have "read_chars (concat (map print_entry (e # es))) l =
      read_chars (concat (map print_entry es)) (flush_line (l\<lparr>raw_line := k @ CHR ''='' # v\<rparr>))"
    using kv read_chars_line [OF kv(5), of "concat (map print_entry es)" l] Cons.prems(2) by (simp add: e print_entry_def)
  moreover have "ld_entries (flush_line (l\<lparr>raw_line := k @ CHR ''='' # v\<rparr>)) = ld_entries l"
    "raw_line (flush_line (l\<lparr>raw_line := k @ CHR ''='' # v\<rparr>)) = []"
    using flush_section [of "l\<lparr>raw_line := k @ CHR ''='' # v\<rparr>" k v] kv by simp_all
  ultimately show ?case using Cons.IH Cons.prems(1) by simp
qed simp

text \<open>
  properties of a section do not survive a save. A key read under a \<open>[section]\<close> line carries the
  section as its prefix; it is written as one \<open>[section]key=value\<close> line, which the next load takes for
  a section header. Closing reports success, and after reopening no such entry exists.
\<close>

theorem section_entries_lost:
  assumes "list_all (\<lambda>(k, v). k \<noteq> [] \<and> hd k = CHR ''['' \<and> NUL \<notin> set (k @ v) \<and> CHR 0x0A \<notin> set (k @ v)) order"
    and "enumerates order file"
  shows "\<exists>fs'. properties_file_close no_faults order file fs = (ERROR_NONE, fs') \<and>
           properties_file_open True no_faults fs' (pf_path file) = Some \<lparr>pf_path = pf_path file, pf_entries = Map.empty\<rparr>"
proof -
  obtain fs' where close: "properties_file_close no_faults order file fs = (ERROR_NONE, fs')"
    using close_no_faults by blast
  with open_printed [where fs = fs' and es = order, OF saved_content [OF close]]
    read_sections [OF assms(1), of "\<lparr>key_prefix = '''', raw_line = '''', ld_entries = Map.empty\<rparr>"]
  show ?thesis by (simp add: flush_empty)
qed

text \<open>A file with a section, opened, closed and opened again.\<close>

definition section_fs :: file_map where
  "section_fs = [''/s'' \<mapsto> ''[a]'' @ CHR 0x0A # ''k = 1'' @ [CHR 0x0A]]"

theorem section_entries_lost_witness:
  "map_option (\<lambda>f. pf_entries f ''[a]k'') (properties_file_open True no_faults section_fs ''/s'') = Some (Some ''1'') \<and>
   (\<exists>fs'. properties_file_close no_faults [(''[a]k'', ''1'')] \<lparr>pf_path = ''/s'', pf_entries = [''[a]k'' \<mapsto> ''1'']\<rparr> section_fs =
      (ERROR_NONE, fs') \<and>
    properties_file_open True no_faults fs' ''/s'' = Some \<lparr>pf_path = ''/s'', pf_entries = Map.empty\<rparr>)"
proof
  show "map_option (\<lambda>f. pf_entries f ''[a]k'') (properties_file_open True no_faults section_fs ''/s'') = Some (Some ''1'')"
    by code_simp
  have "enumerates [(''[a]k'', ''1'')] \<lparr>pf_path = ''/s'', pf_entries = [''[a]k'' \<mapsto> ''1'']\<rparr>"
    by (simp add: enumerates_def)
  from section_entries_lost [OF _ this, of section_fs]
  show "\<exists>fs'. properties_file_close no_faults [(''[a]k'', ''1'')] \<lparr>pf_path = ''/s'', pf_entries = [''[a]k'' \<mapsto> ''1'']\<rparr> section_fs =
      (ERROR_NONE, fs') \<and>
    properties_file_open True no_faults fs' ''/s'' = Some \<lparr>pf_path = ''/s'', pf_entries = Map.empty\<rparr>"
    by simp
qed

section \<open>A save that fails\<close>

text \<open>
  when a save fails to open, write, flush or close the temporary file, the previous content of
  the path is untouched; but when the final rename fails the previous content is already removed,
  and the temporary file with the new content is removed as well.
\<close>

theorem failed_save_effect:
  assumes "properties_file_close io order file fs = (ERROR_RESOURCE, fs')"
  shows "(if open_write_fails io \<or> write_fails_after io \<noteq> None \<or> remove_fails io then fs' (pf_path file) = fs (pf_path file)
          else rename_fails io \<and> fs' (pf_path file) = None \<and> fs' (pf_path file @ ''.tmp'') = None)"
  using assms
  by (auto simp: properties_file_close_def save_to_file_def fs_remove_def fs_rename_def Let_def
        split: if_splits option.splits)

theorem failed_save_effect_witness:
  "\<exists>fs'. properties_file_close (no_faults\<lparr>rename_fails := True\<rparr>) [(''k'', ''2'')]
           \<lparr>pf_path = ''/p'', pf_entries = [''k'' \<mapsto> ''2'']\<rparr> [''/p'' \<mapsto> ''k=1''] = (ERROR_RESOURCE, fs') \<and>
         fs' ''/p'' = None \<and> fs' ''/p.tmp'' = None"
proof -
  obtain fs' where c: "properties_file_close (no_faults\<lparr>rename_fails := True\<rparr>) [(''k'', ''2'')]
      \<lparr>pf_path = ''/p'', pf_entries = [''k'' \<mapsto> ''2'']\<rparr> [''/p'' \<mapsto> ''k=1''] = (ERROR_RESOURCE, fs')"
    by (auto simp: properties_file_close_def save_to_file_def fs_remove_def fs_rename_def no_faults_def Let_def)
  from failed_save_effect [OF c] c show ?thesis by (simp add: no_faults_def)
qed

end
