(* ===== verification/Decimal.thy ===== *)
theory Decimal
  imports Prelude
begin

text \<open>
  Decimal numbers as the C library prints and reads them: \<open>%u\<close> and \<open>%d\<close> of \<open>snprintf\<close>, and
  \<open>strtol\<close>, which skips blanks, takes a sign and digits, and reports by \<open>errno\<close> and an end pointer
  what it could not take.
\<close>

section \<open>Printing\<close>

text \<open>The decimal digits that \<open>%u\<close> prints, and what \<open>%d\<close> prints.\<close>

fun decimal :: "nat \<Rightarrow> string" where
  "decimal n = (if n < 10 then [char_of (48 + n)] else decimal (n div 10) @ [char_of (48 + n mod 10)])"

declare decimal.simps [simp del]

definition print_int :: "int \<Rightarrow> string" where
  "print_int i = (if i < 0 then CHR ''-'' # decimal (nat (- i)) else decimal (nat i))"

section \<open>Reading\<close>

definition is_digit :: "char \<Rightarrow> bool" where
  "is_digit c \<longleftrightarrow> 48 \<le> (of_char c :: nat) \<and> (of_char c :: nat) \<le> 57"

definition is_space :: "char \<Rightarrow> bool" where
  "is_space c \<longleftrightarrow> c = CHR '' '' \<or> 9 \<le> (of_char c :: nat) \<and> (of_char c :: nat) \<le> 13"

definition digits_value :: "string \<Rightarrow> nat" where
  "digits_value ds = fold (\<lambda>c v. v * 10 + (of_char c - 48)) ds 0"

text \<open>
  \<open>strtol(s, &end, 10)\<close> for a result of \<open>w\<close> bits: the value, whether \<open>errno\<close> is set to \<open>ERANGE\<close>, and
  the offset of the end pointer.
\<close>

definition strtol :: "nat \<Rightarrow> string \<Rightarrow> int \<times> bool \<times> nat" where
  "strtol w str =
     (let s = c_str str; blanks = length (takeWhile is_space s); r = drop blanks s;
          sign = (if r \<noteq> [] \<and> (hd r = CHR ''-'' \<or> hd r = CHR ''+'') then 1 else 0);
          ds = takeWhile is_digit (drop sign r);
          v = (if r \<noteq> [] \<and> hd r = CHR ''-'' then - int (digits_value ds) else int (digits_value ds));
          fin = blanks + sign + length ds in
      if ds = [] then (0, False, 0)
      else if v < - (2 ^ (w - 1)) then (- (2 ^ (w - 1)), True, fin)
      else if v > 2 ^ (w - 1) - 1 then (2 ^ (w - 1) - 1, True, fin)
      else (v, False, fin))"

text \<open>The value of \<open>strtoul(s, nullptr, 10)\<close> for \<open>w\<close> bits.\<close>

definition strtoul :: "nat \<Rightarrow> string \<Rightarrow> nat" where
  "strtoul w str =
     (let s = c_str str; r = drop (length (takeWhile is_space s)) s;
          sign = (if r \<noteq> [] \<and> (hd r = CHR ''-'' \<or> hd r = CHR ''+'') then 1 else 0);
          v = digits_value (takeWhile is_digit (drop sign r)) in
      if v \<ge> 2 ^ w then 2 ^ w - 1
      else if r \<noteq> [] \<and> hd r = CHR ''-'' then (2 ^ w - v) mod 2 ^ w else v)"

section \<open>What is printed is read back\<close>

lemma decimal_short: "n < 10 \<Longrightarrow> decimal n = [char_of (48 + n)]"
  by (rule trans [OF decimal.simps]) (rule if_P)

lemma decimal_long: "\<not> n < 10 \<Longrightarrow> decimal n = decimal (n div 10) @ [char_of (48 + n mod 10)]"
  by (rule trans [OF decimal.simps]) (rule if_not_P)

lemma digit_code: "k < 10 \<Longrightarrow> (of_char (char_of (48 + k :: nat)) :: nat) = 48 + k"
  by (simp add: of_char_of del: char_of_def)

lemma decimal_digits: "list_all is_digit (decimal n)"
proof (induction n rule: decimal.induct)
  case (1 n)
  then show ?case
    by (cases "n < 10") (simp_all add: decimal_short decimal_long is_digit_def digit_code)
qed

lemma decimal_nonempty: "decimal n \<noteq> []"
  by (cases "n < 10") (simp_all add: decimal_short decimal_long)

lemma digits_value_snoc: "digits_value (ds @ [c]) = digits_value ds * 10 + (of_char c - 48)"
  by (simp add: digits_value_def)

lemma digits_value_decimal: "digits_value (decimal n) = n"
proof (induction n rule: decimal.induct)
  case (1 n)
  show ?case
  proof (cases "n < 10")
    case True
    have "digits_value [] = 0" by (simp add: digits_value_def)
    then have "digits_value ([] @ [char_of (48 + n)]) = n" unfolding digits_value_snoc digit_code [OF True] by simp
    then show ?thesis unfolding decimal_short [OF True] append_Nil .
  next
    case False
    have "digits_value (decimal n) = n div 10 * 10 + n mod 10"
      unfolding decimal_long [OF False] digits_value_snoc 1 [OF False] digit_code [OF mod_less_divisor [of 10 n, OF zero_less_numeral]] by simp
    then show ?thesis by simp
  qed
qed

lemma decimal_inj: "decimal n = decimal m \<Longrightarrow> n = m"
  by (rule trans [OF sym [OF digits_value_decimal] trans [OF arg_cong [where f = digits_value] digits_value_decimal]])

lemma decimal_length: "n < 10 ^ Suc k \<Longrightarrow> length (decimal n) \<le> Suc k"
proof (induction k arbitrary: n)
  case (Suc k)
  show ?case
  proof (cases "n < 10")
    case False
    have "n div 10 < 10 ^ Suc k" using Suc.prems by (simp add: less_mult_imp_div_less)
    with Suc.IH False show ?thesis by (simp add: decimal_long)
  qed (simp add: decimal_short)
qed (simp add: decimal_short)

lemma decimal_hd: "is_digit (hd (decimal n))"
  using decimal_digits [of n] decimal_nonempty [of n] by (cases "decimal n") auto

lemma is_digit_chars:
  assumes "is_digit c"
  shows "\<not> is_space c" "c \<noteq> NUL" "c \<noteq> CHR ''-''" "c \<noteq> CHR ''+''" "c \<noteq> CHR 0x0A" "c \<noteq> CHR 0x0D" "c \<noteq> CHR 0x09" "c \<noteq> CHR '' ''"
  using assms by (auto simp: is_digit_def is_space_def)

lemma decimal_takeWhile: "takeWhile is_digit (decimal n) = decimal n"
  using decimal_digits [of n] by (simp add: takeWhile_eq_all_conv list_all_iff)

lemma print_int_chars: "c \<in> set (print_int i) \<Longrightarrow> c = CHR ''-'' \<or> is_digit c"
  using decimal_digits [of "nat (- i)"] decimal_digits [of "nat i"]
  by (auto simp: print_int_def list_all_iff split: if_splits)

lemma print_int_nonempty: "print_int i \<noteq> []"
  by (simp add: print_int_def decimal_nonempty)

lemma print_int_last: "is_digit (last (print_int i))"
  using decimal_digits [of "nat (- i)"] decimal_digits [of "nat i"] decimal_nonempty
  by (simp add: print_int_def list_all_iff)

lemma print_int_length: "\<bar>i\<bar> < 10 ^ Suc k \<Longrightarrow> length (print_int i) \<le> k + 2"
proof -
  assume "\<bar>i\<bar> < 10 ^ Suc k"
  then have "int (nat \<bar>i\<bar>) < int (10 ^ Suc k)" by simp
  then have "nat \<bar>i\<bar> < 10 ^ Suc k" by (rule of_nat_less_imp_less)
  from decimal_length [OF this] show ?thesis by (auto simp: print_int_def)
qed

lemma print_int_c_str: "c_str (print_int i) = print_int i"
  by (rule c_str_id) (use print_int_chars [of NUL i] is_digit_chars(2) [of NUL] in auto)

lemma strtol_print_int:
  assumes "- (2 ^ (w - 1)) \<le> i" and "i < 2 ^ (w - 1)"
  shows "strtol w (print_int i) = (i, False, length (print_int i))"
proof (cases "i < 0")
  case True
  then have p: "print_int i = CHR ''-'' # decimal (nat (- i))" by (simp add: print_int_def)
  have "\<not> is_space (CHR ''-'')" by (simp add: is_space_def)
  with True assms show ?thesis
    by (simp add: strtol_def print_int_c_str) (simp add: p decimal_takeWhile decimal_nonempty digits_value_decimal)
next
  case False
  then have p: "print_int i = decimal (nat i)" by (simp add: print_int_def)
  note c = is_digit_chars [OF decimal_hd [of "nat i"]]
  then have "takeWhile is_space (decimal (nat i)) = []" using decimal_nonempty [of "nat i"] by (cases "decimal (nat i)") auto
  with False assms c show ?thesis
    by (simp add: strtol_def print_int_c_str)
      (simp add: p decimal_takeWhile decimal_nonempty digits_value_decimal Let_def)
qed

end
