(* ===== verification/Preferences.thy ===== *)
theory Preferences
  imports Bundle Properties_File Decimal
begin

text \<open>
  \<open>TactilityKernel/source/preferences.cpp\<close>: typed settings over a properties file. A value is stored
  as a tagged string. The width of \<open>long\<close> is the argument \<open>lb\<close>, for it is 32 on the ESP32 and 64 in the
  simulator. Strings that come from C have no character 0. The directories of the host are a set of
  paths, compared as they are spelled.
\<close>

section \<open>Encoding\<close>

abbreviation BACKSLASH :: char where "BACKSLASH \<equiv> CHR 0x5C"
abbreviation LF :: char where "LF \<equiv> CHR 0x0A"

fun escape :: "string \<Rightarrow> string" where
  "escape [] = []"
| "escape (c # cs) =
     (if c = BACKSLASH then [BACKSLASH, BACKSLASH] else if c = LF then [BACKSLASH, CHR ''n''] else [c]) @ escape cs"

fun unescape :: "string \<Rightarrow> string" where
  "unescape [] = []"
| "unescape [c] = [c]"
| "unescape (c # d # cs) =
     (if c = BACKSLASH then (if d = CHR ''n'' then LF else d) # unescape cs else c # unescape (d # cs))"

text \<open>The tag and the raw payload.\<close>

definition split_tag :: "string \<Rightarrow> (string \<times> string) option" where
  "split_tag tagged_value = (case find_char tagged_value (CHR '':'') of
       None \<Rightarrow> None
     | Some colon \<Rightarrow> Some (substr tagged_value 0 colon, drop (colon + 1) tagged_value))"

definition parse_bool :: "string \<Rightarrow> bool option" where
  "parse_bool raw_value = (if raw_value = ''0'' then Some False else if raw_value = ''1'' then Some True else None)"

definition parse_int32 :: "nat \<Rightarrow> string \<Rightarrow> 32 word option" where
  "parse_int32 lb raw_value =
     (if raw_value = [] then None
      else case strtol lb raw_value of (parsed, erange, fin) \<Rightarrow>
        if erange \<or> fin \<noteq> length raw_value then None
        else if parsed < - (2 ^ 31) \<or> parsed > 2 ^ 31 - 1 then None
        else Some (word_of_int parsed))"

definition parse_int64 :: "string \<Rightarrow> 64 word option" where
  "parse_int64 raw_value =
     (if raw_value = [] then None
      else case strtol 64 raw_value of (parsed, erange, fin) \<Rightarrow>
        if erange \<or> fin \<noteq> length raw_value then None
        else if parsed < - (2 ^ 63) \<or> parsed > 2 ^ 63 - 1 then None
        else Some (word_of_int parsed))"

section \<open>Directories\<close>

record host_fs =
  fs_files :: file_map
  fs_dirs :: "string set"

text \<open>The argument \<open>can_make\<close> says for which paths \<open>mkdir\<close> succeeds.\<close>

definition ensure_directory :: "(string \<Rightarrow> bool) \<Rightarrow> string \<Rightarrow> host_fs \<Rightarrow> bool \<times> host_fs" where
  "ensure_directory can_make path h =
     (if path \<in> fs_dirs h then (True, h)
      else if fs_files h path \<noteq> None then (False, h)
      else if can_make path then (True, h\<lparr>fs_dirs := insert path (fs_dirs h)\<rparr>)
      else (False, h))"

text \<open>\<open>std::string::find\<close> from an index on.\<close>

definition find_from :: "string \<Rightarrow> char \<Rightarrow> nat \<Rightarrow> nat option" where
  "find_from s c i = map_option (\<lambda>n. i + n) (find_char (drop i s) c)"

lemma find_from_bounds: "find_from s c i = Some n \<Longrightarrow> i \<le> n \<and> n < length s"
  using length_takeWhile_le [of "\<lambda>x. x \<noteq> c" "drop i s"] by (auto simp: find_from_def find_char_def Let_def split: if_splits)

function ensure_prefixes :: "(string \<Rightarrow> bool) \<Rightarrow> string \<Rightarrow> nat \<Rightarrow> host_fs \<Rightarrow> bool \<times> host_fs" where
  "ensure_prefixes can_make path i h = (case find_from path (CHR ''/'') i of
       None \<Rightarrow> (True, h)
     | Some index \<Rightarrow> (case ensure_directory can_make (substr path 0 index) h of
           (ok, h) \<Rightarrow> if \<not> ok then (False, h) else ensure_prefixes can_make path (index + 1) h))"
  by auto
termination
  by (relation "measure (\<lambda>(can_make, path, i, h). length path - i)") (auto dest!: find_from_bounds)

declare ensure_prefixes.simps [simp del]

definition ensure_directory_recursive :: "(string \<Rightarrow> bool) \<Rightarrow> string \<Rightarrow> host_fs \<Rightarrow> bool \<times> host_fs" where
  "ensure_directory_recursive can_make path h = (case ensure_prefixes can_make path 1 h of
       (ok, h) \<Rightarrow> if \<not> ok then (False, h) else ensure_directory can_make path h)"

definition parent_directory :: "string \<Rightarrow> string" where
  "parent_directory path = (case find_char (rev path) (CHR ''/'') of
       None \<Rightarrow> ''''
     | Some n \<Rightarrow> substr path 0 (length path - 1 - n))"

section \<open>The store\<close>

record Preferences =
  prefs_file :: PropertiesFile

text \<open>
  The loop of \<open>try_get_tagged\<close>, whose buffer of 32 characters was doubled \<open>k\<close> times: the value fits as
  soon as the buffer is long enough.
\<close>

lemma get_too_small:
  assumes "properties_file_get f key (32 * 2 ^ k) = (e, out)" and "e \<noteq> ERROR_NONE" "e \<noteq> ERROR_NOT_FOUND"
  shows "\<exists>v. pf_entries f key = Some v \<and> k \<le> length v"
proof -
  obtain v where v: "pf_entries f key = Some v" "32 * 2 ^ k < length v + 1"
    using assms by (auto simp: properties_file_get_def copy_out_def split: option.splits if_splits)
  moreover have "k < 2 ^ k" by (rule less_exp)
  ultimately have "k \<le> length v" by linarith
  with v(1) show ?thesis by blast
qed

function try_get_loop :: "PropertiesFile \<Rightarrow> string \<Rightarrow> nat \<Rightarrow> (string \<times> string) option" where
  "try_get_loop f key k = (case properties_file_get f key (32 * 2 ^ k) of
       (e, out) \<Rightarrow>
         if e = ERROR_NONE then split_tag (c_str (the out))
         else if e = ERROR_NOT_FOUND then None
         else try_get_loop f key (k + 1))"
  by auto
termination
  by (relation "measure (\<lambda>(f, key, k). (case pf_entries f key of None \<Rightarrow> 0 | Some v \<Rightarrow> length v + 1) - k)")
    (auto dest!: get_too_small [OF sym] simp: less_Suc_eq_le Suc_diff_le)

declare try_get_loop.simps [simp del]

definition try_get_tagged :: "PropertiesFile \<Rightarrow> string \<Rightarrow> (string \<times> string) option" where
  "try_get_tagged f key = try_get_loop f key 0"

text \<open>
  \<open>order f\<close> is the order in which the hash map of the properties is iterated when it is written,
  \<open>allocs\<close> tells whether the two allocations succeed.
\<close>

definition preferences_open :: "(string \<Rightarrow> bool) \<Rightarrow> bool \<times> bool \<Rightarrow> io_faults \<Rightarrow> (PropertiesFile \<Rightarrow> (string \<times> string) list)
    \<Rightarrow> string \<Rightarrow> host_fs \<Rightarrow> Preferences option \<times> host_fs" where
  "preferences_open can_make allocs io order path h =
     (let directory = parent_directory path in
      case (if directory \<noteq> '''' then ensure_directory_recursive can_make directory h else (True, h)) of (ok, h) \<Rightarrow>
      if \<not> ok then (None, h)
      else case properties_file_open (fst allocs) io (fs_files h) path of
          None \<Rightarrow> (None, h)
        | Some f \<Rightarrow>
            if \<not> snd allocs then (None, h\<lparr>fs_files := snd (properties_file_close io (order f) f (fs_files h))\<rparr>)
            else (Some \<lparr>prefs_file = f\<rparr>, h))"

definition preferences_close :: "io_faults \<Rightarrow> (PropertiesFile \<Rightarrow> (string \<times> string) list) \<Rightarrow> Preferences \<Rightarrow> host_fs \<Rightarrow> host_fs" where
  "preferences_close io order p h =
     h\<lparr>fs_files := snd (properties_file_close io (order (prefs_file p)) (prefs_file p) (fs_files h))\<rparr>"

section \<open>Reading\<close>

definition preferences_has_bool :: "Preferences \<Rightarrow> string \<Rightarrow> bool" where
  "preferences_has_bool p key = (case try_get_tagged (prefs_file p) key of None \<Rightarrow> False
     | Some (tag, raw_value) \<Rightarrow> tag = ''b'' \<and> parse_bool raw_value \<noteq> None)"

definition preferences_has_int32 :: "nat \<Rightarrow> Preferences \<Rightarrow> string \<Rightarrow> bool" where
  "preferences_has_int32 lb p key = (case try_get_tagged (prefs_file p) key of None \<Rightarrow> False
     | Some (tag, raw_value) \<Rightarrow> tag = ''i32'' \<and> parse_int32 lb raw_value \<noteq> None)"

definition preferences_has_int64 :: "Preferences \<Rightarrow> string \<Rightarrow> bool" where
  "preferences_has_int64 p key = (case try_get_tagged (prefs_file p) key of None \<Rightarrow> False
     | Some (tag, raw_value) \<Rightarrow> tag = ''i64'' \<and> parse_int64 raw_value \<noteq> None)"

definition preferences_has_string :: "Preferences \<Rightarrow> string \<Rightarrow> bool" where
  "preferences_has_string p key = (case try_get_tagged (prefs_file p) key of None \<Rightarrow> False
     | Some (tag, raw_value) \<Rightarrow> tag = ''s'')"

definition preferences_opt_bool :: "Preferences \<Rightarrow> string \<Rightarrow> bool option" where
  "preferences_opt_bool p key = (case try_get_tagged (prefs_file p) key of None \<Rightarrow> None
     | Some (tag, raw_value) \<Rightarrow> if tag \<noteq> ''b'' then None else parse_bool raw_value)"

definition preferences_opt_int32 :: "nat \<Rightarrow> Preferences \<Rightarrow> string \<Rightarrow> 32 word option" where
  "preferences_opt_int32 lb p key = (case try_get_tagged (prefs_file p) key of None \<Rightarrow> None
     | Some (tag, raw_value) \<Rightarrow> if tag \<noteq> ''i32'' then None else parse_int32 lb raw_value)"

definition preferences_opt_int64 :: "Preferences \<Rightarrow> string \<Rightarrow> 64 word option" where
  "preferences_opt_int64 p key = (case try_get_tagged (prefs_file p) key of None \<Rightarrow> None
     | Some (tag, raw_value) \<Rightarrow> if tag \<noteq> ''i64'' then None else parse_int64 raw_value)"

definition preferences_opt_string :: "Preferences \<Rightarrow> string \<Rightarrow> nat \<Rightarrow> error_t \<times> string option" where
  "preferences_opt_string p key out_value_size = (case try_get_tagged (prefs_file p) key of None \<Rightarrow> (ERROR_NOT_FOUND, None)
     | Some (tag, raw_value) \<Rightarrow>
         if tag \<noteq> ''s'' then (ERROR_NOT_FOUND, None) else copy_out (unescape raw_value) out_value_size)"

section \<open>Writing\<close>

text \<open>\<open>snprintf\<close> into a buffer of \<open>n\<close> characters.\<close>

definition snprintf :: "nat \<Rightarrow> string \<Rightarrow> string" where
  "snprintf n s = take (n - 1) s"

definition preferences_put :: "string \<Rightarrow> string \<Rightarrow> Preferences \<Rightarrow> Preferences" where
  "preferences_put key v p = p\<lparr>prefs_file := properties_file_set key v (prefs_file p)\<rparr>"

definition preferences_put_bool :: "Preferences \<Rightarrow> string \<Rightarrow> bool \<Rightarrow> Preferences" where
  "preferences_put_bool p key v = preferences_put key (if v then ''b:1'' else ''b:0'') p"

definition preferences_put_int32 :: "Preferences \<Rightarrow> string \<Rightarrow> 32 word \<Rightarrow> Preferences" where
  "preferences_put_int32 p key v = preferences_put key (snprintf 32 (''i32:'' @ print_int (sint v))) p"

definition preferences_put_int64 :: "Preferences \<Rightarrow> string \<Rightarrow> 64 word \<Rightarrow> Preferences" where
  "preferences_put_int64 p key v = preferences_put key (snprintf 40 (''i64:'' @ print_int (sint v))) p"

definition preferences_put_string :: "Preferences \<Rightarrow> string \<Rightarrow> string \<Rightarrow> Preferences" where
  "preferences_put_string p key v = preferences_put key (''s:'' @ escape v) p"

interpretation preferences: kv_store "\<lambda>p. pf_entries (prefs_file p)" preferences_put
  by unfold_locales (simp add: preferences_put_def properties.lookup_put)

section \<open>A map of typed values\<close>

fun encode :: "typed \<Rightarrow> string" where
  "encode (Bool x) = (if x then ''b:1'' else ''b:0'')"
| "encode (Int32 x) = ''i32:'' @ print_int (sint x)"
| "encode (Int64 x) = ''i64:'' @ print_int (sint x)"
| "encode (Str x) = ''s:'' @ escape x"

fun c_value :: "typed \<Rightarrow> bool" where
  "c_value (Str x) \<longleftrightarrow> NUL \<notin> set x"
| "c_value _ \<longleftrightarrow> True"

definition prefs_rel :: "(string \<rightharpoonup> typed) \<Rightarrow> Preferences \<Rightarrow> bool" where
  "prefs_rel m p \<longleftrightarrow> (\<forall>k. pf_entries (prefs_file p) k = map_option encode (m k)) \<and> (\<forall>k v. m k = Some v \<longrightarrow> c_value v)"

lemma escape_chars: "c \<in> set (escape s) \<Longrightarrow> c \<in> set s \<or> c = BACKSLASH \<or> c = CHR ''n''"
  by (induction s) (auto split: if_splits)

lemma escape_no_LF: "LF \<notin> set (escape s)"
  by (induction s) auto

lemma unescape_escape: "unescape (escape s) = s"
proof (induction s)
  case (Cons c cs)
  then show ?case by (cases "escape cs") auto
qed simp

lemma encode_c_str: "c_value v \<Longrightarrow> c_str (encode v) = encode v"
  using print_int_chars [of NUL] is_digit_chars(2) [of NUL] escape_chars [of NUL]
  by (cases v) (auto intro!: c_str_id)

lemma int32_prints:
  fixes x :: "32 word"
  assumes "32 \<le> lb"
  shows "snprintf 32 (''i32:'' @ print_int (sint x)) = ''i32:'' @ print_int (sint x)"
    and "parse_int32 lb (print_int (sint x)) = Some x"
proof -
  have b: "- (2 ^ 31) \<le> sint x" "sint x < 2 ^ 31" using sint_range_size [of x] by (simp_all add: word_size)
  then have "\<bar>sint x\<bar> < 10 ^ Suc 9" by auto
  from print_int_length [OF this] show "snprintf 32 (''i32:'' @ print_int (sint x)) = ''i32:'' @ print_int (sint x)"
    by (simp add: snprintf_def)
  have "(2 :: int) ^ 31 \<le> 2 ^ (lb - 1)" using assms by (intro power_increasing) simp_all
  with b have "- (2 ^ (lb - 1)) \<le> sint x" "sint x < 2 ^ (lb - 1)" by linarith+
  from strtol_print_int [OF this] b show "parse_int32 lb (print_int (sint x)) = Some x"
    by (simp add: parse_int32_def print_int_nonempty)
qed

lemma int64_prints:
  fixes x :: "64 word"
  shows "snprintf 40 (''i64:'' @ print_int (sint x)) = ''i64:'' @ print_int (sint x)"
    and "parse_int64 (print_int (sint x)) = Some x"
proof -
  have b: "- (2 ^ 63) \<le> sint x" "sint x < 2 ^ 63" using sint_range_size [of x] by (simp_all add: word_size)
  then have "\<bar>sint x\<bar> < 10 ^ Suc 19" by auto
  from print_int_length [OF this] show "snprintf 40 (''i64:'' @ print_int (sint x)) = ''i64:'' @ print_int (sint x)"
    by (simp add: snprintf_def)
  have "- (2 ^ (64 - 1)) \<le> sint x" "sint x < 2 ^ (64 - 1)" using b by simp_all
  from strtol_print_int [OF this] b show "parse_int64 (print_int (sint x)) = Some x"
    by (simp add: parse_int64_def print_int_nonempty)
qed

lemma try_get_loop_found:
  "try_get_loop f key k = (case pf_entries f key of None \<Rightarrow> None | Some v \<Rightarrow> split_tag (c_str (v @ [NUL])))"
proof (induction f key k rule: try_get_loop.induct)
  case (1 f key k)
  then show ?case
    by (subst try_get_loop.simps)
      (auto simp: properties_file_get_def copy_out_def split: option.splits)
qed

lemma c_str_end: "c_str (v @ [NUL]) = c_str v"
  by (induction v) (auto simp: c_str_def)

lemma split_tag_print: "CHR '':'' \<notin> set t \<Longrightarrow> split_tag (t @ CHR '':'' # r) = Some (t, r)"
  by (simp add: split_tag_def find_char_split substr_def)

fun tag_of :: "typed \<Rightarrow> string \<times> string" where
  "tag_of (Bool x) = (''b'', if x then ''1'' else ''0'')"
| "tag_of (Int32 x) = (''i32'', print_int (sint x))"
| "tag_of (Int64 x) = (''i64'', print_int (sint x))"
| "tag_of (Str x) = (''s'', escape x)"

lemma tag_of_iff:
  "tag_of v = (''b'', r) \<longleftrightarrow> (\<exists>x. v = Bool x \<and> r = (if x then ''1'' else ''0''))"
  "tag_of v = (''i32'', r) \<longleftrightarrow> (\<exists>x. v = Int32 x \<and> r = print_int (sint x))"
  "tag_of v = (''i64'', r) \<longleftrightarrow> (\<exists>x. v = Int64 x \<and> r = print_int (sint x))"
  "tag_of v = (''s'', r) \<longleftrightarrow> (\<exists>x. v = Str x \<and> r = escape x)"
  by (cases v; auto)+

lemma split_encode: "split_tag (encode v) = Some (tag_of v)"
  using split_tag_print [of "''b''"] split_tag_print [of "''i32''"] split_tag_print [of "''i64''"] split_tag_print [of "''s''"]
  by (cases v) simp_all

lemma try_get_encoded:
  assumes "prefs_rel m p"
  shows "try_get_tagged (prefs_file p) k = map_option tag_of (m k)"
  using assms encode_c_str
  by (cases "m k") (simp_all add: prefs_rel_def try_get_tagged_def try_get_loop_found c_str_end split_encode)

lemma prefs_rel_put:
  assumes "prefs_rel m p" and "c_value v"
  shows "prefs_rel (m(k \<mapsto> v)) (preferences_put k (encode v) p)"
  using assms preferences.represented_put [of p encode m k v] by (auto simp: prefs_rel_def)

text \<open>
  the store implements a map from keys to typed values. Whatever map it represents, each put
  represents the updated map, no digit being lost in the buffers it prints to; each \<open>has\<close> and \<open>opt\<close>
  function answers from the map, whatever the width of \<open>long\<close> and however long the stored text is,
  and a string is returned with its terminator exactly when it fits.
\<close>

theorem preferences_refine_typed_map:
  assumes "prefs_rel m p" and "32 \<le> lb" and "NUL \<notin> set t"
  shows "prefs_rel (m(k \<mapsto> Bool x)) (preferences_put_bool p k x) \<and> prefs_rel (m(k \<mapsto> Int32 i)) (preferences_put_int32 p k i) \<and>
         prefs_rel (m(k \<mapsto> Int64 l)) (preferences_put_int64 p k l) \<and> prefs_rel (m(k \<mapsto> Str t)) (preferences_put_string p k t) \<and>
         preferences_opt_bool p q = (case m q of Some (Bool y) \<Rightarrow> Some y | _ \<Rightarrow> None) \<and>
         preferences_opt_int32 lb p q = (case m q of Some (Int32 y) \<Rightarrow> Some y | _ \<Rightarrow> None) \<and>
         preferences_opt_int64 p q = (case m q of Some (Int64 y) \<Rightarrow> Some y | _ \<Rightarrow> None) \<and>
         preferences_opt_string p q n = (case m q of Some (Str y) \<Rightarrow> copy_out y n | _ \<Rightarrow> (ERROR_NOT_FOUND, None)) \<and>
         preferences_has_bool p q = (\<exists>y. m q = Some (Bool y)) \<and> preferences_has_int32 lb p q = (\<exists>y. m q = Some (Int32 y)) \<and>
         preferences_has_int64 p q = (\<exists>y. m q = Some (Int64 y)) \<and> preferences_has_string p q = (\<exists>y. m q = Some (Str y))"
proof (intro conjI)
  note put = prefs_rel_put [OF assms(1)] and get = try_get_encoded [OF assms(1), of q]
  show "prefs_rel (m(k \<mapsto> Bool x)) (preferences_put_bool p k x)"
    using put [of "Bool x" k] by (simp add: preferences_put_bool_def)
  show "prefs_rel (m(k \<mapsto> Int32 i)) (preferences_put_int32 p k i)"
    using put [of "Int32 i" k] by (simp only: preferences_put_int32_def int32_prints(1) [OF assms(2)] encode.simps c_value.simps)
  show "prefs_rel (m(k \<mapsto> Int64 l)) (preferences_put_int64 p k l)"
    using put [of "Int64 l" k] by (simp only: preferences_put_int64_def int64_prints(1) encode.simps c_value.simps)
  show "prefs_rel (m(k \<mapsto> Str t)) (preferences_put_string p k t)"
    using put [of "Str t" k] assms(3) by (simp add: preferences_put_string_def)
  show "preferences_opt_bool p q = (case m q of Some (Bool y) \<Rightarrow> Some y | _ \<Rightarrow> None)"
    "preferences_has_bool p q = (\<exists>y. m q = Some (Bool y))"
    using get by (auto simp: preferences_opt_bool_def preferences_has_bool_def parse_bool_def tag_of_iff split: option.splits typed.splits)
  show "preferences_opt_int32 lb p q = (case m q of Some (Int32 y) \<Rightarrow> Some y | _ \<Rightarrow> None)"
    "preferences_has_int32 lb p q = (\<exists>y. m q = Some (Int32 y))"
    using get int32_prints(2) [OF assms(2)]
    by (auto simp: preferences_opt_int32_def preferences_has_int32_def tag_of_iff split: option.splits typed.splits)
  show "preferences_opt_int64 p q = (case m q of Some (Int64 y) \<Rightarrow> Some y | _ \<Rightarrow> None)"
    "preferences_has_int64 p q = (\<exists>y. m q = Some (Int64 y))"
    using get int64_prints(2)
    by (auto simp: preferences_opt_int64_def preferences_has_int64_def tag_of_iff split: option.splits typed.splits)
  show "preferences_opt_string p q n = (case m q of Some (Str y) \<Rightarrow> copy_out y n | _ \<Rightarrow> (ERROR_NOT_FOUND, None))"
    "preferences_has_string p q = (\<exists>y. m q = Some (Str y))"
    using get
    by (auto simp: preferences_opt_string_def preferences_has_string_def unescape_escape tag_of_iff split: option.splits typed.splits)
qed

theorem preferences_refine_typed_map_witness:
  "preferences_opt_int32 32 (preferences_put_int32 \<lparr>prefs_file = \<lparr>pf_path = ''/p'', pf_entries = Map.empty\<rparr>\<rparr> ''a'' (- 7)) ''a'' = Some (- 7)"
proof -
  let ?p = "\<lparr>prefs_file = \<lparr>pf_path = ''/p'', pf_entries = Map.empty\<rparr>\<rparr>"
  have "prefs_rel Map.empty ?p" by (simp add: prefs_rel_def)
  then have "prefs_rel (Map.empty(''a'' \<mapsto> Int32 (- 7))) (preferences_put_int32 ?p ''a'' (- 7))"
    using preferences_refine_typed_map [of Map.empty ?p 32 "''''"] by simp
  from preferences_refine_typed_map [OF this, of 32 "''''" _ _ _ _ "''a''"] show ?thesis by simp
qed

section \<open>Which texts are accepted as integers\<close>

definition denotes :: "string \<Rightarrow> int \<Rightarrow> bool" where
  "denotes s i \<longleftrightarrow> (\<exists>blanks sign ds. s = blanks @ sign @ ds \<and> list_all is_space blanks \<and> ds \<noteq> [] \<and> list_all is_digit ds \<and>
     (sign = ''-'' \<and> i = - int (digits_value ds) \<or> (sign = '''' \<or> sign = ''+'') \<and> i = int (digits_value ds)))"

lemma takeWhile_part:
  assumes "list_all P xs" and "ys = [] \<or> \<not> P (hd ys)"
  shows "takeWhile P (xs @ ys) = xs"
proof -
  have "takeWhile P ys = []" using assms(2) by (cases ys) auto
  with assms(1) show ?thesis by (simp add: list_all_iff)
qed

lemma strtol_denotes:
  assumes "denotes s i" and "- (2 ^ (w - 1)) \<le> i" "i < 2 ^ (w - 1)"
  shows "strtol w s = (i, False, length s)"
proof -
  obtain blanks sign ds where s: "s = blanks @ sign @ ds" and p: "list_all is_space blanks" "ds \<noteq> []" "list_all is_digit ds"
    and sg: "sign = ''-'' \<and> i = - int (digits_value ds) \<or> (sign = '''' \<or> sign = ''+'') \<and> i = int (digits_value ds)"
    using assms(1) by (auto simp: denotes_def)
  have d: "is_digit (hd ds)" using p(2,3) by (cases ds) auto
  have "NUL \<notin> set s"
    using p(1,3) sg by (auto simp: s list_all_iff is_space_def is_digit_def dest!: bspec)
  then have c: "c_str s = s" by (rule c_str_id)
  have sp: "takeWhile is_space s = blanks"
    unfolding s using p(1) by (rule takeWhile_part) (use sg d is_digit_chars(1) [OF d] p(2) in \<open>auto simp: is_space_def\<close>)
  have dg: "takeWhile is_digit ds = ds" using p(3) by (simp add: takeWhile_eq_all_conv list_all_iff)
  have r: "drop (length blanks) s = sign @ ds" by (simp add: s)
  note h = is_digit_chars(3,4) [OF d]
  obtain B where B: "B = (2 :: int) ^ (w - 1)" by blast
  have "\<not> i < - B" "\<not> B - 1 < i" using assms(2,3) by (simp_all add: B)
  with sg h p(2) show ?thesis
    unfolding strtol_def Let_def c sp r B [symmetric] by (auto simp: s dg)
qed

lemma denotes_strtol:
  assumes "strtol w s = (i, False, length s)" and "s \<noteq> []"
  shows "denotes s i"
proof -
  define r where "r = dropWhile is_space (c_str s)"
  define sign where "sign = (if r \<noteq> [] \<and> (hd r = CHR ''-'' \<or> hd r = CHR ''+'') then 1 else 0 :: nat)"
  define ds where "ds = takeWhile is_digit (drop sign r)"
  let ?b = "takeWhile is_space (c_str s)"
  have r: "drop (length ?b) (c_str s) = r" unfolding r_def by (rule dropWhile_eq_drop [symmetric])
  have st: "ds \<noteq> []" "i = (if r \<noteq> [] \<and> hd r = CHR ''-'' then - int (digits_value ds) else int (digits_value ds))"
    "length s = length ?b + sign + length ds"
    using assms unfolding strtol_def Let_def r sign_def [symmetric] ds_def [symmetric] by (auto split: if_splits)
  have whole: "c_str s = ?b @ take sign r @ drop sign r" unfolding r_def by simp
  have sl: "sign \<le> length r" by (cases r) (simp_all add: sign_def)
  have "length (c_str s) \<le> length s" unfolding c_str_def by (rule length_takeWhile_le)
  moreover have "length (c_str s) = length ?b + sign + length (drop sign r)" using arg_cong [OF whole, of length] sl by simp
  moreover have "length ds \<le> length (drop sign r)" unfolding ds_def by (rule length_takeWhile_le)
  ultimately have len: "length ds = length (drop sign r)" "length (c_str s) = length s" using st(3) by linarith+
  then have "\<forall>x\<in>set (drop sign r). is_digit x" unfolding ds_def takeWhile_all_length by blast
  then have dr: "drop sign r = ds" unfolding ds_def by (rule sym [OF takeWhile_eq_all_conv [THEN iffD2]])
  have cs: "c_str s = s" using len(2) unfolding c_str_def takeWhile_all_length by (simp add: takeWhile_eq_all_conv)
  have "s = ?b @ take sign r @ ds" using whole unfolding dr cs .
  moreover have "list_all is_space ?b" by (auto simp: list_all_iff dest: set_takeWhileD)
  moreover have "list_all is_digit ds" unfolding ds_def by (auto simp: list_all_iff dest: set_takeWhileD)
  moreover have "take sign r = ''-'' \<and> i = - int (digits_value ds) \<or>
      (take sign r = '''' \<or> take sign r = ''+'') \<and> i = int (digits_value ds)"
    using st(2) by (cases r) (auto simp: sign_def)
  ultimately show ?thesis using st(1) unfolding denotes_def by blast
qed

text \<open>
  only whole decimal numbers in range are accepted: reading a stored text as an integer gives a
  value exactly when the text is blanks, a sign and digits that denote it; trailing characters and
  numbers beyond the range are rejected, never clamped or truncated, whatever the width of \<open>long\<close>.
\<close>

theorem stored_integers_exact:
  assumes "32 \<le> lb"
  shows "(parse_int32 lb raw = Some x \<longleftrightarrow> denotes raw (sint x)) \<and> (parse_int64 raw = Some y \<longleftrightarrow> denotes raw (sint y))"
proof -
  have ne: "denotes raw i \<Longrightarrow> raw \<noteq> []" for i by (auto simp: denotes_def)
  have accept: "strtol w raw = (i, False, length raw)" if "denotes raw i" "- (2 ^ n) \<le> i" "i < 2 ^ n" "n \<le> w - 1" for w n i
  proof (rule strtol_denotes [OF that(1)])
    have "(2 :: int) ^ n \<le> 2 ^ (w - 1)" using that(4) by (intro power_increasing) simp_all
    with that(2,3) show "- (2 ^ (w - 1)) \<le> i" "i < 2 ^ (w - 1)" by linarith+
  qed
  have lb: "31 \<le> lb - 1" using assms by simp
  have x: "- (2 ^ 31) \<le> sint x" "sint x < 2 ^ 31" using sint_range_size [of x] by (simp_all add: word_size)
  have y: "- (2 ^ 63) \<le> sint y" "sint y < 2 ^ 63" using sint_range_size [of y] by (simp_all add: word_size)
  have "sint (word_of_int i :: 32 word) = i" if "- (2 ^ 31) \<le> i" "i \<le> 2 ^ 31 - 1" for i
    using that by (simp add: sint_sbintrunc' signed_take_bit_int_eq_self)
  then have "parse_int32 lb raw = Some x \<longleftrightarrow> denotes raw (sint x)"
    using denotes_strtol [of lb raw] accept [of "sint x", OF _ x lb] ne [of "sint x"] x
    by (auto simp: parse_int32_def split: prod.splits if_splits)
  moreover have "sint (word_of_int i :: 64 word) = i" if "- (2 ^ 63) \<le> i" "i \<le> 2 ^ 63 - 1" for i
    using that by (simp add: sint_sbintrunc' signed_take_bit_int_eq_self)
  then have "parse_int64 raw = Some y \<longleftrightarrow> denotes raw (sint y)"
    using denotes_strtol [of 64 raw] accept [of "sint y" 63 64, OF _ y] ne [of "sint y"] y
    by (auto simp: parse_int64_def split: prod.splits if_splits)
  ultimately show ?thesis by blast
qed

theorem stored_integers_exact_witness:
  "parse_int32 32 ''-12'' = Some (- 12) \<and> parse_int32 32 ''42abc'' \<noteq> Some 42"
proof -
  have "denotes ''-12'' (sint (- 12 :: 32 word))"
    unfolding denotes_def
    by (rule exI [of _ "''''"], rule exI [of _ "''-''"], rule exI [of _ "''12''"])
      (simp add: is_digit_def digits_value_def)
  moreover have "\<not> denotes ''42abc'' i" for i
  proof
    assume "denotes ''42abc'' i"
    then obtain blanks sign ds where s: "''42abc'' = blanks @ sign @ ds" and d: "ds \<noteq> []" "list_all is_digit ds"
      by (auto simp: denotes_def)
    have "last ''42abc'' = last ds" unfolding s using d(1) by simp
    then have "last ds = CHR ''c''" by simp
    moreover have "is_digit (last ds)" using d by (simp add: list_all_iff)
    ultimately show False by (simp add: is_digit_def)
  qed
  ultimately show ?thesis using stored_integers_exact [of 32] by auto
qed

section \<open>Closing and opening again\<close>

text \<open>What is left of a value: the blanks at the end of a string are lost.\<close>

definition rstrip :: "string \<Rightarrow> string" where
  "rstrip v = rev (dropWhile (\<lambda>c. c = CHR '' '' \<or> c = CHR 0x09 \<or> c = CHR 0x0D) (rev v))"

fun reloaded :: "typed \<Rightarrow> typed" where
  "reloaded (Str v) = Str (rstrip v)"
| "reloaded v = v"

definition clean_key :: "string \<Rightarrow> bool" where
  "clean_key k \<longleftrightarrow> line_entry (k, '''')"

lemma escape_append: "escape (v @ w) = escape v @ escape w"
  by (induction v) auto

lemma WS_LINE_cases: "c \<in> set WS_LINE \<longleftrightarrow> c = CHR '' '' \<or> c = CHR 0x09 \<or> c = CHR 0x0D \<or> c = LF"
  by (auto simp: WS_LINE_def)

lemma rtrim_escape: "rtrim (escape v) = escape (rstrip v)"
proof (induction v rule: rev_induct)
  case (snoc c v)
  consider "c = CHR '' '' \<or> c = CHR 0x09 \<or> c = CHR 0x0D" | "c \<noteq> CHR '' ''" "c \<noteq> CHR 0x09" "c \<noteq> CHR 0x0D" by blast
  then show ?case
  proof cases
    case 1
    then have "escape (v @ [c]) = escape v @ [c]" "rstrip (v @ [c]) = rstrip v" by (auto simp: escape_append rstrip_def)
    moreover have "rtrim (escape v @ [c]) = rtrim (escape v)" using 1 by (auto simp: rtrim_def WS_LINE_cases)
    ultimately show ?thesis using snoc by simp
  next
    case 2
    then have "rstrip (v @ [c]) = v @ [c]" by (simp add: rstrip_def)
    moreover have "last (escape (v @ [c])) \<notin> set WS_LINE" using 2 by (auto simp: escape_append WS_LINE_cases)
    ultimately show ?thesis by (simp add: rtrim_id)
  qed
qed (simp add: rtrim_def rstrip_def)

lemma rtrim_encode: "rtrim (encode v) = encode (reloaded v)"
proof (cases v)
  case (Str s)
  have "rtrim ([CHR ''s''] @ CHR '':'' # escape s) = [CHR ''s''] @ CHR '':'' # rtrim (escape s)"
    by (rule rtrim_append) (simp add: WS_LINE_cases)
  then show ?thesis by (simp add: Str rtrim_escape)
next
  case (Bool x)
  then show ?thesis by (auto intro!: rtrim_id simp: WS_LINE_cases)
next
  case (Int32 x)
  then show ?thesis using is_digit_chars [OF print_int_last] print_int_nonempty by (auto intro!: rtrim_id simp: WS_LINE_cases)
next
  case (Int64 x)
  then show ?thesis using is_digit_chars [OF print_int_last] print_int_nonempty by (auto intro!: rtrim_id simp: WS_LINE_cases)
qed

lemma encode_line_entry:
  assumes "clean_key k" and "c_value v"
  shows "line_entry (k, encode v)"
proof -
  have digit: "\<not> is_digit NUL" "\<not> is_digit LF" using is_digit_chars(2,5) by blast+
  have "NUL \<notin> set (encode v) \<and> LF \<notin> set (encode v)"
    using assms(2) escape_no_LF escape_chars [of NUL] print_int_chars [of NUL] print_int_chars [of LF] digit
    by (cases v) auto
  moreover have "hd (encode v) \<notin> set WS_FIELD" by (cases v) (auto simp: WS_FIELD_def)
  ultimately show ?thesis using assms(1) by (simp add: clean_key_def line_entry_def)
qed

lemma reloaded_c_value: "c_value v \<Longrightarrow> c_value (reloaded v)"
  by (cases v) (auto simp: rstrip_def dest: set_dropWhileD)

lemma ensure_directory_True: "ensure_directory mk path h = (True, h1) \<Longrightarrow> path \<in> fs_dirs h1 \<and> fs_dirs h \<subseteq> fs_dirs h1"
  by (auto simp: ensure_directory_def split: if_splits)

lemma ensure_directory_present: "path \<in> fs_dirs h \<Longrightarrow> ensure_directory mk path h = (True, h)"
  by (simp add: ensure_directory_def)

lemma ensure_prefixes_again:
  "ensure_prefixes mk path i h = (True, h1) \<Longrightarrow>
     fs_dirs h \<subseteq> fs_dirs h1 \<and> (\<forall>h2. fs_dirs h1 \<subseteq> fs_dirs h2 \<longrightarrow> ensure_prefixes mk' path i h2 = (True, h2))"
proof (induction mk path i h rule: ensure_prefixes.induct)
  case (1 mk path i h)
  show ?case
  proof (cases "find_from path (CHR ''/'') i")
    case None
    with 1(2) show ?thesis by (simp add: ensure_prefixes.simps)
  next
    case (Some index)
    with 1(2) obtain h' where h': "ensure_directory mk (substr path 0 index) h = (True, h')"
      and rest: "ensure_prefixes mk path (index + 1) h' = (True, h1)"
      by (subst (asm) ensure_prefixes.simps) (auto split: prod.splits if_splits)
    from 1(1) [OF Some h' [symmetric]] rest
    have ih: "fs_dirs h' \<subseteq> fs_dirs h1" "\<And>h2. fs_dirs h1 \<subseteq> fs_dirs h2 \<Longrightarrow> ensure_prefixes mk' path (index + 1) h2 = (True, h2)"
      by auto
    from ensure_directory_True [OF h'] ih show ?thesis
      by (auto simp: ensure_prefixes.simps [of mk' path i] Some ensure_directory_present subset_iff)
  qed
qed

lemma ensure_recursive_again:
  assumes "ensure_directory_recursive mk path h = (True, h1)" and "fs_dirs h1 \<subseteq> fs_dirs h2"
  shows "ensure_directory_recursive mk' path h2 = (True, h2)"
proof -
  obtain h' where h': "ensure_prefixes mk path 1 h = (True, h')" "ensure_directory mk path h' = (True, h1)"
    using assms(1) by (auto simp: ensure_directory_recursive_def split: prod.splits if_splits)
  from ensure_directory_True [OF h'(2)] have "path \<in> fs_dirs h2" "fs_dirs h' \<subseteq> fs_dirs h2" using assms(2) by auto
  with ensure_prefixes_again [OF h'(1), of mk'] show ?thesis
    by (simp add: ensure_directory_recursive_def ensure_directory_present)
qed

text \<open>
  settings survive closing and opening the store, but for the blanks at the end of a string.
  When a store whose keys are such as a line can carry is closed without I/O errors, opening its path
  again succeeds, whatever \<open>mkdir\<close> would do, for the directories of the path are there; and the new
  store has the same booleans, integers and strings, each string without trailing blanks, also when it
  contains line breaks, backslashes or the separators of the format.
\<close>

theorem preferences_reload:
  assumes "preferences_open can_make allocs io ord path h0 = (Some p0, h1)" and "fs_dirs h1 \<subseteq> fs_dirs h"
    and "prefs_rel m p" "pf_path (prefs_file p) = path" "\<forall>k\<in>dom m. clean_key k" "enumerates (order (prefs_file p)) (prefs_file p)"
  shows "\<exists>p' h'. preferences_close no_faults order p h = h' \<and>
    preferences_open can_make' (True, True) no_faults order' path h' = (Some p', h') \<and> prefs_rel (\<lambda>k. map_option reloaded (m k)) p'"
proof -
  let ?f = "prefs_file p" and ?d = "parent_directory path"
  have "list_all line_entry (order ?f)"
  proof -
    have "line_entry (k, v)" if "(k, v) \<in> set (order ?f)" for k v
    proof -
      have "pf_entries ?f k = Some v" using that assms(6) map_of_is_SomeI [of "order ?f" k v] by (simp add: enumerates_def)
      then obtain t where "m k = Some t" "v = encode t" "c_value t" using assms(3) by (auto simp: prefs_rel_def)
      with assms(5) show ?thesis by (auto intro!: encode_line_entry)
    qed
    then show ?thesis by (auto simp: list_all_iff)
  qed
  from close_reopen [OF assms(6) this, of "fs_files h"] obtain fs' where
    fs': "properties_file_close no_faults (order ?f) ?f (fs_files h) = (ERROR_NONE, fs')"
      "properties_file_open True no_faults fs' path = Some (?f\<lparr>pf_entries := \<lambda>k. map_option rtrim (pf_entries ?f k)\<rparr>)"
    using assms(4) by auto
  let ?h = "h\<lparr>fs_files := fs'\<rparr>" and ?p = "\<lparr>prefs_file = ?f\<lparr>pf_entries := \<lambda>k. map_option rtrim (pf_entries ?f k)\<rparr>\<rparr>"
  have "(if ?d \<noteq> '''' then ensure_directory_recursive can_make' ?d ?h else (True, ?h)) = (True, ?h)"
  proof (cases "?d = ''''")
    case False
    then have "ensure_directory_recursive can_make ?d h0 = (True, h1)" using assms(1)
      by (auto simp: preferences_open_def Let_def split: prod.splits if_splits option.splits)
    from ensure_recursive_again [OF this, of ?h] assms(2) show ?thesis by simp
  qed simp
  then have "preferences_open can_make' (True, True) no_faults order' path ?h = (Some ?p, ?h)"
    unfolding preferences_open_def Let_def by (simp add: fs'(2))
  moreover have "preferences_close no_faults order p h = ?h" by (simp add: preferences_close_def fs'(1))
  moreover have "prefs_rel (\<lambda>k. map_option reloaded (m k)) ?p" using assms(3)
    by (auto simp: prefs_rel_def option.map_comp comp_def rtrim_encode reloaded_c_value)
  ultimately show ?thesis by blast
qed

definition demo_prefs :: Preferences where
  "demo_prefs = preferences_put_string \<lparr>prefs_file = \<lparr>pf_path = ''/d/p'', pf_entries = Map.empty\<rparr>\<rparr> ''k'' ''a=b ''"

lemma demo_open:
  "preferences_open (\<lambda>_. True) (True, True) no_faults (\<lambda>_. []) ''/d/p'' \<lparr>fs_files = Map.empty, fs_dirs = {}\<rparr> =
     (Some \<lparr>prefs_file = \<lparr>pf_path = ''/d/p'', pf_entries = Map.empty\<rparr>\<rparr>, \<lparr>fs_files = Map.empty, fs_dirs = {''/d''}\<rparr>)"
  by (simp add: preferences_open_def parent_directory_def find_char_def substr_def ensure_directory_recursive_def
      ensure_prefixes.simps find_from_def ensure_directory_def properties_file_open_def load_from_file_def no_faults_def Let_def)

theorem preferences_reload_witness:
  "\<exists>p' h'. preferences_close no_faults (\<lambda>_. [(''k'', ''s:a=b '')]) demo_prefs \<lparr>fs_files = Map.empty, fs_dirs = {''/d''}\<rparr> = h' \<and>
     preferences_open (\<lambda>_. False) (True, True) no_faults (\<lambda>_. []) ''/d/p'' h' = (Some p', h') \<and>
     prefs_rel [''k'' \<mapsto> Str ''a=b''] p'"
proof -
  have rel: "prefs_rel [''k'' \<mapsto> Str ''a=b ''] demo_prefs"
    by (simp add: prefs_rel_def demo_prefs_def preferences_put_string_def preferences_put_def properties_file_set_def)
  have "(\<lambda>k. map_option reloaded ([''k'' \<mapsto> Str ''a=b ''] k)) = [''k'' \<mapsto> Str ''a=b'']"
    by (auto simp: rstrip_def)
  moreover have "enumerates [(''k'', ''s:a=b '')] (prefs_file demo_prefs)" "pf_path (prefs_file demo_prefs) = ''/d/p''"
    by (simp_all add: enumerates_def demo_prefs_def preferences_put_string_def preferences_put_def properties_file_set_def)
  moreover have "clean_key ''k''" by code_simp
  ultimately show ?thesis
    using preferences_reload [OF demo_open _ rel, of "\<lparr>fs_files = Map.empty, fs_dirs = {''/d''}\<rparr>" "\<lambda>_. [(''k'', ''s:a=b '')]"]
    by simp
qed

end
