(* ===== verification/Event_Groups.thy ===== *)
theory Event_Groups
  imports Kernel_Error
begin

text \<open>
  \<open>TactilityKernel/source/concurrent/event_group.cpp\<close> and \<open>task_event_group.cpp\<close>: the wrappers of the
  FreeRTOS event groups, and the allocation of their bits to event sources. FreeRTOS itself is the
  argument \<open>freertos\<close>; what the code relies on is the predicate \<open>event_groups_work\<close>, its documented
  behaviour. Bit masks are 32-bit words.
\<close>

section \<open>The operating system's event groups\<close>

record 'g freertos =
  xPortInIsrContext :: bool
  xEventGroupCreate :: "'g"
  xEventGroupSetBits :: "'g \<Rightarrow> 32 word \<Rightarrow> 'g"
  xEventGroupSetBitsFromISR :: "'g \<Rightarrow> 32 word \<Rightarrow> bool \<times> 'g"     \<comment> \<open>\<open>pdFAIL\<close> is \<open>False\<close>\<close>
  xEventGroupClearBits :: "'g \<Rightarrow> 32 word \<Rightarrow> 'g"
  xEventGroupClearBitsFromISR :: "'g \<Rightarrow> 32 word \<Rightarrow> bool \<times> 'g"
  xEventGroupGetBits :: "'g \<Rightarrow> 32 word"
  xEventGroupGetBitsFromISR :: "'g \<Rightarrow> 32 word"
  xEventGroupWaitBits :: "'g \<Rightarrow> 32 word \<Rightarrow> bool \<Rightarrow> bool \<Rightarrow> nat \<Rightarrow> 32 word \<times> 'g"   \<comment> \<open>mask, clear, all, timeout\<close>

text \<open>The documented effect of the calls outside of an interrupt.\<close>

definition event_groups_work :: "'g freertos \<Rightarrow> bool" where
  "event_groups_work os \<longleftrightarrow> \<not> xPortInIsrContext os \<and>
     (\<forall>g f. xEventGroupGetBits os (xEventGroupSetBits os g f) = xEventGroupGetBits os g OR f) \<and>
     (\<forall>g f. xEventGroupGetBits os (xEventGroupClearBits os g f) = xEventGroupGetBits os g AND NOT f) \<and>
     (\<forall>g m c a t r g'. xEventGroupWaitBits os g m c a t = (r, g') \<longrightarrow>
        (if a then r AND m = m else r AND m \<noteq> 0) \<longrightarrow>
        xEventGroupGetBits os g' = (if c then r AND NOT m else r))"

section \<open>Event groups\<close>

definition event_group_set :: "'g freertos \<Rightarrow> 'g \<Rightarrow> 32 word \<Rightarrow> error_t \<times> 'g" where
  "event_group_set os g inFlags =
     (if xPortInIsrContext os then
        (case xEventGroupSetBitsFromISR os g inFlags of (ok, g) \<Rightarrow>
           if \<not> ok then (ERROR_RESOURCE, g) else (ERROR_NONE, g))
      else (ERROR_NONE, xEventGroupSetBits os g inFlags))"

definition event_group_clear :: "'g freertos \<Rightarrow> 'g \<Rightarrow> 32 word \<Rightarrow> error_t \<times> 'g" where
  "event_group_clear os g flags =
     (if xPortInIsrContext os then
        (case xEventGroupClearBitsFromISR os g flags of (ok, g) \<Rightarrow>
           if \<not> ok then (ERROR_RESOURCE, g) else (ERROR_NONE, g))
      else (ERROR_NONE, xEventGroupClearBits os g flags))"

definition event_group_get :: "'g freertos \<Rightarrow> 'g \<Rightarrow> 32 word" where
  "event_group_get os g = (if xPortInIsrContext os then xEventGroupGetBitsFromISR os g else xEventGroupGetBits os g)"

text \<open>The third component is what is stored through \<open>outFlags\<close>, if anything.\<close>

definition event_group_wait :: "'g freertos \<Rightarrow> 'g \<Rightarrow> 32 word \<Rightarrow> bool \<Rightarrow> bool \<Rightarrow> nat \<Rightarrow> error_t \<times> 'g \<times> 32 word option" where
  "event_group_wait os g inFlags awaitAll clearOnExit timeout =
     (if xPortInIsrContext os then (ERROR_ISR_STATUS, g, None) else
      case xEventGroupWaitBits os g inFlags clearOnExit awaitAll timeout of (result_flags, g) \<Rightarrow>
        let invalid_flags = (if awaitAll then inFlags AND result_flags \<noteq> inFlags else inFlags AND result_flags = 0) in
        if invalid_flags then
          (if inFlags AND result_flags = 0 then (ERROR_TIMEOUT, g, None) else (ERROR_RESOURCE, g, None))
        else (ERROR_NONE, g, Some result_flags))"

section \<open>Task event groups\<close>

record 'g TaskEventGroup =
  handle :: "'g"
  claimed_bits :: "32 word"

definition TASK_EVENT_GROUP_MAX_BITS :: nat where "TASK_EVENT_GROUP_MAX_BITS = 24"

definition task_event_group_construct :: "'g freertos \<Rightarrow> 'g TaskEventGroup" where
  "task_event_group_construct os = \<lparr>handle = xEventGroupCreate os, claimed_bits = 0\<rparr>"

definition task_event_group_destruct :: "'g TaskEventGroup \<Rightarrow> 'g TaskEventGroup" where
  "task_event_group_destruct g = g\<lparr>claimed_bits := 0\<rparr>"

text \<open>The loop over the bit numbers, and the bit it claims.\<close>

fun claim_loop :: "nat list \<Rightarrow> 32 word \<Rightarrow> 32 word option" where
  "claim_loop [] claimed = None"
| "claim_loop (i # is) claimed =
     (let b = push_bit i 1 in if claimed AND b = 0 then Some b else claim_loop is claimed)"

definition task_event_group_claim_bit :: "'g TaskEventGroup \<Rightarrow> error_t \<times> 32 word option \<times> 'g TaskEventGroup" where
  "task_event_group_claim_bit g =
     (case claim_loop [0..<TASK_EVENT_GROUP_MAX_BITS] (claimed_bits g) of
        None \<Rightarrow> (ERROR_RESOURCE, None, g)
      | Some b \<Rightarrow> (ERROR_NONE, Some b, g\<lparr>claimed_bits := claimed_bits g OR b\<rparr>))"

definition task_event_group_release_bit :: "'g freertos \<Rightarrow> 'g TaskEventGroup \<Rightarrow> 32 word \<Rightarrow> 'g TaskEventGroup" where
  "task_event_group_release_bit os g b =
     (case event_group_clear os (handle g) b of (e, h) \<Rightarrow>
        g\<lparr>handle := h, claimed_bits := claimed_bits g AND NOT b\<rparr>)"

definition task_event_group_signal :: "'g freertos \<Rightarrow> 'g TaskEventGroup \<Rightarrow> 32 word \<Rightarrow> error_t \<times> 'g TaskEventGroup" where
  "task_event_group_signal os g b =
     (case event_group_set os (handle g) b of (e, h) \<Rightarrow> (e, g\<lparr>handle := h\<rparr>))"

definition task_event_group_wait :: "'g freertos \<Rightarrow> 'g TaskEventGroup \<Rightarrow> 32 word \<Rightarrow> bool \<Rightarrow> nat
    \<Rightarrow> error_t \<times> 'g TaskEventGroup \<times> 32 word option" where
  "task_event_group_wait os g bits_mask await_all timeout =
     (case event_group_wait os (handle g) bits_mask await_all True timeout of (e, h, out) \<Rightarrow> (e, g\<lparr>handle := h\<rparr>, out))"

definition task_event_group_wait_any :: "'g freertos \<Rightarrow> 'g TaskEventGroup \<Rightarrow> nat
    \<Rightarrow> error_t \<times> 'g TaskEventGroup \<times> 32 word option" where
  "task_event_group_wait_any os g timeout =
     (let mask = claimed_bits g in
      if mask = 0 then (ERROR_TIMEOUT, g, None) else task_event_group_wait os g mask False timeout)"

section \<open>Claiming bits\<close>

abbreviation claimed :: "'g TaskEventGroup \<Rightarrow> nat \<Rightarrow> bool" where
  "claimed g i \<equiv> bit (claimed_bits g) i"


lemma claim_loop_find:
  "claim_loop is w = map_option (\<lambda>i. 2 ^ i) (List.find (\<lambda>i. \<not> bit w i) is)"
  by (induction "is") (simp_all add: Let_def and_exp_eq_0_iff_not_bit)

text \<open>The claim in terms of bit numbers: the lowest free one below 24.\<close>

lemma claim_bit_cases:
  obtains (none) "\<forall>i<24. claimed g i" "task_event_group_claim_bit g = (ERROR_RESOURCE, None, g)"
  | (some) i where "i < 24" "\<not> claimed g i" "\<forall>j<i. claimed g j"
      "task_event_group_claim_bit g = (ERROR_NONE, Some (2 ^ i), g\<lparr>claimed_bits := claimed_bits g OR 2 ^ i\<rparr>)"
proof (cases "List.find (\<lambda>i. \<not> claimed g i) [0..<24]")
  case None
  then have "\<forall>i<24. claimed g i" by (simp add: find_None_iff)
  with None show thesis
    by (intro none) (simp_all add: task_event_group_claim_bit_def claim_loop_find TASK_EVENT_GROUP_MAX_BITS_def)
next
  case (Some i)
  then have "i < 24" "\<not> claimed g i" "\<forall>j<i. claimed g j" by (auto simp: find_Some_iff)
  with Some show thesis
    by (intro some [of i]) (simp_all add: task_event_group_claim_bit_def claim_loop_find TASK_EVENT_GROUP_MAX_BITS_def)
qed

lemma bit_or_exp: "i < 32 \<Longrightarrow> bit (w OR 2 ^ i) j = (bit w j \<or> j = i)" for w :: "32 word"
  by (auto simp: bit_simps)

lemma bit_andnot_exp: "bit (w AND NOT (2 ^ i)) j = (bit w j \<and> j \<noteq> i)" for w :: "32 word"
  by (auto simp: bit_simps dest: bit_imp_le_length)

text \<open>
  bits are handed out exclusively. A claim takes the lowest of the 24 bits that is free and
  leaves every other bit's claim alone, and fails exactly when all 24 are taken, without effect.
  Releasing the bit makes exactly it free again and clears its flag, so that a signal nobody waited
  for is not seen by the next claimant.
\<close>

theorem bits_claimed_exclusively:
  assumes "event_groups_work os" and "task_event_group_claim_bit g = (e, b, g')"
  shows "(if \<forall>i<24. claimed g i then e = ERROR_RESOURCE \<and> b = None \<and> g' = g
          else \<exists>i<24. \<not> claimed g i \<and> (\<forall>j<i. claimed g j) \<and> e = ERROR_NONE \<and> b = Some (2 ^ i) \<and>
            (\<forall>j. claimed g' j = (claimed g j \<or> j = i)) \<and>
            (let h = task_event_group_release_bit os (snd (task_event_group_signal os g' (2 ^ i))) (2 ^ i) in
             claimed_bits h = claimed_bits g \<and> \<not> bit (event_group_get os (handle h)) i))"
proof (cases g rule: claim_bit_cases)
  case none
  with assms(2) show ?thesis by simp
next
  case (some i)
  have "(claimed_bits g OR 2 ^ i) AND NOT (2 ^ i) = claimed_bits g"
    using some(1,2) by (intro bit_eqI) (auto simp only: bit_andnot_exp bit_or_exp)
  moreover have "\<not> (\<forall>i<24. claimed g i)" using some(1,2) by blast
  ultimately show ?thesis
    using assms some
    by (auto simp: Let_def task_event_group_release_bit_def task_event_group_signal_def event_group_set_def
          event_group_clear_def event_group_get_def event_groups_work_def bit_or_exp bit_andnot_exp
        intro!: exI [of _ i])
qed

text \<open>A concrete event group: the word of its flags; waiting returns at once.\<close>

definition plain_freertos :: "32 word freertos" where
  "plain_freertos = \<lparr>xPortInIsrContext = False, xEventGroupCreate = 0, xEventGroupSetBits = (\<lambda>g f. g OR f),
     xEventGroupSetBitsFromISR = (\<lambda>g f. (True, g OR f)), xEventGroupClearBits = (\<lambda>g f. g AND NOT f),
     xEventGroupClearBitsFromISR = (\<lambda>g f. (True, g AND NOT f)), xEventGroupGetBits = (\<lambda>g. g),
     xEventGroupGetBitsFromISR = (\<lambda>g. g),
     xEventGroupWaitBits = (\<lambda>g m c a t. (g, if c \<and> (if a then g AND m = m else g AND m \<noteq> 0) then g AND NOT m else g))\<rparr>"

lemma plain_freertos_works: "event_groups_work plain_freertos"
  by (auto simp: event_groups_work_def plain_freertos_def)

theorem bits_claimed_exclusively_witness:
  "\<exists>i<24. fst (snd (task_event_group_claim_bit \<lparr>handle = 0 :: 32 word, claimed_bits = 3\<rparr>)) = Some (2 ^ i) \<and> i = 2"
proof -
  let ?g = "\<lparr>handle = 0 :: 32 word, claimed_bits = 3\<rparr>"
  obtain e b g' where r: "task_event_group_claim_bit ?g = (e, b, g')" by (cases "task_event_group_claim_bit ?g")
  have free: "\<not> claimed ?g 5" "\<not> claimed ?g 2" "claimed ?g 0" "claimed ?g 1" by code_simp+
  then have "\<not> (\<forall>i<24. claimed ?g i)" by (auto intro!: exI [of _ 5])
  note main = bits_claimed_exclusively [OF plain_freertos_works r, unfolded if_not_P [OF this]]
  from main obtain i where i: "i < 24" "\<not> claimed ?g i" "\<forall>j<i. claimed ?g j" "b = Some (2 ^ i)" by blast
  have "\<not> 2 < i" using i(3) free(2) by blast
  moreover have "i \<noteq> 0" "i \<noteq> 1" using i(2) free(3,4) by metis+
  ultimately have "i = 2" by linarith
  with i r show ?thesis by auto
qed

text \<open>
  a wait that reports success has found what it waited for, hands out the flags and has cleared
  the bits of the mask; every other result leaves the output untouched. Waiting for any claimed bit
  when none is claimed returns \<open>ERROR_TIMEOUT\<close> at once.
\<close>

theorem wait_reports_matched_bits:
  assumes "event_groups_work os" and "task_event_group_wait os g m await_all t = (e, g', out)"
  shows "(if e = ERROR_NONE
          then \<exists>r. out = Some r \<and> (if await_all then r AND m = m else r AND m \<noteq> 0) \<and>
                 event_group_get os (handle g') = r AND NOT m
          else e \<in> {ERROR_TIMEOUT, ERROR_RESOURCE} \<and> out = None) \<and>
         claimed_bits g' = claimed_bits g \<and>
         (claimed_bits g = 0 \<longrightarrow> task_event_group_wait_any os g t = (ERROR_TIMEOUT, g, None))"
proof -
  obtain r h where r: "xEventGroupWaitBits os (handle g) m True await_all t = (r, h)" by fastforce
  have isr: "\<not> xPortInIsrContext os" using assms(1) by (simp add: event_groups_work_def)
  have "(if await_all then r AND m = m else r AND m \<noteq> 0) \<Longrightarrow> xEventGroupGetBits os h = r AND NOT m"
    using assms(1) r unfolding event_groups_work_def by (metis (full_types))
  with assms(2) r isr show ?thesis
    by (auto simp: task_event_group_wait_def event_group_wait_def event_group_get_def
          task_event_group_wait_any_def Let_def and.commute split: if_splits)
qed

theorem wait_reports_matched_bits_witness:
  "\<exists>r. snd (snd (task_event_group_wait plain_freertos \<lparr>handle = 6, claimed_bits = 7\<rparr> 4 False 10)) = Some r \<and> r AND 4 \<noteq> 0"
proof -
  have "fst (task_event_group_wait plain_freertos \<lparr>handle = 6, claimed_bits = 7\<rparr> 4 False 10) = ERROR_NONE"
    by code_simp
  then obtain g' out where "task_event_group_wait plain_freertos \<lparr>handle = 6, claimed_bits = 7\<rparr> 4 False 10 = (ERROR_NONE, g', out)"
    by (cases "task_event_group_wait plain_freertos \<lparr>handle = 6, claimed_bits = 7\<rparr> 4 False 10") auto
  with wait_reports_matched_bits [OF plain_freertos_works this] show ?thesis by auto
qed

end
