(* ===== verification/System_Event.thy ===== *)
theory System_Event
  imports Event_Groups Prelude
begin

text \<open>
  \<open>TactilityKernel/source/system_event.cpp\<close>: system events for callbacks and for poll subscriptions.
  The poll subscriptions form an intrusive singly linked list through nodes that the callers own:
  \<open>nodes\<close> is the store of all nodes, by address, and \<open>poll_subscriptions\<close> the head of the list. The
  loops over the list follow the \<open>next\<close> pointers, so they may not end; they are partial functions,
  whose value is \<open>None\<close> then.
\<close>

section \<open>Data\<close>

datatype SystemEventType =
    KERNEL_EVENT_BOOT_COMPLETED | KERNEL_EVENT_NETWORK_CONNECTED | KERNEL_EVENT_NETWORK_DISCONNECTED
  | KERNEL_EVENT_FILE_SYSTEM_MOUNTED | KERNEL_EVENT_FILE_SYSTEM_UNMOUNTED | KERNEL_EVENT_SERVICE_STARTED
  | KERNEL_EVENT_SERVICE_STOPPED | KERNEL_EVENT_TIME_CHANGED | KERNEL_EVENT_DEEP_SLEEP_PREPARE

text \<open>\<open>sizeof(struct NetworkConnectedEvent)\<close> with the ESP32's 32-bit pointers.\<close>

definition SYSTEM_EVENT_MAX_DATA_SIZE :: nat where "SYSTEM_EVENT_MAX_DATA_SIZE = 12"

record SystemEvent =
  ev_type :: SystemEventType
  ev_timestamp :: "64 word"
  ev_data :: "byte list"       \<comment> \<open>an array of \<open>SYSTEM_EVENT_MAX_DATA_SIZE\<close> bytes\<close>
  ev_data_len :: nat

record SystemEventSubscription =
  sub_event :: SystemEvent
  sub_bit :: "32 word"
  sub_event_group :: nat       \<comment> \<open>address of the task event group\<close>
  sequence :: "32 word"
  consumed_sequence :: "32 word"
  cancelled :: bool
  sub_next :: "nat option"

record KernelEventSubscription =
  ks_type :: SystemEventType
  ks_callback :: fn
  ks_context :: ptr

record 'g sysev =
  subscriptions :: "KernelEventSubscription list"
  poll_subscriptions :: "nat option"
  nodes :: "nat \<Rightarrow> SystemEventSubscription"
  groups :: "nat \<Rightarrow> 'g TaskEventGroup"

text \<open>A callback may change the event it is given, and call back into the event system.\<close>

type_synonym 'g callbacks = "fn \<Rightarrow> SystemEvent \<Rightarrow> ptr \<Rightarrow> 'g sysev \<Rightarrow> (SystemEvent \<times> 'g sysev) option"

definition upd_node :: "nat \<Rightarrow> (SystemEventSubscription \<Rightarrow> SystemEventSubscription) \<Rightarrow> 'g sysev \<Rightarrow> 'g sysev" where
  "upd_node a f s = s\<lparr>nodes := (nodes s)(a := f (nodes s a))\<rparr>"

definition upd_group :: "nat \<Rightarrow> ('g TaskEventGroup \<Rightarrow> 'g TaskEventGroup) \<Rightarrow> 'g sysev \<Rightarrow> 'g sysev" where
  "upd_group g f s = s\<lparr>groups := (groups s)(g := f (groups s g))\<rparr>"

section \<open>Callbacks\<close>

definition system_event_callback_add :: "SystemEventType \<Rightarrow> fn \<Rightarrow> ptr \<Rightarrow> 'g sysev \<Rightarrow> error_t \<times> 'g sysev" where
  "system_event_callback_add ty cb ctx s =
     (ERROR_NONE, s\<lparr>subscriptions := subscriptions s @ [\<lparr>ks_type = ty, ks_callback = cb, ks_context = ctx\<rparr>]\<rparr>)"

definition system_event_callback_remove :: "SystemEventType \<Rightarrow> fn \<Rightarrow> 'g sysev \<Rightarrow> error_t \<times> 'g sysev" where
  "system_event_callback_remove ty cb s =
     (case List.find (\<lambda>k. ks_type k = ty \<and> ks_callback k = cb) (subscriptions s) of
        None \<Rightarrow> (ERROR_NOT_FOUND, s)
      | Some k \<Rightarrow> (ERROR_NONE, s\<lparr>subscriptions := remove1 k (subscriptions s)\<rparr>))"

fun call_matching :: "'g callbacks \<Rightarrow> KernelEventSubscription list \<Rightarrow> SystemEvent \<Rightarrow> 'g sysev \<Rightarrow> 'g sysev option" where
  "call_matching env [] ev s = Some s"
| "call_matching env (k # ks) ev s = do {
     (ev, s) \<leftarrow> env (ks_callback k) ev (ks_context k) s;
     call_matching env ks ev s
   }"

text \<open>\<open>mem_ok\<close>: the snapshot can be allocated.\<close>

definition notify_listeners :: "'g callbacks \<Rightarrow> bool \<Rightarrow> SystemEvent \<Rightarrow> 'g sysev \<Rightarrow> (error_t \<times> 'g sysev) option" where
  "notify_listeners env mem_ok ev s =
     (let matching = filter (\<lambda>k. ks_type k = ev_type ev) (subscriptions s) in
      if matching \<noteq> [] \<and> \<not> mem_ok then Some (ERROR_OUT_OF_MEMORY, s)
      else map_option (Pair ERROR_NONE) (call_matching env matching ev s))"

section \<open>Poll subscriptions\<close>

text \<open>\<open>memcpy\<close> of at most the array's size over its front.\<close>

definition copy_data :: "byte list \<Rightarrow> byte list \<Rightarrow> byte list" where
  "copy_data src arr = (let n = min (length src) SYSTEM_EVENT_MAX_DATA_SIZE in take n src @ drop n arr)"

definition notify_node :: "'g freertos \<Rightarrow> SystemEventType \<Rightarrow> 64 word \<Rightarrow> byte list \<Rightarrow> nat \<Rightarrow> 'g sysev \<Rightarrow> 'g sysev" where
  "notify_node os ty ts src a s =
     (if ev_type (sub_event (nodes s a)) = ty then
        let s = upd_node a (\<lambda>n. n\<lparr>sub_event := (sub_event n)\<lparr>ev_timestamp := ts, ev_data := copy_data src (ev_data (sub_event n)),
                  ev_data_len := min (length src) SYSTEM_EVENT_MAX_DATA_SIZE\<rparr>, sequence := sequence n + 1\<rparr>) s
        in upd_group (sub_event_group (nodes s a)) (\<lambda>g. snd (task_event_group_signal os g (sub_bit (nodes s a)))) s
      else s)"

partial_function (option) notify_from ::
  "'g freertos \<Rightarrow> SystemEventType \<Rightarrow> 64 word \<Rightarrow> byte list \<Rightarrow> nat option \<Rightarrow> 'g sysev \<Rightarrow> 'g sysev option" where
  "notify_from os ty ts src p s =
     (case p of None \<Rightarrow> Some s
      | Some a \<Rightarrow> (let s = notify_node os ty ts src a s in notify_from os ty ts src (sub_next (nodes s a)) s))"

definition notify_poll_subscribers :: "'g freertos \<Rightarrow> SystemEventType \<Rightarrow> 64 word \<Rightarrow> byte list \<Rightarrow> 'g sysev \<Rightarrow> 'g sysev option" where
  "notify_poll_subscribers os ty ts src s = notify_from os ty ts src (poll_subscriptions s) s"

text \<open>\<open>ts\<close> is the clock reading, \<open>src\<close> the payload.\<close>

definition system_event_emit :: "'g freertos \<Rightarrow> 'g callbacks \<Rightarrow> bool \<Rightarrow> SystemEventType \<Rightarrow> 64 word \<Rightarrow> byte list \<Rightarrow> 'g sysev
    \<Rightarrow> (error_t \<times> 'g sysev) option" where
  "system_event_emit os env mem_ok ty ts src s = do {
     let ev = \<lparr>ev_type = ty, ev_timestamp = ts,
               ev_data = copy_data src (replicate SYSTEM_EVENT_MAX_DATA_SIZE 0),
               ev_data_len = min (length src) SYSTEM_EVENT_MAX_DATA_SIZE\<rparr>;
     s \<leftarrow> notify_poll_subscribers os ty ts src s;
     (e, s) \<leftarrow> notify_listeners env mem_ok ev s;
     if e \<noteq> ERROR_NONE then Some (e, s) else Some (ERROR_NONE, s)
   }"

definition system_event_subscribe :: "'g freertos \<Rightarrow> nat \<Rightarrow> nat \<Rightarrow> 'g sysev \<Rightarrow> error_t \<times> 'g sysev" where
  "system_event_subscribe os sub eg s =
     (case task_event_group_claim_bit (groups s eg) of
        (e, b, g) \<Rightarrow>
          if e \<noteq> ERROR_NONE then (e, s)
          else let s = upd_group eg (\<lambda>_. g) s in
            if poll_subscriptions s = Some sub
            then (ERROR_INVALID_STATE, upd_group eg (\<lambda>g. task_event_group_release_bit os g (the b)) s)
            else (ERROR_NONE,
              (upd_node sub (\<lambda>n. n\<lparr>sub_event_group := eg, sub_bit := the b, sequence := 0, consumed_sequence := 0,
                 cancelled := False, sub_event := (sub_event n)\<lparr>ev_data_len := 0\<rparr>,
                 sub_next := poll_subscriptions s\<rparr>) s)\<lparr>poll_subscriptions := Some sub\<rparr>))"

text \<open>
  The search for the link that holds \<open>sub\<close>: \<open>None\<close> is the head's own link, \<open>Some a\<close> the \<open>next\<close> of
  node \<open>a\<close>. The result is the link, or that the list ended.
\<close>

definition follow :: "nat option \<Rightarrow> 'g sysev \<Rightarrow> nat option" where
  "follow link s = (case link of None \<Rightarrow> poll_subscriptions s | Some a \<Rightarrow> sub_next (nodes s a))"

definition set_link :: "nat option \<Rightarrow> nat option \<Rightarrow> 'g sysev \<Rightarrow> 'g sysev" where
  "set_link link p s = (case link of None \<Rightarrow> s\<lparr>poll_subscriptions := p\<rparr> | Some a \<Rightarrow> upd_node a (\<lambda>n. n\<lparr>sub_next := p\<rparr>) s)"

partial_function (option) find_link :: "nat \<Rightarrow> nat option \<Rightarrow> 'g sysev \<Rightarrow> nat option option option" where
  "find_link sub link s =
     (case follow link s of
        None \<Rightarrow> Some None
      | Some a \<Rightarrow> if a = sub then Some (Some link) else find_link sub (Some a) s)"

definition system_event_unsubscribe :: "'g freertos \<Rightarrow> nat \<Rightarrow> 'g sysev \<Rightarrow> (error_t \<times> 'g sysev) option" where
  "system_event_unsubscribe os sub s = do {
     found \<leftarrow> find_link sub None s;
     (case found of
        None \<Rightarrow> Some (ERROR_NOT_FOUND, s)
      | Some link \<Rightarrow>
          let s = set_link link (sub_next (nodes s sub)) s;
              s = upd_node sub (\<lambda>n. n\<lparr>cancelled := True\<rparr>) s;
              b = sub_bit (nodes s sub)
          in Some (ERROR_NONE, upd_group (sub_event_group (nodes s sub))
               (\<lambda>g. task_event_group_release_bit os (snd (task_event_group_signal os g b)) b) s))
   }"

definition system_event_poll :: "nat \<Rightarrow> 'g sysev \<Rightarrow> error_t \<times> 'g sysev" where
  "system_event_poll sub s =
     (let n = nodes s sub in
      if sequence n \<noteq> consumed_sequence n
      then (ERROR_NONE, upd_node sub (\<lambda>n. n\<lparr>consumed_sequence := sequence n\<rparr>) s)
      else if cancelled n then (ERROR_INVALID_STATE, s) else (ERROR_TIMEOUT, s))"

text \<open>The bytes written to the caller's buffer of \<open>data_len\<close> bytes, when it is large enough.\<close>

definition system_event_get_data :: "nat \<Rightarrow> nat \<Rightarrow> 'g sysev \<Rightarrow> error_t \<times> byte list option" where
  "system_event_get_data sub data_len s =
     (let ev = sub_event (nodes s sub) in
      if data_len < ev_data_len ev then (ERROR_BUFFER_OVERFLOW, None)
      else (ERROR_NONE, Some (take (ev_data_len ev) (ev_data ev))))"

section \<open>The list of subscriptions\<close>

text \<open>The nodes met from a link to the end of the list.\<close>

fun chain :: "nat option \<Rightarrow> nat list \<Rightarrow> (nat \<Rightarrow> nat option) \<Rightarrow> bool" where
  "chain p [] nx = (p = None)"
| "chain p (a # as) nx = (p = Some a \<and> chain (nx a) as nx)"

abbreviation nexts :: "'g sysev \<Rightarrow> nat \<Rightarrow> nat option" where
  "nexts s \<equiv> \<lambda>a. sub_next (nodes s a)"

definition subscribed :: "nat list \<Rightarrow> 'g sysev \<Rightarrow> bool" where
  "subscribed as s \<longleftrightarrow> chain (poll_subscriptions s) as (nexts s)"

lemma chain_unique: "chain p as nx \<Longrightarrow> chain p bs nx \<Longrightarrow> as = bs"
proof (induction as arbitrary: p bs)
  case Nil
  then show ?case by (cases bs) auto
next
  case (Cons a as)
  then show ?case by (cases bs) auto
qed

lemma chain_append: "chain p (as @ b # bs) nx \<Longrightarrow> chain (nx b) bs nx"
  by (induction as arbitrary: p) auto

lemma chain_distinct: "chain p as nx \<Longrightarrow> distinct as"
proof (induction as arbitrary: p)
  case (Cons a as)
  have "a \<notin> set as"
  proof
    assume "a \<in> set as"
    then obtain xs ys where as: "as = xs @ a # ys" by (auto simp: in_set_conv_decomp)
    from Cons.prems have "chain (nx a) as nx" by simp
    moreover from this have "chain (nx a) ys nx" unfolding as by (rule chain_append)
    ultimately have "as = ys" by (rule chain_unique)
    then show False by (simp add: as)
  qed
  moreover have "distinct as" using Cons.IH [of "nx a"] Cons.prems by simp
  ultimately show ?case by simp
qed simp

lemma chain_cong: "chain p as nx \<Longrightarrow> (\<And>a. a \<in> set as \<Longrightarrow> nx' a = nx a) \<Longrightarrow> chain p as nx'"
  by (induction as arbitrary: p) auto

lemma upd_node_sel [simp]:
  "nodes (upd_node a f s) = (nodes s)(a := f (nodes s a))" "subscriptions (upd_node a f s) = subscriptions s"
  "poll_subscriptions (upd_node a f s) = poll_subscriptions s" "groups (upd_node a f s) = groups s"
  "nodes (upd_group g h s) = nodes s" "subscriptions (upd_group g h s) = subscriptions s"
  "poll_subscriptions (upd_group g h s) = poll_subscriptions s" "groups (upd_group g h s) = (groups s)(g := h (groups s g))"
  by (simp_all add: upd_node_def upd_group_def)

section \<open>Notification\<close>

text \<open>What a notification does to a node of the right type.\<close>

definition notified :: "64 word \<Rightarrow> byte list \<Rightarrow> SystemEventSubscription \<Rightarrow> SystemEventSubscription" where
  "notified ts src n = n\<lparr>sub_event := (sub_event n)\<lparr>ev_timestamp := ts, ev_data := copy_data src (ev_data (sub_event n)),
      ev_data_len := min (length src) SYSTEM_EVENT_MAX_DATA_SIZE\<rparr>, sequence := sequence n + 1\<rparr>"

lemma notify_node_nodes:
  "nodes (notify_node os ty ts src a s) =
     (nodes s)(a := if ev_type (sub_event (nodes s a)) = ty then notified ts src (nodes s a) else nodes s a)"
  by (simp add: notify_node_def notified_def Let_def)

lemma notify_node_sel [simp]:
  "nexts (notify_node os ty ts src a s) = nexts s"
  "poll_subscriptions (notify_node os ty ts src a s) = poll_subscriptions s"
  "subscriptions (notify_node os ty ts src a s) = subscriptions s"
  by (auto simp: notify_node_nodes notified_def fun_eq_iff) (simp_all add: notify_node_def Let_def)

lemma notify_from_chain:
  assumes "chain p as (nexts s)"
  shows "notify_from os ty ts src p s = Some (fold (notify_node os ty ts src) as s)"
  using assms
proof (induction as arbitrary: p s)
  case Nil
  then show ?case by (simp add: notify_from.simps)
next
  case (Cons a as)
  let ?t = "notify_node os ty ts src a s"
  have eq: "sub_next (nodes ?t a) = sub_next (nodes s a)" using fun_cong [OF notify_node_sel(1)] .
  with Cons.prems have "chain (sub_next (nodes ?t a)) as (nexts ?t)" by (simp only: notify_node_sel chain.simps)
  from Cons.IH [OF this] Cons.prems show ?case by (simp add: notify_from.simps [of _ _ _ _ "Some a"] Let_def)
qed

lemma fold_notify_nodes:
  assumes "distinct as"
  shows "nodes (fold (notify_node os ty ts src) as s) =
           (\<lambda>a. if a \<in> set as \<and> ev_type (sub_event (nodes s a)) = ty then notified ts src (nodes s a) else nodes s a)"
  using assms
  by (induction as arbitrary: s) (auto simp: notify_node_nodes fun_eq_iff notified_def)

lemma fold_notify_sel [simp]:
  "nexts (fold (notify_node os ty ts src) as s) = nexts s"
  "poll_subscriptions (fold (notify_node os ty ts src) as s) = poll_subscriptions s"
  "subscriptions (fold (notify_node os ty ts src) as s) = subscriptions s"
  by (induction as arbitrary: s) simp_all

lemma notify_subscribed:
  assumes "subscribed as s"
  obtains s' where "notify_poll_subscribers os ty ts src s = Some s'" "subscribed as s'"
    "nodes s' = (\<lambda>a. if a \<in> set as \<and> ev_type (sub_event (nodes s a)) = ty then notified ts src (nodes s a) else nodes s a)"
proof (rule that)
  let ?s = "fold (notify_node os ty ts src) as s"
  show "notify_poll_subscribers os ty ts src s = Some ?s"
    using assms notify_from_chain by (auto simp: notify_poll_subscribers_def subscribed_def)
  show "subscribed as ?s" using assms by (simp add: subscribed_def)
  show "nodes ?s = (\<lambda>a. if a \<in> set as \<and> ev_type (sub_event (nodes s a)) = ty then notified ts src (nodes s a) else nodes s a)"
    using assms chain_distinct by (intro fold_notify_nodes) (auto simp: subscribed_def)
qed

text \<open>
  poll subscriptions coalesce to the latest event. When the list of subscriptions is well
  formed, notifying terminates; a subscriber of the type that had nothing pending and is notified
  twice sees one event, the second, with its payload cut to the size of the buffer, and then
  nothing until the next notification. Subscribers of other types see nothing.
\<close>

theorem poll_sees_latest_event:
  assumes "subscribed as s" and "a \<in> set as" "ev_type (sub_event (nodes s a)) = ty" "sequence (nodes s a) = consumed_sequence (nodes s a)"
    and "\<not> cancelled (nodes s a)" and "ev_type (sub_event (nodes s b)) \<noteq> ty"
  shows "\<exists>s1 s2 s3. notify_poll_subscribers os ty t1 d1 s = Some s1 \<and> notify_poll_subscribers os ty t2 d2 s1 = Some s2 \<and>
           system_event_poll a s2 = (ERROR_NONE, s3) \<and> system_event_poll a s3 = (ERROR_TIMEOUT, s3) \<and>
           system_event_get_data a SYSTEM_EVENT_MAX_DATA_SIZE s3 = (ERROR_NONE, Some (take SYSTEM_EVENT_MAX_DATA_SIZE d2)) \<and>
           nodes s3 b = nodes s b"
proof -
  obtain s1 where s1: "notify_poll_subscribers os ty t1 d1 s = Some s1" "subscribed as s1"
    "nodes s1 = (\<lambda>a. if a \<in> set as \<and> ev_type (sub_event (nodes s a)) = ty then notified t1 d1 (nodes s a) else nodes s a)"
    by (rule notify_subscribed [OF assms(1)])
  obtain s2 where s2: "notify_poll_subscribers os ty t2 d2 s1 = Some s2"
    "nodes s2 = (\<lambda>a. if a \<in> set as \<and> ev_type (sub_event (nodes s1 a)) = ty then notified t2 d2 (nodes s1 a) else nodes s1 a)"
    by (rule notify_subscribed [OF s1(2)])
  let ?s3 = "upd_node a (\<lambda>n. n\<lparr>consumed_sequence := sequence n\<rparr>) s2"
  have na: "nodes s2 a = notified t2 d2 (notified t1 d1 (nodes s a))"
    using assms(2,3) by (simp add: s2(2) s1(3) notified_def)
  have nb: "nodes s2 b = nodes s b" "b \<noteq> a" using assms(3,6) by (auto simp: s2(2) s1(3))
  have "sequence (nodes s a) + 1 + 1 \<noteq> sequence (nodes s a)" by (simp add: add.assoc)
  then have "system_event_poll a s2 = (ERROR_NONE, ?s3)"
    using assms(4) by (simp add: system_event_poll_def na notified_def)
  moreover have "system_event_poll a ?s3 = (ERROR_TIMEOUT, ?s3)"
    using assms(5) by (simp add: system_event_poll_def na notified_def)
  moreover have "system_event_get_data a SYSTEM_EVENT_MAX_DATA_SIZE ?s3 = (ERROR_NONE, Some (take SYSTEM_EVENT_MAX_DATA_SIZE d2))"
    by (auto simp: system_event_get_data_def na notified_def copy_data_def Let_def min_def)
  ultimately show ?thesis using s1(1) s2(1) nb by auto
qed

section \<open>Subscribing and unsubscribing\<close>

text \<open>Taking a node out of the list, through the link that holds it.\<close>

lemma find_link_chain:
  assumes "chain (follow link s) (as @ sub # bs) (nexts s)" and "sub \<notin> set as"
  shows "find_link sub link s = Some (Some (if as = [] then link else Some (last as)))"
  using assms
proof (induction as arbitrary: link)
  case Nil
  then show ?case by (simp add: find_link.simps [of sub link])
next
  case (Cons a as)
  have "chain (follow (Some a) s) (as @ sub # bs) (nexts s)" using Cons.prems by (simp add: follow_def)
  from Cons.IH [OF this] Cons.prems show ?case by (simp add: find_link.simps [of sub link])
qed

lemma find_link_absent:
  assumes "chain (follow link s) as (nexts s)" and "sub \<notin> set as"
  shows "find_link sub link s = Some None"
  using assms
proof (induction as arbitrary: link)
  case Nil
  then show ?case by (simp add: find_link.simps [of sub link])
next
  case (Cons a as)
  have "chain (follow (Some a) s) as (nexts s)" using Cons.prems by (simp add: follow_def)
  from Cons.IH [OF this] Cons.prems show ?case by (simp add: find_link.simps [of sub link])
qed

lemma chain_relink:
  assumes "chain p (zs @ z # sub # ys) nx" and "distinct (zs @ z # sub # ys)"
  shows "chain p (zs @ z # ys) (nx(z := nx sub))"
  using assms
proof (induction zs arbitrary: p)
  case Nil
  then show ?case by (auto intro: chain_cong)
next
  case (Cons a zs)
  then show ?case by auto
qed

lemma chain_next_in:
  "chain p (as @ b # bs) nx \<Longrightarrow> x \<in> set as \<Longrightarrow> \<exists>y\<in>set (as @ [b]). nx x = Some y"
proof (induction as arbitrary: p)
  case (Cons a as)
  show ?case
  proof (cases "x = a")
    case True
    with Cons.prems show ?thesis by (cases as) auto
  next
    case False
    with Cons show ?thesis by auto
  qed
qed simp

lemma unlink_subscribed:
  assumes "subscribed (xs @ sub # ys) s"
  shows "find_link sub None s = Some (Some (if xs = [] then None else Some (last xs)))"
    and "subscribed (xs @ ys) (set_link (if xs = [] then None else Some (last xs)) (sub_next (nodes s sub)) s)"
proof -
  have ch: "chain (poll_subscriptions s) (xs @ sub # ys) (nexts s)" using assms by (simp add: subscribed_def)
  note dist = chain_distinct [OF ch]
  show "find_link sub None s = Some (Some (if xs = [] then None else Some (last xs)))"
    using ch dist by (intro find_link_chain [where bs = ys]) (auto simp: follow_def)
  show "subscribed (xs @ ys) (set_link (if xs = [] then None else Some (last xs)) (sub_next (nodes s sub)) s)"
  proof (cases xs rule: rev_cases)
    case Nil
    with ch show ?thesis by (simp add: subscribed_def set_link_def)
  next
    case (snoc zs z)
    have "(\<lambda>a. sub_next (((nodes s)(z := (nodes s z)\<lparr>sub_next := sub_next (nodes s sub)\<rparr>)) a)) =
        (nexts s)(z := nexts s sub)" by (auto simp: fun_eq_iff)
    with chain_relink [of _ zs z sub ys] ch dist snoc show ?thesis by (simp add: subscribed_def set_link_def)
  qed
qed

lemma subscribed_nodes:
  "subscribed as s \<Longrightarrow> poll_subscriptions s' = poll_subscriptions s \<Longrightarrow> nexts s' = nexts s \<Longrightarrow> subscribed as s'"
  by (simp add: subscribed_def)

lemma subscribe_ok:
  assumes "\<not> (\<forall>i<24. claimed (groups s eg) i)" and "poll_subscriptions s \<noteq> Some sub"
  shows "\<exists>s1 n. system_event_subscribe os sub eg s = (ERROR_NONE, s1) \<and> poll_subscriptions s1 = Some sub \<and>
    nodes s1 = (nodes s)(sub := n) \<and> sub_next n = poll_subscriptions s \<and> sequence n = 0 \<and> consumed_sequence n = 0 \<and>
    \<not> cancelled n"
proof (cases "groups s eg" rule: claim_bit_cases)
  case none
  with assms(1) show ?thesis by blast
next
  case (some i)
  with assms(2) show ?thesis by (auto simp: system_event_subscribe_def Let_def)
qed

text \<open>
  the list of poll subscriptions stays well formed. Subscribing a node that is not on it, when
  the group has a free bit, puts it in front with nothing pending; unsubscribing removes exactly that
  node, wherever it is in the list, gives its bit back, and a later poll of it reports
  \<open>ERROR_INVALID_STATE\<close>; unsubscribing a node that is not on the list changes nothing.
\<close>

theorem subscriptions_wellformed:
  assumes "subscribed as s" and "sub \<notin> set as" and "\<not> (\<forall>i<24. claimed (groups s eg) i)"
  shows "system_event_unsubscribe os sub s = Some (ERROR_NOT_FOUND, s) \<and>
         (\<exists>s1. system_event_subscribe os sub eg s = (ERROR_NONE, s1) \<and> subscribed (sub # as) s1 \<and>
            system_event_poll sub s1 = (ERROR_TIMEOUT, s1)) \<and>
         (\<forall>x xs ys. as = xs @ x # ys \<longrightarrow> (\<exists>s1. system_event_unsubscribe os x s = Some (ERROR_NONE, s1) \<and>
            subscribed (xs @ ys) s1 \<and> claimed_bits (groups s1 (sub_event_group (nodes s x))) AND sub_bit (nodes s x) = 0 \<and>
            (sequence (nodes s x) = consumed_sequence (nodes s x) \<longrightarrow> system_event_poll x s1 = (ERROR_INVALID_STATE, s1))))"
proof (intro conjI allI impI)
  show "system_event_unsubscribe os sub s = Some (ERROR_NOT_FOUND, s)"
    using find_link_absent [of None s as sub] assms(1,2)
    by (simp add: system_event_unsubscribe_def subscribed_def follow_def)
next
  have head: "poll_subscriptions s \<noteq> Some sub" using assms(1,2) by (cases as) (auto simp: subscribed_def)
  obtain s1 n where run: "system_event_subscribe os sub eg s = (ERROR_NONE, s1)" "poll_subscriptions s1 = Some sub"
    "nodes s1 = (nodes s)(sub := n)" "sub_next n = poll_subscriptions s" "sequence n = 0" "consumed_sequence n = 0"
    "\<not> cancelled n"
    using subscribe_ok [OF assms(3) head] by blast
  have same: "nexts s1 a = nexts s a" if "a \<in> set as" for a
    using that assms(2) by (auto simp: run(3))
  have "chain (poll_subscriptions s) as (nexts s1)"
    by (rule chain_cong [OF assms(1) [unfolded subscribed_def] same])
  moreover have "nexts s1 sub = poll_subscriptions s" by (simp add: run(3,4))
  ultimately have "subscribed (sub # as) s1" unfolding subscribed_def run(2) chain.simps by simp
  moreover have "system_event_poll sub s1 = (ERROR_TIMEOUT, s1)"
    using run(3,5-7) by (simp add: system_event_poll_def)
  ultimately show "\<exists>s1. system_event_subscribe os sub eg s = (ERROR_NONE, s1) \<and> subscribed (sub # as) s1 \<and>
      system_event_poll sub s1 = (ERROR_TIMEOUT, s1)"
    using run(1) by blast
next
  fix x xs ys assume as: "as = xs @ x # ys"
  let ?l = "if xs = [] then None else Some (last xs)"
  let ?t = "set_link ?l (sub_next (nodes s x)) s"
  note un = unlink_subscribed [of xs x ys s]
  have dist: "distinct (xs @ x # ys)"
    using chain_distinct [OF assms(1) [unfolded subscribed_def]] unfolding as .
  then have node: "nodes ?t x = nodes s x" "groups ?t = groups s" by (cases xs rule: rev_cases; simp add: set_link_def)+
  let ?u = "upd_node x (\<lambda>n. n\<lparr>cancelled := True\<rparr>) ?t"
  let ?b = "sub_bit (nodes s x)"
  let ?s1 = "upd_group (sub_event_group (nodes s x))
      (\<lambda>g. task_event_group_release_bit os (snd (task_event_group_signal os g ?b)) ?b) ?u"
  have run: "system_event_unsubscribe os x s = Some (ERROR_NONE, ?s1)"
    using un(1) assms(1) as node by (simp add: system_event_unsubscribe_def Let_def)
  have "subscribed (xs @ ys) ?s1"
    by (rule subscribed_nodes [OF un(2)]) (use assms(1) as in \<open>auto simp: fun_eq_iff\<close>)
  moreover have "claimed_bits (groups ?s1 (sub_event_group (nodes s x))) AND ?b = 0"
    by (auto simp: task_event_group_release_bit_def and.assoc split: prod.splits)
  moreover have "sequence (nodes s x) = consumed_sequence (nodes s x) \<longrightarrow> system_event_poll x ?s1 = (ERROR_INVALID_STATE, ?s1)"
    using node by (simp add: system_event_poll_def)
  ultimately show "\<exists>s1. system_event_unsubscribe os x s = Some (ERROR_NONE, s1) \<and> subscribed (xs @ ys) s1 \<and>
      claimed_bits (groups s1 (sub_event_group (nodes s x))) AND sub_bit (nodes s x) = 0 \<and>
      (sequence (nodes s x) = consumed_sequence (nodes s x) \<longrightarrow> system_event_poll x s1 = (ERROR_INVALID_STATE, s1))"
    using run by blast
qed

section \<open>Subscribing twice\<close>

lemma notify_from_cycle:
  assumes "notify_from os ty ts src p s = Some s'"
  shows "\<not> (\<exists>a\<in>R. p = Some a \<and> (\<forall>x\<in>R. \<exists>y\<in>R. sub_next (nodes s x) = Some y))"
proof (rule notify_from.raw_induct [OF _ assms, where P = "\<lambda>os ty ts src p s s'.
    \<not> (\<exists>a\<in>R. p = Some a \<and> (\<forall>x\<in>R. \<exists>y\<in>R. sub_next (nodes s x) = Some y))"], rule notI)
  fix notify and os :: "'a freertos" and ty ts src p s s'
  assume IH: "\<And>os ty ts src p s s'. notify os ty ts src p s = Some s' \<Longrightarrow>
      \<not> (\<exists>a\<in>R. p = Some a \<and> (\<forall>x\<in>R. \<exists>y\<in>R. sub_next (nodes s x) = Some y))"
    and body: "(case p of None \<Rightarrow> Some s | Some a \<Rightarrow> let s = notify_node os ty ts src a s in
      notify os ty ts src (sub_next (nodes s a)) s) = Some s'"
    and cyc: "\<exists>a\<in>R. p = Some a \<and> (\<forall>x\<in>R. \<exists>y\<in>R. sub_next (nodes s x) = Some y)"
  from cyc obtain a where a: "a \<in> R" "p = Some a" "\<forall>x\<in>R. \<exists>y\<in>R. sub_next (nodes s x) = Some y" by blast
  have eq: "sub_next (nodes (notify_node os ty ts src a s) x) = sub_next (nodes s x)" for x
    using fun_cong [OF notify_node_sel(1)] .
  let ?t = "notify_node os ty ts src a s"
  from body a(2) have run: "notify os ty ts src (sub_next (nodes ?t a)) ?t = Some s'" by (simp add: Let_def)
  show False using IH [OF run] a unfolding eq by blast
qed

text \<open>
  a subscription that is registered a second time while another one has become the head of the
  list is accepted with \<open>ERROR_NONE\<close> and makes the list cyclic: from then on emitting any event
  never returns. (Only registering the head again is caught.)
\<close>

theorem double_subscribe_hangs_emit:
  assumes "subscribed (a # xs @ sub # ys) s" and "\<not> (\<forall>i<24. claimed (groups s eg) i)"
  shows "\<exists>s1. system_event_subscribe os sub eg s = (ERROR_NONE, s1) \<and> system_event_emit os env mem_ok ty ts src s1 = None"
proof -
  have ch: "chain (poll_subscriptions s) (a # xs @ sub # ys) (nexts s)" using assms(1) by (simp add: subscribed_def)
  have dist: "distinct (a # xs @ sub # ys)" by (rule chain_distinct [OF ch])
  have head: "poll_subscriptions s = Some a" "a \<noteq> sub" using ch dist by auto
  obtain s1 n where run: "system_event_subscribe os sub eg s = (ERROR_NONE, s1)" "poll_subscriptions s1 = Some sub"
    "nodes s1 = (nodes s)(sub := n)" "sub_next n = Some a"
    using subscribe_ok [OF assms(2), of sub os] head by auto
  have step: "\<exists>y\<in>set (a # xs @ [sub]). sub_next (nodes s x) = Some y" if "x \<in> set (a # xs)" for x
    using chain_next_in [of _ "a # xs" sub ys "nexts s" x] ch that by auto
  have cyc: "\<exists>y\<in>set (a # xs @ [sub]). sub_next (nodes s1 x) = Some y" if "x \<in> set (a # xs @ [sub])" for x
  proof (cases "x = sub")
    case True
    with run(4) show ?thesis by (simp add: run(3))
  next
    case False
    with that step [of x] show ?thesis by (simp add: run(3))
  qed
  have "notify_poll_subscribers os ty ts src s1 = None"
  proof (rule ccontr)
    assume "notify_poll_subscribers os ty ts src s1 \<noteq> None"
    then obtain s' where "notify_from os ty ts src (Some sub) s1 = Some s'"
      using run(2) by (auto simp: notify_poll_subscribers_def)
    from notify_from_cycle [OF this, of "set (a # xs @ [sub])"] cyc show False by auto
  qed
  then have "system_event_emit os env mem_ok ty ts src s1 = None" by (simp add: system_event_emit_def Let_def)
  with run(1) show ?thesis by blast
qed

section \<open>A concrete list\<close>

text \<open>Nodes 3, 2 and 1 are subscribed, in this order, to changes of the time; node 9 is not subscribed.\<close>

definition demo_subs :: "32 word sysev" where
  "demo_subs = \<lparr>subscriptions = [], poll_subscriptions = Some 3,
     nodes = (\<lambda>a. \<lparr>sub_event = \<lparr>ev_type = (if a \<le> 3 then KERNEL_EVENT_TIME_CHANGED else KERNEL_EVENT_BOOT_COMPLETED),
          ev_timestamp = 0, ev_data = replicate 12 0, ev_data_len = 0\<rparr>, sub_bit = 2 ^ a, sub_event_group = 0, sequence = 0,
          consumed_sequence = 0, cancelled = False, sub_next = (if a = 3 then Some 2 else if a = 2 then Some 1 else None)\<rparr>),
     groups = (\<lambda>_. \<lparr>handle = 0, claimed_bits = 14\<rparr>)\<rparr>"

lemma demo_subs_facts:
  "subscribed [3, 2, 1] demo_subs"
  "\<not> (\<forall>i<24. claimed (groups demo_subs eg) i)"
proof -
  show "subscribed [3, 2, 1] demo_subs" by (simp add: subscribed_def demo_subs_def)
  have "\<not> claimed (groups demo_subs eg) 0" by (simp add: demo_subs_def)
  then show "\<not> (\<forall>i<24. claimed (groups demo_subs eg) i)" by (auto intro!: exI [of _ 0])
qed

theorem poll_sees_latest_event_witness:
  "\<exists>s1 s2 s3. notify_poll_subscribers plain_freertos KERNEL_EVENT_TIME_CHANGED 5 [1] demo_subs = Some s1 \<and>
     notify_poll_subscribers plain_freertos KERNEL_EVENT_TIME_CHANGED 6 [7, 8] s1 = Some s2 \<and>
     system_event_poll 2 s2 = (ERROR_NONE, s3) \<and> snd (system_event_get_data 2 12 s3) = Some [7, 8]"
proof -
  have n: "ev_type (sub_event (nodes demo_subs 2)) = KERNEL_EVENT_TIME_CHANGED"
    "sequence (nodes demo_subs 2) = consumed_sequence (nodes demo_subs 2)" "\<not> cancelled (nodes demo_subs 2)"
    "ev_type (sub_event (nodes demo_subs 9)) \<noteq> KERNEL_EVENT_TIME_CHANGED"
    by (simp_all add: demo_subs_def)
  have "2 \<in> set [3, 2, 1 :: nat]" by simp
  from poll_sees_latest_event [OF demo_subs_facts(1) this n, of plain_freertos 5 "[1]" 6 "[7, 8]"]
  obtain s1 s2 s3 where s: "notify_poll_subscribers plain_freertos KERNEL_EVENT_TIME_CHANGED 5 [1] demo_subs = Some s1"
    "notify_poll_subscribers plain_freertos KERNEL_EVENT_TIME_CHANGED 6 [7, 8] s1 = Some s2"
    "system_event_poll 2 s2 = (ERROR_NONE, s3)"
    "system_event_get_data 2 SYSTEM_EVENT_MAX_DATA_SIZE s3 = (ERROR_NONE, Some (take SYSTEM_EVENT_MAX_DATA_SIZE [7, 8]))"
    by blast
  have "snd (system_event_get_data 2 12 s3) = Some [7, 8]"
    using s(4) by (simp add: SYSTEM_EVENT_MAX_DATA_SIZE_def)
  with s(1-3) show ?thesis by blast
qed

theorem subscriptions_wellformed_witness:
  "\<exists>s1. system_event_unsubscribe plain_freertos 2 demo_subs = Some (ERROR_NONE, s1) \<and> subscribed [3, 1] s1"
proof -
  have "[3, 2, 1] = [3] @ 2 # [1 :: nat]" by simp
  moreover have "9 \<notin> set [3, 2, 1 :: nat]" by simp
  from subscriptions_wellformed [OF demo_subs_facts(1) this demo_subs_facts(2), of plain_freertos 0]
  have "\<forall>x xs ys. [3, 2, 1] = xs @ x # ys \<longrightarrow> (\<exists>s1. system_event_unsubscribe plain_freertos x demo_subs = Some (ERROR_NONE, s1) \<and>
      subscribed (xs @ ys) s1)" by blast
  ultimately obtain s1 where "system_event_unsubscribe plain_freertos 2 demo_subs = Some (ERROR_NONE, s1)" "subscribed ([3] @ [1]) s1"
    by blast
  then show ?thesis by auto
qed

theorem double_subscribe_hangs_emit_witness:
  "\<exists>s1. system_event_subscribe plain_freertos 1 0 demo_subs = (ERROR_NONE, s1) \<and>
     system_event_emit plain_freertos (\<lambda>cb ev c s. Some (ev, s)) True KERNEL_EVENT_BOOT_COMPLETED 0 [] s1 = None"
  using double_subscribe_hangs_emit [of 3 "[2]" 1 "[]" demo_subs 0] demo_subs_facts by simp

end
