(* ===== verification/Service_Manager.thy ===== *)
theory Service_Manager
  imports Kernel_Error System_Event
begin

text \<open>
  \<open>Modules/service-module/source/manager.cpp\<close> and \<open>instance.cpp\<close>: the registry of services and the life
  of their instances. Instances live in a heap; reading, writing or freeing an address where none
  lives, or following its null \<open>internal\<close> pointer, is \<open>None\<close>. The callbacks of a service may call the
  manager again: they are functions on the state, but \<open>create_service\<close>, which runs with the ledger
  locked and only gives the data pointer. Which allocations succeed is a list in the state, all do
  once it is used up. A call runs to its end before another thread's call begins. System events are
  recorded; their delivery is the subject of \<open>System_Event\<close>.
\<close>

section \<open>Data\<close>

record ServiceManifest =
  sm_id :: string
  create_service :: fn
  destroy_service :: fn
  sm_on_start :: "fn option"
  sm_on_stop :: "fn option"

datatype ServiceState = SERVICE_STATE_STARTING | SERVICE_STATE_STARTED | SERVICE_STATE_STOPPING | SERVICE_STATE_STOPPED

record ServiceInstance =
  si_manifest :: "ServiceManifest option"
  si_data :: "ptr option"
  si_internal :: "ServiceState option"     \<comment> \<open>\<open>internal\<close> and the state it points to\<close>

record services =
  manifests :: "string \<rightharpoonup> ServiceManifest"
  instances :: "string \<rightharpoonup> ptr"
  heap :: "ptr \<rightharpoonup> ServiceInstance"
  next_address :: ptr
  memory :: "bool list"
  emitted :: "(SystemEventType \<times> string) list"

text \<open>The code at an address: what it does when it is called as one of the four callbacks.\<close>

record service_env =
  run_create :: "fn \<Rightarrow> ServiceManifest \<Rightarrow> ptr option"
  run_destroy :: "fn \<Rightarrow> ServiceManifest \<Rightarrow> ptr option \<Rightarrow> services \<Rightarrow> services option"
  run_start :: "fn \<Rightarrow> ptr \<Rightarrow> ptr option \<Rightarrow> services \<Rightarrow> (error_t \<times> services) option"
  run_stop :: "fn \<Rightarrow> ptr \<Rightarrow> ptr option \<Rightarrow> services \<Rightarrow> services option"

section \<open>Instances\<close>

definition take_memory :: "services \<Rightarrow> bool \<times> services" where
  "take_memory s = (memory s = [] \<or> hd (memory s), s\<lparr>memory := tl (memory s)\<rparr>)"

definition service_instance_construct :: "service_env \<Rightarrow> ptr \<Rightarrow> ServiceManifest \<Rightarrow> services \<Rightarrow> (error_t \<times> services) option" where
  "service_instance_construct env p m s = do {
     i \<leftarrow> heap s p;
     (case take_memory s of (ok, s) \<Rightarrow>
        if \<not> ok then Some (ERROR_OUT_OF_MEMORY, s)
        else Some (ERROR_NONE, s\<lparr>heap := (heap s)(p \<mapsto> i\<lparr>si_manifest := Some m, si_data := run_create env (create_service m) m,
               si_internal := Some SERVICE_STATE_STOPPED\<rparr>)\<rparr>))
   }"

definition service_instance_destruct :: "service_env \<Rightarrow> ptr \<Rightarrow> services \<Rightarrow> (error_t \<times> services) option" where
  "service_instance_destruct env p s = do {
     i \<leftarrow> heap s p;
     st \<leftarrow> si_internal i;
     if st \<noteq> SERVICE_STATE_STOPPED then Some (ERROR_INVALID_STATE, s) else do {
     m \<leftarrow> si_manifest i;
     s \<leftarrow> run_destroy env (destroy_service m) m (si_data i) s;
     i \<leftarrow> heap s p;
     Some (ERROR_NONE, s\<lparr>heap := (heap s)(p \<mapsto> i\<lparr>si_data := None, si_internal := None\<rparr>)\<rparr>) }
   }"

definition service_instance_get_manifest :: "ptr \<Rightarrow> services \<Rightarrow> ServiceManifest option option" where
  "service_instance_get_manifest p s = map_option si_manifest (heap s p)"

definition service_instance_get_data :: "ptr \<Rightarrow> services \<Rightarrow> ptr option option" where
  "service_instance_get_data p s = map_option si_data (heap s p)"

definition service_instance_get_state :: "ptr \<Rightarrow> services \<Rightarrow> ServiceState option" where
  "service_instance_get_state p s = do { i \<leftarrow> heap s p; si_internal i }"

definition service_instance_set_state :: "ptr \<Rightarrow> ServiceState \<Rightarrow> services \<Rightarrow> services option" where
  "service_instance_set_state p st s = do {
     i \<leftarrow> heap s p;
     _ \<leftarrow> si_internal i;
     Some (s\<lparr>heap := (heap s)(p \<mapsto> i\<lparr>si_internal := Some st\<rparr>)\<rparr>)
   }"

section \<open>The manager\<close>

definition delete_instance :: "ptr \<Rightarrow> services \<Rightarrow> services option" where
  "delete_instance p s = (if heap s p = None then None else Some (s\<lparr>heap := (heap s)(p := None)\<rparr>))"

text \<open>A new instance, not constructed yet.\<close>

definition new_instance :: "services \<Rightarrow> ptr option \<times> services" where
  "new_instance s = (case take_memory s of (ok, s) \<Rightarrow>
     if \<not> ok then (None, s)
     else let p = next_address s in
       (Some p, s\<lparr>heap := (heap s)(p \<mapsto> \<lparr>si_manifest = None, si_data = None, si_internal = None\<rparr>), next_address := p + 1\<rparr>))"

definition emit_event :: "SystemEventType \<Rightarrow> string \<Rightarrow> services \<Rightarrow> services" where
  "emit_event ev sid s = s\<lparr>emitted := emitted s @ [(ev, sid)]\<rparr>"

definition service_manager_start :: "service_env \<Rightarrow> string \<Rightarrow> services \<Rightarrow> (error_t \<times> services) option" where
  "service_manager_start env sid s = (case manifests s sid of
       None \<Rightarrow> Some (ERROR_NOT_FOUND, s)
     | Some m \<Rightarrow>
         if instances s sid \<noteq> None then Some (ERROR_INVALID_STATE, s)
         else (case new_instance s of (None, s) \<Rightarrow> Some (ERROR_OUT_OF_MEMORY, s) | (Some p, s) \<Rightarrow> do {
           (e, s) \<leftarrow> service_instance_construct env p m s;
           if e \<noteq> ERROR_NONE then do { s \<leftarrow> delete_instance p s; Some (e, s) } else do {
           let s = s\<lparr>instances := (instances s)(sid \<mapsto> p)\<rparr>;
           s \<leftarrow> service_instance_set_state p SERVICE_STATE_STARTING s;
           i \<leftarrow> heap s p;
           (e, s) \<leftarrow> (case sm_on_start m of None \<Rightarrow> Some (ERROR_NONE, s) | Some f \<Rightarrow> run_start env f p (si_data i) s);
           if e = ERROR_NONE then do {
             s \<leftarrow> service_instance_set_state p SERVICE_STATE_STARTED s;
             Some (ERROR_NONE, emit_event KERNEL_EVENT_SERVICE_STARTED sid s) }
           else do {
             s \<leftarrow> service_instance_set_state p SERVICE_STATE_STOPPED s;
             let s = s\<lparr>instances := (instances s)(sid := None)\<rparr>;
             (_, s) \<leftarrow> service_instance_destruct env p s;
             s \<leftarrow> delete_instance p s;
             Some (ERROR_RESOURCE, s) } } }))"

definition service_manager_stop :: "service_env \<Rightarrow> string \<Rightarrow> services \<Rightarrow> (error_t \<times> services) option" where
  "service_manager_stop env sid s = (case instances s sid of
       None \<Rightarrow> Some (ERROR_NOT_FOUND, s)
     | Some p \<Rightarrow> do {
         s \<leftarrow> service_instance_set_state p SERVICE_STATE_STOPPING s;
         i \<leftarrow> heap s p;
         m \<leftarrow> si_manifest i;
         s \<leftarrow> (case sm_on_stop m of None \<Rightarrow> Some s | Some f \<Rightarrow> run_stop env f p (si_data i) s);
         s \<leftarrow> service_instance_set_state p SERVICE_STATE_STOPPED s;
         let s = s\<lparr>instances := (instances s)(sid := None)\<rparr>;
         (_, s) \<leftarrow> service_instance_destruct env p s;
         s \<leftarrow> delete_instance p s;
         Some (ERROR_NONE, emit_event KERNEL_EVENT_SERVICE_STOPPED sid s) })"

definition service_manager_get_state :: "string \<Rightarrow> services \<Rightarrow> ServiceState option" where
  "service_manager_get_state sid s = (case instances s sid of
       None \<Rightarrow> Some SERVICE_STATE_STOPPED
     | Some p \<Rightarrow> service_instance_get_state p s)"

definition service_manager_add :: "service_env \<Rightarrow> ServiceManifest \<Rightarrow> bool \<Rightarrow> services \<Rightarrow> (error_t \<times> services) option" where
  "service_manager_add env m auto_start s =
     (if manifests s (sm_id m) \<noteq> None then Some (ERROR_INVALID_ARGUMENT, s)
      else let s = s\<lparr>manifests := (manifests s)(sm_id m \<mapsto> m)\<rparr> in
        if auto_start then service_manager_start env (sm_id m) s else Some (ERROR_NONE, s))"

definition service_manager_remove :: "string \<Rightarrow> services \<Rightarrow> (error_t \<times> services) option" where
  "service_manager_remove sid s = do {
     st \<leftarrow> service_manager_get_state sid s;
     if st \<noteq> SERVICE_STATE_STOPPED then Some (ERROR_INVALID_STATE, s)
     else if manifests s sid = None then Some (ERROR_NOT_FOUND, s)
     else Some (ERROR_NONE, s\<lparr>manifests := (manifests s)(sid := None)\<rparr>)
   }"

definition service_manager_find_manifest :: "string \<Rightarrow> services \<Rightarrow> ServiceManifest option" where
  "service_manager_find_manifest sid s = manifests s sid"

definition service_manager_find_instance :: "string \<Rightarrow> services \<Rightarrow> ptr option" where
  "service_manager_find_instance sid s = instances s sid"

section \<open>The invariant\<close>

text \<open>The entries of the ledger in transition, and the instances that live outside of the ledger.\<close>

definition busy_state :: "ServiceState option \<Rightarrow> bool" where
  "busy_state st \<longleftrightarrow> st = Some SERVICE_STATE_STARTING \<or> st = Some SERVICE_STATE_STOPPING"

definition in_transition :: "services \<Rightarrow> (string \<times> ptr \<times> ServiceInstance) set" where
  "in_transition s = {(sid, p, i). instances s sid = Some p \<and> heap s p = Some i \<and> busy_state (si_internal i)}"

definition loose :: "services \<Rightarrow> (ptr \<times> ServiceInstance) set" where
  "loose s = {(p, i). heap s p = Some i \<and> p \<notin> ran (instances s)}"

definition instance_ok :: "services \<Rightarrow> string \<Rightarrow> ptr \<Rightarrow> bool" where
  "instance_ok s sid p \<longleftrightarrow> (\<exists>i st m. heap s p = Some i \<and> si_internal i = Some st \<and> st \<noteq> SERVICE_STATE_STOPPED \<and>
     si_manifest i = Some m \<and> sm_id m = sid \<and> manifests s sid = Some m)"

definition services_ok :: "services \<Rightarrow> bool" where
  "services_ok s \<longleftrightarrow> (\<forall>sid m. manifests s sid = Some m \<longrightarrow> sm_id m = sid) \<and>
     (\<forall>sid p. instances s sid = Some p \<longrightarrow> instance_ok s sid p) \<and> (\<forall>p. heap s p \<noteq> None \<longrightarrow> p < next_address s)"

definition services_frame :: "services \<Rightarrow> services \<Rightarrow> bool" where
  "services_frame s s' \<longleftrightarrow> in_transition s' = in_transition s \<and> loose s' = loose s"

definition keeps :: "services \<Rightarrow> services \<Rightarrow> bool" where
  "keeps s s' \<longleftrightarrow> services_ok s' \<and> services_frame s s'"

lemma keeps_refl: "services_ok s \<Longrightarrow> keeps s s"
  by (simp add: keeps_def services_frame_def)

lemma keeps_trans: "keeps s t \<Longrightarrow> keeps t u \<Longrightarrow> keeps s u"
  by (simp add: keeps_def services_frame_def)

lemma keeps_ok: "keeps s t \<Longrightarrow> services_ok t"
  by (simp add: keeps_def)

lemma instance_okD:
  assumes "services_ok s" "instances s sid = Some p"
  shows "\<exists>i st m. heap s p = Some i \<and> si_internal i = Some st \<and> st \<noteq> SERVICE_STATE_STOPPED \<and>
     si_manifest i = Some m \<and> sm_id m = sid \<and> manifests s sid = Some m"
  using assms by (simp add: services_ok_def instance_ok_def)

lemma ledger_injective:
  assumes "services_ok s" "instances s sid = Some p" "instances s sid' = Some p"
  shows "sid = sid'"
  using instance_okD [OF assms(1,2)] instance_okD [OF assms(1,3)] by auto

lemma services_same:
  assumes "services_ok s" "heap t = heap s" "instances t = instances s" "manifests t = manifests s" "next_address s \<le> next_address t"
  shows "keeps s t"
proof -
  have "instance_ok t = instance_ok s" by (simp add: instance_ok_def assms fun_eq_iff)
  moreover have "p < next_address t" if "heap s p = Some i" for p i
    using assms(1) that assms(5) by (force simp: services_ok_def)
  ultimately show ?thesis using assms by (auto simp: keeps_def services_frame_def services_ok_def in_transition_def loose_def)
qed

lemma set_state_ok:
  assumes "services_ok s" "instances s sid = Some p" "heap s p = Some i" "st \<noteq> SERVICE_STATE_STOPPED"
  shows "services_ok (s\<lparr>heap := (heap s)(p \<mapsto> i\<lparr>si_internal := Some st\<rparr>)\<rparr>)"
proof -
  let ?t = "s\<lparr>heap := (heap s)(p \<mapsto> i\<lparr>si_internal := Some st\<rparr>)\<rparr>"
  have "instance_ok ?t x q" if "instances s x = Some q" for x q
    using instance_okD [OF assms(1) that] assms(3,4) by (cases "q = p") (auto simp: instance_ok_def)
  then show ?thesis using assms(1,3) by (auto simp: services_ok_def)
qed

lemma set_state_loose:
  assumes "instances s sid = Some p"
  shows "loose (s\<lparr>heap := (heap s)(p \<mapsto> i)\<rparr>) = loose s"
  using assms by (auto simp: loose_def ran_def split: if_splits)

lemma set_state_transition:
  assumes "services_ok s" "instances s sid = Some p" "heap s p = Some i"
  shows "in_transition (s\<lparr>heap := (heap s)(p \<mapsto> j)\<rparr>) =
     (in_transition s - {(sid, p, i)}) \<union> (if busy_state (si_internal j) then {(sid, p, j)} else {})"
proof (rule set_eqI)
  fix x :: "string \<times> ptr \<times> ServiceInstance"
  obtain y q k where x: "x = (y, q, k)" by (cases x) auto
  have "instances s y = Some p \<Longrightarrow> y = sid" using ledger_injective [OF assms(1,2)] by blast
  then show "x \<in> in_transition (s\<lparr>heap := (heap s)(p \<mapsto> j)\<rparr>) \<longleftrightarrow>
      x \<in> (in_transition s - {(sid, p, i)}) \<union> (if busy_state (si_internal j) then {(sid, p, j)} else {})"
    using assms(2,3) by (cases "q = p") (auto simp: x in_transition_def)
qed

lemma leave_ledger:
  fixes s sid p j
  defines "t \<equiv> s\<lparr>heap := (heap s)(p \<mapsto> j), instances := (instances s)(sid := None)\<rparr>"
  assumes "services_ok s" "instances s sid = Some p" "heap s p = Some i" "busy_state (si_internal i)"
  shows "services_ok t" "in_transition t = in_transition s - {(sid, p, i)}" "loose t = insert (p, j) (loose s)"
proof -
  have inj: "instances s y = Some p \<Longrightarrow> y = sid" for y using ledger_injective [OF assms(2,3)] by blast
  have "instance_ok t x q" if "instances t x = Some q" for x q
  proof -
    from that have "instances s x = Some q" "x \<noteq> sid" by (auto simp: t_def split: if_splits)
    moreover from this inj have "q \<noteq> p" by blast
    ultimately show ?thesis using instance_okD [OF assms(2)] by (simp add: instance_ok_def t_def)
  qed
  then show "services_ok t" using assms(2,4) by (auto simp: services_ok_def t_def)
  have "x \<in> in_transition t \<longleftrightarrow> x \<in> in_transition s - {(sid, p, i)}" for x
  proof -
    obtain y q k where x: "x = (y, q, k)" by (cases x) auto
    show ?thesis
    proof (cases "y = sid")
      case True
      then show ?thesis using assms(3,4) by (auto simp: x in_transition_def t_def)
    next
      case False
      with inj have "q = p \<Longrightarrow> instances s y \<noteq> Some q" by blast
      with False show ?thesis by (cases "q = p") (simp_all add: x in_transition_def t_def)
    qed
  qed
  then show "in_transition t = in_transition s - {(sid, p, i)}" by blast
  have "x \<in> loose t \<longleftrightarrow> x \<in> insert (p, j) (loose s)" for x
  proof -
    obtain q k where x: "x = (q, k)" by (cases x) auto
    have r: "q \<in> ran (instances t) \<longleftrightarrow> q \<in> ran (instances s) \<and> q \<noteq> p"
    proof
      assume "q \<in> ran (instances t)"
      then obtain y where "instances s y = Some q" "y \<noteq> sid" by (auto simp: ran_def t_def split: if_splits)
      with inj show "q \<in> ran (instances s) \<and> q \<noteq> p" by (auto simp: ran_def)
    next
      assume "q \<in> ran (instances s) \<and> q \<noteq> p"
      then obtain y where "instances s y = Some q" "q \<noteq> p" by (auto simp: ran_def)
      with assms(3) have "instances t y = Some q" by (auto simp: t_def)
      then show "q \<in> ran (instances t)" by (rule ranI)
    qed
    have "heap t = (heap s)(p \<mapsto> j)" by (simp add: t_def)
    then show ?thesis using r ranI [of "instances s", OF assms(3)] by (cases "q = p") (auto simp: x loose_def)
  qed
  then show "loose t = insert (p, j) (loose s)" by blast
qed

lemma enter_ledger:
  fixes s :: services
  defines "p \<equiv> next_address s"
  assumes ok: "services_ok s" "instances s sid = None" "manifests s sid = Some m"
    and i: "si_internal i = Some SERVICE_STATE_STARTING" "si_manifest i = Some m"
    and t: "heap t = (heap s)(p \<mapsto> i)" "instances t = (instances s)(sid \<mapsto> p)" "manifests t = manifests s" "next_address t = p + 1"
  shows "services_ok t" "in_transition t = insert (sid, p, i) (in_transition s)" "loose t = loose s"
proof -
  have live: "heap s q \<noteq> None \<Longrightarrow> q < p" for q using ok(1) by (simp add: services_ok_def p_def)
  have used: "instances s x = Some q \<Longrightarrow> q \<noteq> p" for x q using instance_okD [OF ok(1), of x q] live [of q] by auto
  have m: "sm_id m = sid" using ok(1,3) by (simp add: services_ok_def)
  have old: "instance_ok t x q" if "instances s x = Some q" for x q
    using instance_okD [OF ok(1) that] used [OF that] by (simp add: instance_ok_def t(1,3))
  have new: "instance_ok t sid p" using i m ok(3) by (simp add: instance_ok_def t(1,3))
  have "q < next_address t" if "heap t q \<noteq> None" for q using live [of q] that by (cases "q = p") (auto simp: t(1,4))
  then show "services_ok t" using ok(1) old new by (auto simp: services_ok_def t(2,3))
  have "x \<in> in_transition t \<longleftrightarrow> x \<in> insert (sid, p, i) (in_transition s)" for x
  proof -
    obtain y q k where x: "x = (y, q, k)" by (cases x) auto
    show ?thesis
    proof (cases "y = sid")
      case True
      then show ?thesis using i ok(2) by (auto simp: x in_transition_def busy_state_def t(1,2))
    next
      case False
      moreover have "q = p \<Longrightarrow> instances s y \<noteq> Some q" using used [of y q] by blast
      ultimately show ?thesis by (cases "q = p") (simp_all add: x in_transition_def t(1,2))
    qed
  qed
  then show "in_transition t = insert (sid, p, i) (in_transition s)" by blast
  have "x \<in> loose t \<longleftrightarrow> x \<in> loose s" for x
  proof -
    obtain q k where x: "x = (q, k)" by (cases x) auto
    have "heap s p = None" using live [of p] by blast
    moreover have "q \<in> ran (instances t) \<longleftrightarrow> q = p \<or> q \<in> ran (instances s)" by (simp add: t(2) ran_map_upd ok(2))
    ultimately show ?thesis by (cases "q = p") (auto simp: x loose_def t(1))
  qed
  then show "loose t = loose s" by blast
qed

section \<open>Callbacks that keep the invariant\<close>

text \<open>
  The contract of the callbacks: from a good state they return, to a good state in which what is in
  transition and what lives outside of the ledger is as before.
\<close>

locale service_callbacks =
  fixes env :: service_env
  assumes run_start: "services_ok s \<Longrightarrow> \<exists>e s'. run_start env f p d s = Some (e, s') \<and> keeps s s'"
    and run_stop: "services_ok s \<Longrightarrow> \<exists>s'. run_stop env f p d s = Some s' \<and> keeps s s'"
    and run_destroy: "services_ok s \<Longrightarrow> \<exists>s'. run_destroy env f m d s = Some s' \<and> keeps s s'"
begin

lemma destruct_delete:
  assumes "services_ok s" "(p, i) \<in> loose s" "si_internal i = Some SERVICE_STATE_STOPPED" "si_manifest i = Some m"
  shows "\<exists>u v. service_instance_destruct env p s = Some (ERROR_NONE, u) \<and> delete_instance p u = Some v \<and>
    services_ok v \<and> in_transition v = in_transition s \<and> loose v = loose s - {(p, i)}"
proof -
  from run_destroy [OF assms(1)] obtain t where t: "run_destroy env (destroy_service m) m (si_data i) s = Some t" "keeps s t" by blast
  then have t': "services_ok t" "in_transition t = in_transition s" "loose t = loose s"
    by (simp_all add: keeps_def services_frame_def)
  have p: "heap s p = Some i" "heap t p = Some i" "p \<notin> ran (instances t)"
    using assms(2) t'(3) by (auto simp: loose_def set_eq_iff)
  let ?v = "t\<lparr>heap := (heap t)(p := None)\<rparr>"
  have "instances t x \<noteq> Some p" for x using p(3) by (auto simp: ran_def)
  then have "instance_ok ?v x q" if "instances t x = Some q" for x q
    using instance_okD [OF t'(1) that] that by (auto simp: instance_ok_def)
  then have "services_ok ?v" using t'(1) by (auto simp: services_ok_def)
  moreover have "in_transition ?v = in_transition t"
    using \<open>\<And>x. instances t x \<noteq> Some p\<close> by (auto simp: in_transition_def split: if_splits)
  moreover have "loose ?v = loose t - {(p, i)}" using p(2) by (auto simp: loose_def split: if_splits)
  moreover have "service_instance_destruct env p s =
      Some (ERROR_NONE, t\<lparr>heap := (heap t)(p \<mapsto> i\<lparr>si_data := None, si_internal := None\<rparr>)\<rparr>)"
    using assms(3,4) p t(1) by (simp add: service_instance_destruct_def)
  ultimately show ?thesis using t' by (simp add: delete_instance_def)
qed

lemma keeps_transition:
  assumes "keeps s t" "(sid, p, i) \<in> in_transition s"
  shows "services_ok t" "instances t sid = Some p" "heap t p = Some i" "busy_state (si_internal i)"
proof -
  have "services_ok t" "(sid, p, i) \<in> in_transition t" using assms by (auto simp: keeps_def services_frame_def)
  then show "services_ok t" "instances t sid = Some p" "heap t p = Some i" "busy_state (si_internal i)"
    by (auto simp: in_transition_def)
qed

text \<open>Taking a stopped instance out of the ledger and deleting it.\<close>

lemma retire:
  assumes "services_ok s" "instances s sid = Some p" "heap s p = Some i" "busy_state (si_internal i)" "si_manifest i = Some m"
    and "s0 = s\<lparr>heap := (heap s)(p \<mapsto> i\<lparr>si_internal := Some SERVICE_STATE_STOPPED\<rparr>), instances := (instances s)(sid := None)\<rparr>"
  shows "\<exists>u v. service_instance_destruct env p s0 = Some (ERROR_NONE, u) \<and> delete_instance p u = Some v \<and>
    services_ok v \<and> in_transition v = in_transition s - {(sid, p, i)} \<and> loose v = loose s"
proof -
  let ?j = "i\<lparr>si_internal := Some SERVICE_STATE_STOPPED\<rparr>"
  note l = leave_ledger [OF assms(1-4), of ?j, folded assms(6)]
  have "(p, ?j) \<in> loose s0" unfolding l(3) by simp
  from destruct_delete [OF l(1) this, of m] assms(5) obtain u v where
    uv: "service_instance_destruct env p s0 = Some (ERROR_NONE, u)" "delete_instance p u = Some v" "services_ok v"
      "in_transition v = in_transition s0" "loose v = loose s0 - {(p, ?j)}" by auto
  have "(p, ?j) \<notin> loose s" using assms(2) by (auto simp: loose_def ran_def)
  with uv l show ?thesis by auto
qed

lemma start_keeps:
  assumes ok: "services_ok s"
  shows "\<exists>e s'. service_manager_start env sid s = Some (e, s') \<and> keeps s s'"
proof -
  define s1 where "s1 = s\<lparr>memory := tl (memory s)\<rparr>"
  define p where "p = next_address s1"
  define s2 where "s2 = s1\<lparr>heap := (heap s1)(p \<mapsto> \<lparr>si_manifest = None, si_data = None, si_internal = None\<rparr>), next_address := p + 1\<rparr>"
  define s3 where "s3 = s2\<lparr>memory := tl (memory s2)\<rparr>"
  have same1: "keeps s s1" unfolding s1_def by (rule services_same [OF ok]) simp_all
  show ?thesis
  proof (cases "manifests s sid")
    case None
    then show ?thesis using keeps_refl [OF ok] by (simp add: service_manager_start_def)
  next
    case (Some m)
    consider "instances s sid \<noteq> None" | "instances s sid = None" "memory s \<noteq> [] \<and> \<not> hd (memory s)"
      | "instances s sid = None" "memory s = [] \<or> hd (memory s)" "memory s2 \<noteq> [] \<and> \<not> hd (memory s2)"
      | "instances s sid = None" "memory s = [] \<or> hd (memory s)" "memory s2 = [] \<or> hd (memory s2)" by blast
    then show ?thesis
    proof cases
      case 1
      then show ?thesis using Some keeps_refl [OF ok] by (simp add: service_manager_start_def)
    next
      case 2
      then show ?thesis using Some same1 by (auto simp: service_manager_start_def new_instance_def take_memory_def s1_def)
    next
      case 3
      let ?t = "s3\<lparr>heap := (heap s3)(p := None)\<rparr>"
      have "heap s1 p = None" using ok unfolding services_ok_def p_def s1_def by force
      then have "heap ?t = heap s1" by (auto simp: s3_def s2_def)
      then have "keeps s1 ?t" by (rule services_same [OF keeps_ok [OF same1]]) (simp_all add: s3_def s2_def p_def)
      with same1 have "keeps s ?t" by (rule keeps_trans)
      moreover have "service_manager_start env sid s = Some (ERROR_OUT_OF_MEMORY, ?t)"
        using 3 Some by (simp add: service_manager_start_def new_instance_def take_memory_def s1_def s2_def s3_def p_def Let_def
            service_instance_construct_def delete_instance_def)
      ultimately show ?thesis by blast
    next
      case 4
      let ?i = "\<lparr>si_manifest = Some m, si_data = run_create env (create_service m) m, si_internal = Some SERVICE_STATE_STARTING\<rparr>"
      define t where "t = s3\<lparr>heap := (heap s3)(p \<mapsto> ?i), instances := (instances s3)(sid \<mapsto> p)\<rparr>"
      have h: "si_internal ?i = Some SERVICE_STATE_STARTING" "si_manifest ?i = Some m" "heap t = (heap s)(next_address s \<mapsto> ?i)"
        "instances t = (instances s)(sid \<mapsto> next_address s)" "manifests t = manifests s" "next_address t = next_address s + 1"
        by (simp_all add: t_def s3_def s2_def s1_def p_def)
      have ps: "next_address s = p" by (simp add: p_def s1_def)
      note t = enter_ledger [OF ok 4(1) Some h, unfolded ps]
      obtain e u where u: "(case sm_on_start m of None \<Rightarrow> Some (ERROR_NONE, t)
          | Some f \<Rightarrow> run_start env f p (run_create env (create_service m) m) t) = Some (e, u)" "keeps t u"
        using run_start [OF t(1)] keeps_refl [OF t(1)] by (cases "sm_on_start m") (auto, blast)
      have "(sid, p, ?i) \<in> in_transition t" unfolding t(2) by simp
      note k = keeps_transition [OF u(2) this]
      have u': "in_transition u = insert (sid, p, ?i) (in_transition s)" "loose u = loose s"
        using u(2) t by (simp_all add: keeps_def services_frame_def)
      have fresh: "(sid, p, ?i) \<notin> in_transition s" using 4(1) by (simp add: in_transition_def)
      have new: "new_instance s = (Some p, s2)"
        using 4(2) by (simp add: new_instance_def take_memory_def s1_def p_def s2_def Let_def)
      define s4 where "s4 = s3\<lparr>heap := (heap s3)(p \<mapsto> ?i\<lparr>si_internal := Some SERVICE_STATE_STOPPED\<rparr>)\<rparr>"
      have c: "service_instance_construct env p m s2 = Some (ERROR_NONE, s4)"
        using 4(3) by (simp add: service_instance_construct_def take_memory_def s4_def s3_def s2_def)
      have st: "service_instance_set_state p SERVICE_STATE_STARTING (s4\<lparr>instances := (instances s4)(sid \<mapsto> p)\<rparr>) = Some t"
        by (simp add: service_instance_set_state_def s4_def t_def)
      have hp: "heap t p = Some ?i" by (simp add: t_def)
      have run: "service_manager_start env sid s =
         (if e = ERROR_NONE then do {
             s \<leftarrow> service_instance_set_state p SERVICE_STATE_STARTED u;
             Some (ERROR_NONE, emit_event KERNEL_EVENT_SERVICE_STARTED sid s) }
           else do {
             s \<leftarrow> service_instance_set_state p SERVICE_STATE_STOPPED u;
             let s = s\<lparr>instances := (instances s)(sid := None)\<rparr>;
             (_, s) \<leftarrow> service_instance_destruct env p s;
             s \<leftarrow> delete_instance p s;
             Some (ERROR_RESOURCE, s) })"
        using 4(1) Some u(1) by (cases "sm_on_start m") (simp_all add: service_manager_start_def new c st hp k(3))
      show ?thesis
      proof (cases "e = ERROR_NONE")
        case True
        let ?v = "u\<lparr>heap := (heap u)(p \<mapsto> ?i\<lparr>si_internal := Some SERVICE_STATE_STARTED\<rparr>)\<rparr>"
        have v: "services_ok ?v" by (rule set_state_ok [OF k(1-3)]) simp
        moreover have "in_transition ?v = in_transition s" "loose ?v = loose s"
          unfolding set_state_transition [OF k(1-3)] set_state_loose [OF k(2)] u' using fresh by (auto simp: busy_state_def)
        ultimately have "keeps s ?v" by (simp add: keeps_def services_frame_def)
        moreover have "keeps ?v (emit_event KERNEL_EVENT_SERVICE_STARTED sid ?v)"
          by (rule services_same [OF v]) (simp_all add: emit_event_def)
        ultimately have "keeps s (emit_event KERNEL_EVENT_SERVICE_STARTED sid ?v)" by (rule keeps_trans)
        with True k(3) show ?thesis by (simp add: run service_instance_set_state_def)
      next
        case False
        obtain v w where "service_instance_destruct env p (u\<lparr>heap := (heap u)(p \<mapsto> ?i\<lparr>si_internal := Some SERVICE_STATE_STOPPED\<rparr>),
            instances := (instances u)(sid := None)\<rparr>) = Some (ERROR_NONE, v)" "delete_instance p v = Some w"
          "services_ok w" "in_transition w = in_transition u - {(sid, p, ?i)}" "loose w = loose u"
          using retire [OF k _ refl, of m] by auto
        with False k(3) fresh show ?thesis
          by (auto simp: run service_instance_set_state_def Let_def keeps_def services_frame_def u')
      qed
    qed
  qed
qed

lemma stop_keeps:
  assumes ok: "services_ok s" and idle: "\<not> busy_state (service_manager_get_state sid s)"
  shows "\<exists>e s'. service_manager_stop env sid s = Some (e, s') \<and> keeps s s'"
proof (cases "instances s sid")
  case None
  then show ?thesis using keeps_refl [OF ok] by (simp add: service_manager_stop_def)
next
  case (Some p)
  from instance_okD [OF ok Some] obtain i m st where i: "heap s p = Some i" "si_internal i = Some st" "si_manifest i = Some m" by blast
  let ?i = "i\<lparr>si_internal := Some SERVICE_STATE_STOPPING\<rparr>"
  let ?t = "s\<lparr>heap := (heap s)(p \<mapsto> ?i)\<rparr>"
  have nb: "(sid, p, i) \<notin> in_transition s"
    using idle Some i by (auto simp: in_transition_def service_manager_get_state_def service_instance_get_state_def)
  have t: "services_ok ?t" "in_transition ?t = insert (sid, p, ?i) (in_transition s)" "loose ?t = loose s"
    using set_state_ok [OF ok Some i(1), of SERVICE_STATE_STOPPING] nb
    by (auto simp: set_state_transition [OF ok Some i(1)] set_state_loose [OF Some] busy_state_def)
  obtain u where u: "(case sm_on_stop m of None \<Rightarrow> Some ?t | Some f \<Rightarrow> run_stop env f p (si_data ?i) ?t) = Some u" "keeps ?t u"
    using run_stop [OF t(1)] keeps_refl [OF t(1)] by (cases "sm_on_stop m") (auto, blast)
  have "(sid, p, ?i) \<in> in_transition ?t" unfolding t(2) by simp
  note k = keeps_transition [OF u(2) this]
  have u': "in_transition u = insert (sid, p, ?i) (in_transition s)" "loose u = loose s"
    using u(2) t by (simp_all add: keeps_def services_frame_def)
  have "si_internal ?i \<noteq> si_internal i" using nb Some i(1) by (auto simp: in_transition_def busy_state_def)
  then have "?i \<noteq> i" by metis
  then have fresh: "(sid, p, ?i) \<notin> in_transition s" using i(1) by (simp add: in_transition_def)
  obtain v w where w: "service_instance_destruct env p (u\<lparr>heap := (heap u)(p \<mapsto> ?i\<lparr>si_internal := Some SERVICE_STATE_STOPPED\<rparr>),
      instances := (instances u)(sid := None)\<rparr>) = Some (ERROR_NONE, v)" "delete_instance p v = Some w"
    "services_ok w" "in_transition w = in_transition u - {(sid, p, ?i)}" "loose w = loose u"
    using retire [OF k _ refl, of m] i(3) by auto
  then have "keeps s w" using fresh by (auto simp: keeps_def services_frame_def u')
  moreover have "keeps w (emit_event KERNEL_EVENT_SERVICE_STOPPED sid w)"
    by (rule services_same [OF w(3)]) (simp_all add: emit_event_def)
  ultimately have "keeps s (emit_event KERNEL_EVENT_SERVICE_STOPPED sid w)" by (rule keeps_trans)
  with Some i u(1) k(3) w(1,2) show ?thesis
    by (simp add: service_manager_stop_def service_instance_set_state_def Let_def)
qed

lemma remove_keeps:
  assumes ok: "services_ok s"
  shows "\<exists>e s'. service_manager_remove sid s = Some (e, s') \<and> keeps s s'"
proof (cases "instances s sid")
  case None
  have "instance_ok (s\<lparr>manifests := (manifests s)(sid := None)\<rparr>) x q" if "instances s x = Some q" for x q
    using instance_okD [OF ok that] None that by (auto simp: instance_ok_def)
  then have "keeps s (s\<lparr>manifests := (manifests s)(sid := None)\<rparr>)"
    using ok by (auto simp: keeps_def services_frame_def services_ok_def in_transition_def loose_def split: if_splits)
  with None keeps_refl [OF ok] show ?thesis
    by (simp add: service_manager_remove_def service_manager_get_state_def)
next
  case (Some p)
  with instance_okD [OF ok Some] keeps_refl [OF ok] show ?thesis
    by (auto simp: service_manager_remove_def service_manager_get_state_def service_instance_get_state_def)
qed

lemma add_keeps:
  assumes ok: "services_ok s"
  shows "\<exists>e s'. service_manager_add env m auto_start s = Some (e, s') \<and> keeps s s'"
proof (cases "manifests s (sm_id m)")
  case None
  let ?t = "s\<lparr>manifests := (manifests s)(sm_id m \<mapsto> m)\<rparr>"
  have "instance_ok ?t x q" if "instances s x = Some q" for x q
    using instance_okD [OF ok that] None by (auto simp: instance_ok_def)
  then have k: "keeps s ?t"
    using ok by (auto simp: keeps_def services_frame_def services_ok_def in_transition_def loose_def split: if_splits)
  from start_keeps [OF keeps_ok [OF k]] obtain e s' where "service_manager_start env (sm_id m) ?t = Some (e, s')" "keeps ?t s'" by blast
  with k None show ?thesis by (auto simp: service_manager_add_def Let_def intro: keeps_trans)
qed (use keeps_refl [OF ok] in \<open>simp add: service_manager_add_def\<close>)

end

section \<open>Callbacks as programs\<close>

text \<open>
  A callback makes a list of calls of the manager, whose callbacks make calls in turn, to any depth.
  What the code does not check is left to the caller: a service must not be stopped while it starts
  or stops. A callback that respects this rule does not make such a call.
\<close>

datatype scall = Service_add ServiceManifest bool | Service_remove string | Service_start string | Service_stop string

fun scall_allowed :: "scall \<Rightarrow> services \<Rightarrow> bool" where
  "scall_allowed (Service_stop sid) s = (\<not> busy_state (service_manager_get_state sid s))"
| "scall_allowed _ s = True"

fun scall_run :: "service_env \<Rightarrow> scall \<Rightarrow> services \<Rightarrow> (error_t \<times> services) option" where
  "scall_run env (Service_add m auto_start) s = service_manager_add env m auto_start s"
| "scall_run env (Service_remove sid) s = service_manager_remove sid s"
| "scall_run env (Service_start sid) s = service_manager_start env sid s"
| "scall_run env (Service_stop sid) s = service_manager_stop env sid s"

fun sexec_all :: "service_env \<Rightarrow> scall list \<Rightarrow> services \<Rightarrow> services option" where
  "sexec_all env [] s = Some s"
| "sexec_all env (c # cs) s =
     (if scall_allowed c s then do { (_, s) \<leftarrow> scall_run env c s; sexec_all env cs s } else sexec_all env cs s)"

record service_program =
  prog_calls :: "fn \<Rightarrow> scall list"
  prog_result :: "fn \<Rightarrow> error_t"
  prog_data :: "fn \<Rightarrow> ServiceManifest \<Rightarrow> ptr option"

fun nested_services :: "service_program \<Rightarrow> nat \<Rightarrow> service_env" where
  "nested_services prog 0 = \<lparr>run_create = prog_data prog, run_destroy = (\<lambda>f m d s. Some s),
     run_start = (\<lambda>f p d s. Some (prog_result prog f, s)), run_stop = (\<lambda>f p d s. Some s)\<rparr>"
| "nested_services prog (Suc n) = (let run = (\<lambda>f. sexec_all (nested_services prog n) (prog_calls prog f)) in
     \<lparr>run_create = prog_data prog, run_destroy = (\<lambda>f m d s. run f s),
      run_start = (\<lambda>f p d s. map_option (Pair (prog_result prog f)) (run f s)), run_stop = (\<lambda>f p d s. run f s)\<rparr>)"

context service_callbacks
begin

lemma scall_keeps:
  assumes "services_ok s" "scall_allowed c s"
  shows "\<exists>e s'. scall_run env c s = Some (e, s') \<and> keeps s s'"
  using assms add_keeps remove_keeps start_keeps stop_keeps by (cases c) simp_all

lemma sexec_all_keeps: "services_ok s \<Longrightarrow> \<exists>s'. sexec_all env cs s = Some s' \<and> keeps s s'"
proof (induction cs arbitrary: s)
  case Nil
  then show ?case by (simp add: keeps_refl)
next
  case (Cons c cs)
  show ?case
  proof (cases "scall_allowed c s")
    case True
    from scall_keeps [OF Cons.prems True] obtain e t where t: "scall_run env c s = Some (e, t)" "keeps s t" by blast
    from Cons.IH [OF keeps_ok [OF t(2)]] t True show ?thesis by (auto intro: keeps_trans)
  qed (use Cons in simp)
qed

end

lemma nested_services_callbacks: "service_callbacks (nested_services prog n)"
proof (induction n)
  case 0
  show ?case by (rule service_callbacks.intro) (auto intro: keeps_refl)
next
  case (Suc n)
  note run = service_callbacks.sexec_all_keeps [OF Suc.IH]
  show ?case
    by (rule service_callbacks.intro) (use run in \<open>force simp: Let_def\<close>)+
qed

interpretation nested_services: service_callbacks "nested_services prog n" for prog n
  by (rule nested_services_callbacks)

section \<open>Reachable states\<close>

definition no_services :: "bool list \<Rightarrow> services" where
  "no_services mem = \<lparr>manifests = Map.empty, instances = Map.empty, heap = Map.empty, next_address = 0, memory = mem, emitted = []\<rparr>"

inductive services_reachable :: "service_program \<Rightarrow> services \<Rightarrow> bool" for prog where
  booted: "services_reachable prog (no_services mem)"
| called: "services_reachable prog s \<Longrightarrow> scall_allowed c s \<Longrightarrow> scall_run (nested_services prog n) c s = Some (e, s') \<Longrightarrow>
    services_reachable prog s'"

lemma services_reachable_settled: "services_reachable prog s \<Longrightarrow> services_ok s \<and> in_transition s = {} \<and> loose s = {}"
proof (induction rule: services_reachable.induct)
  case (booted mem)
  then show ?case by (simp add: services_ok_def in_transition_def loose_def no_services_def)
next
  case (called s c n e s')
  with nested_services.scall_keeps [of s c prog n] show ?case by (auto simp: keeps_def services_frame_def)
qed


definition demo_manifest :: ServiceManifest where
  "demo_manifest = \<lparr>sm_id = ''a'', create_service = 1, destroy_service = 2, sm_on_start = Some 3, sm_on_stop = None\<rparr>"

definition demo_services :: service_program where
  "demo_services = \<lparr>prog_calls = (\<lambda>f. if f = 3 then [Service_start ''b'', Service_stop ''a''] else []), prog_result = (\<lambda>f. 0), prog_data = (\<lambda>f m. Some 7)\<rparr>"

lemma demo_service_started: "\<exists>s. scall_run (nested_services demo_services 2) (Service_add demo_manifest True) (no_services []) = Some (ERROR_NONE, s) \<and>
    instances s ''a'' = Some 0"
  by (simp add: service_manager_add_def service_manager_start_def no_services_def demo_manifest_def new_instance_def take_memory_def
      service_instance_construct_def service_instance_set_state_def numeral_2_eq_2 demo_services_def Let_def emit_event_def
      service_manager_get_state_def service_instance_get_state_def busy_state_def)


section \<open>The life of a service\<close>

lemma set_state_Some: "heap s p = Some i \<Longrightarrow> si_internal i = Some st0 \<Longrightarrow>
    service_instance_set_state p st s = Some (s\<lparr>heap := (heap s)(p \<mapsto> i\<lparr>si_internal := Some st\<rparr>)\<rparr>)"
  by (simp add: service_instance_set_state_def)

lemma take_memory_all: "memory s = [] \<Longrightarrow> take_memory s = (True, s)"
  by (cases "s") (simp add: take_memory_def)

text \<open>Starting up to the callback.\<close>

lemma start_until_callback:
  fixes env :: service_env
  assumes "services_ok s" "manifests s sid = Some m" "instances s sid = None" "memory s = []" "sm_on_start m = Some f"
  defines "p \<equiv> next_address s"
  defines "i \<equiv> \<lparr>si_manifest = Some m, si_data = run_create env (create_service m) m, si_internal = Some SERVICE_STATE_STARTING\<rparr>"
  defines "t \<equiv> s\<lparr>next_address := p + 1, instances := (instances s)(sid \<mapsto> p), heap := (heap s)(p \<mapsto> i)\<rparr>"
  shows "service_manager_start env sid s = do {
      (e, s) \<leftarrow> run_start env f p (si_data i) t;
      if e = ERROR_NONE then do {
        s \<leftarrow> service_instance_set_state p SERVICE_STATE_STARTED s;
        Some (ERROR_NONE, emit_event KERNEL_EVENT_SERVICE_STARTED sid s) }
      else do {
        s \<leftarrow> service_instance_set_state p SERVICE_STATE_STOPPED s;
        let s = s\<lparr>instances := (instances s)(sid := None)\<rparr>;
        (_, s) \<leftarrow> service_instance_destruct env p s;
        s \<leftarrow> delete_instance p s;
        Some (ERROR_RESOURCE, s) } }"
  unfolding p_def i_def t_def using assms(2-5)
  by (simp add: service_manager_start_def new_instance_def take_memory_all service_instance_construct_def
      service_instance_set_state_def [of _ SERVICE_STATE_STARTING] Let_def [of "next_address s"])


lemma demo_service_registered:
  "services_ok ((no_services [])\<lparr>manifests := [''a'' \<mapsto> demo_manifest]\<rparr>)"
  by (simp add: services_ok_def no_services_def demo_manifest_def)


text \<open>
  a service that stops itself while it starts is freed under the manager's feet: when its
  \<open>on_start\<close> calls \<open>service_manager_stop\<close> with its own id, the stop succeeds and deletes the instance,
  and \<open>service_manager_start\<close>, which goes on to set the state of that instance, reads freed memory,
  whatever \<open>on_start\<close> returns.
\<close>

theorem stop_during_start_use_after_free:
  assumes "services_ok s" "manifests s sid = Some m" "instances s sid = None" "memory s = []"
    and "sm_on_start m = Some f" "sm_on_stop m = None"
    and "\<And>p d s. run_start env f p d s = map_option (\<lambda>(_, s). (e, s)) (service_manager_stop env sid s)"
    and "\<And>d s. run_destroy env (destroy_service m) m d s = Some s"
  shows "service_manager_start env sid s = None"
proof -
  let ?p = "next_address s"
  let ?i = "\<lparr>si_manifest = Some m, si_data = run_create env (create_service m) m, si_internal = Some SERVICE_STATE_STARTING\<rparr>"
  let ?t = "s\<lparr>next_address := ?p + 1, instances := (instances s)(sid \<mapsto> ?p), heap := (heap s)(?p \<mapsto> ?i)\<rparr>"
  obtain u where u: "service_manager_stop env sid ?t = Some (ERROR_NONE, u)" "heap u ?p = None"
    using assms(6,8) by (simp add: service_manager_stop_def service_instance_set_state_def service_instance_destruct_def
        delete_instance_def emit_event_def Let_def)
  then have "run_start env f ?p (si_data ?i) ?t = Some (e, u)" by (simp add: assms(7))
  with u(2) show ?thesis
    by (simp add: start_until_callback [OF assms(1-5)] service_instance_set_state_def)
qed

definition stopping_env :: service_env where
  "stopping_env = \<lparr>run_create = (\<lambda>f m. None), run_destroy = (\<lambda>f m d s. Some s),
     run_start = (\<lambda>f p d s. map_option (\<lambda>(_, s). (0, s)) (service_manager_stop (nested_services demo_services 0) ''a'' s)),
     run_stop = (\<lambda>f p d s. Some s)\<rparr>"

lemma stop_cong:
  assumes "run_stop env = run_stop env'" "run_destroy env = run_destroy env'"
  shows "service_manager_stop env = service_manager_stop env'"
  by (rule ext)+ (simp only: service_manager_stop_def service_instance_destruct_def assms)

theorem stop_during_start_use_after_free_witness:
  "service_manager_start stopping_env ''a'' ((no_services [])\<lparr>manifests := [''a'' \<mapsto> demo_manifest]\<rparr>) = None"
proof (rule stop_during_start_use_after_free [OF demo_service_registered, where m = demo_manifest and f = 3])
  have "service_manager_stop (nested_services demo_services 0) = service_manager_stop stopping_env"
    by (rule stop_cong) (simp_all add: stopping_env_def)
  then show "run_start stopping_env 3 p d s = map_option (\<lambda>(_, s). (0, s)) (service_manager_stop stopping_env ''a'' s)" for p d s
    by (simp add: stopping_env_def)
qed (simp_all add: demo_manifest_def no_services_def stopping_env_def)

end
