(* ===== verification/Protobuf.thy ===== *)
theory Protobuf
  imports Kernel_Error
begin

text \<open>
  The protobuf wire format of \<open>Modules/mesh-meshtastic-module/source/meshtastic_protocol.cpp\<close>:
  variable-length integers, tags, length-delimited bytes and fixed 32-bit values. A
  \<open>ProtobufReader\<close> is the list of the bytes from its position to the end; a failed read is \<open>None\<close>.
\<close>

section \<open>Writing\<close>

definition WIRE_VARINT :: byte where "WIRE_VARINT = 0"
definition WIRE_FIXED64 :: byte where "WIRE_FIXED64 = 1"
definition WIRE_LENGTH_DELIMITED :: byte where "WIRE_LENGTH_DELIMITED = 2"
definition WIRE_FIXED32 :: byte where "WIRE_FIXED32 = 5"

lemma drop_bit_7_less: "drop_bit 7 v \<noteq> 0 \<Longrightarrow> unat (drop_bit 7 v) < unat v" for v :: "64 word"
proof -
  assume "drop_bit 7 v \<noteq> 0"
  then have "unat v \<noteq> 0" by (metis drop_bit_of_0 unat_eq_zero)
  moreover have "unat (drop_bit 7 v) = unat v div 2 ^ 7" by (metis unat_drop_bit_eq drop_bit_eq_div)
  ultimately show ?thesis by simp
qed

function writeVarint :: "64 word \<Rightarrow> byte list" where
  "writeVarint v =
     (let b = ucast (v AND 0x7F) :: byte; v' = drop_bit 7 v in
      if v' \<noteq> 0 then (b OR 0x80) # writeVarint v' else [b])"
  by auto
termination
  by (relation "measure unat") (auto simp: drop_bit_7_less)

declare writeVarint.simps [simp del]

definition writeTag :: "32 word \<Rightarrow> byte \<Rightarrow> byte list" where
  "writeTag field wireType = writeVarint (push_bit 3 (ucast field) OR ucast wireType)"

definition writeBytes :: "32 word \<Rightarrow> byte list \<Rightarrow> byte list" where
  "writeBytes field bytes = writeTag field WIRE_LENGTH_DELIMITED @ writeVarint (of_nat (length bytes)) @ bytes"

definition writeString :: "32 word \<Rightarrow> byte list \<Rightarrow> byte list" where
  "writeString = writeBytes"

definition writeFixed32 :: "32 word \<Rightarrow> 32 word \<Rightarrow> byte list" where
  "writeFixed32 field v = writeTag field WIRE_FIXED32 @ le32 v"

section \<open>Reading\<close>

fun readVarint_loop :: "nat \<Rightarrow> 64 word \<Rightarrow> byte list \<Rightarrow> (64 word \<times> byte list) option" where
  "readVarint_loop shift v [] = None"
| "readVarint_loop shift v (b # bs) =
     (if shift \<ge> 64 then None
      else let v = v OR push_bit shift (ucast (b AND 0x7F)) in
        if b AND 0x80 = 0 then Some (v, bs) else readVarint_loop (shift + 7) v bs)"

definition readVarint :: "byte list \<Rightarrow> (64 word \<times> byte list) option" where
  "readVarint bs = readVarint_loop 0 0 bs"

definition readField :: "byte list \<Rightarrow> (32 word \<times> byte \<times> byte list) option" where
  "readField bs = do {
     (tag, bs) \<leftarrow> readVarint bs;
     if drop_bit 3 tag = 0 then None else Some (ucast (drop_bit 3 tag), ucast (tag AND 0x07), bs)
   }"

definition readBytes :: "byte list \<Rightarrow> (byte list \<times> byte list) option" where
  "readBytes bs = do {
     (size, bs) \<leftarrow> readVarint bs;
     if unat size > length bs then None else Some (take (unat size) bs, drop (unat size) bs)
   }"

definition readFixed32 :: "byte list \<Rightarrow> (32 word \<times> byte list) option" where
  "readFixed32 bs = (case bs of a # b # c # d # bs \<Rightarrow> Some (from_le32 a b c d, bs) | _ \<Rightarrow> None)"

definition pb_skip :: "byte \<Rightarrow> byte list \<Rightarrow> byte list option" where
  "pb_skip wireType bs =
     (if wireType = WIRE_VARINT then map_option snd (readVarint bs)
      else if wireType = WIRE_FIXED64 then (if length bs < 8 then None else Some (drop 8 bs))
      else if wireType = WIRE_LENGTH_DELIMITED then map_option snd (readBytes bs)
      else if wireType = WIRE_FIXED32 then (if length bs < 4 then None else Some (drop 4 bs))
      else None)"

section \<open>Integers\<close>

lemma and_7F: "w AND 0x7F = take_bit 7 w" for w :: "'a::len word"
  by (simp add: take_bit_eq_mask mask_eq_exp_minus_1)

lemma varint_byte:
  fixes v :: "64 word"
  defines "b \<equiv> ucast (v AND 0x7F) :: byte"
  shows "ucast ((b OR 0x80) AND 0x7F) = take_bit 7 v" "ucast (b AND 0x7F) = take_bit 7 v"
    "(b OR 0x80) AND 0x80 \<noteq> 0" "b AND 0x80 = 0"
proof -
  have x80: "(0x80 :: byte) = 2 ^ 7" by simp
  show "ucast (b AND 0x7F) = take_bit 7 v"
    by (rule bit_eqI) (auto simp: b_def and_7F bit_ucast_iff bit_take_bit_iff)
  show "ucast ((b OR 0x80) AND 0x7F) = take_bit 7 v"
    by (rule bit_eqI) (auto simp: b_def and_7F bit_ucast_iff bit_take_bit_iff bit_or_iff x80 bit_exp_iff simp del: power_numeral)
  show "b AND 0x80 = 0" unfolding x80 and_exp_eq_0_iff_not_bit by (simp add: b_def and_7F bit_ucast_iff bit_take_bit_iff)
  show "(b OR 0x80) AND 0x80 \<noteq> 0"
    unfolding x80 and_exp_eq_0_iff_not_bit by (simp add: bit_or_iff bit_exp_iff possible_bit_word del: power_numeral)
qed

lemma varint_split: "push_bit s (take_bit 7 v) OR push_bit (s + 7) (drop_bit 7 v) = push_bit s v" for v :: "64 word"
proof (rule bit_eqI)
  fix n
  have "7 + (n - (s + 7)) = n - s" if "s + 7 \<le> n" using that by simp
  then show "bit (push_bit s (take_bit 7 v) OR push_bit (s + 7) (drop_bit 7 v)) n = bit (push_bit s v) n"
    by (cases "s + 7 \<le> n") (auto simp: bit_or_iff bit_push_bit_iff bit_take_bit_iff bit_drop_bit_eq)
qed

lemma readVarint_step:
  fixes v :: "64 word"
  assumes "s < 64" and "unat v < 2 ^ (64 - s)"
  shows "readVarint_loop s acc (writeVarint v @ rest) = Some (acc OR push_bit s v, rest)"
  using assms
proof (induction v arbitrary: s acc rule: writeVarint.induct)
  case (1 v)
  note split = varint_split [of s v]
  show ?case
  proof (cases "drop_bit 7 v = 0")
    case True
    with split 1(2) show ?thesis by (simp add: writeVarint.simps [of v] varint_byte)
  next
    case False
    have d: "unat (drop_bit 7 v) = unat v div 2 ^ 7" by (metis unat_drop_bit_eq drop_bit_eq_div)
    with False have "2 ^ 7 \<le> unat v" by (metis div_eq_0_iff not_le unat_eq_zero)
    with 1(3) have "(2 :: nat) ^ 7 < 2 ^ (64 - s)" by linarith
    then have s: "7 < 64 - s" by (rule power_less_imp_less_exp [rotated]) simp
    have "64 - s = (64 - (s + 7)) + 7" using s by simp
    then have "unat v < 2 ^ (64 - (s + 7)) * 2 ^ 7" using 1(3) by (metis power_add)
    then have "unat (drop_bit 7 v) < 2 ^ (64 - (s + 7))"
      unfolding d by (simp add: less_mult_imp_div_less)
    with 1(1) False s have "readVarint_loop (s + 7) a (writeVarint (drop_bit 7 v) @ rest) =
        Some (a OR push_bit (s + 7) (drop_bit 7 v), rest)" for a by simp
    with split 1(2) False show ?thesis
      by (simp add: writeVarint.simps [of v] varint_byte Let_def or.assoc)
  qed
qed

lemma readVarint_writeVarint [wire_simps]: "readVarint (writeVarint v @ rest) = Some (v, rest)"
  using readVarint_step [of 0 v 0 rest] unsigned_less [of v] by (simp add: readVarint_def)

interpretation varint: stream_codec writeVarint readVarint "\<lambda>_. True"
  by unfold_locales (rule readVarint_writeVarint)

section \<open>Tags, bytes and fixed integers\<close>

lemma wire_type_bits: "wt < 8 \<Longrightarrow> 3 \<le> n \<Longrightarrow> \<not> bit wt n" for wt :: byte
proof -
  assume "wt < 8" and n: "3 \<le> n"
  then have "unat wt < 2 ^ 3" by (simp add: word_less_nat_alt)
  then have "unat (take_bit 3 wt) = unat wt" by (simp only: unsigned_take_bit_eq take_bit_nat_eq_self)
  then have "take_bit 3 wt = wt" by (simp add: word_unat_eq_iff)
  then show "\<not> bit wt n" using n by (metis bit_take_bit_iff not_le)
qed

lemma tag_parts:
  fixes f :: "32 word" and wt :: byte
  assumes "wt < 8"
  defines "tag \<equiv> push_bit 3 (ucast f) OR ucast wt :: 64 word"
  shows "drop_bit 3 tag = ucast f" "ucast (tag AND 0x07) = wt" "(ucast (drop_bit 3 tag) :: 32 word) = f"
proof -
  have m: "(0x07 :: 64 word) = mask 3" by (simp add: mask_eq_exp_minus_1)
  show d: "drop_bit 3 tag = ucast f"
    by (rule bit_eqI) (auto simp: tag_def bit_drop_bit_eq bit_or_iff bit_push_bit_iff bit_ucast_iff wire_type_bits [OF assms(1)]
        dest: bit_imp_le_length)
  show "ucast (tag AND 0x07) = wt"
    unfolding m
  proof (rule bit_eqI)
    fix n assume "possible_bit TYPE(8 word) n"
    then show "bit (ucast (tag AND mask 3) :: byte) n = bit wt n"
      using wire_type_bits [OF assms(1), of n]
      by (cases "n < 3") (auto simp: tag_def bit_and_iff bit_mask_iff bit_or_iff bit_push_bit_iff bit_ucast_iff)
  qed
  show "(ucast (drop_bit 3 tag) :: 32 word) = f"
    unfolding d by (rule bit_eqI) (auto simp: bit_ucast_iff)
qed

lemma readField_writeTag [wire_simps]:
  assumes "f \<noteq> 0" and "wt < 8"
  shows "readField (writeTag f wt @ rest) = Some (f, wt, rest)"
proof -
  have f: "(ucast (ucast f :: 64 word) :: 32 word) = f" by (rule bit_eqI) (auto simp: bit_ucast_iff)
  have "ucast f \<noteq> (0 :: 64 word)"
  proof
    assume "ucast f = (0 :: 64 word)"
    then have "(ucast (ucast f :: 64 word) :: 32 word) = 0" by simp
    with f assms(1) show False by simp
  qed
  then show ?thesis
    unfolding readField_def writeTag_def readVarint_writeVarint
    by (simp only: bind.bind_lunit prod.case tag_parts [OF assms(2)] if_False f)
qed

lemma readBytes_write [wire_simps]:
  assumes "length bytes < 2 ^ 64"
  shows "readBytes (writeVarint (of_nat (length bytes)) @ bytes @ rest) = Some (bytes, rest)"
proof -
  have "unat (of_nat (length bytes) :: 64 word) = length bytes"
    using assms by (simp add: unsigned_of_nat take_bit_nat_eq_self)
  then show ?thesis by (simp add: readBytes_def readVarint_writeVarint)
qed

lemma readFixed32_le32 [wire_simps]: "readFixed32 (le32 w @ rest) = Some (w, rest)"
  by (simp add: readFixed32_def le32_unfold from_le32_le32)

interpretation delimited: stream_codec "\<lambda>bs. writeVarint (of_nat (length bs)) @ bs" readBytes "\<lambda>bs. length bs < 2 ^ 64"
  by unfold_locales (simp add: readBytes_write)

interpretation fixed32: stream_codec le32 readFixed32 "\<lambda>_. True"
  by unfold_locales (rule readFixed32_le32)

interpretation tag: stream_codec "\<lambda>(f, wt). writeTag f wt" "\<lambda>bs. map_option (\<lambda>(f, wt, r). ((f, wt), r)) (readField bs)"
    "\<lambda>(f, wt). f \<noteq> 0 \<and> wt < 8"
  by unfold_locales (auto simp: readField_writeTag)

section \<open>Every read makes progress\<close>

lemma readVarint_loop_length: "readVarint_loop s v bs = Some (w, bs') \<Longrightarrow> length bs' < length bs"
proof (induction s v bs rule: readVarint_loop.induct)
  case (2 s v b bs)
  then show ?case by (fastforce simp: Let_def split: if_splits)
qed simp

lemma read_lengths:
  "readVarint bs = Some (w, bs') \<Longrightarrow> length bs' < length bs"
  "readField bs = Some (f, wt, bs') \<Longrightarrow> length bs' < length bs"
  "readBytes bs = Some (xs, bs') \<Longrightarrow> length bs' < length bs"
  "readFixed32 bs = Some (x, bs') \<Longrightarrow> length bs' < length bs"
  "pb_skip wt bs = Some bs' \<Longrightarrow> length bs' \<le> length bs"
proof -
  show v: "readVarint bs = Some (w, bs') \<Longrightarrow> length bs' < length bs" for w bs'
    unfolding readVarint_def by (rule readVarint_loop_length)
  show "readField bs = Some (f, wt, bs') \<Longrightarrow> length bs' < length bs"
    using v by (auto simp: readField_def bind_Some_iff split: if_splits)
  show b: "readBytes bs = Some (xs, bs') \<Longrightarrow> length bs' < length bs" for xs bs'
    using v by (fastforce simp: readBytes_def bind_Some_iff split: if_splits)
  show "readFixed32 bs = Some (x, bs') \<Longrightarrow> length bs' < length bs"
    by (auto simp: readFixed32_def split: list.splits)
  show "pb_skip wt bs = Some bs' \<Longrightarrow> length bs' \<le> length bs"
    using v b by (fastforce simp: pb_skip_def split: if_splits dest: less_imp_le)
qed

section \<open>The size of a varint\<close>

lemma writeVarint_length_step: "unat v < 2 ^ (7 * n) \<Longrightarrow> n \<noteq> 0 \<Longrightarrow> length (writeVarint v) \<le> n"
proof (induction v arbitrary: n rule: writeVarint.induct)
  case (1 v)
  show ?case
  proof (cases "drop_bit 7 v = 0")
    case True
    with 1(3) show ?thesis by (simp add: writeVarint.simps [of v])
  next
    case False
    have d: "unat (drop_bit 7 v) = unat v div 2 ^ 7" by (metis unat_drop_bit_eq drop_bit_eq_div)
    with False have big: "2 ^ 7 \<le> unat v" by (metis div_eq_0_iff not_le unat_eq_zero)
    obtain m where m: "n = Suc m" using 1(3) by (cases n) auto
    have "m \<noteq> 0" using big 1(2) m by (cases m) auto
    moreover have "unat (drop_bit 7 v) < 2 ^ (7 * m)"
      using 1(2) unfolding d m by (simp add: less_mult_imp_div_less power_add mult.commute)
    ultimately have "length (writeVarint (drop_bit 7 v)) \<le> m" using 1(1) False by simp
    with False m show ?thesis by (simp add: writeVarint.simps [of v] Let_def)
  qed
qed

text \<open>
  a 64-bit integer written as a varint takes between one and ten bytes, at most n bytes when it is
  below 2 to the power 7n; it is read back with the rest of the stream untouched, and no
  varint is a prefix of another.
\<close>

theorem varint_roundtrip:
  "readVarint (writeVarint v @ rest) = Some (v, rest) \<and> 1 \<le> length (writeVarint v) \<and> length (writeVarint v) \<le> 10 \<and>
   (unat v < 2 ^ (7 * n) \<and> n \<noteq> 0 \<longrightarrow> length (writeVarint v) \<le> n) \<and>
   (writeVarint v @ r = writeVarint w @ s \<longrightarrow> v = w \<and> r = s)"
proof (intro conjI impI)
  show "readVarint (writeVarint v @ rest) = Some (v, rest)" by (rule readVarint_writeVarint)
  show "1 \<le> length (writeVarint v)" by (simp add: writeVarint.simps [of v] Let_def)
  have "unat v < 2 ^ 64" using unsigned_less [of v] by simp
  then have "unat v < 2 ^ (7 * 10)" by simp
  then show "length (writeVarint v) \<le> 10" by (rule writeVarint_length_step) simp
  show "unat v < 2 ^ (7 * n) \<and> n \<noteq> 0 \<Longrightarrow> length (writeVarint v) \<le> n" by (simp add: writeVarint_length_step)
  assume eq: "writeVarint v @ r = writeVarint w @ s"
  from varint.prefix_free [OF TrueI TrueI eq] show "v = w" "r = s" by blast+
qed

theorem varint_roundtrip_witness: "length (writeVarint 300) \<le> 2 \<and> readVarint (writeVarint 300 @ [9]) = Some (300, [9])"
  using varint_roundtrip [of 300 "[9]" 2] by simp

end
