(* ===== verification/Meshtastic_Protocol.thy ===== *)
theory Meshtastic_Protocol
  imports Protobuf "HOL-Library.Signed_Division"
begin

text \<open>
  \<open>Modules/mesh-meshtastic-module/source/meshtastic_protocol.cpp\<close>: keys, channel hashes and
  frequencies, the 16-byte header, the AES-CTR nonce, and the \<open>Data\<close> and \<open>User\<close> messages. The PSA
  crypto library is the argument \<open>psa\<close>. C strings are the bytes before the terminator.
\<close>

section \<open>Data\<close>

definition MESHTASTIC_HEADER_SIZE :: nat where "MESHTASTIC_HEADER_SIZE = 16"

record MeshtasticHeader =
  h_to :: "32 word"
  h_from :: "32 word"
  h_id :: "32 word"
  hopLimit :: byte
  wantAck :: bool
  viaMqtt :: bool
  hopStart :: byte
  channelHash :: byte
  nextHop :: byte
  relayNode :: byte

text \<open>\<open>MeshtasticPort\<close> is an enumeration over \<open>uint32_t\<close>, and decoding casts any value to it.\<close>

record MeshtasticData =
  port :: "32 word"
  payload :: "byte list"
  wantResponse :: bool
  requestId :: "32 word"

definition MeshtasticData_init :: MeshtasticData where
  "MeshtasticData_init = \<lparr>port = 1, payload = [], wantResponse = False, requestId = 0\<rparr>"

record MeshtasticUser =
  user_id :: "byte list"
  longName :: "byte list"
  shortName :: "byte list"

definition MeshtasticUser_init :: MeshtasticUser where
  "MeshtasticUser_init = \<lparr>user_id = [], longName = [], shortName = []\<rparr>"

record MeshtasticChannelKey =
  key_bytes :: "byte list"     \<comment> \<open>an array of 32 bytes\<close>
  key_length :: byte

section \<open>Keys and channels\<close>

definition MESHTASTIC_DEFAULT_KEY :: "byte list" where
  "MESHTASTIC_DEFAULT_KEY = [0xd4, 0xf1, 0xbb, 0x3a, 0x20, 0x29, 0x07, 0x59, 0xf0, 0xbc, 0xff, 0xab, 0xcf, 0x4e, 0x69, 0x01]"

text \<open>\<open>Some\<close> is the return value true with the key written, \<open>None\<close> is false.\<close>

definition meshtastic_expand_psk :: "byte list \<Rightarrow> MeshtasticChannelKey \<Rightarrow> MeshtasticChannelKey option" where
  "meshtastic_expand_psk psk key =
     (if length psk = 1 then
        (if psk ! 0 = 0 \<or> psk ! 0 > 10 then None
         else let bs = MESHTASTIC_DEFAULT_KEY @ drop 16 (key_bytes key) in
           Some (key\<lparr>key_bytes := bs[15 := bs ! 15 + psk ! 0 - 1], key_length := 16\<rparr>))
      else if length psk = 16 \<or> length psk = 32 then
        Some (key\<lparr>key_bytes := psk @ drop (length psk) (key_bytes key), key_length := of_nat (length psk)\<rparr>)
      else None)"

text \<open>\<open>None\<close>: the loop would read past the array of the key.\<close>

definition meshtastic_channel_hash :: "byte list \<Rightarrow> MeshtasticChannelKey \<Rightarrow> byte option" where
  "meshtastic_channel_hash name key =
     (if unat (key_length key) > length (key_bytes key) then None
      else Some (fold (\<lambda>b h. h XOR b) (take (unat (key_length key)) (key_bytes key)) (fold (\<lambda>c h. h XOR c) name 0)))"

definition djb2 :: "byte list \<Rightarrow> 32 word" where
  "djb2 name = fold (\<lambda>c h. push_bit 5 h + h + ucast c) name 5381"

text \<open>Signed arithmetic on \<open>int32_t\<close>: an overflow is undefined, \<open>None\<close>.\<close>

definition s32 :: "int \<Rightarrow> int option" where
  "s32 x = (if - (2 ^ 31) \<le> x \<and> x < 2 ^ 31 then Some x else None)"

definition meshtastic_channel_frequency :: "byte list \<Rightarrow> int \<Rightarrow> int \<Rightarrow> int \<Rightarrow> int option" where
  "meshtastic_channel_frequency name bandStart bandEnd bandwidth = do {
     span \<leftarrow> s32 (bandEnd - bandStart);
     channelCount \<leftarrow> (if bandwidth = 0 then None else s32 (span sdiv bandwidth));
     let slot = (if channelCount > 0 then uint (djb2 name) mod channelCount else 0);
     start \<leftarrow> s32 (bandStart + bandwidth sdiv 2);
     offset \<leftarrow> s32 (slot * bandwidth);
     s32 (start + offset)
   }"

section \<open>The header\<close>

definition header_flags :: "MeshtasticHeader \<Rightarrow> byte" where
  "header_flags h = (hopLimit h AND 0x07) OR (if wantAck h then 0x08 else 0) OR (if viaMqtt h then 0x10 else 0)
     OR push_bit 5 (hopStart h AND 0x07)"

definition meshtastic_write_header :: "MeshtasticHeader \<Rightarrow> byte list" where
  "meshtastic_write_header h = concat (map le32 [h_to h, h_from h, h_id h]) @
     [header_flags h, channelHash h, nextHop h, relayNode h]"

definition readU32 :: "byte list \<Rightarrow> nat \<Rightarrow> 32 word" where
  "readU32 d i = from_le32 (d ! i) (d ! (i + 1)) (d ! (i + 2)) (d ! (i + 3))"

definition meshtastic_read_header :: "byte list \<Rightarrow> MeshtasticHeader option" where
  "meshtastic_read_header d =
     (if length d < MESHTASTIC_HEADER_SIZE then None
      else Some \<lparr>h_to = readU32 d 0, h_from = readU32 d 4, h_id = readU32 d 8, hopLimit = d ! 12 AND 0x07,
        wantAck = (d ! 12 AND 0x08 \<noteq> 0), viaMqtt = (d ! 12 AND 0x10 \<noteq> 0), hopStart = drop_bit 5 (d ! 12) AND 0x07,
        channelHash = d ! 13, nextHop = d ! 14, relayNode = d ! 15\<rparr>)"

section \<open>Encryption\<close>

record psa =
  psa_import_key :: "byte list \<Rightarrow> bool"
  psa_aes_ctr :: "byte list \<Rightarrow> byte list \<Rightarrow> byte list \<Rightarrow> byte list option"
    \<comment> \<open>setup, IV, update and finish with a key, a nonce and an input\<close>

definition meshtastic_nonce :: "32 word \<Rightarrow> 32 word \<Rightarrow> byte list" where
  "meshtastic_nonce packetId from_node = le32 packetId @ [0, 0, 0, 0] @ le32 from_node @ [0, 0, 0, 0]"

definition meshtastic_crypt :: "psa \<Rightarrow> MeshtasticChannelKey \<Rightarrow> 32 word \<Rightarrow> 32 word \<Rightarrow> byte list \<Rightarrow> byte list option" where
  "meshtastic_crypt psa key packetId from_node input =
     (let k = take (unat (key_length key)) (key_bytes key) in
      if \<not> psa_import_key psa k then None
      else case psa_aes_ctr psa k (meshtastic_nonce packetId from_node) input of
             None \<Rightarrow> None
           | Some output \<Rightarrow> if length output = length input then Some output else None)"

section \<open>Messages\<close>

definition meshtastic_encode_data :: "MeshtasticData \<Rightarrow> byte list" where
  "meshtastic_encode_data d =
     writeTag 1 WIRE_VARINT @ writeVarint (ucast (port d)) @
     writeBytes 2 (payload d) @
     (if wantResponse d then writeTag 3 WIRE_VARINT @ writeVarint 1 else []) @
     (if requestId d \<noteq> 0 then writeFixed32 6 (requestId d) else [])"

text \<open>One round of the decoding loop: what is left of the bytes, the message and \<open>hasPort\<close>.\<close>

definition decode_data_field :: "byte list \<Rightarrow> MeshtasticData \<Rightarrow> bool \<Rightarrow> (byte list \<times> MeshtasticData \<times> bool) option" where
  "decode_data_field bs d hasPort = do {
     (field, wireType, bs) \<leftarrow> readField bs;
     if field = 1 \<and> wireType = WIRE_VARINT then do {
       (v, bs) \<leftarrow> readVarint bs; Some (bs, d\<lparr>port := ucast v\<rparr>, True) }
     else if field = 2 \<and> wireType = WIRE_LENGTH_DELIMITED then do {
       (xs, bs) \<leftarrow> readBytes bs; Some (bs, d\<lparr>payload := xs\<rparr>, hasPort) }
     else if field = 3 \<and> wireType = WIRE_VARINT then do {
       (v, bs) \<leftarrow> readVarint bs; Some (bs, d\<lparr>wantResponse := (v \<noteq> 0)\<rparr>, hasPort) }
     else if field = 6 \<and> wireType = WIRE_FIXED32 then do {
       (v, bs) \<leftarrow> readFixed32 bs; Some (bs, d\<lparr>requestId := v\<rparr>, hasPort) }
     else do { bs \<leftarrow> pb_skip wireType bs; Some (bs, d, hasPort) }
   }"

lemma decode_data_field_length: "decode_data_field bs d p = Some (bs', d', p') \<Longrightarrow> length bs' < length bs"
  by (auto simp: decode_data_field_def bind_Some_iff split: if_splits dest!: read_lengths)

function decode_data_loop :: "byte list \<Rightarrow> MeshtasticData \<Rightarrow> bool \<Rightarrow> (MeshtasticData \<times> bool) option" where
  "decode_data_loop bs d hasPort =
     (if bs = [] then Some (d, hasPort)
      else case decode_data_field bs d hasPort of
             None \<Rightarrow> None
           | Some (bs', d', hasPort') \<Rightarrow> decode_data_loop bs' d' hasPort')"
  by auto
termination
  by (relation "measure (\<lambda>(bs, d, p). length bs)") (auto dest: decode_data_field_length)

declare decode_data_loop.simps [simp del]

definition meshtastic_decode_data :: "byte list \<Rightarrow> MeshtasticData option" where
  "meshtastic_decode_data bs =
     (case decode_data_loop bs MeshtasticData_init False of
        None \<Rightarrow> None | Some (d, hasPort) \<Rightarrow> if hasPort then Some d else None)"

definition meshtastic_encode_user :: "MeshtasticUser \<Rightarrow> byte list" where
  "meshtastic_encode_user u =
     writeString 1 (user_id u) @ writeString 2 (longName u) @ writeString 3 (shortName u) @
     writeTag 5 WIRE_VARINT @ writeVarint 255"

definition decode_user_field :: "byte list \<Rightarrow> MeshtasticUser \<Rightarrow> (byte list \<times> MeshtasticUser) option" where
  "decode_user_field bs u = do {
     (field, wireType, bs) \<leftarrow> readField bs;
     if field \<ge> 1 \<and> field \<le> 3 \<and> wireType = WIRE_LENGTH_DELIMITED then do {
       (xs, bs) \<leftarrow> readBytes bs;
       Some (bs, if field = 1 then u\<lparr>user_id := xs\<rparr> else if field = 2 then u\<lparr>longName := xs\<rparr> else u\<lparr>shortName := xs\<rparr>) }
     else do { bs \<leftarrow> pb_skip wireType bs; Some (bs, u) }
   }"

lemma decode_user_field_length: "decode_user_field bs u = Some (bs', u') \<Longrightarrow> length bs' < length bs"
  by (auto simp: decode_user_field_def bind_Some_iff split: if_splits dest!: read_lengths)

function decode_user_loop :: "byte list \<Rightarrow> MeshtasticUser \<Rightarrow> MeshtasticUser option" where
  "decode_user_loop bs u =
     (if bs = [] then Some u
      else case decode_user_field bs u of None \<Rightarrow> None | Some (bs', u') \<Rightarrow> decode_user_loop bs' u')"
  by auto
termination
  by (relation "measure (\<lambda>(bs, u). length bs)") (auto dest: decode_user_field_length)

declare decode_user_loop.simps [simp del]

definition meshtastic_decode_user :: "byte list \<Rightarrow> MeshtasticUser option" where
  "meshtastic_decode_user bs = decode_user_loop bs MeshtasticUser_init"

definition meshtastic_encode_routing_ack :: "byte list" where
  "meshtastic_encode_routing_ack = writeTag 3 WIRE_VARINT @ writeVarint 0"

section \<open>Node ids\<close>

definition hex_digit :: "4 word \<Rightarrow> char" where
  "hex_digit w = ''0123456789abcdef'' ! unat w"

text \<open>\<open>snprintf\<close> with \<open>"!%08x"\<close>.\<close>

definition meshtastic_node_id :: "32 word \<Rightarrow> string" where
  "meshtastic_node_id n = CHR ''!'' # map (\<lambda>i. hex_digit (ucast (drop_bit (28 - 4 * i) n))) [0..<8]"

section \<open>The header is read as it was written\<close>

lemma bit_header_flags:
  "bit (header_flags h) n \<longleftrightarrow> n < 3 \<and> bit (hopLimit h) n \<or> n = 3 \<and> wantAck h \<or> n = 4 \<and> viaMqtt h \<or>
     5 \<le> n \<and> n < 8 \<and> bit (hopStart h) (n - 5)"
proof -
  have c: "(0x07 :: byte) = mask 3" "(0x08 :: byte) = 2 ^ 3" "(0x10 :: byte) = 2 ^ 4"
    by (simp_all add: mask_eq_exp_minus_1)
  show ?thesis
    unfolding header_flags_def c
    by (auto simp: bit_or_iff bit_and_iff bit_mask_iff bit_push_bit_iff bit_exp_iff possible_bit_word simp del: power_numeral
        dest: bit_imp_le_length)
qed

lemma flag_tests: "(b AND 0x08 \<noteq> 0) = bit b 3" "(b AND 0x10 \<noteq> 0) = bit b 4" for b :: byte
proof -
  have c: "(0x08 :: byte) = 2 ^ 3" "(0x10 :: byte) = 2 ^ 4" by simp_all
  show "(b AND 0x08 \<noteq> 0) = bit b 3" "(b AND 0x10 \<noteq> 0) = bit b 4"
    unfolding c by (simp_all only: and_exp_eq_0_iff_not_bit not_not)
qed

lemma bit_low3: "bit (b AND 0x07) n = (n < 3 \<and> bit b n)" for b :: byte
proof -
  have c: "(0x07 :: byte) = mask 3" by (simp add: mask_eq_exp_minus_1)
  show ?thesis unfolding c by (auto simp: bit_and_iff bit_mask_iff dest: bit_imp_le_length)
qed

lemma read_flags:
  "header_flags h AND 0x07 = hopLimit h AND 0x07" "drop_bit 5 (header_flags h) AND 0x07 = hopStart h AND 0x07"
  "bit (header_flags h) 3 = wantAck h" "bit (header_flags h) 4 = viaMqtt h"
  by (rule bit_eqI, auto simp: bit_low3 bit_header_flags bit_drop_bit_eq)+

lemma write_flags:
  assumes "hopLimit h = b AND 0x07" "hopStart h = drop_bit 5 b AND 0x07" "wantAck h = bit b 3" "viaMqtt h = bit b 4"
  shows "header_flags h = b"
proof (rule bit_eqI)
  fix n assume "possible_bit TYPE(8 word) n"
  then have "n < 3 \<or> n = 3 \<or> n = 4 \<or> 5 \<le> n \<and> n < 8" by (auto simp: possible_bit_word)
  moreover have "n - 5 < 3 \<and> 5 + (n - 5) = n" if "5 \<le> n" "n < 8" using that by simp
  ultimately show "bit (header_flags h) n = bit b n"
    by (auto simp: bit_header_flags assms bit_low3 bit_drop_bit_eq)
qed

lemma read_write_header:
  "meshtastic_read_header (meshtastic_write_header h @ rest) =
     Some (h\<lparr>hopLimit := hopLimit h AND 0x07, hopStart := hopStart h AND 0x07\<rparr>)"
  unfolding flag_tests meshtastic_read_header_def
  by (simp add: meshtastic_write_header_def le32_unfold readU32_def from_le32_le32 read_flags flag_tests
      MESHTASTIC_HEADER_SIZE_def)

lemma write_header_length [simp]: "length (meshtastic_write_header h) = 16"
  by (simp add: meshtastic_write_header_def)

text \<open>
  the header survives the air. Reading back what was written, with the encrypted payload behind
  it, gives the header, its two hop counts reduced to the three bits they have on the air; writing
  what was read from a packet gives the packet's first 16 bytes; shorter packets are rejected.
\<close>

theorem header_roundtrip:
  "meshtastic_read_header (meshtastic_write_header h @ rest) =
     Some (h\<lparr>hopLimit := hopLimit h AND 0x07, hopStart := hopStart h AND 0x07\<rparr>) \<and>
   length (meshtastic_write_header h) = MESHTASTIC_HEADER_SIZE \<and>
   (meshtastic_read_header d = Some g \<longrightarrow> meshtastic_write_header g = take MESHTASTIC_HEADER_SIZE d) \<and>
   (meshtastic_read_header d = None \<longleftrightarrow> length d < MESHTASTIC_HEADER_SIZE)"
proof (intro conjI impI)
  show "meshtastic_read_header (meshtastic_write_header h @ rest) =
      Some (h\<lparr>hopLimit := hopLimit h AND 0x07, hopStart := hopStart h AND 0x07\<rparr>)" by (rule read_write_header)
next
  show "length (meshtastic_write_header h) = MESHTASTIC_HEADER_SIZE" by (simp add: MESHTASTIC_HEADER_SIZE_def)
next
  assume g: "meshtastic_read_header d = Some g"
  then have len: "16 \<le> length d" by (simp add: meshtastic_read_header_def MESHTASTIC_HEADER_SIZE_def split: if_splits)
  have flags: "header_flags g = d ! 12"
    using g by (intro write_flags) (auto simp: meshtastic_read_header_def flag_tests split: if_splits)
  have "meshtastic_write_header g = map (\<lambda>i. d ! i) [0, 1, 2, 3, 4, 5, 6, 7, 8, 9, 10, 11, 12, 13, 14, 15]"
    using g flags
    by (auto simp: meshtastic_write_header_def meshtastic_read_header_def le32_unfold readU32_def le32_from_le32
        numeral_2_eq_2 split: if_splits)
  also have "[0, 1, 2, 3, 4, 5, 6, 7, 8, 9, 10, 11, 12, 13, 14, 15] = [0..<16 :: nat]" by (simp add: upt_rec)
  also have "map (\<lambda>i. d ! i) [0..<16] = take 16 d"
    using len by (intro nth_equalityI) auto
  finally show "meshtastic_write_header g = take MESHTASTIC_HEADER_SIZE d" by (simp add: MESHTASTIC_HEADER_SIZE_def)
next
  show "meshtastic_read_header d = None \<longleftrightarrow> length d < MESHTASTIC_HEADER_SIZE"
    by (simp add: meshtastic_read_header_def)
qed

theorem header_roundtrip_witness:
  "\<exists>g. meshtastic_read_header (replicate 20 7) = Some g \<and> meshtastic_write_header g = replicate 16 7"
proof -
  have "\<not> length (replicate 20 (7 :: byte)) < MESHTASTIC_HEADER_SIZE" by (simp add: MESHTASTIC_HEADER_SIZE_def)
  then obtain g where "meshtastic_read_header (replicate 20 7) = Some g"
    by (cases "meshtastic_read_header (replicate 20 7)") (auto simp: meshtastic_read_header_def)
  with header_roundtrip [of undefined "[]" "replicate 20 7" g] show ?thesis
    by (auto simp: MESHTASTIC_HEADER_SIZE_def)
qed

section \<open>Messages are decoded as they were encoded\<close>

lemma wire_types [simp]: "WIRE_VARINT < 8" "WIRE_FIXED32 < 8" "WIRE_LENGTH_DELIMITED < 8" "WIRE_FIXED64 < 8"
  "WIRE_VARINT \<noteq> WIRE_LENGTH_DELIMITED" "WIRE_VARINT \<noteq> WIRE_FIXED32" "WIRE_LENGTH_DELIMITED \<noteq> WIRE_FIXED32"
  "WIRE_LENGTH_DELIMITED \<noteq> WIRE_VARINT" "WIRE_FIXED32 \<noteq> WIRE_VARINT" "WIRE_FIXED32 \<noteq> WIRE_LENGTH_DELIMITED"
  by (simp_all add: WIRE_VARINT_def WIRE_FIXED32_def WIRE_LENGTH_DELIMITED_def WIRE_FIXED64_def)

lemma writeTag_nonempty [simp]: "writeTag f wt \<noteq> []"
  by (simp add: writeTag_def writeVarint.simps [of "push_bit 3 (ucast f) OR ucast wt"] Let_def)

lemma cast_port [simp]: "(ucast (ucast (p :: 32 word) :: 64 word) :: 32 word) = p"
  by (rule bit_eqI) (auto simp: bit_ucast_iff)

text \<open>The fields of a message, one round of the loop each.\<close>

lemma decode_data_fields [wire_simps]:
  "decode_data_loop (writeTag 1 WIRE_VARINT @ writeVarint v @ rest) d p = decode_data_loop rest (d\<lparr>port := ucast v\<rparr>) True"
  "length xs < 2 ^ 64 \<Longrightarrow>
     decode_data_loop (writeBytes 2 xs @ rest) d p = decode_data_loop rest (d\<lparr>payload := xs\<rparr>) p"
  "decode_data_loop (writeTag 3 WIRE_VARINT @ writeVarint v @ rest) d p = decode_data_loop rest (d\<lparr>wantResponse := (v \<noteq> 0)\<rparr>) p"
  "decode_data_loop (writeFixed32 6 w @ rest) d p = decode_data_loop rest (d\<lparr>requestId := w\<rparr>) p"
  by (subst decode_data_loop.simps, simp add: decode_data_field_def readField_writeTag readVarint_writeVarint
      writeBytes_def writeFixed32_def readBytes_write readFixed32_le32)+

lemma decode_data_unknown:
  assumes "f \<noteq> 0" "f \<notin> {1, 3}"
  shows "decode_data_loop (writeTag f WIRE_VARINT @ writeVarint v @ rest) d p = decode_data_loop rest d p"
  using assms
  by (subst decode_data_loop.simps) (simp add: decode_data_field_def readField_writeTag readVarint_writeVarint pb_skip_def)

lemma decode_data_end [simp]: "decode_data_loop [] d p = Some (d, p)"
  by (simp add: decode_data_loop.simps)

lemma decode_encoded_data:
  assumes "length (payload d) < 2 ^ 64"
  shows "decode_data_loop (meshtastic_encode_data d @ rest) MeshtasticData_init False = decode_data_loop rest d True"
  using assms
  by (cases d; cases "wantResponse d"; cases "requestId d = 0")
     (simp_all add: meshtastic_encode_data_def decode_data_fields MeshtasticData_init_def)

text \<open>
  a Data message is decoded to what was encoded, for every port, payload, flag and request id,
  also when it is followed by integer fields that this decoder does not know; and a message
  is accepted only if it has a port.
\<close>

theorem data_message_roundtrip:
  assumes "length (payload d) < 2 ^ 64" and "\<forall>(f, v)\<in>set unknown. f \<noteq> 0 \<and> f \<notin> {1, 3}"
  shows "meshtastic_decode_data (meshtastic_encode_data d @
           concat (map (\<lambda>(f, v). writeTag f WIRE_VARINT @ writeVarint v) unknown)) = Some d \<and>
         meshtastic_decode_data (writeBytes 2 (payload d)) = None"
proof -
  have "decode_data_loop (concat (map (\<lambda>(f, v). writeTag f WIRE_VARINT @ writeVarint v) unknown)) d True = Some (d, True)"
    using assms(2) by (induction unknown) (auto simp: decode_data_unknown)
  moreover have "decode_data_loop (writeBytes 2 (payload d)) MeshtasticData_init False =
      Some (MeshtasticData_init\<lparr>payload := payload d\<rparr>, False)"
    using decode_data_fields(2) [OF assms(1), of "[]"] by simp
  ultimately show ?thesis by (simp add: meshtastic_decode_data_def decode_encoded_data [OF assms(1)])
qed

theorem data_message_roundtrip_witness:
  "meshtastic_decode_data (meshtastic_encode_data \<lparr>port = 1, payload = [104, 105], wantResponse = True, requestId = 77\<rparr> @
     writeTag 9 WIRE_VARINT @ writeVarint 3) = Some \<lparr>port = 1, payload = [104, 105], wantResponse = True, requestId = 77\<rparr>"
  using data_message_roundtrip [of "\<lparr>port = 1, payload = [104, 105], wantResponse = True, requestId = 77\<rparr>" "[(9, 3)]"] by simp

lemma decode_user_fields [wire_simps]:
  "length xs < 2 ^ 64 \<Longrightarrow> decode_user_loop (writeString 1 xs @ rest) u = decode_user_loop rest (u\<lparr>user_id := xs\<rparr>)"
  "length xs < 2 ^ 64 \<Longrightarrow> decode_user_loop (writeString 2 xs @ rest) u = decode_user_loop rest (u\<lparr>longName := xs\<rparr>)"
  "length xs < 2 ^ 64 \<Longrightarrow> decode_user_loop (writeString 3 xs @ rest) u = decode_user_loop rest (u\<lparr>shortName := xs\<rparr>)"
  "decode_user_loop (writeTag 5 WIRE_VARINT @ writeVarint v) u = Some u"
  by (subst decode_user_loop.simps, simp add: decode_user_field_def readField_writeTag readVarint_writeVarint
      varint.dec_whole tag.dec_enc writeString_def writeBytes_def readBytes_write pb_skip_def decode_user_loop.simps [of "[]"])+

text \<open>a User message (the node info of a peer) is decoded to the user that was encoded.\<close>

theorem user_message_roundtrip:
  assumes "length (user_id u) < 2 ^ 64" "length (longName u) < 2 ^ 64" "length (shortName u) < 2 ^ 64"
  shows "meshtastic_decode_user (meshtastic_encode_user u) = Some u"
  using assms
  by (simp add: meshtastic_decode_user_def meshtastic_encode_user_def decode_user_fields MeshtasticUser_init_def)

theorem user_message_roundtrip_witness:
  "meshtastic_decode_user (meshtastic_encode_user \<lparr>user_id = [33, 97], longName = [66], shortName = []\<rparr>) =
     Some \<lparr>user_id = [33, 97], longName = [66], shortName = []\<rparr>"
  by (rule user_message_roundtrip) simp_all

section \<open>Channels, keys and node ids\<close>

lemma s32I: "0 \<le> x \<Longrightarrow> x < 2 ^ 31 \<Longrightarrow> s32 x = Some x"
  by (simp add: s32_def)

lemma frequency_in_band:
  assumes "0 \<le> bandStart" "0 < bandwidth" "bandwidth \<le> bandEnd - bandStart" "bandEnd < 2 ^ 31"
  shows "\<exists>f. meshtastic_channel_frequency name bandStart bandEnd bandwidth = Some f \<and>
           bandStart + bandwidth div 2 \<le> f \<and> f + (bandwidth - bandwidth div 2) \<le> bandEnd"
proof -
  let ?n = "(bandEnd - bandStart) div bandwidth" and ?slot = "uint (djb2 name) mod ((bandEnd - bandStart) div bandwidth)"
  have n: "1 \<le> ?n" using assms(2,3) by (simp add: pos_imp_zdiv_pos_iff int_one_le_iff_zero_less)
  have sd: "(bandEnd - bandStart) sdiv bandwidth = ?n" "bandwidth sdiv 2 = bandwidth div 2"
    using assms by (simp_all add: signed_divide_int_def)
  have slot: "0 \<le> ?slot" "?slot \<le> ?n - 1" using n pos_mod_bound [of ?n "uint (djb2 name)"] by simp_all
  have "(?slot + 1) * bandwidth \<le> ?n * bandwidth" using slot assms(2) by (intro mult_right_mono) auto
  also have fit: "?n * bandwidth \<le> bandEnd - bandStart"
    using assms(2) by (metis div_mult_mod_eq le_add_same_cancel1 pos_mod_sign)
  finally have top: "?slot * bandwidth + bandwidth \<le> bandEnd - bandStart" by (simp add: distrib_right)
  have low: "0 \<le> ?slot * bandwidth" using slot assms(2) by simp
  have half: "0 \<le> bandwidth div 2" "bandwidth div 2 \<le> bandwidth" using assms(2) by simp_all
  have "?n * 1 \<le> ?n * bandwidth" using n assms(2) by (intro mult_left_mono) auto
  with fit have small: "?n \<le> bandEnd - bandStart" by simp
  have s32: "s32 (bandEnd - bandStart) = Some (bandEnd - bandStart)" "s32 ?n = Some ?n"
    "s32 (bandStart + bandwidth div 2) = Some (bandStart + bandwidth div 2)" "s32 (?slot * bandwidth) = Some (?slot * bandwidth)"
    "s32 (bandStart + bandwidth div 2 + ?slot * bandwidth) = Some (bandStart + bandwidth div 2 + ?slot * bandwidth)"
    by (rule s32I; use assms small n low top half in linarith)+
  have "0 < ?n" "bandwidth \<noteq> 0" using n assms(2) by simp_all
  then have "meshtastic_channel_frequency name bandStart bandEnd bandwidth =
      Some (bandStart + bandwidth div 2 + ?slot * bandwidth)"
    by (simp only: meshtastic_channel_frequency_def sd s32 Let_def bind.bind_lunit if_False if_True)
  then show ?thesis using low top by (intro exI conjI) auto
qed

text \<open>
  the frequency of a channel lies in the band with its whole bandwidth, whatever the name, and
  computing it never overflows, for a positive bandwidth that fits a band of non-negative
  frequencies.
\<close>

theorem channel_frequency_in_band:
  assumes "0 \<le> bandStart" "0 < bandwidth" "bandwidth \<le> bandEnd - bandStart" "bandEnd < 2 ^ 31"
  shows "\<exists>f. meshtastic_channel_frequency name bandStart bandEnd bandwidth = Some f \<and>
           bandStart + bandwidth div 2 \<le> f \<and> f + (bandwidth - bandwidth div 2) \<le> bandEnd"
  using assms by (rule frequency_in_band)

theorem channel_frequency_in_band_witness:
  "\<exists>f. meshtastic_channel_frequency [76, 111, 110, 103] 869400000 869650000 250000 = Some f \<and> 869525000 \<le> f \<and> f + 125000 \<le> 869650000"
  using channel_frequency_in_band [of 869400000 250000 869650000 "[76, 111, 110, 103]"] by simp

text \<open>
  a pre-shared key gives a usable key exactly when it is one byte from 1 to 10 or has 16 or 32
  bytes; then the array of the key keeps its 32 bytes and the length is 16 or 32, so that the channel
  hash reads only key bytes; two one-byte keys give the same key only if they are equal.
\<close>

theorem psk_expansion:
  assumes "length (key_bytes key) = 32"
  shows "(meshtastic_expand_psk psk key \<noteq> None \<longleftrightarrow>
           length psk = 1 \<and> 1 \<le> psk ! 0 \<and> psk ! 0 \<le> 10 \<or> length psk = 16 \<or> length psk = 32) \<and>
         (\<forall>k. meshtastic_expand_psk psk key = Some k \<longrightarrow>
            length (key_bytes k) = 32 \<and> (key_length k = 16 \<or> key_length k = 32) \<and> meshtastic_channel_hash name k \<noteq> None) \<and>
         (meshtastic_expand_psk [a] key = meshtastic_expand_psk [b] key \<and> meshtastic_expand_psk [a] key \<noteq> None \<longrightarrow> a = b)"
proof (intro conjI allI impI)
  have z: "(w = 0) = (\<not> 1 \<le> w)" for w :: byte by (simp add: word_le_nat_alt unat_gt_0 flip: not_less)
  show "meshtastic_expand_psk psk key \<noteq> None \<longleftrightarrow>
      length psk = 1 \<and> 1 \<le> psk ! 0 \<and> psk ! 0 \<le> 10 \<or> length psk = 16 \<or> length psk = 32"
    by (auto simp: meshtastic_expand_psk_def Let_def z not_less)
next
  fix k assume "meshtastic_expand_psk psk key = Some k"
  then show "length (key_bytes k) = 32" "key_length k = 16 \<or> key_length k = 32" "meshtastic_channel_hash name k \<noteq> None"
    using assms by (auto simp: meshtastic_expand_psk_def MESHTASTIC_DEFAULT_KEY_def Let_def meshtastic_channel_hash_def
        split: if_splits)
next
  assume e: "meshtastic_expand_psk [a] key = meshtastic_expand_psk [b] key \<and> meshtastic_expand_psk [a] key \<noteq> None"
  define bs where "bs = MESHTASTIC_DEFAULT_KEY @ drop 16 (key_bytes key)"
  have run: "meshtastic_expand_psk [c] key = Some (key\<lparr>key_bytes := bs[15 := bs ! 15 + c - 1], key_length := 16\<rparr>)"
    if "meshtastic_expand_psk [c] key \<noteq> None" for c
    using that by (simp add: meshtastic_expand_psk_def Let_def bs_def split: if_splits)
  from e run [of a] run [of b]
  have "key\<lparr>key_bytes := bs[15 := bs ! 15 + a - 1], key_length := 16\<rparr> = key\<lparr>key_bytes := bs[15 := bs ! 15 + b - 1], key_length := 16\<rparr>"
    by (metis option.inject)
  from arg_cong [OF this, of key_bytes] have "bs[15 := bs ! 15 + a - 1] = bs[15 := bs ! 15 + b - 1]" by simp
  moreover have "15 < length bs" by (simp add: bs_def MESHTASTIC_DEFAULT_KEY_def)
  ultimately have "bs ! 15 + a - 1 = bs ! 15 + b - 1" by (metis nth_list_update_eq)
  then show "a = b" by simp
qed

definition demo_key :: MeshtasticChannelKey where
  "demo_key = \<lparr>key_bytes = replicate 32 0, key_length = 0\<rparr>"

theorem psk_expansion_witness: "meshtastic_expand_psk [1] demo_key \<noteq> None \<and> meshtastic_expand_psk [11] demo_key = None"
proof -
  have k: "length (key_bytes demo_key) = 32" by (simp add: demo_key_def)
  from psk_expansion [OF k, of "[1]"] psk_expansion [OF k, of "[11]"] show ?thesis by simp
qed

text \<open>What AES in counter mode promises: the input combined with a key stream.\<close>

definition ctr_mode :: "psa \<Rightarrow> (byte list \<Rightarrow> byte list \<Rightarrow> nat \<Rightarrow> byte) \<Rightarrow> bool" where
  "ctr_mode psa stream \<longleftrightarrow> (\<forall>k iv x out. psa_aes_ctr psa k iv x = Some out \<longrightarrow>
     out = map (\<lambda>i. x ! i XOR stream k iv i) [0..<length x]) \<and>
     (\<forall>k iv x y. length x = length y \<longrightarrow> (psa_aes_ctr psa k iv x = None) = (psa_aes_ctr psa k iv y = None))"

lemma decrypt_encrypt:
  assumes "ctr_mode psa stream" and "meshtastic_crypt psa key packetId from_node input = Some out"
  shows "meshtastic_crypt psa key packetId from_node out = Some input"
proof -
  let ?k = "take (unat (key_length key)) (key_bytes key)" and ?iv = "meshtastic_nonce packetId from_node"
  have ctr: "psa_aes_ctr psa k iv x = Some y \<Longrightarrow> y = map (\<lambda>i. x ! i XOR stream k iv i) [0..<length x]" for k iv x y
    using assms(1) by (simp add: ctr_mode_def)
  from assms(2) have imp: "psa_import_key psa ?k" and run: "psa_aes_ctr psa ?k ?iv input = Some out"
    and len: "length out = length input"
    by (auto simp: meshtastic_crypt_def Let_def split: if_splits option.splits)
  have "(psa_aes_ctr psa ?k ?iv out = None) = (psa_aes_ctr psa ?k ?iv input = None)"
    using assms(1) len unfolding ctr_mode_def by blast
  with run obtain p where p: "psa_aes_ctr psa ?k ?iv out = Some p" by auto
  have "p = input"
    using ctr [OF p] ctr [OF run] by (intro nth_equalityI) (simp_all add: xor.assoc)
  with p imp len show "meshtastic_crypt psa key packetId from_node out = Some input"
    by (simp add: meshtastic_crypt_def Let_def)
qed

text \<open>
  with a cipher in counter mode, decrypting with the same key, packet id and sender gives back
  the plain text; and the nonce of a packet determines its id and sender, so that no two packets of
  different id or sender share one.
\<close>

theorem crypt_roundtrip:
  assumes "ctr_mode psa stream" and "meshtastic_crypt psa key packetId from_node input = Some out"
  shows "meshtastic_crypt psa key packetId from_node out = Some input \<and>
         (meshtastic_nonce i f = meshtastic_nonce i' f' \<longrightarrow> i = i' \<and> f = f')"
proof (intro conjI impI)
  show "meshtastic_crypt psa key packetId from_node out = Some input" by (rule decrypt_encrypt [OF assms])
next
  assume eq: "meshtastic_nonce i f = meshtastic_nonce i' f'"
  then have "le32 i = le32 i'" "le32 f = le32 f'" by (simp_all add: meshtastic_nonce_def)
  then show "i = i'" "f = f'" using fixed32.enc_inj by blast+
qed

text \<open>A toy key stream in place of AES.\<close>

definition demo_psa :: psa where
  "demo_psa = \<lparr>psa_import_key = (\<lambda>k. length k = 16), psa_aes_ctr = (\<lambda>k iv x. Some (map (\<lambda>i. x ! i XOR of_nat i) [0..<length x]))\<rparr>"

theorem crypt_roundtrip_witness:
  "\<exists>out. meshtastic_crypt demo_psa (demo_key\<lparr>key_length := 16\<rparr>) 1 2 [5, 6, 7] = Some out \<and>
     meshtastic_crypt demo_psa (demo_key\<lparr>key_length := 16\<rparr>) 1 2 out = Some [5, 6, 7]"
proof -
  have "ctr_mode demo_psa (\<lambda>k iv i. of_nat i)" by (simp add: ctr_mode_def demo_psa_def)
  moreover obtain out where out: "meshtastic_crypt demo_psa (demo_key\<lparr>key_length := 16\<rparr>) 1 2 [5, 6, 7] = Some out"
    by (simp add: meshtastic_crypt_def demo_psa_def demo_key_def)
  ultimately have "meshtastic_crypt demo_psa (demo_key\<lparr>key_length := 16\<rparr>) 1 2 out = Some [5, 6, 7]"
    using crypt_roundtrip by blast
  with out show ?thesis by blast
qed

lemma hex_digit_inj: "hex_digit a = hex_digit b \<Longrightarrow> a = b"
proof -
  assume eq: "hex_digit a = hex_digit b"
  have "distinct ''0123456789abcdef''" by code_simp
  moreover have "unat a < 16" "unat b < 16" using unsigned_less [of a] unsigned_less [of b] by simp_all
  ultimately have "unat a = unat b" using eq by (simp add: hex_digit_def nth_eq_iff_index_eq)
  then show "a = b" by (simp add: word_unat_eq_iff)
qed

text \<open>the printed id of a node is \<open>!\<close> and eight lower case hex digits, and different nodes have different ids.\<close>

theorem node_id_unique:
  "length (meshtastic_node_id n) = 9 \<and> set (tl (meshtastic_node_id n)) \<subseteq> set ''0123456789abcdef'' \<and>
   (meshtastic_node_id n = meshtastic_node_id m \<longrightarrow> n = m)"
proof (intro conjI impI)
  show "length (meshtastic_node_id n) = 9" by (simp add: meshtastic_node_id_def)
  have "hex_digit w \<in> set ''0123456789abcdef''" for w
  proof -
    have "unat w < 2 ^ 4" by (rule order_less_le_trans [OF unsigned_less]) simp
    then have "unat w < length ''0123456789abcdef''" by simp
    then show ?thesis unfolding hex_digit_def by (rule nth_mem)
  qed
  then show "set (tl (meshtastic_node_id n)) \<subseteq> set ''0123456789abcdef''" by (auto simp: meshtastic_node_id_def)
next
  assume "meshtastic_node_id n = meshtastic_node_id m"
  then have nib: "(ucast (drop_bit (28 - 4 * i) n) :: 4 word) = ucast (drop_bit (28 - 4 * i) m)" if "i < 8" for i
    using that by (auto simp: meshtastic_node_id_def dest!: hex_digit_inj)
  show "n = m"
  proof (rule bit_eqI)
    fix k assume "possible_bit TYPE(32 word) k"
    then have k: "k < 32" by (simp add: possible_bit_word)
    define i where "i = 7 - k div 4"
    have i: "i < 8" "28 - 4 * i = 4 * (k div 4)" using k by (simp_all add: i_def)
    have mod: "4 * (k div 4) + k mod 4 = k" by simp
    have "bit (ucast (drop_bit (28 - 4 * i) n) :: 4 word) (k mod 4) = bit (ucast (drop_bit (28 - 4 * i) m) :: 4 word) (k mod 4)"
      using nib [OF i(1)] by simp
    then show "bit n k = bit m k" by (simp add: i(2) bit_ucast_iff bit_drop_bit_eq)
  qed
qed

theorem node_id_unique_witness: "meshtastic_node_id 0xaabbccdd = ''!aabbccdd'' \<and> length (meshtastic_node_id 0xaabbccdd) = 9"
proof -
  have "meshtastic_node_id 0xaabbccdd = ''!aabbccdd''" by code_simp
  with node_id_unique [of "0xaabbccdd"] show ?thesis by blast
qed

end
