(* ===== verification/Mesh_Host.thy ===== *)
theory Mesh_Host
  imports Kernel_Error "HOL-Library.Multiset"
begin

text \<open>
  What the mesh backends share: the types of the mesh interface
  (\<open>Modules/mesh-module/include/mesh/mesh.h\<close>, \<open>mesh/backend.h\<close>) and of the radio
  (\<open>TactilityKernel/include/tactility/drivers/radio.h\<close>), the calls that a backend makes to its host, the
  mesh service, the files it keeps, its time-outs, and the C strings and ordered maps it is made of.

  The record \<open>mesh_side\<close> is what a backend acts on: the files and the calls made to the host, in
  order; a backend's struct extends it. The record \<open>mesh_env\<close> is what it asks of the rest of the
  system during one call: clock, node name, paths, which I/O fails, and the answer of the host's
  transmit queue. The clock stands still during a call. Signal strengths are passed on as they are.
\<close>

section \<open>The mesh interface\<close>

definition MESH_NAME_MAX_LENGTH :: nat where "MESH_NAME_MAX_LENGTH = 31"

type_synonym signal = "32 word \<times> 32 word"    \<comment> \<open>rssi and snr\<close>

record MeshAddress =
  addr_length :: byte
  addr_bytes :: "byte list"

record MeshChannel =
  mc_index :: byte
  mc_name :: "byte list"
  mc_key :: "byte list"
  mc_key_length :: byte

definition MESH_CHANNEL_KEY_MAX_LENGTH :: nat where "MESH_CHANNEL_KEY_MAX_LENGTH = 32"

datatype MeshDeliveryState = DELIVERY_RECEIVED | DELIVERY_QUEUED | DELIVERY_BLOCKED | DELIVERY_SENT | DELIVERY_DELIVERED
  | DELIVERY_FAILED | DELIVERY_CANCELLED

text \<open>The calls to the host.\<close>

datatype host_call =
  Transmit "byte list" "32 word"
| ReceiveText "MeshAddress option" byte "byte list" "byte list" signal "32 word"
| SetDelivery "32 word" MeshDeliveryState
| NodeHeard MeshAddress "byte list option" signal
| AdvertHeard MeshAddress "byte list" signal

section \<open>The host\<close>

record mesh_side =
  files :: "string \<Rightarrow> byte list option"
  calls :: "host_call list"

record mesh_env =
  millis :: "64 word"
  node_name :: "byte list"
  data_path :: "string \<Rightarrow> string option"
  readable :: "string \<Rightarrow> nat option"
    \<comment> \<open>\<open>None\<close>: opening the file fails; \<open>Some n\<close>: \<open>n\<close> bytes can be read\<close>
  writable :: "string \<Rightarrow> nat option"
  transmit_result :: "byte list \<Rightarrow> 32 word \<Rightarrow> error_t"

definition host :: "host_call \<Rightarrow> 'a mesh_side_scheme \<Rightarrow> 'a mesh_side_scheme" where
  "host call b = b\<lparr>calls := calls b @ [call]\<rparr>"

definition readFile :: "'e mesh_env_scheme \<Rightarrow> string \<Rightarrow> 'a mesh_side_scheme \<Rightarrow> byte list option" where
  "readFile e p b = (case (readable e p, files b p) of (Some n, Some d) \<Rightarrow> Some (take n d) | _ \<Rightarrow> None)"

definition writeFile :: "'e mesh_env_scheme \<Rightarrow> string \<Rightarrow> byte list \<Rightarrow> 'a mesh_side_scheme \<Rightarrow> bool \<times> 'a mesh_side_scheme" where
  "writeFile e p d b = (case writable e p of None \<Rightarrow> (False, b)
     | Some n \<Rightarrow> (length d \<le> n, b\<lparr>files := (files b)(p \<mapsto> take n d)\<rparr>))"

section \<open>Strings\<close>

definition c_string :: "byte list \<Rightarrow> byte list" where
  "c_string a = takeWhile (\<lambda>x. x \<noteq> 0) a"

definition bytes_of :: "string \<Rightarrow> byte list" where
  "bytes_of s = map (\<lambda>c. of_nat (of_char c)) s"

text \<open>\<open>strncpy\<close> of a C string to an array of one more character, the last of which is zero.\<close>

definition name_array :: "byte list \<Rightarrow> byte list" where
  "name_array s = take MESH_NAME_MAX_LENGTH s @ replicate (MESH_NAME_MAX_LENGTH - length s) 0 @ [0]"

section \<open>Ordered maps and pending acknowledgements\<close>

text \<open>A \<open>std::map\<close> is the list of its entries in the order of the keys.\<close>

definition ordered_put :: "'k :: linorder \<Rightarrow> 'v \<Rightarrow> ('k \<times> 'v) list \<Rightarrow> ('k \<times> 'v) list" where
  "ordered_put k v m = insort_key fst (k, v) (filter (\<lambda>x. fst x \<noteq> k) m)"

definition ordered_erase :: "'k \<Rightarrow> ('k \<times> 'v) list \<Rightarrow> ('k \<times> 'v) list" where
  "ordered_erase k m = filter (\<lambda>x. fst x \<noteq> k) m"

record PendingAck =
  ack_seq :: "32 word"
  ack_deadlineMs :: "64 word"

fun expire_acks :: "64 word \<Rightarrow> (32 word \<times> PendingAck) list \<Rightarrow> (32 word \<times> PendingAck) list \<times> host_call list" where
  "expire_acks now [] = ([], [])"
| "expire_acks now ((h, a) # acks) = (case expire_acks now acks of (kept, cs) \<Rightarrow>
     if now \<ge> ack_deadlineMs a then (kept, SetDelivery (ack_seq a) DELIVERY_FAILED # cs) else ((h, a) # kept, cs))"

section \<open>The radio\<close>

datatype RadioModulation = MODULATION_NONE | MODULATION_FSK | MODULATION_LORA | MODULATION_LR_FHSS | MODULATION_FSK4
  | MODULATION_MSK | MODULATION_OOK | MODULATION_ESPNOW

datatype RadioRegion = REGION_UNSET | REGION_EU_433 | REGION_EU_868 | REGION_US_915 | REGION_AU_915 | REGION_NZ_865
  | REGION_IN_865 | REGION_RU_868 | REGION_CN_470 | REGION_JP_920

record MeshRadioProfile =
  modulation :: RadioModulation
  frequency :: int
  bandwidth :: int
  spreading_factor :: int
  coding_rate :: int
  sync_word :: int
  preamble_length :: int
  power :: int
  radio_channel :: int

section \<open>Lists and maps of the backend\<close>

lemma map_of_insort: "k \<notin> fst ` set xs \<Longrightarrow> map_of (insort_key fst (k, v) xs) = (map_of xs)(k \<mapsto> v)"
  by (induction xs) (auto simp: fun_eq_iff)

lemma map_of_erase: "map_of (filter (\<lambda>x. fst x \<noteq> h) xs) k = (if k = h then None else map_of xs k)"
  by (induction xs) auto

lemma map_of_ordered_put: "map_of (ordered_put h a acks) k = (if k = h then Some a else map_of acks k)"
proof -
  have "h \<notin> fst ` set (filter (\<lambda>x. fst x \<noteq> h) acks)" by auto
  then show ?thesis unfolding ordered_put_def by (simp add: map_of_insort map_of_erase)
qed

interpretation ordered_maps: kv_store map_of ordered_put
  by unfold_locales (rule map_of_ordered_put)

abbreviation ordered :: "'a :: linorder list \<Rightarrow> bool" where "ordered \<equiv> sorted_wrt (<)"

lemma ordered_filter: "ordered (map f xs) \<Longrightarrow> ordered (map f (filter P xs))"
  unfolding strict_sorted_iff by (auto intro: sorted_filter distinct_map_filter)

lemma ordered_insort:
  assumes "ordered (map f xs)" "f x \<notin> f ` set xs"
  shows "ordered (map f (insort_key f x xs))"
proof -
  have "mset (map f (insort_key f x xs)) = mset (f x # map f xs)" by simp
  then have "distinct (map f (insort_key f x xs))" using assms by (metis mset_eq_imp_distinct_iff distinct.simps(2) set_map strict_sorted_iff)
  with assms(1) show ?thesis by (simp add: strict_sorted_iff sorted_insort_key)
qed

lemma ordered_put_ordered: "ordered (map fst acks) \<Longrightarrow> ordered (map fst (ordered_put h a acks))"
  unfolding ordered_put_def by (rule ordered_insort) (auto intro: ordered_filter)

lemma ordered_sort:
  assumes "distinct (map f xs)"
  shows "ordered (map f (sort_key f xs))"
proof -
  have "mset (map f (sort_key f xs)) = mset (map f xs)" by simp
  then have "distinct (map f (sort_key f xs))" using assms by (metis mset_eq_imp_distinct_iff)
  then show ?thesis by (simp add: strict_sorted_iff)
qed

lemma ordered_erase_ordered: "ordered (map fst acks) \<Longrightarrow> ordered (map fst (ordered_erase h acks))"
  unfolding ordered_erase_def by (rule ordered_filter)

lemma filter_insort_drop: "\<not> P x \<Longrightarrow> filter P (insort_key f x xs) = filter P xs"
  by (induction xs) auto

lemma erase_put: "ordered_erase k (ordered_put k v m) = ordered_erase k m"
  by (simp add: ordered_erase_def ordered_put_def filter_insort_drop)

lemma expire_acks_filter:
  "expire_acks now acks = (filter (\<lambda>x. \<not> ack_deadlineMs (snd x) \<le> now) acks,
     map (\<lambda>x. SetDelivery (ack_seq (snd x)) DELIVERY_FAILED) (filter (\<lambda>x. ack_deadlineMs (snd x) \<le> now) acks))"
  by (induction acks) auto


lemma name_array_length [simp]: "length (name_array s) = 32"
  by (simp add: name_array_def MESH_NAME_MAX_LENGTH_def)

lemma name_array_end: "name_array s ! 31 = 0"
proof -
  have "name_array s = (take 31 s @ replicate (31 - length s) 0) @ [0]" "length (take 31 s @ replicate (31 - length s) 0) = 31"
    by (simp_all add: name_array_def MESH_NAME_MAX_LENGTH_def)
  then show ?thesis by (metis nth_append_length)
qed

lemma takeWhile_replicate0: "takeWhile (\<lambda>x. x \<noteq> 0) (replicate n (0 :: byte)) = []"
  by (cases n) auto

lemma c_string_name_array: "0 \<notin> set s \<Longrightarrow> c_string (name_array s) = take 31 s"
  unfolding c_string_def name_array_def MESH_NAME_MAX_LENGTH_def
  by (subst takeWhile_append2) (auto dest: in_set_takeD simp: takeWhile_append takeWhile_replicate0)

lemma c_string_nonzero: "0 \<notin> set (c_string s)"
  by (auto simp: c_string_def dest: set_takeWhileD)

lemma name_array_take [simp]: "name_array (take 31 s) = name_array s"
  by (simp add: name_array_def MESH_NAME_MAX_LENGTH_def)

lemma name_array_canonical: "0 \<notin> set s \<Longrightarrow> name_array s = name_array (c_string (name_array s))"
  by (simp add: c_string_name_array)

lemma c_string_length: "length (c_string a) \<le> length a"
  unfolding c_string_def by (rule length_takeWhile_le)

text \<open>An operation that returns, with a result of the given kind.\<close>

definition runs :: "'a option \<Rightarrow> ('a \<Rightarrow> bool) \<Rightarrow> bool" where
  "runs m Q \<longleftrightarrow> (case m of None \<Rightarrow> False | Some x \<Rightarrow> Q x)"

lemma runs_simps [simp]: "runs (Some x) Q = Q x" "\<not> runs None Q"
  by (simp_all add: runs_def)

lemma runs_returns: "runs m Q \<Longrightarrow> m \<noteq> None"
  by (cases m) auto

end
