(* ===== verification/Meshtastic_Backend.thy ===== *)
theory Meshtastic_Backend
  imports Meshtastic_Protocol Mesh_Host
begin

text \<open>
  \<open>Modules/mesh-meshtastic-module/source/meshtastic_backend.cpp\<close>: the backend that a mesh service runs a
  Meshtastic node with. The state is the struct \<open>Backend\<close>, with what it acts on (\<open>mesh_side\<close>) and how many
  random numbers were drawn; the random source is a stream in the environment. Names that the MeshCore
  backend has too end in \<open>_mt\<close>. A loop that draws until a number is acceptable may not end; a function
  that contains one, or computes with signed integers or the array of a key, is \<open>None\<close> when it does not
  return or its behaviour is undefined.
\<close>

section \<open>Data\<close>

definition MESHTASTIC_BROADCAST :: "32 word" where "MESHTASTIC_BROADCAST = 0xFFFFFFFF"
definition MESHTASTIC_MAX_PAYLOAD_SIZE :: nat where "MESHTASTIC_MAX_PAYLOAD_SIZE = 237"
definition MESHTASTIC_DEFAULT_HOP_LIMIT :: byte where "MESHTASTIC_DEFAULT_HOP_LIMIT = 3"

definition PORT_TextMessage :: "32 word" where "PORT_TextMessage = 1"
definition PORT_NodeInfo :: "32 word" where "PORT_NodeInfo = 4"
definition PORT_Routing :: "32 word" where "PORT_Routing = 5"

definition MeshtasticHeader_init :: MeshtasticHeader where
  "MeshtasticHeader_init = \<lparr>h_to = MESHTASTIC_BROADCAST, h_from = 0, h_id = 0, hopLimit = MESHTASTIC_DEFAULT_HOP_LIMIT,
     wantAck = False, viaMqtt = False, hopStart = MESHTASTIC_DEFAULT_HOP_LIMIT, channelHash = 0, nextHop = 0, relayNode = 0\<rparr>"

definition MAX_CHANNELS_mt :: nat where "MAX_CHANNELS_mt = 8"
definition SEEN_PACKETS_LIMIT_mt :: nat where "SEEN_PACKETS_LIMIT_mt = 64"
definition MAX_KNOWN_NAMES :: nat where "MAX_KNOWN_NAMES = 128"
definition NODE_INFO_INTERVAL_MS :: "64 word" where "NODE_INFO_INTERVAL_MS = 3 * 3600 * 1000"
definition ACK_TIMEOUT_MS_mt :: "64 word" where "ACK_TIMEOUT_MS_mt = 60 * 1000"
definition LONG_FAST_BANDWIDTH :: int where "LONG_FAST_BANDWIDTH = 250000"
definition MAX_RADIO_POWER :: int where "MAX_RADIO_POWER = 22"

text \<open>\<open>"LongFast"\<close>\<close>

definition DEFAULT_CHANNEL_NAME :: "byte list" where
  "DEFAULT_CHANNEL_NAME = [0x4C, 0x6F, 0x6E, 0x67, 0x46, 0x61, 0x73, 0x74]"

named_theorems mt_sizes \<open>the constants of the Meshtastic backend\<close>

lemmas [mt_sizes] = MESHTASTIC_MAX_PAYLOAD_SIZE_def MESHTASTIC_HEADER_SIZE_def MAX_CHANNELS_mt_def SEEN_PACKETS_LIMIT_mt_def
  MAX_KNOWN_NAMES_def MESH_NAME_MAX_LENGTH_def

record RegionInfo =
  region :: RadioRegion
  frequencyStart :: int
  frequencyEnd :: int
  powerLimit :: int

definition REGIONS :: "RegionInfo list" where
  "REGIONS = map (\<lambda>(r, s, e, p). \<lparr>region = r, frequencyStart = s, frequencyEnd = e, powerLimit = p\<rparr>)
    [(REGION_US_915, 902000000, 928000000, 30),
     (REGION_EU_433, 433000000, 434000000, 12),
     (REGION_EU_868, 869400000, 869650000, 27),
     (REGION_AU_915, 915000000, 928000000, 30),
     (REGION_NZ_865, 864000000, 868000000, 36),
     (REGION_IN_865, 865000000, 867000000, 30),
     (REGION_RU_868, 868700000, 869200000, 20),
     (REGION_CN_470, 470000000, 510000000, 19),
     (REGION_JP_920, 920800000, 927800000, 16)]"

record Channel_mt =
  ch_index :: byte
  ch_name :: "byte list"
  ch_key :: MeshtasticChannelKey
  ch_hash :: byte

text \<open>\<open>names\<close> and \<open>pendingAcks\<close> are \<open>std::map\<close>s: their entries in the order of the keys.\<close>

record Backend_mt = mesh_side +
  nodeNum :: "32 word"
  channels :: "Channel_mt list"
  seenPackets :: "(32 word \<times> 32 word) list"
  names :: "(32 word \<times> byte list) list"
  pendingAcks :: "(32 word \<times> PendingAck) list"
  lastNodeInfoMs :: "64 word"
  drawn :: nat

record mt_env = mesh_env +
  psa_lib :: psa
  randomU32 :: "nat \<Rightarrow> 32 word"

section \<open>Random numbers\<close>

text \<open>Draw from the \<open>n\<close>-th number of the source on until one is acceptable.\<close>

partial_function (option) draw_until :: "(32 word \<Rightarrow> bool) \<Rightarrow> (nat \<Rightarrow> 32 word) \<Rightarrow> nat \<Rightarrow> (32 word \<times> nat) option" where
  "draw_until good r n = (if good (r n) then Some (r n, n + 1) else draw_until good r (n + 1))"

definition newPacketId :: "mt_env \<Rightarrow> Backend_mt \<Rightarrow> (32 word \<times> Backend_mt) option" where
  "newPacketId e b = do {
     (w, n) \<leftarrow> draw_until (\<lambda>w. w \<noteq> 0) (randomU32 e) (drawn b);
     Some (w, b\<lparr>drawn := n\<rparr>) }"

definition toAddress_mt :: "32 word \<Rightarrow> MeshAddress" where
  "toAddress_mt n = \<lparr>addr_length = 4, addr_bytes = le32 n @ replicate 28 0\<rparr>"

section \<open>Persistence\<close>

definition loadOrCreateNodeNum :: "mt_env \<Rightarrow> Backend_mt \<Rightarrow> Backend_mt option" where
  "loadOrCreateNodeNum e b =
     (let path = data_path e ''node.bin'';
          stored = (case path of None \<Rightarrow> None | Some p \<Rightarrow> readFile e p b) in
      case stored of
        Some d \<Rightarrow> if length d = 4 then Some (b\<lparr>nodeNum := readU32 d 0\<rparr>)
          else do {
            (w, n) \<leftarrow> draw_until (\<lambda>w. \<not> (w < 4 \<or> w = MESHTASTIC_BROADCAST)) (randomU32 e) (drawn b);
            Some (snd (writeFile e (the path) (le32 w) (b\<lparr>nodeNum := w, drawn := n\<rparr>))) }
      | None \<Rightarrow> do {
          (w, n) \<leftarrow> draw_until (\<lambda>w. \<not> (w < 4 \<or> w = MESHTASTIC_BROADCAST)) (randomU32 e) (drawn b);
          Some (case path of
              None \<Rightarrow> b\<lparr>nodeNum := w, drawn := n\<rparr>
            | Some p \<Rightarrow> snd (writeFile e p (le32 w) (b\<lparr>nodeNum := w, drawn := n\<rparr>))) })"

definition addChannel_mt :: "byte \<Rightarrow> byte list \<Rightarrow> MeshtasticChannelKey \<Rightarrow> Backend_mt \<Rightarrow> Backend_mt option" where
  "addChannel_mt i name key b = do {
     h \<leftarrow> meshtastic_channel_hash name key;
     Some (b\<lparr>channels := sort_key ch_index (filter (\<lambda>ch. ch_index ch \<noteq> i) (channels b) @
       [\<lparr>ch_index = i, ch_name = name_array name, ch_key = key, ch_hash = h\<rparr>])\<rparr>) }"

definition CHANNEL_RECORD_SIZE :: nat where "CHANNEL_RECORD_SIZE = 1 + MESH_NAME_MAX_LENGTH + 1 + 1 + 32"

function load_channels_mt :: "byte list \<Rightarrow> Backend_mt \<Rightarrow> Backend_mt option" where
  "load_channels_mt d b =
     (if CHANNEL_RECORD_SIZE \<le> length d then
        (let name = c_string ((take 32 (drop 1 d))[MESH_NAME_MAX_LENGTH := 0]);
             key = \<lparr>key_bytes = take 32 (drop 34 d), key_length = d ! 33\<rparr> in
         case (if key_length key = 16 \<or> key_length key = 32 then addChannel_mt (d ! 0) name key b else Some b) of
           None \<Rightarrow> None
         | Some b' \<Rightarrow> load_channels_mt (drop CHANNEL_RECORD_SIZE d) b')
      else Some b)"
  by auto
termination
  by (relation "measure (\<lambda>(d, b). length d)") (auto simp: CHANNEL_RECORD_SIZE_def)

declare load_channels_mt.simps [simp del]

definition zero_key :: MeshtasticChannelKey where
  "zero_key = \<lparr>key_bytes = replicate 32 0, key_length = 0\<rparr>"

definition loadChannels_mt :: "mt_env \<Rightarrow> Backend_mt \<Rightarrow> Backend_mt option" where
  "loadChannels_mt e b = do {
     b \<leftarrow> (case data_path e ''channels.bin'' of
         None \<Rightarrow> Some b
       | Some p \<Rightarrow> (case readFile e p b of None \<Rightarrow> Some b | Some d \<Rightarrow> load_channels_mt d b));
     if channels b = [] then
       addChannel_mt 0 DEFAULT_CHANNEL_NAME (case meshtastic_expand_psk [1] zero_key of None \<Rightarrow> zero_key | Some key \<Rightarrow> key) b
     else Some b }"

definition channel_record_mt :: "Channel_mt \<Rightarrow> byte list" where
  "channel_record_mt ch = ch_index ch # ch_name ch @ key_length (ch_key ch) # key_bytes (ch_key ch)"

definition saveChannels_mt :: "mt_env \<Rightarrow> Backend_mt \<Rightarrow> Backend_mt" where
  "saveChannels_mt e b = (case data_path e ''channels.bin'' of
       None \<Rightarrow> b
     | Some p \<Rightarrow> snd (writeFile e p (concat (map channel_record_mt (channels b))) b))"

fun findChannel_mt :: "byte \<Rightarrow> Channel_mt list \<Rightarrow> Channel_mt option" where
  "findChannel_mt i [] = None"
| "findChannel_mt i (ch # chs) = (if ch_index ch = i then Some ch else findChannel_mt i chs)"

section \<open>Sending\<close>

definition remember_mt :: "32 word \<times> 32 word \<Rightarrow> (32 word \<times> 32 word) list \<Rightarrow> (32 word \<times> 32 word) list" where
  "remember_mt k seen = (let seen = seen @ [k] in drop (length seen - SEEN_PACKETS_LIMIT_mt) seen)"

definition transmit_mt :: "mt_env \<Rightarrow> Channel_mt \<Rightarrow> MeshtasticHeader \<Rightarrow> MeshtasticData \<Rightarrow> 32 word \<Rightarrow> Backend_mt \<Rightarrow> bool \<times> Backend_mt" where
  "transmit_mt e ch header data seq b =
     (let plaintext = meshtastic_encode_data data in
      if length plaintext > MESHTASTIC_MAX_PAYLOAD_SIZE then (False, b)
      else let header = header\<lparr>h_from := nodeNum b, channelHash := ch_hash ch, relayNode := ucast (nodeNum b)\<rparr> in
        case meshtastic_crypt (psa_lib e) (ch_key ch) (h_id header) (h_from header) plaintext of
          None \<Rightarrow> (False, b)
        | Some ciphertext \<Rightarrow>
            let frame = meshtastic_write_header header @ ciphertext in
            (transmit_result e frame seq = ERROR_NONE,
             host (Transmit frame seq) (b\<lparr>seenPackets := remember_mt (h_from header, h_id header) (seenPackets b)\<rparr>)))"

definition sendNodeInfo :: "mt_env \<Rightarrow> Backend_mt \<Rightarrow> Backend_mt option" where
  "sendNodeInfo e b =
     (let user = \<lparr>user_id = bytes_of (meshtastic_node_id (nodeNum b)), longName = node_name e, shortName = take 4 (node_name e)\<rparr>;
          data = MeshtasticData_init\<lparr>port := PORT_NodeInfo, payload := meshtastic_encode_user user\<rparr> in do {
      (packetId, b) \<leftarrow> newPacketId e b;
      let header = MeshtasticHeader_init\<lparr>h_to := MESHTASTIC_BROADCAST, h_id := packetId\<rparr>;
      let b = (case findChannel_mt 0 (channels b) of None \<Rightarrow> b | Some primary \<Rightarrow> snd (transmit_mt e primary header data 0 b));
      Some (b\<lparr>lastNodeInfoMs := millis e\<rparr>) })"

definition getSenderName :: "32 word \<Rightarrow> Backend_mt \<Rightarrow> byte list" where
  "getSenderName n b = (case map_of (names b) n of Some name \<Rightarrow> name | None \<Rightarrow> bytes_of (meshtastic_node_id n))"

definition sendRoutingAck :: "mt_env \<Rightarrow> Channel_mt \<Rightarrow> 32 word \<Rightarrow> 32 word \<Rightarrow> Backend_mt \<Rightarrow> Backend_mt option" where
  "sendRoutingAck e ch to request b = do {
     (packetId, b) \<leftarrow> newPacketId e b;
     Some (snd (transmit_mt e ch (MeshtasticHeader_init\<lparr>h_to := to, h_id := packetId\<rparr>)
       (MeshtasticData_init\<lparr>port := PORT_Routing, payload := meshtastic_encode_routing_ack, requestId := request\<rparr>) 0 b)) }"

section \<open>Receiving\<close>

definition getRoutingError :: "byte list \<Rightarrow> byte" where
  "getRoutingError bs = (if length bs \<ge> 2 \<and> bs ! 0 = 0x18 then bs ! 1 AND 0x7F else 0)"

text \<open>The names with one more, the one of the lowest node number making room.\<close>

definition put_name :: "32 word \<Rightarrow> byte list \<Rightarrow> (32 word \<times> byte list) list \<Rightarrow> (32 word \<times> byte list) list" where
  "put_name n name ns =
     ordered_put n name (if length ns \<ge> MAX_KNOWN_NAMES \<and> map_of ns n = None then tl ns else ns)"

definition onData :: "mt_env \<Rightarrow> Channel_mt \<Rightarrow> MeshtasticHeader \<Rightarrow> MeshtasticData \<Rightarrow> signal \<Rightarrow> Backend_mt \<Rightarrow> Backend_mt option" where
  "onData e ch header data sig b =
     (let from_addr = toAddress_mt (h_from header); toUs = (h_to header = nodeNum b) in
      if port data = PORT_TextMessage then
        (if \<not> toUs \<and> h_to header \<noteq> MESHTASTIC_BROADCAST then Some b
         else do {
           b \<leftarrow> (if toUs \<and> wantAck header then sendRoutingAck e ch (h_from header) (h_id header) b else Some b);
           Some (host (ReceiveText (if toUs then Some from_addr else None) (ch_index ch) (c_string (getSenderName (h_from header) b))
             (c_string (payload data)) sig 0) b) })
      else if port data = PORT_NodeInfo then
        (case meshtastic_decode_user (payload data) of
           None \<Rightarrow> Some b
         | Some user \<Rightarrow>
             if longName user = [] then Some b
             else Some (host (AdvertHeard from_addr (c_string (longName user)) sig)
               (b\<lparr>names := put_name (h_from header) (longName user) (names b)\<rparr>)))
      else if port data = PORT_Routing then
        (case map_of (pendingAcks b) (requestId data) of
           None \<Rightarrow> Some b
         | Some a \<Rightarrow>
             if \<not> toUs then Some b
             else Some ((host (SetDelivery (ack_seq a) (if getRoutingError (payload data) = 0 then DELIVERY_DELIVERED else DELIVERY_FAILED)) b)
               \<lparr>pendingAcks := ordered_erase (requestId data) (pendingAcks b)\<rparr>))
      else Some b)"

fun channel_loop :: "mt_env \<Rightarrow> Channel_mt list \<Rightarrow> MeshtasticHeader \<Rightarrow> byte list \<Rightarrow> signal \<Rightarrow> Backend_mt \<Rightarrow> (bool \<times> Backend_mt) option" where
  "channel_loop e [] header ciphertext sig b = Some (False, b)"
| "channel_loop e (ch # chs) header ciphertext sig b =
     (if ch_hash ch \<noteq> channelHash header then channel_loop e chs header ciphertext sig b
      else case (case meshtastic_crypt (psa_lib e) (ch_key ch) (h_id header) (h_from header) ciphertext of
                   None \<Rightarrow> None | Some plaintext \<Rightarrow> meshtastic_decode_data plaintext) of
        None \<Rightarrow> channel_loop e chs header ciphertext sig b
      | Some data \<Rightarrow> map_option (Pair True) (onData e ch header data sig b))"

definition onReceive_mt :: "mt_env \<Rightarrow> byte list \<Rightarrow> signal \<Rightarrow> Backend_mt \<Rightarrow> (bool \<times> Backend_mt) option" where
  "onReceive_mt e frame sig b = (case meshtastic_read_header frame of
       None \<Rightarrow> Some (False, b)
     | Some header \<Rightarrow>
         if length frame = MESHTASTIC_HEADER_SIZE \<or> length frame - MESHTASTIC_HEADER_SIZE > MESHTASTIC_MAX_PAYLOAD_SIZE
         then Some (False, b)
         else if h_from header = nodeNum b then Some (True, b)
         else if (h_from header, h_id header) \<in> set (seenPackets b) then Some (True, b)
         else let b = host (NodeHeard (toAddress_mt (h_from header)) None sig)
                        (b\<lparr>seenPackets := remember_mt (h_from header, h_id header) (seenPackets b)\<rparr>) in
           channel_loop e (channels b) header (drop MESHTASTIC_HEADER_SIZE frame) sig b)"

section \<open>The interface of the backend\<close>

definition Backend_mt_init :: "(string \<Rightarrow> byte list option) \<Rightarrow> host_call list \<Rightarrow> nat \<Rightarrow> Backend_mt" where
  "Backend_mt_init fs cs n = \<lparr>files = fs, calls = cs, nodeNum = 0, channels = [], seenPackets = [], names = [], pendingAcks = [],
     lastNodeInfoMs = 0, drawn = n\<rparr>"

text \<open>The inner \<open>None\<close>: there is no memory.\<close>

definition create_mt :: "bool \<Rightarrow> mt_env \<Rightarrow> (string \<Rightarrow> byte list option) \<Rightarrow> host_call list \<Rightarrow> nat \<Rightarrow> Backend_mt option option" where
  "create_mt memory e fs cs n =
     (if \<not> memory then Some None
      else do { b \<leftarrow> loadOrCreateNodeNum e (Backend_mt_init fs cs n); map_option Some (loadChannels_mt e b) })"

definition getRadioProfile_mt :: "RadioRegion \<Rightarrow> RadioModulation \<Rightarrow> Backend_mt \<Rightarrow> (error_t \<times> MeshRadioProfile option) option" where
  "getRadioProfile_mt r md b =
     (if md \<noteq> MODULATION_LORA then Some (ERROR_NOT_SUPPORTED, None)
      else case List.find (\<lambda>info. region info = r) REGIONS of
        None \<Rightarrow> Some (ERROR_NOT_SUPPORTED, None)
      | Some info \<Rightarrow>
          (let slotName = (case findChannel_mt 0 (channels b) of
                 Some primary \<Rightarrow> if ch_name primary ! 0 \<noteq> 0 then c_string (ch_name primary) else DEFAULT_CHANNEL_NAME
               | None \<Rightarrow> DEFAULT_CHANNEL_NAME) in do {
           f \<leftarrow> meshtastic_channel_frequency slotName (frequencyStart info) (frequencyEnd info) LONG_FAST_BANDWIDTH;
           Some (ERROR_NONE, Some \<lparr>modulation = MODULATION_LORA, frequency = f, bandwidth = LONG_FAST_BANDWIDTH,
             spreading_factor = 11, coding_rate = 5, sync_word = 0x2B, preamble_length = 16,
             power = min (powerLimit info) MAX_RADIO_POWER, radio_channel = 0\<rparr>) }))"

definition onStart_mt :: "mt_env \<Rightarrow> Backend_mt \<Rightarrow> Backend_mt option" where
  "onStart_mt e b = sendNodeInfo e b"

definition isValidContactAddress_mt :: "MeshAddress \<Rightarrow> bool" where
  "isValidContactAddress_mt a \<longleftrightarrow> addr_length a = 4"

definition onNodeNameChanged_mt :: "mt_env \<Rightarrow> Backend_mt \<Rightarrow> Backend_mt option" where
  "onNodeNameChanged_mt e b = sendNodeInfo e b"

definition onTick_mt :: "mt_env \<Rightarrow> Backend_mt \<Rightarrow> Backend_mt option" where
  "onTick_mt e b = do {
     b \<leftarrow> (if millis e - lastNodeInfoMs b \<ge> NODE_INFO_INTERVAL_MS then sendNodeInfo e b else Some b);
     (case expire_acks (millis e) (pendingAcks b) of (kept, cs) \<Rightarrow> Some (b\<lparr>pendingAcks := kept, calls := calls b @ cs\<rparr>)) }"

definition sendText_mt :: "mt_env \<Rightarrow> 32 word \<Rightarrow> MeshAddress option \<Rightarrow> byte \<Rightarrow> byte list \<Rightarrow> Backend_mt \<Rightarrow> (error_t \<times> Backend_mt) option" where
  "sendText_mt e seq dest channelIndex txt b =
     (let data = MeshtasticData_init\<lparr>port := PORT_TextMessage, payload := txt\<rparr> in do {
      (packetId, b) \<leftarrow> newPacketId e b;
      let header = MeshtasticHeader_init\<lparr>h_id := packetId\<rparr>;
      (case (case dest of
               None \<Rightarrow> Some (header\<lparr>h_to := MESHTASTIC_BROADCAST\<rparr>, findChannel_mt channelIndex (channels b))
             | Some a \<Rightarrow>
                 if addr_length a \<noteq> 4 then None
                 else Some (header\<lparr>h_to := readU32 (addr_bytes a) 0, wantAck := True\<rparr>, findChannel_mt 0 (channels b))) of
         None \<Rightarrow> Some (ERROR_INVALID_ARGUMENT, b)
       | Some (header, None) \<Rightarrow> Some (ERROR_NOT_FOUND, b)
       | Some (header, Some ch) \<Rightarrow> (case transmit_mt e ch header data seq b of
             (ok, b) \<Rightarrow>
               if \<not> ok then Some (ERROR_RESOURCE, b)
               else if wantAck header then
                 Some (ERROR_NONE, b\<lparr>pendingAcks := ordered_put (h_id header)
                   \<lparr>ack_seq = seq, ack_deadlineMs = millis e + ACK_TIMEOUT_MS_mt\<rparr> (pendingAcks b)\<rparr>)
               else Some (ERROR_NONE, b))) })"

section \<open>Channels\<close>

definition getChannels_mt :: "nat \<Rightarrow> Backend_mt \<Rightarrow> error_t \<times> MeshChannel list" where
  "getChannels_mt maxCount b = (ERROR_NONE, map (\<lambda>ch. \<lparr>mc_index = ch_index ch, mc_name = name_array (c_string (ch_name ch)),
     mc_key = take (unat (key_length (ch_key ch))) (key_bytes (ch_key ch)) @ replicate (32 - unat (key_length (ch_key ch))) 0,
     mc_key_length = key_length (ch_key ch)\<rparr>) (take maxCount (channels b)))"

text \<open>The key and its length as \<open>meshtastic_expand_psk\<close> sees them: no byte is read of a length it rejects.\<close>

definition psk_of :: "MeshChannel \<Rightarrow> byte list" where
  "psk_of mc = (let n = unat (mc_key_length mc) in if n \<le> length (mc_key mc) then take n (mc_key mc) else replicate n 0)"

definition setChannel_mt :: "mt_env \<Rightarrow> MeshChannel \<Rightarrow> Backend_mt \<Rightarrow> (error_t \<times> Backend_mt) option" where
  "setChannel_mt e mc b = (case meshtastic_expand_psk (psk_of mc) zero_key of
       None \<Rightarrow> Some (ERROR_INVALID_ARGUMENT, b)
     | Some key \<Rightarrow>
         if findChannel_mt (mc_index mc) (channels b) = None \<and> length (channels b) \<ge> MAX_CHANNELS_mt
         then Some (ERROR_RESOURCE, b)
         else do { b \<leftarrow> addChannel_mt (mc_index mc) (c_string (mc_name mc)) key b; Some (ERROR_NONE, saveChannels_mt e b) })"

definition removeChannel_mt :: "mt_env \<Rightarrow> byte \<Rightarrow> Backend_mt \<Rightarrow> error_t \<times> Backend_mt" where
  "removeChannel_mt e i b =
     (let rest = filter (\<lambda>ch. ch_index ch \<noteq> i) (channels b) in
      if length rest = length (channels b) then (ERROR_NOT_FOUND, b)
      else (ERROR_NONE, saveChannels_mt e (b\<lparr>channels := rest\<rparr>)))"

end
