(* ===== verification/Meshtastic_Node.thy ===== *)
theory Meshtastic_Node
  imports Meshtastic_Backend
begin

text \<open>
  Properties of a Meshtastic node: the invariant of its state and that every operation returns, the
  radio profile, a text message with its acknowledgement, texts to a channel, duplicates, time-outs,
  and channels that survive a restart.
\<close>

section \<open>The random source\<close>

text \<open>Acceptable numbers keep coming.\<close>

definition lively :: "mt_env \<Rightarrow> bool" where
  "lively e \<longleftrightarrow> (\<forall>n. \<exists>m\<ge>n. 4 \<le> randomU32 e m \<and> randomU32 e m \<noteq> MESHTASTIC_BROADCAST)"

lemma draw_until_returns: "n \<le> m \<Longrightarrow> good (r m) \<Longrightarrow> \<exists>w k. draw_until good r n = Some (w, k) \<and> good w"
proof (induction "m - n" arbitrary: n)
  case 0
  then show ?case by (simp add: draw_until.simps)
next
  case (Suc d)
  then have "d = m - (n + 1)" "n + 1 \<le> m" by linarith+
  from Suc.hyps(1) [OF this] Suc.prems(2) show ?case by (auto simp: draw_until.simps [of good r n])
qed

lemma lively_draws:
  assumes "lively e"
  shows "\<exists>w k. draw_until (\<lambda>w. w \<noteq> 0) (randomU32 e) n = Some (w, k) \<and> w \<noteq> 0"
    and "\<exists>w k. draw_until (\<lambda>w. \<not> (w < 4 \<or> w = MESHTASTIC_BROADCAST)) (randomU32 e) n = Some (w, k) \<and> 4 \<le> w \<and> w \<noteq> MESHTASTIC_BROADCAST"
proof -
  obtain m where m: "n \<le> m" "4 \<le> randomU32 e m" "randomU32 e m \<noteq> MESHTASTIC_BROADCAST" using assms by (auto simp: lively_def)
  from m(2) have "randomU32 e m \<noteq> 0" by auto
  with m(1) show "\<exists>w k. draw_until (\<lambda>w. w \<noteq> 0) (randomU32 e) n = Some (w, k) \<and> w \<noteq> 0"
    by (intro draw_until_returns)
  have "\<not> (randomU32 e m < 4 \<or> randomU32 e m = MESHTASTIC_BROADCAST)" using m(2,3) by auto
  with m(1) draw_until_returns [of n m "\<lambda>w. \<not> (w < 4 \<or> w = MESHTASTIC_BROADCAST)" "randomU32 e"]
  show "\<exists>w k. draw_until (\<lambda>w. \<not> (w < 4 \<or> w = MESHTASTIC_BROADCAST)) (randomU32 e) n = Some (w, k) \<and> 4 \<le> w \<and> w \<noteq> MESHTASTIC_BROADCAST"
    by (auto simp: not_less)
qed

lemma newPacketId_returns: "lively e \<Longrightarrow> \<exists>w n. newPacketId e b = Some (w, b\<lparr>drawn := n\<rparr>) \<and> w \<noteq> 0"
  using lively_draws(1) [of e "drawn b"] by (auto simp: newPacketId_def)

section \<open>The invariant of a node\<close>

definition channel_ok_mt :: "Channel_mt \<Rightarrow> bool" where
  "channel_ok_mt ch \<longleftrightarrow> ch_name ch = name_array (c_string (ch_name ch)) \<and> length (key_bytes (ch_key ch)) = 32 \<and>
     (key_length (ch_key ch) = 16 \<or> key_length (ch_key ch) = 32) \<and>
     meshtastic_channel_hash (c_string (ch_name ch)) (ch_key ch) = Some (ch_hash ch)"

definition mt_ok :: "Backend_mt \<Rightarrow> bool" where
  "mt_ok b \<longleftrightarrow> ordered (map ch_index (channels b)) \<and> list_all channel_ok_mt (channels b) \<and> length (seenPackets b) \<le> 64 \<and>
     ordered (map fst (names b)) \<and> length (names b) \<le> 128 \<and> ordered (map fst (pendingAcks b))"

named_theorems mt_frame \<open>what the steps of the backend leave alone\<close>

lemma host_mt_frame [mt_frame]:
  "channels (host c b) = channels b" "seenPackets (host c b) = seenPackets b" "names (host c b) = names b"
  "pendingAcks (host c b) = pendingAcks b" "nodeNum (host c b) = nodeNum b" "calls (host c b) = calls b @ [c]" "drawn (host c b) = drawn b"
  by (simp_all add: host_def)

lemma writeFile_mt_frame [mt_frame]:
  "channels (snd (writeFile e p d b)) = channels b" "seenPackets (snd (writeFile e p d b)) = seenPackets b"
  "names (snd (writeFile e p d b)) = names b" "pendingAcks (snd (writeFile e p d b)) = pendingAcks b"
  "nodeNum (snd (writeFile e p d b)) = nodeNum b"
  by (simp_all add: writeFile_def split: option.split)

lemma saveChannels_mt_frame [mt_frame]:
  "channels (saveChannels_mt e b) = channels b" "seenPackets (saveChannels_mt e b) = seenPackets b" "names (saveChannels_mt e b) = names b"
  "pendingAcks (saveChannels_mt e b) = pendingAcks b" "nodeNum (saveChannels_mt e b) = nodeNum b"
  by (simp_all add: saveChannels_mt_def mt_frame split: option.split)

lemma transmit_mt_frame [mt_frame]:
  "channels (snd (transmit_mt e ch h d q b)) = channels b" "names (snd (transmit_mt e ch h d q b)) = names b"
  "pendingAcks (snd (transmit_mt e ch h d q b)) = pendingAcks b" "nodeNum (snd (transmit_mt e ch h d q b)) = nodeNum b"
  by (simp_all add: transmit_mt_def mt_frame Let_def split: option.split)

lemma remember_mt_length: "length (remember_mt k seen) \<le> 64"
  by (simp add: remember_mt_def mt_sizes Let_def)

lemma transmit_mt_seen: "length (seenPackets b) \<le> 64 \<Longrightarrow> length (seenPackets (snd (transmit_mt e ch h d q b))) \<le> 64"
  by (auto simp: transmit_mt_def mt_frame Let_def remember_mt_length split: option.split)

lemma mt_ok_frame:
  "mt_ok (host c b) = mt_ok b" "mt_ok (saveChannels_mt e b) = mt_ok b" "mt_ok (snd (writeFile e p d b)) = mt_ok b"
  "mt_ok (b\<lparr>drawn := n\<rparr>) = mt_ok b" "mt_ok (b\<lparr>lastNodeInfoMs := t\<rparr>) = mt_ok b" "mt_ok (b\<lparr>nodeNum := w\<rparr>) = mt_ok b"
  by (simp_all add: mt_ok_def mt_frame)

lemma transmit_mt_ok: "mt_ok b \<Longrightarrow> mt_ok (snd (transmit_mt e ch h d q b))"
  by (simp add: mt_ok_def mt_frame transmit_mt_seen)

lemma put_name_ok:
  assumes "ordered (map fst ns)" "length ns \<le> 128"
  shows "ordered (map fst (put_name n name ns))" "length (put_name n name ns) \<le> 128"
proof -
  let ?ns = "if length ns \<ge> MAX_KNOWN_NAMES \<and> map_of ns n = None then tl ns else ns"
  have o: "ordered (map fst ?ns)" using assms(1) by (cases ns) auto
  then show "ordered (map fst (put_name n name ns))" unfolding put_name_def by (rule ordered_put_ordered)
  have len: "length (ordered_put n name m) = Suc (length (filter (\<lambda>x. fst x \<noteq> n) m))" for m :: "(32 word \<times> byte list) list"
    by (simp add: ordered_put_def)
  show "length (put_name n name ns) \<le> 128"
  proof (cases "map_of ns n")
    case None
    have "length (filter (\<lambda>x. fst x \<noteq> n) ?ns) \<le> length ?ns" by (rule length_filter_le)
    also have "length ?ns \<le> 127" using assms(2) None by (auto simp: mt_sizes)
    finally show ?thesis unfolding put_name_def len by linarith
  next
    case (Some v)
    then have "(n, v) \<in> set ns" by (rule map_of_SomeD)
    then have "length (filter (\<lambda>x. fst x \<noteq> n) ns) < length ns" by (intro length_filter_less [of "(n, v)"]) auto
    with Some assms(2) show ?thesis by (simp add: put_name_def len)
  qed
qed

lemma c_string_cut:
  assumes "length a = 32"
  shows "length (c_string (a[31 := 0])) \<le> 31"
proof (rule ccontr)
  assume "\<not> length (c_string (a[31 := 0])) \<le> 31"
  then have l: "31 < length (takeWhile (\<lambda>x. x \<noteq> 0) (a[31 := 0]))" by (simp add: c_string_def)
  then have "(a[31 := 0]) ! 31 \<noteq> 0" using set_takeWhileD [of "takeWhile (\<lambda>x. x \<noteq> 0) (a[31 := 0]) ! 31" "\<lambda>x. x \<noteq> 0"]
    by (metis nth_mem takeWhile_nth)
  with assms show False by simp
qed

lemma addChannel_mt_ok:
  assumes "mt_ok b" "length (key_bytes key) = 32" "key_length key = 16 \<or> key_length key = 32" "0 \<notin> set name" "length name \<le> 31"
  shows "\<exists>b'. addChannel_mt i name key b = Some b' \<and> mt_ok b' \<and> channels b' \<noteq> [] \<and> nodeNum b' = nodeNum b \<and> files b' = files b \<and>
    (\<exists>h. meshtastic_channel_hash name key = Some h \<and>
      \<lparr>ch_index = i, ch_name = name_array name, ch_key = key, ch_hash = h\<rparr> \<in> set (channels b'))"
proof -
  obtain h where h: "meshtastic_channel_hash name key = Some h" using assms(2,3) by (auto simp: meshtastic_channel_hash_def)
  let ?new = "\<lparr>ch_index = i, ch_name = name_array name, ch_key = key, ch_hash = h\<rparr>"
  let ?cs = "filter (\<lambda>ch. ch_index ch \<noteq> i) (channels b) @ [?new]"
  have "ordered (map ch_index (filter (\<lambda>ch. ch_index ch \<noteq> i) (channels b)))"
    using assms(1) by (intro ordered_filter) (simp add: mt_ok_def)
  then have "distinct (map ch_index ?cs)" by (auto simp: strict_sorted_iff)
  then have "ordered (map ch_index (sort_key ch_index ?cs))" by (rule ordered_sort)
  moreover have "c_string (name_array name) = name" using assms(4,5) by (simp add: c_string_name_array)
  then have "channel_ok_mt ?new" using assms(2,3) h by (simp add: channel_ok_mt_def)
  then have "list_all channel_ok_mt (sort_key ch_index ?cs)" using assms(1) by (auto simp: list_all_iff mt_ok_def)
  moreover have "set (sort_key ch_index ?cs) \<noteq> {}" by simp
  then have "sort_key ch_index ?cs \<noteq> []" by (metis set_empty)
  ultimately show ?thesis using assms(1) h by (auto simp: mt_ok_def addChannel_mt_def)
qed

lemma load_channels_mt_ok: "mt_ok b \<Longrightarrow> runs (load_channels_mt d b) (\<lambda>b'. mt_ok b' \<and> nodeNum b' = nodeNum b)"
proof (induction d b rule: load_channels_mt.induct)
  case (1 d b)
  show ?case
  proof (cases "CHANNEL_RECORD_SIZE \<le> length d")
    case False
    then show ?thesis using 1(2) by (simp add: load_channels_mt.simps)
  next
    case True
    define name where "name = c_string ((take 32 (drop 1 d))[MESH_NAME_MAX_LENGTH := 0])"
    define key where "key = \<lparr>key_bytes = take 32 (drop 34 d), key_length = d ! 33\<rparr>"
    have n: "0 \<notin> set name" "length name \<le> 31" "length (key_bytes key) = 32"
      using True c_string_cut [of "take 32 (drop 1 d)"] by (simp_all add: name_def key_def c_string_nonzero mt_sizes CHANNEL_RECORD_SIZE_def)
    have step: "\<exists>b'. (if key_length key = 16 \<or> key_length key = 32 then addChannel_mt (d ! 0) name key b else Some b) = Some b' \<and>
        mt_ok b' \<and> nodeNum b' = nodeNum b"
      using addChannel_mt_ok [OF 1(2) n(3) _ n(1,2), of "d ! 0"] 1(2) by auto
    then obtain b' where b': "(if key_length key = 16 \<or> key_length key = 32 then addChannel_mt (d ! 0) name key b else Some b) = Some b'"
      "mt_ok b'" "nodeNum b' = nodeNum b" by blast
    from 1(1) [OF True name_def key_def b'(1,2)] b'(3)
    have "runs (load_channels_mt (drop CHANNEL_RECORD_SIZE d) b') (\<lambda>x. mt_ok x \<and> nodeNum x = nodeNum b)" by simp
    moreover have "load_channels_mt d b = load_channels_mt (drop CHANNEL_RECORD_SIZE d) b'"
      by (subst load_channels_mt.simps)
        (simp only: True if_True Let_def name_def [symmetric] key_def [symmetric] b'(1) option.case)
    ultimately show ?thesis by simp
  qed
qed

lemma default_key: "\<exists>key. meshtastic_expand_psk [1] zero_key = Some key \<and> length (key_bytes key) = 32 \<and> key_length key = 16"
  by (simp add: meshtastic_expand_psk_def zero_key_def MESHTASTIC_DEFAULT_KEY_def Let_def)

lemma expand_psk_ok:
  assumes "meshtastic_expand_psk psk zero_key = Some key"
  shows "length (key_bytes key) = 32" "key_length key = 16 \<or> key_length key = 32"
  using assms by (auto simp: meshtastic_expand_psk_def zero_key_def MESHTASTIC_DEFAULT_KEY_def Let_def split: if_splits)

lemma loadChannels_mt_ok:
  assumes "mt_ok b"
  shows "runs (loadChannels_mt e b) (\<lambda>b'. mt_ok b' \<and> channels b' \<noteq> [] \<and> nodeNum b' = nodeNum b)"
proof -
  let ?m = "case data_path e ''channels.bin'' of None \<Rightarrow> Some b
    | Some p \<Rightarrow> (case readFile e p b of None \<Rightarrow> Some b | Some d \<Rightarrow> load_channels_mt d b)"
  have "runs ?m (\<lambda>b'. mt_ok b' \<and> nodeNum b' = nodeNum b)"
    using assms load_channels_mt_ok [OF assms] by (auto split: option.split)
  then obtain b1 where b1: "?m = Some b1" "mt_ok b1" "nodeNum b1 = nodeNum b" by (auto simp: runs_def split: option.splits)
  obtain key where key: "meshtastic_expand_psk [1] zero_key = Some key" "length (key_bytes key) = 32" "key_length key = 16"
    using default_key by blast
  have "0 \<notin> set DEFAULT_CHANNEL_NAME" "length DEFAULT_CHANNEL_NAME \<le> 31" by (simp_all add: DEFAULT_CHANNEL_NAME_def)
  from addChannel_mt_ok [OF b1(2) key(2) _ this, of 0] key(3)
  obtain b2 where "addChannel_mt 0 DEFAULT_CHANNEL_NAME key b1 = Some b2" "mt_ok b2" "channels b2 \<noteq> []" "nodeNum b2 = nodeNum b1" by auto
  with b1 key(1) show ?thesis by (simp add: loadChannels_mt_def)
qed

lemma create_mt_ok:
  assumes "lively e" "create_mt True e fs cs n = r"
  shows "\<exists>b. r = Some (Some b) \<and> mt_ok b \<and> channels b \<noteq> []"
proof -
  let ?b = "Backend_mt_init fs cs n"
  have ok: "mt_ok ?b" by (simp add: mt_ok_def Backend_mt_init_def)
  obtain w k where w: "draw_until (\<lambda>w. \<not> (w < 4 \<or> w = MESHTASTIC_BROADCAST)) (randomU32 e) (drawn ?b) = Some (w, k)"
    using lively_draws(2) [OF assms(1)] by blast
  have drawn: "draw_until (\<lambda>w. \<not> (w < 4 \<or> w = MESHTASTIC_BROADCAST)) (randomU32 e) (drawn ?b) \<bind>
      (\<lambda>(w, n). Some (f w n)) = Some (f w k)" for f :: "32 word \<Rightarrow> nat \<Rightarrow> Backend_mt" using w by simp
  have "\<exists>b. loadOrCreateNodeNum e ?b = Some b \<and> mt_ok b"
    unfolding loadOrCreateNodeNum_def Let_def drawn using ok by (simp add: mt_ok_frame split: option.split)
  then obtain b where b: "loadOrCreateNodeNum e ?b = Some b" "mt_ok b" by blast
  from loadChannels_mt_ok [OF b(2), of e] b(1) assms(2) show ?thesis
    by (auto simp: create_mt_def runs_def split: option.splits)
qed

section \<open>Every operation returns and keeps the invariant\<close>

lemma sendNodeInfo_runs:
  assumes "lively e" "mt_ok b"
  shows "runs (sendNodeInfo e b) (\<lambda>b'. mt_ok b' \<and> pendingAcks b' = pendingAcks b \<and> channels b' = channels b \<and> nodeNum b' = nodeNum b \<and>
    (\<exists>sent. calls b' = calls b @ sent \<and> length sent \<le> 1 \<and> (\<forall>c\<in>set sent. \<exists>f. c = Transmit f 0)))"
proof -
  obtain w n where w: "newPacketId e b = Some (w, b\<lparr>drawn := n\<rparr>)" using newPacketId_returns [OF assms(1)] by blast
  have ok: "mt_ok (b\<lparr>drawn := n\<rparr>)" using assms(2) by (simp add: mt_ok_frame)
  have sent: "\<exists>sent. calls (snd (transmit_mt e ch h d 0 b)) = calls b @ sent \<and> length sent \<le> 1 \<and> (\<forall>c\<in>set sent. \<exists>f. c = Transmit f 0)"
    for ch h d and b :: Backend_mt
    by (auto simp: transmit_mt_def mt_frame Let_def split: option.split)
  show ?thesis
  proof (cases "findChannel_mt 0 (channels b)")
    case None
    with w ok show ?thesis by (simp add: sendNodeInfo_def mt_ok_frame Let_def)
  next
    case (Some ch)
    with w transmit_mt_ok [OF ok] sent [where b = "b\<lparr>drawn := n\<rparr>"] show ?thesis
      by (simp add: sendNodeInfo_def mt_ok_frame Let_def mt_frame)
  qed
qed

lemma sendRoutingAck_runs:
  assumes "lively e" "mt_ok b"
  shows "runs (sendRoutingAck e ch to_node req b) mt_ok"
proof -
  obtain w n where w: "newPacketId e b = Some (w, b\<lparr>drawn := n\<rparr>)" using newPacketId_returns [OF assms(1)] by blast
  have "mt_ok (b\<lparr>drawn := n\<rparr>)" using assms(2) by (simp add: mt_ok_frame)
  then show ?thesis using w by (simp add: sendRoutingAck_def Let_def transmit_mt_ok)
qed

lemma onData_runs:
  assumes "lively e" "mt_ok b"
  shows "runs (onData e ch header data sig b) mt_ok"
proof -
  have "runs (sendRoutingAck e ch (h_from header) (h_id header) b) mt_ok" by (rule sendRoutingAck_runs [OF assms])
  then obtain b1 where b1: "sendRoutingAck e ch (h_from header) (h_id header) b = Some b1" "mt_ok b1"
    by (auto simp: runs_def split: option.splits)
  have "mt_ok (b\<lparr>names := put_name n name (names b)\<rparr>)" for n name
    using assms(2) put_name_ok by (simp add: mt_ok_def)
  moreover have "mt_ok (b\<lparr>pendingAcks := ordered_erase k (pendingAcks b)\<rparr>)" for k
    using assms(2) by (simp add: mt_ok_def ordered_erase_ordered)
  moreover have "(host c b)\<lparr>pendingAcks := x\<rparr> = host c (b\<lparr>pendingAcks := x\<rparr>)" for c x by (simp add: host_def)
  ultimately show ?thesis using assms(2) b1
    by (auto simp: onData_def Let_def mt_ok_frame split: option.split)
qed

lemma channel_loop_runs:
  "lively e \<Longrightarrow> mt_ok b \<Longrightarrow> runs (channel_loop e chs header c sig b) (\<lambda>r. mt_ok (snd r))"
proof (induction chs)
  case (Cons ch chs)
  have "runs (map_option (Pair True) (onData e ch header data sig b)) (\<lambda>r. mt_ok (snd r))" for data
    using onData_runs [OF Cons.prems, of ch header data sig] by (auto simp: runs_def split: option.splits)
  with Cons show ?case by (auto split: option.split)
qed simp

lemma onReceive_mt_runs:
  assumes "lively e" "mt_ok b"
  shows "runs (onReceive_mt e frame sig b) (\<lambda>r. mt_ok (snd r))"
proof -
  have "mt_ok (host c (b\<lparr>seenPackets := remember_mt k (seenPackets b)\<rparr>))" for c k
    using assms(2) remember_mt_length by (simp add: mt_ok_def mt_frame)
  from channel_loop_runs [OF assms(1) this] show ?thesis
    using assms(2) by (auto simp: onReceive_mt_def Let_def mt_frame split: option.split)
qed

lemma sendText_mt_runs:
  assumes "lively e" "mt_ok b"
  shows "runs (sendText_mt e seq dest i txt b) (\<lambda>r. mt_ok (snd r))"
proof -
  obtain w n where w: "newPacketId e b = Some (w, b\<lparr>drawn := n\<rparr>)" using newPacketId_returns [OF assms(1)] by blast
  have ok: "mt_ok (b\<lparr>drawn := n\<rparr>)" using assms(2) by (simp add: mt_ok_frame)
  have put: "mt_ok (b\<lparr>pendingAcks := ordered_put k v (pendingAcks b)\<rparr>)" if "mt_ok b" for b :: Backend_mt and k v
    using that by (simp add: mt_ok_def ordered_put_ordered)
  have sent: "runs (case transmit_mt e ch h d seq (b\<lparr>drawn := n\<rparr>) of (ok, b) \<Rightarrow>
      if \<not> ok then Some (ERROR_RESOURCE, b)
      else if wantAck h then Some (ERROR_NONE, b\<lparr>pendingAcks := ordered_put (h_id h) a (pendingAcks b)\<rparr>)
      else Some (ERROR_NONE, b)) (\<lambda>r. mt_ok (snd r))" for ch h d a
    using transmit_mt_ok [OF ok, of e ch h d seq] put by (auto split: prod.split)
  show ?thesis
    using w ok sent by (auto simp: sendText_mt_def Let_def split: option.split)
qed

lemma onTick_mt_runs:
  assumes "lively e" "mt_ok b"
  shows "runs (onTick_mt e b) mt_ok"
proof -
  have "runs (if millis e - lastNodeInfoMs b \<ge> NODE_INFO_INTERVAL_MS then sendNodeInfo e b else Some b) mt_ok"
    using sendNodeInfo_runs [OF assms] assms(2) by (auto simp: runs_def split: option.splits)
  then obtain b1 where b1: "(if millis e - lastNodeInfoMs b \<ge> NODE_INFO_INTERVAL_MS then sendNodeInfo e b else Some b) = Some b1" "mt_ok b1"
    by (auto simp: runs_def split: option.splits)
  then have "mt_ok (b1\<lparr>pendingAcks := filter P (pendingAcks b1), calls := cs\<rparr>)" for P cs
    using ordered_filter [of fst "pendingAcks b1" P] by (simp add: mt_ok_def)
  then show ?thesis using b1(1) by (simp add: onTick_mt_def expire_acks_filter)
qed

lemma setChannel_mt_runs:
  assumes "mt_ok b" "length (c_string (mc_name mc)) \<le> 31"
  shows "runs (setChannel_mt e mc b) (\<lambda>r. mt_ok (snd r))"
proof (cases "meshtastic_expand_psk (psk_of mc) zero_key")
  case None
  then show ?thesis using assms(1) by (simp add: setChannel_mt_def)
next
  case (Some key)
  from addChannel_mt_ok [OF assms(1) expand_psk_ok [OF Some] c_string_nonzero assms(2), of "mc_index mc"] Some assms(1)
  show ?thesis by (auto simp: setChannel_mt_def mt_ok_frame)
qed

lemma removeChannel_mt_ok: "mt_ok b \<Longrightarrow> mt_ok (snd (removeChannel_mt e i b))"
  using ordered_filter [of ch_index "channels b" "\<lambda>ch. ch_index ch \<noteq> i"]
  by (auto simp: removeChannel_mt_def Let_def mt_ok_frame) (auto simp: mt_ok_def list_all_iff)

inductive mt_reachable :: "Backend_mt \<Rightarrow> bool" where
  created: "lively e \<Longrightarrow> create_mt True e fs cs n = Some (Some b) \<Longrightarrow> mt_reachable b"
| started: "mt_reachable b \<Longrightarrow> lively e \<Longrightarrow> onStart_mt e b = Some b' \<Longrightarrow> mt_reachable b'"
| renamed: "mt_reachable b \<Longrightarrow> lively e \<Longrightarrow> onNodeNameChanged_mt e b = Some b' \<Longrightarrow> mt_reachable b'"
| received: "mt_reachable b \<Longrightarrow> lively e \<Longrightarrow> onReceive_mt e frame sig b = Some (r, b') \<Longrightarrow> mt_reachable b'"
| ticked: "mt_reachable b \<Longrightarrow> lively e \<Longrightarrow> onTick_mt e b = Some b' \<Longrightarrow> mt_reachable b'"
| sent: "mt_reachable b \<Longrightarrow> lively e \<Longrightarrow> sendText_mt e seq dest i txt b = Some (r, b') \<Longrightarrow> mt_reachable b'"
| set_channel: "mt_reachable b \<Longrightarrow> length (c_string (mc_name mc)) \<le> 31 \<Longrightarrow> setChannel_mt e mc b = Some (r, b') \<Longrightarrow> mt_reachable b'"
| removed: "mt_reachable b \<Longrightarrow> removeChannel_mt e i b = (r, b') \<Longrightarrow> mt_reachable b'"

lemma runsD: "runs m Q \<Longrightarrow> m = Some x \<Longrightarrow> Q x"
  by simp

lemma mt_reachable_ok: "mt_reachable b \<Longrightarrow> mt_ok b"
proof (induction rule: mt_reachable.induct)
  case (created e fs cs n b)
  then show ?case using create_mt_ok [OF created(1) refl, of fs cs n] by simp
next
  case (started b e b')
  then show ?case using sendNodeInfo_runs [of e b] by (simp add: onStart_mt_def)
next
  case (renamed b e b')
  then show ?case using sendNodeInfo_runs [of e b] by (simp add: onNodeNameChanged_mt_def)
next
  case (received b e frame sig r b')
  then show ?case using onReceive_mt_runs [of e b frame sig] by simp
next
  case (ticked b e b')
  then show ?case using onTick_mt_runs [of e b] by simp
next
  case (sent b e q a i m r b')
  then show ?case using sendText_mt_runs [of e b q a i m] by simp
next
  case (set_channel b mc e r b')
  then show ?case using setChannel_mt_runs [of b mc e] by simp
next
  case (removed b e i r b')
  then show ?case using removeChannel_mt_ok [of b e i] by simp
qed

text \<open>
  C6: whatever a Meshtastic node is asked to do and whatever bytes it receives, every operation
  returns as long as the random source keeps giving acceptable numbers, and the state keeps its bounds:
  channels in the order of distinct indices, each with a key of 16 or 32 bytes and the hash that
  belongs to its name and key, at most 64 remembered packets and 128 names, one pending
  acknowledgement per packet id.
\<close>

theorem mt_node_safe:
  assumes "mt_reachable b"
  shows "mt_ok b \<and> (\<forall>e frame sig seq dest i txt mc. lively e \<longrightarrow> length (c_string (mc_name mc)) \<le> 31 \<longrightarrow>
     onReceive_mt e frame sig b \<noteq> None \<and> onTick_mt e b \<noteq> None \<and> onStart_mt e b \<noteq> None \<and> onNodeNameChanged_mt e b \<noteq> None \<and>
     sendText_mt e seq dest i txt b \<noteq> None \<and> setChannel_mt e mc b \<noteq> None \<and> create_mt True e fs cs n \<noteq> None)"
proof (intro conjI allI impI)
  show ok: "mt_ok b" by (rule mt_reachable_ok [OF assms])
  fix e frame sig seq dest i m and mc :: MeshChannel assume e: "lively e" and mc: "length (c_string (mc_name mc)) \<le> 31"
  show "onReceive_mt e frame sig b \<noteq> None" by (rule runs_returns [OF onReceive_mt_runs [OF e ok]])
  show "onTick_mt e b \<noteq> None" by (rule runs_returns [OF onTick_mt_runs [OF e ok]])
  show "onStart_mt e b \<noteq> None" unfolding onStart_mt_def by (rule runs_returns [OF sendNodeInfo_runs [OF e ok]])
  show "onNodeNameChanged_mt e b \<noteq> None" unfolding onNodeNameChanged_mt_def by (rule runs_returns [OF sendNodeInfo_runs [OF e ok]])
  show "sendText_mt e seq dest i m b \<noteq> None" by (rule runs_returns [OF sendText_mt_runs [OF e ok]])
  show "setChannel_mt e mc b \<noteq> None" by (rule runs_returns [OF setChannel_mt_runs [OF ok mc]])
  show "create_mt True e fs cs n \<noteq> None" using create_mt_ok [OF e refl, of fs cs n] by auto
qed

section \<open>A frame from one node to another\<close>

text \<open>What AES in counter mode promises, and that it does not fail for a key that was accepted.\<close>

definition reliable :: "psa \<Rightarrow> bool" where
  "reliable p \<longleftrightarrow> (\<exists>stream. ctr_mode p stream) \<and>
     (\<forall>k iv x. psa_import_key p k \<longrightarrow> (\<exists>out. psa_aes_ctr p k iv x = Some out \<and> length out = length x))"

lemma crypt_other:
  assumes "reliable p" "meshtastic_crypt p key i f x \<noteq> None"
  shows "\<exists>out. meshtastic_crypt p key j g y = Some out \<and> length out = length y \<and> meshtastic_crypt p key j g out = Some y"
proof -
  have "psa_import_key p (take (unat (key_length key)) (key_bytes key))"
    using assms(2) by (auto simp: meshtastic_crypt_def Let_def split: if_splits)
  with assms(1) obtain out where "psa_aes_ctr p (take (unat (key_length key)) (key_bytes key)) (meshtastic_nonce j g) y = Some out"
    "length out = length y"
    unfolding reliable_def by blast
  then have out: "meshtastic_crypt p key j g y = Some out" "length out = length y"
    using \<open>psa_import_key p _\<close> by (simp_all add: meshtastic_crypt_def Let_def)
  moreover from assms(1) obtain stream where "ctr_mode p stream" by (auto simp: reliable_def)
  from decrypt_encrypt [OF this out(1)] have "meshtastic_crypt p key j g out = Some y" .
  ultimately show ?thesis by blast
qed

lemma encode_data_nonempty: "meshtastic_encode_data d \<noteq> []"
  by (simp add: meshtastic_encode_data_def)

lemma encode_payload_length: "length (payload d) \<le> length (meshtastic_encode_data d)"
  by (simp add: meshtastic_encode_data_def writeBytes_def)

lemma decode_encoded:
  assumes "length (meshtastic_encode_data d) \<le> 237"
  shows "meshtastic_decode_data (meshtastic_encode_data d) = Some d"
proof -
  have "length (payload d) < 2 ^ 64" using assms encode_payload_length [of d] by simp
  from decode_encoded_data [OF this, of "[]"] show ?thesis by (simp add: meshtastic_decode_data_def)
qed

text \<open>The header that goes over the air, as the receiver reads it.\<close>

definition air_header :: "MeshtasticHeader \<Rightarrow> Channel_mt \<Rightarrow> Backend_mt \<Rightarrow> MeshtasticHeader" where
  "air_header h ch b = (h\<lparr>h_from := nodeNum b, channelHash := ch_hash ch, relayNode := ucast (nodeNum b)\<rparr>)
     \<lparr>hopLimit := hopLimit h AND 0x07, hopStart := hopStart h AND 0x07\<rparr>"

definition air_frame :: "mt_env \<Rightarrow> Channel_mt \<Rightarrow> MeshtasticHeader \<Rightarrow> MeshtasticData \<Rightarrow> Backend_mt \<Rightarrow> byte list" where
  "air_frame e ch h d b = meshtastic_write_header (h\<lparr>h_from := nodeNum b, channelHash := ch_hash ch, relayNode := ucast (nodeNum b)\<rparr>) @
     the (meshtastic_crypt (psa_lib e) (ch_key ch) (h_id h) (nodeNum b) (meshtastic_encode_data d))"

lemma transmit_mt_cases:
  "transmit_mt e ch h d seq b =
     (if length (meshtastic_encode_data d) > 237 \<or>
         meshtastic_crypt (psa_lib e) (ch_key ch) (h_id h) (nodeNum b) (meshtastic_encode_data d) = None then (False, b)
      else (transmit_result e (air_frame e ch h d b) seq = ERROR_NONE, host (Transmit (air_frame e ch h d b) seq)
        (b\<lparr>seenPackets := remember_mt (nodeNum b, h_id h) (seenPackets b)\<rparr>)))"
  by (auto simp: transmit_mt_def air_frame_def Let_def mt_sizes)

lemma channel_loop_skip:
  "(\<And>x. x \<in> set pre \<Longrightarrow> ch_hash x \<noteq> channelHash h) \<Longrightarrow> channel_loop e (pre @ chs) h c sig b = channel_loop e chs h c sig b"
  by (induction pre) simp_all

lemma receive_frame:
  assumes "reliable (psa_lib e)" "psa_lib e' = psa_lib e"
    and "length (meshtastic_encode_data d) \<le> 237"
      "meshtastic_crypt (psa_lib e) (ch_key ch) (h_id h) (nodeNum a) (meshtastic_encode_data d) \<noteq> None"
    and "channels b = pre @ ch' # post" "\<forall>x\<in>set pre. ch_hash x \<noteq> ch_hash ch" "ch_hash ch' = ch_hash ch" "ch_key ch' = ch_key ch"
    and "nodeNum a \<noteq> nodeNum b" "(nodeNum a, h_id h) \<notin> set (seenPackets b)"
  shows "onReceive_mt e' (air_frame e ch h d a) sig b = map_option (Pair True) (onData e' ch' (air_header h ch a) d sig
    (host (NodeHeard (toAddress_mt (nodeNum a)) None sig) (b\<lparr>seenPackets := remember_mt (nodeNum a, h_id h) (seenPackets b)\<rparr>)))"
proof -
  let ?h = "h\<lparr>h_from := nodeNum a, channelHash := ch_hash ch, relayNode := ucast (nodeNum a)\<rparr>"
  obtain c where c: "meshtastic_crypt (psa_lib e) (ch_key ch) (h_id h) (nodeNum a) (meshtastic_encode_data d) = Some c"
    "length c = length (meshtastic_encode_data d)" "meshtastic_crypt (psa_lib e) (ch_key ch) (h_id h) (nodeNum a) c = Some (meshtastic_encode_data d)"
    using crypt_other [OF assms(1,4), of "h_id h" "nodeNum a" "meshtastic_encode_data d"] by blast
  have f: "air_frame e ch h d a = meshtastic_write_header ?h @ c" by (simp add: air_frame_def c(1))
  have r: "meshtastic_read_header (air_frame e ch h d a) = Some (air_header h ch a)"
    unfolding f read_write_header by (simp add: air_header_def)
  have len: "length (air_frame e ch h d a) = 16 + length c" "c \<noteq> []" "length c \<le> 237"
    using c(2) assms(3) encode_data_nonempty [of d] by (auto simp: f)
  have dr: "drop 16 (air_frame e ch h d a) = c" by (simp add: f)
  have sel: "h_from (air_header h ch a) = nodeNum a" "h_id (air_header h ch a) = h_id h" "channelHash (air_header h ch a) = ch_hash ch"
    by (simp_all add: air_header_def)
  have "channel_loop e' (pre @ ch' # post) (air_header h ch a) c sig b' = map_option (Pair True) (onData e' ch' (air_header h ch a) d sig b')" for b'
    using assms(2,6-8) c(3) decode_encoded [OF assms(3)] by (subst channel_loop_skip) (auto simp: sel)
  with len assms(5,9,10) show ?thesis
    by (simp add: onReceive_mt_def r sel Let_def mt_sizes dr mt_frame)
qed

section \<open>A text message and its acknowledgement\<close>

lemma toAddress_node: "readU32 (addr_bytes (toAddress_mt n)) 0 = n" "addr_length (toAddress_mt n) = 4"
  by (simp_all add: toAddress_mt_def readU32_def le32_unfold from_le32_le32)

definition text_data :: "byte list \<Rightarrow> MeshtasticData" where
  "text_data txt = MeshtasticData_init\<lparr>port := PORT_TextMessage, payload := txt\<rparr>"

definition ack_data :: "32 word \<Rightarrow> MeshtasticData" where
  "ack_data packetId = MeshtasticData_init\<lparr>port := PORT_Routing, payload := meshtastic_encode_routing_ack, requestId := packetId\<rparr>"

lemma ports: "PORT_TextMessage \<noteq> PORT_NodeInfo" "PORT_TextMessage \<noteq> PORT_Routing" "PORT_NodeInfo \<noteq> PORT_Routing"
  by (simp_all add: PORT_TextMessage_def PORT_NodeInfo_def PORT_Routing_def)

lemma text_data_sel: "port (text_data m) = PORT_TextMessage" "payload (text_data m) = m"
  "port (ack_data k) = PORT_Routing" "requestId (ack_data k) = k" "payload (ack_data k) = meshtastic_encode_routing_ack"
  by (simp_all add: text_data_def ack_data_def)

lemma ack_is_short: "length (meshtastic_encode_data (ack_data k)) \<le> 237"
proof -
  have "length (writeVarint v) \<le> 10" for v
  proof -
    have "unat v < 2 ^ (7 * 10)" by (rule order_less_le_trans [OF unsigned_less]) simp
    then show ?thesis by (rule writeVarint_length_step) simp
  qed
  note w = this
  have t: "length (writeTag f x) \<le> 10" for f x unfolding writeTag_def by (rule w)
  have "length (meshtastic_encode_routing_ack) \<le> 20" unfolding meshtastic_encode_routing_ack_def using t [of 3 WIRE_VARINT] w [of 0] by simp
  moreover have "length (writeBytes 2 bs) \<le> 20 + length bs" for bs
    unfolding writeBytes_def using t [of 2 WIRE_LENGTH_DELIMITED] w [of "of_nat (length bs)"] by simp
  moreover have "length (writeFixed32 6 k) \<le> 14" unfolding writeFixed32_def using t [of 6 WIRE_FIXED32] by simp
  moreover have "length (meshtastic_encode_data (ack_data k)) \<le>
      length (writeTag 1 WIRE_VARINT) + length (writeVarint (ucast PORT_Routing)) + length (writeBytes 2 meshtastic_encode_routing_ack) + length (writeFixed32 6 k)"
    by (simp add: meshtastic_encode_data_def ack_data_def MeshtasticData_init_def)
  moreover have "length (writeBytes 2 meshtastic_encode_routing_ack) \<le> 20 + length meshtastic_encode_routing_ack" by fact
  ultimately show ?thesis using t [of 1 WIRE_VARINT] w [of "ucast PORT_Routing"] by linarith
qed

lemma ack_means_delivered: "getRoutingError meshtastic_encode_routing_ack = 0"
  by (simp add: meshtastic_encode_routing_ack_def getRoutingError_def writeTag_def WIRE_VARINT_def writeVarint.simps)

lemma sendText_mt_accepted:
  assumes "sendText_mt e seq (Some (toAddress_mt n)) i txt a = Some (ERROR_NONE, a')"
  shows "\<exists>ch k m. findChannel_mt 0 (channels a) = Some ch \<and> length (meshtastic_encode_data (text_data txt)) \<le> 237 \<and>
    meshtastic_crypt (psa_lib e) (ch_key ch) k (nodeNum a) (meshtastic_encode_data (text_data txt)) \<noteq> None \<and>
    (let h = MeshtasticHeader_init\<lparr>h_id := k, h_to := n, wantAck := True\<rparr> in
      a' = (host (Transmit (air_frame e ch h (text_data txt) a) seq) (a\<lparr>drawn := m,
         seenPackets := remember_mt (nodeNum a, k) (seenPackets a)\<rparr>))\<lparr>pendingAcks :=
           ordered_put k \<lparr>ack_seq = seq, ack_deadlineMs = millis e + ACK_TIMEOUT_MS_mt\<rparr> (pendingAcks a)\<rparr>)"
proof -
  obtain k m where k: "newPacketId e a = Some (k, a\<lparr>drawn := m\<rparr>)"
    using assms by (auto simp: sendText_mt_def newPacketId_def bind_Some_iff)
  let ?h = "MeshtasticHeader_init\<lparr>h_id := k, h_to := n, wantAck := True\<rparr>"
  have af: "air_frame e ch ?h d (a\<lparr>drawn := m\<rparr>) = air_frame e ch ?h d a" for ch d by (simp add: air_frame_def)
  from assms k obtain ch where ch: "findChannel_mt 0 (channels a) = Some ch"
    by (auto simp: sendText_mt_def toAddress_node Let_def split: option.splits)
  obtain ok b1 where t: "transmit_mt e ch ?h (text_data txt) seq (a\<lparr>drawn := m\<rparr>) = (ok, b1)" by fastforce
  with assms k ch have ok: "ok" "a' = b1\<lparr>pendingAcks := ordered_put k \<lparr>ack_seq = seq, ack_deadlineMs = millis e + ACK_TIMEOUT_MS_mt\<rparr> (pendingAcks b1)\<rparr>"
    by (auto simp: sendText_mt_def toAddress_node text_data_def [symmetric] Let_def split: if_splits)
  from t ok(1) have "length (meshtastic_encode_data (text_data txt)) \<le> 237"
    "meshtastic_crypt (psa_lib e) (ch_key ch) k (nodeNum a) (meshtastic_encode_data (text_data txt)) \<noteq> None"
    "b1 = host (Transmit (air_frame e ch ?h (text_data txt) a) seq) (a\<lparr>drawn := m, seenPackets := remember_mt (nodeNum a, k) (seenPackets a)\<rparr>)"
    by (auto simp: transmit_mt_cases af split: if_splits)
  with ch ok(2) show ?thesis by (auto simp: Let_def mt_frame)
qed

lemma primary_first:
  assumes "mt_ok b" "findChannel_mt 0 (channels b) = Some ch"
  shows "\<exists>post. channels b = ch # post"
proof (cases "channels b")
  case (Cons c cs)
  have "findChannel_mt i xs = None" if "\<forall>x\<in>set xs. ch_index x \<noteq> i" for i xs using that by (induction xs) auto
  moreover have "\<forall>x\<in>set cs. ch_index x \<noteq> 0" using assms(1) Cons by (auto simp: mt_ok_def)
  ultimately show ?thesis using assms(2) Cons by (auto split: if_splits)
qed (use assms(2) in simp)

lemma sendRoutingAck_sends:
  assumes "lively e" "reliable (psa_lib e)" "meshtastic_crypt (psa_lib e) (ch_key ch) i f x \<noteq> None"
  shows "\<exists>k n. sendRoutingAck e ch to_node req b = Some (host (Transmit (air_frame e ch (MeshtasticHeader_init\<lparr>h_to := to_node, h_id := k\<rparr>) (ack_data req) b) 0)
    (b\<lparr>drawn := n, seenPackets := remember_mt (nodeNum b, k) (seenPackets b)\<rparr>))"
proof -
  obtain k n where k: "newPacketId e b = Some (k, b\<lparr>drawn := n\<rparr>)" using newPacketId_returns [OF assms(1)] by blast
  let ?h = "MeshtasticHeader_init\<lparr>h_to := to_node, h_id := k\<rparr>"
  obtain y where "meshtastic_crypt (psa_lib e) (ch_key ch) k (nodeNum b) (meshtastic_encode_data (ack_data req)) = Some y"
    using crypt_other [OF assms(2,3)] by blast
  then have "transmit_mt e ch ?h (ack_data req) 0 (b\<lparr>drawn := n\<rparr>) =
    (transmit_result e (air_frame e ch ?h (ack_data req) (b\<lparr>drawn := n\<rparr>)) 0 = ERROR_NONE, host (Transmit (air_frame e ch ?h (ack_data req) (b\<lparr>drawn := n\<rparr>)) 0)
       (b\<lparr>drawn := n, seenPackets := remember_mt (nodeNum b, k) (seenPackets b)\<rparr>))"
    using ack_is_short [of req] by (simp add: transmit_mt_cases)
  moreover have "air_frame e ch ?h d (b\<lparr>drawn := n\<rparr>) = air_frame e ch ?h d b" for d by (simp add: air_frame_def)
  ultimately have "sendRoutingAck e ch to_node req b = Some (host (Transmit (air_frame e ch ?h (ack_data req) b) 0)
       (b\<lparr>drawn := n, seenPackets := remember_mt (nodeNum b, k) (seenPackets b)\<rparr>))"
    using k by (simp add: sendRoutingAck_def ack_data_def)
  then show ?thesis by blast
qed

lemma same_hash: "channel_ok_mt c \<Longrightarrow> channel_ok_mt d \<Longrightarrow> ch_name c = ch_name d \<Longrightarrow> ch_key c = ch_key d \<Longrightarrow> ch_hash c = ch_hash d"
  by (simp add: channel_ok_mt_def)

definition same_channel :: "Channel_mt \<Rightarrow> Channel_mt \<Rightarrow> bool" where
  "same_channel c d \<longleftrightarrow> ch_name c = ch_name d \<and> ch_key c = ch_key d"

text \<open>What the receiver of a text makes of it.\<close>

lemma text_arrives:
  assumes r: "reliable (psa_lib e)" "psa_lib eb = psa_lib e" "lively eb"
    and fit: "length (meshtastic_encode_data (text_data m)) \<le> 237"
      "meshtastic_crypt (psa_lib e) (ch_key ca) (h_id h) (nodeNum a) (meshtastic_encode_data (text_data m)) \<noteq> None"
    and ch: "channels b = cb # post" "ch_hash cb = ch_hash ca" "ch_key cb = ch_key ca"
    and new: "nodeNum a \<noteq> nodeNum b" "(nodeNum a, h_id h) \<notin> set (seenPackets b)"
    and h: "h_to h = nodeNum b" "wantAck h"
  shows "\<exists>k b'. onReceive_mt eb (air_frame e ca h (text_data m) a) sig b = Some (True, b') \<and>
    calls b' = calls b @ [NodeHeard (toAddress_mt (nodeNum a)) None sig,
      Transmit (air_frame eb cb (MeshtasticHeader_init\<lparr>h_to := nodeNum a, h_id := k\<rparr>) (ack_data (h_id h)) b) 0,
      ReceiveText (Some (toAddress_mt (nodeNum a))) (ch_index cb) (c_string (getSenderName (nodeNum a) b)) (c_string m) sig 0]"
proof -
  let ?b = "host (NodeHeard (toAddress_mt (nodeNum a)) None sig) (b\<lparr>seenPackets := remember_mt (nodeNum a, h_id h) (seenPackets b)\<rparr>)"
  have "meshtastic_crypt (psa_lib eb) (ch_key cb) (h_id h) (nodeNum a) (meshtastic_encode_data (text_data m)) \<noteq> None"
    using fit(2) r(2) ch(3) by simp
  with sendRoutingAck_sends [OF r(3)] r(1,2) obtain k n where ack: "sendRoutingAck eb cb (nodeNum a) (h_id h) ?b =
      Some (host (Transmit (air_frame eb cb (MeshtasticHeader_init\<lparr>h_to := nodeNum a, h_id := k\<rparr>) (ack_data (h_id h)) ?b) 0)
      (?b\<lparr>drawn := n, seenPackets := remember_mt (nodeNum ?b, k) (seenPackets ?b)\<rparr>))"
    by metis
  have af: "air_frame eb cb g d ?b = air_frame eb cb g d b" for g d by (simp add: air_frame_def mt_frame)
  have "onReceive_mt eb (air_frame e ca h (text_data m) a) sig b = map_option (Pair True) (onData eb cb (air_header h ca a) (text_data m) sig ?b)"
    using receive_frame [OF r(1,2) fit, of b "[]" cb post sig] ch new by simp
  also have "onData eb cb (air_header h ca a) (text_data m) sig ?b = Some (host (ReceiveText (Some (toAddress_mt (nodeNum a))) (ch_index cb)
      (c_string (getSenderName (nodeNum a) b)) (c_string m) sig 0)
     (host (Transmit (air_frame eb cb (MeshtasticHeader_init\<lparr>h_to := nodeNum a, h_id := k\<rparr>) (ack_data (h_id h)) b) 0)
      (?b\<lparr>drawn := n, seenPackets := remember_mt (nodeNum ?b, k) (seenPackets ?b)\<rparr>)))"
    using h ack by (simp add: onData_def Let_def text_data_sel air_header_def mt_frame af getSenderName_def)
  finally show ?thesis by (auto simp: mt_frame)
qed

text \<open>What the sender makes of the acknowledgement.\<close>

lemma ack_arrives:
  assumes r: "reliable (psa_lib e)" "psa_lib ea = psa_lib e"
    and crypt: "meshtastic_crypt (psa_lib e) (ch_key cb) i f x \<noteq> None"
    and ch: "channels a = ca # post" "ch_hash ca = ch_hash cb" "ch_key ca = ch_key cb"
    and new: "nodeNum b \<noteq> nodeNum a" "(nodeNum b, h_id h) \<notin> set (seenPackets a)"
    and h: "h_to h = nodeNum a" and p: "map_of (pendingAcks a) k = Some p"
  shows "\<exists>a'. onReceive_mt ea (air_frame e cb h (ack_data k) b) sig a = Some (True, a') \<and>
    calls a' = calls a @ [NodeHeard (toAddress_mt (nodeNum b)) None sig, SetDelivery (ack_seq p) DELIVERY_DELIVERED] \<and>
    pendingAcks a' = ordered_erase k (pendingAcks a)"
proof -
  let ?a = "host (NodeHeard (toAddress_mt (nodeNum b)) None sig) (a\<lparr>seenPackets := remember_mt (nodeNum b, h_id h) (seenPackets a)\<rparr>)"
  obtain y where "meshtastic_crypt (psa_lib e) (ch_key cb) (h_id h) (nodeNum b) (meshtastic_encode_data (ack_data k)) = Some y"
    using crypt_other [OF r(1) crypt] by blast
  with receive_frame [OF r ack_is_short, of cb h b k a "[]" ca post sig] ch new
  have "onReceive_mt ea (air_frame e cb h (ack_data k) b) sig a = map_option (Pair True) (onData ea ca (air_header h cb b) (ack_data k) sig ?a)"
    by simp
  then show ?thesis
    using h p by (simp add: onData_def Let_def text_data_sel ports ports(2) [symmetric] ports(3) [symmetric] air_header_def mt_frame ack_means_delivered)
qed


section \<open>The radio profile\<close>

lemma regions_fit: "info \<in> set REGIONS \<Longrightarrow> 0 \<le> frequencyStart info \<and> LONG_FAST_BANDWIDTH \<le> frequencyEnd info - frequencyStart info \<and>
  frequencyEnd info < 2 ^ 31"
proof -
  have "list_all (\<lambda>info. 0 \<le> frequencyStart info \<and> LONG_FAST_BANDWIDTH \<le> frequencyEnd info - frequencyStart info \<and>
    frequencyEnd info < 2 ^ 31) REGIONS" by (simp add: REGIONS_def LONG_FAST_BANDWIDTH_def)
  then show "info \<in> set REGIONS \<Longrightarrow> ?thesis" by (simp add: list_all_iff)
qed

lemma regions_distinct: "info \<in> set REGIONS \<Longrightarrow> List.find (\<lambda>x. region x = region info) REGIONS = Some info"
proof -
  have "list_all (\<lambda>info. List.find (\<lambda>x. region x = region info) REGIONS = Some info) REGIONS" by (simp add: REGIONS_def)
  then show "info \<in> set REGIONS \<Longrightarrow> ?thesis" by (simp add: list_all_iff)
qed

text \<open>
  C26: the radio stays inside the law of its region. For every LoRa region of the table, whatever the
  primary channel is called, the profile exists, the whole band it uses (the LongFast bandwidth around
  the frequency) lies inside the region's, and the power is at most the region's limit and what the radio can give; other
  regions and modulations are reported as not supported.
\<close>

theorem mt_radio_lawful:
  "(\<forall>info\<in>set REGIONS. \<exists>p. getRadioProfile_mt (region info) MODULATION_LORA b = Some (ERROR_NONE, Some p) \<and>
     modulation p = MODULATION_LORA \<and> bandwidth p = LONG_FAST_BANDWIDTH \<and>
     frequencyStart info + bandwidth p div 2 \<le> frequency p \<and> frequency p + bandwidth p div 2 \<le> frequencyEnd info \<and>
     power p \<le> powerLimit info \<and> power p \<le> MAX_RADIO_POWER) \<and>
   (\<forall>r md. md \<noteq> MODULATION_LORA \<or> r \<notin> region ` set REGIONS \<longrightarrow> getRadioProfile_mt r md b = Some (ERROR_NOT_SUPPORTED, None))"
proof
  have "List.find (\<lambda>x. region x = r) REGIONS = None" if "r \<notin> region ` set REGIONS" for r
    using that by (auto simp: find_None_iff)
  then show "\<forall>r md. md \<noteq> MODULATION_LORA \<or> r \<notin> region ` set REGIONS \<longrightarrow> getRadioProfile_mt r md b = Some (ERROR_NOT_SUPPORTED, None)"
    by (simp add: getRadioProfile_mt_def)
  show "\<forall>info\<in>set REGIONS. \<exists>p. getRadioProfile_mt (region info) MODULATION_LORA b = Some (ERROR_NONE, Some p) \<and>
     modulation p = MODULATION_LORA \<and> bandwidth p = LONG_FAST_BANDWIDTH \<and>
     frequencyStart info + bandwidth p div 2 \<le> frequency p \<and> frequency p + bandwidth p div 2 \<le> frequencyEnd info \<and>
     power p \<le> powerLimit info \<and> power p \<le> MAX_RADIO_POWER"
  proof
    fix info assume i: "info \<in> set REGIONS"
    have bw: "LONG_FAST_BANDWIDTH - LONG_FAST_BANDWIDTH div 2 = LONG_FAST_BANDWIDTH div 2" "0 < LONG_FAST_BANDWIDTH"
      by (simp_all add: LONG_FAST_BANDWIDTH_def)
    define slot where "slot = (case findChannel_mt 0 (channels b) of
        Some primary \<Rightarrow> if ch_name primary ! 0 \<noteq> 0 then c_string (ch_name primary) else DEFAULT_CHANNEL_NAME
      | None \<Rightarrow> DEFAULT_CHANNEL_NAME)"
    from frequency_in_band [of "frequencyStart info" LONG_FAST_BANDWIDTH "frequencyEnd info" slot] regions_fit [OF i] bw
    obtain f where f: "meshtastic_channel_frequency slot (frequencyStart info) (frequencyEnd info) LONG_FAST_BANDWIDTH = Some f"
      "frequencyStart info + LONG_FAST_BANDWIDTH div 2 \<le> f" "f + LONG_FAST_BANDWIDTH div 2 \<le> frequencyEnd info" by auto
    then show "\<exists>p. getRadioProfile_mt (region info) MODULATION_LORA b = Some (ERROR_NONE, Some p) \<and>
       modulation p = MODULATION_LORA \<and> bandwidth p = LONG_FAST_BANDWIDTH \<and>
       frequencyStart info + bandwidth p div 2 \<le> frequency p \<and> frequency p + bandwidth p div 2 \<le> frequencyEnd info \<and>
       power p \<le> powerLimit info \<and> power p \<le> MAX_RADIO_POWER"
      by (simp add: getRadioProfile_mt_def regions_distinct [OF i] slot_def [symmetric] Let_def)
  qed
qed

section \<open>Channels across a restart\<close>

lemma channel_record_mt_parts:
  assumes "channel_ok_mt ch"
  shows "length (channel_record_mt ch) = 66" and "(channel_record_mt ch @ r) ! 0 = ch_index ch" "(channel_record_mt ch @ r) ! 33 = key_length (ch_key ch)"
    "(take 32 (drop 1 (channel_record_mt ch @ r)))[MESH_NAME_MAX_LENGTH := 0] = ch_name ch"
    "take 32 (drop 34 (channel_record_mt ch @ r)) = key_bytes (ch_key ch)" "drop 66 (channel_record_mt ch @ r) = r"
proof -
  from assms have ok: "ch_name ch = name_array (c_string (ch_name ch))" "length (key_bytes (ch_key ch)) = 32"
    by (simp_all add: channel_ok_mt_def)
  then have n: "length (ch_name ch) = 32" "ch_name ch ! 31 = 0" by (metis name_array_length, metis name_array_end)
  from n(1) ok(2) show "length (channel_record_mt ch) = 66" "(channel_record_mt ch @ r) ! 0 = ch_index ch"
    "(channel_record_mt ch @ r) ! 33 = key_length (ch_key ch)"
    "take 32 (drop 34 (channel_record_mt ch @ r)) = key_bytes (ch_key ch)" "drop 66 (channel_record_mt ch @ r) = r"
    by (simp_all add: channel_record_mt_def nth_append)
  have "take 32 (drop 1 (channel_record_mt ch @ r)) = ch_name ch" using n by (simp add: channel_record_mt_def)
  then show "(take 32 (drop 1 (channel_record_mt ch @ r)))[MESH_NAME_MAX_LENGTH := 0] = ch_name ch"
    using n(2) by (simp add: mt_sizes) (metis list_update_id)
qed

lemma addChannel_mt_last:
  assumes "ordered (map ch_index (chs @ [ch]))" "channel_ok_mt ch" "channels b = chs"
  shows "\<exists>b'. addChannel_mt (ch_index ch) (c_string (ch_name ch)) (ch_key ch) b = Some b' \<and> channels b' = chs @ [ch]"
proof -
  have "filter (\<lambda>x. ch_index x \<noteq> ch_index ch) chs = chs"
    using assms(1) by (intro filter_True) (auto simp: sorted_wrt_append)
  moreover have "sort_key ch_index (chs @ [ch]) = chs @ [ch]"
    using assms(1) by (intro sort_key_id_if_sorted) (simp add: strict_sorted_iff)
  moreover have "\<lparr>ch_index = ch_index ch, ch_name = ch_name ch, ch_key = ch_key ch, ch_hash = ch_hash ch\<rparr> = ch" by simp
  ultimately have "sort_key ch_index (chs @ [\<lparr>ch_index = ch_index ch, ch_name = ch_name ch, ch_key = ch_key ch, ch_hash = ch_hash ch\<rparr>]) = chs @ [ch]"
    "filter (\<lambda>x. ch_index x \<noteq> ch_index ch) chs = chs" by (simp_all only:)
  then show ?thesis using assms(2) by (simp add: addChannel_mt_def channel_ok_mt_def assms(3))
qed

lemma load_saved_channels_mt:
  "ordered (map ch_index (done @ chs)) \<Longrightarrow> list_all channel_ok_mt chs \<Longrightarrow> channels b = done \<Longrightarrow>
     \<exists>b'. load_channels_mt (concat (map channel_record_mt chs)) b = Some b' \<and> channels b' = done @ chs"
proof (induction chs arbitrary: "done" b)
  case Nil
  then show ?case by (simp add: load_channels_mt.simps CHANNEL_RECORD_SIZE_def)
next
  case (Cons ch chs)
  let ?r = "concat (map channel_record_mt chs)"
  from Cons.prems(2) have ok: "channel_ok_mt ch" by simp
  define d where "d = channel_record_mt ch @ ?r"
  have len: "CHANNEL_RECORD_SIZE \<le> length d" and rest: "drop CHANNEL_RECORD_SIZE d = ?r"
    using channel_record_mt_parts(1) [OF ok] by (simp_all add: d_def CHANNEL_RECORD_SIZE_def MESH_NAME_MAX_LENGTH_def)
  note parts = channel_record_mt_parts(2-5) [OF ok, of ?r, folded d_def]
  obtain b1 where b1: "addChannel_mt (ch_index ch) (c_string (ch_name ch)) (ch_key ch) b = Some b1" "channels b1 = done @ [ch]"
    using addChannel_mt_last [of "done" ch b] Cons.prems ok by (auto simp: sorted_wrt_append)
  have "key_length (ch_key ch) = 16 \<or> key_length (ch_key ch) = 32" using ok by (simp add: channel_ok_mt_def)
  moreover have key: "\<lparr>key_bytes = key_bytes (ch_key ch), key_length = key_length (ch_key ch)\<rparr> = ch_key ch" by simp
  ultimately have "load_channels_mt d b = load_channels_mt ?r b1"
    by (subst load_channels_mt.simps) (simp add: len rest parts key b1(1) Let_def del: One_nat_def)
  then show ?case unfolding d_def using Cons.IH [of "done @ [ch]" b1] Cons.prems b1(2) by simp
qed

lemma saved_length_mt: "list_all channel_ok_mt chs \<Longrightarrow> length (concat (map channel_record_mt chs)) = 66 * length chs"
  by (induction chs) (auto dest: channel_record_mt_parts(1))

lemma loadOrCreateNodeNum_frame:
  assumes "data_path e ''node.bin'' \<noteq> Some p" "loadOrCreateNodeNum e b = Some b'"
  shows "files b' p = files b p" "channels b' = channels b"
proof -
  have w: "files (snd (writeFile e q d c)) p = files c p" if "q \<noteq> p" for q d and c :: Backend_mt
    using that by (simp add: writeFile_def split: option.split)
  from assms w show "files b' p = files b p"
    by (auto simp: loadOrCreateNodeNum_def Let_def bind_Some_iff split: option.splits if_splits)
  from assms show "channels b' = channels b"
    by (auto simp: loadOrCreateNodeNum_def Let_def bind_Some_iff mt_frame split: option.splits if_splits)
qed

text \<open>The channel of a node that has none.\<close>

definition default_channel :: Channel_mt where
  "default_channel = (let key = the (meshtastic_expand_psk [1] zero_key) in
     \<lparr>ch_index = 0, ch_name = name_array DEFAULT_CHANNEL_NAME, ch_key = key, ch_hash = the (meshtastic_channel_hash DEFAULT_CHANNEL_NAME key)\<rparr>)"

lemma loadChannels_mt_default:
  assumes "data_path e ''channels.bin'' = Some p" "readFile e p b = Some d" "load_channels_mt d b = Some b1" "loadChannels_mt e b = Some b'"
  shows "channels b' = (if channels b1 = [] then [default_channel] else channels b1)"
proof -
  obtain key where "meshtastic_expand_psk [1] zero_key = Some key" using default_key by blast
  then show ?thesis using assms by (auto simp: loadChannels_mt_def default_channel_def addChannel_mt_def bind_Some_iff)
qed

text \<open>
  C22: channels survive a restart. After a channel was set or removed and the file could be written, a
  node that is created from the files that were left has exactly the channels from before, with the
  same names, keys and hashes in the same order, and the public default channel when there were none.
\<close>

theorem mt_channels_survive_restart:
  assumes "mt_reachable b" "length (c_string (mc_name mc)) \<le> 31"
    and "setChannel_mt e mc b = Some (ERROR_NONE, b') \<or> removeChannel_mt e i b = (ERROR_NONE, b')"
    and "data_path e ''channels.bin'' = Some p" "writable e p = Some n" "66 * length (channels b') \<le> n"
    and "data_path e' ''channels.bin'' = Some p" "readable e' p = Some m" "66 * length (channels b') \<le> m"
      "data_path e' ''node.bin'' \<noteq> Some p" "lively e'"
  shows "\<exists>b''. create_mt True e' (files b') cs k = Some (Some b'') \<and>
    channels b'' = (if channels b' = [] then [default_channel] else channels b')"
proof -
  have "mt_ok b'"
    using setChannel_mt_runs [OF mt_reachable_ok [OF assms(1)] assms(2), of e] removeChannel_mt_ok [OF mt_reachable_ok [OF assms(1)], of e i] assms(3)
    by auto
  then have ok: "ordered (map ch_index (channels b'))" "list_all channel_ok_mt (channels b')" by (simp_all add: mt_ok_def)
  let ?d = "concat (map channel_record_mt (channels b'))"
  note len = saved_length_mt [OF ok(2)]
  from assms(3) obtain b1 where b': "b' = saveChannels_mt e b1"
    by (auto simp: setChannel_mt_def removeChannel_mt_def Let_def bind_Some_iff split: option.splits if_splits)
  then have stored: "files b' p = Some ?d"
    using len assms(4,5,6) by (simp add: saveChannels_mt_def writeFile_def)
  obtain b'' where b'': "create_mt True e' (files b') cs k = Some (Some b'')"
    using create_mt_ok [OF assms(11) refl, of "files b'" cs k] by blast
  then obtain b2 where b2: "loadOrCreateNodeNum e' (Backend_mt_init (files b') cs k) = Some b2" "loadChannels_mt e' b2 = Some b''"
    by (auto simp: create_mt_def bind_Some_iff)
  from loadOrCreateNodeNum_frame [OF assms(10) b2(1)] stored have "files b2 p = Some ?d" "channels b2 = []"
    by (simp_all add: Backend_mt_init_def)
  then have r: "readFile e' p b2 = Some ?d" "channels b2 = []" using assms(8,9) len by (simp_all add: readFile_def)
  from load_saved_channels_mt [of "[]" "channels b'" b2] ok r(2)
  obtain b3 where b3: "load_channels_mt ?d b2 = Some b3" "channels b3 = channels b'" by auto
  from loadChannels_mt_default [OF assms(7) r(1) b3(1) b2(2)] b3(2) b'' show ?thesis by simp
qed

section \<open>Instances\<close>

definition demo_mt_host :: "32 word \<Rightarrow> mt_env" where
  "demo_mt_host r = \<lparr>millis = 100000, node_name = [65], data_path = Some, readable = \<lambda>p. Some 10000,
     writable = \<lambda>p. Some 10000, transmit_result = \<lambda>f s. ERROR_NONE, psa_lib = demo_psa, randomU32 = \<lambda>n. r\<rparr>"

lemma demo_mt_host_sel [simp]:
  "psa_lib (demo_mt_host r) = demo_psa" "data_path (demo_mt_host r) = Some" "readable (demo_mt_host r) q = Some 10000"
  "writable (demo_mt_host r) q = Some 10000" "transmit_result (demo_mt_host r) f s = ERROR_NONE" "randomU32 (demo_mt_host r) n = r"
  by (simp_all add: demo_mt_host_def)

lemma demo_lively: "lively (demo_mt_host 5)" "lively (demo_mt_host 6)"
  by (auto simp: lively_def MESHTASTIC_BROADCAST_def)

lemma demo_reliable: "reliable demo_psa"
proof -
  have "ctr_mode demo_psa (\<lambda>k iv i. of_nat i)" by (simp add: ctr_mode_def demo_psa_def)
  then show ?thesis by (auto simp: reliable_def demo_psa_def)
qed

definition demo_mt :: "32 word \<Rightarrow> Backend_mt" where
  "demo_mt r = the (the (create_mt True (demo_mt_host r) (\<lambda>p. None) [] 0))"

lemma demo_mt_create:
  assumes "4 \<le> r" "r \<noteq> MESHTASTIC_BROADCAST"
  shows "create_mt True (demo_mt_host r) (\<lambda>p. None) [] 0 = Some (Some \<lparr>files = (\<lambda>p. None)(''node.bin'' \<mapsto> le32 r), calls = [],
    nodeNum = r, channels = [default_channel], seenPackets = [], names = [], pendingAcks = [], lastNodeInfoMs = 0, drawn = 1\<rparr>)"
proof -
  obtain key where key: "meshtastic_expand_psk [1] zero_key = Some key" "length (key_bytes key) = 32" "key_length key = 16"
    using default_key by blast
  obtain h where h: "meshtastic_channel_hash DEFAULT_CHANNEL_NAME key = Some h" using key(2,3) by (auto simp: meshtastic_channel_hash_def)
  have "draw_until (\<lambda>w. \<not> (w < 4 \<or> w = MESHTASTIC_BROADCAST)) (randomU32 (demo_mt_host r)) 0 = Some (r, 1)"
    using assms by (subst draw_until.simps) auto
  then show ?thesis using key(1) h
    by (simp add: create_mt_def loadOrCreateNodeNum_def Let_def Backend_mt_init_def readFile_def writeFile_def loadChannels_mt_def
        addChannel_mt_def default_channel_def)
qed

lemma demo_mt_fields:
  assumes "4 \<le> r" "r \<noteq> MESHTASTIC_BROADCAST"
  shows "nodeNum (demo_mt r) = r" "channels (demo_mt r) = [default_channel]" "seenPackets (demo_mt r) = []" "pendingAcks (demo_mt r) = []"
    "calls (demo_mt r) = []" "names (demo_mt r) = []"
    "create_mt True (demo_mt_host r) (\<lambda>p. None) [] 0 = Some (Some (demo_mt r))"
  using demo_mt_create [OF assms] by (simp_all add: demo_mt_def)

lemma demo_numbers: "(4 :: 32 word) \<le> 5" "(4 :: 32 word) \<le> 6" "5 \<noteq> MESHTASTIC_BROADCAST" "6 \<noteq> MESHTASTIC_BROADCAST"
  by (simp_all add: MESHTASTIC_BROADCAST_def)

lemmas demo5 = demo_mt_fields [OF demo_numbers(1,3)]

lemmas demo6 = demo_mt_fields [OF demo_numbers(2,4)]

lemma demo_mt_reachable: "mt_reachable (demo_mt 5)" "mt_reachable (demo_mt 6)"
  by (rule mt_reachable.created [OF demo_lively(1) demo5(7)], rule mt_reachable.created [OF demo_lively(2) demo6(7)])

theorem mt_radio_lawful_witness:
  "\<exists>p. getRadioProfile_mt REGION_EU_868 MODULATION_LORA (demo_mt 5) = Some (ERROR_NONE, Some p) \<and> frequency p = 869525000"
proof -
  define info where "info = \<lparr>region = REGION_EU_868, frequencyStart = 869400000, frequencyEnd = 869650000, powerLimit = 27\<rparr>"
  have "info \<in> set REGIONS" by (simp add: REGIONS_def info_def)
  with mt_radio_lawful [of "demo_mt 5"] obtain p where "getRadioProfile_mt (region info) MODULATION_LORA (demo_mt 5) = Some (ERROR_NONE, Some p)"
    "bandwidth p = LONG_FAST_BANDWIDTH" "frequencyStart info + bandwidth p div 2 \<le> frequency p" "frequency p + bandwidth p div 2 \<le> frequencyEnd info"
    by blast
  then show ?thesis by (auto simp: info_def LONG_FAST_BANDWIDTH_def)
qed


definition demo_mt_channel :: MeshChannel where
  "demo_mt_channel = \<lparr>mc_index = 1, mc_name = [97] @ replicate 31 0, mc_key = replicate 32 7, mc_key_length = 16\<rparr>"

lemma demo_mt_channel_name: "length (c_string (mc_name demo_mt_channel)) \<le> 31"
  by (simp add: demo_mt_channel_def c_string_def)

theorem mt_node_safe_witness:
  "mt_ok (demo_mt 5) \<and> onTick_mt (demo_mt_host 5) (demo_mt 5) \<noteq> None"
  using mt_node_safe [OF demo_mt_reachable(1)] demo_lively(1) demo_mt_channel_name by blast

theorem mt_channels_survive_restart_witness:
  "\<exists>b' b''. removeChannel_mt (demo_mt_host 5) 0 (demo_mt 5) = (ERROR_NONE, b') \<and> channels b' = [] \<and>
     create_mt True (demo_mt_host 6) (files b') [] 0 = Some (Some b'') \<and> channels b'' = [default_channel]"
proof -
  have "removeChannel_mt (demo_mt_host 5) 0 (demo_mt 5) = (ERROR_NONE, saveChannels_mt (demo_mt_host 5) ((demo_mt 5)\<lparr>channels := []\<rparr>))"
    by (simp add: removeChannel_mt_def demo5) (simp add: default_channel_def Let_def)
  then obtain b' where b': "removeChannel_mt (demo_mt_host 5) 0 (demo_mt 5) = (ERROR_NONE, b')" "channels b' = []"
    by (auto simp: mt_frame)
  have p: "data_path (demo_mt_host 5) ''channels.bin'' = Some ''channels.bin''" "66 * length (channels b') \<le> 10000"
    "data_path (demo_mt_host 6) ''channels.bin'' = Some ''channels.bin''" "data_path (demo_mt_host 6) ''node.bin'' \<noteq> Some ''channels.bin''"
    using b'(2) by simp_all
  from mt_channels_survive_restart [OF demo_mt_reachable(1) demo_mt_channel_name disjI2 [OF b'(1)] p(1) demo_mt_host_sel(4) p(2) p(3) demo_mt_host_sel(3) p(2) p(4)
      demo_lively(2), of "[]" 0] b'
  show ?thesis by auto
qed

end
