(* ===== verification/Meshcore_Packet.thy ===== *)
theory Meshcore_Packet
  imports Kernel_Error
begin

text \<open>
  \<open>Modules/mesh-meshcore-module/source/meshcore_packet.cpp\<close>: the frames of a MeshCore network. The
  arrays of a packet are lists of their fixed size; the enumeration of the payload types has a fixed
  underlying type, so it is kept as its byte.
\<close>

section \<open>Data\<close>

datatype MeshCoreRoute = TransportFlood | Flood | Direct | TransportDirect

fun route_byte :: "MeshCoreRoute \<Rightarrow> byte" where
  "route_byte TransportFlood = 0" | "route_byte Flood = 1" | "route_byte Direct = 2" | "route_byte TransportDirect = 3"

text \<open>The cast of a value below 4.\<close>

definition byte_route :: "byte \<Rightarrow> MeshCoreRoute" where
  "byte_route b = (if b = 0 then TransportFlood else if b = 1 then Flood else if b = 2 then Direct else TransportDirect)"

definition MESHCORE_MAX_PATH_SIZE :: nat where "MESHCORE_MAX_PATH_SIZE = 64"
definition MESHCORE_MAX_PAYLOAD_SIZE :: nat where "MESHCORE_MAX_PAYLOAD_SIZE = 184"

definition PAYLOAD_TextMessage :: byte where "PAYLOAD_TextMessage = 2"
definition PAYLOAD_Ack :: byte where "PAYLOAD_Ack = 3"
definition PAYLOAD_Advert :: byte where "PAYLOAD_Advert = 4"
definition PAYLOAD_GroupText :: byte where "PAYLOAD_GroupText = 5"
definition PAYLOAD_RawCustom :: byte where "PAYLOAD_RawCustom = 15"

record MeshCorePacket =
  route :: MeshCoreRoute
  payloadType :: byte
  payloadVersion :: byte
  transportCodes :: "16 word \<times> 16 word"
  pathLength :: byte
  pathHashSize :: byte
  path :: "byte list"
  payloadLength :: byte
  payload :: "byte list"

definition MeshCorePacket_init :: MeshCorePacket where
  "MeshCorePacket_init = \<lparr>route = Flood, payloadType = PAYLOAD_RawCustom, payloadVersion = 0, transportCodes = (0, 0),
     pathLength = 0, pathHashSize = 1, path = replicate MESHCORE_MAX_PATH_SIZE 0, payloadLength = 0,
     payload = replicate MESHCORE_MAX_PAYLOAD_SIZE 0\<rparr>"

definition hasTransportCodes :: "MeshCorePacket \<Rightarrow> bool" where
  "hasTransportCodes p \<longleftrightarrow> route p = TransportFlood \<or> route p = TransportDirect"

definition path_bytes :: "MeshCorePacket \<Rightarrow> nat" where
  "path_bytes p = unat (pathLength p) * unat (pathHashSize p)"

text \<open>\<open>memcpy\<close> over the front of an array.\<close>

definition copy_over :: "'a list \<Rightarrow> 'a list \<Rightarrow> 'a list" where
  "copy_over src arr = src @ drop (length src) arr"

section \<open>Parsing and serializing\<close>

definition le16 :: "16 word \<Rightarrow> byte list" where
  "le16 w = [ucast w, ucast (drop_bit 8 w)]"

definition from_le16 :: "byte \<Rightarrow> byte \<Rightarrow> 16 word" where
  "from_le16 a b = ucast a OR push_bit 8 (ucast b)"

definition meshcore_packet_parse :: "byte list \<Rightarrow> MeshCorePacket \<Rightarrow> MeshCorePacket option" where
  "meshcore_packet_parse d p =
     (if length d < 2 then None else
      let header = d ! 0;
          p = p\<lparr>route := byte_route (header AND 0x03), payloadType := drop_bit 2 header AND 0x0F,
                payloadVersion := drop_bit 6 header AND 0x03\<rparr> in
      case (if hasTransportCodes p then
              (if 1 + 4 > length d then None
               else Some (p\<lparr>transportCodes := (from_le16 (d ! 1) (d ! 2), from_le16 (d ! 3) (d ! 4))\<rparr>, 5))
            else Some (p, 1)) of
        None \<Rightarrow> None
      | Some (p, position) \<Rightarrow>
          if position \<ge> length d then None else
          let pathByte = d ! position; position = position + 1;
              p = p\<lparr>pathLength := pathByte AND 0x3F, pathHashSize := drop_bit 6 pathByte + 1\<rparr>;
              pathBytes = path_bytes p in
          if pathBytes > MESHCORE_MAX_PATH_SIZE \<or> position + pathBytes > length d then None else
          let p = p\<lparr>path := copy_over (take pathBytes (drop position d)) (path p)\<rparr>;
              position = position + pathBytes;
              len = length d - position in
          if len > MESHCORE_MAX_PAYLOAD_SIZE then None
          else Some (p\<lparr>payloadLength := of_nat len, payload := copy_over (drop position d) (payload p)\<rparr>))"

text \<open>
  The bytes written, none for the result 0. \<open>None\<close>: the payload would be read past its array.
\<close>

definition meshcore_packet_serialize :: "MeshCorePacket \<Rightarrow> nat \<Rightarrow> byte list option" where
  "meshcore_packet_serialize p capacity =
     (let pathBytes = path_bytes p;
          needed = 1 + (if hasTransportCodes p then 4 else 0) + 1 + pathBytes + unat (payloadLength p) in
      if needed > capacity \<or> pathBytes > MESHCORE_MAX_PATH_SIZE \<or> pathHashSize p = 0 \<or> pathHashSize p > 4 then Some []
      else if unat (payloadLength p) > length (payload p) then None
      else Some (
        [(route_byte (route p) AND 0x03) OR push_bit 2 (payloadType p AND 0x0F) OR push_bit 6 (payloadVersion p AND 0x03)] @
        (if hasTransportCodes p then le16 (fst (transportCodes p)) @ le16 (snd (transportCodes p)) else []) @
        [(pathLength p AND 0x3F) OR push_bit 6 (pathHashSize p - 1)] @
        take pathBytes (path p) @
        take (unat (payloadLength p)) (payload p)))"

text \<open>\<open>sha256 n a b\<close>: the first \<open>n\<close> bytes of the SHA-256 of \<open>a\<close> followed by \<open>b\<close>, the crypto library's.\<close>

definition meshcore_packet_hash :: "(nat \<Rightarrow> byte list \<Rightarrow> byte list \<Rightarrow> byte list) \<Rightarrow> MeshCorePacket \<Rightarrow> 32 word" where
  "meshcore_packet_hash sha256 p =
     (let h = sha256 4 [payloadType p] (take (unat (payloadLength p)) (payload p)) in
      from_le32 (h ! 0) (h ! 1) (h ! 2) (h ! 3))"

section \<open>The bytes of the header\<close>

lemma from_le16_le16 [wire_simps]: "from_le16 (ucast w) (ucast (drop_bit 8 w)) = w"
proof (rule bit_eqI)
  fix n assume "possible_bit TYPE(16 word) n"
  then have "n < 16" by (simp add: possible_bit_word)
  then show "bit (from_le16 (ucast w) (ucast (drop_bit 8 w))) n = bit w n"
    by (cases "n < 8") (auto simp: from_le16_def bit_or_iff bit_push_bit_iff bit_ucast_iff bit_drop_bit_eq)
qed

lemma le16_from_le16 [wire_simps]: "le16 (from_le16 a b) = [a, b]"
proof -
  have "(ucast (from_le16 a b) :: byte) = a" "(ucast (drop_bit 8 (from_le16 a b)) :: byte) = b"
    by (rule bit_eqI, auto simp: from_le16_def bit_or_iff bit_push_bit_iff bit_ucast_iff bit_drop_bit_eq bit_byte_high
        possible_bit_word)+
  then show ?thesis by (simp add: le16_def)
qed

lemma byte_masks: "(0x03 :: byte) = mask 2" "(0x0F :: byte) = mask 4" "(0x3F :: byte) = mask 6"
  by (simp_all add: mask_eq_exp_minus_1)

lemma header_parts:
  fixes r t v :: byte
  defines "h \<equiv> (r AND 0x03) OR push_bit 2 (t AND 0x0F) OR push_bit 6 (v AND 0x03)"
  shows "h AND 0x03 = r AND 0x03" "drop_bit 2 h AND 0x0F = t AND 0x0F" "drop_bit 6 h AND 0x03 = v AND 0x03"
  unfolding h_def byte_masks
  by (rule bit_eqI, auto simp: bit_simps possible_bit_word)+

lemma header_whole: "((b AND 0x03) AND 0x03) OR push_bit 2 ((drop_bit 2 b AND 0x0F) AND 0x0F) OR
    push_bit 6 ((drop_bit 6 b AND 0x03) AND 0x03) = b" for b :: byte
proof (rule bit_eqI)
  fix n assume "possible_bit TYPE(8 word) n"
  then have n: "n < 8" by (simp add: possible_bit_word)
  consider "n < 2" | m where "n = m + 2" "m < 4" | m where "n = m + 6" "m < 2"
  proof -
    have "n < 2 \<or> n = (n - 2) + 2 \<and> n - 2 < 4 \<or> n = (n - 6) + 6 \<and> n - 6 < 2" using n by linarith
    then show thesis using that by blast
  qed
  then show "bit (((b AND 0x03) AND 0x03) OR push_bit 2 ((drop_bit 2 b AND 0x0F) AND 0x0F) OR
      push_bit 6 ((drop_bit 6 b AND 0x03) AND 0x03)) n = bit b n"
    unfolding byte_masks by cases (auto simp: bit_simps add.commute)
qed

lemma small_bits: "unat w < 2 ^ k \<Longrightarrow> k \<le> n \<Longrightarrow> \<not> bit w n" for w :: byte
proof -
  assume "unat w < 2 ^ k" and n: "k \<le> n"
  then have "unat (take_bit k w) = unat w" by (simp only: unsigned_take_bit_eq take_bit_nat_eq_self)
  then have "take_bit k w = w" by (simp add: word_unat_eq_iff)
  then show "\<not> bit w n" using n by (metis bit_take_bit_iff not_le)
qed

lemma path_byte_parts:
  fixes l s :: byte
  assumes "s \<noteq> 0" "s \<le> 4"
  defines "b \<equiv> (l AND 0x3F) OR push_bit 6 (s - 1)"
  shows "b AND 0x3F = l AND 0x3F" "drop_bit 6 b + 1 = s"
proof -
  have "unat s \<noteq> 0" using assms(1) by (simp add: unat_eq_zero)
  then have "unat (s - 1) < 2 ^ 2" using assms(2) by (simp add: word_le_nat_alt unat_sub_if')
  then have hi: "\<not> bit (s - 1) n" if "2 \<le> n" for n using small_bits [of "s - 1" 2 n] that by simp
  show "b AND 0x3F = l AND 0x3F" unfolding b_def byte_masks by (rule bit_eqI) (auto simp: bit_simps possible_bit_word)
  have "drop_bit 6 b = s - 1"
    unfolding b_def byte_masks
  proof (rule bit_eqI)
    fix n
    show "bit (drop_bit 6 ((l AND mask 6) OR push_bit 6 (s - 1))) n = bit (s - 1) n"
      using hi [of n] by (cases "n < 2") (auto simp: bit_simps)
  qed
  then show "drop_bit 6 b + 1 = s" by simp
qed

lemma path_byte_whole: "((b AND 0x3F) AND 0x3F) OR push_bit 6 ((drop_bit 6 b + 1) - 1) = b" for b :: byte
proof (rule bit_eqI)
  fix n assume "possible_bit TYPE(8 word) n"
  then have n: "n < 8" by (simp add: possible_bit_word)
  have "bit (((b AND 0x3F) AND 0x3F) OR push_bit 6 (drop_bit 6 b)) n = bit b n"
    unfolding byte_masks using n by (cases "n < 6") (auto simp: bit_simps)
  then show "bit (((b AND 0x3F) AND 0x3F) OR push_bit 6 ((drop_bit 6 b + 1) - 1)) n = bit b n" by simp
qed

lemma path_hash_size: "drop_bit 6 (b :: byte) + 1 \<noteq> 0 \<and> drop_bit 6 b + 1 \<le> 4 \<and> unat (drop_bit 6 b + 1) = unat (drop_bit 6 b) + 1"
proof -
  have "unat (drop_bit 6 b) = unat b div 2 ^ 6" by (metis unat_drop_bit_eq drop_bit_eq_div)
  moreover have "unat b < 2 ^ 8" by (rule order_less_le_trans [OF unsigned_less]) simp
  ultimately have "unat (drop_bit 6 b) < 4" by simp
  then have u: "unat (drop_bit 6 b + 1) = unat (drop_bit 6 b) + 1" by (simp add: unat_word_ariths)
  then have "drop_bit 6 b + 1 \<noteq> 0" by (metis add_is_0 unat_0 zero_neq_one)
  with u \<open>unat (drop_bit 6 b) < 4\<close> show ?thesis by (simp add: word_le_nat_alt)
qed

lemma route_bytes: "byte_route (route_byte r AND 0x03) = r" "route_byte (byte_route (b AND 0x03)) = b AND 0x03"
proof -
  show "byte_route (route_byte r AND 0x03) = r" by (cases r) (simp_all add: byte_route_def)
  have "unat (b AND 0x03) < 4"
  proof -
    have "b AND 0x03 = take_bit 2 b" by (simp add: byte_masks take_bit_eq_mask)
    then have "unat (b AND 0x03) = take_bit 2 (unat b)" by (simp only: unsigned_take_bit_eq)
    also have "\<dots> < 2 ^ 2" by (rule take_bit_nat_less_exp)
    finally show ?thesis by simp
  qed
  then consider "unat (b AND 0x03) = 0" | "unat (b AND 0x03) = 1" | "unat (b AND 0x03) = 2" | "unat (b AND 0x03) = 3" by linarith
  then show "route_byte (byte_route (b AND 0x03)) = b AND 0x03"
    by cases (auto simp: byte_route_def word_unat_eq_iff)
qed

section \<open>Frames\<close>

text \<open>The packet that a frame with header \<open>h\<close>, path byte \<open>b\<close>, path \<open>P\<close> and payload \<open>L\<close> stands for.\<close>

definition with_header :: "byte \<Rightarrow> MeshCorePacket \<Rightarrow> MeshCorePacket" where
  "with_header h q = q\<lparr>route := byte_route (h AND 0x03), payloadType := drop_bit 2 h AND 0x0F,
     payloadVersion := drop_bit 6 h AND 0x03\<rparr>"

definition with_body :: "byte \<Rightarrow> byte list \<Rightarrow> byte list \<Rightarrow> MeshCorePacket \<Rightarrow> MeshCorePacket" where
  "with_body b P L q = q\<lparr>pathLength := b AND 0x3F, pathHashSize := drop_bit 6 b + 1, path := copy_over P (path q),
     payloadLength := of_nat (length L), payload := copy_over L (payload q)\<rparr>"

definition body_ok :: "byte \<Rightarrow> byte list \<Rightarrow> byte list \<Rightarrow> bool" where
  "body_ok b P L \<longleftrightarrow> length P = unat (b AND 0x3F) * unat (drop_bit 6 b + 1) \<and> length P \<le> MESHCORE_MAX_PATH_SIZE \<and>
     length L \<le> MESHCORE_MAX_PAYLOAD_SIZE"

lemma with_sel [simp]:
  "hasTransportCodes (with_body b P L q) = hasTransportCodes q" "route (with_body b P L q) = route q"
  "hasTransportCodes (q\<lparr>transportCodes := c\<rparr>) = hasTransportCodes q"
  by (simp_all add: with_body_def hasTransportCodes_def)

lemma parse_plain:
  assumes "\<not> hasTransportCodes (with_header h q)" and "body_ok b P L"
  shows "meshcore_packet_parse (h # b # P @ L) q = Some (with_body b P L (with_header h q))"
  using assms
  by (simp add: meshcore_packet_parse_def with_header_def [symmetric] with_body_def body_ok_def path_bytes_def Let_def)

lemma drop_six: "drop (6 + n) (a # b # c # d # e # f # xs) = drop n xs"
  by (simp add: numeral_nat)

lemma parse_codes:
  assumes "hasTransportCodes (with_header h q)" and "body_ok b P L"
  shows "meshcore_packet_parse (h # c0 # c1 # c2 # c3 # b # P @ L) q =
    Some (with_body b P L ((with_header h q)\<lparr>transportCodes := (from_le16 c0 c1, from_le16 c2 c3)\<rparr>))"
  using assms
  by (simp add: meshcore_packet_parse_def with_header_def [symmetric] with_body_def body_ok_def path_bytes_def Let_def
      drop_six)

lemma parse_cases:
  assumes "meshcore_packet_parse d q = Some p"
  obtains (plain) h b P L where "d = h # b # P @ L" "body_ok b P L" "\<not> hasTransportCodes (with_header h q)"
      "p = with_body b P L (with_header h q)"
  | (codes) h c0 c1 c2 c3 b P L where "d = h # c0 # c1 # c2 # c3 # b # P @ L" "body_ok b P L"
      "hasTransportCodes (with_header h q)"
      "p = with_body b P L ((with_header h q)\<lparr>transportCodes := (from_le16 c0 c1, from_le16 c2 c3)\<rparr>)"
proof -
  from assms have "2 \<le> length d" by (simp add: meshcore_packet_parse_def split: if_splits)
  then obtain h b1 t1 where "d = h # b1 # t1" by (cases d; cases "tl d") auto
  then obtain t where d: "d = h # t" "t \<noteq> []" by blast
  show thesis
  proof (cases "hasTransportCodes (with_header h q)")
    case False
    obtain b u where t: "t = b # u" using d(2) by (cases t) auto
    define n where "n = unat (b AND 0x3F) * unat (drop_bit 6 b + 1)"
    have ok: "body_ok b (take n u) (drop n u)"
      using assms False unfolding d(1) t
      by (auto simp: meshcore_packet_parse_def with_header_def [symmetric] path_bytes_def body_ok_def n_def Let_def split: if_splits)
    with parse_plain [OF False ok] assms False show thesis by (intro plain [of h b "take n u" "drop n u"]) (auto simp: d(1) t)
  next
    case True
    have "5 < length d"
      using assms True unfolding d(1)
      by (auto simp: meshcore_packet_parse_def with_header_def [symmetric] Let_def split: if_splits)
    then obtain c0 c1 c2 c3 b u where t: "t = c0 # c1 # c2 # c3 # b # u"
      by (auto simp: d(1) Suc_le_length_iff less_eq_Suc_le numeral_nat)
    define n where "n = unat (b AND 0x3F) * unat (drop_bit 6 b + 1)"
    have ok: "body_ok b (take n u) (drop n u)"
      using assms True unfolding d(1) t
      by (auto simp: meshcore_packet_parse_def with_header_def [symmetric] path_bytes_def body_ok_def n_def Let_def
          split: if_splits)
    with parse_codes [OF True ok] assms True show thesis
      by (intro codes [of h c0 c1 c2 c3 b "take n u" "drop n u"]) (auto simp: d(1) t)
  qed
qed

lemma serialize_body:
  assumes "body_ok b P L"
  shows "path_bytes (with_body b P L q) = length P" "take (length P) (path (with_body b P L q)) = P"
    "unat (payloadLength (with_body b P L q)) = length L" "take (length L) (payload (with_body b P L q)) = L"
    "length L \<le> length (payload (with_body b P L q))"
    "pathHashSize (with_body b P L q) \<noteq> 0" "pathHashSize (with_body b P L q) \<le> 4"
    "(pathLength (with_body b P L q) AND 0x3F) OR push_bit 6 (pathHashSize (with_body b P L q) - 1) = b"
proof -
  have "length L < 2 ^ 8" using assms by (simp add: body_ok_def MESHCORE_MAX_PAYLOAD_SIZE_def)
  then show "unat (payloadLength (with_body b P L q)) = length L"
    by (simp add: with_body_def unsigned_of_nat take_bit_nat_eq_self)
  show "path_bytes (with_body b P L q) = length P" "take (length P) (path (with_body b P L q)) = P"
    "take (length L) (payload (with_body b P L q)) = L" "length L \<le> length (payload (with_body b P L q))"
    using assms by (simp_all add: body_ok_def path_bytes_def with_body_def copy_over_def)
  show "pathHashSize (with_body b P L q) \<noteq> 0" "pathHashSize (with_body b P L q) \<le> 4"
    using path_hash_size [of b] by (simp_all add: with_body_def)
  show "(pathLength (with_body b P L q) AND 0x3F) OR push_bit 6 (pathHashSize (with_body b P L q) - 1) = b"
    using path_byte_whole [of b] by (simp add: with_body_def)
qed

text \<open>
  forwarding a frame does not change it. Whatever frame was accepted by the parser, serializing
  the parsed packet into a buffer that is large enough gives exactly the bytes that were received;
  in a smaller buffer it writes nothing.
\<close>

theorem parsed_frame_serializes_back:
  assumes "meshcore_packet_parse d q = Some p"
  shows "meshcore_packet_serialize p capacity = Some (if length d \<le> capacity then d else [])"
  using assms
proof (cases rule: parse_cases)
  case (plain h b P L)
  note [simp] = serialize_body [OF plain(2)]
  have head: "(route_byte (route p) AND 0x03) OR push_bit 2 (payloadType p AND 0x0F) OR push_bit 6 (payloadVersion p AND 0x03) = h"
    using header_whole [of h] by (simp add: plain(4) with_body_def with_header_def route_bytes)
  have bytes: "path_bytes p = length P" "hasTransportCodes p = False" "pathHashSize p \<noteq> 0" "\<not> pathHashSize p > 4"
    "unat (payloadLength p) = length L" "\<not> length L > length (payload p)" "take (length P) (path p) = P" "take (length L) (payload p) = L"
    "(pathLength p AND 0x3F) OR push_bit 6 (pathHashSize p - 1) = b"
    using plain(3) by (simp_all add: plain(4) not_less)
  have "\<not> MESHCORE_MAX_PATH_SIZE < length P" using plain(2) by (simp add: body_ok_def)
  then show ?thesis
    unfolding meshcore_packet_serialize_def Let_def head bytes plain(1) by (simp add: bytes(3,4,6))
next
  case (codes h c0 c1 c2 c3 b P L)
  note [simp] = serialize_body [OF codes(2)]
  have head: "(route_byte (route p) AND 0x03) OR push_bit 2 (payloadType p AND 0x0F) OR push_bit 6 (payloadVersion p AND 0x03) = h"
    using header_whole [of h] by (simp add: codes(4) with_body_def with_header_def route_bytes)
  have bytes: "path_bytes p = length P" "hasTransportCodes p" "pathHashSize p \<noteq> 0" "\<not> pathHashSize p > 4"
    "unat (payloadLength p) = length L" "\<not> length L > length (payload p)" "take (length P) (path p) = P" "take (length L) (payload p) = L"
    "(pathLength p AND 0x3F) OR push_bit 6 (pathHashSize p - 1) = b"
    "transportCodes p = (from_le16 c0 c1, from_le16 c2 c3)"
    using codes(3) by (simp_all add: codes(4) not_less) (simp add: with_body_def)
  have "\<not> MESHCORE_MAX_PATH_SIZE < length P" using codes(2) by (simp add: body_ok_def)
  then show ?thesis
    unfolding meshcore_packet_serialize_def Let_def head bytes codes(1) fst_conv snd_conv le16_from_le16
    by (simp add: bytes(2-4,6))
qed

definition demo_frame :: "byte list" where
  "demo_frame = [0x54, 1, 0, 2, 0, 0x42, 9, 8, 7, 6, 42]"

theorem parsed_frame_serializes_back_witness:
  "\<exists>p. meshcore_packet_parse demo_frame MeshCorePacket_init = Some p \<and> meshcore_packet_serialize p 255 = Some demo_frame"
proof -
  have "Option.is_none (meshcore_packet_parse demo_frame MeshCorePacket_init) = False" by code_simp
  then obtain p where p: "meshcore_packet_parse demo_frame MeshCorePacket_init = Some p" by (auto simp: Option.is_none_def)
  from parsed_frame_serializes_back [OF p, of 255] p show ?thesis by (simp add: demo_frame_def)
qed

text \<open>What two packets have in common when they are the same frame: arrays count up to their lengths.\<close>

definition same_frame :: "MeshCorePacket \<Rightarrow> MeshCorePacket \<Rightarrow> bool" where
  "same_frame p q \<longleftrightarrow> route q = route p \<and> payloadType q = payloadType p \<and> payloadVersion q = payloadVersion p \<and>
     (hasTransportCodes p \<longrightarrow> transportCodes q = transportCodes p) \<and>
     pathLength q = pathLength p \<and> pathHashSize q = pathHashSize p \<and> take (path_bytes p) (path q) = take (path_bytes p) (path p) \<and>
     payloadLength q = payloadLength p \<and>
     take (unat (payloadLength p)) (payload q) = take (unat (payloadLength p)) (payload p)"

text \<open>A packet whose fields fit a frame.\<close>

definition packet_fits :: "MeshCorePacket \<Rightarrow> bool" where
  "packet_fits p \<longleftrightarrow> payloadType p AND 0x0F = payloadType p \<and> payloadVersion p AND 0x03 = payloadVersion p \<and>
     pathLength p AND 0x3F = pathLength p \<and> pathHashSize p \<noteq> 0 \<and> pathHashSize p \<le> 4 \<and>
     path_bytes p \<le> MESHCORE_MAX_PATH_SIZE \<and> unat (payloadLength p) \<le> MESHCORE_MAX_PAYLOAD_SIZE \<and>
     length (path p) = MESHCORE_MAX_PATH_SIZE \<and> length (payload p) = MESHCORE_MAX_PAYLOAD_SIZE"

definition frame_size :: "MeshCorePacket \<Rightarrow> nat" where
  "frame_size p = 1 + (if hasTransportCodes p then 4 else 0) + 1 + path_bytes p + unat (payloadLength p)"

lemma hasTransportCodes_route: "route q = route p \<Longrightarrow> hasTransportCodes q = hasTransportCodes p"
  by (simp add: hasTransportCodes_def)

lemma packet_frame:
  assumes "packet_fits p" and "frame_size p \<le> capacity"
  defines "h \<equiv> (route_byte (route p) AND 0x03) OR push_bit 2 (payloadType p AND 0x0F) OR push_bit 6 (payloadVersion p AND 0x03)"
    and "b \<equiv> (pathLength p AND 0x3F) OR push_bit 6 (pathHashSize p - 1)"
    and "P \<equiv> take (path_bytes p) (path p)" and "L \<equiv> take (unat (payloadLength p)) (payload p)"
  shows "meshcore_packet_serialize p capacity = Some ([h] @
           (if hasTransportCodes p then le16 (fst (transportCodes p)) @ le16 (snd (transportCodes p)) else []) @ [b] @ P @ L)"
    and "body_ok b P L" and "route (with_header h q) = route p" "payloadType (with_header h q) = payloadType p"
    "payloadVersion (with_header h q) = payloadVersion p"
    and "b AND 0x3F = pathLength p" "drop_bit 6 b + 1 = pathHashSize p"
    and "length P = path_bytes p" "of_nat (length L) = payloadLength p"
proof -
  have len: "length P = path_bytes p" "length L = unat (payloadLength p)"
    using assms(1) by (simp_all add: packet_fits_def P_def L_def)
  show "length P = path_bytes p" "of_nat (length L) = payloadLength p" by (simp_all add: len)
  have no: "\<not> MESHCORE_MAX_PATH_SIZE < path_bytes p" "pathHashSize p \<noteq> 0" "\<not> 4 < pathHashSize p"
    "\<not> length (payload p) < unat (payloadLength p)" "\<not> capacity < frame_size p"
    using assms(1,2) by (auto simp: packet_fits_def)
  show "meshcore_packet_serialize p capacity = Some ([h] @
      (if hasTransportCodes p then le16 (fst (transportCodes p)) @ le16 (snd (transportCodes p)) else []) @ [b] @ P @ L)"
    unfolding meshcore_packet_serialize_def Let_def frame_size_def [symmetric] h_def b_def P_def L_def
    by (simp only: no simp_thms if_False)
  show parts: "b AND 0x3F = pathLength p" "drop_bit 6 b + 1 = pathHashSize p"
    using assms(1) path_byte_parts [of "pathHashSize p" "pathLength p"] by (simp_all only: packet_fits_def b_def simp_thms)
  then show "body_ok b P L" using assms(1) by (simp add: body_ok_def len path_bytes_def packet_fits_def)
  have "h AND 0x03 = route_byte (route p) AND 0x03" "drop_bit 2 h AND 0x0F = payloadType p AND 0x0F"
    "drop_bit 6 h AND 0x03 = payloadVersion p AND 0x03"
    unfolding h_def by (rule header_parts)+
  then show "route (with_header h q) = route p" "payloadType (with_header h q) = payloadType p"
    "payloadVersion (with_header h q) = payloadVersion p"
    using assms(1) by (simp_all add: with_header_def packet_fits_def route_bytes)
qed

text \<open>
  a packet that fits a frame is received as it was sent: with a buffer of the frame's size the
  serialized packet is parsed, into any packet, to the same route, type, version, transport codes
  (if any), path and payload.
\<close>

theorem packet_roundtrip:
  assumes "packet_fits p" and "frame_size p \<le> capacity"
  shows "\<exists>d q'. meshcore_packet_serialize p capacity = Some d \<and> length d = frame_size p \<and>
           meshcore_packet_parse d q = Some q' \<and> same_frame p q'"
proof -
  note fr = packet_frame [OF assms]
  let ?h = "(route_byte (route p) AND 0x03) OR push_bit 2 (payloadType p AND 0x0F) OR push_bit 6 (payloadVersion p AND 0x03)"
  let ?b = "(pathLength p AND 0x3F) OR push_bit 6 (pathHashSize p - 1)"
  let ?P = "take (path_bytes p) (path p)" and ?L = "take (unat (payloadLength p)) (payload p)"
  note htc = hasTransportCodes_route [OF fr(3)]
  have pb: "path (with_body ?b ?P ?L r) = copy_over ?P (path r)" "payload (with_body ?b ?P ?L r) = copy_over ?L (payload r)"
    "pathLength (with_body ?b ?P ?L r) = pathLength p" "pathHashSize (with_body ?b ?P ?L r) = pathHashSize p"
    "payloadLength (with_body ?b ?P ?L r) = payloadLength p" "payloadType (with_body ?b ?P ?L r) = payloadType r"
    "payloadVersion (with_body ?b ?P ?L r) = payloadVersion r" "transportCodes (with_body ?b ?P ?L r) = transportCodes r" for r
    unfolding with_body_def fr(6,7,9) by simp_all
  have cp: "take (path_bytes p) (copy_over ?P x) = ?P" "take (unat (payloadLength p)) (copy_over ?L y) = ?L" for x y
    using assms(1) by (simp_all add: copy_over_def packet_fits_def)
  have lens: "length ?L = unat (payloadLength p)" using assms(1) by (simp add: packet_fits_def)
  show ?thesis
  proof (cases "hasTransportCodes p")
    case False
    have ser: "meshcore_packet_serialize p capacity = Some (?h # ?b # ?P @ ?L)"
      using fr(1) unfolding if_not_P [OF False] by (simp only: append.simps)
    have "meshcore_packet_parse (?h # ?b # ?P @ ?L) q = Some (with_body ?b ?P ?L (with_header ?h q))"
      using False by (intro parse_plain fr(2)) (simp only: htc not_False_eq_True)
    moreover have "same_frame p (with_body ?b ?P ?L (with_header ?h q))"
      unfolding same_frame_def pb with_sel fr(3-5) cp using False by (simp only: simp_thms)
    moreover have "length (?h # ?b # ?P @ ?L) = frame_size p" by (simp only: list.size length_append fr(8) lens frame_size_def False if_False)
    ultimately show ?thesis using ser by blast
  next
    case True
    let ?c = "transportCodes p"
    have ser: "meshcore_packet_serialize p capacity = Some (?h # ucast (fst ?c) # ucast (drop_bit 8 (fst ?c)) #
        ucast (snd ?c) # ucast (drop_bit 8 (snd ?c)) # ?b # ?P @ ?L)" (is "_ = Some ?d")
      using fr(1) unfolding if_P [OF True] le16_def by (simp only: append.simps)
    let ?r = "(with_header ?h q)\<lparr>transportCodes := (from_le16 (ucast (fst ?c)) (ucast (drop_bit 8 (fst ?c))),
        from_le16 (ucast (snd ?c)) (ucast (drop_bit 8 (snd ?c))))\<rparr>"
    have "meshcore_packet_parse ?d q = Some (with_body ?b ?P ?L ?r)"
      using True by (intro parse_codes fr(2)) (simp only: htc)
    moreover have "route ?r = route p" "payloadType ?r = payloadType p" "payloadVersion ?r = payloadVersion p" "transportCodes ?r = ?c"
      using fr(3-5) by (simp_all add: from_le16_le16)
    then have "same_frame p (with_body ?b ?P ?L ?r)"
      unfolding same_frame_def pb with_sel cp by (simp only: simp_thms)
    moreover have "length ?d = frame_size p" by (simp only: list.size length_append fr(8) lens frame_size_def True if_True)
    ultimately show ?thesis using ser by blast
  qed
qed


definition demo_packet :: MeshCorePacket where
  "demo_packet = MeshCorePacket_init\<lparr>route := TransportDirect, payloadType := PAYLOAD_GroupText, transportCodes := (0x1234, 7),
     pathLength := 2, pathHashSize := 1, path := [9, 8] @ replicate 62 0, payloadLength := 3, payload := [1, 2, 3] @ replicate 181 0\<rparr>"

theorem packet_roundtrip_witness:
  "\<exists>d q'. meshcore_packet_serialize demo_packet 11 = Some d \<and> length d = frame_size demo_packet \<and>
     meshcore_packet_parse d MeshCorePacket_init = Some q' \<and> same_frame demo_packet q'"
proof (rule packet_roundtrip)
  show "packet_fits demo_packet"
    by (simp add: packet_fits_def demo_packet_def path_bytes_def MESHCORE_MAX_PATH_SIZE_def MESHCORE_MAX_PAYLOAD_SIZE_def
        MeshCorePacket_init_def PAYLOAD_GroupText_def)
  show "frame_size demo_packet \<le> 11"
    by (simp add: frame_size_def demo_packet_def path_bytes_def hasTransportCodes_def)
qed

end
