(* ===== verification/Meshcore_Crypto.thy ===== *)
theory Meshcore_Crypto
  imports Prelude
begin

text \<open>
  \<open>Modules/mesh-meshcore-module/source/meshcore_crypto.cpp\<close>: hashing, and encryption followed by a
  message authentication code. The PSA crypto library and the Ed25519 library are the record
  \<open>crypto_lib\<close>: its operations are arguments of the definitions, and what the code relies on of them
  is the predicate \<open>lawful\<close> (documented behaviour) and, for "it succeeds", \<open>available\<close>.
\<close>

section \<open>The crypto libraries\<close>

record crypto_lib =
  psa_sha256 :: "byte list \<Rightarrow> byte list"
    \<comment> \<open>setup, updates and finish over the concatenated inputs, as left in the 32 bytes\<close>
  psa_import_key :: "byte list \<Rightarrow> bool"
  psa_mac_compute :: "byte list \<Rightarrow> byte list \<Rightarrow> byte list option"   \<comment> \<open>HMAC-SHA-256 with a key\<close>
  psa_cipher_ecb :: "bool \<Rightarrow> byte list \<Rightarrow> byte list \<Rightarrow> byte list option"
    \<comment> \<open>encrypt (\<open>True\<close>) or decrypt with a key, AES-ECB without padding\<close>
  ed25519_create_keypair :: "byte list \<Rightarrow> byte list \<times> byte list"    \<comment> \<open>public and private key of a seed\<close>
  ed25519_sign :: "byte list \<Rightarrow> byte list \<Rightarrow> byte list \<Rightarrow> byte list"  \<comment> \<open>message, public, private\<close>
  ed25519_verify :: "byte list \<Rightarrow> byte list \<Rightarrow> byte list \<Rightarrow> bool"    \<comment> \<open>signature, message, public\<close>
  ed25519_key_exchange :: "byte list \<Rightarrow> byte list \<Rightarrow> byte list"     \<comment> \<open>public, private\<close>

definition MESHCORE_PUBLIC_KEY_SIZE :: nat where "MESHCORE_PUBLIC_KEY_SIZE = 32"
definition MESHCORE_SIGNATURE_SIZE :: nat where "MESHCORE_SIGNATURE_SIZE = 64"
definition MESHCORE_SECRET_SIZE :: nat where "MESHCORE_SECRET_SIZE = 32"
definition MESHCORE_CIPHER_KEY_SIZE :: nat where "MESHCORE_CIPHER_KEY_SIZE = 16"
definition MESHCORE_CIPHER_MAC_SIZE :: nat where "MESHCORE_CIPHER_MAC_SIZE = 2"
definition MESHCORE_CIPHER_BLOCK_SIZE :: nat where "MESHCORE_CIPHER_BLOCK_SIZE = 16"

named_theorems size_defs \<open>the sizes of the MeshCore protocol\<close>

lemmas [size_defs] = MESHCORE_PUBLIC_KEY_SIZE_def MESHCORE_SIGNATURE_SIZE_def MESHCORE_SECRET_SIZE_def
  MESHCORE_CIPHER_KEY_SIZE_def MESHCORE_CIPHER_MAC_SIZE_def MESHCORE_CIPHER_BLOCK_SIZE_def

text \<open>
  Documented: the sizes of the outputs; decrypting whole blocks undoes encrypting them; a
  signature of a generated key pair verifies; and the two ends of a key exchange agree.
\<close>

definition lawful :: "crypto_lib \<Rightarrow> bool" where
  "lawful c \<longleftrightarrow>
     (\<forall>m. length (psa_sha256 c m) = 32) \<and>
     (\<forall>k m h. psa_mac_compute c k m = Some h \<longrightarrow> length h = 32) \<and>
     (\<forall>k x y. psa_cipher_ecb c True k x = Some y \<longrightarrow> length y = length x \<and> psa_cipher_ecb c False k y = Some x) \<and>
     (\<forall>s. length (fst (ed25519_create_keypair c s)) = 32) \<and>
     (\<forall>m p k. length (ed25519_sign c m p k) = 64) \<and>
     (\<forall>s m. ed25519_verify c (ed25519_sign c m (fst (ed25519_create_keypair c s)) (snd (ed25519_create_keypair c s))) m
        (fst (ed25519_create_keypair c s))) \<and>
     (\<forall>p k. length (ed25519_key_exchange c p k) = 32) \<and>
     (\<forall>s t. ed25519_key_exchange c (fst (ed25519_create_keypair c t)) (snd (ed25519_create_keypair c s)) =
        ed25519_key_exchange c (fst (ed25519_create_keypair c s)) (snd (ed25519_create_keypair c t)))"

lemma lawfulD:
  assumes "lawful c"
  shows "length (psa_sha256 c m) = 32" "psa_mac_compute c k m = Some h \<Longrightarrow> length h = 32"
    "psa_cipher_ecb c True k x = Some y \<Longrightarrow> length y = length x"
    "psa_cipher_ecb c True k x = Some y \<Longrightarrow> psa_cipher_ecb c False k y = Some x"
    "length (fst (ed25519_create_keypair c s)) = 32" "length (ed25519_sign c m p k) = 64"
    "ed25519_create_keypair c s = (p, k) \<Longrightarrow> ed25519_verify c (ed25519_sign c m p k) m p"
    "length (ed25519_key_exchange c p k) = 32"
    "ed25519_key_exchange c (fst (ed25519_create_keypair c t)) (snd (ed25519_create_keypair c s)) =
        ed25519_key_exchange c (fst (ed25519_create_keypair c s)) (snd (ed25519_create_keypair c t))"
  using assms unfolding lawful_def by (blast, blast, blast, blast, blast, blast, metis fst_conv snd_conv, blast, blast)

text \<open>There is memory for a key, and whole blocks are encrypted.\<close>

definition available :: "crypto_lib \<Rightarrow> bool" where
  "available c \<longleftrightarrow> (\<forall>k. psa_import_key c k) \<and>
     (\<forall>k x. length k = 16 \<longrightarrow> 16 dvd length x \<longrightarrow> psa_cipher_ecb c True k x \<noteq> None)"

section \<open>Hashing and encryption\<close>

definition meshcore_sha256_pair :: "crypto_lib \<Rightarrow> nat \<Rightarrow> byte list \<Rightarrow> byte list \<Rightarrow> byte list" where
  "meshcore_sha256_pair c hash_size a b = take (if hash_size < 32 then hash_size else 32) (psa_sha256 c (a @ b))"

definition meshcore_sha256 :: "crypto_lib \<Rightarrow> nat \<Rightarrow> byte list \<Rightarrow> byte list" where
  "meshcore_sha256 c hash_size d = meshcore_sha256_pair c hash_size d []"

definition hmac :: "crypto_lib \<Rightarrow> byte list \<Rightarrow> byte list \<Rightarrow> byte list" where
  "hmac c secret d =
     (if \<not> psa_import_key c secret then replicate 32 0
      else case psa_mac_compute c secret d of None \<Rightarrow> replicate 32 0 | Some mac \<Rightarrow> mac)"

definition aesEcb :: "crypto_lib \<Rightarrow> byte list \<Rightarrow> bool \<Rightarrow> byte list \<Rightarrow> byte list option" where
  "aesEcb c secret encrypt input =
     (let k = take MESHCORE_CIPHER_KEY_SIZE secret in
      if \<not> psa_import_key c k then None
      else case psa_cipher_ecb c encrypt k input of
             None \<Rightarrow> None
           | Some output \<Rightarrow> if length output = length input then Some output else None)"

text \<open>The size of the padded text: whole blocks.\<close>

definition encryptedLength :: "nat \<Rightarrow> nat" where
  "encryptedLength len = (len + MESHCORE_CIPHER_BLOCK_SIZE - 1) div MESHCORE_CIPHER_BLOCK_SIZE * MESHCORE_CIPHER_BLOCK_SIZE"

text \<open>The buffer \<open>padded\<close>: the text followed by zeros up to whole blocks.\<close>

definition pad_blocks :: "byte list \<Rightarrow> byte list" where
  "pad_blocks d = d @ replicate (encryptedLength (length d) - length d) 0"

text \<open>The bytes written to the destination; \<open>None\<close> is the result 0.\<close>

definition meshcore_encrypt_then_mac :: "crypto_lib \<Rightarrow> byte list \<Rightarrow> byte list \<Rightarrow> byte list option" where
  "meshcore_encrypt_then_mac c secret source =
     (if encryptedLength (length source) > 256 then None
      else case aesEcb c secret True (pad_blocks source) of
             None \<Rightarrow> None
           | Some ciphertext \<Rightarrow> Some (take MESHCORE_CIPHER_MAC_SIZE (hmac c secret ciphertext) @ ciphertext))"

text \<open>
  The plain text of the \<open>len\<close> bytes at the front of \<open>source\<close>, empty for the result 0. \<open>None\<close>: bytes
  behind the end of the array of the source would be read.
\<close>

definition meshcore_mac_then_decrypt :: "crypto_lib \<Rightarrow> byte list \<Rightarrow> byte list \<Rightarrow> nat \<Rightarrow> byte list option" where
  "meshcore_mac_then_decrypt c secret source len =
     (if len \<le> MESHCORE_CIPHER_MAC_SIZE then Some []
      else let ciphertextLength = len - MESHCORE_CIPHER_MAC_SIZE in
      if ciphertextLength mod MESHCORE_CIPHER_BLOCK_SIZE \<noteq> 0 then Some []
      else if len > length source then None
      else let ciphertext = take ciphertextLength (drop MESHCORE_CIPHER_MAC_SIZE source) in
      if take MESHCORE_CIPHER_MAC_SIZE (hmac c secret ciphertext) \<noteq> take MESHCORE_CIPHER_MAC_SIZE source then Some []
      else case aesEcb c secret False ciphertext of None \<Rightarrow> Some [] | Some plain \<Rightarrow> Some plain)"

section \<open>Sealing and opening\<close>

lemma encryptedLength_props:
  "16 dvd encryptedLength n" "n \<le> encryptedLength n" "encryptedLength n < n + 16" "0 < n \<Longrightarrow> 16 \<le> encryptedLength n"
proof -
  show dvd: "16 dvd encryptedLength n" by (simp add: encryptedLength_def size_defs)
  have "encryptedLength n + (n + 15) mod 16 = n + 15"
    using div_mult_mod_eq [of "n + 15" 16] by (simp add: encryptedLength_def size_defs add.commute)
  moreover have "(n + 15) mod 16 < 16" by simp
  ultimately show le: "n \<le> encryptedLength n" and "encryptedLength n < n + 16" by linarith+
  show "16 \<le> encryptedLength n" if "0 < n" using that le dvd by (intro dvd_imp_le) auto
qed

lemma pad_blocks_length [simp]: "length (pad_blocks d) = encryptedLength (length d)"
  using encryptedLength_props(2) [of "length d"] by (simp add: pad_blocks_def)

lemma hmac_length: "lawful c \<Longrightarrow> length (hmac c s d) = 32"
  by (cases "psa_mac_compute c s d") (auto simp: hmac_def dest: lawfulD(2))

lemma aesEcb_roundtrip:
  assumes "lawful c" "aesEcb c s True x = Some y"
  shows "length y = length x" "aesEcb c s False y = Some x"
proof -
  let ?k = "take MESHCORE_CIPHER_KEY_SIZE s"
  from assms(2) have "psa_import_key c ?k" and e: "psa_cipher_ecb c True ?k x = Some y"
    by (auto simp: aesEcb_def Let_def split: if_split_asm option.split_asm)
  with lawfulD(3,4) [OF assms(1) e] show "length y = length x" "aesEcb c s False y = Some x"
    by (simp_all add: aesEcb_def Let_def)
qed

text \<open>
  The contract of a sealed message: opening gives back the padded text, wherever the sealed bytes
  stand in front of the rest of an array.
\<close>

locale sealed_text =
  fixes seal :: "'k \<Rightarrow> byte list \<Rightarrow> byte list option"
    and unseal :: "'k \<Rightarrow> byte list \<Rightarrow> nat \<Rightarrow> byte list option"
    and usable :: "'k \<Rightarrow> bool"
    and pad :: "byte list \<Rightarrow> byte list"
  assumes unseal_seal: "usable k \<Longrightarrow> m \<noteq> [] \<Longrightarrow> seal k m = Some b \<Longrightarrow> unseal k (b @ rest) (length b) = Some (pad m)"
begin

lemma seal_determines: "usable k \<Longrightarrow> m \<noteq> [] \<Longrightarrow> n \<noteq> [] \<Longrightarrow> seal k m = Some b \<Longrightarrow> seal k n = Some b \<Longrightarrow> pad m = pad n"
  using unseal_seal [of k m b "[]"] unseal_seal [of k n b "[]"] by simp

end

interpretation meshcore_box: sealed_text "\<lambda>(c, s). meshcore_encrypt_then_mac c s"
  "\<lambda>(c, s). meshcore_mac_then_decrypt c s" "\<lambda>(c, s). lawful c" pad_blocks
proof (unfold_locales, clarify)
  fix c s m b and rest :: "byte list"
  assume c: "lawful c" and m: "m \<noteq> []" and enc: "meshcore_encrypt_then_mac c s m = Some b"
  then obtain ct where ct: "aesEcb c s True (pad_blocks m) = Some ct" and b: "b = take 2 (hmac c s ct) @ ct"
    by (auto simp: meshcore_encrypt_then_mac_def size_defs split: if_splits option.splits)
  from aesEcb_roundtrip [OF c ct] have len: "length ct = encryptedLength (length m)"
    and dec: "aesEcb c s False ct = Some (pad_blocks m)" by simp_all
  from hmac_length [OF c] have mac: "length (take 2 (hmac c s ct)) = 2" by simp
  have "length ct mod 16 = 0" "length ct \<noteq> 0"
    unfolding len using encryptedLength_props [of "length m"] m by auto
  with mac dec show "meshcore_mac_then_decrypt c s (b @ rest) (length b) = Some (pad_blocks m)"
    by (simp add: meshcore_mac_then_decrypt_def b size_defs Let_def hmac_length [OF c])
qed

lemma encrypt_available:
  assumes "lawful c" "available c" "length s = 32" "encryptedLength (length m) \<le> 256"
  shows "\<exists>b. meshcore_encrypt_then_mac c s m = Some b \<and> length b = 2 + encryptedLength (length m)"
proof -
  have "length (take 16 s) = 16" "16 dvd length (pad_blocks m)"
    using assms(3) encryptedLength_props(1) by simp_all
  with assms(2) obtain y where y: "psa_cipher_ecb c True (take 16 s) (pad_blocks m) = Some y" "psa_import_key c (take 16 s)"
    unfolding available_def by blast
  with lawfulD(3) [OF assms(1) y(1)] have "length y = encryptedLength (length m)" by simp
  with y have "aesEcb c s True (pad_blocks m) = Some y" by (simp add: aesEcb_def size_defs)
  with assms(4) \<open>length y = encryptedLength (length m)\<close> show ?thesis
    by (simp add: meshcore_encrypt_then_mac_def size_defs hmac_length [OF assms(1)])
qed

end
