(* ===== verification/Meshcore_Protocol.thy ===== *)
theory Meshcore_Protocol
  imports Meshcore_Packet Meshcore_Crypto
begin

text \<open>
  \<open>Modules/mesh-meshcore-module/source/meshcore_protocol.cpp\<close>: identities, channels, and the payloads
  that a MeshCore node sends and understands: adverts, group texts, text messages and their
  acknowledgements, and the URI of a contact. C strings are the bytes before the terminator.

  A parse function returns \<open>Some None\<close> for false; \<open>None\<close> is a read behind the end of an array.
\<close>

section \<open>Data\<close>

record MeshCoreIdentity =
  publicKey :: "byte list"
  privateKey :: "byte list"

record MeshCoreChannel =
  chan_hash :: byte
  chan_secret :: "byte list"

record MeshCoreAdvert =
  adv_publicKey :: "byte list"
  adv_timestamp :: "32 word"
  adv_type :: byte
  adv_name :: "byte list"

record MeshCoreText =
  text_timestamp :: "32 word"
  text_flags :: byte
  text_text :: "byte list"

definition NODE_TYPE_None :: byte where "NODE_TYPE_None = 0"
definition NODE_TYPE_Chat :: byte where "NODE_TYPE_Chat = 1"

definition ADVERT_FLAG_LATLON :: byte where "ADVERT_FLAG_LATLON = 0x10"
definition ADVERT_FLAG_FEATURE_1 :: byte where "ADVERT_FLAG_FEATURE_1 = 0x20"
definition ADVERT_FLAG_FEATURE_2 :: byte where "ADVERT_FLAG_FEATURE_2 = 0x40"
definition ADVERT_FLAG_NAME :: byte where "ADVERT_FLAG_NAME = 0x80"
definition ADVERT_FIXED_SIZE :: nat where "ADVERT_FIXED_SIZE = MESHCORE_PUBLIC_KEY_SIZE + 4 + MESHCORE_SIGNATURE_SIZE"
definition TEXT_HEADER_SIZE :: nat where "TEXT_HEADER_SIZE = 5"
definition MAX_PLAINTEXT_SIZE :: nat where "MAX_PLAINTEXT_SIZE = 160"

lemmas [size_defs] = ADVERT_FIXED_SIZE_def TEXT_HEADER_SIZE_def MAX_PLAINTEXT_SIZE_def
  MESHCORE_MAX_PATH_SIZE_def MESHCORE_MAX_PAYLOAD_SIZE_def

definition MESHCORE_PUBLIC_CHANNEL_KEY :: "byte list" where
  "MESHCORE_PUBLIC_CHANNEL_KEY =
     [0x8b, 0x33, 0x87, 0xe9, 0xc5, 0xcd, 0xea, 0x6a, 0xc9, 0xe5, 0xed, 0xba, 0xa1, 0x15, 0xcd, 0x72]"

definition read_u32 :: "byte list \<Rightarrow> 32 word" where
  "read_u32 d = from_le32 (d ! 0) (d ! 1) (d ! 2) (d ! 3)"

definition ackHashOf :: "crypto_lib \<Rightarrow> byte list \<Rightarrow> byte list \<Rightarrow> 32 word" where
  "ackHashOf c plaintext sender = read_u32 (meshcore_sha256_pair c 4 plaintext sender)"

text \<open>\<open>strnlen\<close>: up to the first zero.\<close>

definition textFromPlaintext :: "byte list \<Rightarrow> byte list" where
  "textFromPlaintext plaintext = takeWhile (\<lambda>b. b \<noteq> 0) plaintext"

section \<open>Identities and channels\<close>

definition meshcore_identity_create :: "crypto_lib \<Rightarrow> byte list \<Rightarrow> MeshCoreIdentity" where
  "meshcore_identity_create c seed =
     (case ed25519_create_keypair c seed of (pub, priv) \<Rightarrow> \<lparr>publicKey = pub, privateKey = priv\<rparr>)"

definition meshcore_channel_from_key :: "crypto_lib \<Rightarrow> byte list \<Rightarrow> MeshCoreChannel" where
  "meshcore_channel_from_key c key =
     \<lparr>chan_hash = hd (meshcore_sha256 c 1 key), chan_secret = copy_over key (replicate MESHCORE_SECRET_SIZE 0)\<rparr>"

definition meshcore_hashtag_channel_key :: "crypto_lib \<Rightarrow> byte list \<Rightarrow> byte list" where
  "meshcore_hashtag_channel_key c name = meshcore_sha256 c 16 name"

definition meshcore_shared_secret :: "crypto_lib \<Rightarrow> MeshCoreIdentity \<Rightarrow> byte list \<Rightarrow> byte list" where
  "meshcore_shared_secret c identity peer = ed25519_key_exchange c peer (privateKey identity)"

text \<open>A packet fresh from \<open>*packet = {}\<close> with its route, type and payload.\<close>

definition flood_packet :: "byte \<Rightarrow> byte list \<Rightarrow> MeshCorePacket" where
  "flood_packet type body = MeshCorePacket_init\<lparr>route := Flood, payloadType := type,
     payload := copy_over body (payload MeshCorePacket_init), payloadLength := of_nat (length body)\<rparr>"

section \<open>Adverts\<close>

definition advert_message :: "byte list \<Rightarrow> 32 word \<Rightarrow> byte list \<Rightarrow> byte list" where
  "advert_message pub timestamp appData = pub @ le32 timestamp @ appData"

definition meshcore_build_advert :: "crypto_lib \<Rightarrow> MeshCoreIdentity \<Rightarrow> 32 word \<Rightarrow> byte list \<Rightarrow> MeshCorePacket option" where
  "meshcore_build_advert c identity timestamp name =
     (if ADVERT_FIXED_SIZE + 1 + length name > MESHCORE_MAX_PAYLOAD_SIZE then None
      else let appData = (NODE_TYPE_Chat OR ADVERT_FLAG_NAME) # name;
               signature = ed25519_sign c (advert_message (publicKey identity) timestamp appData)
                 (publicKey identity) (privateKey identity) in
        Some (flood_packet PAYLOAD_Advert (publicKey identity @ le32 timestamp @ signature @ appData)))"

definition meshcore_parse_advert :: "crypto_lib \<Rightarrow> MeshCorePacket \<Rightarrow> MeshCoreAdvert option option" where
  "meshcore_parse_advert c p =
     (if payloadType p \<noteq> PAYLOAD_Advert \<or> unat (payloadLength p) < ADVERT_FIXED_SIZE then Some None
      else if unat (payloadLength p) > length (payload p) then None
      else let pub = take MESHCORE_PUBLIC_KEY_SIZE (payload p);
               appData = take (unat (payloadLength p) - ADVERT_FIXED_SIZE) (drop ADVERT_FIXED_SIZE (payload p));
               message = take (MESHCORE_PUBLIC_KEY_SIZE + 4) (payload p) @ appData;
               signature = take MESHCORE_SIGNATURE_SIZE (drop (MESHCORE_PUBLIC_KEY_SIZE + 4) (payload p)) in
      if \<not> ed25519_verify c signature message pub then Some None
      else let advert = \<lparr>adv_publicKey = pub, adv_timestamp = read_u32 (drop MESHCORE_PUBLIC_KEY_SIZE (payload p)),
                 adv_type = NODE_TYPE_None, adv_name = []\<rparr> in
      if appData = [] then Some (Some advert)
      else let flags = appData ! 0;
               advert = advert\<lparr>adv_type := flags AND 0x0F\<rparr>;
               position = 1 + (if flags AND ADVERT_FLAG_LATLON \<noteq> 0 then 8 else 0) +
                 (if flags AND ADVERT_FLAG_FEATURE_1 \<noteq> 0 then 2 else 0) + (if flags AND ADVERT_FLAG_FEATURE_2 \<noteq> 0 then 2 else 0) in
      if flags AND ADVERT_FLAG_NAME \<noteq> 0 \<and> position < length appData
      then Some (Some (advert\<lparr>adv_name := textFromPlaintext (drop position appData)\<rparr>))
      else Some (Some advert))"

section \<open>Group texts\<close>

text \<open>The bytes that \<open>snprintf\<close> writes for \<open>"%s: %s"\<close>.\<close>

definition sender_text :: "byte list \<Rightarrow> byte list \<Rightarrow> byte list" where
  "sender_text sender txt = sender @ [0x3A, 0x20] @ txt"

definition meshcore_build_group_text ::
  "crypto_lib \<Rightarrow> MeshCoreChannel \<Rightarrow> 32 word \<Rightarrow> byte list \<Rightarrow> byte list \<Rightarrow> MeshCorePacket option" where
  "meshcore_build_group_text c channel timestamp sender txt =
     (let written = sender_text sender txt in
      if length written \<ge> MAX_PLAINTEXT_SIZE - TEXT_HEADER_SIZE then None
      else case meshcore_encrypt_then_mac c (chan_secret channel) (le32 timestamp @ [0] @ written) of
             None \<Rightarrow> None
           | Some encrypted \<Rightarrow> Some (flood_packet PAYLOAD_GroupText (chan_hash channel # encrypted)))"

text \<open>The plain text of a received message: timestamp, flags, text.\<close>

definition read_text :: "byte list \<Rightarrow> MeshCoreText option" where
  "read_text plaintext =
     (if length plaintext < TEXT_HEADER_SIZE then None
      else Some \<lparr>text_timestamp = read_u32 plaintext, text_flags = plaintext ! 4,
        text_text = textFromPlaintext (drop TEXT_HEADER_SIZE plaintext)\<rparr>)"

definition meshcore_parse_group_text :: "crypto_lib \<Rightarrow> MeshCoreChannel \<Rightarrow> MeshCorePacket \<Rightarrow> MeshCoreText option option" where
  "meshcore_parse_group_text c channel p =
     (if payloadType p \<noteq> PAYLOAD_GroupText \<or>
        unat (payloadLength p) < 1 + MESHCORE_CIPHER_MAC_SIZE + MESHCORE_CIPHER_BLOCK_SIZE \<or>
        payload p ! 0 \<noteq> chan_hash channel then Some None
      else map_option read_text
        (meshcore_mac_then_decrypt c (chan_secret channel) (drop 1 (payload p)) (unat (payloadLength p) - 1)))"

section \<open>Text messages\<close>

definition meshcore_build_text_message :: "crypto_lib \<Rightarrow> MeshCoreIdentity \<Rightarrow> byte list \<Rightarrow> 32 word \<Rightarrow> byte \<Rightarrow> byte list
    \<Rightarrow> (MeshCorePacket \<times> 32 word) option" where
  "meshcore_build_text_message c identity peer timestamp attempt txt =
     (if TEXT_HEADER_SIZE + length txt > MAX_PLAINTEXT_SIZE then None
      else let plaintext = le32 timestamp @ [attempt AND 0x03] @ txt;
               ackHash = ackHashOf c plaintext (publicKey identity);
               secret = meshcore_shared_secret c identity peer in
      case meshcore_encrypt_then_mac c secret plaintext of
        None \<Rightarrow> None
      | Some encrypted \<Rightarrow> Some (flood_packet PAYLOAD_TextMessage (hd peer # hd (publicKey identity) # encrypted), ackHash))"

text \<open>The destination and the source hash.\<close>

definition meshcore_peek_text_message :: "MeshCorePacket \<Rightarrow> (byte \<times> byte) option" where
  "meshcore_peek_text_message p =
     (if payloadType p \<noteq> PAYLOAD_TextMessage \<or>
        unat (payloadLength p) < 2 + MESHCORE_CIPHER_MAC_SIZE + MESHCORE_CIPHER_BLOCK_SIZE then None
      else Some (payload p ! 0, payload p ! 1))"

text \<open>
  \<open>packet.payloadLength - 2\<close> is an \<open>int\<close> that is converted to \<open>size_t\<close>, 32 bits wide on the target.
\<close>

definition minus_two :: "byte \<Rightarrow> nat" where
  "minus_two n = nat ((uint n - 2) mod 2 ^ 32)"

definition meshcore_parse_text_message :: "crypto_lib \<Rightarrow> MeshCoreIdentity \<Rightarrow> byte list \<Rightarrow> MeshCorePacket
    \<Rightarrow> (MeshCoreText \<times> 32 word) option option" where
  "meshcore_parse_text_message c identity peer p =
     (case meshcore_mac_then_decrypt c (meshcore_shared_secret c identity peer) (drop 2 (payload p))
        (minus_two (payloadLength p)) of
        None \<Rightarrow> None
      | Some plaintext \<Rightarrow> Some (case read_text plaintext of
          None \<Rightarrow> None
        | Some t \<Rightarrow> Some (t, ackHashOf c (take (TEXT_HEADER_SIZE + length (text_text t)) plaintext) peer)))"

section \<open>Acknowledgements\<close>

definition meshcore_build_ack :: "32 word \<Rightarrow> MeshCorePacket" where
  "meshcore_build_ack ackHash = flood_packet PAYLOAD_Ack (le32 ackHash)"

definition meshcore_parse_ack :: "MeshCorePacket \<Rightarrow> 32 word option" where
  "meshcore_parse_ack p =
     (if payloadType p \<noteq> PAYLOAD_Ack \<or> unat (payloadLength p) < 4 then None else Some (read_u32 (payload p)))"


section \<open>The packets that are built\<close>

lemma flood_packet_sel [simp]:
  "route (flood_packet t b) = Flood" "payloadType (flood_packet t b) = t" "payloadVersion (flood_packet t b) = 0"
  "pathLength (flood_packet t b) = 0" "pathHashSize (flood_packet t b) = 1" "payloadLength (flood_packet t b) = of_nat (length b)"
  "length (path (flood_packet t b)) = MESHCORE_MAX_PATH_SIZE"
  by (simp_all add: flood_packet_def MeshCorePacket_init_def)

lemma flood_packet_payload:
  assumes "length b \<le> MESHCORE_MAX_PAYLOAD_SIZE"
  shows "payload (flood_packet t b) = b @ replicate (MESHCORE_MAX_PAYLOAD_SIZE - length b) 0"
    "unat (payloadLength (flood_packet t b)) = length b"
    "length (payload (flood_packet t b)) = MESHCORE_MAX_PAYLOAD_SIZE"
  using assms by (simp_all add: flood_packet_def MeshCorePacket_init_def copy_over_def size_defs unsigned_of_nat take_bit_nat_eq_self)

lemma flood_packet_fits:
  assumes "length b \<le> MESHCORE_MAX_PAYLOAD_SIZE" "t AND 0x0F = t"
  shows "packet_fits (flood_packet t b)" "frame_size (flood_packet t b) = 2 + length b"
  using assms flood_packet_payload [OF assms(1), of t]
  by (simp_all add: packet_fits_def frame_size_def path_bytes_def hasTransportCodes_def)

lemma payload_types [simp]:
  "PAYLOAD_Advert AND 0x0F = PAYLOAD_Advert" "PAYLOAD_Ack AND 0x0F = PAYLOAD_Ack"
  "PAYLOAD_GroupText AND 0x0F = PAYLOAD_GroupText" "PAYLOAD_TextMessage AND 0x0F = PAYLOAD_TextMessage"
  by (simp_all add: PAYLOAD_Advert_def PAYLOAD_Ack_def PAYLOAD_GroupText_def PAYLOAD_TextMessage_def)

lemma read_u32_le32 [simp]: "read_u32 (le32 w @ r) = w" "read_u32 (le32 w) = w"
  by (simp_all add: read_u32_def le32_unfold from_le32_le32)

lemma textFromPlaintext_pad [simp]: "0 \<notin> set t \<Longrightarrow> textFromPlaintext (t @ replicate n 0) = t"
  by (cases n) (auto simp: textFromPlaintext_def takeWhile_append)

lemma encrypt_length: "lawful c \<Longrightarrow> meshcore_encrypt_then_mac c s m = Some b \<Longrightarrow> length b = 2 + encryptedLength (length m)"
  by (auto simp: meshcore_encrypt_then_mac_def size_defs hmac_length split: if_splits option.splits
      dest!: aesEcb_roundtrip(1) [rotated])

text \<open>The plain text of a message, padded, and what is read from it.\<close>

lemma read_text_padded:
  assumes "0 \<notin> set t"
  shows "read_text (pad_blocks (le32 w @ f # t)) = Some \<lparr>text_timestamp = w, text_flags = f, text_text = t\<rparr>"
    "take (5 + length t) (pad_blocks (le32 w @ f # t)) = le32 w @ f # t"
  using assms by (simp_all add: read_text_def pad_blocks_def size_defs nth_append)

lemma decrypt_built:
  assumes "lawful c" "meshcore_encrypt_then_mac c s (le32 w @ m) = Some b"
  shows "meshcore_mac_then_decrypt c s (b @ r) (length b) = Some (pad_blocks (le32 w @ m))"
  using meshcore_box.unseal_seal [of "(c, s)" "le32 w @ m" b r] assms by (simp add: le32_unfold)

lemma plaintext_encrypted: "n \<le> 160 \<Longrightarrow> encryptedLength n \<le> 160"
proof -
  assume "n \<le> 160"
  then have "encryptedLength n < 176" using encryptedLength_props(3) [of n] by simp
  with encryptedLength_props(1) [of n] show "encryptedLength n \<le> 160" by (auto elim!: dvdE)
qed

lemma encrypted_payload:
  assumes "lawful c" "meshcore_encrypt_then_mac c s (le32 w @ m) = Some b"
  shows "18 \<le> length b" "length (le32 w @ m) \<le> 160 \<Longrightarrow> length b \<le> 162"
proof -
  have l: "length b = 2 + encryptedLength (length (le32 w @ m))" by (rule encrypt_length [OF assms])
  have "16 \<le> encryptedLength (length (le32 w @ m))" by (rule encryptedLength_props(4)) simp
  with l show "18 \<le> length b" by simp
  show "length b \<le> 162" if "length (le32 w @ m) \<le> 160" using plaintext_encrypted [OF that] l by simp
qed

text \<open>
  C24: the members of a channel read what was sent to it. A group text that is built for a channel
  fits a frame, and everyone with the channel's key reads its timestamp and "sender: text" from it;
  if keys can be imported, building fails only for a text that is too long.
\<close>

theorem group_text_roundtrip:
  assumes "lawful c" and "0 \<notin> set sender" "0 \<notin> set txt"
  shows "(\<forall>p. meshcore_build_group_text c channel timestamp sender txt = Some p \<longrightarrow>
      packet_fits p \<and> frame_size p \<le> 255 \<and> meshcore_parse_group_text c channel p =
        Some (Some \<lparr>text_timestamp = timestamp, text_flags = 0, text_text = sender @ [0x3A, 0x20] @ txt\<rparr>)) \<and>
    (available c \<and> length (chan_secret channel) = 32 \<longrightarrow>
      (meshcore_build_group_text c channel timestamp sender txt = None \<longleftrightarrow> length sender + length txt > 152))"
proof (intro conjI allI impI)
  let ?m = "le32 timestamp @ 0 # sender_text sender txt"
  have nz: "0 \<notin> set (sender_text sender txt)" using assms(2,3) by (simp add: sender_text_def)
  fix p assume "meshcore_build_group_text c channel timestamp sender txt = Some p"
  then obtain b where len: "length (sender_text sender txt) < 155"
    and b: "meshcore_encrypt_then_mac c (chan_secret channel) ?m = Some b"
    and p: "p = flood_packet PAYLOAD_GroupText (chan_hash channel # b)"
    by (auto simp: meshcore_build_group_text_def Let_def size_defs split: if_splits option.splits)
  note lb = encrypted_payload [OF assms(1) b]
  have fits: "length (chan_hash channel # b) \<le> MESHCORE_MAX_PAYLOAD_SIZE" using lb len by (simp add: size_defs)
  have "meshcore_parse_group_text c channel p = map_option read_text
      (meshcore_mac_then_decrypt c (chan_secret channel) (b @ replicate (183 - length b) 0) (length b))"
    using lb flood_packet_payload [OF fits, of PAYLOAD_GroupText]
    by (simp add: meshcore_parse_group_text_def p size_defs)
  also have "\<dots> = Some (read_text (pad_blocks ?m))" by (simp add: decrypt_built [OF assms(1) b])
  finally show "meshcore_parse_group_text c channel p =
      Some (Some \<lparr>text_timestamp = timestamp, text_flags = 0, text_text = sender @ [0x3A, 0x20] @ txt\<rparr>)"
    by (simp add: read_text_padded(1) [OF nz], simp add: sender_text_def)
  show "packet_fits p" "frame_size p \<le> 255"
    using flood_packet_fits [OF fits, of PAYLOAD_GroupText] fits by (simp_all add: p size_defs)
next
  let ?m = "le32 timestamp @ 0 # sender_text sender txt"
  assume av: "available c \<and> length (chan_secret channel) = 32"
  show "meshcore_build_group_text c channel timestamp sender txt = None \<longleftrightarrow> length sender + length txt > 152"
  proof (cases "length sender + length txt > 152")
    case False
    then have "encryptedLength (length ?m) \<le> 160" by (intro plaintext_encrypted) (simp add: sender_text_def)
    then obtain b where "meshcore_encrypt_then_mac c (chan_secret channel) ?m = Some b"
      using encrypt_available [OF assms(1), of "chan_secret channel" ?m] av by auto
    with False show ?thesis by (simp add: meshcore_build_group_text_def Let_def size_defs sender_text_def)
  qed (simp add: meshcore_build_group_text_def sender_text_def size_defs)
qed


lemma minus_two_int:
  "uint b = int n \<Longrightarrow> n < 256 \<Longrightarrow>
     minus_two b = (if n = 0 then 4294967294 else if n = 1 then 4294967295 else n - 2)"
  by (auto simp: minus_two_def)

lemma minus_two_of: "2 \<le> n \<Longrightarrow> n < 256 \<Longrightarrow> minus_two (of_nat n) = n - 2"
  by (simp add: minus_two_def uint_nat unsigned_of_nat take_bit_nat_eq_self)

text \<open>A conversation: both ends made their identity from a seed.\<close>

lemma identity_sel [simp]:
  "publicKey (meshcore_identity_create c s) = fst (ed25519_create_keypair c s)"
  "privateKey (meshcore_identity_create c s) = snd (ed25519_create_keypair c s)"
  by (simp_all add: meshcore_identity_create_def split: prod.split)

lemma shared_secret_symmetric:
  assumes "lawful c" "alice = meshcore_identity_create c s" "bob = meshcore_identity_create c t"
  shows "meshcore_shared_secret c alice (publicKey bob) = meshcore_shared_secret c bob (publicKey alice)"
    "length (meshcore_shared_secret c alice (publicKey bob)) = 32"
  using lawfulD(8,9) [OF assms(1)] by (simp_all add: assms(2,3) meshcore_shared_secret_def)

lemma text_message_built:
  assumes "lawful c" and "alice = meshcore_identity_create c s" "bob = meshcore_identity_create c t"
    and "0 \<notin> set txt"
    and "meshcore_build_text_message c alice (publicKey bob) timestamp attempt txt = Some (p, h)"
  shows "\<exists>b. p = flood_packet PAYLOAD_TextMessage b \<and> length b \<le> MESHCORE_MAX_PAYLOAD_SIZE"
    and "meshcore_peek_text_message p = Some (hd (publicKey bob), hd (publicKey alice))"
    and "meshcore_parse_text_message c bob (publicKey alice) p =
      Some (Some (\<lparr>text_timestamp = timestamp, text_flags = attempt AND 0x03, text_text = txt\<rparr>, h))"
proof -
  let ?m = "le32 timestamp @ (attempt AND 0x03) # txt" and ?s = "meshcore_shared_secret c alice (publicKey bob)"
  from assms(5) obtain b where len: "length txt \<le> 155" and b: "meshcore_encrypt_then_mac c ?s ?m = Some b"
    and p: "p = flood_packet PAYLOAD_TextMessage (hd (publicKey bob) # hd (publicKey alice) # b)"
    and h: "h = ackHashOf c ?m (publicKey alice)"
    by (auto simp: meshcore_build_text_message_def Let_def size_defs split: if_splits option.splits)
  note lb = encrypted_payload [OF assms(1) b]
  have fits: "length (hd (publicKey bob) # hd (publicKey alice) # b) \<le> MESHCORE_MAX_PAYLOAD_SIZE" and b256: "length b + 2 < 256"
    using lb len by (simp_all add: size_defs)
  note pl = flood_packet_payload [OF fits, of PAYLOAD_TextMessage, folded p]
  from p fits show "\<exists>b. p = flood_packet PAYLOAD_TextMessage b \<and> length b \<le> MESHCORE_MAX_PAYLOAD_SIZE" by blast
  show "meshcore_peek_text_message p = Some (hd (publicKey bob), hd (publicKey alice))"
    using lb(1) pl by (simp add: meshcore_peek_text_message_def p size_defs)
  have "minus_two (payloadLength p) = length b"
    using minus_two_of [of "length b + 2"] b256 by (simp add: p)
  then have "meshcore_mac_then_decrypt c ?s (drop 2 (payload p)) (minus_two (payloadLength p)) = Some (pad_blocks ?m)"
    using decrypt_built [OF assms(1) b] pl(1) by simp
  then show "meshcore_parse_text_message c bob (publicKey alice) p =
      Some (Some (\<lparr>text_timestamp = timestamp, text_flags = attempt AND 0x03, text_text = txt\<rparr>, h))"
    by (simp add: meshcore_parse_text_message_def shared_secret_symmetric(1) [OF assms(1-3), symmetric]
        read_text_padded [OF assms(4)] h TEXT_HEADER_SIZE_def)
qed

lemma ack_roundtrip: "meshcore_parse_ack (meshcore_build_ack h) = Some h"
  using flood_packet_payload [of "le32 h" PAYLOAD_Ack] by (simp add: meshcore_parse_ack_def meshcore_build_ack_def size_defs)

text \<open>
  C23: a text message reaches its peer. What one node builds for another fits a frame; the receiver
  finds its own and the sender's hash in it without decrypting, decrypts it to the text, the
  timestamp and the attempt number that were sent, and computes the same acknowledgement hash as the
  sender, so that the sender reads its own hash from the acknowledgement.
\<close>

theorem text_message_roundtrip:
  assumes "lawful c" and "alice = meshcore_identity_create c s" "bob = meshcore_identity_create c t"
    and "0 \<notin> set txt"
    and "meshcore_build_text_message c alice (publicKey bob) timestamp attempt txt = Some (p, h)"
  shows "packet_fits p \<and> frame_size p \<le> 255 \<and>
    meshcore_peek_text_message p = Some (hd (publicKey bob), hd (publicKey alice)) \<and>
    meshcore_parse_text_message c bob (publicKey alice) p =
      Some (Some (\<lparr>text_timestamp = timestamp, text_flags = attempt AND 0x03, text_text = txt\<rparr>, h)) \<and>
    meshcore_parse_ack (meshcore_build_ack h) = Some h"
proof -
  note built = text_message_built [OF assms]
  from built(1) obtain b where "p = flood_packet PAYLOAD_TextMessage b" "length b \<le> MESHCORE_MAX_PAYLOAD_SIZE" by blast
  then have "packet_fits p" "frame_size p \<le> 255" using flood_packet_fits [of b PAYLOAD_TextMessage] by (simp_all add: size_defs)
  with built(2,3) ack_roundtrip show ?thesis by simp
qed

text \<open>
  Parsing a text message never reads outside of the payload, although its length is not checked:
  \<open>payloadLength - 2\<close> wraps around for payloads of 0 and 1 bytes, and those are rejected like every
  payload that is not two hashes, a MAC and whole blocks.
\<close>

lemma text_message_parse_safe:
  assumes "length (payload p) = MESHCORE_MAX_PAYLOAD_SIZE" and "unat (payloadLength p) \<le> MESHCORE_MAX_PAYLOAD_SIZE"
  shows "meshcore_parse_text_message c identity peer p \<noteq> None \<and>
    (unat (payloadLength p) < 4 \<or> (unat (payloadLength p) - 4) mod 16 \<noteq> 0 \<longrightarrow>
      meshcore_parse_text_message c identity peer p = Some None)"
proof -
  let ?n = "unat (payloadLength p)"
  have "uint (payloadLength p) = int ?n" "?n < 256" using unsigned_less [of "payloadLength p"] by simp_all
  then have m: "minus_two (payloadLength p) = (if ?n = 0 then 4294967294 else if ?n = 1 then 4294967295 else ?n - 2)"
    by (rule minus_two_int)
  show ?thesis
  proof (cases "?n < 4 \<or> (?n - 4) mod 16 \<noteq> 0")
    case True
    then have "meshcore_mac_then_decrypt c (meshcore_shared_secret c identity peer) (drop 2 (payload p)) (minus_two (payloadLength p)) = Some []"
      unfolding m meshcore_mac_then_decrypt_def size_defs by (auto simp: Let_def)
    then show ?thesis by (simp add: meshcore_parse_text_message_def read_text_def size_defs)
  next
    case False
    then have "minus_two (payloadLength p) \<le> length (drop 2 (payload p))" using assms unfolding m by auto
    then show ?thesis using False
      by (auto simp: meshcore_parse_text_message_def meshcore_mac_then_decrypt_def Let_def split: option.splits)
  qed
qed

text \<open>
  C25: an advert that a node builds fits a frame and is accepted by everyone: the signature verifies
  over exactly what was signed, and key, timestamp, type and name are the node's.
\<close>

theorem advert_roundtrip:
  assumes "lawful c" and "identity = meshcore_identity_create c s" and "0 \<notin> set name"
    and "meshcore_build_advert c identity timestamp name = Some p"
  shows "packet_fits p \<and> frame_size p \<le> 255 \<and> meshcore_parse_advert c p =
    Some (Some \<lparr>adv_publicKey = publicKey identity, adv_timestamp = timestamp, adv_type = NODE_TYPE_Chat, adv_name = name\<rparr>)"
proof -
  let ?a = "(NODE_TYPE_Chat OR ADVERT_FLAG_NAME) # name"
  let ?msg = "advert_message (publicKey identity) timestamp ?a"
  let ?s = "ed25519_sign c ?msg (publicKey identity) (privateKey identity)"
  let ?b = "publicKey identity @ le32 timestamp @ ?s @ ?a"
  from assms(4) have name: "length name \<le> 83" and p: "p = flood_packet PAYLOAD_Advert ?b"
    by (auto simp: meshcore_build_advert_def Let_def size_defs split: if_splits)
  note laws = lawfulD(5,6) [OF assms(1)]
  have verify: "ed25519_verify c ?s ?msg (publicKey identity)"
    unfolding assms(2) by (rule lawfulD(7) [OF assms(1)]) simp
  have lb: "length ?b \<le> MESHCORE_MAX_PAYLOAD_SIZE" "length ?b = 101 + length name" using name laws by (simp_all add: size_defs assms(2))
  note pl = flood_packet_payload [OF lb(1), of PAYLOAD_Advert, folded p]
  have parts: "take 32 (payload p) = publicKey identity" "read_u32 (drop 32 (payload p)) = timestamp"
      "take 36 (payload p) = publicKey identity @ le32 timestamp" "take 64 (drop 36 (payload p)) = ?s"
      "take (unat (payloadLength p) - 100) (drop 100 (payload p)) = ?a"
    using laws lb by (simp_all add: pl assms(2))
  have bits: "(NODE_TYPE_Chat OR ADVERT_FLAG_NAME) AND 0x0F = NODE_TYPE_Chat" "(NODE_TYPE_Chat OR ADVERT_FLAG_NAME) AND ADVERT_FLAG_LATLON = 0"
     "(NODE_TYPE_Chat OR ADVERT_FLAG_NAME) AND ADVERT_FLAG_FEATURE_1 = 0" "(NODE_TYPE_Chat OR ADVERT_FLAG_NAME) AND ADVERT_FLAG_FEATURE_2 = 0"
     "(NODE_TYPE_Chat OR ADVERT_FLAG_NAME) AND ADVERT_FLAG_NAME \<noteq> 0" "ADVERT_FLAG_NAME \<noteq> 0"
    by (simp_all add: NODE_TYPE_Chat_def ADVERT_FLAG_LATLON_def ADVERT_FLAG_FEATURE_1_def ADVERT_FLAG_FEATURE_2_def ADVERT_FLAG_NAME_def)
  have "payloadType p = PAYLOAD_Advert" by (simp add: p)
  moreover have "\<not> unat (payloadLength p) < 100" "\<not> length (payload p) < unat (payloadLength p)" using lb pl by simp_all
  moreover have "ed25519_verify c ?s (publicKey identity @ le32 timestamp @ ?a) (publicKey identity)"
    using verify by (simp only: advert_message_def)
  ultimately have "meshcore_parse_advert c p = Some (Some \<lparr>adv_publicKey = publicKey identity, adv_timestamp = timestamp,
      adv_type = NODE_TYPE_Chat, adv_name = textFromPlaintext name\<rparr>)"
    using assms(3) by (cases name) (simp_all add: meshcore_parse_advert_def size_defs parts bits Let_def textFromPlaintext_def)
  then show ?thesis using flood_packet_fits [OF lb(1), of PAYLOAD_Advert] lb textFromPlaintext_pad [OF assms(3), of 0]
    by (simp add: p size_defs)
qed

section \<open>Instances\<close>

text \<open>A crypto library with the documented laws: checksums for hashes, a keyed exclusive or for the cipher.\<close>

definition checksum :: "byte list \<Rightarrow> byte" where
  "checksum d = fold (\<lambda>b s. s + s + b) d 1"

definition demo_crypto :: crypto_lib where
  "demo_crypto = \<lparr>psa_sha256 = \<lambda>m. replicate 32 (checksum m), psa_import_key = \<lambda>k. True,
     psa_mac_compute = \<lambda>k m. Some (replicate 32 (checksum (k @ m))),
     psa_cipher_ecb = \<lambda>e k x. Some (map (\<lambda>b. b XOR checksum k) x),
     ed25519_create_keypair = \<lambda>s. (replicate 32 (checksum s), replicate 64 (checksum s)),
     ed25519_sign = \<lambda>m p k. replicate 64 (checksum (p @ m)),
     ed25519_verify = \<lambda>s m p. s = replicate 64 (checksum (p @ m)),
     ed25519_key_exchange = \<lambda>p k. replicate 32 (p ! 0 XOR k ! 0)\<rparr>"

lemma xor_twice: "(b XOR k) XOR k = b" for b k :: byte
  by (rule bit_eqI) (auto simp: bit_xor_iff)

lemma demo_crypto_laws: "lawful demo_crypto" "available demo_crypto"
  by (simp_all add: lawful_def available_def demo_crypto_def o_def xor_twice)
    (simp add: xor.commute)

definition demo_alice :: MeshCoreIdentity where "demo_alice = meshcore_identity_create demo_crypto [1]"
definition demo_bob :: MeshCoreIdentity where "demo_bob = meshcore_identity_create demo_crypto [2]"
definition demo_channel :: MeshCoreChannel where "demo_channel = meshcore_channel_from_key demo_crypto MESHCORE_PUBLIC_CHANNEL_KEY"

lemma demo_channel_secret: "length (chan_secret demo_channel) = 32"
  by (simp add: demo_channel_def meshcore_channel_from_key_def copy_over_def MESHCORE_PUBLIC_CHANNEL_KEY_def size_defs)

theorem group_text_roundtrip_witness:
  "\<exists>p. meshcore_build_group_text demo_crypto demo_channel 7 [65] [66, 67] = Some p \<and>
     meshcore_parse_group_text demo_crypto demo_channel p =
       Some (Some \<lparr>text_timestamp = 7, text_flags = 0, text_text = [65, 0x3A, 0x20, 66, 67]\<rparr>)"
  using group_text_roundtrip [OF demo_crypto_laws(1), of "[65]" "[66, 67]" demo_channel 7] demo_channel_secret demo_crypto_laws(2)
  by (cases "meshcore_build_group_text demo_crypto demo_channel 7 [65] [66, 67]") simp_all

lemma demo_text_message: "\<exists>p h. meshcore_build_text_message demo_crypto demo_alice (publicKey demo_bob) 9 1 [72, 105] = Some (p, h)"
proof -
  have "encryptedLength (length (le32 9 @ (1 AND 0x03) # [72, 105 :: byte])) \<le> 256"
    using plaintext_encrypted [of 7] by simp
  then show ?thesis
    using encrypt_available [OF demo_crypto_laws, of "meshcore_shared_secret demo_crypto demo_alice (publicKey demo_bob)"
        "le32 9 @ (1 AND 0x03) # [72, 105]"] lawfulD(8) [OF demo_crypto_laws(1)]
    by (auto simp: meshcore_build_text_message_def Let_def size_defs meshcore_shared_secret_def)
qed

theorem text_message_roundtrip_witness:
  "\<exists>p h. meshcore_build_text_message demo_crypto demo_alice (publicKey demo_bob) 9 1 [72, 105] = Some (p, h) \<and>
     meshcore_parse_text_message demo_crypto demo_bob (publicKey demo_alice) p =
       Some (Some (\<lparr>text_timestamp = 9, text_flags = 1 AND 0x03, text_text = [72, 105]\<rparr>, h))"
proof -
  obtain p h where "meshcore_build_text_message demo_crypto demo_alice (publicKey demo_bob) 9 1 [72, 105] = Some (p, h)"
    using demo_text_message by blast
  with text_message_roundtrip [OF demo_crypto_laws(1) demo_alice_def demo_bob_def _ this] show ?thesis by auto
qed

theorem advert_roundtrip_witness:
  "\<exists>p. meshcore_build_advert demo_crypto demo_alice 3 [65, 66] = Some p \<and>
     meshcore_parse_advert demo_crypto p = Some (Some \<lparr>adv_publicKey = publicKey demo_alice, adv_timestamp = 3,
       adv_type = NODE_TYPE_Chat, adv_name = [65, 66]\<rparr>)"
proof -
  obtain p where "meshcore_build_advert demo_crypto demo_alice 3 [65, 66] = Some p"
    by (auto simp: meshcore_build_advert_def size_defs Let_def)
  with advert_roundtrip [OF demo_crypto_laws(1) demo_alice_def _ this] show ?thesis by auto
qed

end
