(* ===== verification/Contact_Uri.thy ===== *)
theory Contact_Uri
  imports Decimal
begin

text \<open>
  \<open>meshcore_build_contact_uri\<close> of \<open>Modules/mesh-meshcore-module/source/meshcore_protocol.cpp\<close>: the URI that is
  shown as a QR code to add a contact. The buffer of \<open>uriSize\<close> characters is the text written so
  far; \<open>None\<close> is the result false, which leaves the buffer without a terminator.
\<close>

section \<open>Definitions\<close>

definition append_char :: "nat \<Rightarrow> char \<Rightarrow> string \<Rightarrow> string option" where
  "append_char uriSize ch uri = (if length uri + 1 \<ge> uriSize then None else Some (uri @ [ch]))"

fun appendText :: "nat \<Rightarrow> string \<Rightarrow> string \<Rightarrow> string option" where
  "appendText uriSize [] uri = Some uri"
| "appendText uriSize (ch # t) uri = do { uri \<leftarrow> append_char uriSize ch uri; appendText uriSize t uri }"

definition HEX_DIGITS :: string where "HEX_DIGITS = ''0123456789abcdef''"

definition hex_of :: "nat \<Rightarrow> char" where "hex_of n = HEX_DIGITS ! n"

definition unreserved :: "byte \<Rightarrow> bool" where
  "unreserved b \<longleftrightarrow> (let n = unat b in (97 \<le> n \<and> n \<le> 122) \<or> (65 \<le> n \<and> n \<le> 90) \<or> (48 \<le> n \<and> n \<le> 57) \<or>
     n = 45 \<or> n = 46 \<or> n = 95 \<or> n = 126)"

definition append_name_char :: "nat \<Rightarrow> byte \<Rightarrow> string \<Rightarrow> string option" where
  "append_name_char uriSize b uri =
     (if unreserved b then append_char uriSize (char_of (unat b)) uri
      else if unat b = 32 then append_char uriSize CHR ''+'' uri
      else do { uri \<leftarrow> append_char uriSize CHR ''%'' uri;
                uri \<leftarrow> append_char uriSize (hex_of (unat b div 16)) uri;
                append_char uriSize (hex_of (unat b mod 16)) uri })"

fun append_name :: "nat \<Rightarrow> byte list \<Rightarrow> string \<Rightarrow> string option" where
  "append_name uriSize [] uri = Some uri"
| "append_name uriSize (b # bs) uri = do { uri \<leftarrow> append_name_char uriSize b uri; append_name uriSize bs uri }"

fun append_key :: "nat \<Rightarrow> byte list \<Rightarrow> string \<Rightarrow> string option" where
  "append_key uriSize [] uri = Some uri"
| "append_key uriSize (b # bs) uri = do {
     uri \<leftarrow> append_char uriSize (hex_of (unat b div 16)) uri;
     uri \<leftarrow> append_char uriSize (hex_of (unat b mod 16)) uri;
     append_key uriSize bs uri }"

definition meshcore_build_contact_uri :: "byte list \<Rightarrow> byte list \<Rightarrow> byte \<Rightarrow> nat \<Rightarrow> string option" where
  "meshcore_build_contact_uri name key type uriSize = do {
     uri \<leftarrow> appendText uriSize ''meshcore://contact/add?name='' [];
     uri \<leftarrow> append_name uriSize name uri;
     uri \<leftarrow> appendText uriSize ''&public_key='' uri;
     uri \<leftarrow> append_key uriSize key uri;
     appendText uriSize (''&type='' @ decimal (unat type)) uri
   }"

section \<open>The URI as a whole\<close>

definition encode_byte :: "byte \<Rightarrow> string" where
  "encode_byte b = (if unreserved b then [char_of (unat b)] else if unat b = 32 then ''+''
     else [CHR ''%'', hex_of (unat b div 16), hex_of (unat b mod 16)])"

definition hex_byte :: "byte \<Rightarrow> string" where
  "hex_byte b = [hex_of (unat b div 16), hex_of (unat b mod 16)]"

definition contact_uri :: "byte list \<Rightarrow> byte list \<Rightarrow> byte \<Rightarrow> string" where
  "contact_uri name key type = ''meshcore://contact/add?name='' @ concat (map encode_byte name) @
     ''&public_key='' @ concat (map hex_byte key) @ ''&type='' @ decimal (unat type)"

text \<open>What an appending operation has appended, if the buffer has room for it and a terminator.\<close>

definition appends :: "nat \<Rightarrow> (string \<Rightarrow> string option) \<Rightarrow> string \<Rightarrow> bool" where
  "appends n f s \<longleftrightarrow> (\<forall>u. length u < n \<longrightarrow> f u = (if length u + length s < n then Some (u @ s) else None))"

lemma appends_bind:
  "appends n f s \<Longrightarrow> appends n g t \<Longrightarrow> appends n (\<lambda>u. Option.bind (f u) g) (s @ t)"
  unfolding appends_def by auto

lemma appends_Nil: "appends n Some []"
  by (simp add: appends_def)

lemma appends_char: "appends n (append_char n ch) [ch]"
  by (auto simp: appends_def append_char_def)

lemma appends_text: "appends n (appendText n s) s"
proof (induction s)
  case (Cons ch s)
  from appends_bind [OF appends_char [of n ch] Cons] show ?case by simp
qed (simp add: appends_Nil)

lemma appends_name_char: "appends n (append_name_char n b) (encode_byte b)"
proof -
  have "appends n (\<lambda>u. Option.bind (append_char n CHR ''%'' u) (\<lambda>u. Option.bind (append_char n x u) (append_char n y)))
      ([CHR ''%''] @ [x] @ [y])" for x y
    by (intro appends_bind appends_char)
  then show ?thesis
    by (cases "unreserved b"; cases "unat b = 32") (simp_all add: append_name_char_def [abs_def] encode_byte_def appends_char)
qed

lemma appends_name: "appends n (append_name n bs) (concat (map encode_byte bs))"
proof (induction bs)
  case (Cons b bs)
  from appends_bind [OF appends_name_char [of n b] Cons] show ?case by simp
qed (simp add: appends_Nil)

lemma appends_key: "appends n (append_key n bs) (concat (map hex_byte bs))"
proof (induction bs)
  case (Cons b bs)
  have "appends n (\<lambda>u. Option.bind (append_char n (hex_of (unat b div 16)) u)
      (\<lambda>u. Option.bind (append_char n (hex_of (unat b mod 16)) u) (append_key n bs)))
      ([hex_of (unat b div 16)] @ [hex_of (unat b mod 16)] @ concat (map hex_byte bs))"
    by (intro appends_bind appends_char Cons)
  then show ?case by (simp add: hex_byte_def [of b])
qed (simp add: appends_Nil)

lemma appends_uri:
  "appends n (\<lambda>u. Option.bind (appendText n ''meshcore://contact/add?name='' u) (\<lambda>u. Option.bind (append_name n name u)
     (\<lambda>u. Option.bind (appendText n ''&public_key='' u) (\<lambda>u. Option.bind (append_key n key u)
        (appendText n (''&type='' @ decimal (unat type))))))) (contact_uri name key type)"
  unfolding contact_uri_def by (intro appends_bind appends_text appends_name appends_key)

text \<open>What is read back: the parts of a URI are determined by it.\<close>

lemma hex_of_inj: "i < 16 \<Longrightarrow> j < 16 \<Longrightarrow> hex_of i = hex_of j \<Longrightarrow> i = j"
  by (simp add: hex_of_def HEX_DIGITS_def nth_eq_iff_index_eq)

lemma byte_bound: "unat (b :: byte) < 256"
  using unsigned_less [of b] by simp

lemma byte_char_inj: "(char_of (unat (x :: byte)) :: char) = char_of (unat y) \<Longrightarrow> x = y"
  by (metis byte_bound of_char_of mod_less word_unat_eq_iff)

lemma byte_nibbles: "unat (x :: byte) div 16 = unat y div 16 \<Longrightarrow> unat x mod 16 = unat y mod 16 \<Longrightarrow> x = y"
  by (metis div_mult_mod_eq word_unat_eq_iff)

lemma hex_byte_prefix: "hex_byte x @ u = hex_byte y @ v \<Longrightarrow> x = y \<and> u = v"
  using byte_bound [of x] byte_bound [of y]
  by (auto simp: hex_byte_def intro!: byte_nibbles dest!: hex_of_inj [rotated 2])

lemma hex_bytes_prefix:
  "length xs = length ys \<Longrightarrow> concat (map hex_byte xs) @ u = concat (map hex_byte ys) @ v \<Longrightarrow> xs = ys \<and> u = v"
proof (induction xs arbitrary: ys)
  case (Cons x xs)
  then obtain y zs where ys: "ys = y # zs" by (cases ys) auto
  from Cons.prems(2) ys have "hex_byte x @ (concat (map hex_byte xs) @ u) = hex_byte y @ (concat (map hex_byte zs) @ v)" by simp
  from hex_byte_prefix [OF this] Cons.IH [of zs] Cons.prems(1) ys show ?case by simp
qed simp

lemma chars: "of_char CHR ''+'' = (43 :: nat)" "of_char CHR ''%'' = (37 :: nat)" "of_char CHR ''&'' = (38 :: nat)"
  by simp_all

lemma unreserved_char:
  assumes "unreserved b"
  shows "char_of (unat b) \<noteq> CHR ''+''" "char_of (unat b) \<noteq> CHR ''%''" "char_of (unat b) \<noteq> CHR ''&''"
proof -
  have "of_char (char_of (unat b) :: char) = unat b" using byte_bound [of b] by (simp add: of_char_of)
  moreover have "unat b \<noteq> 43" "unat b \<noteq> 37" "unat b \<noteq> 38" using assms by (auto simp: unreserved_def Let_def)
  ultimately show "char_of (unat b) \<noteq> CHR ''+''" "char_of (unat b) \<noteq> CHR ''%''" "char_of (unat b) \<noteq> CHR ''&''"
    by (metis chars)+
qed

lemma encode_byte_cases:
  obtains (plain) "unreserved b" "encode_byte b = [char_of (unat b)]"
  | (space) "\<not> unreserved b" "unat b = 32" "encode_byte b = ''+''"
  | (escaped) "\<not> unreserved b" "unat b \<noteq> 32" "encode_byte b = CHR ''%'' # hex_byte b"
  by (cases "unreserved b"; cases "unat b = 32") (simp_all add: encode_byte_def hex_byte_def)

lemma encode_byte_prefix:
  assumes "encode_byte x @ u = encode_byte y @ v"
  shows "x = y \<and> u = v"
proof (cases x rule: encode_byte_cases)
  case plain
  note x = this unreserved_char [OF this(1)]
  show ?thesis
  proof (cases y rule: encode_byte_cases)
    case plain
    then have "char_of (unat x) = (char_of (unat y) :: char)" "u = v" using assms x by simp_all
    then show ?thesis by (simp add: byte_char_inj)
  qed (use assms x in simp_all)
next
  case space
  show ?thesis
  proof (cases y rule: encode_byte_cases)
    case plain
    with assms space unreserved_char(1) [OF plain(1)] show ?thesis by simp
  qed (use assms space in \<open>simp_all add: word_unat_eq_iff\<close>)
next
  case escaped
  show ?thesis
  proof (cases y rule: encode_byte_cases)
    case plain
    with assms escaped unreserved_char(2) [OF plain(1)] show ?thesis by simp
  next
    case escaped': escaped
    then have "hex_byte x @ u = hex_byte y @ v" using assms escaped by simp
    then show ?thesis by (rule hex_byte_prefix)
  qed (use assms escaped in simp_all)
qed

lemma encode_byte_start: "encode_byte x @ u \<noteq> CHR ''&'' # v"
  by (simp add: encode_byte_def unreserved_char)

lemma encode_name_prefix:
  "concat (map encode_byte xs) @ CHR ''&'' # u = concat (map encode_byte ys) @ CHR ''&'' # v \<Longrightarrow> xs = ys \<and> u = v"
proof (induction xs arbitrary: ys)
  case Nil
  show ?case
  proof (cases ys)
    case (Cons y zs)
    with Nil have "encode_byte y @ (concat (map encode_byte zs) @ CHR ''&'' # v) = CHR ''&'' # u" by simp
    then show ?thesis by (simp only: encode_byte_start)
  qed (use Nil in simp)
next
  case (Cons x xs)
  show ?case
  proof (cases ys)
    case Nil
    with Cons.prems have "encode_byte x @ (concat (map encode_byte xs) @ CHR ''&'' # u) = CHR ''&'' # v" by simp
    then show ?thesis by (simp only: encode_byte_start)
  next
    case (Cons y zs)
    with Cons.prems have "encode_byte x @ (concat (map encode_byte xs) @ CHR ''&'' # u) =
        encode_byte y @ (concat (map encode_byte zs) @ CHR ''&'' # v)" by simp
    from encode_byte_prefix [OF this] Cons.IH [of zs] Cons show ?thesis by simp
  qed
qed

text \<open>
  the URI of a contact is written completely or not at all: it is built exactly when it fits the
  buffer with its terminator, and then it is the scheme, the percent-encoded name, the key in hex and
  the type. Two contacts with the same URI are the same.
\<close>

theorem contact_uri_complete:
  "meshcore_build_contact_uri name key type uriSize =
     (if length (contact_uri name key type) < uriSize then Some (contact_uri name key type) else None) \<and>
   (length key = length key' \<longrightarrow> contact_uri name key type = contact_uri name' key' type' \<longrightarrow>
     name = name' \<and> key = key' \<and> type = type')"
proof (intro conjI impI)
  show "meshcore_build_contact_uri name key type uriSize =
     (if length (contact_uri name key type) < uriSize then Some (contact_uri name key type) else None)"
  proof (cases uriSize)
    case (Suc n)
    then have "length ([] :: string) < uriSize" by simp
    from appends_uri [of uriSize name key type, unfolded appends_def, rule_format, OF this]
    show ?thesis by (simp only: meshcore_build_contact_uri_def list.size add_0 append_Nil)
  qed (simp add: meshcore_build_contact_uri_def append_char_def)
next
  assume len: "length key = length key'" and "contact_uri name key type = contact_uri name' key' type'"
  then have "concat (map encode_byte name) @ CHR ''&'' # (''public_key='' @ concat (map hex_byte key) @ ''&type='' @ decimal (unat type)) =
     concat (map encode_byte name') @ CHR ''&'' # (''public_key='' @ concat (map hex_byte key') @ ''&type='' @ decimal (unat type'))"
    by (simp add: contact_uri_def)
  from encode_name_prefix [OF this] have "name = name'"
    and k: "concat (map hex_byte key) @ (''&type='' @ decimal (unat type)) = concat (map hex_byte key') @ (''&type='' @ decimal (unat type'))"
    by (simp_all only: same_append_eq)
  from hex_bytes_prefix [OF len k] have "key = key'" "decimal (unat type) = decimal (unat type')" by simp_all
  then show "name = name'" "key = key'" "type = type'"
    using \<open>name = name'\<close> decimal_inj [of "unat type" "unat type'"] by (simp_all add: word_unat_eq_iff)
qed

theorem contact_uri_complete_witness:
  "meshcore_build_contact_uri [65, 32] [0xAB] 1 60 = Some (contact_uri [65, 32] [0xAB] 1) \<and>
   meshcore_build_contact_uri [65, 32] [0xAB] 1 51 = None \<and> contact_uri [65, 32] [0xAB] 1 \<noteq> contact_uri [65, 33] [0xAB] 1"
proof -
  have "length (encode_byte 65) = 1" "length (encode_byte 32) = 1" by (simp_all add: encode_byte_def unreserved_def)
  then have "length (contact_uri [65, 32] [0xAB] 1) = 51"
    by (simp add: contact_uri_def hex_byte_def decimal.simps)
  with contact_uri_complete [of "[65, 32]" "[0xAB]" 1 60 "[0xAB]" "[65, 33]" 1]
    contact_uri_complete [of "[65, 32]" "[0xAB]" 1 51 "[0xAB]" "[65, 33]" 1]
  show ?thesis by auto
qed

end
