(* ===== verification/Meshcore_Backend.thy ===== *)
theory Meshcore_Backend
  imports Meshcore_Protocol Contact_Uri Mesh_Host
begin

text \<open>
  \<open>Modules/mesh-meshcore-module/source/meshcore_backend.cpp\<close>: the backend that a mesh service runs a
  MeshCore node with. The state is the struct \<open>Backend\<close>, with what it acts on (\<open>mesh_side\<close>). What it
  asks of the rest of the system during one call is the record \<open>host_env\<close>: that of every mesh backend
  and the wall clock, random bytes and the crypto libraries. Log lines are left out.

  C strings are the bytes before the terminator, arrays of characters are lists of their size. A
  result \<open>None\<close> is a read outside of an array in a parse function.
\<close>

section \<open>Data\<close>

definition MAX_CONTACTS :: nat where "MAX_CONTACTS = 64"
definition MAX_CHANNELS :: nat where "MAX_CHANNELS = 8"
definition SEEN_PACKETS_LIMIT :: nat where "SEEN_PACKETS_LIMIT = 64"
definition ADVERT_INTERVAL_MS :: "64 word" where "ADVERT_INTERVAL_MS = 12 * 3600 * 1000"
definition ACK_TIMEOUT_MS :: "64 word" where "ACK_TIMEOUT_MS = 30 * 1000"
definition TEXT_TYPE_PLAIN :: byte where "TEXT_TYPE_PLAIN = 0"
definition MIN_VALID_WALL_TIME :: int where "MIN_VALID_WALL_TIME = 1700000000"
definition FRAME_SIZE :: nat where "FRAME_SIZE = 255"

lemmas [size_defs] = MESH_NAME_MAX_LENGTH_def MAX_CONTACTS_def MAX_CHANNELS_def SEEN_PACKETS_LIMIT_def FRAME_SIZE_def

record Contact =
  con_publicKey :: "byte list"
  con_name :: "byte list"

record Channel =
  ch_index :: byte
  ch_name :: "byte list"
  ch_key :: "byte list"
  ch_channel :: MeshCoreChannel

text \<open>\<open>pendingAcks\<close> is a \<open>std::map\<close>: its entries in the order of the keys.\<close>

record Backend = mesh_side +
  identity :: MeshCoreIdentity
  contacts :: "Contact list"
  channels :: "Channel list"
  seenPackets :: "32 word list"
  pendingAcks :: "(32 word \<times> PendingAck) list"
  lastAdvertMs :: "64 word"

record host_env = mesh_env +
  crypto :: crypto_lib
  wall_time :: int
  random_seed :: "byte list"

definition getTimestamp :: "host_env \<Rightarrow> 32 word" where
  "getTimestamp e = (if wall_time e \<ge> MIN_VALID_WALL_TIME then of_int (wall_time e) else ucast (millis e div 1000))"

section \<open>Persistence\<close>

definition IDENTITY_SIZE :: nat where "IDENTITY_SIZE = 96"

definition loadOrCreateIdentity :: "host_env \<Rightarrow> Backend \<Rightarrow> Backend" where
  "loadOrCreateIdentity e b =
     (let created = b\<lparr>identity := meshcore_identity_create (crypto e) (random_seed e)\<rparr> in
      case data_path e ''identity.bin'' of
        None \<Rightarrow> created
      | Some p \<Rightarrow> (case readFile e p b of
            Some d \<Rightarrow> if length d = IDENTITY_SIZE
              then b\<lparr>identity := \<lparr>publicKey = take MESHCORE_PUBLIC_KEY_SIZE d, privateKey = drop MESHCORE_PUBLIC_KEY_SIZE d\<rparr>\<rparr>
              else snd (writeFile e p (publicKey (identity created) @ privateKey (identity created)) created)
          | None \<Rightarrow> snd (writeFile e p (publicKey (identity created) @ privateKey (identity created)) created)))"

definition CONTACT_SIZE :: nat where "CONTACT_SIZE = 64"

definition contact_of :: "byte list \<Rightarrow> Contact" where
  "contact_of d = \<lparr>con_publicKey = take MESHCORE_PUBLIC_KEY_SIZE d,
     con_name = (drop MESHCORE_PUBLIC_KEY_SIZE d)[MESH_NAME_MAX_LENGTH := 0]\<rparr>"

function load_contacts :: "byte list \<Rightarrow> Contact list \<Rightarrow> Contact list" where
  "load_contacts d cs = (if CONTACT_SIZE \<le> length d \<and> length cs < MAX_CONTACTS
     then load_contacts (drop CONTACT_SIZE d) (cs @ [contact_of (take CONTACT_SIZE d)]) else cs)"
  by auto
termination by (relation "measure (\<lambda>(d, cs). length d)") (auto simp: CONTACT_SIZE_def)

declare load_contacts.simps [simp del]

definition loadContacts :: "host_env \<Rightarrow> Backend \<Rightarrow> Backend" where
  "loadContacts e b = (case data_path e ''contacts.bin'' of
       None \<Rightarrow> b
     | Some p \<Rightarrow> (case readFile e p b of None \<Rightarrow> b | Some d \<Rightarrow> b\<lparr>contacts := load_contacts d (contacts b)\<rparr>))"

definition saveContacts :: "host_env \<Rightarrow> Backend \<Rightarrow> Backend" where
  "saveContacts e b = (case data_path e ''contacts.bin'' of
       None \<Rightarrow> b
     | Some p \<Rightarrow> snd (writeFile e p (concat (map (\<lambda>c. con_publicKey c @ con_name c) (contacts b))) b))"

definition addChannel :: "host_env \<Rightarrow> byte \<Rightarrow> byte list \<Rightarrow> byte list \<Rightarrow> Backend \<Rightarrow> Backend" where
  "addChannel e i name key b =
     b\<lparr>channels := sort_key ch_index (filter (\<lambda>ch. ch_index ch \<noteq> i) (channels b) @
        [\<lparr>ch_index = i, ch_name = name_array name, ch_key = key, ch_channel = meshcore_channel_from_key (crypto e) key\<rparr>])\<rparr>"

definition CHANNEL_SIZE :: nat where "CHANNEL_SIZE = 49"

lemmas [size_defs] = IDENTITY_SIZE_def CONTACT_SIZE_def CHANNEL_SIZE_def

function load_channels :: "host_env \<Rightarrow> byte list \<Rightarrow> Backend \<Rightarrow> Backend" where
  "load_channels e d b = (if CHANNEL_SIZE \<le> length d
     then load_channels e (drop CHANNEL_SIZE d)
       (addChannel e (d ! 0) (c_string ((take 32 (drop 1 d))[MESH_NAME_MAX_LENGTH := 0])) (take 16 (drop 33 d)) b)
     else b)"
  by auto
termination by (relation "measure (\<lambda>(e, d, b). length d)") (auto simp: CHANNEL_SIZE_def)

declare load_channels.simps [simp del]

definition loadChannels :: "host_env \<Rightarrow> Backend \<Rightarrow> Backend" where
  "loadChannels e b =
     (let b = (case data_path e ''channels.bin'' of
            None \<Rightarrow> b
          | Some p \<Rightarrow> (case readFile e p b of None \<Rightarrow> b | Some d \<Rightarrow> load_channels e d b)) in
      if channels b = [] then addChannel e 0 [0x50, 0x75, 0x62, 0x6c, 0x69, 0x63] MESHCORE_PUBLIC_CHANNEL_KEY b else b)"

definition channel_record :: "Channel \<Rightarrow> byte list" where
  "channel_record ch = ch_index ch # ch_name ch @ ch_key ch"

definition saveChannels :: "host_env \<Rightarrow> Backend \<Rightarrow> Backend" where
  "saveChannels e b = (case data_path e ''channels.bin'' of
       None \<Rightarrow> b
     | Some p \<Rightarrow> snd (writeFile e p (concat (map channel_record (channels b))) b))"

section \<open>Sending\<close>

definition toAddress :: "byte list \<Rightarrow> MeshAddress" where
  "toAddress key = \<lparr>addr_length = of_nat MESHCORE_PUBLIC_KEY_SIZE, addr_bytes = key\<rparr>"

fun find_contact :: "byte list \<Rightarrow> Contact list \<Rightarrow> nat option" where
  "find_contact key [] = None"
| "find_contact key (c # cs) = (if con_publicKey c = key then Some 0 else map_option Suc (find_contact key cs))"

text \<open>The deque of packet hashes keeps the latest.\<close>

definition remember :: "32 word \<Rightarrow> 32 word list \<Rightarrow> 32 word list" where
  "remember h seen = (let seen = seen @ [h] in drop (length seen - SEEN_PACKETS_LIMIT) seen)"

definition packet_hash :: "host_env \<Rightarrow> MeshCorePacket \<Rightarrow> 32 word" where
  "packet_hash e p = meshcore_packet_hash (meshcore_sha256_pair (crypto e)) p"

definition transmit :: "host_env \<Rightarrow> MeshCorePacket \<Rightarrow> 32 word \<Rightarrow> Backend \<Rightarrow> (bool \<times> Backend) option" where
  "transmit e p seq b = (case meshcore_packet_serialize p FRAME_SIZE of
       None \<Rightarrow> None
     | Some frame \<Rightarrow>
         if frame = [] then Some (False, b)
         else Some (transmit_result e frame seq = ERROR_NONE,
           host (Transmit frame seq) (b\<lparr>seenPackets := remember (packet_hash e p) (seenPackets b)\<rparr>)))"

definition sendAdvert :: "host_env \<Rightarrow> Backend \<Rightarrow> Backend option" where
  "sendAdvert e b =
     (case (case meshcore_build_advert (crypto e) (identity b) (getTimestamp e) (node_name e) of
              None \<Rightarrow> Some b
            | Some p \<Rightarrow> map_option snd (transmit e p 0 b)) of
        None \<Rightarrow> None
      | Some b \<Rightarrow> Some (b\<lparr>lastAdvertMs := millis e\<rparr>))"

section \<open>Receiving\<close>

text \<open>The contact list with the name of the sender of an advert, the oldest contact making room.\<close>

definition update_contacts :: "byte list \<Rightarrow> byte list \<Rightarrow> Contact list \<Rightarrow> Contact list" where
  "update_contacts key name cs =
     (case find_contact key cs of
        Some i \<Rightarrow> cs[i := (cs ! i)\<lparr>con_name := name_array name\<rparr>]
      | None \<Rightarrow> (if length cs \<ge> MAX_CONTACTS then tl cs else cs) @ [\<lparr>con_publicKey = key, con_name = name_array name\<rparr>])"

definition onAdvert :: "host_env \<Rightarrow> MeshCorePacket \<Rightarrow> signal \<Rightarrow> Backend \<Rightarrow> (bool \<times> Backend) option" where
  "onAdvert e p sig b = (case meshcore_parse_advert (crypto e) p of
       None \<Rightarrow> None
     | Some None \<Rightarrow> Some (False, b)
     | Some (Some advert) \<Rightarrow>
         if adv_publicKey advert = publicKey (identity b) then Some (True, b)
         else let b = saveContacts e (b\<lparr>contacts := update_contacts (adv_publicKey advert) (adv_name advert) (contacts b)\<rparr>) in
           Some (True, host (AdvertHeard (toAddress (adv_publicKey advert)) (c_string (name_array (adv_name advert))) sig) b))"

text \<open>\<open>find(": ")\<close>: what stands before and behind the first separator.\<close>

fun split_sender :: "byte list \<Rightarrow> (byte list \<times> byte list) option" where
  "split_sender (x # y # r) = (if x = 0x3A \<and> y = 0x20 then Some ([], r) else map_option (apfst (Cons x)) (split_sender (y # r)))"
| "split_sender _ = None"

fun group_text_loop :: "host_env \<Rightarrow> Channel list \<Rightarrow> MeshCorePacket \<Rightarrow> signal \<Rightarrow> Backend \<Rightarrow> (bool \<times> Backend) option" where
  "group_text_loop e [] p sig b = Some (False, b)"
| "group_text_loop e (ch # chs) p sig b = (case meshcore_parse_group_text (crypto e) (ch_channel ch) p of
       None \<Rightarrow> None
     | Some None \<Rightarrow> group_text_loop e chs p sig b
     | Some (Some t) \<Rightarrow>
         if drop_bit 2 (text_flags t) \<noteq> TEXT_TYPE_PLAIN then Some (True, b)
         else let (sender, body) = (case split_sender (text_text t) of None \<Rightarrow> ([], text_text t) | Some sb \<Rightarrow> sb) in
           Some (True, host (ReceiveText None (ch_index ch) sender body sig (text_timestamp t)) b))"

definition onGroupText :: "host_env \<Rightarrow> MeshCorePacket \<Rightarrow> signal \<Rightarrow> Backend \<Rightarrow> (bool \<times> Backend) option" where
  "onGroupText e p sig b = group_text_loop e (channels b) p sig b"

fun text_message_loop :: "host_env \<Rightarrow> byte \<Rightarrow> Contact list \<Rightarrow> MeshCorePacket \<Rightarrow> signal \<Rightarrow> Backend \<Rightarrow> (bool \<times> Backend) option" where
  "text_message_loop e sourceHash [] p sig b = Some (False, b)"
| "text_message_loop e sourceHash (c # cs) p sig b =
     (if hd (con_publicKey c) \<noteq> sourceHash then text_message_loop e sourceHash cs p sig b
      else case meshcore_parse_text_message (crypto e) (identity b) (con_publicKey c) p of
        None \<Rightarrow> None
      | Some None \<Rightarrow> text_message_loop e sourceHash cs p sig b
      | Some (Some (t, ackHash)) \<Rightarrow> (case transmit e (meshcore_build_ack ackHash) 0 b of
            None \<Rightarrow> None
          | Some (_, b) \<Rightarrow>
              Some (True, if drop_bit 2 (text_flags t) = TEXT_TYPE_PLAIN
                then host (ReceiveText (Some (toAddress (con_publicKey c))) 0 (c_string (con_name c)) (text_text t) sig (text_timestamp t))
                       (host (NodeHeard (toAddress (con_publicKey c)) None sig) b)
                else b)))"

definition onTextMessage :: "host_env \<Rightarrow> MeshCorePacket \<Rightarrow> signal \<Rightarrow> Backend \<Rightarrow> (bool \<times> Backend) option" where
  "onTextMessage e p sig b = (case meshcore_peek_text_message p of
       None \<Rightarrow> Some (False, b)
     | Some (destinationHash, sourceHash) \<Rightarrow>
         if destinationHash \<noteq> hd (publicKey (identity b)) then Some (False, b)
         else text_message_loop e sourceHash (contacts b) p sig b)"

definition onAck :: "host_env \<Rightarrow> MeshCorePacket \<Rightarrow> Backend \<Rightarrow> bool \<times> Backend" where
  "onAck e p b = (case meshcore_parse_ack p of
       None \<Rightarrow> (False, b)
     | Some h \<Rightarrow> (True, case map_of (pendingAcks b) h of
           None \<Rightarrow> b
         | Some a \<Rightarrow> (host (SetDelivery (ack_seq a) DELIVERY_DELIVERED) b)\<lparr>pendingAcks := ordered_erase h (pendingAcks b)\<rparr>))"

definition onReceive :: "host_env \<Rightarrow> byte list \<Rightarrow> signal \<Rightarrow> Backend \<Rightarrow> (bool \<times> Backend) option" where
  "onReceive e frame sig b = (case meshcore_packet_parse frame MeshCorePacket_init of
       None \<Rightarrow> Some (False, b)
     | Some p \<Rightarrow>
         let h = packet_hash e p in
         if h \<in> set (seenPackets b) then Some (True, b)
         else let b = b\<lparr>seenPackets := remember h (seenPackets b)\<rparr> in
           if payloadType p = PAYLOAD_Advert then onAdvert e p sig b
           else if payloadType p = PAYLOAD_GroupText then onGroupText e p sig b
           else if payloadType p = PAYLOAD_TextMessage then onTextMessage e p sig b
           else if payloadType p = PAYLOAD_Ack then Some (onAck e p b)
           else Some (False, b))"

section \<open>The interface of the backend\<close>

definition Backend_init :: "(string \<Rightarrow> byte list option) \<Rightarrow> host_call list \<Rightarrow> Backend" where
  "Backend_init fs cs = \<lparr>files = fs, calls = cs, identity = \<lparr>publicKey = replicate 32 0, privateKey = replicate 64 0\<rparr>, contacts = [], channels = [],
     seenPackets = [], pendingAcks = [], lastAdvertMs = 0\<rparr>"

text \<open>\<open>None\<close>: there is no memory.\<close>

definition create :: "bool \<Rightarrow> host_env \<Rightarrow> (string \<Rightarrow> byte list option) \<Rightarrow> host_call list \<Rightarrow> Backend option" where
  "create memory e fs cs =
     (if \<not> memory then None
      else Some (loadChannels e (loadContacts e (loadOrCreateIdentity e (Backend_init fs cs)))))"

definition onStart :: "host_env \<Rightarrow> Backend \<Rightarrow> Backend option" where
  "onStart e b = sendAdvert e b"

definition onNodeNameChanged :: "host_env \<Rightarrow> Backend \<Rightarrow> Backend option" where
  "onNodeNameChanged e b = sendAdvert e b"

text \<open>The loop over the pending acknowledgements: what stays, and the calls it makes.\<close>

definition onTick :: "host_env \<Rightarrow> Backend \<Rightarrow> Backend option" where
  "onTick e b =
     (case (if millis e - lastAdvertMs b \<ge> ADVERT_INTERVAL_MS then sendAdvert e b else Some b) of
        None \<Rightarrow> None
      | Some b \<Rightarrow> (case expire_acks (millis e) (pendingAcks b) of (kept, cs) \<Rightarrow>
          Some (b\<lparr>pendingAcks := kept, calls := calls b @ cs\<rparr>)))"

fun find_channel :: "byte \<Rightarrow> Channel list \<Rightarrow> Channel option" where
  "find_channel i [] = None"
| "find_channel i (ch # chs) = (if ch_index ch \<noteq> i then find_channel i chs else Some ch)"

definition sendText :: "host_env \<Rightarrow> 32 word \<Rightarrow> MeshAddress option \<Rightarrow> byte \<Rightarrow> byte list \<Rightarrow> Backend \<Rightarrow> (error_t \<times> Backend) option" where
  "sendText e seq dest channelIndex txt b = (case dest of
       None \<Rightarrow> (case find_channel channelIndex (channels b) of
           None \<Rightarrow> Some (ERROR_NOT_FOUND, b)
         | Some ch \<Rightarrow> (case meshcore_build_group_text (crypto e) (ch_channel ch) (getTimestamp e) (node_name e) txt of
               None \<Rightarrow> Some (ERROR_OUT_OF_RANGE, b)
             | Some p \<Rightarrow> (case transmit e p seq b of
                   None \<Rightarrow> None
                 | Some (ok, b) \<Rightarrow> Some (if ok then ERROR_NONE else ERROR_RESOURCE, b))))
     | Some addr \<Rightarrow>
         if unat (addr_length addr) \<noteq> MESHCORE_PUBLIC_KEY_SIZE then Some (ERROR_INVALID_ARGUMENT, b)
         else (case meshcore_build_text_message (crypto e) (identity b) (addr_bytes addr) (getTimestamp e) 0 txt of
             None \<Rightarrow> Some (ERROR_OUT_OF_RANGE, b)
           | Some (p, ackHash) \<Rightarrow> (case transmit e p seq b of
                 None \<Rightarrow> None
               | Some (ok, b) \<Rightarrow>
                   if \<not> ok then Some (ERROR_RESOURCE, b)
                   else Some (ERROR_NONE, b\<lparr>pendingAcks := ordered_put ackHash
                     \<lparr>ack_seq = seq, ack_deadlineMs = millis e + ACK_TIMEOUT_MS\<rparr> (pendingAcks b)\<rparr>))))"

section \<open>Channels\<close>

definition getChannels :: "nat \<Rightarrow> Backend \<Rightarrow> error_t \<times> MeshChannel list" where
  "getChannels maxCount b = (ERROR_NONE, map (\<lambda>ch. \<lparr>mc_index = ch_index ch, mc_name = name_array (c_string (ch_name ch)),
     mc_key = copy_over (take 16 (ch_key ch)) (replicate MESH_CHANNEL_KEY_MAX_LENGTH 0), mc_key_length = 16\<rparr>)
     (take maxCount (channels b)))"

definition setChannel :: "host_env \<Rightarrow> MeshChannel \<Rightarrow> Backend \<Rightarrow> error_t \<times> Backend" where
  "setChannel e mc b =
     (case (if mc_key_length mc = 16 then Some (take 16 (mc_key mc))
            else if mc_key_length mc = 0 \<and> mc_name mc ! 0 = 0x23 then Some (meshcore_hashtag_channel_key (crypto e) (c_string (mc_name mc)))
            else None) of
        None \<Rightarrow> (ERROR_INVALID_ARGUMENT, b)
      | Some key \<Rightarrow>
          if \<not> (\<exists>ch \<in> set (channels b). ch_index ch = mc_index mc) \<and> length (channels b) \<ge> MAX_CHANNELS
          then (ERROR_RESOURCE, b)
          else (ERROR_NONE, saveChannels e (addChannel e (mc_index mc) (c_string (mc_name mc)) key b)))"

definition removeChannel :: "host_env \<Rightarrow> byte \<Rightarrow> Backend \<Rightarrow> error_t \<times> Backend" where
  "removeChannel e i b =
     (let rest = filter (\<lambda>ch. ch_index ch \<noteq> i) (channels b) in
      if length rest = length (channels b) then (ERROR_NOT_FOUND, b)
      else (ERROR_NONE, saveChannels e (b\<lparr>channels := rest\<rparr>)))"

section \<open>Contacts and radio\<close>

definition getContactUri :: "MeshAddress option \<Rightarrow> byte list \<Rightarrow> nat \<Rightarrow> Backend \<Rightarrow> error_t \<times> string option" where
  "getContactUri contact name uriSize b =
     (case contact of
        Some a \<Rightarrow> if unat (addr_length a) \<noteq> MESHCORE_PUBLIC_KEY_SIZE then (ERROR_INVALID_ARGUMENT, None)
          else (case meshcore_build_contact_uri name (addr_bytes a) 1 uriSize of
                  None \<Rightarrow> (ERROR_BUFFER_OVERFLOW, None) | Some uri \<Rightarrow> (ERROR_NONE, Some uri))
      | None \<Rightarrow> (case meshcore_build_contact_uri name (publicKey (identity b)) 1 uriSize of
                  None \<Rightarrow> (ERROR_BUFFER_OVERFLOW, None) | Some uri \<Rightarrow> (ERROR_NONE, Some uri)))"

definition isValidContactAddress :: "MeshAddress \<Rightarrow> bool" where
  "isValidContactAddress a \<longleftrightarrow> unat (addr_length a) = MESHCORE_PUBLIC_KEY_SIZE"

definition PRESET_DEFAULT :: nat where "PRESET_DEFAULT = 0"
definition PRESET_EU_NL :: nat where "PRESET_EU_NL = 1"

definition lora_profile :: "int \<Rightarrow> int \<Rightarrow> int \<Rightarrow> int \<Rightarrow> MeshRadioProfile" where
  "lora_profile freq bw sf cr = \<lparr>modulation = MODULATION_LORA, frequency = freq, bandwidth = bw, spreading_factor = sf,
     coding_rate = cr, sync_word = 18, preamble_length = 16, power = 22, radio_channel = 0\<rparr>"

definition getRadioProfile :: "RadioRegion \<Rightarrow> RadioModulation \<Rightarrow> nat \<Rightarrow> error_t \<times> MeshRadioProfile option" where
  "getRadioProfile region md preset =
     (if md = MODULATION_ESPNOW then (ERROR_NONE, Some \<lparr>modulation = MODULATION_ESPNOW, frequency = 0, bandwidth = 0,
        spreading_factor = 0, coding_rate = 0, sync_word = 0, preamble_length = 0, power = 20, radio_channel = 1\<rparr>)
      else if md \<noteq> MODULATION_LORA then (ERROR_NOT_SUPPORTED, None)
      else case region of
        REGION_EU_868 \<Rightarrow> (ERROR_NONE, Some (lora_profile 869618000 62500 (if preset = PRESET_EU_NL then 7 else 8)
          (if preset = PRESET_EU_NL then 5 else 8)))
      | REGION_US_915 \<Rightarrow> if preset \<noteq> PRESET_DEFAULT then (ERROR_NOT_SUPPORTED, None)
          else (ERROR_NONE, Some (lora_profile 910525000 62500 7 5))
      | REGION_AU_915 \<Rightarrow> if preset \<noteq> PRESET_DEFAULT then (ERROR_NOT_SUPPORTED, None)
          else (ERROR_NONE, Some (lora_profile 915800000 250000 10 5))
      | _ \<Rightarrow> (ERROR_NOT_SUPPORTED, None))"

end
