(* ===== verification/Meshcore_Node.thy ===== *)
theory Meshcore_Node
  imports Meshcore_Backend
begin

text \<open>
  Properties of a MeshCore node: the invariant of its state and that no received frame makes it read
  outside of an array, the suppression of duplicates, a text message from one node to another with
  its acknowledgement, the time-out of acknowledgements, and channels that survive a restart.
\<close>

section \<open>Frames of flooded packets\<close>

definition flood_header :: "byte \<Rightarrow> byte" where
  "flood_header t = (route_byte Flood AND 0x03) OR push_bit 2 (t AND 0x0F) OR push_bit 6 (0 AND 0x03)"

lemma flood_serialize:
  assumes "length body \<le> MESHCORE_MAX_PAYLOAD_SIZE"
  shows "meshcore_packet_serialize (flood_packet t body) FRAME_SIZE = Some (flood_header t # 0 # body)"
proof -
  note pl = flood_packet_payload [OF assms, of t]
  have "path_bytes (flood_packet t body) = 0" "\<not> hasTransportCodes (flood_packet t body)"
    by (simp_all add: path_bytes_def hasTransportCodes_def)
  with pl assms show ?thesis by (simp add: meshcore_packet_serialize_def Let_def flood_header_def size_defs)
qed

lemma flood_parse:
  assumes "length body \<le> MESHCORE_MAX_PAYLOAD_SIZE" "t AND 0x0F = t"
  shows "meshcore_packet_parse (flood_header t # 0 # body) MeshCorePacket_init = Some (flood_packet t body)"
proof -
  have h: "flood_header t AND 0x03 = route_byte Flood AND 0x03" "drop_bit 2 (flood_header t) AND 0x0F = t"
    "drop_bit 6 (flood_header t) AND 0x03 = 0"
    using header_parts [of "route_byte Flood" t 0] assms(2) unfolding flood_header_def by simp_all
  have wh: "with_header (flood_header t) MeshCorePacket_init = MeshCorePacket_init\<lparr>route := Flood, payloadType := t\<rparr>"
    unfolding with_header_def h route_bytes by (simp add: MeshCorePacket_init_def)
  have "meshcore_packet_parse (flood_header t # 0 # [] @ body) MeshCorePacket_init =
      Some (with_body 0 [] body (with_header (flood_header t) MeshCorePacket_init))"
    by (rule parse_plain) (use assms(1) in \<open>simp_all add: wh hasTransportCodes_def body_ok_def\<close>)
  then show ?thesis unfolding wh by (simp add: with_body_def flood_packet_def copy_over_def MeshCorePacket_init_def)
qed

lemma transmit_flood:
  assumes "length body \<le> MESHCORE_MAX_PAYLOAD_SIZE"
  shows "transmit e (flood_packet t body) seq b =
    Some (transmit_result e (flood_header t # 0 # body) seq = ERROR_NONE, host (Transmit (flood_header t # 0 # body) seq)
      (b\<lparr>seenPackets := remember (packet_hash e (flood_packet t body)) (seenPackets b)\<rparr>))"
  by (simp add: transmit_def flood_serialize [OF assms])


section \<open>The invariant of a node\<close>

definition contact_ok :: "Contact \<Rightarrow> bool" where
  "contact_ok ct \<longleftrightarrow> length (con_publicKey ct) = 32 \<and> length (con_name ct) = 32 \<and> con_name ct ! 31 = 0"

definition channel_ok :: "crypto_lib \<Rightarrow> Channel \<Rightarrow> bool" where
  "channel_ok c ch \<longleftrightarrow> length (ch_key ch) = 16 \<and> ch_channel ch = meshcore_channel_from_key c (ch_key ch) \<and>
     ch_name ch = name_array (c_string (ch_name ch))"

definition backend_ok :: "crypto_lib \<Rightarrow> Backend \<Rightarrow> bool" where
  "backend_ok c b \<longleftrightarrow>
     length (publicKey (identity b)) = 32 \<and>
     length (contacts b) \<le> 64 \<and> list_all contact_ok (contacts b) \<and>
     ordered (map ch_index (channels b)) \<and> list_all (channel_ok c) (channels b) \<and>
     length (seenPackets b) \<le> 64 \<and> ordered (map fst (pendingAcks b))"

named_theorems backend_frame \<open>what the steps of the backend leave alone\<close>

lemma remember_length: "length (remember h seen) \<le> 64"
  by (simp add: remember_def size_defs Let_def)

lemma find_contact_None: "find_contact key cs = None \<longleftrightarrow> key \<notin> con_publicKey ` set cs"
  by (induction cs) auto

lemma find_contact_Some: "find_contact key cs = Some i \<Longrightarrow> i < length cs \<and> con_publicKey (cs ! i) = key"
  by (induction cs arbitrary: i) (auto split: if_splits)

lemma update_contacts_ok:
  assumes "length cs \<le> 64" "list_all contact_ok cs" "length key = 32"
  shows "length (update_contacts key name cs) \<le> 64" "list_all contact_ok (update_contacts key name cs)"
proof -
  have ok: "contact_ok \<lparr>con_publicKey = key, con_name = name_array name\<rparr>"
    using assms(3) by (simp add: contact_ok_def name_array_end)
  show "length (update_contacts key name cs) \<le> 64"
    using assms(1) by (auto simp: update_contacts_def size_defs split: option.split)
  show "list_all contact_ok (update_contacts key name cs)"
  proof (cases "find_contact key cs")
    case None
    have "list_all contact_ok (tl cs)" using assms(2) by (cases cs) auto
    with None ok assms(2) show ?thesis by (simp add: update_contacts_def)
  next
    case (Some i)
    from find_contact_Some [OF this] assms(2,3) have "contact_ok ((cs ! i)\<lparr>con_name := name_array name\<rparr>)"
      by (simp add: contact_ok_def name_array_end list_all_length)
    with Some assms(2) show ?thesis by (auto simp: update_contacts_def list_all_iff dest!: set_update_subset_insert [THEN subsetD])
  qed
qed

lemma addChannel_ok:
  assumes "backend_ok (crypto e) b" "length key = 16" "0 \<notin> set name"
  shows "backend_ok (crypto e) (addChannel e i name key b)"
proof -
  let ?new = "\<lparr>ch_index = i, ch_name = name_array name, ch_key = key, ch_channel = meshcore_channel_from_key (crypto e) key\<rparr>"
  let ?cs = "filter (\<lambda>ch. ch_index ch \<noteq> i) (channels b) @ [?new]"
  have "ordered (map ch_index (filter (\<lambda>ch. ch_index ch \<noteq> i) (channels b)))"
    using assms(1) by (intro ordered_filter) (simp add: backend_ok_def)
  then have "distinct (map ch_index ?cs)" by (auto simp: strict_sorted_iff)
  then have "ordered (map ch_index (sort_key ch_index ?cs))" by (rule ordered_sort)
  moreover have "channel_ok (crypto e) ?new" using assms(2,3) name_array_canonical [of name] by (simp add: channel_ok_def)
  then have "list_all (channel_ok (crypto e)) (sort_key ch_index ?cs)" using assms(1) by (auto simp: list_all_iff backend_ok_def)
  ultimately show ?thesis using assms(1) by (simp add: backend_ok_def addChannel_def)
qed

text \<open>Saving does not touch the state in memory, and neither do calls to the host.\<close>

lemma writeFile_frame [backend_frame]:
  "identity (snd (writeFile e p d b)) = identity b" "contacts (snd (writeFile e p d b)) = contacts b"
  "channels (snd (writeFile e p d b)) = channels b" "seenPackets (snd (writeFile e p d b)) = seenPackets b"
  "pendingAcks (snd (writeFile e p d b)) = pendingAcks b" "calls (snd (writeFile e p d b)) = calls b"
  by (simp_all add: writeFile_def split: option.split)

lemma saveContacts_frame [backend_frame]:
  "identity (saveContacts e b) = identity b" "contacts (saveContacts e b) = contacts b"
  "channels (saveContacts e b) = channels b" "seenPackets (saveContacts e b) = seenPackets b"
  "pendingAcks (saveContacts e b) = pendingAcks b" "calls (saveContacts e b) = calls b"
  by (simp_all add: saveContacts_def backend_frame split: option.split)

lemma saveChannels_frame [backend_frame]:
  "identity (saveChannels e b) = identity b" "contacts (saveChannels e b) = contacts b"
  "channels (saveChannels e b) = channels b" "seenPackets (saveChannels e b) = seenPackets b"
  "pendingAcks (saveChannels e b) = pendingAcks b" "calls (saveChannels e b) = calls b"
  by (simp_all add: saveChannels_def backend_frame split: option.split)

lemma host_frame [backend_frame]:
  "identity (host call b) = identity b" "contacts (host call b) = contacts b" "channels (host call b) = channels b"
  "seenPackets (host call b) = seenPackets b" "pendingAcks (host call b) = pendingAcks b" "calls (host call b) = calls b @ [call]"
  by (simp_all add: host_def)

lemma backend_ok_frame:
  "backend_ok c (host call b) = backend_ok c b" "backend_ok c (saveContacts e b) = backend_ok c b"
  "backend_ok c (saveChannels e b) = backend_ok c b" "backend_ok c (snd (writeFile e p d b)) = backend_ok c b"
  by (simp_all add: backend_ok_def backend_frame)

definition in_bounds :: "MeshCorePacket \<Rightarrow> bool" where
  "in_bounds p \<longleftrightarrow> length (payload p) = MESHCORE_MAX_PAYLOAD_SIZE \<and> unat (payloadLength p) \<le> MESHCORE_MAX_PAYLOAD_SIZE"

lemma parsed_in_bounds:
  assumes "meshcore_packet_parse frame MeshCorePacket_init = Some p"
  shows "in_bounds p"
proof -
  have "in_bounds (with_body b P L q)" if "body_ok b P L" "length (payload q) = MESHCORE_MAX_PAYLOAD_SIZE" for b P L q
    using that by (simp add: in_bounds_def with_body_def body_ok_def copy_over_def size_defs unsigned_of_nat take_bit_nat_eq_self)
  note wb = this
  from assms show ?thesis
    by (cases rule: parse_cases) (simp_all add: wb with_header_def MeshCorePacket_init_def)
qed

lemma parse_advert_runs: "in_bounds p \<Longrightarrow> meshcore_parse_advert c p \<noteq> None"
  by (simp add: meshcore_parse_advert_def in_bounds_def Let_def)

lemma parse_advert_key:
  "in_bounds p \<Longrightarrow> meshcore_parse_advert c p = Some (Some a) \<Longrightarrow> length (adv_publicKey a) = 32"
  by (auto simp: meshcore_parse_advert_def in_bounds_def Let_def size_defs split: if_splits)

lemma mac_then_decrypt_runs: "n \<le> length source \<Longrightarrow> meshcore_mac_then_decrypt c s source n \<noteq> None"
  by (simp add: meshcore_mac_then_decrypt_def Let_def split: option.split)

lemma parse_group_text_runs: "in_bounds p \<Longrightarrow> meshcore_parse_group_text c ch p \<noteq> None"
  using mac_then_decrypt_runs [of "unat (payloadLength p) - 1" "drop 1 (payload p)" c "chan_secret ch"]
  by (simp add: meshcore_parse_group_text_def in_bounds_def diff_le_mono)

lemma parse_text_message_runs: "in_bounds p \<Longrightarrow> meshcore_parse_text_message c me peer p \<noteq> None"
  using text_message_parse_safe [of p c me peer] by (simp add: in_bounds_def)

lemma transmit_runs:
  "length body \<le> MESHCORE_MAX_PAYLOAD_SIZE \<Longrightarrow> backend_ok c b \<Longrightarrow>
     runs (transmit e (flood_packet t body) seq b) (\<lambda>r. backend_ok c (snd r))"
  by (simp add: transmit_flood backend_ok_frame) (simp add: backend_ok_def remember_length)

lemma transmit_ack_runs: "backend_ok c b \<Longrightarrow> runs (transmit e (meshcore_build_ack h) 0 b) (\<lambda>r. backend_ok c (snd r))"
  unfolding meshcore_build_ack_def by (rule transmit_runs) (simp_all add: size_defs)

lemma sendAdvert_runs:
  assumes "lawful (crypto e)" "backend_ok c b"
  shows "runs (sendAdvert e b) (backend_ok c)"
proof (cases "meshcore_build_advert (crypto e) (identity b) (getTimestamp e) (node_name e)")
  case None
  with assms(2) show ?thesis by (simp add: sendAdvert_def backend_ok_def)
next
  case (Some p)
  then obtain body where p: "p = flood_packet PAYLOAD_Advert body" "length body \<le> MESHCORE_MAX_PAYLOAD_SIZE"
    using assms(2) lawfulD(6) [OF assms(1)]
    by (auto simp: meshcore_build_advert_def backend_ok_def size_defs Let_def split: if_splits)
  from transmit_runs [OF p(2) assms(2), of e PAYLOAD_Advert 0]
  obtain r b' where "transmit e p 0 b = Some (r, b')" "backend_ok c b'" by (auto simp: runs_def p(1) split: option.splits)
  with Some show ?thesis by (simp add: sendAdvert_def) (simp add: backend_ok_def)
qed

lemma onAdvert_runs:
  assumes "backend_ok c b" "in_bounds p"
  shows "runs (onAdvert e p sig b) (\<lambda>r. backend_ok c (snd r))"
proof (cases "meshcore_parse_advert (crypto e) p")
  case (Some o_a)
  show ?thesis
  proof (cases o_a)
    case (Some a)
    with \<open>meshcore_parse_advert (crypto e) p = Some o_a\<close> have "length (adv_publicKey a) = 32"
      using parse_advert_key [OF assms(2)] by simp
    with update_contacts_ok [of "contacts b" "adv_publicKey a" "adv_name a"] assms(1)
    have "backend_ok c (b\<lparr>contacts := update_contacts (adv_publicKey a) (adv_name a) (contacts b)\<rparr>)"
      by (simp add: backend_ok_def)
    with Some \<open>meshcore_parse_advert (crypto e) p = Some o_a\<close> assms(1) show ?thesis
      by (simp add: onAdvert_def Let_def backend_ok_frame)
  qed (use assms(1) Some in \<open>simp add: onAdvert_def\<close>)
qed (use parse_advert_runs [OF assms(2)] in simp)

lemma group_text_loop_runs:
  "backend_ok c b \<Longrightarrow> in_bounds p \<Longrightarrow> runs (group_text_loop e chs p sig b) (\<lambda>r. backend_ok c (snd r))"
proof (induction chs)
  case (Cons ch chs)
  with parse_group_text_runs [of p "crypto e" "ch_channel ch"] show ?case
    by (auto simp: backend_ok_frame split: option.split prod.split)
qed simp

lemma text_message_loop_runs:
  "backend_ok c b \<Longrightarrow> in_bounds p \<Longrightarrow> runs (text_message_loop e src cs p sig b) (\<lambda>r. backend_ok c (snd r))"
proof (induction cs)
  case (Cons ct cs)
  have "runs (case transmit e (meshcore_build_ack h) 0 b of None \<Rightarrow> None | Some (x, b) \<Rightarrow> Some (True, f b))
      (\<lambda>r. backend_ok c (snd r))" if "\<And>b. backend_ok c b \<Longrightarrow> backend_ok c (f b)" for h and f :: "Backend \<Rightarrow> Backend"
    using transmit_ack_runs [OF Cons.prems(1), of e h] that by (auto simp: runs_def split: option.splits)
  with Cons parse_text_message_runs [OF Cons.prems(2), of "crypto e" "identity b" "con_publicKey ct"] show ?case
    by (auto simp: backend_ok_frame split: option.split)
qed simp

lemma onAck_ok: "backend_ok c b \<Longrightarrow> backend_ok c (snd (onAck e p b))"
  by (auto simp: onAck_def split: option.split) (simp add: backend_ok_def ordered_erase_ordered backend_frame)

lemma onReceive_runs:
  assumes "backend_ok c b"
  shows "runs (onReceive e frame sig b) (\<lambda>r. backend_ok c (snd r))"
proof (cases "meshcore_packet_parse frame MeshCorePacket_init")
  case (Some p)
  note p = parsed_in_bounds [OF Some]
  have ok: "backend_ok c (b\<lparr>seenPackets := remember (packet_hash e p) (seenPackets b)\<rparr>)"
    using assms by (simp add: backend_ok_def remember_length)
  from onAdvert_runs [OF ok p, of e sig] group_text_loop_runs [OF ok p] text_message_loop_runs [OF ok p] onAck_ok [OF ok] assms ok
  show ?thesis
    by (simp add: onReceive_def Some Let_def onGroupText_def onTextMessage_def split: option.split)
qed (simp add: onReceive_def assms)


lemma group_text_built:
  assumes "lawful c" "meshcore_build_group_text c ch ts sender txt = Some p"
  shows "\<exists>body. p = flood_packet PAYLOAD_GroupText body \<and> length body \<le> MESHCORE_MAX_PAYLOAD_SIZE"
proof -
  from assms(2) obtain b where len: "length (sender_text sender txt) < 155"
    and b: "meshcore_encrypt_then_mac c (chan_secret ch) (le32 ts @ 0 # sender_text sender txt) = Some b"
    and p: "p = flood_packet PAYLOAD_GroupText (chan_hash ch # b)"
    by (auto simp: meshcore_build_group_text_def Let_def size_defs split: if_splits option.splits)
  have "length (chan_hash ch # b) \<le> MESHCORE_MAX_PAYLOAD_SIZE"
    using encrypted_payload(2) [OF assms(1) b] len by (simp add: size_defs)
  with p show ?thesis by blast
qed

lemma text_message_flood:
  assumes "lawful c" "meshcore_build_text_message c me peer ts att txt = Some (p, h)"
  shows "\<exists>body. p = flood_packet PAYLOAD_TextMessage body \<and> length body \<le> MESHCORE_MAX_PAYLOAD_SIZE"
proof -
  from assms(2) obtain b where len: "length txt \<le> 155"
    and b: "meshcore_encrypt_then_mac c (meshcore_shared_secret c me peer) (le32 ts @ (att AND 0x03) # txt) = Some b"
    and p: "p = flood_packet PAYLOAD_TextMessage (hd peer # hd (publicKey me) # b)"
    by (auto simp: meshcore_build_text_message_def Let_def size_defs split: if_splits option.splits)
  have "length (hd peer # hd (publicKey me) # b) \<le> MESHCORE_MAX_PAYLOAD_SIZE"
    using encrypted_payload(2) [OF assms(1) b] len by (simp add: size_defs)
  with p show ?thesis by blast
qed

lemma runs_transmitD:
  assumes "runs (transmit e p seq b) (\<lambda>r. backend_ok c (snd r))"
  obtains ok b' where "transmit e p seq b = Some (ok, b')" "backend_ok c b'"
  using assms by (auto simp: runs_def split: option.splits)

lemma sendText_runs:
  assumes "lawful (crypto e)" "backend_ok c b"
  shows "runs (sendText e seq dest i txt b) (\<lambda>r. backend_ok c (snd r))"
proof (cases dest)
  case None
  show ?thesis
  proof (cases "find_channel i (channels b)")
    case (Some ch)
    show ?thesis
    proof (cases "meshcore_build_group_text (crypto e) (ch_channel ch) (getTimestamp e) (node_name e) txt")
      case (Some p)
      from group_text_built [OF assms(1) this] obtain body
        where p: "p = flood_packet PAYLOAD_GroupText body" "length body \<le> MESHCORE_MAX_PAYLOAD_SIZE" by blast
      obtain ok b' where "transmit e p seq b = Some (ok, b')" "backend_ok c b'"
        unfolding p(1) using transmit_runs [OF p(2) assms(2)] by (rule runs_transmitD)
      with None Some \<open>find_channel i (channels b) = Some ch\<close> show ?thesis by (simp add: sendText_def)
    qed (use None Some assms(2) in \<open>simp add: sendText_def\<close>)
  qed (use None assms(2) in \<open>simp add: sendText_def\<close>)
next
  case (Some a)
  show ?thesis
  proof (cases "meshcore_build_text_message (crypto e) (identity b) (addr_bytes a) (getTimestamp e) 0 txt")
    case (Some ph)
    obtain p h where ph: "ph = (p, h)" by (cases ph)
    with text_message_flood [OF assms(1)] Some obtain body
      where p: "p = flood_packet PAYLOAD_TextMessage body" "length body \<le> MESHCORE_MAX_PAYLOAD_SIZE" by blast
    obtain ok b' where "transmit e p seq b = Some (ok, b')" "backend_ok c b'"
      unfolding p(1) using transmit_runs [OF p(2) assms(2)] by (rule runs_transmitD)
    moreover from this(2) have "backend_ok c (b'\<lparr>pendingAcks := ordered_put h x (pendingAcks b')\<rparr>)" for x
      by (simp add: backend_ok_def ordered_put_ordered)
    ultimately show ?thesis using Some ph \<open>dest = Some a\<close> assms(2) by (simp add: sendText_def)
  qed (use Some assms(2) in \<open>simp add: sendText_def\<close>)
qed

lemma onTick_runs:
  assumes "lawful (crypto e)" "backend_ok c b"
  shows "runs (onTick e b) (backend_ok c)"
proof -
  have "runs (if millis e - lastAdvertMs b \<ge> ADVERT_INTERVAL_MS then sendAdvert e b else Some b) (backend_ok c)"
    using sendAdvert_runs [OF assms] assms(2) by simp
  then obtain b1 where b1: "(if millis e - lastAdvertMs b \<ge> ADVERT_INTERVAL_MS then sendAdvert e b else Some b) = Some b1"
    "backend_ok c b1" by (auto simp only: runs_def split: option.splits)
  then show ?thesis unfolding onTick_def b1(1)
    by (simp add: expire_acks_filter) (simp add: backend_ok_def ordered_filter)
qed

lemma contact_of_ok: "length d = 64 \<Longrightarrow> contact_ok (contact_of d)"
  by (simp add: contact_ok_def contact_of_def size_defs)

lemma load_contacts_ok:
  "length cs \<le> 64 \<Longrightarrow> list_all contact_ok cs \<Longrightarrow>
     length (load_contacts d cs) \<le> 64 \<and> list_all contact_ok (load_contacts d cs)"
proof (induction d cs rule: load_contacts.induct)
  case (1 d cs)
  show ?case
  proof (cases "CONTACT_SIZE \<le> length d \<and> length cs < MAX_CONTACTS")
    case True
    with 1 contact_of_ok [of "take 64 d"] show ?thesis
      by (simp add: load_contacts.simps [of d cs] size_defs)
  next
    case False
    then have "load_contacts d cs = cs" by (subst load_contacts.simps) (simp only: if_False)
    with 1(2,3) show ?thesis by simp
  qed
qed

lemma load_channels_ok: "backend_ok (crypto e) b \<Longrightarrow> backend_ok (crypto e) (load_channels e d b)"
proof (induction e d b rule: load_channels.induct)
  case (1 e d b)
  show ?case
  proof (cases "CHANNEL_SIZE \<le> length d")
    case True
    have "backend_ok (crypto e) (addChannel e (d ! 0) (c_string ((take 32 (drop 1 d))[MESH_NAME_MAX_LENGTH := 0])) (take 16 (drop 33 d)) b)"
      by (rule addChannel_ok [OF 1(2)]) (use True in \<open>simp_all add: c_string_nonzero size_defs\<close>)
    from 1(1) [OF True this] True show ?thesis by (subst load_channels.simps) simp
  qed (use 1 in \<open>simp add: load_channels.simps [of e d b]\<close>)
qed

lemma create_ok:
  assumes "lawful (crypto e)" "create m e fs cs = Some b"
  shows "backend_ok (crypto e) b"
proof -
  have "backend_ok (crypto e) (loadOrCreateIdentity e (Backend_init fs cs))"
    using lawfulD(5) [OF assms(1)]
    by (auto simp: loadOrCreateIdentity_def Let_def backend_ok_def Backend_init_def backend_frame size_defs split: option.split)
  then have "backend_ok (crypto e) (loadContacts e (loadOrCreateIdentity e (Backend_init fs cs)))" (is "backend_ok _ ?b")
    using load_contacts_ok unfolding loadContacts_def by (auto simp: backend_ok_def split: option.split)
  then have "backend_ok (crypto e) (loadChannels e ?b)"
    unfolding loadChannels_def Let_def
    by (auto simp: MESHCORE_PUBLIC_CHANNEL_KEY_def intro!: addChannel_ok load_channels_ok split: option.split)
  then show ?thesis using assms(2) by (auto simp: create_def split: if_splits)
qed


lemma setChannel_ok:
  assumes "lawful (crypto e)" "backend_ok (crypto e) b" "length (mc_key mc) = 32"
  shows "backend_ok (crypto e) (snd (setChannel e mc b))"
proof -
  have "length (take 16 (mc_key mc)) = 16" "length (meshcore_hashtag_channel_key (crypto e) s) = 16" for s
    using assms(3) lawfulD(1) [OF assms(1)]
    by (simp_all add: meshcore_hashtag_channel_key_def meshcore_sha256_def meshcore_sha256_pair_def)
  then show ?thesis using assms(2)
    by (auto simp: setChannel_def backend_ok_frame c_string_nonzero intro!: addChannel_ok)
qed

lemma removeChannel_ok: "backend_ok c b \<Longrightarrow> backend_ok c (snd (removeChannel e i b))"
  by (auto simp: removeChannel_def Let_def backend_ok_frame) (auto simp: backend_ok_def ordered_filter list_all_iff)

text \<open>The states of a node, whatever it is asked and receives, with one crypto library throughout.\<close>

inductive node_reachable :: "crypto_lib \<Rightarrow> Backend \<Rightarrow> bool" for c where
  created: "create memory e fs cs = Some b \<Longrightarrow> crypto e = c \<Longrightarrow> node_reachable c b"
| started: "node_reachable c b \<Longrightarrow> crypto e = c \<Longrightarrow> onStart e b = Some b' \<Longrightarrow> node_reachable c b'"
| renamed: "node_reachable c b \<Longrightarrow> crypto e = c \<Longrightarrow> onNodeNameChanged e b = Some b' \<Longrightarrow> node_reachable c b'"
| received: "node_reachable c b \<Longrightarrow> crypto e = c \<Longrightarrow> onReceive e frame sig b = Some (r, b') \<Longrightarrow> node_reachable c b'"
| ticked: "node_reachable c b \<Longrightarrow> crypto e = c \<Longrightarrow> onTick e b = Some b' \<Longrightarrow> node_reachable c b'"
| sent: "node_reachable c b \<Longrightarrow> crypto e = c \<Longrightarrow> sendText e seq dest i txt b = Some (r, b') \<Longrightarrow> node_reachable c b'"
| channel_set: "node_reachable c b \<Longrightarrow> crypto e = c \<Longrightarrow> length (mc_key mc) = 32 \<Longrightarrow> setChannel e mc b = (r, b') \<Longrightarrow>
    node_reachable c b'"
| channel_removed: "node_reachable c b \<Longrightarrow> crypto e = c \<Longrightarrow> removeChannel e i b = (r, b') \<Longrightarrow> node_reachable c b'"

lemma node_reachable_ok: "node_reachable c b \<Longrightarrow> lawful c \<Longrightarrow> backend_ok c b"
proof (induction rule: node_reachable.induct)
  case (created memory e fs cs b) then show ?case using create_ok [of e] by simp
next
  case (started b e b') then show ?case using sendAdvert_runs [of e c b] by (simp add: onStart_def)
next
  case (renamed b e b') then show ?case using sendAdvert_runs [of e c b] by (simp add: onNodeNameChanged_def)
next
  case (received b e frame sig r b') then show ?case using onReceive_runs [of c b e frame sig] by simp
next
  case (ticked b e b') then show ?case using onTick_runs [of e c b] by simp
next
  case (sent b e seq dest i m r b') then show ?case using sendText_runs [of e c b seq dest i m] by simp
next
  case (channel_set b e mc r b') then show ?case using setChannel_ok [of e b mc] by simp
next
  case (channel_removed b e i r b') then show ?case using removeChannel_ok [of c b e i] by simp
qed

text \<open>
  C4: whatever a node is asked to do and whatever bytes it receives, it never reads outside of an
  array, and its state stays within its bounds: at most 64 contacts with a 32-byte key and a
  terminated name, channels in the order of distinct indices with the secret that belongs to their
  key, at most 64 remembered packets, and one pending acknowledgement per hash.
\<close>

theorem node_safe:
  assumes "lawful c" and "node_reachable c b"
  shows "backend_ok c b \<and>
    (\<forall>e frame sig seq dest i txt. crypto e = c \<longrightarrow>
       onReceive e frame sig b \<noteq> None \<and> onTick e b \<noteq> None \<and> onStart e b \<noteq> None \<and> sendText e seq dest i txt b \<noteq> None)"
proof (intro conjI allI impI)
  show ok: "backend_ok c b" by (rule node_reachable_ok [OF assms(2,1)])
  fix e :: host_env and frame sig seq dest i m assume e: "crypto e = c"
  show "onReceive e frame sig b \<noteq> None" by (rule runs_returns [OF onReceive_runs [OF ok]])
  show "onTick e b \<noteq> None" by (rule runs_returns [OF onTick_runs [OF _ ok]]) (simp add: assms(1) e)
  show "onStart e b \<noteq> None" unfolding onStart_def by (rule runs_returns [OF sendAdvert_runs [OF _ ok]]) (simp add: assms(1) e)
  show "sendText e seq dest i m b \<noteq> None" by (rule runs_returns [OF sendText_runs [OF _ ok]]) (simp add: assms(1) e)
qed

text \<open>
  C18: an acknowledgement that does not arrive in time is reported. After a tick no pending message is
  past its deadline; those that were are reported to the host as failed, in the order of their
  hashes, behind the advert that may be due, and all others stay.
\<close>

theorem tick_expires:
  assumes "lawful c" and "node_reachable c b" and "crypto e = c"
  shows "\<exists>b' sent. onTick e b = Some b' \<and>
    pendingAcks b' = filter (\<lambda>x. millis e < ack_deadlineMs (snd x)) (pendingAcks b) \<and>
    calls b' = calls b @ sent @
      map (\<lambda>x. SetDelivery (ack_seq (snd x)) DELIVERY_FAILED) (filter (\<lambda>x. ack_deadlineMs (snd x) \<le> millis e) (pendingAcks b)) \<and>
    length sent \<le> 1 \<and> (millis e - lastAdvertMs b < ADVERT_INTERVAL_MS \<longrightarrow> sent = [])"
proof -
  let ?m = "if millis e - lastAdvertMs b \<ge> ADVERT_INTERVAL_MS then sendAdvert e b else Some b"
  have ok: "backend_ok c b" by (rule node_reachable_ok [OF assms(2,1)])
  have adv: "\<exists>b1 sent. sendAdvert e b = Some b1 \<and> pendingAcks b1 = pendingAcks b \<and> calls b1 = calls b @ sent \<and> length sent \<le> 1"
  proof (cases "meshcore_build_advert (crypto e) (identity b) (getTimestamp e) (node_name e)")
    case None then show ?thesis by (auto simp: sendAdvert_def)
  next
    case (Some p)
    then obtain body where p: "p = flood_packet PAYLOAD_Advert body" "length body \<le> MESHCORE_MAX_PAYLOAD_SIZE"
      using ok lawfulD(6) [OF assms(1)] assms(3)
      by (auto simp: meshcore_build_advert_def backend_ok_def size_defs Let_def split: if_splits)
    with Some show ?thesis by (auto simp: sendAdvert_def transmit_flood host_def)
  qed
  then obtain b1 sent where "?m = Some b1" "pendingAcks b1 = pendingAcks b" "calls b1 = calls b @ sent" "length sent \<le> 1"
    "millis e - lastAdvertMs b < ADVERT_INTERVAL_MS \<longrightarrow> sent = []"
    by (cases "millis e - lastAdvertMs b \<ge> ADVERT_INTERVAL_MS") (auto simp: not_le)
  then show ?thesis unfolding onTick_def by (auto simp: expire_acks_filter not_le)
qed


section \<open>Duplicates\<close>

lemma remember_eq: "remember h seen = drop (length seen - 63) seen @ [h]"
  by (cases "length seen \<le> 63") (simp_all add: remember_def size_defs Let_def)

lemma remembered: "h \<in> set (remember h seen)" "h \<in> set (remember g (remember h seen))"
  by (simp_all add: remember_eq)

text \<open>What the handlers do to the list of seen packets.\<close>

lemma onAdvert_seen: "onAdvert e p sig b = Some (r, b') \<Longrightarrow> seenPackets b' = seenPackets b"
  by (auto simp: onAdvert_def backend_frame Let_def split: option.splits if_splits)

lemma group_text_loop_seen: "group_text_loop e chs p sig b = Some (r, b') \<Longrightarrow> seenPackets b' = seenPackets b"
  by (induction chs) (auto simp: backend_frame Let_def split: option.splits if_splits prod.splits)

lemma transmit_seen: "transmit e p seq b = Some (ok, b') \<Longrightarrow>
    seenPackets b' = seenPackets b \<or> (\<exists>g. seenPackets b' = remember g (seenPackets b))"
  by (auto simp: transmit_def backend_frame split: option.splits if_splits)

lemma text_message_loop_seen: "text_message_loop e src cs p sig b = Some (r, b') \<Longrightarrow>
    seenPackets b' = seenPackets b \<or> (\<exists>g. seenPackets b' = remember g (seenPackets b))"
  by (induction cs) (auto simp: backend_frame dest!: transmit_seen split: option.splits if_splits prod.splits)

lemma onAck_seen: "seenPackets (snd (onAck e p b)) = seenPackets b"
  by (simp add: onAck_def backend_frame split: option.split)

lemma handled_seen:
  assumes "meshcore_packet_parse frame MeshCorePacket_init = Some p" and "onReceive e frame sig b = Some (r, b')"
  shows "packet_hash e p \<in> set (seenPackets b')"
proof (cases "packet_hash e p \<in> set (seenPackets b)")
  case True
  with assms show ?thesis by (simp add: onReceive_def)
next
  case False
  let ?h = "packet_hash e p" and ?b = "b\<lparr>seenPackets := remember (packet_hash e p) (seenPackets b)\<rparr>"
  have "seenPackets b' = seenPackets ?b \<or> (\<exists>g. seenPackets b' = remember g (seenPackets ?b))"
    using assms(2) False onAdvert_seen [of e p sig ?b r b'] group_text_loop_seen [of e "channels b" p sig ?b r b']
      text_message_loop_seen [of e _ "contacts b" p sig ?b r b'] onAck_seen [of e p ?b]
    by (auto simp: onReceive_def assms(1) Let_def onGroupText_def onTextMessage_def split: if_splits option.splits)
  then show ?thesis by (auto simp: remembered)
qed


section \<open>A text message and its acknowledgement\<close>

lemma text_message_loop_skip:
  "(\<And>ct. ct \<in> set pre \<Longrightarrow> hd (con_publicKey ct) \<noteq> src) \<Longrightarrow>
     text_message_loop e src (pre @ cs) p sig b = text_message_loop e src cs p sig b"
  by (induction pre) auto

definition ack_body :: "32 word \<Rightarrow> byte list" where
  "ack_body h = flood_header PAYLOAD_Ack # 0 # le32 h"

lemma receive_ack:
  assumes "packet_hash e (meshcore_build_ack h) \<notin> set (seenPackets b)" and "map_of (pendingAcks b) h = Some a"
  shows "\<exists>b'. onReceive e (ack_body h) sig b = Some (True, b') \<and>
    calls b' = calls b @ [SetDelivery (ack_seq a) DELIVERY_DELIVERED] \<and> pendingAcks b' = ordered_erase h (pendingAcks b)"
proof -
  have "meshcore_packet_parse (ack_body h) MeshCorePacket_init = Some (meshcore_build_ack h)"
    unfolding ack_body_def meshcore_build_ack_def by (rule flood_parse) (simp_all add: size_defs)
  moreover have "payloadType (meshcore_build_ack h) = PAYLOAD_Ack" by (simp add: meshcore_build_ack_def)
  ultimately show ?thesis using assms
    by (simp add: onReceive_def Let_def onAck_def ack_roundtrip backend_frame PAYLOAD_Ack_def PAYLOAD_Advert_def
        PAYLOAD_GroupText_def PAYLOAD_TextMessage_def)
qed

lemma payload_distinct [simp]:
  "PAYLOAD_TextMessage \<noteq> PAYLOAD_Advert" "PAYLOAD_TextMessage \<noteq> PAYLOAD_GroupText"
  by (simp_all add: PAYLOAD_TextMessage_def PAYLOAD_Advert_def PAYLOAD_GroupText_def)

lemma toAddress_sel [simp]:
  "unat (addr_length (toAddress key)) = MESHCORE_PUBLIC_KEY_SIZE" "addr_bytes (toAddress key) = key"
  by (simp_all add: toAddress_def size_defs)

text \<open>
  C5: a text message is delivered and acknowledged. When a node accepts a text for a peer, it has
  queued one frame and noted what it waits for. If that peer, which knows the sender as the first
  contact with its hash, receives the frame, it acknowledges it and hands the text to its host with
  the sender's address, name and time. When the acknowledgement reaches the sender, the message is
  reported as delivered and no longer waited for. (Hashes that collide with remembered packets are
  excluded.)
\<close>

theorem message_acknowledged:
  assumes "lawful c" "crypto ea = c" "crypto eb = c"
    and "identity a = meshcore_identity_create c s" "identity b = meshcore_identity_create c t"
    and "0 \<notin> set txt" and "sendText ea seq (Some (toAddress (publicKey (identity b)))) 0 txt a = Some (ERROR_NONE, a')"
    and "contacts b = pre @ ct # post" "con_publicKey ct = publicKey (identity a)"
    and "\<forall>x \<in> set pre. hd (con_publicKey x) \<noteq> hd (publicKey (identity a))"
  shows "\<exists>frame h p. calls a' = calls a @ [Transmit frame seq] \<and>
    map_of (pendingAcks a') h = Some \<lparr>ack_seq = seq, ack_deadlineMs = millis ea + ACK_TIMEOUT_MS\<rparr> \<and>
    meshcore_packet_parse frame MeshCorePacket_init = Some p \<and>
    (packet_hash eb p \<notin> set (seenPackets b) \<longrightarrow>
      (\<exists>b' ack. onReceive eb frame sig b = Some (True, b') \<and>
         calls b' = calls b @ [Transmit ack 0, NodeHeard (toAddress (publicKey (identity a))) None sig,
           ReceiveText (Some (toAddress (publicKey (identity a)))) 0 (c_string (con_name ct)) txt sig (getTimestamp ea)] \<and>
         (packet_hash ea (meshcore_build_ack h) \<notin> set (seenPackets a') \<longrightarrow>
           (\<exists>a''. onReceive ea ack sig' a' = Some (True, a'') \<and>
             calls a'' = calls a' @ [SetDelivery seq DELIVERY_DELIVERED] \<and> map_of (pendingAcks a'') h = None))))"
proof -
  let ?pa = "publicKey (identity a)" and ?pb = "publicKey (identity b)"
  let ?t = "\<lparr>text_timestamp = getTimestamp ea, text_flags = 0, text_text = txt\<rparr>"
  from assms(7) obtain p h where build: "meshcore_build_text_message c (identity a) ?pb (getTimestamp ea) 0 txt = Some (p, h)"
    by (auto simp: sendText_def assms(2) split: if_splits option.splits)
  note built = text_message_built [OF assms(1,4,5,6) build]
  from built(1) obtain body where p: "p = flood_packet PAYLOAD_TextMessage body" and len: "length body \<le> MESHCORE_MAX_PAYLOAD_SIZE" by blast
  let ?frame = "flood_header PAYLOAD_TextMessage # 0 # body"
  have a': "calls a' = calls a @ [Transmit ?frame seq]"
      "pendingAcks a' = ordered_put h \<lparr>ack_seq = seq, ack_deadlineMs = millis ea + ACK_TIMEOUT_MS\<rparr> (pendingAcks a)"
    using assms(7) build transmit_flood [OF len, of ea PAYLOAD_TextMessage seq a, folded p]
    by (auto simp: sendText_def assms(2) backend_frame split: if_splits)
  then have pend: "map_of (pendingAcks a') h = Some \<lparr>ack_seq = seq, ack_deadlineMs = millis ea + ACK_TIMEOUT_MS\<rparr>"
    by (simp add: map_of_ordered_put)
  have parse: "meshcore_packet_parse ?frame MeshCorePacket_init = Some p"
    unfolding p by (rule flood_parse [OF len]) simp
  have bob: "\<exists>b'. onReceive eb ?frame sig b = Some (True, b') \<and>
      calls b' = calls b @ [Transmit (ack_body h) 0, NodeHeard (toAddress ?pa) None sig,
        ReceiveText (Some (toAddress ?pa)) 0 (c_string (con_name ct)) txt sig (getTimestamp ea)]"
    if fresh: "packet_hash eb p \<notin> set (seenPackets b)"
  proof -
    let ?b = "b\<lparr>seenPackets := remember (packet_hash eb p) (seenPackets b)\<rparr>"
    have "payloadType p = PAYLOAD_TextMessage" by (simp add: p)
    then have "onReceive eb ?frame sig b = text_message_loop eb (hd ?pa) (pre @ ct # post) p sig ?b"
      using fresh by (simp add: onReceive_def parse Let_def onTextMessage_def built(2) assms(8))
    also have "\<dots> = text_message_loop eb (hd ?pa) (ct # post) p sig ?b"
      by (rule text_message_loop_skip) (use assms(10) in blast)
    finally show ?thesis
      using transmit_flood [of "le32 h" eb PAYLOAD_Ack 0 ?b, folded meshcore_build_ack_def]
      by (simp add: assms(3,9) built(3) ack_body_def backend_frame size_defs TEXT_TYPE_PLAIN_def)
  qed
  have alice: "\<exists>a''. onReceive ea (ack_body h) sig' a' = Some (True, a'') \<and>
      calls a'' = calls a' @ [SetDelivery seq DELIVERY_DELIVERED] \<and> map_of (pendingAcks a'') h = None"
    if "packet_hash ea (meshcore_build_ack h) \<notin> set (seenPackets a')"
    using receive_ack [OF that pend, of sig'] by (auto simp: ordered_erase_def map_of_erase)
  show ?thesis
    by (rule exI [of _ ?frame], rule exI [of _ h], rule exI [of _ p]) (use a'(1) pend parse bob alice in blast)
qed


section \<open>Channels survive a restart\<close>

lemma channel_record_parts:
  assumes "channel_ok c ch"
  shows "length (channel_record ch) = 49" "(channel_record ch @ r) ! 0 = ch_index ch"
    "(take 32 (drop 1 (channel_record ch @ r)))[MESH_NAME_MAX_LENGTH := 0] = ch_name ch"
    "take 16 (drop 33 (channel_record ch @ r)) = ch_key ch" "drop 49 (channel_record ch @ r) = r"
proof -
  have n: "length (ch_name ch) = 32" "ch_name ch ! 31 = 0" and k: "length (ch_key ch) = 16"
    using assms name_array_length name_array_end unfolding channel_ok_def by metis+
  then show "length (channel_record ch) = 49" "(channel_record ch @ r) ! 0 = ch_index ch"
    "take 16 (drop 33 (channel_record ch @ r)) = ch_key ch" "drop 49 (channel_record ch @ r) = r"
    by (simp_all add: channel_record_def)
  have "take 32 (drop 1 (channel_record ch @ r)) = ch_name ch" using n by (simp add: channel_record_def)
  then show "(take 32 (drop 1 (channel_record ch @ r)))[MESH_NAME_MAX_LENGTH := 0] = ch_name ch"
    using n(2) by (simp add: size_defs) (metis list_update_id)
qed

lemma addChannel_last:
  assumes "ordered (map ch_index (chs @ [ch]))" "channel_ok (crypto e) ch" "channels b = chs"
  shows "channels (addChannel e (ch_index ch) (c_string (ch_name ch)) (ch_key ch) b) = chs @ [ch]"
proof -
  have "filter (\<lambda>x. ch_index x \<noteq> ch_index ch) chs = chs"
    using assms(1) by (intro filter_True) (auto simp: sorted_wrt_append)
  moreover have "\<lparr>ch_index = ch_index ch, ch_name = name_array (c_string (ch_name ch)), ch_key = ch_key ch,
      ch_channel = meshcore_channel_from_key (crypto e) (ch_key ch)\<rparr> = ch"
    using assms(2) by (cases ch) (simp add: channel_ok_def)
  moreover have "sort_key ch_index (chs @ [ch]) = chs @ [ch]"
    using assms(1) by (intro sort_key_id_if_sorted) (simp add: strict_sorted_iff)
  ultimately show ?thesis by (simp add: addChannel_def assms(3))
qed

lemma load_saved_channels:
  "ordered (map ch_index (done @ chs)) \<Longrightarrow> list_all (channel_ok (crypto e)) chs \<Longrightarrow> channels b = done \<Longrightarrow>
     channels (load_channels e (concat (map channel_record chs)) b) = done @ chs"
proof (induction chs arbitrary: "done" b)
  case Nil
  then show ?case by (simp add: load_channels.simps size_defs)
next
  case (Cons ch chs)
  let ?r = "concat (map channel_record chs)"
  from Cons.prems(2) have ok: "channel_ok (crypto e) ch" by simp
  note parts = channel_record_parts(1) [OF ok] channel_record_parts(2-5) [OF ok, of ?r]
  have "channels (addChannel e (ch_index ch) (c_string (ch_name ch)) (ch_key ch) b) = done @ [ch]"
    using Cons.prems ok by (intro addChannel_last) (simp_all add: sorted_wrt_append)
  moreover have "load_channels e (channel_record ch @ ?r) b =
      load_channels e ?r (addChannel e (ch_index ch) (c_string (ch_name ch)) (ch_key ch) b)"
    using parts ok by (subst load_channels.simps) (simp add: size_defs channel_ok_def)
  ultimately show ?case using Cons.IH [of "done @ [ch]"] Cons.prems by simp
qed

lemma addChannel_present:
  "\<exists>ch \<in> set (channels (addChannel e i name key b)). ch_index ch = i \<and> ch_name ch = name_array name"
  by (simp add: addChannel_def)

lemma saved_length: "list_all (channel_ok c) chs \<Longrightarrow> length (concat (map channel_record chs)) = 49 * length chs"
  by (induction chs) (auto dest: channel_record_parts(1))

lemma load_identity_frame:
  assumes "data_path e ''identity.bin'' \<noteq> Some p"
  shows "files (loadOrCreateIdentity e b) p = files b p" "channels (loadOrCreateIdentity e b) = channels b"
  using assms by (auto simp: loadOrCreateIdentity_def Let_def writeFile_def split: option.split)

lemma loadContacts_frame: "files (loadContacts e b) = files b" "channels (loadContacts e b) = channels b"
  by (simp_all add: loadContacts_def split: option.split)

text \<open>
  C21: channels survive a restart. After a channel was set and the file could be written, a node that
  is created from the files that were left has exactly the channels from before, whatever else the
  restart does, provided its identity is kept in another file.
\<close>

theorem channels_survive_restart:
  assumes "lawful c" and "node_reachable c b" and "crypto e = c" "crypto e' = c" and "length (mc_key mc) = 32"
    and "setChannel e mc b = (ERROR_NONE, b')"
    and "data_path e ''channels.bin'' = Some p" "writable e p = Some n" "49 * length (channels b') \<le> n"
    and "data_path e' ''channels.bin'' = Some p" "readable e' p = Some m" "49 * length (channels b') \<le> m"
      "data_path e' ''identity.bin'' \<noteq> Some p"
    and "create True e' (files b') cs = Some b''"
  shows "channels b'' = channels b' \<and> (\<exists>ch \<in> set (channels b''). ch_index ch = mc_index mc \<and> ch_name ch = name_array (c_string (mc_name mc)))"
proof -
  have "backend_ok c b'"
    using setChannel_ok [of e b mc] node_reachable_ok [OF assms(2,1)] assms(1,3,5,6) by simp
  then have ok: "ordered (map ch_index (channels b'))" "list_all (channel_ok c) (channels b')" by (simp_all add: backend_ok_def)
  let ?d = "concat (map channel_record (channels b'))"
  have len: "length ?d = 49 * length (channels b')" by (rule saved_length [OF ok(2)])
  obtain key where b': "b' = saveChannels e (addChannel e (mc_index mc) (c_string (mc_name mc)) key b)"
    using assms(6) by (auto simp: setChannel_def Let_def split: option.splits if_splits)
  then have "channels b' = channels (addChannel e (mc_index mc) (c_string (mc_name mc)) key b)" by (simp add: backend_frame)
  then have present: "\<exists>ch \<in> set (channels b'). ch_index ch = mc_index mc \<and> ch_name ch = name_array (c_string (mc_name mc))"
    using addChannel_present by simp
  have stored: "files b' p = Some ?d"
    using len assms(7,8,9) by (simp add: b' saveChannels_def writeFile_def)
  let ?b1 = "loadContacts e' (loadOrCreateIdentity e' (Backend_init (files b') cs))"
  have b1: "files ?b1 p = Some ?d" "channels ?b1 = []"
    using load_identity_frame [OF assms(13)] stored by (simp_all add: loadContacts_frame Backend_init_def)
  then have "readFile e' p ?b1 = Some ?d" using assms(11,12) len by (simp add: readFile_def)
  moreover have "channels (load_channels e' ?d ?b1) = channels b'"
    using load_saved_channels [of "[]" "channels b'" e' ?b1] ok b1(2) assms(4) by simp
  moreover have "channels b' \<noteq> []" using present by auto
  ultimately have "channels (loadChannels e' ?b1) = channels b'"
    using assms(10) by (simp add: loadChannels_def Let_def)
  then have "channels b'' = channels b'" using assms(14) by (simp add: create_def)
  with present show ?thesis by simp
qed


section \<open>Instances\<close>

definition demo_host :: "byte list \<Rightarrow> host_env" where
  "demo_host seed = \<lparr>millis = 100000, node_name = [65], data_path = Some, readable = \<lambda>p. Some 10000,
     writable = \<lambda>p. Some 10000, transmit_result = \<lambda>f s. ERROR_NONE, crypto = demo_crypto, wall_time = 1700000001,
     random_seed = seed\<rparr>"

lemma demo_host_sel [simp]:
  "crypto (demo_host s) = demo_crypto" "data_path (demo_host s) = Some" "readable (demo_host s) p = Some 10000"
  "writable (demo_host s) p = Some 10000" "transmit_result (demo_host s) f q = ERROR_NONE" "random_seed (demo_host s) = s"
  by (simp_all add: demo_host_def)

definition demo_node :: "byte list \<Rightarrow> Backend" where
  "demo_node seed = the (create True (demo_host seed) (\<lambda>p. None) [])"

lemma demo_node_created: "create True (demo_host s) (\<lambda>p. None) [] = Some (demo_node s)"
  by (simp add: demo_node_def create_def)

lemma demo_node_reachable: "node_reachable demo_crypto (demo_node s)"
  by (rule node_reachable.created [OF demo_node_created]) simp

lemma demo_node_fields:
  "identity (demo_node s) = meshcore_identity_create demo_crypto s" "contacts (demo_node s) = []" "seenPackets (demo_node s) = []"
  "pendingAcks (demo_node s) = []" "calls (demo_node s) = []" "length (channels (demo_node s)) = 1"
  by (simp_all add: demo_node_def create_def loadOrCreateIdentity_def Let_def loadContacts_def loadChannels_def readFile_def
      writeFile_def Backend_init_def addChannel_def)

theorem node_safe_witness:
  "backend_ok demo_crypto (demo_node [1]) \<and> onReceive (demo_host [1]) [0x09, 0, 1, 2] (0, 0) (demo_node [1]) \<noteq> None"
  using node_safe [OF demo_crypto_laws(1) demo_node_reachable] demo_host_sel(1) by blast

theorem tick_expires_witness:
  "\<exists>b'. onTick (demo_host [1]) (demo_node [1]) = Some b' \<and> pendingAcks b' = [] \<and> length (calls b') \<le> 1"
  using tick_expires [OF demo_crypto_laws(1) demo_node_reachable [of "[1]"] demo_host_sel(1) [of "[1]"]]
  by (auto simp: demo_node_fields)


lemma demo_send:
  "\<exists>a'. sendText (demo_host [1]) 4 (Some (toAddress (publicKey (identity (demo_node [2]))))) 0 [72, 105] (demo_node [1]) = Some (ERROR_NONE, a')"
proof -
  let ?me = "meshcore_identity_create demo_crypto [1]" and ?peer = "publicKey (identity (demo_node [2]))"
  have "encryptedLength (length (le32 w @ (0 AND 0x03) # [72, 105 :: byte])) \<le> 256" for w
    using plaintext_encrypted [of 7] by simp
  then obtain p h where ph: "meshcore_build_text_message demo_crypto ?me ?peer (getTimestamp (demo_host [1])) 0 [72, 105] = Some (p, h)"
    using encrypt_available [OF demo_crypto_laws, of "meshcore_shared_secret demo_crypto ?me ?peer"
        "le32 (getTimestamp (demo_host [1])) @ (0 AND 0x03) # [72, 105]"] lawfulD(8) [OF demo_crypto_laws(1)]
    by (auto simp: meshcore_build_text_message_def Let_def size_defs meshcore_shared_secret_def)
  from text_message_flood [OF demo_crypto_laws(1) this] ph show ?thesis
    by (auto simp: sendText_def demo_node_fields transmit_flood)
qed

theorem message_acknowledged_witness:
  "\<exists>a' frame h p b' ack. sendText (demo_host [1]) 4 (Some (toAddress (publicKey (identity (demo_node [2]))))) 0 [72, 105] (demo_node [1]) = Some (ERROR_NONE, a') \<and>
     calls a' = [Transmit frame 4] \<and> meshcore_packet_parse frame MeshCorePacket_init = Some p \<and>
     onReceive (demo_host [2]) frame (0, 0) ((demo_node [2])\<lparr>contacts :=
       [\<lparr>con_publicKey = publicKey (identity (demo_node [1])), con_name = name_array [65]\<rparr>]\<rparr>) = Some (True, b') \<and>
     calls b' = [Transmit ack 0, NodeHeard (toAddress (publicKey (identity (demo_node [1])))) None (0, 0),
       ReceiveText (Some (toAddress (publicKey (identity (demo_node [1]))))) 0 (c_string (name_array [65])) [72, 105] (0, 0) (getTimestamp (demo_host [1]))]"
proof -
  let ?b = "(demo_node [2])\<lparr>contacts := [\<lparr>con_publicKey = publicKey (identity (demo_node [1])), con_name = name_array [65]\<rparr>]\<rparr>"
  obtain a' where a': "sendText (demo_host [1]) 4 (Some (toAddress (publicKey (identity ?b)))) 0 [72, 105] (demo_node [1]) = Some (ERROR_NONE, a')"
    using demo_send by auto
  from message_acknowledged [where sig = "(0, 0)" and sig' = "(0, 0)", OF demo_crypto_laws(1) demo_host_sel(1) demo_host_sel(1) [of "[2]"] _ _ _ a', of "[1]" "[2]" "[]"]
  obtain frame h p where "calls a' = calls (demo_node [1]) @ [Transmit frame 4]"
      "meshcore_packet_parse frame MeshCorePacket_init = Some p"
      "packet_hash (demo_host [2]) p \<notin> set (seenPackets ?b) \<longrightarrow> (\<exists>b' ack. onReceive (demo_host [2]) frame (0, 0) ?b = Some (True, b') \<and>
         calls b' = calls ?b @ [Transmit ack 0, NodeHeard (toAddress (publicKey (identity (demo_node [1])))) None (0, 0),
           ReceiveText (Some (toAddress (publicKey (identity (demo_node [1]))))) 0 (c_string (name_array [65])) [72, 105] (0, 0) (getTimestamp (demo_host [1]))])"
    by (auto simp: demo_node_fields)
  with a' show ?thesis by (simp add: demo_node_fields)
qed

lemma addChannel_length: "length (channels (addChannel e i name key b)) \<le> Suc (length (channels b))"
  by (simp add: addChannel_def)

definition demo_mesh_channel :: MeshChannel where
  "demo_mesh_channel = \<lparr>mc_index = 1, mc_name = [0x23, 97] @ replicate 30 0, mc_key = replicate 32 7, mc_key_length = 16\<rparr>"

theorem channels_survive_restart_witness:
  "\<exists>b' b''. setChannel (demo_host [1]) demo_mesh_channel (demo_node [1]) = (ERROR_NONE, b') \<and>
     create True (demo_host [3]) (files b') [] = Some b'' \<and> channels b'' = channels b' \<and>
     (\<exists>ch \<in> set (channels b''). ch_index ch = 1)"
proof -
  let ?b = "demo_node [1]"
  obtain b' where b': "setChannel (demo_host [1]) demo_mesh_channel ?b = (ERROR_NONE, b')"
    by (simp add: setChannel_def demo_mesh_channel_def demo_node_fields size_defs)
  have "length (channels (addChannel (demo_host [1]) i name key ?b)) \<le> 2" for i name key
    using addChannel_length [of "demo_host [1]" i name key ?b] by (simp add: demo_node_fields)
  then have "length (channels b') \<le> 2" using b'
    by (auto simp: setChannel_def demo_mesh_channel_def backend_frame demo_node_fields split: if_splits)
  then have n: "49 * length (channels b') \<le> 10000" by linarith
  obtain b'' where b'': "create True (demo_host [3]) (files b') [] = Some b''" by (simp add: create_def)
  have paths: "data_path (demo_host [1]) ''channels.bin'' = Some ''channels.bin''"
    "data_path (demo_host [3]) ''channels.bin'' = Some ''channels.bin''"
    "data_path (demo_host [3]) ''identity.bin'' \<noteq> Some ''channels.bin''" by simp_all
  have key: "length (mc_key demo_mesh_channel) = 32" by (simp add: demo_mesh_channel_def)
  note channels_survive_restart [OF demo_crypto_laws(1) demo_node_reachable demo_host_sel(1) demo_host_sel(1) [of "[3]"] key b'
      paths(1) demo_host_sel(4) n paths(2) demo_host_sel(3) n paths(3) b'']
  with b' b'' show ?thesis by (auto simp: demo_mesh_channel_def)
qed

end
