(* ===== verification/Mesh_Message.thy ===== *)
theory Mesh_Message
  imports Mesh_Host
begin

text \<open>
  The messages of the mesh service (\<open>struct MeshMessage\<close> of \<open>Modules/mesh-module/include/mesh/mesh.h\<close>) and
  their bytes in the message log (\<open>Writer\<close>, \<open>Reader\<close>, \<open>serializeMessage\<close> and \<open>deserializeMessage\<close> of
  \<open>Modules/mesh-module/source/mesh_store.cpp\<close>). Enumerations that the log holds as a byte are that byte, since
  the reader casts any byte to them; a \<open>float\<close> is its 32 bits.
\<close>

section \<open>Messages\<close>

definition MESH_BACKEND_ID_MAX_LENGTH :: nat where "MESH_BACKEND_ID_MAX_LENGTH = 15"
definition MESH_ADDRESS_MAX_LENGTH :: nat where "MESH_ADDRESS_MAX_LENGTH = 32"
definition MESH_TEXT_MAX_LENGTH :: nat where "MESH_TEXT_MAX_LENGTH = 200"

named_theorems mesh_sizes \<open>the sizes of the mesh module\<close>

lemmas [mesh_sizes] = MESH_BACKEND_ID_MAX_LENGTH_def MESH_ADDRESS_MAX_LENGTH_def MESH_TEXT_MAX_LENGTH_def MESH_NAME_MAX_LENGTH_def

fun delivery_code :: "MeshDeliveryState \<Rightarrow> byte" where
  "delivery_code DELIVERY_RECEIVED = 0"
| "delivery_code DELIVERY_QUEUED = 1"
| "delivery_code DELIVERY_BLOCKED = 2"
| "delivery_code DELIVERY_SENT = 3"
| "delivery_code DELIVERY_DELIVERED = 4"
| "delivery_code DELIVERY_FAILED = 5"
| "delivery_code DELIVERY_CANCELLED = 6"

record MeshMessage =
  m_seq :: "32 word"
  m_backend :: "byte list"
  m_outgoing :: bool
  m_delivery :: byte
  m_peer :: MeshAddress
  m_channel :: byte
  m_sender_name :: "byte list"
  m_wall_time :: "64 word"
  m_time_source :: byte
  m_uptime_ms :: "64 word"
  m_rssi :: "32 word"
  m_snr :: "32 word"
  m_text :: "byte list"

definition MeshMessage_init :: MeshMessage where
  "MeshMessage_init = \<lparr>m_seq = 0, m_backend = replicate (MESH_BACKEND_ID_MAX_LENGTH + 1) 0, m_outgoing = False, m_delivery = 0,
     m_peer = \<lparr>addr_length = 0, addr_bytes = replicate MESH_ADDRESS_MAX_LENGTH 0\<rparr>, m_channel = 0,
     m_sender_name = replicate (MESH_NAME_MAX_LENGTH + 1) 0, m_wall_time = 0, m_time_source = 0, m_uptime_ms = 0, m_rssi = 0, m_snr = 0,
     m_text = replicate (MESH_TEXT_MAX_LENGTH + 1) 0\<rparr>"

section \<open>Writing\<close>

text \<open>\<open>w_data\<close>: what was written to the buffer so far.\<close>

record Writer =
  w_data :: "byte list"
  w_capacity :: nat
  w_position :: nat

definition Writer_new :: "nat \<Rightarrow> Writer" where
  "Writer_new n = \<lparr>w_data = [], w_capacity = n, w_position = 0\<rparr>"

definition w_bytes :: "byte list \<Rightarrow> Writer \<Rightarrow> Writer" where
  "w_bytes source w = (if w_position w + length source \<le> w_capacity w then w\<lparr>w_data := w_data w @ source\<rparr> else w)
     \<lparr>w_position := w_position w + length source\<rparr>"

definition w_u8 :: "byte \<Rightarrow> Writer \<Rightarrow> Writer" where
  "w_u8 v = w_bytes [v]"

definition w_u32 :: "32 word \<Rightarrow> Writer \<Rightarrow> Writer" where
  "w_u32 v = w_bytes (le32 v)"

definition w_u64 :: "64 word \<Rightarrow> Writer \<Rightarrow> Writer" where
  "w_u64 v w = w_u32 (ucast (drop_bit 32 v)) (w_u32 (ucast v) w)"

definition w_string :: "byte list \<Rightarrow> nat \<Rightarrow> Writer \<Rightarrow> Writer" where
  "w_string value maxLength w =
     (let len = length (c_string (take maxLength value)) in w_bytes (take len value) (w_u8 (of_nat len) w))"

definition w_overflowed :: "Writer \<Rightarrow> bool" where
  "w_overflowed w \<longleftrightarrow> w_position w > w_capacity w"

text \<open>The payload; an empty one for a length of 0.\<close>

definition serializeMessage :: "MeshMessage \<Rightarrow> nat \<Rightarrow> byte list" where
  "serializeMessage m capacity =
     (let w = Writer_new capacity;
          w = w_u32 (m_seq m) w;
          w = w_string (m_backend m) MESH_BACKEND_ID_MAX_LENGTH w;
          w = w_u8 (if m_outgoing m then 1 else 0) w;
          w = w_u8 (m_delivery m) w;
          w = w_u8 (addr_length (m_peer m)) w;
          w = w_bytes (take (min (unat (addr_length (m_peer m))) MESH_ADDRESS_MAX_LENGTH) (addr_bytes (m_peer m))) w;
          w = w_u8 (m_channel m) w;
          w = w_string (m_sender_name m) MESH_NAME_MAX_LENGTH w;
          w = w_u64 (m_wall_time m) w;
          w = w_u8 (m_time_source m) w;
          w = w_u64 (m_uptime_ms m) w;
          w = w_u32 (m_rssi m) w;
          w = w_u32 (m_snr m) w;
          w = w_string (m_text m) MESH_TEXT_MAX_LENGTH w in
      if w_overflowed w then [] else w_data w)"

section \<open>Reading\<close>

record Reader =
  r_data :: "byte list"
  r_position :: nat
  r_failed :: bool

definition Reader_new :: "byte list \<Rightarrow> Reader" where
  "Reader_new bs = \<lparr>r_data = bs, r_position = 0, r_failed = False\<rparr>"

definition r_bytes :: "nat \<Rightarrow> Reader \<Rightarrow> byte list \<times> Reader" where
  "r_bytes n r =
     (if r_position r + n > length (r_data r) then (replicate n 0, r\<lparr>r_failed := True\<rparr>)
      else (take n (drop (r_position r) (r_data r)), r\<lparr>r_position := r_position r + n\<rparr>))"

definition r_u8 :: "Reader \<Rightarrow> byte \<times> Reader" where
  "r_u8 r = (case r_bytes 1 r of (bs, r) \<Rightarrow> (bs ! 0, r))"

definition r_u32 :: "Reader \<Rightarrow> 32 word \<times> Reader" where
  "r_u32 r = (case r_bytes 4 r of (bs, r) \<Rightarrow> (from_le32 (bs ! 0) (bs ! 1) (bs ! 2) (bs ! 3), r))"

definition r_u64 :: "Reader \<Rightarrow> 64 word \<times> Reader" where
  "r_u64 r = (case r_u32 r of (low, r) \<Rightarrow> case r_u32 r of (high, r) \<Rightarrow> (ucast low OR push_bit 32 (ucast high), r))"

text \<open>Into an array of \<open>maxLength + 1\<close> zeros.\<close>

definition r_string :: "nat \<Rightarrow> Reader \<Rightarrow> byte list \<times> Reader" where
  "r_string maxLength r = (case r_u8 r of (len, r) \<Rightarrow>
     if unat len > maxLength then (replicate (maxLength + 1) 0, r\<lparr>r_failed := True\<rparr>)
     else case r_bytes (unat len) r of (bs, r) \<Rightarrow> (bs @ replicate (maxLength + 1 - unat len) 0, r))"

text \<open>Whether the message was read, and what was read of it.\<close>

definition deserializeMessage :: "byte list \<Rightarrow> bool \<times> MeshMessage" where
  "deserializeMessage bs = (let m = MeshMessage_init in
     case r_u32 (Reader_new bs) of (x, r) \<Rightarrow> let m = m\<lparr>m_seq := x\<rparr> in
     case r_string MESH_BACKEND_ID_MAX_LENGTH r of (x, r) \<Rightarrow> let m = m\<lparr>m_backend := x\<rparr> in
     case r_u8 r of (x, r) \<Rightarrow> let m = m\<lparr>m_outgoing := x \<noteq> 0\<rparr> in
     case r_u8 r of (x, r) \<Rightarrow> let m = m\<lparr>m_delivery := x\<rparr> in
     case r_u8 r of (len, r) \<Rightarrow>
     if unat len > MESH_ADDRESS_MAX_LENGTH then (False, m\<lparr>m_peer := (m_peer m)\<lparr>addr_length := len\<rparr>\<rparr>) else
     case r_bytes (unat len) r of (x, r) \<Rightarrow>
       let m = m\<lparr>m_peer := \<lparr>addr_length = len, addr_bytes = x @ replicate (MESH_ADDRESS_MAX_LENGTH - unat len) 0\<rparr>\<rparr> in
     case r_u8 r of (x, r) \<Rightarrow> let m = m\<lparr>m_channel := x\<rparr> in
     case r_string MESH_NAME_MAX_LENGTH r of (x, r) \<Rightarrow> let m = m\<lparr>m_sender_name := x\<rparr> in
     case r_u64 r of (x, r) \<Rightarrow> let m = m\<lparr>m_wall_time := x\<rparr> in
     case r_u8 r of (x, r) \<Rightarrow> let m = m\<lparr>m_time_source := x\<rparr> in
     case r_u64 r of (x, r) \<Rightarrow> let m = m\<lparr>m_uptime_ms := x\<rparr> in
     case r_u32 r of (x, r) \<Rightarrow> let m = m\<lparr>m_rssi := x\<rparr> in
     case r_u32 r of (x, r) \<Rightarrow> let m = m\<lparr>m_snr := x\<rparr> in
     case r_string MESH_TEXT_MAX_LENGTH r of (x, r) \<Rightarrow> let m = m\<lparr>m_text := x\<rparr> in
     (\<not> r_failed r, m))"

section \<open>What is written is read back\<close>

text \<open>A message as it comes back: nothing behind the ends of strings and address.\<close>

definition string_array :: "nat \<Rightarrow> byte list \<Rightarrow> byte list" where
  "string_array n s = (let s = c_string (take n s) in s @ replicate (n + 1 - length s) 0)"

definition canonical :: "MeshMessage \<Rightarrow> MeshMessage" where
  "canonical m = m\<lparr>m_backend := string_array MESH_BACKEND_ID_MAX_LENGTH (m_backend m),
     m_peer := \<lparr>addr_length = addr_length (m_peer m), addr_bytes = take (unat (addr_length (m_peer m))) (addr_bytes (m_peer m)) @
       replicate (MESH_ADDRESS_MAX_LENGTH - unat (addr_length (m_peer m))) 0\<rparr>,
     m_sender_name := string_array MESH_NAME_MAX_LENGTH (m_sender_name m),
     m_text := string_array MESH_TEXT_MAX_LENGTH (m_text m)\<rparr>"

text \<open>The arrays have the sizes of the struct, and the address is one.\<close>

definition message_wf :: "MeshMessage \<Rightarrow> bool" where
  "message_wf m \<longleftrightarrow> length (m_backend m) = MESH_BACKEND_ID_MAX_LENGTH + 1 \<and> length (m_sender_name m) = MESH_NAME_MAX_LENGTH + 1 \<and>
     length (m_text m) = MESH_TEXT_MAX_LENGTH + 1 \<and> length (addr_bytes (m_peer m)) = MESH_ADDRESS_MAX_LENGTH \<and>
     unat (addr_length (m_peer m)) \<le> MESH_ADDRESS_MAX_LENGTH"

definition string_bytes :: "nat \<Rightarrow> byte list \<Rightarrow> byte list" where
  "string_bytes n s = (let s = c_string (take n s) in of_nat (length s) # s)"

definition u64_bytes :: "64 word \<Rightarrow> byte list" where
  "u64_bytes v = le32 (ucast v) @ le32 (ucast (drop_bit 32 v))"

text \<open>The bytes of a message, one part per line of \<open>serializeMessage\<close>.\<close>

definition message_bytes :: "MeshMessage \<Rightarrow> byte list" where
  "message_bytes m = le32 (m_seq m) @ string_bytes MESH_BACKEND_ID_MAX_LENGTH (m_backend m) @ [if m_outgoing m then 1 else 0] @ [m_delivery m] @
     [addr_length (m_peer m)] @ take (min (unat (addr_length (m_peer m))) MESH_ADDRESS_MAX_LENGTH) (addr_bytes (m_peer m)) @ [m_channel m] @
     string_bytes MESH_NAME_MAX_LENGTH (m_sender_name m) @ u64_bytes (m_wall_time m) @ [m_time_source m] @ u64_bytes (m_uptime_ms m) @
     le32 (m_rssi m) @ le32 (m_snr m) @ string_bytes MESH_TEXT_MAX_LENGTH (m_text m)"

text \<open>A step that writes the bytes if they fit.\<close>

definition writes :: "(Writer \<Rightarrow> Writer) \<Rightarrow> byte list \<Rightarrow> bool" where
  "writes f bs \<longleftrightarrow> (\<forall>w. w_position w + length bs \<le> w_capacity w \<longrightarrow>
     f w = w\<lparr>w_data := w_data w @ bs, w_position := w_position w + length bs\<rparr>)"

lemma writes_comp: "writes f xs \<Longrightarrow> writes g ys \<Longrightarrow> writes (\<lambda>w. g (f w)) (xs @ ys)"
  by (simp add: writes_def)

lemma writes_bytes: "writes (w_bytes bs) bs"
  by (simp add: writes_def w_bytes_def)

lemma writes_u8: "writes (w_u8 v) [v]" unfolding w_u8_def by (rule writes_bytes)

lemma writes_u32: "writes (w_u32 v) (le32 v)" unfolding w_u32_def by (rule writes_bytes)

lemma writes_u64: "writes (w_u64 v) (u64_bytes v)"
  unfolding w_u64_def u64_bytes_def by (rule writes_comp [OF writes_u32 writes_u32])

lemma take_c_string: "take (length (c_string (take n s))) s = c_string (take n s)"
proof -
  have "take (length (c_string (take n s))) (take n s) = c_string (take n s)"
    by (simp only: c_string_def takeWhile_eq_take [symmetric])
  moreover have "length (c_string (take n s)) \<le> n" using c_string_length [of "take n s"] by simp
  ultimately show ?thesis by (simp add: take_take min_absorb1)
qed

lemma writes_string: "writes (w_string s n) (string_bytes n s)"
proof -
  have "writes (\<lambda>w. w_bytes (take (length (c_string (take n s))) s) (w_u8 (of_nat (length (c_string (take n s)))) w))
    ([of_nat (length (c_string (take n s)))] @ c_string (take n s))"
    using writes_comp [OF writes_u8 writes_bytes] take_c_string [of n s] by metis
  then show ?thesis by (simp add: w_string_def [abs_def] string_bytes_def Let_def)
qed

lemma string_bytes_length: "length (string_bytes n s) \<le> n + 1"
  using c_string_length [of "take n s"] by (simp add: string_bytes_def Let_def)

lemma message_bytes_length: "4 \<le> length (message_bytes m)" "length (message_bytes m) \<le> 314"
  using string_bytes_length [of 15 "m_backend m"] string_bytes_length [of 31 "m_sender_name m"] string_bytes_length [of 200 "m_text m"]
  by (simp_all add: message_bytes_def u64_bytes_def mesh_sizes)

lemma serialize_message:
  assumes "314 \<le> capacity"
  shows "serializeMessage m capacity = message_bytes m"
proof -
  have "writes (\<lambda>w. w_string (m_text m) MESH_TEXT_MAX_LENGTH (w_u32 (m_snr m) (w_u32 (m_rssi m) (w_u64 (m_uptime_ms m)
      (w_u8 (m_time_source m) (w_u64 (m_wall_time m) (w_string (m_sender_name m) MESH_NAME_MAX_LENGTH (w_u8 (m_channel m)
      (w_bytes (take (min (unat (addr_length (m_peer m))) MESH_ADDRESS_MAX_LENGTH) (addr_bytes (m_peer m)))
      (w_u8 (addr_length (m_peer m)) (w_u8 (m_delivery m) (w_u8 (if m_outgoing m then 1 else 0)
      (w_string (m_backend m) MESH_BACKEND_ID_MAX_LENGTH (w_u32 (m_seq m) w)))))))))))))) (message_bytes m)" (is "writes ?f _")
    unfolding message_bytes_def append_assoc [symmetric]
    by (rule writes_comp [OF writes_comp [OF
        writes_comp [OF writes_comp [OF writes_comp [OF writes_comp [OF writes_comp [OF writes_comp [OF writes_comp [OF writes_comp [OF writes_comp [OF writes_comp [OF writes_comp [OF writes_u32 writes_string] writes_u8] writes_u8] writes_u8] writes_bytes] writes_u8] writes_string] writes_u64] writes_u8] writes_u64] writes_u32] writes_u32] writes_string])
  then have "?f (Writer_new capacity) = (Writer_new capacity)\<lparr>w_data := message_bytes m, w_position := length (message_bytes m)\<rparr>"
    using assms message_bytes_length(2) [of m] by (simp add: writes_def Writer_new_def)
  then show ?thesis
    unfolding serializeMessage_def Let_def using assms message_bytes_length(2) [of m]
    by (simp add: w_overflowed_def Writer_new_def)
qed

text \<open>A reader that has read \<open>d\<close> and not \<open>rest\<close>.\<close>

definition reading :: "byte list \<Rightarrow> byte list \<Rightarrow> Reader" where
  "reading d rest = \<lparr>r_data = d @ rest, r_position = length d, r_failed = False\<rparr>"

lemma reading_ok: "\<not> r_failed (reading d rest)"
  by (simp add: reading_def)

lemma Reader_new_reading: "Reader_new bs = reading [] bs"
  by (simp add: Reader_new_def reading_def)

lemma r_bytes_reading: "length bs = n \<Longrightarrow> r_bytes n (reading d (bs @ rest)) = (bs, reading (d @ bs) rest)"
  by (simp add: r_bytes_def reading_def)

lemma r_u8_reading: "r_u8 (reading d (v # rest)) = (v, reading (d @ [v]) rest)"
  using r_bytes_reading [of "[v]" 1 d rest] by (simp add: r_u8_def)

lemma r_u32_reading: "r_u32 (reading d (le32 v @ rest)) = (v, reading (d @ le32 v) rest)"
  using r_bytes_reading [of "le32 v" 4 d rest] by (simp add: r_u32_def le32_unfold from_le32_le32)

lemma u64_halves: "ucast (ucast v :: 32 word) OR push_bit 32 (ucast (ucast (drop_bit 32 v) :: 32 word)) = (v :: 64 word)"
  by (rule bit_word_eqI) (auto simp: bit_simps)

lemma r_u64_reading: "r_u64 (reading d (u64_bytes v @ rest)) = (v, reading (d @ u64_bytes v) rest)"
  by (simp add: r_u64_def u64_bytes_def r_u32_reading u64_halves)

lemma r_string_reading:
  assumes "n < 256"
  shows "r_string n (reading d (string_bytes n s @ rest)) = (string_array n s, reading (d @ string_bytes n s) rest)"
proof -
  have len: "length (c_string (take n s)) \<le> n" using c_string_length [of "take n s"] by simp
  then have u: "unat (of_nat (length (c_string (take n s))) :: byte) = length (c_string (take n s))"
    using assms by (simp add: unsigned_of_nat take_bit_nat_eq_self)
  have "r_bytes (length (c_string (take n s))) (reading (d @ [of_nat (length (c_string (take n s)))]) (c_string (take n s) @ rest)) =
    (c_string (take n s), reading ((d @ [of_nat (length (c_string (take n s)))]) @ c_string (take n s)) rest)"
    by (rule r_bytes_reading) simp
  with len u show ?thesis by (simp add: r_string_def string_bytes_def string_array_def Let_def r_u8_reading)
qed

lemma deserialize_message:
  assumes "unat (addr_length (m_peer m)) \<le> 32" "length (addr_bytes (m_peer m)) = 32"
  shows "deserializeMessage (message_bytes m) = (True, canonical m)"
proof -
  let ?a = "take (unat (addr_length (m_peer m))) (addr_bytes (m_peer m))"
  have a: "min (unat (addr_length (m_peer m))) MESH_ADDRESS_MAX_LENGTH = unat (addr_length (m_peer m))" "length ?a = unat (addr_length (m_peer m))"
    using assms by (simp_all add: mesh_sizes)
  have peer: "r_bytes (unat (addr_length (m_peer m))) (reading d (?a @ rest)) = (?a, reading (d @ ?a) rest)" for d rest
    by (rule r_bytes_reading [OF a(2)])
  have t: "r_string 200 (reading d (string_bytes 200 s)) = (string_array 200 s, reading (d @ string_bytes 200 s) [])" for d s
    using r_string_reading [of 200 d s "[]"] by simp
  show ?thesis
    using assms(1)
    by (simp add: deserializeMessage_def message_bytes_def a(1) Reader_new_reading r_u32_reading r_string_reading r_u8_reading
        peer r_u64_reading mesh_sizes t canonical_def MeshMessage_init_def reading_ok)
qed

end
