(* ===== verification/Mesh_Store.thy ===== *)
theory Mesh_Store
  imports Mesh_Message Decimal
begin

text \<open>
  The message log of the mesh service (\<open>Modules/mesh-module/source/mesh_store.cpp\<close>): messages and
  changes of their delivery state are appended as records to a buffer in memory, which is flushed to numbered
  segment files; an index in memory says where each message is; opening the log scans the segments.

  Files are a map from paths to bytes. What the file system answers during a call is the record \<open>store_io\<close>:
  the width of \<open>long\<close>, the directory and its listing, the allocation of the buffer, and how many bytes can be read from or appended to a
  file (\<open>None\<close>: it cannot be opened). A result \<open>None\<close> is an access outside of an array or vector.
\<close>

section \<open>State\<close>

record Limits =
  bufferSize :: nat
  segmentSize :: nat
  segmentCount :: nat

record IndexEntry =
  e_seq :: "32 word"
  e_segment :: "32 word"
  e_offset :: "32 word"
  e_delivery :: byte
  e_channel :: byte
  e_peerHash :: "32 word"

text \<open>\<open>buffer\<close>: the used part of the buffer, \<open>None\<close> for a null pointer.\<close>

record MeshStore =
  limits :: Limits
  directory :: string
  buffer :: "byte list option"
  index :: "IndexEntry list"
  segments :: "32 word list"
  currentSegmentSize :: "32 word"
  nextSeq :: "32 word"
  firstPendingMs :: "64 word"

type_synonym disk = "string \<Rightarrow> byte list option"

record store_io =
  long_bits :: nat
  made :: error_t
  memory :: bool
  listing :: "string list option"
  readable_bytes :: "string \<Rightarrow> nat option"
  appendable_bytes :: "string \<Rightarrow> nat option"
  stat_works :: "string \<Rightarrow> bool"
  remove_works :: "string \<Rightarrow> bool"

definition RECORD_MAGIC_0 :: byte where "RECORD_MAGIC_0 = 0x4D"
definition RECORD_MAGIC_1 :: byte where "RECORD_MAGIC_1 = 0x53"
definition RECORD_HEADER_SIZE :: nat where "RECORD_HEADER_SIZE = 6"
definition RECORD_TYPE_MESSAGE :: byte where "RECORD_TYPE_MESSAGE = 1"
definition RECORD_TYPE_DELIVERY :: byte where "RECORD_TYPE_DELIVERY = 2"
definition MESSAGE_PAYLOAD_MAX_SIZE :: nat where "MESSAGE_PAYLOAD_MAX_SIZE = 512"
definition SEGMENT_PREFIX :: string where "SEGMENT_PREFIX = ''seg-''"
definition SEGMENT_SUFFIX :: string where "SEGMENT_SUFFIX = ''.log''"
definition PENDING :: "32 word" where "PENDING = - 1"

lemmas [mesh_sizes] = RECORD_HEADER_SIZE_def MESSAGE_PAYLOAD_MAX_SIZE_def

definition MeshStore_new :: "Limits \<Rightarrow> MeshStore" where
  "MeshStore_new l = \<lparr>limits = l, directory = '''', buffer = None, index = [], segments = [], currentSegmentSize = 0, nextSeq = 1, firstPendingMs = 0\<rparr>"

definition bufferUsed :: "MeshStore \<Rightarrow> nat" where
  "bufferUsed s = (case buffer s of None \<Rightarrow> 0 | Some b \<Rightarrow> length b)"

section \<open>Paths and addresses\<close>

definition getSegmentPath :: "string \<Rightarrow> 32 word \<Rightarrow> string" where
  "getSegmentPath dir n =
     (let ds = decimal (unat n) in dir @ ''/'' @ SEGMENT_PREFIX @ replicate (8 - length ds) (CHR ''0'') @ ds @ SEGMENT_SUFFIX)"

definition segment_of_name :: "nat \<Rightarrow> string \<Rightarrow> 32 word" where
  "segment_of_name lb name = of_nat (strtoul lb (drop (length SEGMENT_PREFIX) name))"

definition is_segment_name :: "string \<Rightarrow> bool" where
  "is_segment_name name \<longleftrightarrow> take (length SEGMENT_PREFIX) name = SEGMENT_PREFIX \<and>
     list_ex (\<lambda>i. take (length SEGMENT_SUFFIX) (drop i name) = SEGMENT_SUFFIX) [0..<length name]"

definition isSameAddress :: "MeshAddress \<Rightarrow> MeshAddress \<Rightarrow> bool" where
  "isSameAddress a b \<longleftrightarrow> addr_length a = addr_length b \<and>
     take (unat (addr_length a)) (addr_bytes a) = take (unat (addr_length a)) (addr_bytes b)"

text \<open>\<open>None\<close>: the length of the address is more than its bytes.\<close>

definition hashPeer :: "MeshAddress \<Rightarrow> 32 word option" where
  "hashPeer a =
     (if addr_length a = 0 then Some 0
      else if unat (addr_length a) > length (addr_bytes a) then None
      else Some (fold (\<lambda>x h. (h XOR ucast x) * 16777619) (take (unat (addr_length a)) (addr_bytes a)) 2166136261 OR 1))"

text \<open>\<open>strncmp(a, b, MESH_BACKEND_ID_MAX_LENGTH) == 0\<close>\<close>

definition same_backend :: "byte list \<Rightarrow> byte list \<Rightarrow> bool" where
  "same_backend a b \<longleftrightarrow> c_string (take MESH_BACKEND_ID_MAX_LENGTH a) = c_string (take MESH_BACKEND_ID_MAX_LENGTH b)"

section \<open>The index\<close>

text \<open>The halving search of \<open>std::lower_bound\<close> in \<open>len\<close> elements from \<open>first\<close>.\<close>

function lower_bound :: "('a \<Rightarrow> bool) \<Rightarrow> 'a list \<Rightarrow> nat \<Rightarrow> nat \<Rightarrow> nat" where
  "lower_bound below xs first len =
     (if len = 0 then first
      else if below (xs ! (first + len div 2)) then lower_bound below xs (first + len div 2 + 1) (len - len div 2 - 1)
      else lower_bound below xs first (len div 2))"
  by auto
termination by (relation "measure (\<lambda>(below, xs, first, len). len)") auto

declare lower_bound.simps [simp del]

text \<open>The position of the entry.\<close>

definition findEntry :: "32 word \<Rightarrow> IndexEntry list \<Rightarrow> nat option" where
  "findEntry seq idx =
     (let i = lower_bound (\<lambda>e. e_seq e < seq) idx 0 (length idx) in
      if i < length idx \<and> e_seq (idx ! i) = seq then Some i else None)"

definition makeIndexEntry :: "MeshMessage \<Rightarrow> 32 word \<Rightarrow> 32 word \<Rightarrow> IndexEntry option" where
  "makeIndexEntry m segment off = do {
     h \<leftarrow> hashPeer (m_peer m);
     Some \<lparr>e_seq = m_seq m, e_segment = segment, e_offset = off, e_delivery = m_delivery m, e_channel = m_channel m, e_peerHash = h\<rparr> }"

section \<open>Scanning\<close>

definition applyRecord :: "byte \<Rightarrow> byte list \<Rightarrow> 32 word \<Rightarrow> 32 word \<Rightarrow> MeshStore \<Rightarrow> MeshStore option" where
  "applyRecord type bs segment off s =
     (if type = RECORD_TYPE_MESSAGE then
        (case deserializeMessage bs of (ok, m) \<Rightarrow>
           if \<not> ok then Some s
           else do {
             e \<leftarrow> makeIndexEntry m segment off;
             Some (s\<lparr>index := index s @ [e], nextSeq := max (nextSeq s) (m_seq m + 1)\<rparr>) })
      else if type = RECORD_TYPE_DELIVERY \<and> length bs \<ge> 5 then
        (case r_u32 (Reader_new bs) of (seq, r) \<Rightarrow> case findEntry seq (index s) of
           None \<Rightarrow> Some s
         | Some i \<Rightarrow> Some (s\<lparr>index := (index s)[i := (index s ! i)\<lparr>e_delivery := fst (r_u8 r)\<rparr>]\<rparr>))
      else Some s)"

definition record_length :: "byte list \<Rightarrow> nat" where
  "record_length header = unat (header ! 4) + 256 * unat (header ! 5)"

text \<open>The loop of \<open>scanSegment\<close> over the bytes of the file from \<open>off\<close> on; the result is the end of the last valid record.\<close>

function scan :: "byte list \<Rightarrow> 32 word \<Rightarrow> 32 word \<Rightarrow> MeshStore \<Rightarrow> (32 word \<times> MeshStore) option" where
  "scan bs segment off s =
     (if length bs < RECORD_HEADER_SIZE then Some (off, s)
      else let n = record_length bs in
        if bs ! 0 \<noteq> RECORD_MAGIC_0 \<or> bs ! 1 \<noteq> RECORD_MAGIC_1 \<or> n > MESSAGE_PAYLOAD_MAX_SIZE \<or> length bs < RECORD_HEADER_SIZE + n
        then Some (off, s)
        else case applyRecord (bs ! 2) (take n (drop RECORD_HEADER_SIZE bs)) segment off s of
            None \<Rightarrow> None
          | Some s \<Rightarrow> scan (drop (RECORD_HEADER_SIZE + n) bs) segment (off + of_nat (RECORD_HEADER_SIZE + n)) s)"
  by auto
termination by (relation "measure (\<lambda>(bs, segment, off, s). length bs)") (auto simp: RECORD_HEADER_SIZE_def)

declare scan.simps [simp del]

definition file_bytes :: "store_io \<Rightarrow> disk \<Rightarrow> string \<Rightarrow> byte list option" where
  "file_bytes io fs p = (case (readable_bytes io p, fs p) of (Some n, Some d) \<Rightarrow> Some (take n d) | _ \<Rightarrow> None)"

definition scanSegment :: "store_io \<Rightarrow> disk \<Rightarrow> 32 word \<Rightarrow> MeshStore \<Rightarrow> (32 word \<times> MeshStore) option" where
  "scanSegment io fs segment s = (case file_bytes io fs (getSegmentPath (directory s) segment) of
       None \<Rightarrow> Some (0, s)
     | Some bs \<Rightarrow> scan bs segment 0 s)"

section \<open>Writing\<close>

fun enforceBudget :: "store_io \<Rightarrow> 32 word list \<Rightarrow> MeshStore \<Rightarrow> disk \<Rightarrow> MeshStore \<times> disk" where
  "enforceBudget io [] s fs = (s\<lparr>segments := []\<rparr>, fs)"
| "enforceBudget io (oldest # segs) s fs =
     (if length (oldest # segs) > segmentCount (limits s) then
        let p = getSegmentPath (directory s) oldest in
        enforceBudget io segs (s\<lparr>index := filter (\<lambda>e. e_segment e \<noteq> oldest) (index s)\<rparr>) (if remove_works io p then fs(p := None) else fs)
      else (s\<lparr>segments := oldest # segs\<rparr>, fs))"

text \<open>A full segment is followed by a new one.\<close>

definition flush_segment :: "MeshStore \<Rightarrow> MeshStore" where
  "flush_segment s = (if unat (currentSegmentSize s) \<ge> segmentSize (limits s)
     then s\<lparr>segments := segments s @ [last (segments s) + 1], currentSegmentSize := 0\<rparr> else s)"

text \<open>A pending entry after the buffer went to the end of a segment of \<open>n\<close> bytes.\<close>

definition settle :: "32 word \<Rightarrow> 32 word \<Rightarrow> IndexEntry \<Rightarrow> IndexEntry" where
  "settle segment n e = (if e_segment e = PENDING then e\<lparr>e_segment := segment, e_offset := e_offset e + n\<rparr> else e)"

definition file_or_empty :: "disk \<Rightarrow> string \<Rightarrow> byte list" where
  "file_or_empty fs p = (case fs p of None \<Rightarrow> [] | Some d \<Rightarrow> d)"

definition flush :: "store_io \<Rightarrow> MeshStore \<Rightarrow> disk \<Rightarrow> (error_t \<times> MeshStore \<times> disk) option" where
  "flush io s fs = (case buffer s of
       None \<Rightarrow> Some (ERROR_NONE, s, fs)
     | Some buf \<Rightarrow>
         if buf = [] then Some (ERROR_NONE, s, fs)
         else if segments s = [] then None
         else let s = flush_segment s; segment = last (segments s); p = getSegmentPath (directory s) segment in
           (case appendable_bytes io p of
              None \<Rightarrow> Some (ERROR_RESOURCE, s, fs)
            | Some n \<Rightarrow>
                let fs = fs(p \<mapsto> file_or_empty fs p @ take n buf) in
                if n < length buf then Some (ERROR_RESOURCE, s\<lparr>currentSegmentSize := of_nat (segmentSize (limits s))\<rparr>, fs)
                else
                  let s = s\<lparr>index := map (settle segment (currentSegmentSize s)) (index s),
                        currentSegmentSize := currentSegmentSize s + of_nat (length buf), buffer := Some []\<rparr> in
                  (case enforceBudget io (segments s) s fs of (s, fs) \<Rightarrow> Some (ERROR_NONE, s, fs))))"

definition record_bytes :: "byte \<Rightarrow> byte list \<Rightarrow> byte list" where
  "record_bytes type bs = [RECORD_MAGIC_0, RECORD_MAGIC_1, type, 0, of_nat (length bs), of_nat (length bs div 256)] @ bs"

definition appendRecord :: "store_io \<Rightarrow> byte \<Rightarrow> byte list \<Rightarrow> MeshStore \<Rightarrow> disk \<Rightarrow> (error_t \<times> MeshStore \<times> disk) option" where
  "appendRecord io type bs s fs =
     (if buffer s = None then Some (ERROR_INVALID_STATE, s, fs)
      else do {
        let recordSize = RECORD_HEADER_SIZE + length bs;
        (e, s, fs) \<leftarrow> (if bufferUsed s + recordSize > bufferSize (limits s) then flush io s fs else Some (ERROR_NONE, s, fs));
        if e \<noteq> ERROR_NONE then Some (e, s, fs)
        else if bufferUsed s + recordSize > bufferSize (limits s) then None
        else do {
          idx \<leftarrow> (if type = RECORD_TYPE_MESSAGE
            then map_option (\<lambda>e. index s @ [e]) (makeIndexEntry (snd (deserializeMessage bs)) PENDING (of_nat (bufferUsed s)))
            else Some (index s));
          Some (ERROR_NONE, s\<lparr>index := idx, firstPendingMs := (if bufferUsed s = 0 then 0 else firstPendingMs s),
            buffer := map_option (\<lambda>b. b @ record_bytes type bs) (buffer s)\<rparr>, fs) } })"

text \<open>The message gets its sequence number, whatever the result.\<close>

definition MeshStore_add :: "store_io \<Rightarrow> MeshMessage \<Rightarrow> MeshStore \<Rightarrow> disk \<Rightarrow> (error_t \<times> MeshMessage \<times> MeshStore \<times> disk) option" where
  "MeshStore_add io m s fs =
     (let m = m\<lparr>m_seq := nextSeq s\<rparr>; s = s\<lparr>nextSeq := nextSeq s + 1\<rparr>; bs = serializeMessage m MESSAGE_PAYLOAD_MAX_SIZE in
      if bs = [] then Some (ERROR_BUFFER_OVERFLOW, m, s, fs)
      else do { (e, s, fs) \<leftarrow> appendRecord io RECORD_TYPE_MESSAGE bs s fs; Some (e, m, s, fs) })"

definition MeshStore_setDelivery :: "store_io \<Rightarrow> 32 word \<Rightarrow> byte \<Rightarrow> MeshStore \<Rightarrow> disk \<Rightarrow> (error_t \<times> MeshStore \<times> disk) option" where
  "MeshStore_setDelivery io seq delivery s fs = (case findEntry seq (index s) of
       None \<Rightarrow> Some (ERROR_NOT_FOUND, s, fs)
     | Some i \<Rightarrow> appendRecord io RECORD_TYPE_DELIVERY (le32 seq @ [delivery])
         (s\<lparr>index := (index s)[i := (index s ! i)\<lparr>e_delivery := delivery\<rparr>]\<rparr>) fs)"

definition flushIfNeeded :: "store_io \<Rightarrow> 64 word \<Rightarrow> 64 word \<Rightarrow> MeshStore \<Rightarrow> disk \<Rightarrow> (MeshStore \<times> disk) option" where
  "flushIfNeeded io nowMs maxAgeMs s fs =
     (if bufferUsed s = 0 then Some (s, fs)
      else let s = (if firstPendingMs s = 0 then s\<lparr>firstPendingMs := nowMs\<rparr> else s) in
        if bufferUsed s * 4 \<ge> bufferSize (limits s) * 3 \<or> nowMs - firstPendingMs s \<ge> maxAgeMs
        then map_option snd (flush io s fs) else Some (s, fs))"

section \<open>Reading\<close>

definition readEntry :: "store_io \<Rightarrow> MeshStore \<Rightarrow> disk \<Rightarrow> IndexEntry \<Rightarrow> (error_t \<times> MeshMessage) option" where
  "readEntry io s fs e = do {
     bs \<leftarrow> (if e_segment e = PENDING then do {
           buf \<leftarrow> buffer s;
           let r = drop (unat (e_offset e)) buf;
           if length r < RECORD_HEADER_SIZE \<or> length r < RECORD_HEADER_SIZE + record_length r \<or> record_length r > MESSAGE_PAYLOAD_MAX_SIZE then None
           else Some (Some (take (record_length r) (drop RECORD_HEADER_SIZE r))) }
         else Some (do {
           d \<leftarrow> file_bytes io fs (getSegmentPath (directory s) (e_segment e));
           let r = drop (unat (e_offset e)) d;
           if length r < RECORD_HEADER_SIZE \<or> record_length r > MESSAGE_PAYLOAD_MAX_SIZE \<or> length r < RECORD_HEADER_SIZE + record_length r then None
           else Some (take (record_length r) (drop RECORD_HEADER_SIZE r)) }));
     Some (case bs of
         None \<Rightarrow> (ERROR_RESOURCE, MeshMessage_init)
       | Some bs \<Rightarrow> (case deserializeMessage bs of (ok, m) \<Rightarrow>
           if \<not> ok then (ERROR_RESOURCE, m) else (ERROR_NONE, m\<lparr>m_delivery := e_delivery e\<rparr>))) }"

definition MeshStore_get :: "store_io \<Rightarrow> 32 word \<Rightarrow> MeshStore \<Rightarrow> disk \<Rightarrow> (error_t \<times> MeshMessage) option" where
  "MeshStore_get io seq s fs = (case findEntry seq (index s) of
       None \<Rightarrow> Some (ERROR_NOT_FOUND, MeshMessage_init)
     | Some i \<Rightarrow> readEntry io s fs (index s ! i))"

text \<open>The loop of \<open>getConversation\<close> over the index from its end, for at most \<open>n\<close> more messages.\<close>

fun conversation_loop :: "store_io \<Rightarrow> MeshStore \<Rightarrow> disk \<Rightarrow> byte list \<Rightarrow> MeshAddress option \<Rightarrow> 32 word \<Rightarrow> byte \<Rightarrow> 32 word \<Rightarrow> nat
    \<Rightarrow> IndexEntry list \<Rightarrow> MeshMessage list option" where
  "conversation_loop io s fs backend peer peerHash channel beforeSeq n [] = Some []"
| "conversation_loop io s fs backend peer peerHash channel beforeSeq n (e # es) =
     (if n = 0 then Some []
      else if beforeSeq \<noteq> 0 \<and> e_seq e \<ge> beforeSeq then conversation_loop io s fs backend peer peerHash channel beforeSeq n es
      else if e_peerHash e \<noteq> peerHash \<or> peer = None \<and> e_channel e \<noteq> channel
      then conversation_loop io s fs backend peer peerHash channel beforeSeq n es
      else do {
        (err, m) \<leftarrow> readEntry io s fs e;
        if err \<noteq> ERROR_NONE \<or> \<not> same_backend (m_backend m) backend
        then conversation_loop io s fs backend peer peerHash channel beforeSeq n es
        else if (case peer of Some a \<Rightarrow> \<not> isSameAddress (m_peer m) a | None \<Rightarrow> addr_length (m_peer m) \<noteq> 0)
        then conversation_loop io s fs backend peer peerHash channel beforeSeq n es
        else do { ms \<leftarrow> conversation_loop io s fs backend peer peerHash channel beforeSeq (n - 1) es; Some (m # ms) } })"

definition getConversation :: "store_io \<Rightarrow> byte list \<Rightarrow> MeshAddress option \<Rightarrow> byte \<Rightarrow> 32 word \<Rightarrow> nat \<Rightarrow> MeshStore \<Rightarrow> disk \<Rightarrow> MeshMessage list option" where
  "getConversation io backend peer channel beforeSeq maxCount s fs = do {
     peerHash \<leftarrow> (case peer of None \<Rightarrow> Some 0 | Some a \<Rightarrow> hashPeer a);
     conversation_loop io s fs backend peer peerHash channel beforeSeq maxCount (rev (index s)) }"

fun history_loop :: "store_io \<Rightarrow> MeshStore \<Rightarrow> disk \<Rightarrow> 32 word \<Rightarrow> nat \<Rightarrow> IndexEntry list \<Rightarrow> MeshMessage list option" where
  "history_loop io s fs beforeSeq n [] = Some []"
| "history_loop io s fs beforeSeq n (e # es) =
     (if n = 0 then Some []
      else if beforeSeq \<noteq> 0 \<and> e_seq e \<ge> beforeSeq then history_loop io s fs beforeSeq n es
      else do {
        (err, m) \<leftarrow> readEntry io s fs e;
        if err = ERROR_NONE then do { ms \<leftarrow> history_loop io s fs beforeSeq (n - 1) es; Some (m # ms) }
        else history_loop io s fs beforeSeq n es })"

definition getHistory :: "store_io \<Rightarrow> 32 word \<Rightarrow> nat \<Rightarrow> MeshStore \<Rightarrow> disk \<Rightarrow> MeshMessage list option" where
  "getHistory io beforeSeq maxCount s fs = history_loop io s fs beforeSeq maxCount (rev (index s))"

fun outgoing_loop :: "store_io \<Rightarrow> MeshStore \<Rightarrow> disk \<Rightarrow> byte list \<Rightarrow> byte \<Rightarrow> IndexEntry list \<Rightarrow> 32 word list option" where
  "outgoing_loop io s fs backend delivery [] = Some []"
| "outgoing_loop io s fs backend delivery (e # es) =
     (if e_delivery e \<noteq> delivery then outgoing_loop io s fs backend delivery es
      else do {
        (err, m) \<leftarrow> readEntry io s fs e;
        seqs \<leftarrow> outgoing_loop io s fs backend delivery es;
        Some (if err = ERROR_NONE \<and> m_outgoing m \<and> same_backend (m_backend m) backend then e_seq e # seqs else seqs) })"

definition findOutgoing :: "store_io \<Rightarrow> byte list \<Rightarrow> byte \<Rightarrow> MeshStore \<Rightarrow> disk \<Rightarrow> 32 word list option" where
  "findOutgoing io backend delivery s fs = outgoing_loop io s fs backend delivery (index s)"

definition getMessageCount :: "MeshStore \<Rightarrow> nat" where
  "getMessageCount s = length (index s)"

section \<open>Opening and closing\<close>

definition MeshStore_close :: "store_io \<Rightarrow> MeshStore \<Rightarrow> disk \<Rightarrow> (MeshStore \<times> disk) option" where
  "MeshStore_close io s fs = do {
     (s, fs) \<leftarrow> (if buffer s = None then Some (s, fs)
        else do { (_, s, fs) \<leftarrow> flush io s fs; Some (s\<lparr>buffer := None\<rparr>, fs) });
     Some (s\<lparr>index := [], segments := [], currentSegmentSize := 0, nextSeq := 1\<rparr>, fs) }"

fun scan_segments :: "store_io \<Rightarrow> disk \<Rightarrow> 32 word list \<Rightarrow> 32 word \<Rightarrow> MeshStore \<Rightarrow> (32 word \<times> MeshStore) option" where
  "scan_segments io fs [] lastValidEnd s = Some (lastValidEnd, s)"
| "scan_segments io fs (segment # segs) lastValidEnd s = do {
     (end, s) \<leftarrow> scanSegment io fs segment s;
     scan_segments io fs segs end s }"

definition MeshStore_open :: "store_io \<Rightarrow> string \<Rightarrow> MeshStore \<Rightarrow> disk \<Rightarrow> (error_t \<times> MeshStore \<times> disk) option" where
  "MeshStore_open io path s fs = do {
     (s, fs) \<leftarrow> MeshStore_close io s fs;
     let s = s\<lparr>directory := path\<rparr>;
     if made io \<noteq> ERROR_NONE \<and> made io \<noteq> ERROR_ALREADY_EXISTS then Some (ERROR_RESOURCE, s, fs)
     else if \<not> memory io then Some (ERROR_OUT_OF_MEMORY, s, fs)
     else let s = s\<lparr>buffer := Some []\<rparr> in
       case listing io of
         None \<Rightarrow> Some (ERROR_RESOURCE, s, fs)
       | Some ns \<Rightarrow> do {
           let segs = sort (map (segment_of_name (long_bits io)) (filter is_segment_name ns));
           (lastValidEnd, s) \<leftarrow> scan_segments io fs segs 0 (s\<lparr>segments := segs\<rparr>);
           if segs = [] then Some (ERROR_NONE, s\<lparr>segments := [0], currentSegmentSize := 0\<rparr>, fs)
           else
             let p = getSegmentPath path (last segs);
                 size = (case fs p of Some d \<Rightarrow> if stat_works io p then of_nat (length d) else 0 | None \<Rightarrow> 0) in
             Some (ERROR_NONE, (if size \<noteq> lastValidEnd then s\<lparr>segments := segs @ [last segs + 1], currentSegmentSize := 0\<rparr>
                else s\<lparr>currentSegmentSize := size\<rparr>), fs) } }"

end
