(* ===== verification/Mesh_Log.thy ===== *)
theory Mesh_Log
  imports Mesh_Store
begin

text \<open>
  The message log as what it promises: an abstract log is the list of its messages with their
  present delivery states, oldest first. The theory proves that the log of \<open>Mesh_Store\<close> refines it while it is open,
  whatever writes fail, and that closing and opening it gives the same messages back.
\<close>

section \<open>Segment names\<close>

definition segment_digits :: "32 word \<Rightarrow> string" where
  "segment_digits n = replicate (8 - length (decimal (unat n))) (CHR ''0'') @ decimal (unat n)"

definition segment_name :: "32 word \<Rightarrow> string" where
  "segment_name n = SEGMENT_PREFIX @ segment_digits n @ SEGMENT_SUFFIX"

lemma getSegmentPath_name: "getSegmentPath dir n = dir @ ''/'' @ segment_name n"
  by (simp add: getSegmentPath_def segment_name_def segment_digits_def Let_def)

lemma digits_value_zeros: "digits_value (replicate k (CHR ''0'') @ ds) = digits_value ds"
  by (induction k) (simp_all add: digits_value_def)

lemma segment_digits_value: "digits_value (segment_digits n) = unat n"
  by (simp add: segment_digits_def digits_value_zeros digits_value_decimal)

lemma segment_digits_digit: "\<forall>c\<in>set (segment_digits n). is_digit c"
  using decimal_digits [of "unat n"] by (auto simp: segment_digits_def list_all_iff is_digit_def)

lemma segment_digits_nonempty: "segment_digits n \<noteq> []"
  by (simp add: segment_digits_def decimal_nonempty)

lemma path_inject [simp]: "getSegmentPath dir m = getSegmentPath dir n \<longleftrightarrow> m = n"
proof
  assume "getSegmentPath dir m = getSegmentPath dir n"
  then have "segment_digits m = segment_digits n" by (simp add: getSegmentPath_name segment_name_def)
  then show "m = n" using segment_digits_value by (metis word_unat_eq_iff)
qed simp

lemma segment_of_segment_name:
  assumes "32 \<le> lb"
  shows "segment_of_name lb (segment_name n) = n"
proof -
  let ?s = "segment_digits n @ SEGMENT_SUFFIX"
  have digit: "is_digit c \<Longrightarrow> c \<noteq> NUL \<and> \<not> is_space c \<and> c \<noteq> CHR ''-'' \<and> c \<noteq> CHR ''+''" for c
    by (auto simp: is_digit_def is_space_def)
  have "\<forall>c\<in>set ?s. c \<noteq> NUL" using segment_digits_digit digit by (auto simp: SEGMENT_SUFFIX_def)
  then have c: "c_str ?s = ?s" by (intro c_str_id) blast
  obtain d ds where d: "segment_digits n = d # ds" using segment_digits_nonempty by (cases "segment_digits n") auto
  have hd: "is_digit d" using segment_digits_digit [of n] d by simp
  then have b: "takeWhile is_space ?s = []" "hd ?s \<noteq> CHR ''-''" "hd ?s \<noteq> CHR ''+''" using digit d by auto
  have t: "takeWhile is_digit ?s = segment_digits n"
    using segment_digits_digit [of n] by (simp add: takeWhile_append2 SEGMENT_SUFFIX_def is_digit_def)
  have "unat n < 2 ^ lb" by (rule order_less_le_trans [OF unsigned_less]) (use power_increasing [OF assms, of "2 :: nat"] in simp)
  then have "strtoul lb ?s = unat n"
    by (simp add: strtoul_def c b t segment_digits_value Let_def)
  then show ?thesis by (simp add: segment_of_name_def segment_name_def)
qed

lemma is_segment_segment_name: "is_segment_name (segment_name n)"
proof -
  let ?i = "length SEGMENT_PREFIX + length (segment_digits n)"
  have "?i < length (segment_name n)" "take (length SEGMENT_SUFFIX) (drop ?i (segment_name n)) = SEGMENT_SUFFIX"
    by (simp_all add: segment_name_def SEGMENT_SUFFIX_def)
  then have "list_ex (\<lambda>i. take (length SEGMENT_SUFFIX) (drop i (segment_name n)) = SEGMENT_SUFFIX) [0..<length (segment_name n)]"
    unfolding list_ex_iff by (intro bexI [of _ ?i]) auto
  then show ?thesis by (simp add: is_segment_name_def segment_name_def)
qed

section \<open>The search in the index\<close>

lemma lower_bound_partition:
  shows "\<forall>i<k. below (xs ! i) \<Longrightarrow> \<forall>i. k \<le> i \<and> i < length xs \<longrightarrow> \<not> below (xs ! i) \<Longrightarrow> first \<le> k \<Longrightarrow> k \<le> first + len \<Longrightarrow> first + len \<le> length xs \<Longrightarrow> lower_bound below xs first len = k"
proof (induction below xs first len rule: lower_bound.induct)
  case (1 below xs first len)
  have half: "len \<noteq> 0 \<Longrightarrow> first + len div 2 < length xs" using "1.prems"(5) by (rule less_le_trans [rotated]) simp
  consider "len = 0" | "len \<noteq> 0" "below (xs ! (first + len div 2))" | "len \<noteq> 0" "\<not> below (xs ! (first + len div 2))" by blast
  then show ?case
  proof cases
    case 1
    then show ?thesis using 1(1) \<open>first \<le> k\<close> \<open>k \<le> first + len\<close> by (simp add: lower_bound.simps)
  next
    case 2
    have "first + len div 2 < k" using half [OF 2(1)] 2(2) "1.prems"(2) by (meson not_le)
    then show ?thesis using "1.IH"(1) [OF 2] "1.prems" 2 by (subst lower_bound.simps) simp
  next
    case 3
    have "k \<le> first + len div 2" using half [OF 3(1)] 3(2) "1.prems"(1) by (meson not_le)
    then show ?thesis using "1.IH"(2) [OF 3] "1.prems" 3 by (subst lower_bound.simps) simp
  qed
qed

lemma sorted_partition:
  assumes "ordered (map f xs)"
  shows "\<forall>i<length (takeWhile (\<lambda>x. f x < q) xs). f (xs ! i) < q"
    "\<forall>i. length (takeWhile (\<lambda>x. f x < q) xs) \<le> i \<and> i < length xs \<longrightarrow> \<not> f (xs ! i) < q"
proof -
  let ?k = "length (takeWhile (\<lambda>x. f x < q) xs)"
  show "\<forall>i<?k. f (xs ! i) < q"
    by (metis nth_mem set_takeWhileD takeWhile_nth)
  show "\<forall>i. ?k \<le> i \<and> i < length xs \<longrightarrow> \<not> f (xs ! i) < q"
  proof (intro allI impI)
    fix i assume i: "?k \<le> i \<and> i < length xs"
    then have "\<not> f (xs ! ?k) < q" using nth_length_takeWhile [of "\<lambda>x. f x < q" xs] by simp
    moreover have "f (xs ! ?k) \<le> f (xs ! i)"
      using i sorted_wrt_nth_less [OF assms, of ?k i] by (cases "?k = i") (auto simp: less_imp_le)
    ultimately show "\<not> f (xs ! i) < q" by simp
  qed
qed

lemma lower_bound_sorted:
  assumes "ordered (map e_seq idx)"
  shows "lower_bound (\<lambda>e. e_seq e < q) idx 0 (length idx) = length (takeWhile (\<lambda>e. e_seq e < q) idx)"
  using sorted_partition [OF assms, of q] by (intro lower_bound_partition) (auto simp: length_takeWhile_le)

lemma findEntry_Some:
  assumes "ordered (map e_seq idx)"
  shows "findEntry q idx = Some i \<longleftrightarrow> i < length idx \<and> e_seq (idx ! i) = q"
proof -
  let ?k = "length (takeWhile (\<lambda>e. e_seq e < q) idx)"
  have "i = ?k" if "i < length idx" "e_seq (idx ! i) = q"
  proof -
    have "\<not> i < ?k" using sorted_partition(1) [OF assms, of q] that by auto
    moreover have "\<not> ?k < i"
    proof
      assume "?k < i"
      then have "e_seq (idx ! ?k) < q" using sorted_wrt_nth_less [OF assms, of ?k i] that by simp
      then show False using sorted_partition(2) [OF assms, of q] \<open>?k < i\<close> that by auto
    qed
    ultimately show "i = ?k" by simp
  qed
  then show ?thesis by (auto simp: findEntry_def lower_bound_sorted [OF assms] Let_def)
qed

lemma findEntry_None:
  assumes "ordered (map e_seq idx)"
  shows "findEntry q idx = None \<longleftrightarrow> q \<notin> e_seq ` set idx"
proof
  assume "findEntry q idx = None"
  then have "\<not> (i < length idx \<and> e_seq (idx ! i) = q)" for i using findEntry_Some [OF assms, of q i] by simp
  then show "q \<notin> e_seq ` set idx" by (metis (no_types, lifting) imageE in_set_conv_nth)
next
  assume "q \<notin> e_seq ` set idx"
  then have "findEntry q idx \<noteq> Some i" for i using findEntry_Some [OF assms, of q i] nth_mem by blast
  then show "findEntry q idx = None" by (cases "findEntry q idx") auto
qed

lemma update_found:
  assumes "ordered (map f xs)" "i < length xs" "f (xs ! i) = q"
  shows "xs[i := g (xs ! i)] = map (\<lambda>x. if f x = q then g x else x) xs"
proof (rule nth_equalityI)
  fix j assume j: "j < length (xs[i := g (xs ! i)])"
  have "distinct (map f xs)" using assms(1) by (simp add: strict_sorted_iff)
  then have "f (xs ! j) = q \<longleftrightarrow> j = i" using assms(2,3) j nth_eq_iff_index_eq [of "map f xs" j i] by auto
  with j show "xs[i := g (xs ! i)] ! j = map (\<lambda>x. if f x = q then g x else x) xs ! j" by (simp add: nth_list_update)
qed simp

section \<open>Records in the files\<close>

lemma record_length_bytes: "length bs < 65536 \<Longrightarrow> record_length (record_bytes t bs @ post) = length bs"
proof -
  assume "length bs < 65536"
  then have "length bs div 256 < 256" by simp
  then have "unat (of_nat (length bs div 256) :: byte) = length bs div 256" "unat (of_nat (length bs) :: byte) = length bs mod 256"
    by (simp_all add: unsigned_of_nat take_bit_nat_eq_self take_bit_eq_mod)
  then show ?thesis by (simp add: record_length_def record_bytes_def)
qed

lemma record_bytes_length [simp]: "length (record_bytes t bs) = 6 + length bs"
  by (simp add: record_bytes_def)

definition message_at :: "byte list \<Rightarrow> nat \<Rightarrow> MeshMessage \<Rightarrow> bool" where
  "message_at d off m \<longleftrightarrow> (\<exists>pre post. d = pre @ record_bytes RECORD_TYPE_MESSAGE (message_bytes m) @ post \<and> length pre = off)"

lemma message_at_append: "message_at d off m \<Longrightarrow> message_at (d @ x) off m"
  unfolding message_at_def by (metis append_assoc)

lemma message_at_prepend: "message_at d off m \<Longrightarrow> message_at (x @ d) (length x + off) m"
  unfolding message_at_def by (metis append_assoc length_append)

lemma message_at_end: "message_at (d @ record_bytes RECORD_TYPE_MESSAGE (message_bytes m)) (length d) m"
  unfolding message_at_def by (metis append_Nil2)

lemma message_at_bound: "message_at d off m \<Longrightarrow> off + 6 \<le> length d"
  by (auto simp: message_at_def)

section \<open>The abstract log\<close>

definition place :: "disk \<Rightarrow> MeshStore \<Rightarrow> 32 word \<Rightarrow> byte list option" where
  "place fs s segment = (if segment = PENDING then buffer s else fs (getSegmentPath (directory s) segment))"

definition entry_holds :: "disk \<Rightarrow> MeshStore \<Rightarrow> IndexEntry \<Rightarrow> MeshMessage \<Rightarrow> bool" where
  "entry_holds fs s e m \<longleftrightarrow> (\<exists>d m0. place fs s (e_segment e) = Some d \<and> message_at d (unat (e_offset e)) m0 \<and> message_wf m0 \<and>
     m = (canonical m0)\<lparr>m_delivery := e_delivery e\<rparr> \<and> hashPeer (m_peer m) = Some (e_peerHash e) \<and> e_seq e = m_seq m0 \<and> e_channel e = m_channel m0)"

definition limits_ok :: "Limits \<Rightarrow> bool" where
  "limits_ok l \<longleftrightarrow> 320 \<le> bufferSize l \<and> 1 \<le> segmentCount l \<and> segmentSize l + bufferSize l < 2 ^ 32"

definition store_ok :: "disk \<Rightarrow> MeshStore \<Rightarrow> bool" where
  "store_ok fs s \<longleftrightarrow> limits_ok (limits s) \<and> buffer s \<noteq> None \<and> bufferUsed s \<le> bufferSize (limits s) \<and>
     segments s \<noteq> [] \<and> ordered (segments s) \<and> last (segments s) < PENDING \<and>
     (\<forall>n > last (segments s). fs (getSegmentPath (directory s) n) = None) \<and>
     (segmentSize (limits s) \<le> unat (currentSegmentSize s) \<or>
      unat (currentSegmentSize s) = length (file_or_empty fs (getSegmentPath (directory s) (last (segments s)))))"

definition log_rel :: "disk \<Rightarrow> MeshStore \<Rightarrow> MeshMessage list \<Rightarrow> bool" where
  "log_rel fs s ms \<longleftrightarrow> store_ok fs s \<and> list_all2 (entry_holds fs s) (index s) ms \<and> ordered (map m_seq ms) \<and>
     (\<forall>m\<in>set ms. m_seq m < nextSeq s) \<and> sorted (map e_segment (index s)) \<and> set (map e_segment (index s)) \<subseteq> insert PENDING (set (segments s))"

lemma entry_holds_seq: "entry_holds fs s e m \<Longrightarrow> e_seq e = m_seq m"
  by (auto simp: entry_holds_def canonical_def)

lemma log_rel_seqs: "log_rel fs s ms \<Longrightarrow> map e_seq (index s) = map m_seq ms"
  by (auto simp: log_rel_def list_all2_conv_all_nth entry_holds_seq intro!: nth_equalityI)

lemma log_rel_ordered: "log_rel fs s ms \<Longrightarrow> ordered (map e_seq (index s))"
  using log_rel_seqs [of fs s ms] by (simp add: log_rel_def)

section \<open>Appending keeps the messages\<close>

lemma entry_holds_grow:
  assumes "entry_holds fs s e m"
    and "\<And>d. place fs s (e_segment e) = Some d \<Longrightarrow> \<exists>x. place fs' s' (e_segment e) = Some (d @ x)"
  shows "entry_holds fs' s' e m"
  using assms unfolding entry_holds_def by (metis message_at_append)

lemma place_frame:
  "place fs (s\<lparr>index := i\<rparr>) g = place fs s g" "place fs (s\<lparr>segments := ss\<rparr>) g = place fs s g" "place fs (s\<lparr>nextSeq := q\<rparr>) g = place fs s g"
  "place fs (s\<lparr>currentSegmentSize := c\<rparr>) g = place fs s g" "place fs (s\<lparr>firstPendingMs := t\<rparr>) g = place fs s g"
  by (simp_all add: place_def)

lemma entry_holds_frame:
  "entry_holds fs (s\<lparr>index := i\<rparr>) = entry_holds fs s" "entry_holds fs (s\<lparr>segments := ss\<rparr>) = entry_holds fs s"
  "entry_holds fs (s\<lparr>nextSeq := q\<rparr>) = entry_holds fs s" "entry_holds fs (s\<lparr>currentSegmentSize := c\<rparr>) = entry_holds fs s"
  "entry_holds fs (s\<lparr>firstPendingMs := t\<rparr>) = entry_holds fs s"
  by (simp_all add: entry_holds_def place_frame fun_eq_iff)

lemma log_rel_append:
  assumes "log_rel fs s ms" "buffer s = Some b" "length b + length r \<le> bufferSize (limits s)"
  shows "log_rel fs (s\<lparr>buffer := Some (b @ r), firstPendingMs := t\<rparr>) ms"
proof -
  let ?s = "s\<lparr>buffer := Some (b @ r), firstPendingMs := t\<rparr>"
  have "entry_holds fs ?s e m" if "entry_holds fs s e m" for e m
    using that by (rule entry_holds_grow) (use assms(2) in \<open>auto simp: place_def split: if_splits\<close>)
  then have "list_all2 (entry_holds fs ?s) (index s) ms" using assms(1) by (auto simp: log_rel_def intro: list_all2_mono)
  with assms show ?thesis by (simp add: log_rel_def store_ok_def bufferUsed_def)
qed

lemma canonical_fields [simp]:
  "m_seq (canonical m) = m_seq m" "m_channel (canonical m) = m_channel m" "m_delivery (canonical m) = m_delivery m"
  "addr_length (m_peer (canonical m)) = addr_length (m_peer m)" "m_outgoing (canonical m) = m_outgoing m"
  by (simp_all add: canonical_def)

lemma hashPeer_canonical: "message_wf m \<Longrightarrow> \<exists>h. hashPeer (m_peer (canonical m)) = Some h"
  by (simp add: hashPeer_def canonical_def message_wf_def mesh_sizes)

lemma index_entry_of_message:
  assumes "message_wf m"
  shows "\<exists>h. hashPeer (m_peer (canonical m)) = Some h \<and> makeIndexEntry (snd (deserializeMessage (message_bytes m))) g off =
    Some \<lparr>e_seq = m_seq m, e_segment = g, e_offset = off, e_delivery = m_delivery m, e_channel = m_channel m, e_peerHash = h\<rparr>"
  using hashPeer_canonical [OF assms] deserialize_message [of m] assms
  by (auto simp: message_wf_def mesh_sizes makeIndexEntry_def)

lemma PENDING_max [simp]: "g \<le> PENDING"
  by (simp add: PENDING_def word_order.extremum)

lemma log_rel_append_message:
  assumes "log_rel fs s ms" "buffer s = Some b" "message_wf m" "length b + length (record_bytes RECORD_TYPE_MESSAGE (message_bytes m)) \<le> bufferSize (limits s)"
    and "\<forall>m'\<in>set ms. m_seq m' < m_seq m" "m_seq m < nextSeq s"
    and "makeIndexEntry (snd (deserializeMessage (message_bytes m))) PENDING (of_nat (length b)) = Some e"
  shows "log_rel fs (s\<lparr>index := index s @ [e], buffer := Some (b @ record_bytes RECORD_TYPE_MESSAGE (message_bytes m)), firstPendingMs := t\<rparr>) (ms @ [canonical m])"
proof -
  let ?r = "record_bytes RECORD_TYPE_MESSAGE (message_bytes m)"
  let ?s = "s\<lparr>buffer := Some (b @ ?r), firstPendingMs := t\<rparr>"
  have rel: "log_rel fs ?s ms" by (rule log_rel_append [OF assms(1,2,4)])
  obtain h where e: "hashPeer (m_peer (canonical m)) = Some h"
    "e = \<lparr>e_seq = m_seq m, e_segment = PENDING, e_offset = of_nat (length b), e_delivery = m_delivery m, e_channel = m_channel m, e_peerHash = h\<rparr>"
    using index_entry_of_message [OF assms(3), of PENDING "of_nat (length b)"] assms(7) by auto
  have "limits_ok (limits s)" using assms(1) by (simp add: log_rel_def store_ok_def)
  then have "length b < 2 ^ 32" using assms(4) by (simp add: limits_ok_def)
  then have off: "unat (of_nat (length b) :: 32 word) = length b" by (simp add: unsigned_of_nat take_bit_nat_eq_self)
  have "entry_holds fs ?s e (canonical m)"
    unfolding entry_holds_def using e off assms(3) message_at_end [of b m] by (intro exI [of _ "b @ ?r"] exI [of _ m]) (simp add: place_def)
  with rel have "list_all2 (entry_holds fs ?s) (index s @ [e]) (ms @ [canonical m])"
    by (simp add: log_rel_def list_all2_appendI)
  moreover have eq: "s\<lparr>index := index s @ [e], buffer := Some (b @ ?r), firstPendingMs := t\<rparr> = ?s\<lparr>index := index s @ [e]\<rparr>" by simp
  moreover have "sorted (map e_segment (index s) @ [PENDING])" using assms(1) by (simp add: log_rel_def sorted_append)
  ultimately show ?thesis unfolding eq using rel assms(5,6) e(2)
    by (simp add: log_rel_def entry_holds_frame store_ok_def bufferUsed_def sorted_wrt_append)
qed

section \<open>Flushing keeps the messages\<close>

lemma filter_minimum:
  "sorted (map f xs) \<Longrightarrow> \<forall>x\<in>set xs. a \<le> f x \<Longrightarrow> filter (\<lambda>x. f x \<noteq> a) xs = drop (length (filter (\<lambda>x. f x = a) xs)) xs"
proof (induction xs)
  case (Cons x xs)
  show ?case
  proof (cases "f x = a")
    case False
    then have "\<forall>y\<in>set (x # xs). f y \<noteq> a" using Cons.prems by auto
    then have "filter (\<lambda>x. f x = a) (x # xs) = []" "filter (\<lambda>x. f x \<noteq> a) (x # xs) = x # xs"
      unfolding filter_empty_conv filter_id_conv by blast+
    then show ?thesis by (simp only: list.size drop_0)
  qed (use Cons in simp)
qed simp

lemma log_rel_drop_segment:
  assumes "log_rel fs s ms" "segments s = oldest # segs" "segs \<noteq> []"
    and "fs' = fs \<or> fs' = fs(getSegmentPath (directory s) oldest := None)"
  shows "\<exists>k. log_rel fs' (s\<lparr>index := filter (\<lambda>e. e_segment e \<noteq> oldest) (index s), segments := segs\<rparr>) (drop k ms)"
proof -
  let ?i = "filter (\<lambda>e. e_segment e \<noteq> oldest) (index s)"
  let ?s = "s\<lparr>index := ?i, segments := segs\<rparr>"
  from assms(1,2) have ok: "store_ok fs s" and i: "list_all2 (entry_holds fs s) (index s) ms" "sorted (map e_segment (index s))"
    "set (map e_segment (index s)) \<subseteq> insert PENDING (set (oldest # segs))" "ordered (map m_seq ms)" "\<forall>m\<in>set ms. m_seq m < nextSeq s"
    by (simp_all add: log_rel_def)
  from ok assms(2) have seg: "\<forall>g\<in>set segs. oldest < g" "last segs < PENDING" "ordered segs"
    using assms(3) by (auto simp: store_ok_def)
  then have "oldest < last segs" using assms(3) last_in_set by blast
  then have "oldest < PENDING" "last segs \<noteq> oldest" using seg(2) by auto
  have "\<forall>e\<in>set (index s). oldest \<le> e_segment e" using i(3) seg(1) by (auto simp: less_imp_le)
  with i(2) obtain k where k: "?i = drop k (index s)" using filter_minimum [of e_segment "index s" oldest] by blast
  have "entry_holds fs' ?s e m" if "entry_holds fs s e m" "e_segment e \<noteq> oldest" for e m
    using that(1) by (rule entry_holds_grow) (use that(2) assms(4) in \<open>auto simp: place_def split: if_splits\<close>)
  moreover have "list_all2 (entry_holds fs s) ?i (drop k ms)" unfolding k using i(1) by (rule list_all2_dropI)
  moreover have "e_segment (?i ! j) \<noteq> oldest" if "j < length ?i" for j using nth_mem [OF that] by simp
  ultimately have "list_all2 (entry_holds fs' ?s) ?i (drop k ms)" unfolding list_all2_conv_all_nth by blast
  moreover have "ordered (map m_seq (drop k ms))" using i(4) by (simp add: drop_map [symmetric] sorted_wrt_drop)
  moreover have "store_ok fs' ?s" using ok assms(2-4) seg \<open>last segs \<noteq> oldest\<close> by (auto simp: store_ok_def bufferUsed_def file_or_empty_def)
  moreover have "sorted (map e_segment ?i)" unfolding k using i(2) by (simp add: drop_map [symmetric] sorted_wrt_drop)
  ultimately have "log_rel fs' ?s (drop k ms)" using i(3,5) by (auto simp: log_rel_def dest: in_set_dropD)
  then show ?thesis ..
qed

lemma enforceBudget_rel:
  "log_rel fs (s\<lparr>segments := segs\<rparr>) ms \<Longrightarrow> enforceBudget io segs s fs = (s', fs') \<Longrightarrow>
   (\<exists>k. log_rel fs' s' (drop k ms) \<and> (length segs \<le> segmentCount (limits s) \<longrightarrow> k = 0)) \<and> nextSeq s' = nextSeq s \<and> limits s' = limits s \<and>
     directory s' = directory s \<and> buffer s' = buffer s \<and> length (segments s') \<le> segmentCount (limits s) \<and> last (segments s') = last segs"
proof (induction io segs s fs arbitrary: ms rule: enforceBudget.induct)
  case (1 io s fs)
  then show ?case by (simp add: log_rel_def store_ok_def)
next
  case (2 io oldest segs s fs)
  show ?case
  proof (cases "length (oldest # segs) > segmentCount (limits s)")
    case True
    let ?p = "getSegmentPath (directory s) oldest"
    let ?fs = "if remove_works io ?p then fs(?p := None) else fs"
    let ?s = "s\<lparr>index := filter (\<lambda>e. e_segment e \<noteq> oldest) (index s)\<rparr>"
    have "segs \<noteq> []" using True 2(2) by (auto simp: log_rel_def store_ok_def limits_ok_def)
    have "?fs = fs \<or> ?fs = fs(?p := None)" by simp
    with 2(2) \<open>segs \<noteq> []\<close> obtain k where k: "log_rel ?fs (?s\<lparr>segments := segs\<rparr>) (drop k ms)"
      using log_rel_drop_segment [of fs "s\<lparr>segments := oldest # segs\<rparr>" ms oldest segs ?fs] by fastforce
    have "enforceBudget io segs ?s ?fs = (s', fs')" using 2(3) True by (simp add: Let_def)
    from 2(1) [OF True refl k this] True \<open>segs \<noteq> []\<close> show ?thesis by auto
  next
    case False
    then show ?thesis using 2(2,3) by (auto intro: exI [of _ 0])
  qed
qed

text \<open>There is a number for another segment.\<close>

definition room :: "MeshStore \<Rightarrow> bool" where
  "room s \<longleftrightarrow> segments s \<noteq> [] \<longrightarrow> last (segments s) < PENDING - 1"

lemma word_less_Suc: "(w :: 32 word) < - 1 \<Longrightarrow> w < w + 1"
proof -
  assume "w < - 1"
  moreover have "unat (- 1 :: 32 word) = 2 ^ 32 - 1" by (simp add: unsigned_minus_1_eq_mask mask_eq_exp_minus_1)
  ultimately have "unat w < 2 ^ 32 - 1" by (simp add: word_less_nat_alt)
  then have "unat (w + 1) = unat w + 1" by (simp add: unat_word_ariths)
  then show ?thesis by (simp add: word_less_nat_alt)
qed

lemma next_segment:
  assumes "g < PENDING - 1"
  shows "g < g + 1 \<and> g + 1 < PENDING"
proof -
  have "unat g < 2 ^ 32 - 2" using assms by (simp add: PENDING_def word_less_nat_alt)
  then have "unat (g + 1) = unat g + 1" by (simp add: unat_word_ariths)
  moreover have "unat (- 1 :: 32 word) = 2 ^ 32 - 1" by (simp add: unsigned_minus_1_eq_mask mask_eq_exp_minus_1)
  ultimately show ?thesis using \<open>unat g < 2 ^ 32 - 2\<close> unfolding word_less_nat_alt PENDING_def by linarith
qed

lemma ordered_last: "ordered xs \<Longrightarrow> x \<in> set xs \<Longrightarrow> x \<le> last (xs :: 'a :: linorder list)"
  by (induction xs) (auto simp: less_imp_le)

lemma flush_segment_rel:
  assumes "log_rel fs s ms" "room s"
  shows "log_rel fs (flush_segment s) ms \<and> unat (currentSegmentSize (flush_segment s)) =
      length (file_or_empty fs (getSegmentPath (directory s) (last (segments (flush_segment s))))) \<and>
    unat (currentSegmentSize (flush_segment s)) \<le> segmentSize (limits s)"
proof (cases "unat (currentSegmentSize s) \<ge> segmentSize (limits s)")
  case True
  let ?n = "last (segments s) + 1"
  from assms have ok: "store_ok fs s" and r: "log_rel fs s ms" by (simp_all add: log_rel_def)
  then have n: "last (segments s) < ?n" "?n < PENDING" using next_segment assms(2) by (auto simp: room_def store_ok_def)
  have "\<forall>g\<in>set (segments s). g \<le> last (segments s)" using ok by (auto simp: store_ok_def intro: ordered_last)
  then have "\<forall>g\<in>set (segments s). g < ?n" using n(1) by fastforce
  moreover have "fs (getSegmentPath (directory s) ?n) = None" using ok n(1) by (simp add: store_ok_def)
  moreover have "\<forall>m > ?n. fs (getSegmentPath (directory s) m) = None" using ok n(1) by (simp add: store_ok_def)
  ultimately have "store_ok fs (flush_segment s)"
    using ok n(2) True by (simp add: store_ok_def flush_segment_def bufferUsed_def file_or_empty_def sorted_wrt_append)
  with r True n show ?thesis
    using \<open>fs (getSegmentPath (directory s) ?n) = None\<close>
    by (auto simp: log_rel_def flush_segment_def entry_holds_frame file_or_empty_def)
next
  case False
  then show ?thesis using assms(1) by (auto simp: log_rel_def store_ok_def flush_segment_def)
qed

lemma file_or_empty_Some: "fs p = Some d \<Longrightarrow> file_or_empty fs p = d"
  by (simp add: file_or_empty_def)

lemma log_rel_written:
  assumes r: "log_rel fs s ms" "buffer s = Some buf" "unat (currentSegmentSize s) = length (file_or_empty fs p)"
      "unat (currentSegmentSize s) \<le> segmentSize (limits s)"
    and p: "p = getSegmentPath (directory s) (last (segments s))"
    and s': "s' = s\<lparr>index := map (settle (last (segments s)) (currentSegmentSize s)) (index s),
      currentSegmentSize := currentSegmentSize s + of_nat (length buf), buffer := Some []\<rparr>"
  shows "log_rel (fs(p \<mapsto> file_or_empty fs p @ buf)) s' ms"
proof -
  let ?L = "last (segments s)" and ?fs = "fs(p \<mapsto> file_or_empty fs p @ buf)"
  from r(1) have ok: "store_ok fs s" and i: "list_all2 (entry_holds fs s) (index s) ms" "sorted (map e_segment (index s))"
    "set (map e_segment (index s)) \<subseteq> insert PENDING (set (segments s))" "ordered (map m_seq ms)" "\<forall>m\<in>set ms. m_seq m < nextSeq s"
    by (simp_all add: log_rel_def)
  from ok have small: "length (file_or_empty fs p) + length buf < 2 ^ 32" and L: "?L < PENDING" "?L \<in> set (segments s)"
    "\<forall>g\<in>set (segments s). g \<le> ?L" using r(2-4) ordered_last by (auto simp: store_ok_def limits_ok_def bufferUsed_def)
  have "unat (of_nat (length buf) :: 32 word) = length buf" using small by (simp add: unsigned_of_nat take_bit_nat_eq_self)
  then have cur: "unat (currentSegmentSize s + of_nat (length buf)) = length (file_or_empty fs p) + length buf"
    using small r(3) by (subst unat_add_lem [THEN iffD1]) simp_all
  have "entry_holds ?fs s' (settle ?L (currentSegmentSize s) e) m" if h: "entry_holds fs s e m" for e m
  proof (cases "e_segment e = PENDING")
    case True
    with h r(2) obtain m0 where m0: "message_at buf (unat (e_offset e)) m0" "message_wf m0" "m = (canonical m0)\<lparr>m_delivery := e_delivery e\<rparr>"
      "hashPeer (m_peer m) = Some (e_peerHash e)" "e_seq e = m_seq m0" "e_channel e = m_channel m0"
      by (auto simp: entry_holds_def place_def)
    have "unat (e_offset e) + 6 \<le> length buf" by (rule message_at_bound [OF m0(1)])
    then have "unat (e_offset e + currentSegmentSize s) = length (file_or_empty fs p) + unat (e_offset e)"
      using small r(3) by (subst unat_add_lem [THEN iffD1]) simp_all
    with message_at_prepend [OF m0(1), of "file_or_empty fs p"] m0(2-6) True L(1)
    show ?thesis unfolding entry_holds_def
      by (intro exI [of _ "file_or_empty fs p @ buf"] exI [of _ m0]) (simp add: settle_def place_def s' p)
  next
    case False
    then have "entry_holds ?fs s' e m"
      using h by (intro entry_holds_grow [OF h]) (auto simp: place_def s' p file_or_empty_Some)
    with False show ?thesis by (simp add: settle_def)
  qed
  then have "list_all2 (entry_holds ?fs s') (index s') ms"
    using i(1) by (simp add: s' list_all2_map1 list_all2_mono)
  moreover have "store_ok ?fs s'" using ok cur L(1) by (auto simp: store_ok_def s' bufferUsed_def p file_or_empty_def)
  moreover have "sorted (map e_segment (index s'))"
  proof -
    have "sorted (map (\<lambda>g. if g = PENDING then ?L else g) (map e_segment (index s)))"
      unfolding sorted_map using i(2) by (rule sorted_wrt_mono_rel [rotated]) (use i(3) L in auto)
    moreover have "map e_segment (index s') = map (\<lambda>g. if g = PENDING then ?L else g) (map e_segment (index s))"
      by (simp add: s' settle_def)
    ultimately show ?thesis by simp
  qed
  moreover have "set (map e_segment (index s')) \<subseteq> insert PENDING (set (segments s'))" using i(3) L(2) by (auto simp: s' settle_def split: if_splits)
  ultimately show ?thesis using i(4,5) by (simp add: log_rel_def s')
qed

lemma log_rel_torn:
  assumes r: "log_rel fs s ms" and p: "p = getSegmentPath (directory s) (last (segments s))"
  shows "log_rel (fs(p \<mapsto> file_or_empty fs p @ x)) (s\<lparr>currentSegmentSize := of_nat (segmentSize (limits s))\<rparr>) ms"
proof -
  from r have ok: "store_ok fs s" by (simp add: log_rel_def)
  then have "L < PENDING" if "L = last (segments s)" for L using that by (simp add: store_ok_def)
  then have "entry_holds (fs(p \<mapsto> file_or_empty fs p @ x)) s e m" if "entry_holds fs s e m" for e m
    by (intro entry_holds_grow [OF that]) (auto simp: place_def p file_or_empty_Some)
  then have "list_all2 (entry_holds (fs(p \<mapsto> file_or_empty fs p @ x)) s) (index s) ms" using r by (auto simp: log_rel_def intro: list_all2_mono)
  moreover have "unat (of_nat (segmentSize (limits s)) :: 32 word) = segmentSize (limits s)"
    using ok by (simp add: store_ok_def limits_ok_def unsigned_of_nat take_bit_nat_eq_self)
  ultimately show ?thesis using r by (auto simp: log_rel_def store_ok_def entry_holds_frame bufferUsed_def p)
qed

text \<open>What a flush leaves alone, and what it did.\<close>

definition flushed :: "MeshStore \<Rightarrow> MeshStore \<Rightarrow> bool" where
  "flushed s s' \<longleftrightarrow> nextSeq s' = nextSeq s \<and> limits s' = limits s \<and> directory s' = directory s"

lemma flush_rel:
  assumes "log_rel fs s ms" "room s"
  shows "\<exists>e s' fs' k. flush io s fs = Some (e, s', fs') \<and> log_rel fs' s' (drop k ms) \<and> flushed s s' \<and>
    (e = ERROR_NONE \<longrightarrow> buffer s' = Some []) \<and> (e \<noteq> ERROR_NONE \<longrightarrow> buffer s' = buffer s) \<and>
    (e \<noteq> ERROR_NONE \<or> length (segments s) < segmentCount (limits s) \<longrightarrow> k = 0)"
proof -
  from assms(1) obtain buf where buf: "buffer s = Some buf" by (auto simp: log_rel_def store_ok_def)
  show ?thesis
  proof (cases buf)
    case Nil
    with buf assms(1) show ?thesis by (intro exI [of _ ERROR_NONE] exI [of _ s] exI [of _ fs] exI [of _ 0]) (simp add: flush_def flushed_def)
  next
    case (Cons b bs)
    let ?s = "flush_segment s"
    let ?p = "getSegmentPath (directory ?s) (last (segments ?s))"
    note seg = flush_segment_rel [OF assms]
    have same: "directory ?s = directory s" "limits ?s = limits s" "buffer ?s = Some buf" "nextSeq ?s = nextSeq s" "index ?s = index s"
      "length (segments ?s) \<le> Suc (length (segments s))"
      using buf by (simp_all add: flush_segment_def)
    have "buf \<noteq> []" using Cons by simp
    have ne: "segments s \<noteq> []" using assms(1) by (simp add: log_rel_def store_ok_def)
    have eq: "flush io s fs = (case appendable_bytes io ?p of
              None \<Rightarrow> Some (ERROR_RESOURCE, ?s, fs)
            | Some n \<Rightarrow>
                let fs = fs(?p \<mapsto> file_or_empty fs ?p @ take n buf) in
                if n < length buf then Some (ERROR_RESOURCE, ?s\<lparr>currentSegmentSize := of_nat (segmentSize (limits ?s))\<rparr>, fs)
                else
                  let s = ?s\<lparr>index := map (settle (last (segments ?s)) (currentSegmentSize ?s)) (index ?s),
                        currentSegmentSize := currentSegmentSize ?s + of_nat (length buf), buffer := Some []\<rparr> in
                  (case enforceBudget io (segments s) s fs of (s, fs) \<Rightarrow> Some (ERROR_NONE, s, fs)))"
      using ne \<open>buf \<noteq> []\<close> by (simp add: flush_def buf Let_def)
    consider (closed) "appendable_bytes io ?p = None" | (torn) n where "appendable_bytes io ?p = Some n" "n < length buf"
      | (written) n where "appendable_bytes io ?p = Some n" "length buf \<le> n" by (meson not_le option.exhaust)
    then show ?thesis
    proof cases
      case closed
      with eq seg same show ?thesis
        by (intro exI [of _ ERROR_RESOURCE] exI [of _ ?s] exI [of _ fs] exI [of _ 0]) (simp add: flushed_def buf)
    next
      case torn
      then have "flush io s fs = Some (ERROR_RESOURCE, ?s\<lparr>currentSegmentSize := of_nat (segmentSize (limits ?s))\<rparr>, fs(?p \<mapsto> file_or_empty fs ?p @ take n buf))"
        by (simp add: eq Let_def)
      moreover have "log_rel (fs(?p \<mapsto> file_or_empty fs ?p @ take n buf)) (?s\<lparr>currentSegmentSize := of_nat (segmentSize (limits ?s))\<rparr>) ms"
        using seg by (intro log_rel_torn) (simp_all add: same)
      ultimately show ?thesis using same by (simp add: flushed_def buf)
    next
      case written
      let ?s1 = "?s\<lparr>index := map (settle (last (segments ?s)) (currentSegmentSize ?s)) (index ?s),
                        currentSegmentSize := currentSegmentSize ?s + of_nat (length buf), buffer := Some []\<rparr>"
      let ?fs = "fs(?p \<mapsto> file_or_empty fs ?p @ buf)"
      have r1: "log_rel ?fs ?s1 ms" using seg by (intro log_rel_written [OF _ same(3)]) (simp_all add: same)
      obtain s' fs' where b: "enforceBudget io (segments ?s1) ?s1 ?fs = (s', fs')" by fastforce
      have "log_rel ?fs (?s1\<lparr>segments := segments ?s1\<rparr>) ms" using r1 by simp
      from enforceBudget_rel [OF this b] obtain k where k: "log_rel fs' s' (drop k ms)" "length (segments ?s1) \<le> segmentCount (limits ?s1) \<longrightarrow> k = 0"
        "nextSeq s' = nextSeq ?s1" "limits s' = limits ?s1" "directory s' = directory ?s1" "buffer s' = buffer ?s1" by auto
      have "flush io s fs = Some (ERROR_NONE, s', fs')" using written b by (simp add: eq Let_def)
      with k same show ?thesis
        by (intro exI [of _ ERROR_NONE] exI [of _ s'] exI [of _ fs'] exI [of _ k]) (auto simp: flushed_def)
    qed
  qed
qed

section \<open>Adding and changing messages\<close>

lemma bind_eq: "m = Some x \<Longrightarrow> Option.bind m f = f x"
  by simp

text \<open>The room that a record needs is made by a flush, which may fail or drop the oldest messages.\<close>

lemma make_room:
  assumes "log_rel fs s ms" "room s" "n \<le> 320"
  shows "\<exists>e s' fs' k. (if bufferUsed s + n > bufferSize (limits s) then flush io s fs else Some (ERROR_NONE, s, fs)) = Some (e, s', fs') \<and>
    log_rel fs' s' (drop k ms) \<and> flushed s s' \<and> (e = ERROR_NONE \<longrightarrow> bufferUsed s' + n \<le> bufferSize (limits s')) \<and>
    (e \<noteq> ERROR_NONE \<or> length (segments s) < segmentCount (limits s) \<longrightarrow> k = 0)"
proof (cases "bufferUsed s + n > bufferSize (limits s)")
  case True
  obtain e s' fs' k where f: "flush io s fs = Some (e, s', fs')" "log_rel fs' s' (drop k ms)" "flushed s s'"
    "e = ERROR_NONE \<longrightarrow> buffer s' = Some []" "e \<noteq> ERROR_NONE \<or> length (segments s) < segmentCount (limits s) \<longrightarrow> k = 0"
    using flush_rel [OF assms(1,2)] by blast
  from f(2) have "320 \<le> bufferSize (limits s')" by (simp add: log_rel_def store_ok_def limits_ok_def)
  with f True assms(3) show ?thesis by (auto simp: bufferUsed_def)
next
  case False
  with assms(1) show ?thesis by (intro exI [of _ ERROR_NONE] exI [of _ s] exI [of _ fs] exI [of _ 0]) (simp add: flushed_def)
qed

lemma log_rel_nextSeq: "log_rel fs s ms \<Longrightarrow> nextSeq s \<le> q \<Longrightarrow> log_rel fs (s\<lparr>nextSeq := q\<rparr>) ms"
  by (auto simp: log_rel_def store_ok_def bufferUsed_def entry_holds_frame)

lemma message_wf_seq [simp]: "message_wf (m\<lparr>m_seq := q\<rparr>) = message_wf m" "canonical (m\<lparr>m_seq := q\<rparr>) = (canonical m)\<lparr>m_seq := q\<rparr>"
  by (simp_all add: message_wf_def canonical_def)

lemma appendRecord_after:
  assumes "buffer s \<noteq> None"
    "(if bufferUsed s + (RECORD_HEADER_SIZE + length bs) > bufferSize (limits s) then flush io s fs else Some (ERROR_NONE, s, fs)) = Some (e, s1, fs1)"
    "e = ERROR_NONE \<longrightarrow> bufferUsed s1 + (RECORD_HEADER_SIZE + length bs) \<le> bufferSize (limits s1)"
  shows "appendRecord io t bs s fs = (if e \<noteq> ERROR_NONE then Some (e, s1, fs1) else do {
      idx \<leftarrow> (if t = RECORD_TYPE_MESSAGE
        then map_option (\<lambda>e. index s1 @ [e]) (makeIndexEntry (snd (deserializeMessage bs)) PENDING (of_nat (bufferUsed s1)))
        else Some (index s1));
      Some (ERROR_NONE, s1\<lparr>index := idx, firstPendingMs := (if bufferUsed s1 = 0 then 0 else firstPendingMs s1),
        buffer := map_option (\<lambda>b. b @ record_bytes t bs) (buffer s1)\<rparr>, fs1) })"
proof (cases "e = ERROR_NONE")
  case True
  then show ?thesis using assms unfolding appendRecord_def Let_def
    by (simp only: if_False bind_eq [OF assms(2)] Option.bind.simps prod.case not_less [symmetric] simp_thms if_True)
next
  case False
  then show ?thesis using assms unfolding appendRecord_def Let_def
    by (simp only: if_False bind_eq [OF assms(2)] Option.bind.simps prod.case if_True simp_thms)
qed

lemma appendRecord_message:
  assumes "log_rel fs s ms" "room s" "message_wf m" "\<forall>m'\<in>set ms. m_seq m' < m_seq m" "m_seq m < nextSeq s"
  shows "\<exists>e s' fs' k. appendRecord io RECORD_TYPE_MESSAGE (message_bytes m) s fs = Some (e, s', fs') \<and> flushed s s' \<and>
    log_rel fs' s' (if e = ERROR_NONE then drop k ms @ [canonical m] else ms) \<and>
    (length (segments s) < segmentCount (limits s) \<longrightarrow> k = 0)"
proof -
  let ?n = "RECORD_HEADER_SIZE + length (message_bytes m)"
  have n: "?n \<le> 320" using message_bytes_length(2) [of m] by (simp add: mesh_sizes)
  obtain e s1 fs1 k where r: "(if bufferUsed s + ?n > bufferSize (limits s) then flush io s fs else Some (ERROR_NONE, s, fs)) = Some (e, s1, fs1)"
    "log_rel fs1 s1 (drop k ms)" "flushed s s1" "e = ERROR_NONE \<longrightarrow> bufferUsed s1 + ?n \<le> bufferSize (limits s1)"
    "e \<noteq> ERROR_NONE \<or> length (segments s) < segmentCount (limits s) \<longrightarrow> k = 0"
    using make_room [OF assms(1,2) n] by blast
  have b: "buffer s \<noteq> None" using assms(1) by (simp add: log_rel_def store_ok_def)
  show ?thesis
  proof (cases "e = ERROR_NONE")
    case False
    then have "appendRecord io RECORD_TYPE_MESSAGE (message_bytes m) s fs = Some (e, s1, fs1)"
      by (simp add: appendRecord_after [OF b r(1,4)])
    with r False show ?thesis by auto
  next
    case True
    obtain buf where buf: "buffer s1 = Some buf" using r(2) by (auto simp: log_rel_def store_ok_def)
    obtain en where en: "makeIndexEntry (snd (deserializeMessage (message_bytes m))) PENDING (of_nat (length buf)) = Some en"
      using index_entry_of_message [OF assms(3)] by blast
    let ?s = "s1\<lparr>index := index s1 @ [en], buffer := Some (buf @ record_bytes RECORD_TYPE_MESSAGE (message_bytes m)),
      firstPendingMs := (if bufferUsed s1 = 0 then 0 else firstPendingMs s1)\<rparr>"
    have "appendRecord io RECORD_TYPE_MESSAGE (message_bytes m) s fs = Some (ERROR_NONE, ?s, fs1)"
      unfolding appendRecord_after [OF b r(1,4)] using True en buf by (simp add: bufferUsed_def)
    moreover have "log_rel fs1 ?s (drop k ms @ [canonical m])"
      using r(3,4) True assms(3-5) buf en by (intro log_rel_append_message [OF r(2) buf])
        (auto simp: bufferUsed_def mesh_sizes flushed_def dest: in_set_dropD)
    ultimately show ?thesis using r(3,5) True by (intro exI [of _ ERROR_NONE] exI [of _ ?s] exI [of _ fs1] exI [of _ k]) (simp add: flushed_def)
  qed
qed

lemma appendRecord_delivery:
  assumes "log_rel fs s ms" "room s"
  shows "\<exists>e s' fs' k. appendRecord io RECORD_TYPE_DELIVERY (le32 seq @ [d]) s fs = Some (e, s', fs') \<and> flushed s s' \<and>
    log_rel fs' s' (drop k ms) \<and> (e \<noteq> ERROR_NONE \<or> length (segments s) < segmentCount (limits s) \<longrightarrow> k = 0)"
proof -
  let ?n = "RECORD_HEADER_SIZE + length (le32 seq @ [d])"
  have n: "?n \<le> 320" by (simp add: mesh_sizes)
  obtain e s1 fs1 k where r: "(if bufferUsed s + ?n > bufferSize (limits s) then flush io s fs else Some (ERROR_NONE, s, fs)) = Some (e, s1, fs1)"
    "log_rel fs1 s1 (drop k ms)" "flushed s s1" "e = ERROR_NONE \<longrightarrow> bufferUsed s1 + ?n \<le> bufferSize (limits s1)"
    "e \<noteq> ERROR_NONE \<or> length (segments s) < segmentCount (limits s) \<longrightarrow> k = 0"
    using make_room [OF assms n] by blast
  have b: "buffer s \<noteq> None" using assms(1) by (simp add: log_rel_def store_ok_def)
  show ?thesis
  proof (cases "e = ERROR_NONE")
    case False
    then have "appendRecord io RECORD_TYPE_DELIVERY (le32 seq @ [d]) s fs = Some (e, s1, fs1)"
      by (simp add: appendRecord_after [OF b r(1,4)])
    with r False show ?thesis by auto
  next
    case True
    obtain buf where buf: "buffer s1 = Some buf" using r(2) by (auto simp: log_rel_def store_ok_def)
    let ?s = "s1\<lparr>buffer := Some (buf @ record_bytes RECORD_TYPE_DELIVERY (le32 seq @ [d])),
      firstPendingMs := (if bufferUsed s1 = 0 then 0 else firstPendingMs s1)\<rparr>"
    have "appendRecord io RECORD_TYPE_DELIVERY (le32 seq @ [d]) s fs = Some (ERROR_NONE, ?s, fs1)"
      unfolding appendRecord_after [OF b r(1,4)] using True buf
      by (simp add: bufferUsed_def RECORD_TYPE_DELIVERY_def RECORD_TYPE_MESSAGE_def)
    moreover have "log_rel fs1 ?s (drop k ms)"
      using r(4) True buf by (intro log_rel_append [OF r(2) buf]) (simp add: bufferUsed_def mesh_sizes)
    ultimately show ?thesis using r(3,5) True by (intro exI [of _ ERROR_NONE] exI [of _ ?s] exI [of _ fs1] exI [of _ k]) (simp add: flushed_def)
  qed
qed

text \<open>The abstract log after a change of a delivery state.\<close>

definition set_delivery :: "32 word \<Rightarrow> byte \<Rightarrow> MeshMessage list \<Rightarrow> MeshMessage list" where
  "set_delivery q d ms = map (\<lambda>m. if m_seq m = q then m\<lparr>m_delivery := d\<rparr> else m) ms"

lemma add_rel:
  assumes "log_rel fs s ms" "room s" "message_wf m" "nextSeq s < - 1"
  shows "\<exists>e s' fs' k. MeshStore_add io m s fs = Some (e, m\<lparr>m_seq := nextSeq s\<rparr>, s', fs') \<and>
    nextSeq s' = nextSeq s + 1 \<and> limits s' = limits s \<and> directory s' = directory s \<and>
    log_rel fs' s' (if e = ERROR_NONE then drop k ms @ [canonical (m\<lparr>m_seq := nextSeq s\<rparr>)] else ms) \<and>
    (length (segments s) < segmentCount (limits s) \<longrightarrow> k = 0)"
proof -
  let ?m = "m\<lparr>m_seq := nextSeq s\<rparr>" and ?s = "s\<lparr>nextSeq := nextSeq s + 1\<rparr>"
  have n: "nextSeq s < nextSeq s + 1" by (rule word_less_Suc [OF assms(4)])
  have bs: "serializeMessage ?m MESSAGE_PAYLOAD_MAX_SIZE = message_bytes ?m"
    by (rule serialize_message) (simp add: mesh_sizes)
  have ne: "message_bytes ?m \<noteq> []" using message_bytes_length(1) [of ?m] by auto
  have "log_rel fs ?s ms" using n by (intro log_rel_nextSeq [OF assms(1)]) simp
  moreover have "room ?s" "message_wf ?m" "m_seq ?m < nextSeq ?s" using assms(2,3) n by (simp_all add: room_def)
  moreover have "\<forall>m'\<in>set ms. m_seq m' < m_seq ?m" using assms(1) by (simp add: log_rel_def)
  ultimately obtain e s' fs' k where r: "appendRecord io RECORD_TYPE_MESSAGE (message_bytes ?m) ?s fs = Some (e, s', fs')" "flushed ?s s'"
    "log_rel fs' s' (if e = ERROR_NONE then drop k ms @ [canonical ?m] else ms)" "length (segments ?s) < segmentCount (limits ?s) \<longrightarrow> k = 0"
    using appendRecord_message [of fs ?s ms ?m io] by blast
  have "MeshStore_add io m s fs = Some (e, ?m, s', fs')"
    using r(1) ne by (simp add: MeshStore_add_def Let_def bs)
  moreover from r(2) have "nextSeq s' = nextSeq s + 1" "limits s' = limits s" "directory s' = directory s" by (simp_all add: flushed_def)
  moreover from r(4) have "length (segments s) < segmentCount (limits s) \<longrightarrow> k = 0" by simp
  ultimately show ?thesis using r(3) by (intro exI conjI)
qed

lemma log_rel_index:
  assumes "log_rel fs s ms" "list_all2 (entry_holds fs s) idx ms'" "map m_seq ms' = map m_seq ms" "map e_segment idx = map e_segment (index s)"
  shows "log_rel fs (s\<lparr>index := idx\<rparr>) ms'"
proof -
  have "m_seq ` set ms' = m_seq ` set ms" using assms(3) by (metis set_map)
  then have "\<forall>m\<in>set ms'. m_seq m < nextSeq s" using assms(1) by (metis (no_types, lifting) image_iff log_rel_def)
  then show ?thesis using assms by (simp add: log_rel_def entry_holds_frame store_ok_def bufferUsed_def)
qed

lemma log_rel_set_delivery:
  assumes "log_rel fs s ms"
  shows "log_rel fs (s\<lparr>index := map (\<lambda>e. if e_seq e = q then e\<lparr>e_delivery := d\<rparr> else e) (index s)\<rparr>) (set_delivery q d ms)"
proof (rule log_rel_index [OF assms])
  have "entry_holds fs s (if e_seq e = q then e\<lparr>e_delivery := d\<rparr> else e) (if m_seq m = q then m\<lparr>m_delivery := d\<rparr> else m)"
    if h: "entry_holds fs s e m" for e m
    using entry_holds_seq [OF h] h by (auto simp: entry_holds_def)
  moreover have "list_all2 (entry_holds fs s) (index s) ms" using assms by (simp add: log_rel_def)
  ultimately show "list_all2 (entry_holds fs s) (map (\<lambda>e. if e_seq e = q then e\<lparr>e_delivery := d\<rparr> else e) (index s)) (set_delivery q d ms)"
    unfolding set_delivery_def list_all2_map1 list_all2_map2 by (rule list_all2_mono [rotated])
qed (simp_all add: set_delivery_def)

lemma setDelivery_rel:
  assumes "log_rel fs s ms" "room s"
  shows "\<exists>e s' fs' k. MeshStore_setDelivery io q d s fs = Some (e, s', fs') \<and> flushed s s' \<and> log_rel fs' s' (drop k (set_delivery q d ms)) \<and>
    (q \<notin> m_seq ` set ms \<longrightarrow> e = ERROR_NOT_FOUND) \<and> (e \<noteq> ERROR_NONE \<or> length (segments s) < segmentCount (limits s) \<longrightarrow> k = 0)"
proof -
  have ord: "ordered (map e_seq (index s))" by (rule log_rel_ordered [OF assms(1)])
  have seqs: "e_seq ` set (index s) = m_seq ` set ms" using log_rel_seqs [OF assms(1)] by (metis set_map)
  show ?thesis
  proof (cases "findEntry q (index s)")
    case None
    then have "q \<notin> m_seq ` set ms" using findEntry_None [OF ord] seqs by simp
    then have "set_delivery q d ms = ms" unfolding set_delivery_def by (intro map_idI) auto
    with None assms(1) show ?thesis
      by (intro exI [of _ ERROR_NOT_FOUND] exI [of _ s] exI [of _ fs] exI [of _ 0]) (simp add: MeshStore_setDelivery_def flushed_def)
  next
    case (Some i)
    then have i: "i < length (index s)" "e_seq (index s ! i) = q" using findEntry_Some [OF ord] by simp_all
    note up = update_found [OF ord i, of "\<lambda>e. e\<lparr>e_delivery := d\<rparr>"]
    have "q \<in> m_seq ` set ms" using i seqs nth_mem by blast
    with appendRecord_delivery [OF log_rel_set_delivery [OF assms(1), of q d], of io q d] assms(2) Some show ?thesis
      by (auto simp: MeshStore_setDelivery_def up room_def flushed_def)
  qed
qed

section \<open>Reading\<close>

definition reads_all :: "store_io \<Rightarrow> disk \<Rightarrow> bool" where
  "reads_all io fs \<longleftrightarrow> (\<forall>p d. fs p = Some d \<longrightarrow> (\<exists>n. readable_bytes io p = Some n \<and> length d \<le> n))"

lemma reads_all_bytes: "reads_all io fs \<Longrightarrow> file_bytes io fs p = fs p"
  by (cases "fs p"; cases "readable_bytes io p") (fastforce simp: file_bytes_def reads_all_def)+

lemma readEntry_holds:
  assumes "entry_holds fs s e m" "reads_all io fs"
  shows "readEntry io s fs e = Some (ERROR_NONE, m)"
proof -
  from assms(1) obtain d m0 pre post where d: "place fs s (e_segment e) = Some d" "m = (canonical m0)\<lparr>m_delivery := e_delivery e\<rparr>" "message_wf m0"
    "d = pre @ record_bytes RECORD_TYPE_MESSAGE (message_bytes m0) @ post" "length pre = unat (e_offset e)"
    by (auto simp: entry_holds_def message_at_def)
  let ?r = "record_bytes RECORD_TYPE_MESSAGE (message_bytes m0) @ post"
  have n: "length (message_bytes m0) \<le> 314" by (rule message_bytes_length)
  have r: "drop (unat (e_offset e)) d = ?r" using d(4,5) by simp
  have l: "length ?r = 6 + length (message_bytes m0) + length post" by simp
  have len: "record_length ?r = length (message_bytes m0)" using n by (intro record_length_bytes) simp
  have bs: "take (length (message_bytes m0)) (drop 6 ?r) = message_bytes m0" by (simp add: record_bytes_def)
  have des: "deserializeMessage (message_bytes m0) = (True, canonical m0)"
    using d(3) by (intro deserialize_message) (simp_all add: message_wf_def mesh_sizes)
  show ?thesis
    using d(1,2) n by (auto simp: readEntry_def place_def reads_all_bytes [OF assms(2)] r l len bs des Let_def mesh_sizes
      simp del: length_drop length_append drop_append split: if_splits)
qed

end
