(* ===== verification/Mesh_Damage.thy ===== *)
theory Mesh_Damage
  imports Mesh_Log
begin

text \<open>
  Whatever bytes the segment files hold, the message log opens without an access outside of an array, and every message
  that is read has its arrays at their sizes and its strings terminated.
\<close>

section \<open>What is read has its type\<close>

definition string_ok :: "nat \<Rightarrow> byte list \<Rightarrow> bool" where
  "string_ok n s \<longleftrightarrow> length s = n + 1 \<and> s ! n = 0"

definition message_typed :: "MeshMessage \<Rightarrow> bool" where
  "message_typed m \<longleftrightarrow> string_ok MESH_BACKEND_ID_MAX_LENGTH (m_backend m) \<and> string_ok MESH_NAME_MAX_LENGTH (m_sender_name m) \<and>
     string_ok MESH_TEXT_MAX_LENGTH (m_text m) \<and> length (addr_bytes (m_peer m)) = MESH_ADDRESS_MAX_LENGTH \<and>
     unat (addr_length (m_peer m)) \<le> MESH_ADDRESS_MAX_LENGTH"

lemma r_bytes_length: "length (fst (r_bytes n r)) = n"
  by (auto simp: r_bytes_def)

lemma string_ok_pad: "length xs \<le> n \<Longrightarrow> string_ok n (xs @ replicate (n + 1 - length xs) 0)"
  by (simp add: string_ok_def nth_append)

lemma r_string_ok: "string_ok n (fst (r_string n r))"
proof -
  obtain len r1 where l: "r_u8 r = (len, r1)" by fastforce
  show ?thesis
  proof (cases "unat len > n")
    case True
    then show ?thesis using string_ok_pad [of "[]" n] by (simp add: r_string_def l)
  next
    case False
    obtain bs r2 where b: "r_bytes (unat len) r1 = (bs, r2)" by fastforce
    then have "length bs = unat len" using r_bytes_length [of "unat len" r1] by simp
    with string_ok_pad [of bs n] False show ?thesis by (simp add: r_string_def l b)
  qed
qed

lemma string_ok_case: "string_ok n (fst p) \<Longrightarrow> p = (x, y) \<Longrightarrow> string_ok n x"
  by simp

lemma deserialize_typed:
  assumes "deserializeMessage bs = (True, m)"
  shows "message_typed m"
proof -
  have s: "string_ok n x" if "r_string n r = (x, r')" for n x r r' using r_string_ok [of n r] that by simp
  have b: "length x = n" if "r_bytes n r = (x, r')" for n x r r' using r_bytes_length [of n r] that by simp
  show ?thesis using assms
    by (auto simp: deserializeMessage_def Let_def message_typed_def dest!: s b split: prod.splits if_splits)
qed

lemma typed_hash: "message_typed m \<Longrightarrow> \<exists>h. hashPeer (m_peer m) = Some h"
  by (simp add: message_typed_def hashPeer_def)

lemma typed_delivery: "message_typed m \<Longrightarrow> message_typed (m\<lparr>m_delivery := d\<rparr>)"
  by (simp add: message_typed_def)

section \<open>Opening any files\<close>

definition in_files :: "IndexEntry list \<Rightarrow> bool" where
  "in_files idx \<longleftrightarrow> (\<forall>e\<in>set idx. e_segment e \<noteq> PENDING)"

lemma in_files_update: "in_files idx \<Longrightarrow> in_files (idx[i := (idx ! i)\<lparr>e_delivery := d\<rparr>])"
  by (cases "i < length idx") (auto simp: in_files_def list_update_beyond dest!: subsetD [OF set_update_subset_insert])

lemma applyRecord_total:
  assumes "in_files (index s)" "g \<noteq> PENDING"
  shows "\<exists>s'. applyRecord t bs g off s = Some s' \<and> in_files (index s') \<and> directory s' = directory s \<and> buffer s' = buffer s"
proof -
  obtain ok m where d: "deserializeMessage bs = (ok, m)" by fastforce
  obtain q r where r: "r_u32 (Reader_new bs) = (q, r)" by fastforce
  show ?thesis
  proof (cases "t = RECORD_TYPE_MESSAGE \<and> ok")
    case True
    then obtain h where "hashPeer (m_peer m) = Some h" using deserialize_typed [of bs m] typed_hash [of m] d by auto
    with True d assms show ?thesis by (simp add: applyRecord_def makeIndexEntry_def in_files_def)
  next
    case False
    with d r assms in_files_update [OF assms(1)] show ?thesis
      by (cases "findEntry q (index s)") (auto simp: applyRecord_def)
  qed
qed

lemma scan_total:
  "in_files (index s) \<Longrightarrow> g \<noteq> PENDING \<Longrightarrow>
   \<exists>n s'. scan bs g off s = Some (n, s') \<and> in_files (index s') \<and> directory s' = directory s \<and> buffer s' = buffer s"
proof (induction bs g off s rule: scan.induct)
  case (1 bs g off s)
  let ?n = "record_length bs"
  obtain s1 where s1: "applyRecord (bs ! 2) (take ?n (drop RECORD_HEADER_SIZE bs)) g off s = Some s1" "in_files (index s1)"
    "directory s1 = directory s" "buffer s1 = buffer s"
    using applyRecord_total [OF "1.prems"] by blast
  show ?case
  proof (cases "length bs < RECORD_HEADER_SIZE \<or> bs ! 0 \<noteq> RECORD_MAGIC_0 \<or> bs ! 1 \<noteq> RECORD_MAGIC_1 \<or> ?n > MESSAGE_PAYLOAD_MAX_SIZE \<or> length bs < RECORD_HEADER_SIZE + ?n")
    case True
    then have "scan bs g off s = Some (off, s)" by (subst scan.simps) (auto simp: Let_def)
    with "1.prems" show ?thesis by simp
  next
    case False
    then have "scan bs g off s = scan (drop (RECORD_HEADER_SIZE + ?n) bs) g (off + of_nat (RECORD_HEADER_SIZE + ?n)) s1"
      by (subst scan.simps) (simp add: Let_def s1(1))
    moreover have "\<exists>n s'. scan (drop (RECORD_HEADER_SIZE + ?n) bs) g (off + of_nat (RECORD_HEADER_SIZE + ?n)) s1 = Some (n, s') \<and>
        in_files (index s') \<and> directory s' = directory s1 \<and> buffer s' = buffer s1"
      using False by (intro "1.IH" s1(1,2) "1.prems"(2) refl) auto
    ultimately show ?thesis using s1(3,4) by simp
  qed
qed

lemma scan_segments_total:
  "in_files (index s) \<Longrightarrow> PENDING \<notin> set segs \<Longrightarrow>
   \<exists>n s'. scan_segments io fs segs lv s = Some (n, s') \<and> in_files (index s') \<and> directory s' = directory s \<and> buffer s' = buffer s"
proof (induction segs arbitrary: lv s)
  case (Cons g segs)
  have "\<exists>n s'. scanSegment io fs g s = Some (n, s') \<and> in_files (index s') \<and> directory s' = directory s \<and> buffer s' = buffer s"
    using scan_total [OF Cons.prems(1), of g] Cons.prems by (auto simp: scanSegment_def split: option.splits)
  then obtain n s' where s': "scanSegment io fs g s = Some (n, s')" "in_files (index s')" "directory s' = directory s" "buffer s' = buffer s" by blast
  with Cons.IH [OF s'(2), of n] Cons.prems(2) show ?case by simp
qed simp

definition names_below_pending :: "store_io \<Rightarrow> bool" where
  "names_below_pending io \<longleftrightarrow> (case listing io of None \<Rightarrow> True
     | Some ns \<Rightarrow> \<forall>x\<in>set ns. is_segment_name x \<longrightarrow> segment_of_name (long_bits io) x \<noteq> PENDING)"

lemma open_total:
  assumes "buffer t = None" "names_below_pending io"
  shows "\<exists>e s. MeshStore_open io path t fs = Some (e, s, fs) \<and> in_files (index s)"
proof -
  let ?t = "t\<lparr>index := [], segments := [], currentSegmentSize := 0, nextSeq := 1\<rparr>"
  have c: "MeshStore_close io t fs = Some (?t, fs)" using assms(1) by (simp add: MeshStore_close_def)
  have nil: "in_files []" by (simp add: in_files_def)
  show ?thesis
  proof (cases "(made io \<noteq> ERROR_NONE \<and> made io \<noteq> ERROR_ALREADY_EXISTS) \<or> \<not> memory io \<or> listing io = None")
    case True
    then show ?thesis using nil by (auto simp: MeshStore_open_def c Let_def)
  next
    case False
    then obtain ns where ns: "listing io = Some ns" by auto
    let ?segs = "sort (map (segment_of_name (long_bits io)) (filter is_segment_name ns))"
    let ?s = "?t\<lparr>directory := path, buffer := Some [], segments := ?segs\<rparr>"
    have "PENDING \<notin> set ?segs" using assms(2) ns by (auto simp: names_below_pending_def)
    then obtain n s' where s': "scan_segments io fs ?segs 0 ?s = Some (n, s')" "in_files (index s')"
      using scan_segments_total [of ?s ?segs io fs 0] nil by auto
    with False ns show ?thesis
      by (cases "?segs = []") (auto simp: MeshStore_open_def c Let_def)
  qed
qed


section \<open>Reading any files\<close>

lemma readEntry_typed:
  assumes "e_segment e \<noteq> PENDING"
  shows "\<exists>r m. readEntry io s fs e = Some (r, m) \<and> (r = ERROR_NONE \<longrightarrow> message_typed m)"
  using assms deserialize_typed typed_delivery by (auto simp: readEntry_def Let_def split: option.split prod.split)

lemma history_loop_typed:
  "in_files es \<Longrightarrow> \<exists>ms. history_loop io s fs q n es = Some ms \<and> length ms \<le> n \<and> list_all message_typed ms"
proof (induction es arbitrary: n)
  case (Cons e es)
  have es: "in_files es" and e: "e_segment e \<noteq> PENDING" using Cons.prems by (simp_all add: in_files_def)
  obtain r m where r: "readEntry io s fs e = Some (r, m)" "r = ERROR_NONE \<longrightarrow> message_typed m" using readEntry_typed [OF e] by blast
  obtain ms1 where ms1: "history_loop io s fs q n es = Some ms1" "length ms1 \<le> n" "list_all message_typed ms1" using Cons.IH [OF es] by blast
  obtain ms2 where ms2: "history_loop io s fs q (n - 1) es = Some ms2" "length ms2 \<le> n - 1" "list_all message_typed ms2" using Cons.IH [OF es] by blast
  show ?case using r ms1 ms2 by (cases "n = 0") (auto simp: bind_eq_Some_conv)
qed simp



end
