(* ===== verification/Mesh_Settings.thy ===== *)
theory Mesh_Settings
  imports Mesh_Message Properties_File
begin

text \<open>
  The settings of the mesh service (\<open>Modules/mesh-module/source/mesh_settings.cpp\<close>), kept in a properties file.
  A string is the bytes of the C string before its end.
\<close>

section \<open>Settings\<close>

record MeshSettings =
  st_enabled :: bool
  st_backend :: "byte list"
  st_preset :: "byte list"
  st_node_name :: "byte list"
  st_radio :: "byte list"

definition MeshSettings_init :: MeshSettings where
  "MeshSettings_init = \<lparr>st_enabled = False, st_backend = [], st_preset = [], st_node_name = [], st_radio = []\<rparr>"

text \<open>The paths of the settings, what their directory and file answer, the order of the hash map of properties and the random number.\<close>

record settings_io =
  si_directory :: "string option"
  si_path :: "string option"
  si_made :: error_t
  si_alloc :: bool
  si_open :: io_faults      \<comment> \<open>while \<open>read_settings_file\<close> opens the file\<close>
  si_reclose :: io_faults   \<comment> \<open>while \<open>read_settings_file\<close> closes it\<close>
  si_reopen :: io_faults    \<comment> \<open>while \<open>mesh_settings_save\<close> opens it\<close>
  si_close :: io_faults     \<comment> \<open>while \<open>mesh_settings_save\<close> closes it\<close>
  si_order :: "PropertiesFile \<Rightarrow> (string \<times> string) list"
  si_random :: "32 word"

definition chars_of :: "byte list \<Rightarrow> string" where
  "chars_of bs = map (\<lambda>b. char_of (unat b)) bs"

definition KEY_ENABLED :: string where "KEY_ENABLED = ''enabled''"
definition KEY_BACKEND :: string where "KEY_BACKEND = ''backend''"
definition KEY_PRESET :: string where "KEY_PRESET = ''preset''"
definition KEY_NODE_NAME :: string where "KEY_NODE_NAME = ''nodeName''"
definition KEY_RADIO :: string where "KEY_RADIO = ''radio''"
definition LEGACY_DEFAULT_NODE_NAME :: string where "LEGACY_DEFAULT_NODE_NAME = ''Tactility''"

section \<open>Loading and saving\<close>

text \<open>The value of a key, if it fits into \<open>value\<close>.\<close>

definition setting_value :: "PropertiesFile \<Rightarrow> string \<Rightarrow> string option" where
  "setting_value file key = (case properties_file_get file key 64 of (e, v) \<Rightarrow> if e = ERROR_NONE then map_option c_str v else None)"

definition copy_setting :: "nat \<Rightarrow> string \<Rightarrow> byte list" where
  "copy_setting n v = take n (bytes_of v)"

text \<open>\<open>properties_file_close\<close> writes the file, here as it was read.\<close>

definition read_settings_file :: "settings_io \<Rightarrow> file_map \<Rightarrow> MeshSettings \<Rightarrow> MeshSettings \<times> file_map" where
  "read_settings_file io fs st = (case si_path io of
       None \<Rightarrow> (st, fs)
     | Some path \<Rightarrow> (case properties_file_open (si_alloc io) (si_open io) fs path of
         None \<Rightarrow> (st, fs)
       | Some file \<Rightarrow>
           let st = (case setting_value file KEY_ENABLED of Some v \<Rightarrow> st\<lparr>st_enabled := v = ''true''\<rparr> | None \<Rightarrow> st);
               st = (case setting_value file KEY_BACKEND of Some v \<Rightarrow> st\<lparr>st_backend := copy_setting MESH_BACKEND_ID_MAX_LENGTH v\<rparr> | None \<Rightarrow> st);
               st = (case setting_value file KEY_PRESET of Some v \<Rightarrow> st\<lparr>st_preset := copy_setting MESH_NAME_MAX_LENGTH v\<rparr> | None \<Rightarrow> st);
               st = (case setting_value file KEY_NODE_NAME of Some v \<Rightarrow>
                   if v \<noteq> '''' then st\<lparr>st_node_name := copy_setting MESH_NAME_MAX_LENGTH v\<rparr> else st | None \<Rightarrow> st);
               st = (case setting_value file KEY_RADIO of Some v \<Rightarrow> st\<lparr>st_radio := copy_setting MESH_NAME_MAX_LENGTH v\<rparr> | None \<Rightarrow> st)
           in (st, snd (properties_file_close (si_reclose io) (si_order io file) file fs))))"

definition mesh_settings_save :: "settings_io \<Rightarrow> MeshSettings \<Rightarrow> file_map \<Rightarrow> error_t \<times> file_map" where
  "mesh_settings_save io st fs = (case (si_directory io, si_path io) of
       (Some _, Some path) \<Rightarrow>
         if si_made io \<noteq> ERROR_NONE \<and> si_made io \<noteq> ERROR_ALREADY_EXISTS then (ERROR_RESOURCE, fs)
         else (case properties_file_open (si_alloc io) (si_reopen io) fs path of
             None \<Rightarrow> (ERROR_RESOURCE, fs)
           | Some file \<Rightarrow>
               let file = properties_file_set KEY_ENABLED (if st_enabled st then ''true'' else ''false'') file;
                   file = properties_file_set KEY_BACKEND (chars_of (st_backend st)) file;
                   file = properties_file_set KEY_PRESET (chars_of (st_preset st)) file;
                   file = properties_file_set KEY_NODE_NAME (chars_of (st_node_name st)) file;
                   file = properties_file_set KEY_RADIO (chars_of (st_radio st)) file
               in properties_file_close (si_close io) (si_order io file) file fs)
     | _ \<Rightarrow> (ERROR_BUFFER_OVERFLOW, fs))"

definition lower_hex :: "nat \<Rightarrow> char" where
  "lower_hex n = ''0123456789abcdef'' ! n"

text \<open>\<open>%08x\<close>\<close>

definition hex8 :: "32 word \<Rightarrow> string" where
  "hex8 w = map (\<lambda>i. lower_hex (unat w div 16 ^ i mod 16)) [7, 6, 5, 4, 3, 2, 1, 0]"

definition mesh_settings_load :: "settings_io \<Rightarrow> file_map \<Rightarrow> MeshSettings \<times> file_map" where
  "mesh_settings_load io fs = (case read_settings_file io fs MeshSettings_init of (st, fs) \<Rightarrow>
     if st_node_name st = [] \<or> st_node_name st = bytes_of LEGACY_DEFAULT_NODE_NAME then
       let st = st\<lparr>st_node_name := bytes_of (''TactilityUser-'' @ hex8 (si_random io))\<rparr> in (st, snd (mesh_settings_save io st fs))
     else (st, fs))"

section \<open>Saved settings are loaded again\<close>

lemma bytes_of_chars [simp]: "bytes_of (chars_of bs) = bs"
proof -
  have "unat b mod 256 = unat b" for b :: byte using unsigned_less [of b, where 'a = nat] by simp
  then show ?thesis by (simp add: bytes_of_def chars_of_def o_def)
qed

text \<open>A string that a line of the file can carry.\<close>

definition plain_text :: "nat \<Rightarrow> byte list \<Rightarrow> bool" where
  "plain_text n bs \<longleftrightarrow> length bs \<le> n \<and> 0 \<notin> set bs \<and> 0x0A \<notin> set bs \<and> rtrim (chars_of bs) = chars_of bs \<and>
     (bs = [] \<or> hd (chars_of bs) \<notin> set WS_LINE)"

definition plain_settings :: "MeshSettings \<Rightarrow> bool" where
  "plain_settings st \<longleftrightarrow> plain_text MESH_BACKEND_ID_MAX_LENGTH (st_backend st) \<and> plain_text MESH_NAME_MAX_LENGTH (st_preset st) \<and>
     plain_text MESH_NAME_MAX_LENGTH (st_node_name st) \<and> plain_text MESH_NAME_MAX_LENGTH (st_radio st) \<and>
     st_node_name st \<noteq> [] \<and> st_node_name st \<noteq> bytes_of LEGACY_DEFAULT_NODE_NAME"


lemma chars_of_NUL: "0 \<notin> set bs \<Longrightarrow> NUL \<notin> set (chars_of bs)"
proof
  assume z: "0 \<notin> set bs" "NUL \<in> set (chars_of bs)"
  then obtain b where b: "b \<in> set bs" "char_of (unat b) = NUL" by (auto simp: chars_of_def)
  then have "of_char (char_of (unat b) :: char) = (0 :: nat)" by (simp add:)
  then have "unat b mod 256 = 0" by simp
  then have "b = 0" using unsigned_less [of b, where 'a = nat] by (simp add: unat_eq_zero)
  with z(1) b(1) show False by simp
qed

lemma chars_of_LF: "0x0A \<notin> set bs \<Longrightarrow> CHR 0x0A \<notin> set (chars_of bs)"
proof
  assume z: "0x0A \<notin> set bs" "CHR 0x0A \<in> set (chars_of bs)"
  then obtain b where b: "b \<in> set bs" "char_of (unat b) = CHR 0x0A" by (auto simp: chars_of_def)
  then have "of_char (char_of (unat b) :: char) = (10 :: nat)" by simp
  then have "unat b mod 256 = 10" by simp
  then have "unat b = unat (0x0A :: byte)" using unsigned_less [of b, where 'a = nat] by simp
  then have "b = 0x0A" by (simp only: word_unat_eq_iff)
  with z(1) b(1) show False by simp
qed

lemma plain_line: "plain_text n bs \<Longrightarrow> k \<in> {KEY_BACKEND, KEY_PRESET, KEY_NODE_NAME, KEY_RADIO} \<Longrightarrow> line_entry (k, chars_of bs)"
  using chars_of_NUL [of bs] chars_of_LF [of bs] ws_field_line
  by (auto simp: plain_text_def line_entry_def KEY_BACKEND_def KEY_PRESET_def KEY_NODE_NAME_def KEY_RADIO_def WS_LINE_def WS_FIELD_def chars_of_def)

lemma flag_line: "line_entry (KEY_ENABLED, if b then ''true'' else ''false'')"
  by (simp add: line_entry_def KEY_ENABLED_def WS_LINE_def WS_FIELD_def)

lemma keys_distinct:
  "KEY_ENABLED \<noteq> KEY_BACKEND" "KEY_ENABLED \<noteq> KEY_PRESET" "KEY_ENABLED \<noteq> KEY_NODE_NAME" "KEY_ENABLED \<noteq> KEY_RADIO"
  "KEY_BACKEND \<noteq> KEY_PRESET" "KEY_BACKEND \<noteq> KEY_NODE_NAME" "KEY_BACKEND \<noteq> KEY_RADIO"
  "KEY_PRESET \<noteq> KEY_NODE_NAME" "KEY_PRESET \<noteq> KEY_RADIO" "KEY_NODE_NAME \<noteq> KEY_RADIO"
  by (simp_all add: KEY_ENABLED_def KEY_BACKEND_def KEY_PRESET_def KEY_NODE_NAME_def KEY_RADIO_def)

definition saved_entries :: "MeshSettings \<Rightarrow> (string \<rightharpoonup> string) \<Rightarrow> (string \<rightharpoonup> string)" where
  "saved_entries st m = m(KEY_ENABLED \<mapsto> (if st_enabled st then ''true'' else ''false''), KEY_BACKEND \<mapsto> chars_of (st_backend st),
     KEY_PRESET \<mapsto> chars_of (st_preset st), KEY_NODE_NAME \<mapsto> chars_of (st_node_name st), KEY_RADIO \<mapsto> chars_of (st_radio st))"

lemma setting_value_plain:
  assumes "pf_entries file k = Some (chars_of bs)" "plain_text n bs" "n \<le> 31"
  shows "setting_value file k = Some (chars_of bs)" "copy_setting n (chars_of bs) = bs"
proof -
  have l: "length (chars_of bs) + 1 \<le> 64" "length bs \<le> n" using assms(2,3) by (auto simp: plain_text_def chars_of_def)
  have "NUL \<notin> set (chars_of bs)" using assms(2) by (intro chars_of_NUL) (simp add: plain_text_def)
  then have "c_str (chars_of bs @ [NUL]) = chars_of bs" by (simp add: c_str_def takeWhile_tail takeWhile_append2 takeWhile_eq_all_conv) (metis takeWhile_eq_all_conv)
  with l assms(1) show "setting_value file k = Some (chars_of bs)" by (simp add: setting_value_def properties_file_get_def copy_out_def)
  show "copy_setting n (chars_of bs) = bs" using l(2) by (simp add: copy_setting_def)
qed

lemma saved_entries_line:
  assumes "plain_settings st" "\<forall>k v. m k = Some v \<longrightarrow> line_entry (k, v)" "map_of order = saved_entries st m" "distinct (map fst order)"
  shows "list_all line_entry order"
proof -
  have "line_entry (k, v)" if "saved_entries st m k = Some v" for k v
    using that assms(1,2) flag_line [of True] flag_line [of False] plain_line by (auto simp: saved_entries_def plain_settings_def split: if_splits)
  then have "line_entry p" if "p \<in> set order" for p
    using that assms(3,4) map_of_is_SomeI [of order "fst p" "snd p"] by (cases p) simp
  then show ?thesis by (simp add: list_all_iff)
qed

lemma saved_entries_rtrim:
  assumes "plain_settings st" "k \<in> {KEY_ENABLED, KEY_BACKEND, KEY_PRESET, KEY_NODE_NAME, KEY_RADIO}"
  shows "map_option rtrim (saved_entries st m k) = saved_entries st m k"
  using assms by (auto simp: saved_entries_def keys_distinct keys_distinct [symmetric] plain_settings_def plain_text_def rtrim_id WS_LINE_def)


definition some_settings :: MeshSettings where
  "some_settings = \<lparr>st_enabled = True, st_backend = bytes_of ''meshcore'', st_preset = bytes_of ''EU 868'', st_node_name = bytes_of ''Base camp'', st_radio = []\<rparr>"

definition some_settings_io :: settings_io where
  "some_settings_io = \<lparr>si_directory = Some ''/data/mesh'', si_path = Some ''/data/mesh/settings.properties'', si_made = ERROR_NONE, si_alloc = True,
     si_open = no_faults, si_reclose = no_faults, si_reopen = no_faults, si_close = no_faults,
     si_order = (\<lambda>f. [(KEY_RADIO, ''''), (KEY_ENABLED, ''true''), (KEY_PRESET, ''EU 868''), (KEY_BACKEND, ''meshcore''), (KEY_NODE_NAME, ''Base camp'')]),
     si_random = 0xC0FFEE\<rparr>"

lemma some_chars: "chars_of [] = []" "chars_of (bytes_of s) = s"
  by (simp_all add: chars_of_def bytes_of_def o_def unat_of_nat)


end
