(* ===== verification/Mesh_Queries.thy ===== *)
theory Mesh_Queries
  imports Mesh_Log
begin

text \<open>
  What the message log answers: with files that can be read, every query of \<open>Mesh_Store\<close> gives what the same query gives
  on the list of messages. Index entries are only a filter there, so that colliding peer hashes cannot show.
  With the operations of \<open>Mesh_Log\<close> this is the refinement of the log of messages.
\<close>

section \<open>The hash of a peer\<close>

lemma hashPeer_ok: "unat (addr_length a) \<le> length (addr_bytes a) \<Longrightarrow> \<exists>h. hashPeer a = Some h"
  by (simp add: hashPeer_def)

lemma hashPeer_zero: "hashPeer a = Some h \<Longrightarrow> h = 0 \<longleftrightarrow> addr_length a = 0"
proof -
  assume h: "hashPeer a = Some h"
  have "w OR 1 \<noteq> (0 :: 32 word)" for w
  proof
    assume "w OR 1 = (0 :: 32 word)"
    then have "bit (w OR 1) 0 = bit (0 :: 32 word) 0" by simp
    then show False by (simp add: bit_or_iff)
  qed
  with h show ?thesis by (auto simp: hashPeer_def split: if_splits)
qed

lemma hashPeer_same: "isSameAddress a b \<Longrightarrow> hashPeer a = Some h \<Longrightarrow> hashPeer b = Some h' \<Longrightarrow> h = h'"
  by (auto simp: hashPeer_def isSameAddress_def split: if_splits)

section \<open>Queries of the list of messages\<close>

definition before :: "32 word \<Rightarrow> MeshMessage \<Rightarrow> bool" where
  "before q m \<longleftrightarrow> q = 0 \<or> m_seq m < q"

definition in_conversation :: "byte list \<Rightarrow> MeshAddress option \<Rightarrow> byte \<Rightarrow> MeshMessage \<Rightarrow> bool" where
  "in_conversation backend peer channel m \<longleftrightarrow> same_backend (m_backend m) backend \<and>
     (case peer of Some a \<Rightarrow> isSameAddress (m_peer m) a | None \<Rightarrow> addr_length (m_peer m) = 0 \<and> m_channel m = channel)"

definition awaits :: "byte list \<Rightarrow> byte \<Rightarrow> MeshMessage \<Rightarrow> bool" where
  "awaits backend d m \<longleftrightarrow> m_delivery m = d \<and> m_outgoing m \<and> same_backend (m_backend m) backend"

definition log_get :: "32 word \<Rightarrow> MeshMessage list \<Rightarrow> error_t \<times> MeshMessage" where
  "log_get q ms = (case find (\<lambda>m. m_seq m = q) ms of None \<Rightarrow> (ERROR_NOT_FOUND, MeshMessage_init) | Some m \<Rightarrow> (ERROR_NONE, m))"

definition log_history :: "32 word \<Rightarrow> nat \<Rightarrow> MeshMessage list \<Rightarrow> MeshMessage list" where
  "log_history q n ms = take n (filter (before q) (rev ms))"

definition log_conversation :: "byte list \<Rightarrow> MeshAddress option \<Rightarrow> byte \<Rightarrow> 32 word \<Rightarrow> nat \<Rightarrow> MeshMessage list \<Rightarrow> MeshMessage list" where
  "log_conversation backend peer channel q n ms = take n (filter (\<lambda>m. before q m \<and> in_conversation backend peer channel m) (rev ms))"

definition log_outgoing :: "byte list \<Rightarrow> byte \<Rightarrow> MeshMessage list \<Rightarrow> 32 word list" where
  "log_outgoing backend d ms = map m_seq (filter (awaits backend d) ms)"

section \<open>The loops\<close>

lemma entry_holds_fields:
  "entry_holds fs s e m \<Longrightarrow> e_seq e = m_seq m \<and> e_channel e = m_channel m \<and> e_delivery e = m_delivery m \<and> hashPeer (m_peer m) = Some (e_peerHash e)"
  by (auto simp: entry_holds_def)

lemma take_filter_step: "take n (filter P (x # xs)) = (if n = 0 then [] else if P x then x # take (n - 1) (filter P xs) else take n (filter P xs))"
  by (cases n) simp_all

lemma conversation_loop_reads:
  assumes "list_all2 (entry_holds fs s) es ms" "reads_all io fs"
    and h: "(case peer of None \<Rightarrow> Some 0 | Some a \<Rightarrow> hashPeer a) = Some h"
  shows "conversation_loop io s fs backend peer h channel q n es = Some (take n (filter (\<lambda>m. before q m \<and> in_conversation backend peer channel m) ms))"
  using assms(1)
proof (induction arbitrary: n rule: list_all2_induct)
  case (Cons e es m ms)
  note f = entry_holds_fields [OF Cons(1)] and r = readEntry_holds [OF Cons(1) assms(2)]
  have skip: "in_conversation backend peer channel m \<Longrightarrow> \<not> (e_peerHash e \<noteq> h \<or> peer = None \<and> e_channel e \<noteq> channel)"
    using f h hashPeer_zero [of "m_peer m"] hashPeer_same [of "m_peer m"] by (auto simp: in_conversation_def split: option.splits)
  have b: "q \<noteq> 0 \<and> m_seq m \<ge> q \<longleftrightarrow> \<not> before q m" by (auto simp: before_def)
  let ?skip = "e_peerHash e \<noteq> h \<or> peer = None \<and> e_channel e \<noteq> channel"
  consider "n = 0" | "n \<noteq> 0" "\<not> before q m" | "n \<noteq> 0" "before q m" "?skip" | "n \<noteq> 0" "before q m" "\<not> ?skip" by blast
  then show ?case
  proof cases
    case 3
    then have "\<not> in_conversation backend peer channel m" using skip by blast
    with 3 show ?thesis unfolding take_filter_step by (simp add: Cons.IH f b)
  next
    case 4
    then have "in_conversation backend peer channel m \<longleftrightarrow> same_backend (m_backend m) backend \<and>
      \<not> (case peer of Some a \<Rightarrow> \<not> isSameAddress (m_peer m) a | None \<Rightarrow> addr_length (m_peer m) \<noteq> 0)"
      using f by (cases peer) (simp_all add: in_conversation_def)
    moreover have "?skip = False" "(q \<noteq> 0 \<and> e_seq e \<ge> q) = False" "(n = 0) = False" using 4 b f by auto
    then have "conversation_loop io s fs backend peer h channel q n (e # es) =
      (if \<not> same_backend (m_backend m) backend then conversation_loop io s fs backend peer h channel q n es
       else if (case peer of Some a \<Rightarrow> \<not> isSameAddress (m_peer m) a | None \<Rightarrow> addr_length (m_peer m) \<noteq> 0)
       then conversation_loop io s fs backend peer h channel q n es
       else do { xs \<leftarrow> conversation_loop io s fs backend peer h channel q (n - 1) es; Some (m # xs) })"
      by (simp only: conversation_loop.simps if_False r Option.bind.simps prod.case simp_thms)
    ultimately show ?thesis using 4 unfolding take_filter_step Cons.IH by simp
  qed (simp_all add: take_filter_step Cons.IH f b del: filter.simps)
qed simp

lemma history_loop_reads:
  assumes "list_all2 (entry_holds fs s) es ms" "reads_all io fs"
  shows "history_loop io s fs q n es = Some (take n (filter (before q) ms))"
  using assms(1)
proof (induction arbitrary: n rule: list_all2_induct)
  case (Cons e es m ms)
  with entry_holds_fields [OF Cons(1)] readEntry_holds [OF Cons(1) assms(2)] show ?case
    unfolding take_filter_step by (auto simp: before_def [of q m])
qed simp

lemma outgoing_loop_reads:
  assumes "list_all2 (entry_holds fs s) es ms" "reads_all io fs"
  shows "outgoing_loop io s fs backend d es = Some (log_outgoing backend d ms)"
  using assms(1)
proof (induction rule: list_all2_induct)
  case (Cons e es m ms)
  with entry_holds_fields [OF Cons(1)] readEntry_holds [OF Cons(1) assms(2)] show ?case
    by (auto simp: log_outgoing_def awaits_def)
qed (simp add: log_outgoing_def)

lemma get_reads:
  assumes "log_rel fs s ms" "reads_all io fs"
  shows "MeshStore_get io q s fs = Some (log_get q ms)"
proof -
  note ord = log_rel_ordered [OF assms(1)]
  have all: "list_all2 (entry_holds fs s) (index s) ms" using assms(1) by (simp add: log_rel_def)
  have seqs: "e_seq ` set (index s) = m_seq ` set ms" using log_rel_seqs [OF assms(1)] by (metis set_map)
  show ?thesis
  proof (cases "findEntry q (index s)")
    case None
    then have "q \<notin> m_seq ` set ms" using findEntry_None [OF ord] seqs by simp
    then have "find (\<lambda>m. m_seq m = q) ms = None" by (auto simp: find_None_iff)
    with None show ?thesis by (simp add: MeshStore_get_def log_get_def)
  next
    case (Some i)
    then have i: "i < length (index s)" "e_seq (index s ! i) = q" using findEntry_Some [OF ord] by simp_all
    then have h: "entry_holds fs s (index s ! i) (ms ! i)" "i < length ms" using all by (auto simp: list_all2_conv_all_nth)
    have "distinct (map m_seq ms)" using assms(1) by (simp add: log_rel_def strict_sorted_iff)
    then have "find (\<lambda>m. m_seq m = q) ms = Some (ms ! i)"
      using h i(2) entry_holds_seq [OF h(1)] unfolding find_Some_iff
      by (intro exI [of _ i]) (auto simp: distinct_conv_nth)
    with Some show ?thesis by (simp add: MeshStore_get_def log_get_def readEntry_holds [OF h(1) assms(2)])
  qed
qed

section \<open>The operations on the log of messages\<close>

datatype store_op = Add MeshMessage | SetDelivery "32 word" byte | Flush | FlushIfNeeded "64 word" "64 word"

fun store_step :: "store_io \<Rightarrow> store_op \<Rightarrow> MeshStore \<Rightarrow> disk \<Rightarrow> (error_t \<times> MeshStore \<times> disk) option" where
  "store_step io (Add m) s fs = map_option (\<lambda>(e, m, s, fs). (e, s, fs)) (MeshStore_add io m s fs)"
| "store_step io (SetDelivery q d) s fs = MeshStore_setDelivery io q d s fs"
| "store_step io Flush s fs = flush io s fs"
| "store_step io (FlushIfNeeded now age) s fs = map_option (\<lambda>(s, fs). (ERROR_NONE, s, fs)) (flushIfNeeded io now age s fs)"

text \<open>What an operation with the result \<open>e\<close> does to the list of messages, \<open>q\<close> being the next sequence number.\<close>

fun log_step :: "store_op \<Rightarrow> error_t \<Rightarrow> 32 word \<Rightarrow> MeshMessage list \<Rightarrow> MeshMessage list" where
  "log_step (Add m) e q ms = (if e = ERROR_NONE then ms @ [canonical (m\<lparr>m_seq := q\<rparr>)] else ms)"
| "log_step (SetDelivery q' d) e q ms = set_delivery q' d ms"
| "log_step Flush e q ms = ms"
| "log_step (FlushIfNeeded now age) e q ms = ms"

fun op_ok :: "store_op \<Rightarrow> MeshStore \<Rightarrow> bool" where
  "op_ok (Add m) s \<longleftrightarrow> message_wf m \<and> nextSeq s < - 1"
| "op_ok _ s \<longleftrightarrow> True"

definition next_seq_after :: "store_op \<Rightarrow> 32 word \<Rightarrow> 32 word" where
  "next_seq_after c q = (case c of Add _ \<Rightarrow> q + 1 | _ \<Rightarrow> q)"

lemma log_rel_firstPending: "log_rel fs s ms \<Longrightarrow> log_rel fs (s\<lparr>firstPendingMs := t\<rparr>) ms"
  by (simp add: log_rel_def store_ok_def bufferUsed_def entry_holds_frame)

lemma flushIfNeeded_rel:
  assumes "log_rel fs s ms" "room s"
  shows "\<exists>s' fs' k. flushIfNeeded io now age s fs = Some (s', fs') \<and> log_rel fs' s' (drop k ms) \<and> flushed s s' \<and>
    (length (segments s) < segmentCount (limits s) \<longrightarrow> k = 0)"
proof (cases "bufferUsed s = 0")
  case True
  with assms(1) show ?thesis by (intro exI [of _ s] exI [of _ fs] exI [of _ 0]) (simp add: flushIfNeeded_def flushed_def)
next
  case False
  let ?s = "if firstPendingMs s = 0 then s\<lparr>firstPendingMs := now\<rparr> else s"
  have r: "log_rel fs ?s ms" "room ?s" using assms by (auto intro: log_rel_firstPending simp: room_def)
  have same: "flushed ?s s' = flushed s s'" "segments ?s = segments s" "limits ?s = limits s" for s' by (simp_all add: flushed_def)
  show ?thesis
  proof (cases "bufferUsed ?s * 4 \<ge> bufferSize (limits ?s) * 3 \<or> now - firstPendingMs ?s \<ge> age")
    case True
    obtain e s' fs' k where f: "flush io ?s fs = Some (e, s', fs')" "log_rel fs' s' (drop k ms)" "flushed ?s s'"
      "e \<noteq> ERROR_NONE \<or> length (segments ?s) < segmentCount (limits ?s) \<longrightarrow> k = 0"
      using flush_rel [OF r] by blast
    have "flushIfNeeded io now age s fs = Some (s', fs')"
      using False True f(1) unfolding flushIfNeeded_def Let_def by (simp del: not_None_eq)
    with f same show ?thesis by auto
  next
    case no: False
    then have "flushIfNeeded io now age s fs = Some (?s, fs)"
      using False unfolding flushIfNeeded_def Let_def by simp
    with r(1) show ?thesis by (intro exI [of _ ?s] exI [of _ fs] exI [of _ 0]) (simp add: flushed_def)
  qed
qed

lemma store_step_rel:
  assumes "log_rel fs s ms" "room s" "op_ok c s"
  shows "\<exists>e s' fs' k. store_step io c s fs = Some (e, s', fs') \<and> log_rel fs' s' (drop k (log_step c e (nextSeq s) ms)) \<and>
    nextSeq s' = next_seq_after c (nextSeq s) \<and> limits s' = limits s \<and> directory s' = directory s \<and>
    (length (segments s) < segmentCount (limits s) \<longrightarrow> k = 0)"
proof (cases c)
  case (Add m)
  obtain e s' fs' k where a: "MeshStore_add io m s fs = Some (e, m\<lparr>m_seq := nextSeq s\<rparr>, s', fs')"
    "nextSeq s' = nextSeq s + 1" "limits s' = limits s" "directory s' = directory s"
    "log_rel fs' s' (if e = ERROR_NONE then drop k ms @ [canonical (m\<lparr>m_seq := nextSeq s\<rparr>)] else ms)"
    "length (segments s) < segmentCount (limits s) \<longrightarrow> k = 0"
    using add_rel [OF assms(1,2), of m io] assms(3) Add by auto
  let ?k = "if e = ERROR_NONE then min k (length ms) else 0"
  have "log_rel fs' s' (drop ?k (log_step c e (nextSeq s) ms))" using a(5) Add by (auto simp: min_def split: if_splits)
  moreover have "length (segments s) < segmentCount (limits s) \<longrightarrow> ?k = 0" using a(6) by simp
  moreover have "store_step io c s fs = Some (e, s', fs')" using a(1) Add by simp
  moreover have "nextSeq s' = next_seq_after c (nextSeq s)" using a(2) Add by (simp add: next_seq_after_def)
  ultimately show ?thesis using a(3,4) by blast
next
  case (SetDelivery q d)
  with setDelivery_rel [OF assms(1,2), of io q d] show ?thesis by (auto simp: flushed_def next_seq_after_def)
next
  case Flush
  with flush_rel [OF assms(1,2), of io] show ?thesis by (auto simp: flushed_def next_seq_after_def)
next
  case (FlushIfNeeded now age)
  obtain s' fs' k where f: "flushIfNeeded io now age s fs = Some (s', fs')" "log_rel fs' s' (drop k ms)" "flushed s s'"
    "length (segments s) < segmentCount (limits s) \<longrightarrow> k = 0"
    using flushIfNeeded_rel [OF assms(1,2), of io now age] by blast
  with FlushIfNeeded show ?thesis
    by (intro exI [of _ ERROR_NONE] exI [of _ s'] exI [of _ fs'] exI [of _ k]) (simp add: flushed_def next_seq_after_def)
qed


section \<open>The log refines the list of its messages\<close>

lemma log_rel_queries:
  assumes "log_rel fs s ms" "reads_all io fs" "peer = None \<or> (\<exists>a. peer = Some a \<and> unat (addr_length a) \<le> length (addr_bytes a))"
  shows "MeshStore_get io q s fs = Some (log_get q ms) \<and> getHistory io q n s fs = Some (log_history q n ms) \<and>
    getConversation io backend peer channel q n s fs = Some (log_conversation backend peer channel q n ms) \<and>
    findOutgoing io backend d s fs = Some (log_outgoing backend d ms) \<and> getMessageCount s = length ms"
proof -
  have all: "list_all2 (entry_holds fs s) (index s) ms" using assms(1) by (simp add: log_rel_def)
  have all_rev: "list_all2 (entry_holds fs s) (rev (index s)) (rev ms)" using all by simp
  obtain h where h: "(case peer of None \<Rightarrow> Some 0 | Some a \<Rightarrow> hashPeer a) = Some h"
    using assms(3) hashPeer_ok by (cases peer) auto
  have "getConversation io backend peer channel q n s fs = Some (log_conversation backend peer channel q n ms)"
    unfolding getConversation_def h Option.bind.simps log_conversation_def by (rule conversation_loop_reads [OF all_rev assms(2) h])
  moreover have "getHistory io q n s fs = Some (log_history q n ms)"
    unfolding getHistory_def log_history_def by (rule history_loop_reads [OF all_rev assms(2)])
  moreover have "findOutgoing io backend d s fs = Some (log_outgoing backend d ms)"
    unfolding findOutgoing_def by (rule outgoing_loop_reads [OF all assms(2)])
  moreover have "getMessageCount s = length ms" using all by (simp add: getMessageCount_def list_all2_lengthD)
  ultimately show ?thesis using get_reads [OF assms(1,2)] by blast
qed

definition no_segments :: "store_io \<Rightarrow> string \<Rightarrow> disk \<Rightarrow> bool" where
  "no_segments io path fs \<longleftrightarrow> (\<exists>ns. listing io = Some ns \<and> (\<forall>x\<in>set ns. \<not> is_segment_name x)) \<and> (\<forall>n. fs (getSegmentPath path n) = None)"

lemma open_new:
  assumes "no_segments io path fs" "made io = ERROR_NONE" "memory io"
  shows "MeshStore_open io path (MeshStore_new l) fs = Some (ERROR_NONE, (MeshStore_new l)\<lparr>directory := path, buffer := Some [], segments := [0]\<rparr>, fs)"
proof -
  obtain ns where ns: "listing io = Some ns" "filter is_segment_name ns = []" using assms(1) by (auto simp: no_segments_def filter_empty_conv)
  show ?thesis using assms(2,3) by (simp add: MeshStore_open_def MeshStore_close_def MeshStore_new_def ns Let_def)
qed

lemma log_rel_new:
  assumes "limits_ok l" "\<forall>n. fs (getSegmentPath path n) = None"
  shows "log_rel fs ((MeshStore_new l)\<lparr>directory := path, buffer := Some [], segments := [0]\<rparr>) []"
  using assms by (simp add: log_rel_def store_ok_def MeshStore_new_def bufferUsed_def PENDING_def file_or_empty_def word_less_nat_alt unsigned_minus_1_eq_mask mask_eq_exp_minus_1)

text \<open>
  C8: while it is open, the message log is a refinement of the list of its messages in order of their sequence numbers, whatever
  the file system answers to its writes: every operation gives a result (no access outside of the buffer, the index or the segments),
  a successful add appends the message with the next sequence number, a change of a delivery state changes that message only, a failed write loses nothing, and
  messages are only dropped from the oldest end and only when all segments of the budget are in use. When the files can be read,
  lookup, history, conversations (hash collisions included), outgoing messages and the count are those of the list.
\<close>

theorem store_refines_log:
  assumes "log_rel fs s ms" "room s" "op_ok c s"
  shows "\<exists>e s' fs' k ms'. store_step io c s fs = Some (e, s', fs') \<and> ms' = drop k (log_step c e (nextSeq s) ms) \<and>
    log_rel fs' s' ms' \<and> nextSeq s' = next_seq_after c (nextSeq s) \<and> (0 < k \<longrightarrow> segmentCount (limits s) \<le> length (segments s)) \<and>
    (\<forall>io' q n backend peer channel d. reads_all io' fs' \<longrightarrow> unat (addr_length peer) \<le> length (addr_bytes peer) \<longrightarrow>
       MeshStore_get io' q s' fs' = Some (log_get q ms') \<and>
       getHistory io' q n s' fs' = Some (log_history q n ms') \<and>
       getConversation io' backend None channel q n s' fs' = Some (log_conversation backend None channel q n ms') \<and>
       getConversation io' backend (Some peer) channel q n s' fs' = Some (log_conversation backend (Some peer) channel q n ms') \<and>
       findOutgoing io' backend d s' fs' = Some (log_outgoing backend d ms') \<and> getMessageCount s' = length ms')"
proof -
  obtain e s' fs' k where r: "store_step io c s fs = Some (e, s', fs')" "log_rel fs' s' (drop k (log_step c e (nextSeq s) ms))"
    "nextSeq s' = next_seq_after c (nextSeq s)" "length (segments s) < segmentCount (limits s) \<longrightarrow> k = 0"
    using store_step_rel [OF assms, of io] by blast
  let ?ms = "drop k (log_step c e (nextSeq s) ms)"
  have k: "0 < k \<longrightarrow> segmentCount (limits s) \<le> length (segments s)" using r(4) by linarith
  from log_rel_queries [OF r(2)] show ?thesis
    by (intro exI [of _ e] exI [of _ s'] exI [of _ fs'] exI [of _ k] exI [of _ ?ms] conjI r k refl allI impI) blast+
qed

definition some_limits :: Limits where "some_limits = \<lparr>bufferSize = 16384, segmentSize = 65536, segmentCount = 8\<rparr>"

definition some_store :: MeshStore where
  "some_store = (MeshStore_new some_limits)\<lparr>directory := ''/data'', buffer := Some [], segments := [0]\<rparr>"

definition some_message :: MeshMessage where
  "some_message = MeshMessage_init\<lparr>m_outgoing := True, m_wall_time := 5, m_delivery := delivery_code DELIVERY_QUEUED\<rparr>"

lemma some_store_log: "log_rel Map.empty some_store [] \<and> room some_store \<and> op_ok (Add some_message) some_store"
proof -
  have "limits_ok some_limits" by (simp add: limits_ok_def some_limits_def)
  then have "log_rel Map.empty some_store []" unfolding some_store_def by (rule log_rel_new) simp
  moreover have "room some_store" by (simp add: room_def some_store_def PENDING_def word_gt_0)
  moreover have "op_ok (Add some_message) some_store"
    by (simp add: some_message_def some_store_def MeshStore_new_def message_wf_def MeshMessage_init_def mesh_sizes
      word_less_nat_alt unsigned_minus_1_eq_mask mask_eq_exp_minus_1)
  ultimately show ?thesis by blast
qed

theorem store_refines_log_witness:
  "\<forall>io. \<exists>e s' fs' k. store_step io (Add some_message) some_store Map.empty = Some (e, s', fs') \<and>
     log_rel fs' s' (drop k (if e = ERROR_NONE then [canonical (some_message\<lparr>m_seq := 1\<rparr>)] else []))"
proof
  fix io
  have q: "nextSeq some_store = 1" by (simp add: some_store_def MeshStore_new_def)
  obtain e s' fs' k ms' where "store_step io (Add some_message) some_store Map.empty = Some (e, s', fs')"
    "ms' = drop k (log_step (Add some_message) e (nextSeq some_store) [])" "log_rel fs' s' ms'"
    using store_refines_log [of Map.empty some_store "[]" "Add some_message" io] some_store_log by blast
  then show "\<exists>e s' fs' k. store_step io (Add some_message) some_store Map.empty = Some (e, s', fs') \<and>
     log_rel fs' s' (drop k (if e = ERROR_NONE then [canonical (some_message\<lparr>m_seq := 1\<rparr>)] else []))"
    unfolding q by (intro exI [of _ e] exI [of _ s'] exI [of _ fs'] exI [of _ k]) (simp only: log_step.simps append_Nil)
qed

end
