(* ===== verification/Mesh_Interface.thy ===== *)
theory Mesh_Interface
  imports Mesh_Settings Mesh_Queries
begin

text \<open>
  The data of the mesh service: the types of \<open>mesh/mesh.h\<close>, \<open>mesh/backend.h\<close> and \<open>drivers/radio.h\<close> that it works on, its state
  (\<open>struct Globals\<close> and \<open>struct MeshHost\<close> of \<open>Modules/mesh-module/source/mesh_service.cpp\<close>) and what it asks of the rest of the system.

  \<^bold>\<open>Backends.\<close> A backend is a record of functions over a state \<open>'b\<close> of its own. Its functions call the host while they run, so
  each is a tree of host calls: \<open>Host c k\<close> makes the call \<open>c\<close> and goes on with \<open>k\<close> of the answer, \<open>NodeName k\<close> asks for the name of
  the node. Files and clocks that a backend uses are its own affair.

  \<^bold>\<open>Steps.\<close> An operation is a function on the state, with the answers of the environment during it as an argument. Time stands still
  during a step. Strings are the bytes before their end, arrays of saved structs are all of their bytes.
  Two flags are added for the proofs: \<open>h_aborted\<close> is raised where the program dereferences a null pointer or leaves an array,
  and \<open>h_spent\<close> where the message log is written although its 32 bit numbers for messages or segments are used up.
\<close>

section \<open>Types of the mesh interface\<close>

datatype MeshState = MESH_STATE_OFF | MESH_STATE_ON | MESH_STATE_NO_RADIO | MESH_STATE_RADIO_BUSY | MESH_STATE_NO_REGION
  | MESH_STATE_NO_BACKEND | MESH_STATE_ERROR

datatype MeshEventType = MESH_EVENT_STATE | MESH_EVENT_MESSAGE | MESH_EVENT_DELIVERY | MESH_EVENT_NODE | MESH_EVENT_FRAME
  | MESH_EVENT_CONTACT | MESH_EVENT_CHANNEL

datatype MeshFrameKind = MESH_FRAME_UNREADABLE | MESH_FRAME_ADVERT

datatype MeshRadioKind = MESH_RADIO_LORA | MESH_RADIO_ESPNOW

record MeshFrame =
  fr_kind :: MeshFrameKind
  fr_length :: "16 word"
  fr_signal :: signal
  fr_from :: MeshAddress
  fr_name :: "byte list"

record MeshEvent =
  ev_timestamp :: "64 word"
  ev_type :: MeshEventType
  ev_state :: MeshState
  ev_seq :: "32 word"
  ev_delivery :: MeshDeliveryState
  ev_frame :: MeshFrame

definition MESH_EVENT_QUEUE_CAPACITY :: nat where "MESH_EVENT_QUEUE_CAPACITY = 8"

record MeshEventSubscription =
  sub_bit :: "32 word"
  sub_group :: ptr
  sub_queue :: "MeshEvent list"
  sub_head :: nat
  sub_count :: nat

record MeshNode =
  nd_backend :: "byte list"
  nd_address :: MeshAddress
  nd_name :: "byte list"
  nd_last_heard_ms :: "64 word"
  nd_signal :: signal

text \<open>A contact has its arrays as they are in the file.\<close>

record MeshContact =
  ct_backend :: "byte list"
  ct_address :: MeshAddress
  ct_name :: "byte list"

definition empty_address :: MeshAddress where
  "empty_address = \<lparr>addr_length = 0, addr_bytes = replicate MESH_ADDRESS_MAX_LENGTH 0\<rparr>"

definition empty_frame :: MeshFrame where
  "empty_frame = \<lparr>fr_kind = MESH_FRAME_UNREADABLE, fr_length = 0, fr_signal = (0, 0), fr_from = empty_address, fr_name = []\<rparr>"

section \<open>The radio\<close>

datatype RadioParameter = PARAMETER_POWER | PARAMETER_FREQUENCY | PARAMETER_BANDWIDTH | PARAMETER_SPREADING_FACTOR | PARAMETER_CODING_RATE
  | PARAMETER_SYNC_WORD | PARAMETER_PREAMBLE_LENGTH | PARAMETER_LBT | PARAMETER_CHANNEL

datatype RadioState = RADIO_STATE_OFF | RADIO_STATE_ON_PENDING | RADIO_STATE_ON | RADIO_STATE_OFF_PENDING | RADIO_STATE_ERROR

datatype RadioTransmissionState = TRANSMISSION_QUEUED | TRANSMISSION_PENDING | TRANSMISSION_TRANSMITTED | TRANSMISSION_TIMEOUT
  | TRANSMISSION_ERROR | TRANSMISSION_CHANNEL_BUSY

definition RADIO_RX_MAX_PACKET_LENGTH :: nat where "RADIO_RX_MAX_PACKET_LENGTH = 255"

text \<open>A radio device: its name, whether it is started, whether it sends and receives LoRa and ESP-NOW, what taking a reference answers.\<close>

record radio_device =
  rd_name :: "byte list"
  rd_ready :: bool
  rd_lora :: bool
  rd_espnow :: bool
  rd_get :: error_t

text \<open>What the service asks a radio to do, in order. A frame that the radio accepted is there with its time and its estimated air time.\<close>

datatype radio_call = RadioEnabled bool | RadioModulate RadioModulation | RadioParam RadioParameter int | RadioAcquire | RadioRelease
  | RadioSent "64 word" "byte list" "32 word"

record radio_answers =
  ra_set_enabled :: "bool \<Rightarrow> error_t"
  ra_modulation :: "RadioModulation \<Rightarrow> error_t"
  ra_parameter :: "RadioParameter \<Rightarrow> int \<Rightarrow> error_t"
  ra_acquire :: error_t
  ra_rx_subscribe :: error_t
  ra_tx_subscribe :: error_t
  ra_region :: RadioRegion
  ra_state :: "error_t \<times> RadioState"
  ra_transmit :: "byte list \<Rightarrow> error_t \<times> 32 word"

section \<open>Backends\<close>

datatype 'r action = Done 'r | Host host_call "int \<Rightarrow> 'r action" | NodeName "byte list \<Rightarrow> 'r action"

record 'b MeshBackendApi =
  b_id :: "byte list"
  b_presets :: "byte list list"
  b_create :: "'b option action"
  b_destroy :: "'b \<Rightarrow> unit action"
  b_get_radio_profile :: "'b \<Rightarrow> RadioRegion \<Rightarrow> RadioModulation \<Rightarrow> nat \<Rightarrow> ('b \<times> error_t \<times> MeshRadioProfile) action"
  b_on_start :: "'b \<Rightarrow> ('b \<times> unit) action"
  b_on_receive :: "'b \<Rightarrow> byte list \<Rightarrow> signal \<Rightarrow> ('b \<times> bool) action"
  b_on_tick :: "'b \<Rightarrow> ('b \<times> unit) action"
  b_send_text :: "'b \<Rightarrow> 32 word \<Rightarrow> MeshAddress option \<Rightarrow> byte \<Rightarrow> byte list \<Rightarrow> ('b \<times> error_t) action"
  b_get_channels :: "('b \<Rightarrow> nat \<Rightarrow> ('b \<times> error_t \<times> MeshChannel list) action) option"
  b_set_channel :: "('b \<Rightarrow> MeshChannel \<Rightarrow> ('b \<times> error_t) action) option"
  b_get_contact_uri :: "('b \<Rightarrow> MeshAddress option \<Rightarrow> byte list \<Rightarrow> nat \<Rightarrow> ('b \<times> error_t \<times> byte list) action) option"
  b_is_valid_contact_address :: "('b \<Rightarrow> MeshAddress \<Rightarrow> ('b \<times> bool) action) option"
  b_on_node_name_changed :: "('b \<Rightarrow> ('b \<times> unit) action) option"
  b_remove_channel :: "('b \<Rightarrow> byte \<Rightarrow> ('b \<times> error_t) action) option"

section \<open>State\<close>

record Frame =
  f_data :: "byte list"
  f_seq :: "32 word"
  f_busyRetries :: int

record AirtimeRecord =
  at_timeMs :: "64 word"
  at_airtimeMs :: "32 word"

text \<open>Work that is posted to the service thread. \<open>Sync\<close>: the caller waits for it.\<close>

datatype sync_request = Sync_Unregister ptr | Sync_RawSend "byte list" "byte list" | Sync_ValidAddress MeshAddress
  | Sync_ContactUri "MeshAddress option" "byte list" nat | Sync_GetChannels nat | Sync_SetChannel MeshChannel | Sync_RemoveChannel byte

datatype sync_answer = Answer_None | Answer_Error error_t | Answer_Valid bool | Answer_Uri error_t "byte list" | Answer_Channels error_t "MeshChannel list"

datatype work = Do_Configure | Do_ReselectRadio | Do_SendStored "32 word" | Do_EraseFrames "32 word" | Do_AnnounceName | Do_Sync sync_request

record 'b mesh =
  \<comment> \<open>\<open>struct Globals\<close>, the service pointer and the settings file\<close>
  g_backends :: "ptr list"
  g_settings :: MeshSettings
  g_settingsLoaded :: bool
  g_subscriptions :: "ptr list"
  g_subs :: "ptr \<Rightarrow> MeshEventSubscription"
  g_signals :: "(ptr \<times> 32 word) list"
  g_service :: bool
  g_files :: file_map
  \<comment> \<open>\<open>struct MeshHost\<close>, with the files of its store and of its contacts\<close>
  h_state :: MeshState
  h_store :: MeshStore
  h_disk :: disk
  h_nodes :: "MeshNode list"
  h_contacts :: "MeshContact list"
  h_contacts_file :: "byte list option"
  h_activeBackend :: "byte list"
  h_calls :: "work list"
  h_radio :: "radio_device option"
  h_radioAcquired :: bool
  h_rxSubscribed :: bool
  h_txSubscribed :: bool
  h_running :: bool
  h_api :: "ptr option"
  h_backend :: "'b option"
  h_profile :: MeshRadioProfile
  h_appliedRegion :: RadioRegion
  h_txQueue :: "Frame list"
  h_txInFlight :: bool
  h_txId :: "32 word"
  h_txFrame :: Frame
  h_airtime :: "AirtimeRecord list"
  h_dutyCycleLogged :: bool
  h_lastTickMs :: "64 word"
  h_answer :: "sync_answer option"   \<comment> \<open>of the call that its caller waits for\<close>
  \<comment> \<open>what the service did to radios, the references it holds on them, and the flags\<close>
  h_radio_log :: "radio_call list"
  h_refs :: int
  h_aborted :: bool
  h_spent :: bool

text \<open>Saving contacts: what paths and directory answer, and how many bytes opening, reading and writing the file yield.\<close>

record contacts_io =
  ci_path :: bool
  ci_directory :: bool
  ci_made :: error_t
  ci_readable :: "nat option"
  ci_writable :: "nat option"

record 'b mesh_world =
  w_api :: "ptr \<Rightarrow> 'b MeshBackendApi"
  w_micros :: "64 word"
  w_time :: "64 word"
  w_store :: store_io
  w_settings :: settings_io
  w_contacts :: contacts_io
  w_radios :: "radio_device list"
  w_radio :: radio_answers
  w_airtime :: "MeshRadioProfile \<Rightarrow> nat \<Rightarrow> 32 word"

definition getMillis :: "'b mesh_world \<Rightarrow> 64 word" where
  "getMillis W = w_micros W div 1000"

definition MESH_MAX_BACKENDS :: nat where "MESH_MAX_BACKENDS = 4"
definition MAX_NODES :: nat where "MAX_NODES = 128"
definition TX_QUEUE_LIMIT :: nat where "TX_QUEUE_LIMIT = 16"
definition TICK_INTERVAL_MS :: "64 word" where "TICK_INTERVAL_MS = 1000"
definition FLUSH_MAX_AGE_MS :: "64 word" where "FLUSH_MAX_AGE_MS = 30000"
definition DUTY_CYCLE_WINDOW_MS :: nat where "DUTY_CYCLE_WINDOW_MS = 3600 * 1000"
definition CHANNEL_BUSY_RETRIES :: int where "CHANNEL_BUSY_RETRIES = 3"
definition MIN_VALID_WALL_TIME :: int where "MIN_VALID_WALL_TIME = 1700000000"
definition MAX_CONTACTS :: nat where "MAX_CONTACTS = 64"

named_theorems service_sizes \<open>the limits of the mesh service\<close>

lemmas [service_sizes] = MESH_MAX_BACKENDS_def MAX_NODES_def TX_QUEUE_LIMIT_def CHANNEL_BUSY_RETRIES_def MAX_CONTACTS_def
  MESH_EVENT_QUEUE_CAPACITY_def RADIO_RX_MAX_PACKET_LENGTH_def

definition abort :: "'b mesh \<Rightarrow> 'b mesh" where
  "abort h = h\<lparr>h_aborted := True\<rparr>"

end
