(* ===== verification/Mesh_Events.thy ===== *)
theory Mesh_Events
  imports Mesh_Interface Event_Groups
begin

text \<open>
  The events of the mesh service (\<open>mesh_service.cpp\<close>): subscriptions, each a ring of \<open>MESH_EVENT_QUEUE_CAPACITY\<close> events that its owner
  drains, and the state of the service. A subscriber is woken by a bit of its event group; the signals that were sent are \<open>g_signals\<close>.
\<close>

section \<open>A new service\<close>

definition DEFAULT_LIMITS :: Limits where
  "DEFAULT_LIMITS = \<lparr>bufferSize = 8 * 1024, segmentSize = 32 * 1024, segmentCount = 16\<rparr>"

definition MeshRadioProfile_init :: MeshRadioProfile where
  "MeshRadioProfile_init = \<lparr>modulation = MODULATION_NONE, frequency = 0, bandwidth = 0, spreading_factor = 0, coding_rate = 0, sync_word = 0,
     preamble_length = 0, power = 0, radio_channel = 0\<rparr>"

definition Frame_init :: Frame where
  "Frame_init = \<lparr>f_data = [], f_seq = 0, f_busyRetries = 0\<rparr>"

text \<open>A new \<open>MeshHost\<close>; globals and files stay.\<close>

definition createService :: "'b mesh \<Rightarrow> 'b mesh" where
  "createService h = h\<lparr>h_state := MESH_STATE_OFF, h_store := MeshStore_new DEFAULT_LIMITS, h_nodes := [], h_contacts := [],
     h_activeBackend := [], h_calls := [], h_radio := None, h_radioAcquired := False, h_rxSubscribed := False, h_txSubscribed := False,
     h_running := False, h_api := None, h_backend := None, h_profile := MeshRadioProfile_init, h_appliedRegion := REGION_UNSET,
     h_txQueue := [], h_txInFlight := False, h_txId := 0, h_txFrame := Frame_init, h_airtime := [], h_dutyCycleLogged := False,
     h_lastTickMs := 0, h_answer := None\<rparr>"

text \<open>The globals of a device that has started; \<open>subs\<close>: the subscriptions of the apps, not registered yet.\<close>

definition mesh_boot :: "(ptr \<Rightarrow> MeshEventSubscription) \<Rightarrow> file_map \<Rightarrow> disk \<Rightarrow> byte list option \<Rightarrow> 'b mesh" where
  "mesh_boot subs settings_files store_files contacts_file = createService
    \<lparr>g_backends = [], g_settings = MeshSettings_init, g_settingsLoaded = False, g_subscriptions = [], g_subs = subs, g_signals = [],
     g_service = False, g_files = settings_files,
     h_state = MESH_STATE_OFF, h_store = MeshStore_new DEFAULT_LIMITS, h_disk = store_files, h_nodes = [], h_contacts = [],
     h_contacts_file = contacts_file, h_activeBackend = [], h_calls = [], h_radio = None, h_radioAcquired = False, h_rxSubscribed = False,
     h_txSubscribed = False, h_running = False, h_api = None, h_backend = None, h_profile = MeshRadioProfile_init,
     h_appliedRegion = REGION_UNSET, h_txQueue = [], h_txInFlight = False, h_txId = 0, h_txFrame = Frame_init, h_airtime = [],
     h_dutyCycleLogged = False, h_lastTickMs = 0, h_answer = None, h_radio_log = [], h_refs = 0, h_aborted = False, h_spent = False\<rparr>"

section \<open>Emitting\<close>

definition push_event :: "MeshEvent \<Rightarrow> MeshEventSubscription \<Rightarrow> MeshEventSubscription" where
  "push_event event sub = sub\<lparr>sub_queue := (sub_queue sub)[(sub_head sub + sub_count sub) mod MESH_EVENT_QUEUE_CAPACITY := event],
     sub_count := sub_count sub + 1\<rparr>"

fun queue_loop :: "MeshEvent \<Rightarrow> ptr list \<Rightarrow> 'b mesh \<Rightarrow> 'b mesh" where
  "queue_loop event [] h = h"
| "queue_loop event (p # ps) h = (let sub = g_subs h p in
     if sub_count sub \<ge> MESH_EVENT_QUEUE_CAPACITY then queue_loop event ps h
     else queue_loop event ps (h\<lparr>g_subs := (g_subs h)(p := push_event event sub), g_signals := g_signals h @ [(sub_group sub, sub_bit sub)]\<rparr>))"

definition queueEvent :: "MeshEvent \<Rightarrow> 'b mesh \<Rightarrow> 'b mesh" where
  "queueEvent event h = queue_loop event (g_subscriptions h) h"

definition emitEvent :: "'b mesh_world \<Rightarrow> MeshEventType \<Rightarrow> MeshState \<Rightarrow> 32 word \<Rightarrow> MeshDeliveryState \<Rightarrow> 'b mesh \<Rightarrow> 'b mesh" where
  "emitEvent W type st seq delivery = queueEvent \<lparr>ev_timestamp = w_micros W, ev_type = type, ev_state = st, ev_seq = seq,
     ev_delivery = delivery, ev_frame = empty_frame\<rparr>"

definition emitFrame :: "'b mesh_world \<Rightarrow> MeshState \<Rightarrow> MeshFrameKind \<Rightarrow> nat \<Rightarrow> signal \<Rightarrow> MeshAddress option \<Rightarrow> byte list option \<Rightarrow> 'b mesh \<Rightarrow> 'b mesh" where
  "emitFrame W st kind len sig from nm = queueEvent \<lparr>ev_timestamp = w_micros W, ev_type = MESH_EVENT_FRAME, ev_state = st, ev_seq = 0,
     ev_delivery = DELIVERY_RECEIVED,
     ev_frame = \<lparr>fr_kind = kind, fr_length = of_nat len, fr_signal = sig, fr_from = (case from of Some a \<Rightarrow> a | None \<Rightarrow> empty_address),
       fr_name = (case nm of Some s \<Rightarrow> take MESH_NAME_MAX_LENGTH (c_string s) | None \<Rightarrow> [])\<rparr>\<rparr>"

definition setState :: "'b mesh_world \<Rightarrow> MeshState \<Rightarrow> 'b mesh \<Rightarrow> 'b mesh" where
  "setState W st h = (if h_state h \<noteq> st then emitEvent W MESH_EVENT_STATE st 0 DELIVERY_RECEIVED (h\<lparr>h_state := st\<rparr>) else h)"

fun mesh_state_to_string :: "MeshState \<Rightarrow> string" where
  "mesh_state_to_string MESH_STATE_OFF = ''off''"
| "mesh_state_to_string MESH_STATE_ON = ''on''"
| "mesh_state_to_string MESH_STATE_NO_RADIO = ''no radio''"
| "mesh_state_to_string MESH_STATE_RADIO_BUSY = ''radio busy''"
| "mesh_state_to_string MESH_STATE_NO_REGION = ''no region''"
| "mesh_state_to_string MESH_STATE_NO_BACKEND = ''no backend''"
| "mesh_state_to_string MESH_STATE_ERROR = ''error''"

section \<open>Subscriptions\<close>

text \<open>\<open>g\<close>: the event group at the address \<open>tg\<close>, or that of the subscription; \<open>os\<close>: the event groups of the operating system.\<close>

definition mesh_event_subscribe :: "'g freertos \<Rightarrow> ptr \<Rightarrow> ptr \<Rightarrow> 'g TaskEventGroup \<Rightarrow> 'b mesh \<Rightarrow> error_t \<times> 'g TaskEventGroup \<times> 'b mesh" where
  "mesh_event_subscribe os sub tg g h = (case task_event_group_claim_bit g of (err, b, g) \<Rightarrow>
     if err \<noteq> ERROR_NONE then (err, g, h)
     else if sub \<in> set (g_subscriptions h) then (ERROR_INVALID_STATE, task_event_group_release_bit os g (the b), h)
     else (ERROR_NONE, g, h\<lparr>g_subs := (g_subs h)(sub := (g_subs h sub)\<lparr>sub_bit := the b, sub_group := tg, sub_head := 0, sub_count := 0\<rparr>),
       g_subscriptions := sub # g_subscriptions h\<rparr>))"

definition mesh_event_unsubscribe :: "'g freertos \<Rightarrow> ptr \<Rightarrow> 'g TaskEventGroup \<Rightarrow> 'b mesh \<Rightarrow> error_t \<times> 'g TaskEventGroup \<times> 'b mesh" where
  "mesh_event_unsubscribe os sub g h =
     (if sub \<in> set (g_subscriptions h)
      then (ERROR_NONE, task_event_group_release_bit os g (sub_bit (g_subs h sub)), h\<lparr>g_subscriptions := remove1 sub (g_subscriptions h)\<rparr>)
      else (ERROR_NOT_FOUND, g, h))"

definition mesh_event_poll :: "ptr \<Rightarrow> 'b mesh \<Rightarrow> (error_t \<times> MeshEvent option) \<times> 'b mesh" where
  "mesh_event_poll p h = (let sub = g_subs h p in
     if sub_count sub > 0 then ((ERROR_NONE, Some (sub_queue sub ! sub_head sub)),
       h\<lparr>g_subs := (g_subs h)(p := sub\<lparr>sub_head := (sub_head sub + 1) mod MESH_EVENT_QUEUE_CAPACITY, sub_count := sub_count sub - 1\<rparr>)\<rparr>)
     else ((ERROR_TIMEOUT, None), h))"

section \<open>What the events of a subscription are\<close>

definition ring_ok :: "MeshEventSubscription \<Rightarrow> bool" where
  "ring_ok sub \<longleftrightarrow> length (sub_queue sub) = MESH_EVENT_QUEUE_CAPACITY \<and> sub_head sub < MESH_EVENT_QUEUE_CAPACITY \<and> sub_count sub \<le> MESH_EVENT_QUEUE_CAPACITY"

definition events_of :: "MeshEventSubscription \<Rightarrow> MeshEvent list" where
  "events_of sub = map (\<lambda>i. sub_queue sub ! ((sub_head sub + i) mod MESH_EVENT_QUEUE_CAPACITY)) [0..<sub_count sub]"

definition subs_ok :: "'b mesh \<Rightarrow> bool" where
  "subs_ok h \<longleftrightarrow> (\<forall>p. length (sub_queue (g_subs h p)) = MESH_EVENT_QUEUE_CAPACITY) \<and> distinct (g_subscriptions h) \<and> (\<forall>p\<in>set (g_subscriptions h). ring_ok (g_subs h p))"

text \<open>The events of every registered subscription after an event: appended where there is room.\<close>

definition deliver :: "MeshEvent \<Rightarrow> MeshEvent list \<Rightarrow> MeshEvent list" where
  "deliver e es = (if length es < MESH_EVENT_QUEUE_CAPACITY then es @ [e] else es)"

lemma ring_distinct:
  assumes "i < (n :: nat)" "j < n" "(a + i) mod n = (a + j) mod n"
  shows "i = j"
proof -
  obtain q r where "a + i + n * q = a + j + n * r" using assms(3) by (metis nat_mod_eq_iff)
  then have "i + n * q = j + n * r" by simp
  with assms(1,2) show ?thesis by (metis mod_less mod_mult_self2)
qed

lemma push_event_events:
  assumes "ring_ok sub" "sub_count sub < MESH_EVENT_QUEUE_CAPACITY"
  shows "ring_ok (push_event e sub)" "events_of (push_event e sub) = events_of sub @ [e]"
proof -
  let ?n = MESH_EVENT_QUEUE_CAPACITY and ?h = "sub_head sub" and ?c = "sub_count sub"
  show "ring_ok (push_event e sub)" using assms by (simp add: ring_ok_def push_event_def)
  have "(?h + ?c) mod ?n \<noteq> (?h + i) mod ?n" if "i < ?c" for i
    using ring_distinct [of ?c ?n i ?h] that assms(2) by auto
  then have "map (\<lambda>i. (sub_queue sub)[(?h + ?c) mod ?n := e] ! ((?h + i) mod ?n)) [0..<?c] = events_of sub"
    by (auto simp: events_of_def intro!: nth_list_update_neq)
  moreover have "(?h + ?c) mod ?n < length (sub_queue sub)" using assms(1) by (simp add: ring_ok_def service_sizes)
  ultimately show "events_of (push_event e sub) = events_of sub @ [e]" by (simp add: push_event_def events_of_def)
qed

lemma queue_loop_spec:
  assumes "distinct ps" "\<forall>p\<in>set ps. ring_ok (g_subs h p)"
  shows "\<exists>subs signals. queue_loop e ps h = h\<lparr>g_subs := subs, g_signals := signals\<rparr> \<and>
    (\<forall>p. if p \<in> set ps then ring_ok (subs p) \<and> events_of (subs p) = deliver e (events_of (g_subs h p)) else subs p = g_subs h p)"
  using assms
proof (induction ps arbitrary: h)
  case Nil
  show ?case by (rule exI [of _ "g_subs h"], rule exI [of _ "g_signals h"]) simp
next
  case (Cons p ps)
  have len: "length (events_of s) = sub_count s" for s by (simp add: events_of_def)
  show ?case
  proof (cases "sub_count (g_subs h p) \<ge> MESH_EVENT_QUEUE_CAPACITY")
    case True
    from Cons.IH [of h] Cons.prems obtain subs signals where s: "queue_loop e ps h = h\<lparr>g_subs := subs, g_signals := signals\<rparr>"
      "\<forall>q. if q \<in> set ps then ring_ok (subs q) \<and> events_of (subs q) = deliver e (events_of (g_subs h q)) else subs q = g_subs h q" by (auto elim!: exE conjE)
    with Cons.prems True show ?thesis
      by (intro exI [of _ subs] exI [of _ signals]) (auto simp: Let_def deliver_def len split: if_splits)
  next
    case False
    let ?s = "push_event e (g_subs h p)"
    let ?h = "h\<lparr>g_subs := (g_subs h)(p := ?s), g_signals := g_signals h @ [(sub_group (g_subs h p), sub_bit (g_subs h p))]\<rparr>"
    have push: "ring_ok ?s" "events_of ?s = deliver e (events_of (g_subs h p))"
      using push_event_events [of "g_subs h p" e] False Cons.prems by (simp_all add: deliver_def len)
    have "distinct ps" "\<forall>q\<in>set ps. ring_ok (g_subs ?h q)" using Cons.prems by auto
    from Cons.IH [OF this] obtain subs signals where s: "queue_loop e ps ?h = ?h\<lparr>g_subs := subs, g_signals := signals\<rparr>"
      "\<forall>q. if q \<in> set ps then ring_ok (subs q) \<and> events_of (subs q) = deliver e (events_of (g_subs ?h q)) else subs q = g_subs ?h q" by auto
    with Cons.prems False push show ?thesis
      by (intro exI [of _ subs] exI [of _ signals]) (auto simp: Let_def split: if_splits)
  qed
qed

lemma queueEvent_subs_ok:
  assumes "subs_ok h"
  shows "subs_ok (queueEvent e h)" "\<exists>subs signals. queueEvent e h = h\<lparr>g_subs := subs, g_signals := signals\<rparr>"
proof -
  obtain subs signals where q: "queueEvent e h = h\<lparr>g_subs := subs, g_signals := signals\<rparr>"
    "\<forall>p. if p \<in> set (g_subscriptions h) then ring_ok (subs p) \<and> events_of (subs p) = deliver e (events_of (g_subs h p)) else subs p = g_subs h p"
    using queue_loop_spec [of "g_subscriptions h" h e] assms by (auto simp: queueEvent_def subs_ok_def)
  then show "subs_ok (queueEvent e h)" using assms by (auto simp: subs_ok_def ring_ok_def split: if_splits)
  show "\<exists>subs signals. queueEvent e h = h\<lparr>g_subs := subs, g_signals := signals\<rparr>" using q(1) by blast
qed

lemma poll_events:
  assumes "ring_ok sub"
  shows "sub_count sub = 0 \<Longrightarrow> events_of sub = []"
    "0 < sub_count sub \<Longrightarrow> let s = sub\<lparr>sub_head := (sub_head sub + 1) mod MESH_EVENT_QUEUE_CAPACITY, sub_count := sub_count sub - 1\<rparr> in
       ring_ok s \<and> events_of sub = sub_queue sub ! sub_head sub # events_of s"
proof -
  show "events_of sub = []" if "sub_count sub = 0" using that by (simp add: events_of_def)
  assume c: "0 < sub_count sub"
  have "[0..<sub_count sub] = 0 # map Suc [0..<sub_count sub - 1]" using c by (simp add: map_Suc_upt upt_conv_Cons)
  with assms show "let s = sub\<lparr>sub_head := (sub_head sub + 1) mod MESH_EVENT_QUEUE_CAPACITY, sub_count := sub_count sub - 1\<rparr> in
       ring_ok s \<and> events_of sub = sub_queue sub ! sub_head sub # events_of s"
    by (simp add: events_of_def ring_ok_def Let_def service_sizes mod_simps) linarith
qed

text \<open>
  C15: an event reaches every subscription, in order. Emitting appends the event to the events of each registered subscription that holds fewer than
  eight, the others keep what they have and lose the new one; polling takes the oldest event, and times out where there is none.
  Subscriptions that are not registered are left alone, and so is the rest of the service.
\<close>

theorem events_fifo:
  assumes "subs_ok h"
  shows "subs_ok (queueEvent e h) \<and>
    (\<forall>p. events_of (g_subs (queueEvent e h) p) =
       (if p \<in> set (g_subscriptions h) then deliver e (events_of (g_subs h p)) else events_of (g_subs h p))) \<and>
    (\<forall>p\<in>set (g_subscriptions h). case mesh_event_poll p h of ((r, ev), h') \<Rightarrow>
       (case events_of (g_subs h p) of [] \<Rightarrow> r = ERROR_TIMEOUT \<and> ev = None \<and> h' = h
        | x # xs \<Rightarrow> r = ERROR_NONE \<and> ev = Some x \<and> events_of (g_subs h' p) = xs \<and> subs_ok h')) \<and>
    (\<exists>subs signals. queueEvent e h = h\<lparr>g_subs := subs, g_signals := signals\<rparr>)"
proof -
  obtain subs signals where q: "queueEvent e h = h\<lparr>g_subs := subs, g_signals := signals\<rparr>"
    "\<forall>p. if p \<in> set (g_subscriptions h) then ring_ok (subs p) \<and> events_of (subs p) = deliver e (events_of (g_subs h p)) else subs p = g_subs h p"
    using queue_loop_spec [of "g_subscriptions h" h e] assms by (auto simp: queueEvent_def subs_ok_def)
  have "case mesh_event_poll p h of ((r, ev), h') \<Rightarrow>
       (case events_of (g_subs h p) of [] \<Rightarrow> r = ERROR_TIMEOUT \<and> ev = None \<and> h' = h
        | x # xs \<Rightarrow> r = ERROR_NONE \<and> ev = Some x \<and> events_of (g_subs h' p) = xs \<and> subs_ok h')" if "p \<in> set (g_subscriptions h)" for p
    using poll_events [of "g_subs h p"] assms that by (auto simp: subs_ok_def mesh_event_poll_def Let_def split: list.split)
  then show ?thesis using q queueEvent_subs_ok(1) [OF assms, of e] by auto
qed

definition demo_event :: "32 word \<Rightarrow> MeshEvent" where
  "demo_event q = \<lparr>ev_timestamp = 0, ev_type = MESH_EVENT_MESSAGE, ev_state = MESH_STATE_ON, ev_seq = q, ev_delivery = DELIVERY_QUEUED, ev_frame = empty_frame\<rparr>"

text \<open>A subscription whose ring has wrapped around, with three events.\<close>

definition demo_subscription :: MeshEventSubscription where
  "demo_subscription = \<lparr>sub_bit = 1, sub_group = 0, sub_queue = map (\<lambda>i. demo_event (of_nat i)) [0..<8], sub_head = 6, sub_count = 3\<rparr>"

definition demo_subscribed :: "nat mesh" where
  "demo_subscribed = (mesh_boot (\<lambda>_. demo_subscription) Map.empty Map.empty None)\<lparr>g_subscriptions := [7]\<rparr>"

theorem events_fifo_witness:
  "events_of (g_subs (queueEvent (demo_event 9) demo_subscribed) 7) = map demo_event [6, 7, 0, 9]"
proof -
  have ok: "subs_ok demo_subscribed"
    by (simp add: demo_subscribed_def subs_ok_def mesh_boot_def createService_def ring_ok_def demo_subscription_def service_sizes)
  have "events_of (g_subs demo_subscribed 7) = map demo_event [6, 7, 0]" "7 \<in> set (g_subscriptions demo_subscribed)"
    by (simp_all add: demo_subscribed_def mesh_boot_def createService_def events_of_def demo_subscription_def service_sizes upt_rec)
  with events_fifo [OF ok, of "demo_event 9"] show ?thesis by (simp add: deliver_def service_sizes)
qed

end
