(* ===== verification/Mesh_Contacts.thy ===== *)
theory Mesh_Contacts
  imports Mesh_Events
begin

text \<open>
  The functions of the mesh service that its backends call (\<open>mesh_service.cpp\<close>), and what they rest on: the message log, the saved
  contacts with their file, and the nodes that were heard. \<open>run_action\<close> runs a function of a backend.
\<close>

section \<open>The message log\<close>

definition spend :: "'b mesh \<Rightarrow> 'b mesh" where
  "spend h = h\<lparr>h_spent := h_spent h \<or> \<not> (room (h_store h) \<and> nextSeq (h_store h) < - 1)\<rparr>"

definition store_add :: "'b mesh_world \<Rightarrow> MeshMessage \<Rightarrow> 'b mesh \<Rightarrow> (error_t \<times> MeshMessage) \<times> 'b mesh" where
  "store_add W m h = (case MeshStore_add (w_store W) m (h_store h) (h_disk h) of
       None \<Rightarrow> ((ERROR_UNDEFINED, m), abort (spend h))
     | Some (e, m, s, fs) \<Rightarrow> ((e, m), (spend h)\<lparr>h_store := s, h_disk := fs\<rparr>))"

definition store_get :: "'b mesh_world \<Rightarrow> 32 word \<Rightarrow> 'b mesh \<Rightarrow> (error_t \<times> MeshMessage) \<times> 'b mesh" where
  "store_get W seq h = (case MeshStore_get (w_store W) seq (h_store h) (h_disk h) of
       None \<Rightarrow> ((ERROR_UNDEFINED, MeshMessage_init), abort h)
     | Some r \<Rightarrow> (r, h))"

definition store_outgoing :: "'b mesh_world \<Rightarrow> byte list \<Rightarrow> MeshDeliveryState \<Rightarrow> 'b mesh \<Rightarrow> 32 word list \<times> 'b mesh" where
  "store_outgoing W backend delivery h = (case findOutgoing (w_store W) backend (delivery_code delivery) (h_store h) (h_disk h) of
       None \<Rightarrow> ([], abort h)
     | Some seqs \<Rightarrow> (seqs, h))"

definition setDelivery :: "'b mesh_world \<Rightarrow> 32 word \<Rightarrow> MeshDeliveryState \<Rightarrow> 'b mesh \<Rightarrow> 'b mesh" where
  "setDelivery W seq delivery h = (case MeshStore_setDelivery (w_store W) seq (delivery_code delivery) (h_store h) (h_disk h) of
       None \<Rightarrow> abort (spend h)
     | Some (e, s, fs) \<Rightarrow> let h = (spend h)\<lparr>h_store := s, h_disk := fs\<rparr> in
         if e = ERROR_NONE then emitEvent W MESH_EVENT_DELIVERY (h_state h) seq delivery h else h)"

section \<open>Contacts\<close>

definition MESH_CONTACT_SIZE :: nat where "MESH_CONTACT_SIZE = 81"    \<comment> \<open>\<open>sizeof(MeshContact)\<close>: bytes only, so without padding\<close>

definition contact_bytes :: "MeshContact \<Rightarrow> byte list" where
  "contact_bytes c = ct_backend c @ [addr_length (ct_address c)] @ addr_bytes (ct_address c) @ ct_name c"

definition contact_of_bytes :: "byte list \<Rightarrow> MeshContact" where
  "contact_of_bytes bs = \<lparr>ct_backend = take 16 bs, ct_address = \<lparr>addr_length = bs ! 16, addr_bytes = take 32 (drop 17 bs)\<rparr>, ct_name = drop 49 bs\<rparr>"

fun findContact :: "byte list \<Rightarrow> MeshAddress \<Rightarrow> MeshContact list \<Rightarrow> nat option" where
  "findContact active address [] = None"
| "findContact active address (c # cs) =
     (if same_backend (ct_backend c) active \<and> isSameAddress (ct_address c) address then Some 0
      else map_option Suc (findContact active address cs))"

definition terminate_contact :: "MeshContact \<Rightarrow> MeshContact" where
  "terminate_contact c = c\<lparr>ct_backend := (ct_backend c)[MESH_BACKEND_ID_MAX_LENGTH := 0], ct_name := (ct_name c)[MESH_NAME_MAX_LENGTH := 0]\<rparr>"

function load_loop :: "byte list \<Rightarrow> MeshContact list \<Rightarrow> MeshContact list" where
  "load_loop bs cs =
     (if length cs \<ge> MAX_CONTACTS \<or> length bs < MESH_CONTACT_SIZE then cs
      else let c = terminate_contact (contact_of_bytes (take MESH_CONTACT_SIZE bs)) in
        load_loop (drop MESH_CONTACT_SIZE bs)
          (if 0 < addr_length (ct_address c) \<and> unat (addr_length (ct_address c)) \<le> MESH_ADDRESS_MAX_LENGTH then cs @ [c] else cs))"
  by auto
termination by (relation "measure (length \<circ> fst)") (auto simp: MESH_CONTACT_SIZE_def)

declare load_loop.simps [simp del]

definition loadContacts :: "'b mesh_world \<Rightarrow> 'b mesh \<Rightarrow> 'b mesh" where
  "loadContacts W h = (case (ci_path (w_contacts W), ci_readable (w_contacts W), h_contacts_file h) of
       (True, Some n, Some bs) \<Rightarrow> h\<lparr>h_contacts := load_loop (take n bs) (h_contacts h)\<rparr>
     | _ \<Rightarrow> h)"

definition saveContacts :: "'b mesh_world \<Rightarrow> 'b mesh \<Rightarrow> 'b mesh" where
  "saveContacts W h = (let io = w_contacts W in
     if \<not> ci_directory io \<or> \<not> ci_path io then h
     else if ci_made io \<noteq> ERROR_NONE \<and> ci_made io \<noteq> ERROR_ALREADY_EXISTS then h
     else (case ci_writable io of None \<Rightarrow> h
       | Some n \<Rightarrow> h\<lparr>h_contacts_file := Some (take n (concat (map contact_bytes (h_contacts h))))\<rparr>))"

fun name_of_node :: "byte list \<Rightarrow> MeshAddress \<Rightarrow> MeshNode list \<Rightarrow> byte list" where
  "name_of_node active address [] = []"
| "name_of_node active address (n # ns) =
     (if isSameAddress (nd_address n) address \<and> same_backend (nd_backend n) active then take MESH_NAME_MAX_LENGTH (c_string (nd_name n))
      else name_of_node active address ns)"

text \<open>The first four bytes of the address, \<open>%02x\<close> each.\<close>

definition name_of_address :: "MeshAddress \<Rightarrow> byte list" where
  "name_of_address address = concat (map (\<lambda>b. bytes_of [lower_hex (unat b div 16), lower_hex (unat b mod 16)])
     (take (min 4 (unat (addr_length address))) (addr_bytes address)))"

definition resolve_name :: "MeshAddress \<Rightarrow> byte list option \<Rightarrow> 'b mesh \<Rightarrow> byte list" where
  "resolve_name address nm h =
     (let resolved = (case nm of Some s \<Rightarrow> take MESH_NAME_MAX_LENGTH (c_string s) | None \<Rightarrow> []);
          resolved = (if resolved = [] then name_of_node (h_activeBackend h) address (h_nodes h) else resolved)
      in if resolved = [] then name_of_address address else resolved)"

definition addContact :: "'b mesh_world \<Rightarrow> MeshAddress \<Rightarrow> byte list option \<Rightarrow> bool \<Rightarrow> 'b mesh \<Rightarrow> error_t \<times> 'b mesh" where
  "addContact W address nm rename h =
     (if addr_length address = 0 \<or> unat (addr_length address) > MESH_ADDRESS_MAX_LENGTH then (ERROR_INVALID_ARGUMENT, h)
      else
        let resolved = resolve_name address nm h;
            added = (\<lambda>h. (ERROR_NONE, emitEvent W MESH_EVENT_CONTACT (h_state h) 0 DELIVERY_RECEIVED (saveContacts W h)))
        in (case findContact (h_activeBackend h) address (h_contacts h) of
            Some i \<Rightarrow>
              if \<not> rename \<or> nm = None \<or> c_string (the nm) = [] then (ERROR_NONE, h)
              else added (h\<lparr>h_contacts := (h_contacts h)[i := (h_contacts h ! i)\<lparr>ct_name := string_array MESH_NAME_MAX_LENGTH resolved\<rparr>]\<rparr>)
          | None \<Rightarrow>
              if length (h_contacts h) \<ge> MAX_CONTACTS then (ERROR_RESOURCE, h)
              else added (h\<lparr>h_contacts := h_contacts h @ [\<lparr>ct_backend = string_array MESH_BACKEND_ID_MAX_LENGTH (h_activeBackend h),
                ct_address = address, ct_name = string_array MESH_NAME_MAX_LENGTH resolved\<rparr>]\<rparr>)))"

section \<open>Functions for backends\<close>

definition mesh_host_transmit :: "byte list \<Rightarrow> 32 word \<Rightarrow> 'b mesh \<Rightarrow> error_t \<times> 'b mesh" where
  "mesh_host_transmit bs seq h =
     (if length bs = 0 \<or> length bs > RADIO_RX_MAX_PACKET_LENGTH then (ERROR_OUT_OF_RANGE, h)
      else if length (h_txQueue h) \<ge> TX_QUEUE_LIMIT then (ERROR_RESOURCE, h)
      else (ERROR_NONE, h\<lparr>h_txQueue := h_txQueue h @ [\<lparr>f_data = bs, f_seq = seq, f_busyRetries = 0\<rparr>]\<rparr>))"

definition stamp :: "'b mesh_world \<Rightarrow> 64 word \<Rightarrow> MeshMessage \<Rightarrow> MeshMessage" where
  "stamp W sender_time m =
     (if sint (w_time W) \<ge> MIN_VALID_WALL_TIME then m\<lparr>m_wall_time := w_time W, m_time_source := 1\<rparr>
      else if sint sender_time \<ge> MIN_VALID_WALL_TIME then m\<lparr>m_wall_time := sender_time, m_time_source := 2\<rparr>
      else m\<lparr>m_time_source := 0\<rparr>)"

definition mesh_host_receive_text :: "'b mesh_world \<Rightarrow> MeshAddress option \<Rightarrow> byte \<Rightarrow> byte list option \<Rightarrow> byte list \<Rightarrow> signal \<Rightarrow> 64 word \<Rightarrow> 'b mesh \<Rightarrow> 32 word \<times> 'b mesh" where
  "mesh_host_receive_text W from channel sender txt sig sender_time h = (case h_api h of
       None \<Rightarrow> (0, abort h)
     | Some p \<Rightarrow>
         let m = MeshMessage_init\<lparr>m_backend := string_array MESH_BACKEND_ID_MAX_LENGTH (b_id (w_api W p)), m_outgoing := False,
               m_delivery := delivery_code DELIVERY_RECEIVED, m_channel := channel\<rparr>;
             m = (case from of Some a \<Rightarrow> m\<lparr>m_peer := a\<rparr> | None \<Rightarrow> m);
             m = (case sender of Some s \<Rightarrow> m\<lparr>m_sender_name := string_array MESH_NAME_MAX_LENGTH s\<rparr> | None \<Rightarrow> m);
             m = (stamp W sender_time m)\<lparr>m_uptime_ms := getMillis W, m_rssi := fst sig, m_snr := snd sig,
               m_text := string_array MESH_TEXT_MAX_LENGTH txt\<rparr>
         in (case store_add W m h of ((e, m), h) \<Rightarrow>
             if e \<noteq> ERROR_NONE then (0, h)
             else let h = (case from of Some a \<Rightarrow> if addr_length a > 0 then snd (addContact W a sender False h) else h | None \<Rightarrow> h)
               in (m_seq m, emitEvent W MESH_EVENT_MESSAGE (h_state h) (m_seq m) DELIVERY_RECEIVED h)))"

fun find_node :: "MeshAddress \<Rightarrow> MeshNode list \<Rightarrow> nat option" where
  "find_node address [] = None"
| "find_node address (n # ns) = (if isSameAddress (nd_address n) address then Some 0 else map_option Suc (find_node address ns))"

function oldest_node :: "MeshNode list \<Rightarrow> nat \<Rightarrow> nat \<Rightarrow> nat" where
  "oldest_node ns old i =
     (if i < length ns then oldest_node ns (if nd_last_heard_ms (ns ! i) < nd_last_heard_ms (ns ! old) then i else old) (i + 1) else old)"
  by auto
termination by (relation "measure (\<lambda>(ns, old, i). length ns - i)") auto

declare oldest_node.simps [simp del]

definition forget_oldest :: "MeshNode list \<Rightarrow> MeshNode list" where
  "forget_oldest ns = (if length ns \<ge> MAX_NODES then (let i = oldest_node ns 0 0 in take i ns @ drop (i + 1) ns) else ns)"

definition heard :: "'b mesh_world \<Rightarrow> byte list option \<Rightarrow> signal \<Rightarrow> MeshNode \<Rightarrow> MeshNode" where
  "heard W nm sig n = n\<lparr>nd_name := (case nm of Some s \<Rightarrow> string_array MESH_NAME_MAX_LENGTH s | None \<Rightarrow> nd_name n),
     nd_last_heard_ms := getMillis W, nd_signal := sig\<rparr>"

definition mesh_host_node_heard :: "'b mesh_world \<Rightarrow> MeshAddress \<Rightarrow> byte list option \<Rightarrow> signal \<Rightarrow> 'b mesh \<Rightarrow> 'b mesh" where
  "mesh_host_node_heard W address nm sig h =
     (let ns = (case find_node address (h_nodes h) of
         Some i \<Rightarrow> (h_nodes h)[i := heard W nm sig (h_nodes h ! i)]
       | None \<Rightarrow> forget_oldest (h_nodes h) @ [heard W nm sig \<lparr>nd_backend = string_array MESH_BACKEND_ID_MAX_LENGTH (h_activeBackend h),
           nd_address = address, nd_name = replicate (MESH_NAME_MAX_LENGTH + 1) 0, nd_last_heard_ms = 0, nd_signal = (0, 0)\<rparr>])
      in emitEvent W MESH_EVENT_NODE (h_state h) 0 DELIVERY_RECEIVED (h\<lparr>h_nodes := ns\<rparr>))"

definition mesh_host_advert_heard :: "'b mesh_world \<Rightarrow> MeshAddress \<Rightarrow> byte list \<Rightarrow> signal \<Rightarrow> 'b mesh \<Rightarrow> 'b mesh" where
  "mesh_host_advert_heard W address nm sig h =
     (let h = mesh_host_node_heard W address (Some nm) sig h in emitFrame W (h_state h) MESH_FRAME_ADVERT 0 sig (Some address) (Some nm) h)"

definition ensureSettingsLoaded :: "'b mesh_world \<Rightarrow> 'b mesh \<Rightarrow> 'b mesh" where
  "ensureSettingsLoaded W h =
     (if g_settingsLoaded h then h
      else case mesh_settings_load (w_settings W) (g_files h) of (st, fs) \<Rightarrow> h\<lparr>g_settings := st, g_files := fs, g_settingsLoaded := True\<rparr>)"

definition mesh_host_get_node_name :: "'b mesh_world \<Rightarrow> nat \<Rightarrow> 'b mesh \<Rightarrow> byte list \<times> 'b mesh" where
  "mesh_host_get_node_name W n h = (let h = ensureSettingsLoaded W h in (take (n - 1) (st_node_name (g_settings h)), h))"

fun host_step :: "'b mesh_world \<Rightarrow> host_call \<Rightarrow> 'b mesh \<Rightarrow> int \<times> 'b mesh" where
  "host_step W (Transmit bs seq) h = mesh_host_transmit bs seq h"
| "host_step W (ReceiveText from channel sender txt sig sender_time) h =
     (case mesh_host_receive_text W from channel (Some sender) txt sig (ucast sender_time) h of (seq, h) \<Rightarrow> (uint seq, h))"
| "host_step W (host_call.SetDelivery seq delivery) h = (0, setDelivery W seq delivery h)"
| "host_step W (NodeHeard address nm sig) h = (0, mesh_host_node_heard W address nm sig h)"
| "host_step W (AdvertHeard address nm sig) h = (0, mesh_host_advert_heard W address nm sig h)"

primrec run_action :: "'b mesh_world \<Rightarrow> 'r action \<Rightarrow> 'b mesh \<Rightarrow> 'r \<times> 'b mesh" where
  "run_action W (Done r) h = (r, h)"
| "run_action W (Host c k) h = (case host_step W c h of (a, h) \<Rightarrow> run_action W (k a) h)"
| "run_action W (NodeName k) h = (case mesh_host_get_node_name W (MESH_NAME_MAX_LENGTH + 1) h of (s, h) \<Rightarrow> run_action W (k s) h)"

end
