(* ===== verification/Mesh_Service.thy ===== *)
theory Mesh_Service
  imports Mesh_Contacts
begin

text \<open>
  The service thread of the mesh service (\<open>mesh_service.cpp\<close>): it takes a radio, selects a backend and configures the radio for it,
  passes on what the radio received, runs the work that was posted to it and sends the frames of the backend within the air time
  that the region allows (\<open>mesh_airtime.cpp\<close>).
\<close>

section \<open>Radios and backends\<close>

definition usesLora :: "radio_device \<Rightarrow> bool" where "usesLora r = rd_lora r"

definition isMeshRadio :: "radio_device \<Rightarrow> bool" where
  "isMeshRadio r \<longleftrightarrow> rd_ready r \<and> (usesLora r \<or> rd_espnow r)"

record radio_search =
  rs_selected :: "radio_device option"
  rs_lora :: "radio_device option"
  rs_other :: "radio_device option"

fun search_radios :: "byte list \<Rightarrow> radio_device list \<Rightarrow> radio_search \<Rightarrow> radio_search" where
  "search_radios nm [] s = s"
| "search_radios nm (r # rs) s =
     (if \<not> isMeshRadio r then search_radios nm rs s
      else if nm \<noteq> [] \<and> rd_name r = nm then s\<lparr>rs_selected := Some r\<rparr>
      else if usesLora r then search_radios nm rs (if rs_lora s = None then s\<lparr>rs_lora := Some r\<rparr> else s)
      else search_radios nm rs (if rs_other s = None then s\<lparr>rs_other := Some r\<rparr> else s))"

definition chosen_radio :: "radio_search \<Rightarrow> radio_device option" where
  "chosen_radio s = (if rs_selected s \<noteq> None then rs_selected s else if rs_lora s \<noteq> None then rs_lora s else rs_other s)"

definition findRadio :: "'b mesh_world \<Rightarrow> 'b mesh \<Rightarrow> radio_device option \<times> 'b mesh" where
  "findRadio W h = (let h = ensureSettingsLoaded W h in
     case chosen_radio (search_radios (take MESH_NAME_MAX_LENGTH (st_radio (g_settings h))) (w_radios W)
         \<lparr>rs_selected = None, rs_lora = None, rs_other = None\<rparr>) of
       None \<Rightarrow> (None, h)
     | Some r \<Rightarrow> if rd_get r \<noteq> ERROR_NONE then (None, h) else (Some r, h\<lparr>h_refs := h_refs h + 1\<rparr>))"

definition device_put_radio :: "'b mesh \<Rightarrow> 'b mesh" where
  "device_put_radio h = h\<lparr>h_refs := h_refs h - 1\<rparr>"

definition presetsApply :: "'b mesh_world \<Rightarrow> 'b mesh \<Rightarrow> bool \<times> 'b mesh" where
  "presetsApply W h = (case findRadio W h of (None, h) \<Rightarrow> (False, h) | (Some r, h) \<Rightarrow> (usesLora r, device_put_radio h))"

text \<open>\<open>strncmp\<close> of an id, which is at most \<open>MESH_BACKEND_ID_MAX_LENGTH\<close> bytes.\<close>

definition findBackend :: "'b mesh_world \<Rightarrow> byte list \<Rightarrow> 'b mesh \<Rightarrow> ptr option" where
  "findBackend W bid h = List.find (\<lambda>p. same_backend (b_id (w_api W p)) bid) (g_backends h)"

definition getSelectedBackend :: "'b mesh_world \<Rightarrow> 'b mesh \<Rightarrow> ptr option" where
  "getSelectedBackend W h =
     (if st_backend (g_settings h) \<noteq> [] then findBackend W (st_backend (g_settings h)) h
      else case g_backends h of [] \<Rightarrow> None | p # _ \<Rightarrow> Some p)"

definition getPresetCount :: "'b MeshBackendApi \<Rightarrow> nat" where
  "getPresetCount api = length (b_presets api)"

fun preset_loop :: "byte list \<Rightarrow> byte list list \<Rightarrow> nat \<Rightarrow> nat" where
  "preset_loop nm [] i = 0"
| "preset_loop nm (p # ps) i = (if p = nm then i else preset_loop nm ps (i + 1))"

definition findPreset :: "'b MeshBackendApi \<Rightarrow> byte list \<Rightarrow> nat" where
  "findPreset api nm = preset_loop nm (b_presets api) 0"

section \<open>Attaching the radio\<close>

definition log_radio :: "radio_call \<Rightarrow> 'b mesh \<Rightarrow> 'b mesh" where
  "log_radio c h = h\<lparr>h_radio_log := h_radio_log h @ [c]\<rparr>"

definition attach_to :: "'b mesh_world \<Rightarrow> radio_device \<Rightarrow> 'b mesh \<Rightarrow> 'b mesh" where
  "attach_to W r h = h\<lparr>h_radio := Some r, h_rxSubscribed := ra_rx_subscribe (w_radio W) = ERROR_NONE,
     h_txSubscribed := ra_tx_subscribe (w_radio W) = ERROR_NONE\<rparr>"

definition attachRadio :: "'b mesh_world \<Rightarrow> 'b mesh \<Rightarrow> bool \<times> 'b mesh" where
  "attachRadio W h = (case findRadio W h of (None, h) \<Rightarrow> (False, h) | (Some r, h) \<Rightarrow> (True, attach_to W r h))"

definition detachRadio :: "'b mesh \<Rightarrow> 'b mesh" where
  "detachRadio h = (let h = h\<lparr>h_rxSubscribed := False, h_txSubscribed := False\<rparr> in
     if h_radio h = None then h
     else let h = (if h_radioAcquired h then (log_radio RadioRelease h)\<lparr>h_radioAcquired := False\<rparr> else h)
       in (device_put_radio h)\<lparr>h_radio := None\<rparr>)"

definition radioOff :: "'b mesh \<Rightarrow> 'b mesh" where
  "radioOff h = (if h_radio h \<noteq> None \<and> h_radioAcquired h then log_radio (RadioEnabled False) h else h)"

definition deactivateBackend :: "'b mesh_world \<Rightarrow> 'b mesh \<Rightarrow> 'b mesh" where
  "deactivateBackend W h = (case h_api h of
       None \<Rightarrow> h
     | Some p \<Rightarrow>
         let bid = b_id (w_api W p);
             h = (case h_backend h of None \<Rightarrow> abort h | Some b \<Rightarrow> snd (run_action W (b_destroy (w_api W p) b) h));
             h = radioOff (h\<lparr>h_api := None, h_backend := None, h_txQueue := [], h_txInFlight := False\<rparr>)
         in (case store_outgoing W bid DELIVERY_QUEUED h of (seqs, h) \<Rightarrow>
             (fold (\<lambda>seq. setDelivery W seq DELIVERY_BLOCKED) seqs h)\<lparr>h_nodes := [], h_activeBackend := []\<rparr>))"

text \<open>The parameters in order; the first one that fails ends it.\<close>

fun set_parameters :: "'b mesh_world \<Rightarrow> (RadioParameter \<times> int) list \<Rightarrow> 'b mesh \<Rightarrow> bool \<times> 'b mesh" where
  "set_parameters W [] h = (True, h)"
| "set_parameters W ((p, v) # ps) h = (let h = log_radio (RadioParam p v) h; result = ra_parameter (w_radio W) p v in
     if result \<noteq> ERROR_NONE \<and> result \<noteq> ERROR_NOT_SUPPORTED then (False, h) else set_parameters W ps h)"

definition profile_parameters :: "MeshRadioProfile \<Rightarrow> (RadioParameter \<times> int) list" where
  "profile_parameters p = [(PARAMETER_FREQUENCY, frequency p), (PARAMETER_BANDWIDTH, bandwidth p), (PARAMETER_SPREADING_FACTOR, spreading_factor p),
     (PARAMETER_CODING_RATE, coding_rate p), (PARAMETER_SYNC_WORD, sync_word p), (PARAMETER_PREAMBLE_LENGTH, preamble_length p),
     (PARAMETER_POWER, power p)]"

definition applyProfile :: "'b mesh_world \<Rightarrow> 'b mesh \<Rightarrow> bool \<times> 'b mesh" where
  "applyProfile W h =
     (if h_radio h = None then (False, abort h)
      else
        let profile = h_profile h; radio = w_radio W;
            h = log_radio (RadioModulate (modulation profile)) (log_radio (RadioEnabled False) h)
        in if ra_modulation radio (modulation profile) \<noteq> ERROR_NONE then (False, h)
           else case set_parameters W (profile_parameters profile) h of
             (False, h) \<Rightarrow> (False, h)
           | (True, h) \<Rightarrow>
               let channel = radio_channel profile; h = (if channel \<noteq> 0 then log_radio (RadioParam PARAMETER_CHANNEL channel) h else h) in
               if channel \<noteq> 0 \<and> ra_parameter radio PARAMETER_CHANNEL channel \<noteq> ERROR_NONE then (False, h)
               else (ra_set_enabled radio True = ERROR_NONE, log_radio (RadioEnabled True) (log_radio (RadioParam PARAMETER_LBT 1) h)))"

section \<open>Configuring\<close>

text \<open>Runs a function of the active backend.\<close>

definition on_backend :: "'b mesh_world \<Rightarrow> ('b MeshBackendApi \<Rightarrow> 'b \<Rightarrow> ('b \<times> 'r) action) \<Rightarrow> 'b mesh \<Rightarrow> 'r option \<times> 'b mesh" where
  "on_backend W f h = (case (h_api h, h_backend h) of
       (Some p, Some b) \<Rightarrow> (case run_action W (f (w_api W p) b) h of ((b, r), h) \<Rightarrow> (Some r, h\<lparr>h_backend := Some b\<rparr>))
     | _ \<Rightarrow> (None, abort h))"

definition sendStored :: "'b mesh_world \<Rightarrow> 32 word \<Rightarrow> 'b mesh \<Rightarrow> 'b mesh" where
  "sendStored W seq h = (case store_get W seq h of ((e, m), h) \<Rightarrow>
     if e \<noteq> ERROR_NONE \<or> m_delivery m \<noteq> delivery_code DELIVERY_QUEUED then h
     else if (case h_api h of None \<Rightarrow> True | Some p \<Rightarrow> c_string (m_backend m) \<noteq> b_id (w_api W p)) then setDelivery W seq DELIVERY_BLOCKED h
     else case on_backend W (\<lambda>api b. b_send_text api b seq (if addr_length (m_peer m) > 0 then Some (m_peer m) else None) (m_channel m) (c_string (m_text m))) h of
         (r, h) \<Rightarrow> if r \<noteq> Some ERROR_NONE then setDelivery W seq DELIVERY_FAILED h else h)"

definition resubmitPending :: "'b mesh_world \<Rightarrow> 'b mesh \<Rightarrow> 'b mesh" where
  "resubmitPending W h = (case h_api h of None \<Rightarrow> abort h
     | Some p \<Rightarrow> (case store_outgoing W (b_id (w_api W p)) DELIVERY_BLOCKED h of (pending, h) \<Rightarrow>
         fold (sendStored W) pending (fold (\<lambda>seq. setDelivery W seq DELIVERY_QUEUED) pending h)))"

text \<open>From the radio to the profile of the backend; \<open>None\<close>: the state that \<open>configure\<close> ends in was set.\<close>

definition start_backend :: "'b mesh_world \<Rightarrow> radio_device \<Rightarrow> ptr \<Rightarrow> nat \<Rightarrow> 'b mesh \<Rightarrow> bool \<times> 'b mesh" where
  "start_backend W r p preset h = (let api = w_api W p; h = h\<lparr>h_api := Some p\<rparr> in
     case run_action W (b_create api) h of
       (None, h) \<Rightarrow> (False, setState W MESH_STATE_ERROR (h\<lparr>h_api := None\<rparr>))
     | (Some b, h) \<Rightarrow>
         (case run_action W (b_get_radio_profile api b (h_appliedRegion h) (if usesLora r then MODULATION_LORA else MODULATION_ESPNOW) preset) h of
            ((b, e, profile), h) \<Rightarrow>
              let h = h\<lparr>h_profile := profile\<rparr> in
              if e \<noteq> ERROR_NONE then (False, setState W MESH_STATE_ERROR ((snd (run_action W (b_destroy api b) h))\<lparr>h_api := None\<rparr>))
              else (True, h\<lparr>h_backend := Some b\<rparr>)))"

text \<open>\<open>configure\<close> from the region on.\<close>

definition activate :: "'b mesh_world \<Rightarrow> radio_device \<Rightarrow> ptr \<Rightarrow> nat \<Rightarrow> 'b mesh \<Rightarrow> 'b mesh" where
  "activate W r p preset h = (let h = h\<lparr>h_appliedRegion := ra_region (w_radio W)\<rparr> in
     if h_appliedRegion h = REGION_UNSET \<and> usesLora r then setState W MESH_STATE_NO_REGION h
     else (case start_backend W r p preset h of
         (False, h) \<Rightarrow> h
       | (True, h) \<Rightarrow> (case applyProfile W h of
           (False, h) \<Rightarrow> setState W MESH_STATE_ERROR (deactivateBackend W h)
         | (True, h) \<Rightarrow>
             let h = setState W MESH_STATE_ON (h\<lparr>h_activeBackend := take MESH_BACKEND_ID_MAX_LENGTH (b_id (w_api W p))\<rparr>)
             in resubmitPending W (snd (on_backend W b_on_start h)))))"

definition configure :: "'b mesh_world \<Rightarrow> 'b mesh \<Rightarrow> 'b mesh" where
  "configure W h = (let h = deactivateBackend W h in
     case h_radio h of None \<Rightarrow> setState W MESH_STATE_NO_RADIO h
     | Some r \<Rightarrow>
         let h = (if h_radioAcquired h then h
               else let h = log_radio RadioAcquire h in h\<lparr>h_radioAcquired := ra_acquire (w_radio W) = ERROR_NONE\<rparr>) in
         if \<not> h_radioAcquired h then setState W MESH_STATE_RADIO_BUSY h
         else (case getSelectedBackend W h of
             None \<Rightarrow> setState W MESH_STATE_NO_BACKEND h
           | Some p \<Rightarrow> activate W r p (findPreset (w_api W p) (st_preset (g_settings h))) h))"

section \<open>Sending\<close>

definition mesh_airtime_duty_cycle_percent :: "RadioRegion \<Rightarrow> int \<Rightarrow> nat" where
  "mesh_airtime_duty_cycle_percent region f = (case region of
       REGION_EU_868 \<Rightarrow> if f \<ge> 869400000 \<and> f \<le> 869650000 then 10 else 1
     | REGION_EU_433 \<Rightarrow> 10
     | REGION_RU_868 \<Rightarrow> 1
     | _ \<Rightarrow> 100)"

text \<open>The records that are still in the window of \<open>now\<close>, and what they sum up to in 32 bits.\<close>

definition prune_airtime :: "64 word \<Rightarrow> AirtimeRecord list \<Rightarrow> AirtimeRecord list" where
  "prune_airtime now rs = dropWhile (\<lambda>r. now - at_timeMs r > of_nat DUTY_CYCLE_WINDOW_MS) rs"

definition getAirtimeUsedMs :: "64 word \<Rightarrow> 'b mesh \<Rightarrow> 32 word \<times> 'b mesh" where
  "getAirtimeUsedMs now h = (let rs = prune_airtime now (h_airtime h) in (sum_list (map at_airtimeMs rs), h\<lparr>h_airtime := rs\<rparr>))"

definition duty_cycle :: "'b mesh \<Rightarrow> nat" where
  "duty_cycle h = (if modulation (h_profile h) = MODULATION_ESPNOW then 100
     else mesh_airtime_duty_cycle_percent (h_appliedRegion h) (frequency (h_profile h)))"

definition send_front :: "'b mesh_world \<Rightarrow> 32 word \<Rightarrow> Frame \<Rightarrow> 'b mesh \<Rightarrow> 'b mesh" where
  "send_front W airtime frame h =
     (let h = h\<lparr>h_dutyCycleLogged := False, h_txFrame := frame, h_txQueue := tl (h_txQueue h)\<rparr> in
      if h_radio h = None then abort h
      else case ra_transmit (w_radio W) (f_data frame) of (e, tid) \<Rightarrow>
        if e \<noteq> ERROR_NONE then (if f_seq frame \<noteq> 0 then setDelivery W (f_seq frame) DELIVERY_FAILED h else h)
        else log_radio (RadioSent (getMillis W) (f_data frame) airtime)
          (h\<lparr>h_txId := tid, h_txInFlight := True, h_airtime := h_airtime h @ [\<lparr>at_timeMs = getMillis W, at_airtimeMs = airtime\<rparr>]\<rparr>))"

definition pumpTx :: "'b mesh_world \<Rightarrow> 'b mesh \<Rightarrow> 'b mesh" where
  "pumpTx W h = (if h_txInFlight h \<or> h_txQueue h = [] \<or> h_api h = None then h
     else
       let frame = hd (h_txQueue h); airtime = w_airtime W (h_profile h) (length (f_data frame)) in
       if duty_cycle h < 100 then
         (let budget = DUTY_CYCLE_WINDOW_MS * duty_cycle h div 100 in
          case getAirtimeUsedMs (getMillis W) h of (used, h) \<Rightarrow>
            if unat (used + airtime) > budget then h\<lparr>h_dutyCycleLogged := True\<rparr>
            else send_front W airtime frame h)
       else send_front W airtime frame h)"

definition onTxEvent :: "'b mesh_world \<Rightarrow> 32 word \<Rightarrow> RadioTransmissionState \<Rightarrow> 'b mesh \<Rightarrow> 'b mesh" where
  "onTxEvent W tid st h = (if \<not> h_txInFlight h \<or> tid \<noteq> h_txId h then h
     else
       let frame = h_txFrame h; seq = f_seq frame; over = h\<lparr>h_txInFlight := False\<rparr>;
           failed = (if seq \<noteq> 0 then setDelivery W seq DELIVERY_FAILED over else over)
       in case st of
         TRANSMISSION_TRANSMITTED \<Rightarrow>
           if seq \<noteq> 0 then
             (case store_get W seq over of ((e, m), h) \<Rightarrow>
               if e = ERROR_NONE \<and> m_delivery m = delivery_code DELIVERY_QUEUED then setDelivery W seq DELIVERY_SENT h else h)
           else over
       | TRANSMISSION_CHANNEL_BUSY \<Rightarrow>
           if f_busyRetries frame < CHANNEL_BUSY_RETRIES then
             let frame = frame\<lparr>f_busyRetries := f_busyRetries frame + 1\<rparr> in
             over\<lparr>h_txQueue := frame # h_txQueue h, h_txFrame := frame\<lparr>f_data := []\<rparr>\<rparr>
           else failed
       | TRANSMISSION_TIMEOUT \<Rightarrow> failed
       | TRANSMISSION_ERROR \<Rightarrow> failed
       | _ \<Rightarrow> h)"

section \<open>The thread\<close>

definition reselectRadio :: "'b mesh_world \<Rightarrow> 'b mesh \<Rightarrow> 'b mesh" where
  "reselectRadio W h = (case attachRadio W (detachRadio (deactivateBackend W h)) of
       (False, h) \<Rightarrow> setState W MESH_STATE_NO_RADIO h
     | (True, h) \<Rightarrow> configure W h)"

definition on_radio_rx :: "'b mesh_world \<Rightarrow> byte list \<times> signal \<Rightarrow> 'b mesh \<Rightarrow> 'b mesh" where
  "on_radio_rx W event h = (case event of (bs, sig) \<Rightarrow>
     if h_api h = None then h
     else case on_backend W (\<lambda>api b. b_on_receive api b bs sig) h of (understood, h) \<Rightarrow>
       if understood = Some False then emitFrame W (h_state h) MESH_FRAME_UNREADABLE (length bs) sig None None h else h)"

definition drainRadioEvents :: "'b mesh_world \<Rightarrow> (byte list \<times> signal) list \<Rightarrow> (32 word \<times> RadioTransmissionState) list \<Rightarrow> 'b mesh \<Rightarrow> 'b mesh" where
  "drainRadioEvents W rx tx h =
     (let h = (if h_rxSubscribed h then fold (on_radio_rx W) rx h else h)
      in if h_txSubscribed h then fold (\<lambda>(tid, st). onTxEvent W tid st) tx h else h)"

text \<open>What a waiting caller gets; without a backend, the answer it started with.\<close>

definition run_sync :: "'b mesh_world \<Rightarrow> sync_request \<Rightarrow> 'b mesh \<Rightarrow> sync_answer \<times> 'b mesh" where
  "run_sync W request h = (let none = (h_api h = None); api = w_api W (the (h_api h)) in
     case request of
       Sync_Unregister p \<Rightarrow> (Answer_None, if h_api h = Some p then configure W h else h)
     | Sync_RawSend backend bs \<Rightarrow>
         if \<not> none \<and> backend = b_id api then (case mesh_host_transmit bs 0 h of (e, h) \<Rightarrow> (Answer_Error e, h))
         else (Answer_Error ERROR_INVALID_STATE, h)
     | Sync_ValidAddress a \<Rightarrow>
         (case if none then None else b_is_valid_contact_address api of
            None \<Rightarrow> (Answer_Valid True, h)
          | Some f \<Rightarrow> (case on_backend W (\<lambda>_ b. f b a) h of (v, h) \<Rightarrow> (Answer_Valid (v = Some True), h)))
     | Sync_ContactUri contact nm n \<Rightarrow>
         if none then (Answer_Uri ERROR_INVALID_STATE [], h)
         else (case b_get_contact_uri api of
            None \<Rightarrow> (Answer_Uri ERROR_NOT_SUPPORTED [], h)
          | Some f \<Rightarrow> (case on_backend W (\<lambda>_ b. f b contact nm n) h of
              (Some (e, uri), h) \<Rightarrow> (Answer_Uri e uri, h) | (None, h) \<Rightarrow> (Answer_Uri ERROR_UNDEFINED [], h)))
     | Sync_GetChannels n \<Rightarrow>
         if none then (Answer_Channels ERROR_INVALID_STATE [], h)
         else (case b_get_channels api of
            None \<Rightarrow> (Answer_Channels ERROR_NOT_SUPPORTED [], h)
          | Some f \<Rightarrow> (case on_backend W (\<lambda>_ b. f b n) h of
              (Some (e, cs), h) \<Rightarrow> (Answer_Channels e cs, h) | (None, h) \<Rightarrow> (Answer_Channels ERROR_UNDEFINED [], h)))
     | Sync_SetChannel c \<Rightarrow>
         if none then (Answer_Error ERROR_INVALID_STATE, h)
         else (case b_set_channel api of
            None \<Rightarrow> (Answer_Error ERROR_NOT_SUPPORTED, h)
          | Some f \<Rightarrow> (case on_backend W (\<lambda>_ b. f b c) h of
              (Some e, h) \<Rightarrow> (Answer_Error e, h) | (None, h) \<Rightarrow> (Answer_Error ERROR_UNDEFINED, h)))
     | Sync_RemoveChannel i \<Rightarrow>
         if none then (Answer_Error ERROR_INVALID_STATE, h)
         else (case b_remove_channel api of
            None \<Rightarrow> (Answer_Error ERROR_NOT_SUPPORTED, h)
          | Some f \<Rightarrow> (case on_backend W (\<lambda>_ b. f b i) h of
              (Some e, h) \<Rightarrow> (Answer_Error e, h) | (None, h) \<Rightarrow> (Answer_Error ERROR_UNDEFINED, h))))"

definition run_work :: "'b mesh_world \<Rightarrow> work \<Rightarrow> 'b mesh \<Rightarrow> 'b mesh" where
  "run_work W w h = (case w of
       Do_Configure \<Rightarrow> configure W h
     | Do_ReselectRadio \<Rightarrow> reselectRadio W h
     | Do_SendStored seq \<Rightarrow> sendStored W seq h
     | Do_EraseFrames seq \<Rightarrow> h\<lparr>h_txQueue := filter (\<lambda>f. f_seq f \<noteq> seq) (h_txQueue h)\<rparr>
     | Do_AnnounceName \<Rightarrow>
         (case map_option (\<lambda>p. b_on_node_name_changed (w_api W p)) (h_api h) of
            Some (Some f) \<Rightarrow> snd (on_backend W (\<lambda>_ b. f b) h)
          | _ \<Rightarrow> h)
     | Do_Sync request \<Rightarrow> (case run_sync W request h of (a, h) \<Rightarrow> h\<lparr>h_answer := Some a\<rparr>))"

text \<open>The work that was posted, in order. Work does not post work.\<close>

fun work_loop :: "'b mesh_world \<Rightarrow> work list \<Rightarrow> 'b mesh \<Rightarrow> 'b mesh" where
  "work_loop W [] h = h"
| "work_loop W (w # ws) h = work_loop W ws (run_work W w (h\<lparr>h_calls := ws\<rparr>))"

definition runCalls :: "'b mesh_world \<Rightarrow> 'b mesh \<Rightarrow> 'b mesh" where
  "runCalls W h = work_loop W (h_calls h) h"

definition flush_store :: "'b mesh_world \<Rightarrow> 'b mesh \<Rightarrow> 'b mesh" where
  "flush_store W h = (case flushIfNeeded (w_store W) (getMillis W) FLUSH_MAX_AGE_MS (h_store h) (h_disk h) of
       None \<Rightarrow> abort (spend h)
     | Some (s, fs) \<Rightarrow> (spend h)\<lparr>h_store := s, h_disk := fs\<rparr>)"

definition tick :: "'b mesh_world \<Rightarrow> 'b mesh \<Rightarrow> 'b mesh" where
  "tick W h = (let
       h = (if h_radio h = None then (case attachRadio W h of (True, h) \<Rightarrow> configure W h | (False, h) \<Rightarrow> h) else h);
       h = (if h_radio h \<noteq> None \<and> h_radioAcquired h \<and> ra_region (w_radio W) \<noteq> h_appliedRegion h then configure W h else h);
       h = (if h_api h = None then h
         else if h_radio h = None then abort h
         else if ra_state (w_radio W) = (ERROR_NONE, RADIO_STATE_ERROR) then setState W MESH_STATE_ERROR (deactivateBackend W h) else h);
       h = (if h_api h = None then h else snd (on_backend W b_on_tick h))
     in flush_store W h)"

text \<open>One turn of the loop of \<open>threadMain\<close>: \<open>rx\<close> and \<open>tx\<close> are the events that the radio has for the service.\<close>

definition thread_turn :: "'b mesh_world \<Rightarrow> (byte list \<times> signal) list \<Rightarrow> (32 word \<times> RadioTransmissionState) list \<Rightarrow> 'b mesh \<Rightarrow> 'b mesh" where
  "thread_turn W rx tx h = (if \<not> h_running h then h
     else let
       h = runCalls W (drainRadioEvents W rx tx h);
       h = (if getMillis W - h_lastTickMs h \<ge> TICK_INTERVAL_MS then tick W (h\<lparr>h_lastTickMs := getMillis W\<rparr>) else h)
     in pumpTx W h)"

definition thread_end :: "'b mesh_world \<Rightarrow> 'b mesh \<Rightarrow> 'b mesh" where
  "thread_end W h = deactivateBackend W (runCalls W h)"

end
