(* ===== verification/Mesh_Api.thy ===== *)
theory Mesh_Api
  imports Mesh_Service
begin

text \<open>
  The life cycle of the mesh service, the registry of backends and the functions that apps call (\<open>mesh_service.cpp\<close>). A function that
  waits for the service thread is in two parts: up to the wait, where \<open>ERROR_NONE\<close> says that the work is posted, and from the answer
  on. An output buffer of \<open>n\<close> bytes is the result, \<open>None\<close> where the buffer is left alone.
\<close>

section \<open>Life cycle\<close>

definition store_open :: "'b mesh_world \<Rightarrow> string \<Rightarrow> 'b mesh \<Rightarrow> error_t \<times> 'b mesh" where
  "store_open W path h = (case MeshStore_open (w_store W) path (h_store h) (h_disk h) of
       None \<Rightarrow> (ERROR_UNDEFINED, abort h)
     | Some (e, s, fs) \<Rightarrow> (e, h\<lparr>h_store := s, h_disk := fs\<rparr>))"

definition store_close :: "'b mesh_world \<Rightarrow> 'b mesh \<Rightarrow> 'b mesh" where
  "store_close W h = (case MeshStore_close (w_store W) (h_store h) (h_disk h) of
       None \<Rightarrow> abort (spend h)
     | Some (s, fs) \<Rightarrow> (spend h)\<lparr>h_store := s, h_disk := fs\<rparr>)"

text \<open>\<open>bits\<close>: what claiming two bits answers; \<open>path\<close>: of the store; \<open>started\<close>: whether the thread starts.\<close>

definition onStart :: "'b mesh_world \<Rightarrow> error_t \<times> error_t \<Rightarrow> string option \<Rightarrow> bool \<Rightarrow> 'b mesh \<Rightarrow> error_t \<times> 'b mesh" where
  "onStart W bits path started h =
     (if fst bits \<noteq> ERROR_NONE \<or> snd bits \<noteq> ERROR_NONE then (ERROR_RESOURCE, detachRadio h)
      else case path of None \<Rightarrow> (ERROR_RESOURCE, detachRadio h)
      | Some path \<Rightarrow> (case store_open W path h of (e, h) \<Rightarrow>
          if e \<noteq> ERROR_NONE then (ERROR_RESOURCE, detachRadio h)
          else let h = (ensureSettingsLoaded W (snd (attachRadio W (loadContacts W h))))\<lparr>g_service := True, h_running := True\<rparr> in
            if started then (ERROR_NONE, h)
            else (ERROR_RESOURCE, detachRadio (store_close W (h\<lparr>h_running := False, g_service := False\<rparr>)))))"

text \<open>The thread begins with \<open>configure\<close>.\<close>

definition thread_begin :: "'b mesh_world \<Rightarrow> 'b mesh \<Rightarrow> 'b mesh" where
  "thread_begin W h = configure W h"

text \<open>\<open>stop_begin\<close>: no new work can be posted; the thread still runs.\<close>

definition stop_begin :: "'b mesh \<Rightarrow> 'b mesh" where
  "stop_begin h = h\<lparr>g_service := False, h_running := False\<rparr>"

definition onStop :: "'b mesh_world \<Rightarrow> 'b mesh \<Rightarrow> 'b mesh" where
  "onStop W h = detachRadio (setState W MESH_STATE_OFF (store_close W (thread_end W (stop_begin h))))"

definition mesh_service_should_auto_start :: "'b mesh_world \<Rightarrow> 'b mesh \<Rightarrow> bool \<times> 'b mesh" where
  "mesh_service_should_auto_start W h = (let h = ensureSettingsLoaded W h in (st_enabled (g_settings h), h))"

definition post :: "work \<Rightarrow> 'b mesh \<Rightarrow> 'b mesh" where
  "post w h = h\<lparr>h_calls := h_calls h @ [w]\<rparr>"

definition post_if_running :: "work \<Rightarrow> 'b mesh \<Rightarrow> 'b mesh" where
  "post_if_running w h = (if g_service h then post w h else h)"

definition callOnServiceThread :: "sync_request \<Rightarrow> 'b mesh \<Rightarrow> error_t \<times> 'b mesh" where
  "callOnServiceThread request h =
     (if \<not> g_service h then (ERROR_INVALID_STATE, h) else (ERROR_NONE, post (Do_Sync request) (h\<lparr>h_answer := None\<rparr>)))"

section \<open>Backend registry\<close>

definition mesh_backend_register :: "'b mesh_world \<Rightarrow> ptr \<Rightarrow> 'b mesh \<Rightarrow> error_t \<times> 'b mesh" where
  "mesh_backend_register W p h =
     (if findBackend W (b_id (w_api W p)) h \<noteq> None then (ERROR_ALREADY_EXISTS, h)
      else if length (g_backends h) \<ge> MESH_MAX_BACKENDS then (ERROR_RESOURCE, h)
      else let h = h\<lparr>g_backends := g_backends h @ [p]\<rparr> in
        (ERROR_NONE, if g_service h \<and> h_state h = MESH_STATE_NO_BACKEND then post Do_Configure h else h))"

text \<open>The last backend takes the place of the one that goes.\<close>

fun unregister_loop :: "ptr \<Rightarrow> ptr list \<Rightarrow> ptr list" where
  "unregister_loop p [] = []"
| "unregister_loop p (q # qs) = (if q = p then (case qs of [] \<Rightarrow> [] | _ \<Rightarrow> last qs # butlast qs) else q # unregister_loop p qs)"

text \<open>With a running service the call returns once the service thread has let go of the backend.\<close>

definition mesh_backend_unregister :: "ptr \<Rightarrow> 'b mesh \<Rightarrow> error_t \<times> 'b mesh" where
  "mesh_backend_unregister p h =
     (if p \<in> set (g_backends h)
      then (ERROR_NONE, snd (callOnServiceThread (Sync_Unregister p) (h\<lparr>g_backends := unregister_loop p (g_backends h)\<rparr>)))
      else (ERROR_NOT_FOUND, h))"

section \<open>Settings\<close>

definition save_settings :: "'b mesh_world \<Rightarrow> 'b mesh \<Rightarrow> error_t \<times> 'b mesh" where
  "save_settings W h = (case mesh_settings_save (w_settings W) (g_settings h) (g_files h) of (e, fs) \<Rightarrow> (e, h\<lparr>g_files := fs\<rparr>))"

text \<open>The service is started or stopped between the two parts.\<close>

definition mesh_set_enabled :: "'b mesh_world \<Rightarrow> bool \<Rightarrow> 'b mesh \<Rightarrow> error_t \<times> 'b mesh" where
  "mesh_set_enabled W enabled h = (let h = ensureSettingsLoaded W h in save_settings W (h\<lparr>g_settings := (g_settings h)\<lparr>st_enabled := enabled\<rparr>\<rparr>))"

definition mesh_set_enabled_result :: "error_t \<Rightarrow> error_t \<Rightarrow> error_t" where
  "mesh_set_enabled_result saved result = (if result \<noteq> ERROR_NONE then result else saved)"

definition mesh_is_enabled :: "'b mesh_world \<Rightarrow> 'b mesh \<Rightarrow> bool \<times> 'b mesh" where
  "mesh_is_enabled W h = (let h = ensureSettingsLoaded W h in (st_enabled (g_settings h), h))"

definition mesh_get_state :: "'b mesh \<Rightarrow> MeshState" where
  "mesh_get_state h = (if g_service h then h_state h else MESH_STATE_OFF)"

definition mesh_set_node_name :: "'b mesh_world \<Rightarrow> byte list option \<Rightarrow> 'b mesh \<Rightarrow> error_t \<times> 'b mesh" where
  "mesh_set_node_name W nm h = (case nm of None \<Rightarrow> (ERROR_INVALID_ARGUMENT, h)
     | Some s \<Rightarrow>
         if s = [] \<or> length s > MESH_NAME_MAX_LENGTH then (ERROR_INVALID_ARGUMENT, h)
         else let h = ensureSettingsLoaded W h; h = h\<lparr>g_settings := (g_settings h)\<lparr>st_node_name := s\<rparr>\<rparr>
           in save_settings W (post_if_running Do_AnnounceName h))"

definition mesh_get_node_name :: "'b mesh_world \<Rightarrow> nat \<Rightarrow> 'b mesh \<Rightarrow> (error_t \<times> byte list option) \<times> 'b mesh" where
  "mesh_get_node_name W n h = (if n = 0 then ((ERROR_BUFFER_OVERFLOW, None), h)
     else case mesh_host_get_node_name W n h of (s, h) \<Rightarrow> ((ERROR_NONE, Some s), h))"

definition mesh_is_available :: "'b mesh_world \<Rightarrow> 'b mesh \<Rightarrow> bool \<times> 'b mesh" where
  "mesh_is_available W h = (case findRadio W h of (None, h) \<Rightarrow> (False, h) | (Some r, h) \<Rightarrow> (True, device_put_radio h))"

definition mesh_get_radio_count :: "'b mesh_world \<Rightarrow> nat" where
  "mesh_get_radio_count W = length (filter isMeshRadio (w_radios W))"

fun radio_at :: "nat \<Rightarrow> radio_device list \<Rightarrow> radio_device option" where
  "radio_at i [] = None"
| "radio_at i (r # rs) = (if \<not> isMeshRadio r then radio_at i rs else if i > 0 then radio_at (i - 1) rs else Some r)"

definition mesh_get_radio_kind :: "'b mesh_world \<Rightarrow> nat \<Rightarrow> error_t \<times> MeshRadioKind option" where
  "mesh_get_radio_kind W i = (case radio_at i (w_radios W) of None \<Rightarrow> (ERROR_NOT_FOUND, None)
     | Some r \<Rightarrow> (ERROR_NONE, Some (if usesLora r then MESH_RADIO_LORA else MESH_RADIO_ESPNOW)))"

definition mesh_get_radio_name :: "'b mesh_world \<Rightarrow> nat \<Rightarrow> nat \<Rightarrow> error_t \<times> byte list option" where
  "mesh_get_radio_name W i n = (case radio_at i (w_radios W) of None \<Rightarrow> (ERROR_NOT_FOUND, None)
     | Some r \<Rightarrow> if n > 0 then (ERROR_NONE, Some (take (n - 1) (rd_name r))) else (ERROR_NOT_FOUND, None))"

definition mesh_get_radio :: "'b mesh_world \<Rightarrow> nat \<Rightarrow> 'b mesh \<Rightarrow> (error_t \<times> byte list option) \<times> 'b mesh" where
  "mesh_get_radio W n h = (case findRadio W h of
       (None, h) \<Rightarrow> ((ERROR_NOT_FOUND, None), h)
     | (Some r, h) \<Rightarrow> ((if n = 0 then (ERROR_NOT_FOUND, None) else (ERROR_NONE, Some (take (n - 1) (rd_name r)))), device_put_radio h))"

definition mesh_set_radio :: "'b mesh_world \<Rightarrow> byte list option \<Rightarrow> 'b mesh \<Rightarrow> error_t \<times> 'b mesh" where
  "mesh_set_radio W nm h = (let selected = (case nm of Some s \<Rightarrow> s | None \<Rightarrow> []) in
     if selected \<noteq> [] \<and> \<not> list_ex (\<lambda>i. mesh_get_radio_name W i (MESH_NAME_MAX_LENGTH + 1) = (ERROR_NONE, Some selected)) [0..<mesh_get_radio_count W]
     then (ERROR_NOT_FOUND, h)
     else let h = ensureSettingsLoaded W h; h = h\<lparr>g_settings := (g_settings h)\<lparr>st_radio := take MESH_NAME_MAX_LENGTH selected\<rparr>\<rparr>
       in save_settings W (post_if_running Do_ReselectRadio h))"

section \<open>Backends and presets\<close>

definition mesh_get_backend_count :: "'b mesh \<Rightarrow> nat" where
  "mesh_get_backend_count h = length (g_backends h)"

definition mesh_get_backend_id :: "'b mesh_world \<Rightarrow> nat \<Rightarrow> nat \<Rightarrow> 'b mesh \<Rightarrow> error_t \<times> byte list option" where
  "mesh_get_backend_id W i n h = (if i < length (g_backends h) \<and> n > 0 then (ERROR_NONE, Some (take (n - 1) (b_id (w_api W (g_backends h ! i)))))
     else (ERROR_NOT_FOUND, None))"

definition mesh_set_backend :: "'b mesh_world \<Rightarrow> byte list \<Rightarrow> 'b mesh \<Rightarrow> error_t \<times> 'b mesh" where
  "mesh_set_backend W bid h =
     (if findBackend W bid h = None then (ERROR_NOT_FOUND, h)
      else let h = ensureSettingsLoaded W h; st = g_settings h;
          st = (if \<not> same_backend (st_backend st) bid then st\<lparr>st_preset := []\<rparr> else st);
          h = h\<lparr>g_settings := st\<lparr>st_backend := take MESH_BACKEND_ID_MAX_LENGTH bid\<rparr>\<rparr>
        in save_settings W (post_if_running Do_Configure h))"

definition mesh_get_backend :: "'b mesh_world \<Rightarrow> nat \<Rightarrow> 'b mesh \<Rightarrow> (error_t \<times> byte list option) \<times> 'b mesh" where
  "mesh_get_backend W n h = (let h = ensureSettingsLoaded W h;
       selected = (if g_service h \<and> h_activeBackend h \<noteq> [] then h_activeBackend h else st_backend (g_settings h))
     in (if selected \<noteq> [] \<and> n > 0 then (ERROR_NONE, Some (take (n - 1) selected)) else (ERROR_NOT_FOUND, None), h))"

text \<open>The backend whose presets can be selected.\<close>

definition preset_backend :: "'b mesh_world \<Rightarrow> 'b mesh \<Rightarrow> 'b MeshBackendApi option \<times> 'b mesh" where
  "preset_backend W h = (case presetsApply W h of (applies, h) \<Rightarrow> let h = ensureSettingsLoaded W h in
     (if applies then map_option (w_api W) (getSelectedBackend W h) else None, h))"

definition mesh_get_preset_count :: "'b mesh_world \<Rightarrow> 'b mesh \<Rightarrow> nat \<times> 'b mesh" where
  "mesh_get_preset_count W h = (case preset_backend W h of (api, h) \<Rightarrow> (case api of Some a \<Rightarrow> getPresetCount a | None \<Rightarrow> 0, h))"

definition mesh_get_preset_name :: "'b mesh_world \<Rightarrow> nat \<Rightarrow> nat \<Rightarrow> 'b mesh \<Rightarrow> (error_t \<times> byte list option) \<times> 'b mesh" where
  "mesh_get_preset_name W i n h = (case preset_backend W h of (api, h) \<Rightarrow>
     (case api of Some a \<Rightarrow> if i < getPresetCount a \<and> n > 0 then (ERROR_NONE, Some (take (n - 1) (b_presets a ! i))) else (ERROR_NOT_FOUND, None)
      | None \<Rightarrow> (ERROR_NOT_FOUND, None), h))"

definition mesh_set_preset :: "'b mesh_world \<Rightarrow> byte list \<Rightarrow> 'b mesh \<Rightarrow> error_t \<times> 'b mesh" where
  "mesh_set_preset W nm h = (case preset_backend W h of
       (None, h) \<Rightarrow> (ERROR_NOT_FOUND, h)
     | (Some a, h) \<Rightarrow>
         let i = findPreset a nm in
         if i \<ge> getPresetCount a \<or> b_presets a ! i \<noteq> nm then (ERROR_NOT_FOUND, h)
         else save_settings W (post_if_running Do_Configure (h\<lparr>g_settings := (g_settings h)\<lparr>st_preset := take MESH_NAME_MAX_LENGTH nm\<rparr>\<rparr>)))"

definition mesh_get_preset :: "'b mesh_world \<Rightarrow> nat \<Rightarrow> 'b mesh \<Rightarrow> (error_t \<times> byte list option) \<times> 'b mesh" where
  "mesh_get_preset W n h = (case preset_backend W h of (api, h) \<Rightarrow>
     (case api of Some a \<Rightarrow> if getPresetCount a > 0 \<and> n > 0 then (ERROR_NONE, Some (take (n - 1) (b_presets a ! findPreset a (st_preset (g_settings h))))) else (ERROR_NOT_FOUND, None)
      | None \<Rightarrow> (ERROR_NOT_FOUND, None), h))"

section \<open>Messages\<close>

definition FLOAT_NAN :: "32 word" where "FLOAT_NAN = 0x7FC00000"

definition outgoing_message :: "'b mesh_world \<Rightarrow> MeshAddress option \<Rightarrow> byte \<Rightarrow> byte list \<Rightarrow> 'b mesh \<Rightarrow> MeshMessage" where
  "outgoing_message W to channel txt h =
     (let valid = sint (w_time W) \<ge> MIN_VALID_WALL_TIME;
          m = MeshMessage_init\<lparr>m_backend := string_array MESH_BACKEND_ID_MAX_LENGTH (h_activeBackend h), m_outgoing := True,
            m_delivery := delivery_code DELIVERY_QUEUED\<rparr>;
          m = (case to of Some a \<Rightarrow> m\<lparr>m_peer := a\<rparr> | None \<Rightarrow> m)
      in m\<lparr>m_channel := channel, m_sender_name := string_array MESH_NAME_MAX_LENGTH (st_node_name (g_settings h)),
        m_wall_time := (if valid then w_time W else 0), m_time_source := (if valid then 1 else 0),
        m_uptime_ms := getMillis W, m_snr := FLOAT_NAN, m_text := string_array MESH_TEXT_MAX_LENGTH txt\<rparr>)"

definition mesh_send_text :: "'b mesh_world \<Rightarrow> MeshAddress option \<Rightarrow> byte \<Rightarrow> byte list option \<Rightarrow> 'b mesh \<Rightarrow> (error_t \<times> 32 word option) \<times> 'b mesh" where
  "mesh_send_text W to channel txt h = (case txt of None \<Rightarrow> ((ERROR_OUT_OF_RANGE, None), h)
     | Some s \<Rightarrow>
         if length s > MESH_TEXT_MAX_LENGTH then ((ERROR_OUT_OF_RANGE, None), h)
         else if \<not> g_service h \<or> h_state h \<noteq> MESH_STATE_ON then ((ERROR_INVALID_STATE, None), h)
         else (case store_add W (outgoing_message W to channel s h) h of ((e, m), h) \<Rightarrow>
             if e = ERROR_NONE
             then ((e, Some (m_seq m)), post (Do_SendStored (m_seq m)) (emitEvent W MESH_EVENT_MESSAGE (h_state h) (m_seq m) DELIVERY_QUEUED h))
             else ((e, None), h)))"

definition mesh_cancel :: "'b mesh_world \<Rightarrow> 32 word \<Rightarrow> 'b mesh \<Rightarrow> error_t \<times> 'b mesh" where
  "mesh_cancel W seq h =
     (if \<not> g_service h then (ERROR_INVALID_STATE, h)
      else case store_get W seq h of ((e, m), h) \<Rightarrow>
        if e \<noteq> ERROR_NONE \<or> \<not> m_outgoing m then (ERROR_NOT_FOUND, h)
        else if m_delivery m \<noteq> delivery_code DELIVERY_QUEUED \<and> m_delivery m \<noteq> delivery_code DELIVERY_BLOCKED then (ERROR_INVALID_STATE, h)
        else (ERROR_NONE, post (Do_EraseFrames seq) (setDelivery W seq DELIVERY_CANCELLED h)))"

definition mesh_raw_send :: "byte list \<Rightarrow> byte list \<Rightarrow> 'b mesh \<Rightarrow> error_t \<times> 'b mesh" where
  "mesh_raw_send backend bs h =
     (if length bs = 0 \<or> length bs > RADIO_RX_MAX_PACKET_LENGTH then (ERROR_OUT_OF_RANGE, h)
      else callOnServiceThread (Sync_RawSend backend bs) h)"

text \<open>A query of the message log, which needs the service to run.\<close>

definition with_log :: "(MeshStore \<Rightarrow> disk \<Rightarrow> 'r option) \<Rightarrow> 'b mesh \<Rightarrow> (error_t \<times> 'r option) \<times> 'b mesh" where
  "with_log f h = (if \<not> g_service h then ((ERROR_INVALID_STATE, None), h)
     else case f (h_store h) (h_disk h) of None \<Rightarrow> ((ERROR_UNDEFINED, None), abort h) | Some r \<Rightarrow> ((ERROR_NONE, Some r), h))"

definition mesh_message_get :: "'b mesh_world \<Rightarrow> 32 word \<Rightarrow> 'b mesh \<Rightarrow> (error_t \<times> MeshMessage option) \<times> 'b mesh" where
  "mesh_message_get W seq h = (case with_log (MeshStore_get (w_store W) seq) h of
       ((e, Some (err, m)), h) \<Rightarrow> ((err, if err = ERROR_NONE then Some m else None), h)
     | ((e, None), h) \<Rightarrow> ((e, None), h))"

definition mesh_history_get :: "'b mesh_world \<Rightarrow> 32 word \<Rightarrow> nat \<Rightarrow> 'b mesh \<Rightarrow> (error_t \<times> MeshMessage list option) \<times> 'b mesh" where
  "mesh_history_get W before_seq n h = with_log (getHistory (w_store W) before_seq n) h"

definition mesh_conversation_get :: "'b mesh_world \<Rightarrow> MeshAddress option \<Rightarrow> byte \<Rightarrow> 32 word \<Rightarrow> nat \<Rightarrow> 'b mesh \<Rightarrow> (error_t \<times> MeshMessage list option) \<times> 'b mesh" where
  "mesh_conversation_get W peer channel before_seq n h = with_log (getConversation (w_store W) (h_activeBackend h) peer channel before_seq n) h"

section \<open>Contacts, nodes and channels\<close>

definition mesh_get_contacts :: "nat \<Rightarrow> 'b mesh \<Rightarrow> error_t \<times> MeshContact list option" where
  "mesh_get_contacts n h = (if g_service h then (ERROR_NONE, Some (take n (filter (\<lambda>c. same_backend (ct_backend c) (h_activeBackend h)) (h_contacts h))))
     else (ERROR_INVALID_STATE, None))"

definition mesh_add_contact :: "MeshAddress \<Rightarrow> 'b mesh \<Rightarrow> error_t \<times> 'b mesh" where
  "mesh_add_contact address h =
     (if addr_length address = 0 \<or> unat (addr_length address) > MESH_ADDRESS_MAX_LENGTH then (ERROR_INVALID_ARGUMENT, h)
      else callOnServiceThread (Sync_ValidAddress address) h)"

definition mesh_add_contact_end :: "'b mesh_world \<Rightarrow> MeshAddress \<Rightarrow> byte list option \<Rightarrow> bool \<Rightarrow> 'b mesh \<Rightarrow> error_t \<times> 'b mesh" where
  "mesh_add_contact_end W address nm valid h =
     (if \<not> valid then (ERROR_INVALID_ARGUMENT, h) else if g_service h then addContact W address nm True h else (ERROR_INVALID_STATE, h))"

definition mesh_remove_contact :: "'b mesh_world \<Rightarrow> MeshAddress \<Rightarrow> 'b mesh \<Rightarrow> error_t \<times> 'b mesh" where
  "mesh_remove_contact W address h =
     (if \<not> g_service h then (ERROR_INVALID_STATE, h)
      else case findContact (h_activeBackend h) address (h_contacts h) of
        None \<Rightarrow> (ERROR_NOT_FOUND, h)
      | Some i \<Rightarrow> let h = saveContacts W (h\<lparr>h_contacts := take i (h_contacts h) @ drop (i + 1) (h_contacts h)\<rparr>)
          in (ERROR_NONE, emitEvent W MESH_EVENT_CONTACT (h_state h) 0 DELIVERY_RECEIVED h))"

definition mesh_get_contact_uri :: "MeshAddress option \<Rightarrow> nat \<Rightarrow> 'b mesh \<Rightarrow> error_t \<times> 'b mesh" where
  "mesh_get_contact_uri contact n h =
     (if \<not> g_service h then (ERROR_INVALID_STATE, h)
      else case contact of
        None \<Rightarrow> callOnServiceThread (Sync_ContactUri None (take MESH_NAME_MAX_LENGTH (st_node_name (g_settings h))) n) h
      | Some a \<Rightarrow> (case findContact (h_activeBackend h) a (h_contacts h) of
            None \<Rightarrow> (ERROR_NOT_FOUND, h)
          | Some i \<Rightarrow> callOnServiceThread (Sync_ContactUri (Some a) (c_string (take MESH_NAME_MAX_LENGTH (ct_name (h_contacts h ! i)))) n) h))"

definition mesh_get_nodes :: "nat \<Rightarrow> 'b mesh \<Rightarrow> error_t \<times> MeshNode list option" where
  "mesh_get_nodes n h = (if g_service h then (ERROR_NONE, Some (take n (h_nodes h))) else (ERROR_INVALID_STATE, None))"

definition mesh_get_channels :: "nat \<Rightarrow> 'b mesh \<Rightarrow> error_t \<times> 'b mesh" where
  "mesh_get_channels n h = callOnServiceThread (Sync_GetChannels n) h"

definition emitChannelChanged :: "'b mesh_world \<Rightarrow> error_t \<Rightarrow> 'b mesh \<Rightarrow> 'b mesh" where
  "emitChannelChanged W result h = (if result = ERROR_NONE \<and> g_service h then emitEvent W MESH_EVENT_CHANNEL (h_state h) 0 DELIVERY_RECEIVED h else h)"

definition mesh_set_channel :: "MeshChannel \<Rightarrow> 'b mesh \<Rightarrow> error_t \<times> 'b mesh" where
  "mesh_set_channel channel h = callOnServiceThread (Sync_SetChannel channel) h"

definition mesh_remove_channel :: "byte \<Rightarrow> 'b mesh \<Rightarrow> error_t \<times> 'b mesh" where
  "mesh_remove_channel i h = (if i = 0 then (ERROR_INVALID_ARGUMENT, h) else callOnServiceThread (Sync_RemoveChannel i) h)"

text \<open>\<open>mesh_set_channel\<close> and \<open>mesh_remove_channel\<close> from the answer on.\<close>

definition mesh_channel_end :: "'b mesh_world \<Rightarrow> error_t \<Rightarrow> 'b mesh \<Rightarrow> error_t \<times> 'b mesh" where
  "mesh_channel_end W result h = (result, emitChannelChanged W result h)"

end
