(* ===== verification/Mesh_Safety.thy ===== *)
theory Mesh_Safety
  imports Mesh_Api Mesh_Damage
begin

text \<open>
  The functions that backends call, and with them any lawful function of a backend, keep the service sane: the message log
  remains a log of messages, no array is left and no null pointer dereferenced, and queue, nodes, contacts and subscriptions stay within
  their bounds. They leave alone what belongs to the thread.
\<close>

section \<open>The log of a running service\<close>

definition log_ok :: "'b mesh \<Rightarrow> bool" where
  "log_ok h \<longleftrightarrow> (\<exists>ms. log_rel (h_disk h) (h_store h) ms)"

definition sane :: "'b mesh \<Rightarrow> bool" where
  "sane h \<longleftrightarrow> h_spent h \<or> \<not> h_aborted h \<and> log_ok h"

lemma readEntry_total:
  assumes "entry_holds fs s e m"
  shows "\<exists>r m'. readEntry io s fs e = Some (r, m') \<and> (r = ERROR_NONE \<longrightarrow> message_typed m')"
proof (cases "e_segment e = PENDING")
  case True
  let ?io = "io\<lparr>readable_bytes := \<lambda>p. case fs p of None \<Rightarrow> Some 0 | Some d \<Rightarrow> Some (length d)\<rparr>"
  have "reads_all ?io fs" by (simp add: reads_all_def)
  from readEntry_holds [OF assms this] have r: "readEntry ?io s fs e = Some (ERROR_NONE, m)" .
  have "readEntry io s fs e = readEntry ?io s fs e" using True by (simp add: readEntry_def)
  moreover have "message_typed m"
    using r deserialize_typed typed_delivery True by (auto simp: readEntry_def Let_def bind_Some_iff split: if_splits prod.splits)
  ultimately show ?thesis using r by simp
qed (rule readEntry_typed)

definition readable_entries :: "store_io \<Rightarrow> MeshStore \<Rightarrow> disk \<Rightarrow> IndexEntry list \<Rightarrow> bool" where
  "readable_entries io s fs es \<longleftrightarrow> (\<forall>e\<in>set es. \<exists>r m. readEntry io s fs e = Some (r, m) \<and> (r = ERROR_NONE \<longrightarrow> message_typed m))"

lemma log_rel_readable: "log_rel fs s ms \<Longrightarrow> readable_entries io s fs (index s)"
  unfolding readable_entries_def log_rel_def using readEntry_total by (metis in_set_conv_nth list_all2_conv_all_nth)

lemma outgoing_total: "readable_entries io s fs es \<Longrightarrow> \<exists>seqs. outgoing_loop io s fs backend d es = Some seqs"
proof (induction es)
  case (Cons e es)
  then obtain seqs r m where "outgoing_loop io s fs backend d es = Some seqs" "readEntry io s fs e = Some (r, m)"
    by (auto simp: readable_entries_def)
  then show ?case by simp
qed simp

lemma history_total: "readable_entries io s fs es \<Longrightarrow> \<exists>ms. history_loop io s fs q n es = Some ms"
proof (induction es arbitrary: n)
  case (Cons e es)
  from Cons.prems obtain r m where "readEntry io s fs e = Some (r, m)" and es: "readable_entries io s fs es" by (auto simp: readable_entries_def)
  moreover obtain a b where "history_loop io s fs q n es = Some a" "history_loop io s fs q (n - 1) es = Some b" using Cons.IH [OF es] by blast
  ultimately show ?case by (cases "q = 0") (simp_all split: option.split)
qed simp

lemma conversation_total: "readable_entries io s fs es \<Longrightarrow> \<exists>ms. conversation_loop io s fs backend peer ph ch q n es = Some ms"
proof (induction es arbitrary: n)
  case (Cons e es)
  from Cons.prems obtain r m where "readEntry io s fs e = Some (r, m)" and es: "readable_entries io s fs es" by (auto simp: readable_entries_def)
  moreover obtain a b where "conversation_loop io s fs backend peer ph ch q n es = Some a" "conversation_loop io s fs backend peer ph ch q (n - 1) es = Some b"
    using Cons.IH [OF es] by blast
  ultimately show ?case by (cases "q = 0") (simp_all split: option.split)
qed simp

lemma get_total: "readable_entries io s fs (index s) \<Longrightarrow> \<exists>r m. MeshStore_get io q s fs = Some (r, m) \<and> (r = ERROR_NONE \<longrightarrow> message_typed m)"
  by (auto simp: MeshStore_get_def findEntry_def readable_entries_def Let_def)

section \<open>What functions for backends leave alone\<close>

text \<open>The fields of the service thread, and those of the globals that only apps change.\<close>

definition same_thread :: "'b mesh \<Rightarrow> 'b mesh \<Rightarrow> bool" where
  "same_thread h h' \<longleftrightarrow> h_state h' = h_state h \<and> h_api h' = h_api h \<and> h_backend h' = h_backend h \<and> h_radio h' = h_radio h \<and>
     h_radioAcquired h' = h_radioAcquired h \<and> h_running h' = h_running h \<and> h_profile h' = h_profile h \<and>
     h_appliedRegion h' = h_appliedRegion h \<and> h_txInFlight h' = h_txInFlight h \<and> h_txId h' = h_txId h \<and> h_txFrame h' = h_txFrame h \<and>
     h_airtime h' = h_airtime h \<and> h_radio_log h' = h_radio_log h \<and> h_refs h' = h_refs h \<and> g_backends h' = g_backends h \<and>
     h_activeBackend h' = h_activeBackend h \<and> g_service h' = g_service h \<and> h_calls h' = h_calls h \<and> h_answer h' = h_answer h \<and>
     h_rxSubscribed h' = h_rxSubscribed h \<and> h_txSubscribed h' = h_txSubscribed h \<and> h_lastTickMs h' = h_lastTickMs h"

lemma same_thread_refl [simp, intro]: "same_thread h h"
  by (simp add: same_thread_def)

lemma same_thread_trans [trans]: "same_thread h h' \<Longrightarrow> same_thread h' h'' \<Longrightarrow> same_thread h h''"
  by (simp add: same_thread_def)

text \<open>The bounds of the data, whatever the thread does.\<close>

definition address_ok :: "MeshAddress \<Rightarrow> bool" where
  "address_ok a \<longleftrightarrow> length (addr_bytes a) = MESH_ADDRESS_MAX_LENGTH \<and> unat (addr_length a) \<le> MESH_ADDRESS_MAX_LENGTH"

definition saved_contact_ok :: "MeshContact \<Rightarrow> bool" where
  "saved_contact_ok c \<longleftrightarrow> string_ok MESH_BACKEND_ID_MAX_LENGTH (ct_backend c) \<and> address_ok (ct_address c) \<and> 0 < addr_length (ct_address c) \<and>
     string_ok MESH_NAME_MAX_LENGTH (ct_name c)"

definition frame_ok :: "Frame \<Rightarrow> bool" where
  "frame_ok f \<longleftrightarrow> f_data f \<noteq> [] \<and> length (f_data f) \<le> RADIO_RX_MAX_PACKET_LENGTH \<and> 0 \<le> f_busyRetries f \<and> f_busyRetries f \<le> CHANNEL_BUSY_RETRIES"

definition queue_ok :: "'b mesh \<Rightarrow> bool" where
  "queue_ok h \<longleftrightarrow> list_all frame_ok (h_txQueue h) \<and> length (h_txQueue h) \<le> TX_QUEUE_LIMIT + 1 \<and>
     (h_txInFlight h \<longrightarrow> length (h_txQueue h) \<le> TX_QUEUE_LIMIT \<and> frame_ok (h_txFrame h))"

definition data_ok :: "'b mesh \<Rightarrow> bool" where
  "data_ok h \<longleftrightarrow> sane h \<and> subs_ok h \<and> length (h_nodes h) \<le> MAX_NODES \<and> length (h_contacts h) \<le> MAX_CONTACTS \<and>
     list_all saved_contact_ok (h_contacts h) \<and> queue_ok h"

definition keeps :: "'b mesh \<Rightarrow> 'b mesh \<Rightarrow> bool" where
  "keeps h h' \<longleftrightarrow> (data_ok h \<longrightarrow> data_ok h') \<and> same_thread h h'"

lemma keeps_data_refl [simp, intro]: "keeps h h"
  by (simp add: keeps_def)

lemma keeps_data_trans [trans]: "keeps h h' \<Longrightarrow> keeps h' h'' \<Longrightarrow> keeps h h''"
  unfolding keeps_def using same_thread_trans by blast

section \<open>The functions for backends\<close>

lemma queueEvent_keeps: "data_ok h \<Longrightarrow> keeps h (queueEvent e h)"
proof -
  assume d: "data_ok h"
  then have s: "subs_ok h" by (simp add: data_ok_def)
  then obtain subs signals where q: "queueEvent e h = h\<lparr>g_subs := subs, g_signals := signals\<rparr>" "subs_ok (queueEvent e h)"
    using queueEvent_subs_ok [OF s, of e] by blast
  with d show ?thesis by (simp add: keeps_def data_ok_def same_thread_def sane_def log_ok_def queue_ok_def)
qed

lemma emitEvent_keeps: "data_ok h \<Longrightarrow> keeps h (emitEvent W t st q d h)"
  unfolding emitEvent_def by (rule queueEvent_keeps)

lemma emitFrame_keeps: "data_ok h \<Longrightarrow> keeps h (emitFrame W st k n sig from nm h)"
  unfolding emitFrame_def by (rule queueEvent_keeps)

lemma spend_keeps: "data_ok h \<Longrightarrow> keeps h (spend h)"
  by (auto simp: spend_def keeps_def data_ok_def same_thread_def sane_def log_ok_def queue_ok_def subs_ok_def)

text \<open>An operation of the log that was done by \<open>store_step\<close>.\<close>

lemma store_step_sane:
  assumes "data_ok h" "op_ok c (h_store h) \<or> h_spent (spend h)"
  shows "store_step io c (h_store h) (h_disk h) = None \<Longrightarrow> keeps h (abort (spend h))"
    "store_step io c (h_store h) (h_disk h) = Some (e, s, fs) \<Longrightarrow> keeps h ((spend h)\<lparr>h_store := s, h_disk := fs\<rparr>)"
proof -
  have "h_spent (spend h) \<or> (\<exists>e' s' fs'. store_step io c (h_store h) (h_disk h) = Some (e', s', fs') \<and> (\<exists>ms. log_rel fs' s' ms))"
  proof (cases "h_spent (spend h)")
    case False
    then have "\<not> h_spent h" "room (h_store h)" by (auto simp: spend_def)
    with assms obtain ms where "log_rel (h_disk h) (h_store h) ms" by (auto simp: data_ok_def sane_def log_ok_def)
    from store_step_rel [OF this \<open>room (h_store h)\<close>] assms(2) False show ?thesis by blast
  qed simp
  then show "store_step io c (h_store h) (h_disk h) = None \<Longrightarrow> keeps h (abort (spend h))"
    "store_step io c (h_store h) (h_disk h) = Some (e, s, fs) \<Longrightarrow> keeps h ((spend h)\<lparr>h_store := s, h_disk := fs\<rparr>)"
    using assms(1) by (auto simp: keeps_def same_thread_def data_ok_def sane_def log_ok_def subs_ok_def queue_ok_def spend_def abort_def)
qed

lemma spent_or_room: "h_spent (spend h) \<or> nextSeq (h_store h) < - 1"
  by (simp add: spend_def)

lemma store_add_keeps:
  assumes "data_ok h" "message_wf m"
  shows "keeps h (snd (store_add W m h))"
proof -
  have c: "op_ok (Add m) (h_store h) \<or> h_spent (spend h)" using assms(2) spent_or_room [of h] by auto
  note s = store_step_sane [OF assms(1) c, of "w_store W"]
  show ?thesis
  proof (cases "MeshStore_add (w_store W) m (h_store h) (h_disk h)")
    case None
    then show ?thesis using s(1) by (simp add: store_add_def)
  next
    case (Some r)
    then show ?thesis using s(2) by (cases r) (simp add: store_add_def)
  qed
qed

lemma setDelivery_keeps:
  assumes "data_ok h"
  shows "keeps h (setDelivery W seq d h)"
proof -
  have c: "op_ok (store_op.SetDelivery seq (delivery_code d)) (h_store h) \<or> h_spent (spend h)" by simp
  note s = store_step_sane [OF assms c, of "w_store W"]
  show ?thesis
  proof (cases "MeshStore_setDelivery (w_store W) seq (delivery_code d) (h_store h) (h_disk h)")
    case None
    then show ?thesis using s(1) by (simp add: setDelivery_def)
  next
    case (Some r)
    obtain e st fs where r: "r = (e, st, fs)" by (cases r)
    let ?h = "(spend h)\<lparr>h_store := st, h_disk := fs\<rparr>"
    have k: "keeps h ?h" using s(2) Some r by simp
    then have "keeps ?h (emitEvent W MESH_EVENT_DELIVERY (h_state ?h) seq d ?h)"
      using assms by (intro emitEvent_keeps) (simp add: keeps_def)
    with k show ?thesis using Some r by (auto simp: setDelivery_def Let_def intro: keeps_data_trans)
  qed
qed

lemma flush_store_keeps:
  assumes "data_ok h"
  shows "keeps h (flush_store W h)"
proof -
  have c: "op_ok (FlushIfNeeded (getMillis W) FLUSH_MAX_AGE_MS) (h_store h) \<or> h_spent (spend h)" by simp
  note s = store_step_sane [OF assms c, of "w_store W"]
  show ?thesis
  proof (cases "flushIfNeeded (w_store W) (getMillis W) FLUSH_MAX_AGE_MS (h_store h) (h_disk h)")
    case None
    then show ?thesis using s(1) by (simp add: flush_store_def)
  next
    case (Some r)
    then show ?thesis using s(2) by (cases r) (simp add: flush_store_def)
  qed
qed

text \<open>Queries of the log change nothing, and what they give is typed.\<close>

lemma spent_abort: "h_spent h \<Longrightarrow> data_ok h \<Longrightarrow> keeps h (abort h)"
  by (simp add: abort_def keeps_def data_ok_def sane_def same_thread_def subs_ok_def queue_ok_def)

lemma readable_or_spent: "data_ok h \<Longrightarrow> h_spent h \<or> (\<forall>io. readable_entries io (h_store h) (h_disk h) (index (h_store h)))"
  unfolding data_ok_def sane_def log_ok_def using log_rel_readable by blast

lemma store_get_keeps:
  assumes "data_ok h"
  shows "keeps h (snd (store_get W seq h))"
proof (cases "MeshStore_get (w_store W) seq (h_store h) (h_disk h)")
  case None
  then have "h_spent h" using readable_or_spent [OF assms] get_total [of "w_store W" "h_store h" "h_disk h" seq] by (metis option.distinct(1))
  with None show ?thesis using spent_abort [OF _ assms] by (simp add: store_get_def)
qed (simp add: store_get_def)

lemma store_outgoing_keeps:
  assumes "data_ok h"
  shows "keeps h (snd (store_outgoing W bid d h))"
proof (cases "findOutgoing (w_store W) bid (delivery_code d) (h_store h) (h_disk h)")
  case None
  then have "h_spent h" using readable_or_spent [OF assms] outgoing_total [of "w_store W" "h_store h" "h_disk h" "index (h_store h)" bid "delivery_code d"]
    unfolding findOutgoing_def by (metis option.distinct(1))
  with None show ?thesis using spent_abort [OF _ assms] by (simp add: store_outgoing_def)
qed (simp add: store_outgoing_def)

lemma string_array_ok: "string_ok n (string_array n s)"
proof -
  have "length (c_string (take n s)) \<le> n" using c_string_length [of "take n s"] by simp
  then show ?thesis using string_ok_pad [of "c_string (take n s)" n] by (simp add: string_array_def Let_def)
qed

lemma saveContacts_keeps: "keeps h (saveContacts W h)"
  by (simp add: saveContacts_def Let_def keeps_def data_ok_def sane_def log_ok_def same_thread_def subs_ok_def queue_ok_def split: option.split)

lemma contacts_update_keeps:
  assumes "list_all saved_contact_ok cs" "length cs \<le> MAX_CONTACTS"
  shows "keeps h (h\<lparr>h_contacts := cs\<rparr>)"
  using assms by (simp add: keeps_def data_ok_def sane_def log_ok_def same_thread_def subs_ok_def queue_ok_def)

lemma findContact_bound: "findContact active a cs = Some i \<Longrightarrow> i < length cs"
  by (induction cs arbitrary: i) (auto split: if_splits)

lemma addContact_keeps:
  assumes "data_ok h" "length (addr_bytes a) = MESH_ADDRESS_MAX_LENGTH"
  shows "keeps h (snd (addContact W a nm rename h))"
proof -
  let ?n = "string_array MESH_NAME_MAX_LENGTH (resolve_name a nm h)"
  have added: "keeps h (emitEvent W MESH_EVENT_CONTACT st 0 DELIVERY_RECEIVED (saveContacts W (h\<lparr>h_contacts := cs\<rparr>)))"
    if "list_all saved_contact_ok cs" "length cs \<le> MAX_CONTACTS" for cs st
  proof -
    have k: "keeps h (saveContacts W (h\<lparr>h_contacts := cs\<rparr>))" using contacts_update_keeps [OF that] saveContacts_keeps keeps_data_trans by blast
    then have "data_ok (saveContacts W (h\<lparr>h_contacts := cs\<rparr>))" using assms(1) by (simp add: keeps_def)
    from k emitEvent_keeps [OF this] show ?thesis by (rule keeps_data_trans)
  qed
  have cs: "list_all saved_contact_ok (h_contacts h)" "length (h_contacts h) \<le> MAX_CONTACTS" using assms(1) by (simp_all add: data_ok_def)
  show ?thesis
  proof (cases "addr_length a = 0 \<or> unat (addr_length a) > MESH_ADDRESS_MAX_LENGTH")
    case True
    then show ?thesis by (auto simp: addContact_def)
  next
    case False
    show ?thesis
    proof (cases "findContact (h_activeBackend h) a (h_contacts h)")
      case None
      have "saved_contact_ok \<lparr>ct_backend = string_array MESH_BACKEND_ID_MAX_LENGTH (h_activeBackend h), ct_address = a, ct_name = ?n\<rparr>"
        using False assms(2) string_array_ok by (simp add: saved_contact_ok_def address_ok_def word_gt_0)
      with None False cs show ?thesis by (auto simp: addContact_def Let_def intro!: added)
    next
      case (Some i)
      have "saved_contact_ok ((h_contacts h ! i)\<lparr>ct_name := ?n\<rparr>)"
        using findContact_bound [OF Some] cs(1) string_array_ok by (simp add: saved_contact_ok_def list_all_length)
      then have "list_all saved_contact_ok ((h_contacts h)[i := (h_contacts h ! i)\<lparr>ct_name := ?n\<rparr>])"
        using cs(1) by (auto simp: list_all_iff dest!: subsetD [OF set_update_subset_insert])
      with Some False cs(2) show ?thesis by (auto simp: addContact_def Let_def intro!: added)
    qed
  qed
qed

lemma transmit_keeps: "keeps h (snd (mesh_host_transmit bs seq h))"
  by (auto simp: mesh_host_transmit_def keeps_def data_ok_def sane_def log_ok_def same_thread_def subs_ok_def queue_ok_def frame_ok_def service_sizes)

lemma oldest_node_bound: "old < length ns \<Longrightarrow> oldest_node ns old i < length ns"
  by (induction ns old i rule: oldest_node.induct) (subst oldest_node.simps, simp)

lemma forget_oldest_length: "length ns \<le> MAX_NODES \<Longrightarrow> length (forget_oldest ns) < MAX_NODES"
proof -
  assume n: "length ns \<le> MAX_NODES"
  have "oldest_node ns 0 0 < length ns" if "ns \<noteq> []" using that oldest_node_bound [of 0 ns 0] by simp
  with n show ?thesis by (cases "ns = []") (auto simp: forget_oldest_def Let_def service_sizes)
qed

lemma node_heard_keeps:
  assumes "data_ok h"
  shows "keeps h (mesh_host_node_heard W a nm sig h)"
proof -
  have k: "keeps h (h\<lparr>h_nodes := ns\<rparr>)" if "length ns \<le> MAX_NODES" for ns
    using that by (simp add: keeps_def data_ok_def sane_def log_ok_def same_thread_def subs_ok_def queue_ok_def)
  have e: "keeps h (emitEvent W MESH_EVENT_NODE st 0 DELIVERY_RECEIVED (h\<lparr>h_nodes := ns\<rparr>))" if "length ns \<le> MAX_NODES" for ns st
    using k [OF that] emitEvent_keeps assms keeps_data_trans unfolding keeps_def by blast
  have n: "length (h_nodes h) \<le> MAX_NODES" using assms by (simp add: data_ok_def)
  show ?thesis
    unfolding mesh_host_node_heard_def Let_def using n forget_oldest_length [OF n] by (intro e) (auto split: option.split)
qed

lemma advert_heard_keeps:
  assumes "data_ok h"
  shows "keeps h (mesh_host_advert_heard W a nm sig h)"
  unfolding mesh_host_advert_heard_def Let_def using node_heard_keeps [OF assms] emitFrame_keeps assms keeps_data_trans unfolding keeps_def by blast

lemma settings_keeps: "keeps h (ensureSettingsLoaded W h)"
  by (simp add: ensureSettingsLoaded_def keeps_def data_ok_def sane_def log_ok_def same_thread_def subs_ok_def queue_ok_def split: prod.split)

lemma node_name_keeps: "keeps h (snd (mesh_host_get_node_name W n h))"
  by (simp add: mesh_host_get_node_name_def Let_def settings_keeps)


section \<open>Lawful backends\<close>

text \<open>
  The addresses that a backend passes on are addresses. This is what the service relies on; everything else it checks.
\<close>

fun call_ok :: "host_call \<Rightarrow> bool" where
  "call_ok (ReceiveText from channel sender txt sig sender_time) \<longleftrightarrow> (case from of Some a \<Rightarrow> address_ok a | None \<Rightarrow> True)"
| "call_ok (NodeHeard a nm sig) \<longleftrightarrow> address_ok a"
| "call_ok (AdvertHeard a nm sig) \<longleftrightarrow> address_ok a"
| "call_ok _ \<longleftrightarrow> True"

primrec lawful :: "'r action \<Rightarrow> bool" where
  "lawful (Done r) \<longleftrightarrow> True"
| "lawful (Host c k) \<longleftrightarrow> call_ok c \<and> (\<forall>a. lawful (k a))"
| "lawful (NodeName k) \<longleftrightarrow> (\<forall>s. lawful (k s))"

definition lawful_api :: "'b MeshBackendApi \<Rightarrow> bool" where
  "lawful_api api \<longleftrightarrow> lawful (b_create api) \<and> (\<forall>b. lawful (b_destroy api b)) \<and> (\<forall>b r m p. lawful (b_get_radio_profile api b r m p)) \<and>
     (\<forall>b. lawful (b_on_start api b)) \<and> (\<forall>b bs sig. lawful (b_on_receive api b bs sig)) \<and> (\<forall>b. lawful (b_on_tick api b)) \<and>
     (\<forall>b q to ch s. lawful (b_send_text api b q to ch s)) \<and>
     (\<forall>f. b_get_channels api = Some f \<longrightarrow> (\<forall>b n. lawful (f b n))) \<and>
     (\<forall>f. b_set_channel api = Some f \<longrightarrow> (\<forall>b c. lawful (f b c))) \<and>
     (\<forall>f. b_get_contact_uri api = Some f \<longrightarrow> (\<forall>b c s n. lawful (f b c s n))) \<and>
     (\<forall>f. b_is_valid_contact_address api = Some f \<longrightarrow> (\<forall>b a. lawful (f b a))) \<and>
     (\<forall>f. b_on_node_name_changed api = Some f \<longrightarrow> (\<forall>b. lawful (f b))) \<and>
     (\<forall>f. b_remove_channel api = Some f \<longrightarrow> (\<forall>b i. lawful (f b i)))"

lemma string_array_length [simp]: "length (string_array n s) = n + 1"
  using string_array_ok [of n s] by (simp add: string_ok_def)

lemma receive_text_keeps:
  assumes "data_ok h" "h_api h \<noteq> None" "case from of Some a \<Rightarrow> address_ok a | None \<Rightarrow> True"
  shows "keeps h (snd (mesh_host_receive_text W from channel sender txt sig t h))"
proof -
  obtain p where p: "h_api h = Some p" using assms(2) by auto
  define m where "m = MeshMessage_init\<lparr>m_backend := string_array MESH_BACKEND_ID_MAX_LENGTH (b_id (w_api W p)), m_outgoing := False,
               m_delivery := delivery_code DELIVERY_RECEIVED, m_channel := channel\<rparr>"
  define m1 where "m1 = (case from of Some a \<Rightarrow> m\<lparr>m_peer := a\<rparr> | None \<Rightarrow> m)"
  define m2 where "m2 = (case sender of Some s \<Rightarrow> m1\<lparr>m_sender_name := string_array MESH_NAME_MAX_LENGTH s\<rparr> | None \<Rightarrow> m1)"
  define m3 where "m3 = (stamp W t m2)\<lparr>m_uptime_ms := getMillis W, m_rssi := fst sig, m_snr := snd sig, m_text := string_array MESH_TEXT_MAX_LENGTH txt\<rparr>"
  have "message_wf m3" using assms(3)
    by (auto simp: m3_def m2_def m1_def m_def stamp_def message_wf_def MeshMessage_init_def address_ok_def mesh_sizes split: option.split)
  from store_add_keeps [OF assms(1) this] have k: "keeps h (snd (store_add W m3 h))" .
  obtain e m' h' where a: "store_add W m3 h = ((e, m'), h')" by (metis surj_pair)
  with k have k': "keeps h h'" by simp
  let ?h = "case from of Some a \<Rightarrow> if addr_length a > 0 then snd (addContact W a sender False h') else h' | None \<Rightarrow> h'"
  have d: "data_ok h'" using k' assms(1) by (simp add: keeps_def)
  have kc: "keeps h' ?h" using assms(3) addContact_keeps [OF d] by (auto simp: address_ok_def split: option.split)
  then have k2: "keeps h ?h" using k' by (blast intro: keeps_data_trans)
  have d2: "data_ok ?h" using kc d unfolding keeps_def by blast
  have "mesh_host_receive_text W from channel sender txt sig t h =
      (if e \<noteq> ERROR_NONE then (0, h') else (m_seq m', emitEvent W MESH_EVENT_MESSAGE (h_state ?h) (m_seq m') DELIVERY_RECEIVED ?h))"
    by (simp only: mesh_host_receive_text_def p option.case Let_def m_def [symmetric] m1_def [symmetric] m2_def [symmetric] m3_def [symmetric] a prod.case)
  then show ?thesis using k' keeps_data_trans [OF k2 emitEvent_keeps [OF d2]] by simp
qed

lemma host_step_keeps:
  assumes "data_ok h" "h_api h \<noteq> None" "call_ok c"
  shows "keeps h (snd (host_step W c h))"
proof (cases c)
  case (ReceiveText origin channel sender s sig t)
  then show ?thesis using receive_text_keeps [OF assms(1,2), of origin W channel "Some sender" s sig "ucast t"] assms(3)
    by (simp add: case_prod_beta)
next
  case (NodeHeard a nm sig)
  then show ?thesis using node_heard_keeps [OF assms(1)] by simp
next
  case (AdvertHeard a nm sig)
  then show ?thesis using advert_heard_keeps [OF assms(1)] by simp
qed (use assms in \<open>simp_all add: transmit_keeps setDelivery_keeps\<close>)

lemma run_action_keeps:
  assumes "data_ok h" "h_api h \<noteq> None" "lawful act"
  shows "keeps h (snd (run_action W act h))"
  using assms
proof (induction act arbitrary: h)
  case (Host c k)
  obtain a h' where s: "host_step W c h = (a, h')" by fastforce
  have k: "keeps h h'" using host_step_keeps [OF Host.prems(1,2), of c W] Host.prems(3) s by simp
  then have "keeps h' (snd (run_action W (k a) h'))"
    using Host.prems by (intro Host.IH) (auto simp: keeps_def same_thread_def)
  with k s show ?case by (auto intro: keeps_data_trans)
next
  case (NodeName k)
  obtain s h' where s: "mesh_host_get_node_name W (MESH_NAME_MAX_LENGTH + 1) h = (s, h')" by fastforce
  have k: "keeps h h'" using node_name_keeps [of h W "MESH_NAME_MAX_LENGTH + 1"] s by simp
  then have "keeps h' (snd (run_action W (k s) h'))"
    using NodeName.prems by (intro NodeName.IH) (auto simp: keeps_def same_thread_def)
  with k s show ?case by (auto intro: keeps_data_trans)
qed simp


end
