(* ===== verification/Mesh_Invariant.thy ===== *)
theory Mesh_Invariant
  imports Mesh_Safety
begin

text \<open>
  The invariant of the mesh service: its data stays within bounds and its message log a log, a backend is active exactly in the
  state \<open>MESH_STATE_ON\<close>, and then the service owns the radio and, for LoRa, knows its region. Every operation of the
  thread and every function for apps keeps it, so none of them dereferences a null pointer or leaves an array.
\<close>

section \<open>The invariant\<close>

lemma data_ok_update [simp]:
  "data_ok (h\<lparr>h_api := x0\<rparr>) = data_ok h" "data_ok (h\<lparr>h_backend := x1\<rparr>) = data_ok h" "data_ok (h\<lparr>h_radio := x2\<rparr>) = data_ok h"
  "data_ok (h\<lparr>h_radioAcquired := x3\<rparr>) = data_ok h" "data_ok (h\<lparr>h_rxSubscribed := x4\<rparr>) = data_ok h" "data_ok (h\<lparr>h_txSubscribed := x5\<rparr>) = data_ok h"
  "data_ok (h\<lparr>h_state := x6\<rparr>) = data_ok h" "data_ok (h\<lparr>h_activeBackend := x7\<rparr>) = data_ok h" "data_ok (h\<lparr>h_profile := x8\<rparr>) = data_ok h"
  "data_ok (h\<lparr>h_appliedRegion := x9\<rparr>) = data_ok h" "data_ok (h\<lparr>h_radio_log := x10\<rparr>) = data_ok h" "data_ok (h\<lparr>h_refs := x11\<rparr>) = data_ok h"
  "data_ok (h\<lparr>h_calls := x12\<rparr>) = data_ok h" "data_ok (h\<lparr>h_answer := x13\<rparr>) = data_ok h" "data_ok (h\<lparr>h_running := x14\<rparr>) = data_ok h"
  "data_ok (h\<lparr>g_service := x15\<rparr>) = data_ok h" "data_ok (h\<lparr>h_lastTickMs := x16\<rparr>) = data_ok h" "data_ok (h\<lparr>h_airtime := x17\<rparr>) = data_ok h"
  "data_ok (h\<lparr>h_dutyCycleLogged := x18\<rparr>) = data_ok h" "data_ok (h\<lparr>h_txId := x19\<rparr>) = data_ok h" "data_ok (h\<lparr>g_settings := x20\<rparr>) = data_ok h"
  "data_ok (h\<lparr>g_backends := x21\<rparr>) = data_ok h" "data_ok (h\<lparr>g_files := x22\<rparr>) = data_ok h" "data_ok (h\<lparr>g_settingsLoaded := x23\<rparr>) = data_ok h"
  "data_ok (h\<lparr>h_contacts_file := x24\<rparr>) = data_ok h"
  by (simp_all add: data_ok_def sane_def log_ok_def subs_ok_def queue_ok_def)

text \<open>\<open>ids\<close>: the ids of the backends.\<close>

definition world_ok :: "(ptr \<Rightarrow> byte list) \<Rightarrow> 'b mesh_world \<Rightarrow> bool" where
  "world_ok ids W \<longleftrightarrow> (\<forall>p. lawful_api (w_api W p) \<and> b_id (w_api W p) = ids p)"

definition radio_ok :: "'b mesh \<Rightarrow> bool" where
  "radio_ok h \<longleftrightarrow> (h_radioAcquired h \<longrightarrow> h_radio h \<noteq> None) \<and> h_refs h = (if h_radio h = None then 0 else 1)"

definition backend_off :: "'b mesh \<Rightarrow> bool" where
  "backend_off h \<longleftrightarrow> radio_ok h \<and> h_api h = None \<and> h_backend h = None \<and> \<not> h_txInFlight h \<and> h_activeBackend h = []"

definition backend_up :: "'b mesh \<Rightarrow> bool" where
  "backend_up h \<longleftrightarrow> radio_ok h \<and> h_api h \<noteq> None \<and> h_backend h \<noteq> None \<and> h_radioAcquired h"

definition region_known :: "'b mesh \<Rightarrow> bool" where
  "region_known h \<longleftrightarrow> (\<forall>r. h_radio h = Some r \<longrightarrow> usesLora r \<longrightarrow> h_appliedRegion h \<noteq> REGION_UNSET)"

definition backend_on :: "(ptr \<Rightarrow> byte list) \<Rightarrow> 'b mesh \<Rightarrow> bool" where
  "backend_on ids h \<longleftrightarrow> backend_up h \<and> region_known h \<and> h_activeBackend h = take MESH_BACKEND_ID_MAX_LENGTH (ids (the (h_api h))) \<and> h_state h = MESH_STATE_ON"

definition mesh_inv :: "(ptr \<Rightarrow> byte list) \<Rightarrow> 'b mesh \<Rightarrow> bool" where
  "mesh_inv ids h \<longleftrightarrow> data_ok h \<and> (backend_off h \<and> h_state h \<noteq> MESH_STATE_ON \<or> backend_on ids h)"

lemmas mesh_inv_defs = mesh_inv_def backend_on_def backend_off_def backend_up_def radio_ok_def region_known_def

lemma keeps_data: "keeps h h' \<Longrightarrow> data_ok h \<Longrightarrow> data_ok h'"
  by (simp add: keeps_def)

lemma same_thread_preds:
  assumes "same_thread h h'"
  shows "radio_ok h' = radio_ok h" "backend_off h' = backend_off h" "backend_up h' = backend_up h" "region_known h' = region_known h"
    "backend_on ids h' = backend_on ids h"
  using assms by (simp_all add: same_thread_def mesh_inv_defs)

lemma keeps_inv: "mesh_inv ids h \<Longrightarrow> keeps h h' \<Longrightarrow> mesh_inv ids h'"
  by (auto simp: mesh_inv_def keeps_def same_thread_preds) (auto simp: same_thread_def)

section \<open>Functions of the backend\<close>

text \<open>The backend's own state may change.\<close>

definition works :: "'b mesh \<Rightarrow> 'b mesh \<Rightarrow> bool" where
  "works h h' \<longleftrightarrow> (data_ok h \<longrightarrow> data_ok h') \<and> same_thread h (h'\<lparr>h_backend := h_backend h\<rparr>) \<and> (h_backend h' = None \<longleftrightarrow> h_backend h = None)"

lemma works_refl [simp, intro]: "works h h"
  by (simp add: works_def same_thread_def)

lemma works_trans [trans]: "works h h' \<Longrightarrow> works h' h'' \<Longrightarrow> works h h''"
  by (auto simp: works_def same_thread_def)

lemma keeps_works: "keeps h h' \<Longrightarrow> works h h'"
  by (auto simp: keeps_def works_def same_thread_def)

lemma works_fold:
  assumes "\<And>x h. x \<in> set xs \<Longrightarrow> P h \<Longrightarrow> works h (f x h)" "\<And>h h'. P h \<Longrightarrow> works h h' \<Longrightarrow> P h'" "P h"
  shows "works h (fold f xs h)"
  using assms
proof (induction xs arbitrary: h)
  case (Cons x xs)
  have w: "works h (f x h)" using Cons.prems by simp
  then have "works (f x h) (fold f xs (f x h))" using Cons.prems by (intro Cons.IH) auto
  with w show ?case by (auto intro: works_trans)
qed simp

definition on_or_off :: "'b mesh \<Rightarrow> bool" where
  "on_or_off h \<longleftrightarrow> data_ok h \<and> (h_api h = None \<longleftrightarrow> h_backend h = None)"

lemma works_on_or_off: "on_or_off h \<Longrightarrow> works h h' \<Longrightarrow> on_or_off h'"
  by (auto simp: on_or_off_def works_def same_thread_def)

lemma works_inv: "mesh_inv ids h \<Longrightarrow> works h h' \<Longrightarrow> mesh_inv ids h'"
  by (auto simp: works_def same_thread_def mesh_inv_defs)

lemma inv_on_or_off: "mesh_inv ids h \<Longrightarrow> on_or_off h"
  by (auto simp: mesh_inv_defs on_or_off_def)

lemma on_backend_works:
  assumes "data_ok h" "h_api h = Some p" "h_backend h = Some b" "lawful (f (w_api W p) b)"
  shows "works h (snd (on_backend W f h))" "fst (on_backend W f h) \<noteq> None"
proof -
  obtain b' r h' where a: "run_action W (f (w_api W p) b) h = ((b', r), h')" by (metis surj_pair)
  have "keeps h h'" using run_action_keeps [OF assms(1) _ assms(4), of W] assms(2) a by simp
  then show "works h (snd (on_backend W f h))" using assms(2,3) a by (auto simp: on_backend_def works_def keeps_def same_thread_def)
  show "fst (on_backend W f h) \<noteq> None" using assms(2,3) a by (simp add: on_backend_def)
qed

lemma setDelivery_works: "data_ok h \<Longrightarrow> works h (setDelivery W seq d h)"
  by (intro keeps_works setDelivery_keeps)

lemma deliveries_work:
  assumes "data_ok h"
  shows "works h (fold (\<lambda>seq. setDelivery W seq d) seqs h)"
proof (rule works_fold [where P = data_ok, OF _ _ assms])
  show "works h' (setDelivery W seq d h')" if "data_ok h'" for seq h' using that by (rule setDelivery_works)
  show "data_ok h''" if "data_ok h'" "works h' h''" for h' h'' using that by (simp add: works_def)
qed

lemma sendStored_works:
  assumes "on_or_off h" "world_ok ids W"
  shows "works h (sendStored W seq h)"
proof -
  obtain e m h1 where g: "store_get W seq h = ((e, m), h1)" by (metis surj_pair)
  have d: "data_ok h" using assms(1) by (simp add: on_or_off_def)
  have w1: "works h h1" using store_get_keeps [OF d, of W seq] g by (simp add: keeps_works)
  then have o1: "on_or_off h1" using assms(1) by (rule works_on_or_off [rotated])
  then have d1: "data_ok h1" by (simp add: on_or_off_def)
  let ?f = "\<lambda>api b. b_send_text api b seq (if addr_length (m_peer m) > 0 then Some (m_peer m) else None) (m_channel m) (c_string (m_text m))"
  show ?thesis
  proof (cases "h_api h1")
    case None
    then show ?thesis using w1 works_trans [OF w1 setDelivery_works [OF d1]] by (simp add: sendStored_def g)
  next
    case (Some p)
    then obtain b where b: "h_backend h1 = Some b" using o1 by (auto simp: on_or_off_def)
    have "lawful (?f (w_api W p) b)" using assms(2) by (simp add: world_ok_def lawful_api_def)
    from on_backend_works(1) [where f = ?f, OF d1 Some b this] have w2: "works h1 (snd (on_backend W ?f h1))" .
    then have d2: "data_ok (snd (on_backend W ?f h1))" using d1 by (simp add: works_def)
    show ?thesis using works_trans [OF w1 setDelivery_works [OF d1]] works_trans [OF w1 w2] works_trans [OF works_trans [OF w1 w2] setDelivery_works [OF d2]] w1
      by (auto simp: sendStored_def g Some case_prod_beta)
  qed
qed

lemma resubmit_works:
  assumes "on_or_off h" "h_api h \<noteq> None" "world_ok ids W"
  shows "works h (resubmitPending W h)"
proof -
  obtain p where p: "h_api h = Some p" using assms(2) by auto
  obtain seqs h1 where s: "store_outgoing W (b_id (w_api W p)) DELIVERY_BLOCKED h = (seqs, h1)" by fastforce
  have d: "data_ok h" using assms(1) by (simp add: on_or_off_def)
  have w1: "works h h1" using store_outgoing_keeps [OF d, of W "b_id (w_api W p)" DELIVERY_BLOCKED] s by (simp add: keeps_works)
  let ?h2 = "fold (\<lambda>seq. setDelivery W seq DELIVERY_QUEUED) seqs h1"
  have o1: "on_or_off h1" using works_on_or_off [OF assms(1) w1] .
  have w2: "works h1 ?h2" using o1 by (intro deliveries_work) (simp add: on_or_off_def)
  have w3: "works ?h2 (fold (sendStored W) seqs ?h2)"
    by (rule works_fold [where P = on_or_off, OF _ works_on_or_off works_on_or_off [OF o1 w2]]) (auto intro: sendStored_works [OF _ assms(3)])
  show ?thesis using works_trans [OF works_trans [OF w1 w2] w3] by (simp add: resubmitPending_def p s)
qed

section \<open>Configuring\<close>

lemma setState_data:
  assumes "data_ok h"
  shows "data_ok (setState W st h)" "same_thread (h\<lparr>h_state := st\<rparr>) (setState W st h)"
proof -
  have "keeps (h\<lparr>h_state := st\<rparr>) (emitEvent W MESH_EVENT_STATE st 0 DELIVERY_RECEIVED (h\<lparr>h_state := st\<rparr>))"
    using assms by (intro emitEvent_keeps) simp
  with assms show "data_ok (setState W st h)" "same_thread (h\<lparr>h_state := st\<rparr>) (setState W st h)"
    by (auto simp: setState_def keeps_def same_thread_def)
qed

lemma setState_off:
  assumes "data_ok h" "backend_off h" "st \<noteq> MESH_STATE_ON"
  shows "mesh_inv ids (setState W st h)"
  using setState_data [OF assms(1), where W = W and st = st] assms(2,3) by (simp add: mesh_inv_defs same_thread_def)

text \<open>The frames that the radio accepted, with their time and air time.\<close>

fun sent :: "radio_call list \<Rightarrow> AirtimeRecord list" where
  "sent [] = []"
| "sent (RadioSent t bs a # cs) = \<lparr>at_timeMs = t, at_airtimeMs = a\<rparr> # sent cs"
| "sent (_ # cs) = sent cs"

lemma sent_append [simp]: "sent (cs @ ds) = sent cs @ sent ds"
  by (induction cs rule: sent.induct) auto

text \<open>What a change of the backend leaves alone.\<close>

definition same_queue :: "'b mesh \<Rightarrow> 'b mesh \<Rightarrow> bool" where
  "same_queue h h' \<longleftrightarrow> h_calls h' = h_calls h \<and> h_answer h' = h_answer h \<and> h_running h' = h_running h \<and> g_service h' = g_service h \<and>
     g_backends h' = g_backends h \<and> h_lastTickMs h' = h_lastTickMs h \<and> h_airtime h' = h_airtime h \<and> sent (h_radio_log h') = sent (h_radio_log h)"

lemma same_queue_refl [simp, intro]: "same_queue h h" by (simp add: same_queue_def)

lemma same_queue_trans [trans]: "same_queue h h' \<Longrightarrow> same_queue h' h'' \<Longrightarrow> same_queue h h''" by (simp add: same_queue_def)

lemma works_queue: "works h h' \<Longrightarrow> same_queue h h'" by (auto simp: works_def same_thread_def same_queue_def)

lemma setState_queue: "data_ok h \<Longrightarrow> same_queue h (setState W st h)"
  using setState_data(2) [where h = h and W = W and st = st] by (simp add: same_thread_def same_queue_def)

lemma deactivate_off:
  assumes "data_ok h" "backend_off h \<or> backend_up h" "world_ok ids W"
  shows "data_ok (deactivateBackend W h) \<and> backend_off (deactivateBackend W h) \<and> h_state (deactivateBackend W h) = h_state h \<and>
    h_radio (deactivateBackend W h) = h_radio h \<and> h_radioAcquired (deactivateBackend W h) = h_radioAcquired h \<and> same_queue h (deactivateBackend W h)"
proof (cases "h_api h")
  case None
  with assms show ?thesis by (auto simp: deactivateBackend_def backend_up_def)
next
  case (Some p)
  with assms(2) obtain b where b: "h_backend h = Some b" and r: "radio_ok h" by (auto simp: backend_off_def backend_up_def)
  let ?h1 = "snd (run_action W (b_destroy (w_api W p) b) h)"
  have "lawful (b_destroy (w_api W p) b)" using assms(3) by (simp add: world_ok_def lawful_api_def)
  from run_action_keeps [OF assms(1) _ this, of W] Some have k1: "keeps h ?h1" by simp
  then have d1: "data_ok ?h1" using assms(1) by (simp add: keeps_def)
  let ?h2 = "radioOff (?h1\<lparr>h_api := None, h_backend := None, h_txQueue := [], h_txInFlight := False\<rparr>)"
  have d2: "data_ok ?h2" using d1 by (auto simp: radioOff_def log_radio_def data_ok_def sane_def log_ok_def subs_ok_def queue_ok_def)
  have t2: "radio_ok ?h2 \<and> h_api ?h2 = None \<and> h_backend ?h2 = None \<and> \<not> h_txInFlight ?h2 \<and> h_state ?h2 = h_state h \<and>
      h_radio ?h2 = h_radio h \<and> h_radioAcquired ?h2 = h_radioAcquired h \<and> same_queue h ?h2"
    using k1 r by (auto simp: radioOff_def log_radio_def keeps_def same_thread_def radio_ok_def same_queue_def)
  obtain seqs h3 where s: "store_outgoing W (b_id (w_api W p)) DELIVERY_QUEUED ?h2 = (seqs, h3)" by fastforce
  have w3: "works ?h2 h3" using store_outgoing_keeps [OF d2, of W "b_id (w_api W p)" DELIVERY_QUEUED] s by (simp add: keeps_works)
  let ?h4 = "fold (\<lambda>seq. setDelivery W seq DELIVERY_BLOCKED) seqs h3"
  have "data_ok h3" using w3 d2 by (simp add: works_def)
  then have w4: "works h3 ?h4" by (rule deliveries_work)
  then have w: "works ?h2 ?h4" using w3 works_trans by blast
  then have d4: "data_ok ?h4" using d2 by (simp add: works_def)
  have e: "deactivateBackend W h = ?h4\<lparr>h_nodes := [], h_activeBackend := []\<rparr>"
    by (simp add: deactivateBackend_def Some b s Let_def)
  have "data_ok (?h4\<lparr>h_nodes := [], h_activeBackend := []\<rparr>)" using d4 by (simp add: data_ok_def sane_def log_ok_def subs_ok_def queue_ok_def)
  with t2 w r show ?thesis unfolding e by (simp add: works_def same_thread_def backend_off_def radio_ok_def same_queue_def)
qed

lemma set_parameters_log: "\<exists>l. snd (set_parameters W ps h) = h\<lparr>h_radio_log := l\<rparr> \<and> sent l = sent (h_radio_log h)"
proof (induction ps arbitrary: h)
  case Nil
  show ?case by (rule exI [of _ "h_radio_log h"]) simp
next
  case (Cons a ps)
  obtain p v where a: "a = (p, v)" by fastforce
  obtain l where "snd (set_parameters W ps (log_radio (RadioParam p v) h)) = (log_radio (RadioParam p v) h)\<lparr>h_radio_log := l\<rparr>"
    "sent l = sent (h_radio_log (log_radio (RadioParam p v) h))" using Cons.IH by blast
  then show ?case by (auto simp: a Let_def log_radio_def intro: exI [of _ "h_radio_log h @ [RadioParam p v]"])
qed

lemma applyProfile_log:
  assumes "h_radio h \<noteq> None"
  shows "\<exists>l. snd (applyProfile W h) = h\<lparr>h_radio_log := l\<rparr> \<and> sent l = sent (h_radio_log h)"
proof -
  let ?h = "log_radio (RadioModulate (modulation (h_profile h))) (log_radio (RadioEnabled False) h)"
  obtain l where l: "snd (set_parameters W (profile_parameters (h_profile h)) ?h) = ?h\<lparr>h_radio_log := l\<rparr>" "sent l = sent (h_radio_log ?h)"
    using set_parameters_log by blast
  obtain ok h1 where s: "set_parameters W (profile_parameters (h_profile h)) ?h = (ok, h1)" by fastforce
  with l have h1: "h1 = h\<lparr>h_radio_log := l\<rparr>" "sent l = sent (h_radio_log h)" by (simp_all add: log_radio_def)
  define log where "log = (\<lambda>g. \<exists>l. g = h\<lparr>h_radio_log := l\<rparr> \<and> sent l = sent (h_radio_log h))"
  have log: "log h" "log h1" unfolding log_def using h1 by (auto intro: exI [of _ "h_radio_log h"] exI [of _ l])
  have add: "log (log_radio c g)" if "log g" "sent [c] = []" for c g
    using that by (auto simp: log_def log_radio_def)
  then have "log (if b then log_radio (RadioParam p v) h1 else h1)" for b p v using log(2) by simp
  then have "log (snd (applyProfile W h))" using assms log unfolding applyProfile_def Let_def s prod.case by (cases ok) (auto intro!: add)
  then show ?thesis unfolding log_def .
qed

text \<open>A backend that starts is up, or nothing is.\<close>

lemma start_backend_inv:
  assumes "data_ok h" "backend_off h" "h_radio h = Some r" "h_radioAcquired h" "world_ok ids W"
  shows "case start_backend W r p preset h of (ok, h') \<Rightarrow> data_ok h' \<and> same_queue h h' \<and> h_radio h' = Some r \<and> h_radioAcquired h' \<and>
    h_appliedRegion h' = h_appliedRegion h \<and>
    (if ok then backend_up h' \<and> h_api h' = Some p \<and> h_activeBackend h' = [] else backend_off h' \<and> h_state h' = MESH_STATE_ERROR)"
proof -
  have lawful: "lawful (b_create (w_api W p))" "lawful (b_destroy (w_api W p) b)"
    "lawful (b_get_radio_profile (w_api W p) b x y z)" for b x y z
    using assms(5) by (simp_all add: world_ok_def lawful_api_def)
  let ?h = "h\<lparr>h_api := Some p\<rparr>"
  obtain ob h1 where c: "run_action W (b_create (w_api W p)) ?h = (ob, h1)" by fastforce
  have d: "data_ok ?h" "h_api ?h \<noteq> None" using assms(1) by simp_all
  have k1: "keeps ?h h1" using run_action_keeps [OF d lawful(1), of W] c by simp
  then have d1: "data_ok h1" "h_api h1 = Some p" using d by (simp_all add: keeps_def same_thread_def)
  show ?thesis
  proof (cases ob)
    case None
    have "data_ok (h1\<lparr>h_api := None\<rparr>)" using d1 by simp
    from setState_data [OF this, where W = W and st = MESH_STATE_ERROR] show ?thesis using c None k1 assms(2,3,4)
      by (auto simp: start_backend_def keeps_def same_thread_def mesh_inv_defs same_queue_def Let_def)
  next
    case (Some b)
    let ?m = "if usesLora r then MODULATION_LORA else MODULATION_ESPNOW"
    obtain b' e profile h2 where g: "run_action W (b_get_radio_profile (w_api W p) b (h_appliedRegion h1) ?m preset) h1 = ((b', e, profile), h2)" by (metis surj_pair)
    have k2: "keeps h1 h2" using run_action_keeps [OF d1(1) _ lawful(3), of W b "h_appliedRegion h1" ?m preset] g d1(2) by simp
    then have d2: "data_ok (h2\<lparr>h_profile := profile\<rparr>)" "h_api (h2\<lparr>h_profile := profile\<rparr>) \<noteq> None" using d1 by (simp_all add: keeps_def same_thread_def)
    let ?h3 = "snd (run_action W (b_destroy (w_api W p) b') (h2\<lparr>h_profile := profile\<rparr>))"
    have k3: "keeps (h2\<lparr>h_profile := profile\<rparr>) ?h3" by (rule run_action_keeps [OF d2 lawful(2)])
    then have "data_ok (?h3\<lparr>h_api := None\<rparr>)" using d2 by (simp add: keeps_def)
    note st = setState_data [OF this, where W = W and st = MESH_STATE_ERROR]
    show ?thesis
    proof (cases "e = ERROR_NONE")
      case True
      then show ?thesis using c g Some k1 k2 d2 assms(2,3,4)
        by (simp add: start_backend_def keeps_def same_thread_def mesh_inv_defs same_queue_def Let_def)
    next
      case False
      then show ?thesis using c g Some k1 k2 k3 st assms(2,3,4)
        by (simp add: start_backend_def keeps_def same_thread_def mesh_inv_defs same_queue_def Let_def)
    qed
  qed
qed


lemma inv_data: "mesh_inv ids h \<Longrightarrow> data_ok h"
  by (simp add: mesh_inv_def)

lemma inv_off_or_up: "mesh_inv ids h \<Longrightarrow> backend_off h \<or> backend_up h"
  by (auto simp: mesh_inv_def backend_on_def)

lemma backend_off_update: "backend_off (h\<lparr>h_appliedRegion := x\<rparr>) = backend_off h" "backend_off (h\<lparr>h_radio_log := l\<rparr>) = backend_off h"
  by (simp_all add: backend_off_def radio_ok_def)

lemma b_on_start_lawful: "world_ok ids W \<Longrightarrow> lawful (b_on_start (w_api W p) b)"
  by (simp add: world_ok_def lawful_api_def)

text \<open>The last part of \<open>activate\<close>.\<close>

lemma configured_inv:
  assumes "data_ok h" "backend_up h" "region_known h" "h_api h = Some p" "world_ok ids W"
  shows "let h' = resubmitPending W (snd (on_backend W b_on_start (setState W MESH_STATE_ON (h\<lparr>h_activeBackend := take MESH_BACKEND_ID_MAX_LENGTH (ids p)\<rparr>)))) in
    mesh_inv ids h' \<and> same_queue h h' \<and> h_radio h' = h_radio h \<and> h_api h' = Some p"
proof -
  let ?h1 = "setState W MESH_STATE_ON (h\<lparr>h_activeBackend := take MESH_BACKEND_ID_MAX_LENGTH (ids p)\<rparr>)"
  have "data_ok (h\<lparr>h_activeBackend := take MESH_BACKEND_ID_MAX_LENGTH (ids p)\<rparr>)" using assms(1) by simp
  note st = setState_data [OF this, where W = W and st = MESH_STATE_ON]
  then have i1: "mesh_inv ids ?h1" "same_queue h ?h1" "h_api ?h1 = Some p" "h_radio ?h1 = h_radio h"
    using assms(2-4) by (simp_all add: mesh_inv_defs same_thread_def same_queue_def)
  then obtain b where b: "h_backend ?h1 = Some b" by (auto simp: mesh_inv_defs)
  let ?h2 = "snd (on_backend W b_on_start ?h1)"
  have w2: "works ?h1 ?h2" by (rule on_backend_works(1) [where f = b_on_start, OF inv_data [OF i1(1)] i1(3) b b_on_start_lawful [OF assms(5)]])
  have i2: "mesh_inv ids ?h2" using works_inv [OF i1(1) w2] .
  have "h_api ?h2 \<noteq> None" using w2 i1(3) by (simp add: works_def same_thread_def)
  from resubmit_works [OF inv_on_or_off [OF i2] this assms(5)] have w3: "works ?h2 (resubmitPending W ?h2)" .
  with i2 have "mesh_inv ids (resubmitPending W ?h2)" by (rule works_inv)
  moreover have "same_queue h (resubmitPending W ?h2)" using i1(2) works_queue [OF w2] works_queue [OF w3] same_queue_trans by blast
  moreover have "h_radio (resubmitPending W ?h2) = h_radio h" "h_api (resubmitPending W ?h2) = Some p" using i1(3,4) w2 w3 by (simp_all add: works_def same_thread_def)
  ultimately show ?thesis by (simp add: Let_def)
qed

text \<open>A state that \<open>configure\<close> gives up in.\<close>

lemma quit_inv:
  assumes "data_ok g" "backend_off g" "st \<noteq> MESH_STATE_ON"
  shows "mesh_inv ids (setState W st g) \<and> same_queue g (setState W st g) \<and> h_radio (setState W st g) = h_radio g \<and> h_api (setState W st g) = None"
  using setState_off [OF assms] setState_queue [OF assms(1), where W = W and st = st] setState_data(2) [OF assms(1), where W = W and st = st] assms(2)
  by (simp add: same_thread_def backend_off_def)

lemma activate_inv:
  assumes "data_ok h" "backend_off h" "h_radio h = Some r" "h_radioAcquired h" "world_ok ids W"
  shows "mesh_inv ids (activate W r p preset h) \<and> same_queue h (activate W r p preset h) \<and> h_radio (activate W r p preset h) = h_radio h \<and>
    (h_api (activate W r p preset h) = None \<or> h_api (activate W r p preset h) = Some p)"
proof -
  define h1 where "h1 = h\<lparr>h_appliedRegion := ra_region (w_radio W)\<rparr>"
  have h1: "data_ok h1" "backend_off h1" "h_radio h1 = Some r" "h_radioAcquired h1" "same_queue h h1"
    using assms by (simp_all add: h1_def backend_off_update same_queue_def)
  note q1 = quit_inv [OF h1(1,2), where ids = ids and W = W and st = MESH_STATE_NO_REGION]
  obtain ok h2 where s: "start_backend W r p preset h1 = (ok, h2)" by fastforce
  have h2: "data_ok h2" "same_queue h1 h2" "h_radio h2 = Some r" "h_appliedRegion h2 = h_appliedRegion h1"
    "if ok then backend_up h2 \<and> h_api h2 = Some p \<and> h_activeBackend h2 = [] else backend_off h2 \<and> h_state h2 = MESH_STATE_ERROR"
    using start_backend_inv [OF h1(1-4) assms(5), of p preset] s by simp_all
  have q2: "same_queue h h2" using h1(5) h2(2) by (rule same_queue_trans)
  obtain okp h3 where a: "applyProfile W h2 = (okp, h3)" by fastforce
  then obtain l where h3: "h3 = h2\<lparr>h_radio_log := l\<rparr>" "sent l = sent (h_radio_log h2)" using applyProfile_log [of h2 W] h2(3) by auto
  have b: "b_id (w_api W p) = ids p" using assms(5) by (simp add: world_ok_def)
  note unfolded = activate_def Let_def h1_def [symmetric]
  consider "h_appliedRegion h1 = REGION_UNSET \<and> usesLora r" | "\<not> (h_appliedRegion h1 = REGION_UNSET \<and> usesLora r)" "\<not> ok"
    | "\<not> (h_appliedRegion h1 = REGION_UNSET \<and> usesLora r)" ok by blast
  then show ?thesis
  proof cases
    case 1
    then show ?thesis unfolding unfolded using q1 h1(3,5) assms(3) by (auto intro: same_queue_trans)
  next
    case 2
    then show ?thesis unfolding unfolded using s h2 q2 assms(3) by (auto simp: mesh_inv_def backend_off_def)
  next
    case 3
    then have up: "data_ok h3" "backend_up h3" "region_known h3" "h_api h3 = Some p" "same_queue h h3" "h_radio h3 = h_radio h"
      using h2 q2 assms(3) by (auto simp: h3 mesh_inv_defs same_queue_def)
    have off: "data_ok (deactivateBackend W h3)" "backend_off (deactivateBackend W h3)" "same_queue h (deactivateBackend W h3)"
      "h_radio (deactivateBackend W h3) = h_radio h"
      using deactivate_off [OF up(1) _ assms(5)] up(2,5,6) by (auto intro: same_queue_trans)
    show ?thesis
      using 3 s a quit_inv [OF off(1,2), where ids = ids and W = W and st = MESH_STATE_ERROR] off(3,4) configured_inv [OF up(1-4) assms(5)] up(5,6)
      unfolding unfolded b by (cases okp) (auto intro: same_queue_trans)
  qed
qed

lemma selected_in: "getSelectedBackend W h = Some p \<Longrightarrow> p \<in> set (g_backends h)"
  by (auto simp: getSelectedBackend_def findBackend_def find_Some_iff split: if_splits list.splits)

lemma configure_inv:
  assumes "data_ok h" "backend_off h \<or> backend_up h" "world_ok ids W"
  shows "mesh_inv ids (configure W h) \<and> same_queue h (configure W h) \<and> h_radio (configure W h) = h_radio h \<and>
    (\<forall>q. h_api (configure W h) = Some q \<longrightarrow> q \<in> set (g_backends h))"
proof -
  let ?h1 = "deactivateBackend W h"
  have h1: "data_ok ?h1" "backend_off ?h1" "h_radio ?h1 = h_radio h" "same_queue h ?h1"
    using deactivate_off [OF assms] by blast+
  show ?thesis
  proof (cases "h_radio ?h1")
    case None
    then show ?thesis using quit_inv [OF h1(1,2), where ids = ids and W = W and st = MESH_STATE_NO_RADIO] h1(3,4) by (auto simp: configure_def Let_def intro: same_queue_trans)
  next
    case (Some r)
    define h2 where "h2 = (if h_radioAcquired ?h1 then ?h1 else (log_radio RadioAcquire ?h1)\<lparr>h_radioAcquired := ra_acquire (w_radio W) = ERROR_NONE\<rparr>)"
    have h2: "data_ok h2" "backend_off h2" "h_radio h2 = h_radio h" "same_queue h h2" "h_radio h2 = Some r"
      using h1 Some by (auto simp: h2_def log_radio_def backend_off_def radio_ok_def same_queue_def)
    have c: "configure W h = (if \<not> h_radioAcquired h2 then setState W MESH_STATE_RADIO_BUSY h2
         else case getSelectedBackend W h2 of
             None \<Rightarrow> setState W MESH_STATE_NO_BACKEND h2
           | Some p \<Rightarrow> activate W r p (findPreset (w_api W p) (st_preset (g_settings h2))) h2)"
      unfolding configure_def Let_def Some option.case h2_def ..
    have q: "mesh_inv ids (setState W st h2) \<and> same_queue h (setState W st h2) \<and> h_radio (setState W st h2) = h_radio h \<and> h_api (setState W st h2) = None"
      if "st \<noteq> MESH_STATE_ON" for st
      using quit_inv [OF h2(1,2) that, where ids = ids and W = W] h2(3) same_queue_trans [OF h2(4)] by auto
    show ?thesis
    proof (cases "h_radioAcquired h2")
      case False
      then show ?thesis using q [of MESH_STATE_RADIO_BUSY] by (simp add: c)
    next
      case True
      show ?thesis
      proof (cases "getSelectedBackend W h2")
        case None
        then show ?thesis using q [of MESH_STATE_NO_BACKEND] True by (simp add: c)
      next
        case (Some p)
        from selected_in [OF Some] have p: "p \<in> set (g_backends h)" using h2(4) by (simp add: same_queue_def)
        show ?thesis
          using activate_inv [OF h2(1,2,5) True assms(3), of p "findPreset (w_api W p) (st_preset (g_settings h2))"] h2(3) same_queue_trans [OF h2(4)] True Some p
          by (auto simp: c)
      qed
    qed
  qed
qed

end
