(* ===== verification/Mesh_Recovery.thy ===== *)
theory Mesh_Recovery
  imports Mesh_Queries
begin

text \<open>
  What is on the disk: while every write that starts is whole, the segment files are the records of the log in order, and
  the index is what scanning them builds. So closing and opening the log gives the same messages. A write that is torn behind whole
  records breaks this: the retry stores those records a second time.
\<close>

section \<open>The records of a segment\<close>

datatype stored = Message MeshMessage | Delivery "32 word" byte

fun stored_bytes :: "stored \<Rightarrow> byte list" where
  "stored_bytes (Message m) = record_bytes RECORD_TYPE_MESSAGE (message_bytes m)"
| "stored_bytes (Delivery q d) = record_bytes RECORD_TYPE_DELIVERY (le32 q @ [d])"

fun stored_ok :: "stored \<Rightarrow> bool" where
  "stored_ok (Message m) \<longleftrightarrow> message_wf m"
| "stored_ok (Delivery q d) \<longleftrightarrow> True"

definition entry_of :: "32 word \<Rightarrow> 32 word \<Rightarrow> MeshMessage \<Rightarrow> IndexEntry" where
  "entry_of g off m = \<lparr>e_seq = m_seq m, e_segment = g, e_offset = off, e_delivery = m_delivery m, e_channel = m_channel m,
     e_peerHash = (case hashPeer (m_peer (canonical m)) of Some h \<Rightarrow> h | None \<Rightarrow> 0)\<rparr>"

definition with_delivery :: "32 word \<Rightarrow> byte \<Rightarrow> IndexEntry \<Rightarrow> IndexEntry" where
  "with_delivery q d e = (if e_seq e = q then e\<lparr>e_delivery := d\<rparr> else e)"

fun apply_stored :: "32 word \<Rightarrow> 32 word \<Rightarrow> stored \<Rightarrow> IndexEntry list \<Rightarrow> IndexEntry list" where
  "apply_stored g off (Message m) idx = idx @ [entry_of g off m]"
| "apply_stored g off (Delivery q d) idx = map (with_delivery q d) idx"

abbreviation log_bytes :: "stored list \<Rightarrow> byte list" where
  "log_bytes rs \<equiv> concat (map stored_bytes rs)"

fun build :: "32 word \<Rightarrow> 32 word \<Rightarrow> stored list \<Rightarrow> IndexEntry list \<Rightarrow> IndexEntry list" where
  "build g off [] idx = idx"
| "build g off (r # rs) idx = build g (off + of_nat (length (stored_bytes r))) rs (apply_stored g off r idx)"

fun build_all :: "(32 word \<times> stored list) list \<Rightarrow> IndexEntry list \<Rightarrow> IndexEntry list" where
  "build_all [] idx = idx"
| "build_all ((g, rs) # l) idx = build_all l (build g 0 rs idx)"

fun seqs_of :: "stored list \<Rightarrow> 32 word list" where
  "seqs_of [] = []"
| "seqs_of (Message m # rs) = m_seq m # seqs_of rs"
| "seqs_of (Delivery q d # rs) = seqs_of rs"

lemma with_delivery_fields [simp]: "e_seq (with_delivery q d e) = e_seq e" "e_segment (with_delivery q d e) = e_segment e"
  by (simp_all add: with_delivery_def)

lemma settle_fields [simp]: "e_seq (settle g n e) = e_seq e"
  by (simp add: settle_def)

lemma settle_with_delivery: "settle g n (with_delivery q d e) = with_delivery q d (settle g n e)"
  by (simp add: settle_def with_delivery_def)

lemma settle_entry: "settle g n (entry_of PENDING off m) = entry_of g (off + n) m"
  by (simp add: settle_def entry_of_def)

lemma stored_bytes_nonempty [simp]: "stored_bytes r \<noteq> []"
  by (cases r) (simp_all add: record_bytes_def)

lemma log_bytes_empty: "log_bytes rs = [] \<longleftrightarrow> rs = []"
  by (cases rs) auto

lemma build_append: "build g off (rs @ rs') idx = build g (off + of_nat (length (log_bytes rs))) rs' (build g off rs idx)"
  by (induction rs arbitrary: off idx) (simp_all add: add.assoc)

lemma build_all_append: "build_all (l @ l') idx = build_all l' (build_all l idx)"
  by (induction l arbitrary: idx) auto

lemma build_settle:
  "map (settle g n) (build PENDING off rs idx) = build g (off + n) rs (map (settle g n) idx)"
proof (induction rs arbitrary: off idx)
  case (Cons r rs)
  have "map (settle g n) (apply_stored PENDING off r idx) = apply_stored g (off + n) r (map (settle g n) idx)"
    by (cases r) (simp_all add: settle_with_delivery settle_entry)
  with Cons.IH show ?case by (simp add: ac_simps)
qed simp

lemma build_filter:
  "g \<noteq> old \<Longrightarrow> filter (\<lambda>e. e_segment e \<noteq> old) (build g off rs idx) = build g off rs (filter (\<lambda>e. e_segment e \<noteq> old) idx)"
proof (induction rs arbitrary: off idx)
  case (Cons r rs)
  have "filter (\<lambda>e. e_segment e \<noteq> old) (apply_stored g off r idx) = apply_stored g off r (filter (\<lambda>e. e_segment e \<noteq> old) idx)"
    using Cons.prems by (cases r) (simp_all add: entry_of_def filter_map o_def)
  with Cons show ?case by simp
qed simp

lemma build_all_filter:
  "old \<notin> fst ` set l \<Longrightarrow> filter (\<lambda>e. e_segment e \<noteq> old) (build_all l idx) = build_all l (filter (\<lambda>e. e_segment e \<noteq> old) idx)"
  by (induction l idx rule: build_all.induct) (auto simp: build_filter)

lemma build_segments: "\<forall>e\<in>set (build g off rs idx). e_segment e = g \<or> e_segment e \<in> e_segment ` set idx"
proof (induction rs arbitrary: off idx)
  case (Cons r rs)
  have "e_segment ` set (apply_stored g off r idx) \<subseteq> insert g (e_segment ` set idx)" by (cases r) (auto simp: entry_of_def)
  with Cons.IH [of "off + of_nat (length (stored_bytes r))" "apply_stored g off r idx"] show ?case by fastforce
qed simp

lemma build_old: "filter (\<lambda>e. e_segment e \<noteq> old) (build old off rs []) = []"
  using build_segments [of old off rs "[]"] by (auto simp: filter_empty_conv)

lemma build_seqs: "map e_seq (build g off rs idx) = map e_seq idx @ seqs_of rs"
proof (induction rs arbitrary: off idx)
  case (Cons r rs)
  then show ?case by (cases r) (simp_all add: entry_of_def o_def)
qed simp

lemma build_all_seqs: "map e_seq (build_all l idx) = map e_seq idx @ concat (map (seqs_of \<circ> snd) l)"
  by (induction l idx rule: build_all.induct) (simp_all add: build_seqs)

section \<open>Scanning finds the records\<close>

definition next_after :: "32 word list \<Rightarrow> 32 word \<Rightarrow> 32 word" where
  "next_after qs n = fold (\<lambda>q n. max n (q + 1)) qs n"

lemma next_after_append: "next_after (qs @ qs') n = next_after qs' (next_after qs n)"
  by (simp add: next_after_def)

lemma next_after_bound: "n \<le> next_after qs n \<and> (\<forall>q\<in>set qs. q < - 1 \<longrightarrow> q < next_after qs n)"
proof (induction qs arbitrary: n)
  case (Cons q qs)
  have "q < - 1 \<Longrightarrow> q < max n (q + 1)" using word_less_Suc [of q] by (rule less_le_trans [OF _ max.cobounded2])
  with Cons.IH [of "max n (q + 1)"] show ?case by (auto simp: next_after_def max_def split: if_splits)
qed (simp add: next_after_def)

lemma scan_record:
  assumes "length bs \<le> MESSAGE_PAYLOAD_MAX_SIZE"
  shows "scan (record_bytes t bs @ rest) g off s = (case applyRecord t bs g off s of
      None \<Rightarrow> None | Some s \<Rightarrow> scan rest g (off + of_nat (length (record_bytes t bs))) s)"
proof -
  let ?r = "record_bytes t bs @ rest"
  have n: "record_length ?r = length bs" using assms by (intro record_length_bytes) (simp add: mesh_sizes)
  have l: "length ?r = 6 + length bs + length rest" by simp
  have "drop (length (record_bytes t bs)) ?r = rest" by (simp del: record_bytes_length)
  then have "drop (6 + length bs) ?r = rest" by (simp del: drop_append)
  moreover have d: "take (length bs) (drop 6 ?r) = bs" "?r ! 0 = RECORD_MAGIC_0" "?r ! 1 = RECORD_MAGIC_1" "?r ! 2 = t"
    by (simp_all add: record_bytes_def)
  moreover have "\<not> length ?r < 6" "\<not> length ?r < 6 + length bs" "\<not> 512 < length bs" using assms by (simp_all add: mesh_sizes)
  ultimately show ?thesis
    by (subst scan.simps) (simp only: n Let_def record_bytes_length if_False simp_thms mesh_sizes)
qed

lemma apply_message:
  assumes "message_wf m"
  shows "applyRecord RECORD_TYPE_MESSAGE (message_bytes m) g off s = Some (s\<lparr>index := index s @ [entry_of g off m], nextSeq := max (nextSeq s) (m_seq m + 1)\<rparr>)"
  using deserialize_message [of m] assms index_entry_of_message [OF assms, of g off]
  by (auto simp: applyRecord_def message_wf_def mesh_sizes entry_of_def)

lemma apply_delivery:
  assumes "ordered (map e_seq (index s))"
  shows "applyRecord RECORD_TYPE_DELIVERY (le32 q @ [d]) g off s = Some (s\<lparr>index := map (with_delivery q d) (index s)\<rparr>)"
proof -
  have r: "r_u32 (Reader_new (le32 q @ [d])) = (q, reading (le32 q) [d])" "r_u8 (reading (le32 q) [d]) = (d, reading (le32 q @ [d]) [])"
    using r_u32_reading [of "[]" q "[d]"] r_u8_reading [of "le32 q" d "[]"] by (simp_all add: Reader_new_reading)
  have "\<not> RECORD_TYPE_DELIVERY = RECORD_TYPE_MESSAGE" by (simp add: RECORD_TYPE_DELIVERY_def RECORD_TYPE_MESSAGE_def)
  then have a: "applyRecord RECORD_TYPE_DELIVERY (le32 q @ [d]) g off s = (case findEntry q (index s) of None \<Rightarrow> Some s
      | Some i \<Rightarrow> Some (s\<lparr>index := (index s)[i := (index s ! i)\<lparr>e_delivery := d\<rparr>]\<rparr>))"
    by (cases "findEntry q (index s)") (simp_all add: applyRecord_def r)
  show ?thesis
  proof (cases "findEntry q (index s)")
    case None
    then have "q \<notin> e_seq ` set (index s)" using findEntry_None [OF assms] by simp
    then have "map (with_delivery q d) (index s) = index s" by (intro map_idI) (auto simp: with_delivery_def)
    with None a show ?thesis by simp
  next
    case (Some i)
    then have "i < length (index s)" "e_seq (index s ! i) = q" using findEntry_Some [OF assms] by simp_all
    from update_found [OF assms this, of "\<lambda>e. e\<lparr>e_delivery := d\<rparr>"] Some a show ?thesis
      unfolding with_delivery_def by simp
  qed
qed


lemma scan_stored:
  assumes "stored_ok r" "ordered (map e_seq (index s))"
  shows "scan (stored_bytes r @ rest) g off s = scan rest g (off + of_nat (length (stored_bytes r)))
    (s\<lparr>index := apply_stored g off r (index s), nextSeq := next_after (seqs_of [r]) (nextSeq s)\<rparr>)"
proof (cases r)
  case (Message m)
  have "length (message_bytes m) \<le> MESSAGE_PAYLOAD_MAX_SIZE" using message_bytes_length(2) [of m] by (simp add: mesh_sizes)
  with assms Message show ?thesis by (simp add: scan_record apply_message next_after_def)
next
  case (Delivery q d)
  have "length (le32 q @ [d]) \<le> MESSAGE_PAYLOAD_MAX_SIZE" by (simp add: mesh_sizes)
  with assms Delivery show ?thesis by (simp add: scan_record apply_delivery next_after_def del: append_assoc)
qed

lemma scan_records:
  "list_all stored_ok rs \<Longrightarrow> ordered (map e_seq (build g off rs (index s))) \<Longrightarrow>
   scan (log_bytes rs @ rest) g off s = scan rest g (off + of_nat (length (log_bytes rs)))
     (s\<lparr>index := build g off rs (index s), nextSeq := next_after (seqs_of rs) (nextSeq s)\<rparr>)"
proof (induction rs arbitrary: off s)
  case (Cons r rs)
  let ?off = "off + of_nat (length (stored_bytes r))"
  let ?s = "s\<lparr>index := apply_stored g off r (index s), nextSeq := next_after (seqs_of [r]) (nextSeq s)\<rparr>"
  have ord: "ordered (map e_seq (build g ?off rs (index ?s)))" using Cons.prems(2) by simp
  have "ordered (map e_seq (index s))" using Cons.prems(2) unfolding build_seqs by (simp add: sorted_wrt_append)
  then have "scan (stored_bytes r @ log_bytes rs @ rest) g off s = scan (log_bytes rs @ rest) g ?off ?s"
    using scan_stored [of r s "log_bytes rs @ rest"] Cons.prems(1) by simp
  also have "\<dots> = scan rest g (?off + of_nat (length (log_bytes rs))) (?s\<lparr>index := build g ?off rs (index ?s), nextSeq := next_after (seqs_of rs) (nextSeq ?s)\<rparr>)"
    using Cons.IH [OF _ ord] Cons.prems(1) by simp
  also have "next_after (seqs_of rs) (nextSeq ?s) = next_after (seqs_of (r # rs)) (nextSeq s)"
    by (cases r) (simp_all add: next_after_def)
  finally show ?case by (simp add: add.assoc)
qed (simp add: next_after_def)

lemma scan_end: "length bs < RECORD_HEADER_SIZE \<Longrightarrow> scan bs g off s = Some (off, s)"
  by (simp add: scan.simps)

section \<open>The disk holds the records\<close>

text \<open>\<open>u\<close> is a change of the index of which the record is not appended yet.\<close>

definition mild :: "(IndexEntry \<Rightarrow> IndexEntry) \<Rightarrow> bool" where
  "mild u \<longleftrightarrow> (\<forall>e. e_segment (u e) = e_segment e) \<and> (\<forall>g n e. settle g n (u e) = u (settle g n e))"

definition logged :: "(IndexEntry \<Rightarrow> IndexEntry) \<Rightarrow> disk \<Rightarrow> MeshStore \<Rightarrow> (32 word \<times> stored list) list \<Rightarrow> stored list \<Rightarrow> bool" where
  "logged u fs s l pend \<longleftrightarrow> map fst l = segments s \<and>
     (\<forall>(g, rs)\<in>set l. file_or_empty fs (getSegmentPath (directory s) g) = log_bytes rs \<and> list_all stored_ok rs \<and> length (log_bytes rs) < 2 ^ 32) \<and>
     list_all stored_ok pend \<and> buffer s = Some (log_bytes pend) \<and> index s = map u (build PENDING 0 pend (build_all l [])) \<and>
     (\<forall>g. fs (getSegmentPath (directory s) g) \<noteq> None \<longrightarrow> g \<in> set (segments s)) \<and>
     unat (currentSegmentSize s) = length (file_or_empty fs (getSegmentPath (directory s) (last (segments s))))"

lemma mild_id: "mild (\<lambda>e. e)" and mild_with_delivery: "mild (with_delivery q d)"
  by (simp_all add: mild_def settle_with_delivery)

text \<open>Every write that starts is whole and every segment that has to go is removed; a file may still not open.\<close>

definition whole_writes :: "store_io \<Rightarrow> Limits \<Rightarrow> bool" where
  "whole_writes io l \<longleftrightarrow> (\<forall>p. remove_works io p \<and> (case appendable_bytes io p of None \<Rightarrow> True | Some n \<Rightarrow> bufferSize l \<le> n))"

lemma build_all_segments: "\<forall>e\<in>set (build_all l idx). e_segment e \<in> fst ` set l \<union> e_segment ` set idx"
proof (induction l idx rule: build_all.induct)
  case (2 g rs l idx)
  with build_segments [of g 0 rs idx] show ?case by fastforce
qed simp

lemma settle_not_pending: "\<forall>e\<in>set idx. e_segment e \<noteq> PENDING \<Longrightarrow> map (settle g n) idx = idx"
  by (intro map_idI) (simp add: settle_def)

lemma mild_map: "mild u \<Longrightarrow> map (settle g n) (map u idx) = map u (map (settle g n) idx)"
  by (simp add: mild_def)

lemma logged_flush_segment:
  assumes "logged u fs s l pend" "log_rel fs s ms"
  shows "\<exists>l'. logged u fs (flush_segment s) l' pend"
proof (cases "unat (currentSegmentSize s) \<ge> segmentSize (limits s)")
  case True
  let ?n = "last (segments s) + 1"
  show ?thesis
  proof (cases "last (segments s) < ?n")
    case less: True
    then have "fs (getSegmentPath (directory s) ?n) = None" using assms(2) by (simp add: log_rel_def store_ok_def)
    with True assms(1) have "logged u fs (flush_segment s) (l @ [(?n, [])]) pend"
      by (auto simp: logged_def flush_segment_def file_or_empty_def build_all_append)
    then show ?thesis ..
  next
    case False
    then have "last (segments s) = - 1" using word_less_Suc word_order.not_eq_extremum by blast
    then show ?thesis using assms(2) by (simp add: log_rel_def store_ok_def PENDING_def)
  qed
next
  case False
  with assms(1) show ?thesis by (auto simp: flush_segment_def)
qed

lemma logged_written:
  assumes lg: "logged u fs s l pend" "mild u" and ok: "store_ok fs s" and buf: "buffer s = Some buf"
    and small: "length (file_or_empty fs p) + length buf < 2 ^ 32"
    and p: "p = getSegmentPath (directory s) (last (segments s))"
    and s': "s' = s\<lparr>index := map (settle (last (segments s)) (currentSegmentSize s)) (index s),
      currentSegmentSize := currentSegmentSize s + of_nat (length buf), buffer := Some []\<rparr>"
  shows "\<exists>l'. logged u (fs(p \<mapsto> file_or_empty fs p @ buf)) s' l' []"
proof -
  let ?L = "last (segments s)" and ?fs = "fs(p \<mapsto> file_or_empty fs p @ buf)"
  from lg have l: "map fst l = segments s" "\<forall>(g, rs)\<in>set l. file_or_empty fs (getSegmentPath (directory s) g) = log_bytes rs \<and> list_all stored_ok rs \<and> length (log_bytes rs) < 2 ^ 32"
    "list_all stored_ok pend" "buf = log_bytes pend" "index s = map u (build PENDING 0 pend (build_all l []))"
    "\<forall>g. fs (getSegmentPath (directory s) g) \<noteq> None \<longrightarrow> g \<in> set (segments s)" "unat (currentSegmentSize s) = length (file_or_empty fs p)"
    using buf by (simp_all add: logged_def p)
  from ok have ne: "segments s \<noteq> []" "distinct (segments s)" "?L < PENDING" by (simp_all add: store_ok_def strict_sorted_iff)
  then have "l \<noteq> []" using l(1) by auto
  then obtain l0 a rs where "l = l0 @ [(a, rs)]" by (cases l rule: rev_cases) auto
  moreover from this have "a = ?L" by (simp add: l(1) [symmetric])
  ultimately have l0: "l = l0 @ [(?L, rs)]" by simp
  have rs: "file_or_empty fs p = log_bytes rs" "list_all stored_ok rs" using l(2) p l0 by auto
  have "currentSegmentSize s = of_nat (unat (currentSegmentSize s))" by simp
  then have cur: "currentSegmentSize s = of_nat (length (log_bytes rs))" using l(7) rs(1) by simp
  have sz: "unat (currentSegmentSize s + of_nat (length buf)) = length (log_bytes rs @ buf)"
    using small rs(1) unfolding cur of_nat_add [symmetric] by (simp add: unsigned_of_nat take_bit_nat_eq_self del: of_nat_add)
  let ?l = "l0 @ [(?L, rs @ pend)]"
  have "fst ` set l = set (segments s)" using l(1) by (metis set_map)
  moreover have "\<forall>g\<in>set (segments s). g \<le> ?L" using ok by (auto simp: store_ok_def intro: ordered_last)
  ultimately have "\<forall>e\<in>set (build_all l []). e_segment e \<le> ?L" using build_all_segments [of l "[]"] by simp
  then have "\<forall>e\<in>set (build_all l []). e_segment e \<noteq> PENDING" using ne(3) by fastforce
  then have "map (settle ?L (currentSegmentSize s)) (index s) = map u (build ?L (currentSegmentSize s) pend (build_all l []))"
    unfolding l(5) mild_map [OF lg(2)] build_settle by (simp add: settle_not_pending)
  also have "build ?L (currentSegmentSize s) pend (build_all l []) = build_all ?l []"
    unfolding l0 build_all_append by (simp add: build_append cur)
  finally have i: "index s' = map u (build PENDING 0 [] (build_all ?l []))" by (simp add: s')
  have "distinct (map fst l)" using ne(2) l(1) by simp
  then have "?L \<notin> fst ` set l0" unfolding l0 by simp
  then have "\<forall>(g, rs)\<in>set l0. g \<noteq> ?L" by force
  then have "\<forall>(g, rs)\<in>set ?l. file_or_empty ?fs (getSegmentPath (directory s') g) = log_bytes rs \<and> list_all stored_ok rs \<and> length (log_bytes rs) < 2 ^ 32"
    using l(2-4) l0 rs small by (fastforce simp: s' p file_or_empty_def)
  moreover have "map fst ?l = segments s'" using l(1) l0 by (simp add: s')
  moreover have "unat (currentSegmentSize s') = length (file_or_empty ?fs (getSegmentPath (directory s') (last (segments s'))))"
    using sz rs(1) by (simp add: s' p file_or_empty_def)
  ultimately have "logged u ?fs s' ?l []"
    using i l(6) ne(1) by (auto simp: logged_def p s')
  then show ?thesis ..
qed


lemma build_all_first: "filter (\<lambda>e. e_segment e \<noteq> g) (build_all ((g, rs) # l) []) = build_all l []" if "g \<notin> fst ` set l"
  using build_all_filter [OF that, of "build g 0 rs []"] by (simp add: build_old)

lemma mild_filter: "mild u \<Longrightarrow> filter (\<lambda>e. e_segment e \<noteq> g) (map u idx) = map u (filter (\<lambda>e. e_segment e \<noteq> g) idx)"
  by (simp add: mild_def filter_map o_def)

lemma enforceBudget_logged:
  "logged u fs (s\<lparr>segments := segs\<rparr>) l [] \<Longrightarrow> mild u \<Longrightarrow> distinct segs \<Longrightarrow> 1 \<le> segmentCount (limits s) \<Longrightarrow> \<forall>p. remove_works io p \<Longrightarrow>
   enforceBudget io segs s fs = (s', fs') \<Longrightarrow> \<exists>l'. logged u fs' s' l' []"
proof (induction io segs s fs arbitrary: l rule: enforceBudget.induct)
  case (1 io s fs)
  then show ?case by auto
next
  case (2 io oldest segs s fs)
  show ?case
  proof (cases "length (oldest # segs) > segmentCount (limits s)")
    case True
    let ?p = "getSegmentPath (directory s) oldest" and ?s = "s\<lparr>index := filter (\<lambda>e. e_segment e \<noteq> oldest) (index s)\<rparr>"
    have ne: "segs \<noteq> []" using True 2(5) by auto
    then have last: "last segs \<noteq> oldest" using 2(4) last_in_set [of segs] by auto
    obtain rs l1 where l: "l = (oldest, rs) # l1" "map fst l1 = segs"
      using 2(2) by (cases l) (auto simp: logged_def)
    then have old: "oldest \<notin> fst ` set l1" using 2(4) by (metis distinct.simps(2) set_map)
    have i: "index ?s = map u (build PENDING 0 [] (build_all l1 []))"
      using 2(2) build_all_first [OF old, of rs] l(1) by (simp add: logged_def mild_filter [OF 2(3)] del: build_all.simps)
    have "\<forall>(g, rs)\<in>set l1. g \<noteq> oldest" using old by force
    then have f: "\<forall>(g, rs)\<in>set l1. file_or_empty (fs(?p := None)) (getSegmentPath (directory s) g) = log_bytes rs \<and> list_all stored_ok rs \<and> length (log_bytes rs) < 2 ^ 32"
      using 2(2) l(1) by (fastforce simp: logged_def file_or_empty_def)
    have "logged u (fs(?p := None)) (?s\<lparr>segments := segs\<rparr>) l1 []"
      using 2(2) l(2) i f ne last by (auto simp: logged_def file_or_empty_def)
    moreover have "enforceBudget io segs ?s (fs(?p := None)) = (s', fs')" using 2(6,7) True by (simp add: Let_def)
    moreover have w: "remove_works io ?p = True" using 2(6) by simp
    moreover have "distinct segs" "1 \<le> segmentCount (limits ?s)" using 2(4,5) by simp_all
    ultimately show ?thesis using 2(1) [OF True refl, of l1, unfolded w if_True] 2(3,6) by blast
  next
    case False
    with 2(2,7) show ?thesis by auto
  qed
qed

lemma flush_logged:
  assumes lg: "logged u fs s l pend" "mild u" and r: "log_rel fs s ms" "room s" "whole_writes io (limits s)"
    and f: "flush io s fs = Some (e, s', fs')"
  shows "(\<exists>l' pend'. logged u fs' s' l' pend') \<and> (e = ERROR_NONE \<longrightarrow> buffer s' = Some [])"
proof -
  from lg obtain buf where buf: "buffer s = Some buf" by (auto simp: logged_def)
  show ?thesis
  proof (cases "buf = []")
    case True
    with f buf lg(1) show ?thesis by (auto simp: flush_def)
  next
    case False
    let ?s = "flush_segment s"
    let ?L = "last (segments ?s)"
    let ?p = "getSegmentPath (directory s) ?L"
    have same: "limits ?s = limits s" "directory ?s = directory s" "buffer ?s = Some buf" by (simp_all add: flush_segment_def buf)
    have ok: "store_ok fs s" "store_ok fs ?s" using r(1) flush_segment_rel [OF r(1,2)] by (simp_all add: log_rel_def)
    have ne: "segments s \<noteq> []" "length buf \<le> bufferSize (limits s)" using ok(1) buf by (auto simp: store_ok_def bufferUsed_def)
    obtain l1 where l1: "logged u fs ?s l1 pend" using logged_flush_segment [OF lg(1) r(1)] by blast
    show ?thesis
    proof (cases "appendable_bytes io ?p")
      case None
      with f buf False ne same l1 show ?thesis by (auto simp: flush_def Let_def)
    next
      case (Some n)
      have "bufferSize (limits s) \<le> n" using r(3) Some by (auto simp: whole_writes_def split: option.splits)
      then have n: "length buf \<le> n" using ne(2) by simp
      let ?s1 = "?s\<lparr>index := map (settle ?L (currentSegmentSize ?s)) (index ?s),
          currentSegmentSize := currentSegmentSize ?s + of_nat (length buf), buffer := Some []\<rparr>"
      let ?fs = "fs(?p \<mapsto> file_or_empty fs ?p @ buf)"
      have "flush io s fs = (case enforceBudget io (segments ?s1) ?s1 ?fs of (s, fs) \<Rightarrow> Some (ERROR_NONE, s, fs))"
        using Some n buf False ne same by (simp add: flush_def Let_def)
      then have e: "enforceBudget io (segments ?s1) ?s1 ?fs = (s', fs')" "e = ERROR_NONE" using f by (auto split: prod.splits)
      have "length (file_or_empty fs ?p) + length buf < 2 ^ 32"
        using flush_segment_rel [OF r(1,2)] ok(1) ne(2) by (simp add: store_ok_def limits_ok_def)
      moreover have p: "?p = getSegmentPath (directory ?s) ?L" by (simp add: same)
      ultimately obtain l2 where "logged u ?fs ?s1 l2 []" using logged_written [OF l1 lg(2) ok(2) same(3) _ p refl] by blast
      then have l2: "logged u ?fs (?s1\<lparr>segments := segments ?s1\<rparr>) l2 []" by simp
      have "distinct (segments ?s1)" "1 \<le> segmentCount (limits ?s1)" using ok(2) by (simp_all add: store_ok_def limits_ok_def strict_sorted_iff)
      moreover have "\<forall>p. remove_works io p" using r(3) by (simp add: whole_writes_def)
      ultimately obtain l' where "logged u fs' s' l' []" using enforceBudget_logged [OF l2 lg(2) _ _ _ e(1)] by blast
      then show ?thesis using e(2) by (auto simp: logged_def)
    qed
  qed
qed


lemma flush_room:
  assumes "logged u fs s l pend" "mild u" "log_rel fs s ms" "room s" "whole_writes io (limits s)" "n \<le> 320"
  shows "\<exists>e s' fs' l' pend'. (if bufferUsed s + n > bufferSize (limits s) then flush io s fs else Some (ERROR_NONE, s, fs)) = Some (e, s', fs') \<and>
    logged u fs' s' l' pend' \<and> (e = ERROR_NONE \<longrightarrow> bufferUsed s' + n \<le> bufferSize (limits s'))"
proof (cases "bufferUsed s + n > bufferSize (limits s)")
  case True
  obtain e s' fs' where f: "flush io s fs = Some (e, s', fs')" "flushed s s'" "e = ERROR_NONE \<longrightarrow> buffer s' = Some []"
    using flush_rel [OF assms(3,4), of io] by blast
  have "320 \<le> bufferSize (limits s)" using assms(3) by (simp add: log_rel_def store_ok_def limits_ok_def)
  then have "e = ERROR_NONE \<longrightarrow> bufferUsed s' + n \<le> bufferSize (limits s')" using f(2,3) assms(6) by (simp add: bufferUsed_def flushed_def)
  moreover obtain l' pend' where "logged u fs' s' l' pend'" using flush_logged [OF assms(1-5) f(1)] by blast
  ultimately show ?thesis using f(1) True by auto
next
  case False
  with assms(1) show ?thesis by (intro exI [of _ ERROR_NONE] exI [of _ s] exI [of _ fs] exI [of _ l] exI [of _ pend]) simp
qed

lemma log_bytes_append: "log_bytes (rs @ [r]) = log_bytes rs @ stored_bytes r"
  by simp

lemma logged_frame:
  "logged u fs (s\<lparr>nextSeq := q\<rparr>) l pend = logged u fs s l pend" "logged u fs (s\<lparr>firstPendingMs := t\<rparr>) l pend = logged u fs s l pend"
  by (simp_all add: logged_def)

lemma logged_append:
  assumes "logged u fs s l pend" "buffer s = Some b" "stored_ok r" "stored_bytes r = bs"
    and "idx = build PENDING 0 (pend @ [r]) (build_all l [])"
  shows "logged (\<lambda>e. e) fs (s\<lparr>index := idx, firstPendingMs := t, buffer := Some (b @ bs)\<rparr>) l (pend @ [r])"
  using assms by (simp add: logged_def)

lemma appendRecord_message_logged:
  assumes lg: "logged (\<lambda>e. e) fs s l pend" and r: "log_rel fs s ms" "room s" "whole_writes io (limits s)" and m: "message_wf m"
    and a: "appendRecord io RECORD_TYPE_MESSAGE (message_bytes m) s fs = Some (e, s', fs')"
  shows "\<exists>l' pend'. logged (\<lambda>e. e) fs' s' l' pend'"
proof -
  let ?n = "RECORD_HEADER_SIZE + length (message_bytes m)"
  have n: "?n \<le> 320" using message_bytes_length(2) [of m] by (simp add: mesh_sizes)
  obtain e1 s1 fs1 l1 pend1 where f: "(if bufferUsed s + ?n > bufferSize (limits s) then flush io s fs else Some (ERROR_NONE, s, fs)) = Some (e1, s1, fs1)"
    "logged (\<lambda>e. e) fs1 s1 l1 pend1" "e1 = ERROR_NONE \<longrightarrow> bufferUsed s1 + ?n \<le> bufferSize (limits s1)"
    using flush_room [OF lg mild_id r n] by blast
  have b: "buffer s \<noteq> None" using r(1) by (simp add: log_rel_def store_ok_def)
  show ?thesis
  proof (cases "e1 = ERROR_NONE")
    case False
    then show ?thesis using a f(2) unfolding appendRecord_after [OF b f(1,3)] by auto
  next
    case True
    have buf: "buffer s1 = Some (log_bytes pend1)" and i: "index s1 = build PENDING 0 pend1 (build_all l1 [])"
      using f(2) by (simp_all add: logged_def)
    obtain h where h: "hashPeer (m_peer (canonical m)) = Some h"
      "makeIndexEntry (snd (deserializeMessage (message_bytes m))) PENDING (of_nat (length (log_bytes pend1))) = Some
        \<lparr>e_seq = m_seq m, e_segment = PENDING, e_offset = of_nat (length (log_bytes pend1)), e_delivery = m_delivery m, e_channel = m_channel m, e_peerHash = h\<rparr>"
      using index_entry_of_message [OF m, of PENDING "of_nat (length (log_bytes pend1))"] by blast
    have "makeIndexEntry (snd (deserializeMessage (message_bytes m))) PENDING (of_nat (length (log_bytes pend1))) =
        Some (entry_of PENDING (of_nat (length (log_bytes pend1))) m)"
      unfolding h(2) by (simp add: entry_of_def h(1))
    then have s': "s' = s1\<lparr>index := index s1 @ [entry_of PENDING (of_nat (length (log_bytes pend1))) m],
        firstPendingMs := (if bufferUsed s1 = 0 then 0 else firstPendingMs s1), buffer := Some (log_bytes pend1 @ record_bytes RECORD_TYPE_MESSAGE (message_bytes m))\<rparr>" "fs' = fs1"
      using a True unfolding appendRecord_after [OF b f(1,3)] by (simp_all add: buf bufferUsed_def)
    show ?thesis unfolding s' by (intro exI, rule logged_append [OF f(2) buf, of "Message m"]) (simp_all add: m i build_append)
  qed
qed

lemma appendRecord_delivery_logged:
  assumes lg: "logged (with_delivery q d) fs s l pend" and r: "log_rel fs s ms" "room s" "whole_writes io (limits s)"
    and a: "appendRecord io RECORD_TYPE_DELIVERY (le32 q @ [d]) s fs = Some (ERROR_NONE, s', fs')"
  shows "\<exists>l' pend'. logged (\<lambda>e. e) fs' s' l' pend'"
proof -
  let ?n = "RECORD_HEADER_SIZE + length (le32 q @ [d])"
  have n: "?n \<le> 320" by (simp add: mesh_sizes)
  obtain e1 s1 fs1 l1 pend1 where f: "(if bufferUsed s + ?n > bufferSize (limits s) then flush io s fs else Some (ERROR_NONE, s, fs)) = Some (e1, s1, fs1)"
    "logged (with_delivery q d) fs1 s1 l1 pend1" "e1 = ERROR_NONE \<longrightarrow> bufferUsed s1 + ?n \<le> bufferSize (limits s1)"
    using flush_room [OF lg mild_with_delivery r n] by blast
  have b: "buffer s \<noteq> None" using r(1) by (simp add: log_rel_def store_ok_def)
  have e1: "e1 = ERROR_NONE" using a unfolding appendRecord_after [OF b f(1,3)] by (auto split: if_splits)
  have buf: "buffer s1 = Some (log_bytes pend1)" and i: "index s1 = build PENDING 0 (pend1 @ [Delivery q d]) (build_all l1 [])"
    using f(2) by (simp_all add: logged_def build_append)
  have s': "s' = s1\<lparr>index := index s1, firstPendingMs := (if bufferUsed s1 = 0 then 0 else firstPendingMs s1),
      buffer := Some (log_bytes pend1 @ record_bytes RECORD_TYPE_DELIVERY (le32 q @ [d]))\<rparr>" "fs' = fs1"
    using a e1 unfolding appendRecord_after [OF b f(1,3)] by (simp_all add: buf RECORD_TYPE_DELIVERY_def RECORD_TYPE_MESSAGE_def bufferUsed_def)
  show ?thesis unfolding s' by (intro exI, rule logged_append [OF f(2) buf, of "Delivery q d"]) (simp_all add: i)
qed

definition durable :: "disk \<Rightarrow> MeshStore \<Rightarrow> bool" where
  "durable fs s \<longleftrightarrow> (\<exists>l pend. logged (\<lambda>e. e) fs s l pend)"

lemma durable_flush:
  assumes "durable fs s" "log_rel fs s ms" "room s" "whole_writes io (limits s)" "flush io s fs = Some (e, s', fs')"
  shows "durable fs' s'"
  using assms flush_logged [OF _ mild_id] unfolding durable_def by blast

lemma durable_firstPending: "durable fs s \<Longrightarrow> durable fs (s\<lparr>firstPendingMs := t\<rparr>)"
  by (simp add: durable_def logged_frame)

lemma flushIfNeeded_durable:
  assumes "durable fs s" "log_rel fs s ms" "room s" "whole_writes io (limits s)" "flushIfNeeded io now age s fs = Some (s', fs')"
  shows "durable fs' s'"
proof -
  let ?s = "if firstPendingMs s = 0 then s\<lparr>firstPendingMs := now\<rparr> else s"
  have r: "durable fs ?s" "log_rel fs ?s ms" "room ?s" "limits ?s = limits s"
    using assms(1-3) by (auto intro: log_rel_firstPending durable_firstPending simp: room_def)
  consider "s' = s" "fs' = fs" | "s' = ?s" "fs' = fs" | e where "flush io ?s fs = Some (e, s', fs')"
    using assms(5) unfolding flushIfNeeded_def Let_def by (auto split: if_splits)
  then show ?thesis
  proof cases
    case 3
    with durable_flush [OF r(1-3)] assms(4) r(4) show ?thesis by simp
  qed (use assms(1) r(1) in simp_all)
qed

lemma flush_error: "flush io s fs = Some (e, s', fs') \<Longrightarrow> e \<in> {ERROR_NONE, ERROR_RESOURCE}"
  by (auto simp: flush_def Let_def split: option.splits if_splits prod.splits)

lemma appendRecord_error: "appendRecord io t bs s fs = Some (e, s', fs') \<Longrightarrow> buffer s \<noteq> None \<Longrightarrow> e \<in> {ERROR_NONE, ERROR_RESOURCE}"
  by (auto simp: appendRecord_def Let_def bind_eq_Some_conv dest: flush_error split: option.splits if_splits prod.splits)

lemma setDelivery_durable:
  assumes "durable fs s" "log_rel fs s ms" "room s" "whole_writes io (limits s)"
    and a: "MeshStore_setDelivery io q d s fs = Some (e, s', fs')" "e \<in> {ERROR_NONE, ERROR_NOT_FOUND}"
  shows "durable fs' s'"
proof (cases "findEntry q (index s)")
  case None
  with a assms(1) show ?thesis by (simp add: MeshStore_setDelivery_def)
next
  case (Some i)
  note ord = log_rel_ordered [OF assms(2)]
  from Some have i: "i < length (index s)" "e_seq (index s ! i) = q" using findEntry_Some [OF ord] by simp_all
  have up: "(index s)[i := (index s ! i)\<lparr>e_delivery := d\<rparr>] = map (with_delivery q d) (index s)"
    unfolding with_delivery_def by (rule update_found [OF ord i])
  let ?s = "s\<lparr>index := map (with_delivery q d) (index s)\<rparr>"
  have "with_delivery q d = (\<lambda>e. if e_seq e = q then e\<lparr>e_delivery := d\<rparr> else e)" by (simp add: with_delivery_def fun_eq_iff)
  then have r: "log_rel fs ?s (set_delivery q d ms)" using log_rel_set_delivery [OF assms(2), of q d] by simp
  obtain l pend where lg: "logged (with_delivery q d) fs ?s l pend" using assms(1) by (auto simp: durable_def logged_def)
  have ap: "appendRecord io RECORD_TYPE_DELIVERY (le32 q @ [d]) ?s fs = Some (e, s', fs')"
    using a(1) Some by (simp add: MeshStore_setDelivery_def up)
  then have "e = ERROR_NONE" using appendRecord_error [OF ap] assms(1) a(2) by (auto simp: durable_def logged_def)
  with appendRecord_delivery_logged [OF lg r] ap assms(3,4) show ?thesis by (simp add: durable_def room_def)
qed

lemma add_durable:
  assumes "durable fs s" "log_rel fs s ms" "room s" "whole_writes io (limits s)" "message_wf m" "nextSeq s < - 1"
    and a: "MeshStore_add io m s fs = Some (e, m', s', fs')"
  shows "durable fs' s'"
proof -
  let ?m = "m\<lparr>m_seq := nextSeq s\<rparr>" and ?s = "s\<lparr>nextSeq := nextSeq s + 1\<rparr>"
  have bs: "serializeMessage ?m MESSAGE_PAYLOAD_MAX_SIZE = message_bytes ?m"
    by (rule serialize_message) (simp add: mesh_sizes)
  have "message_bytes ?m \<noteq> []" using message_bytes_length(1) [of ?m] by auto
  then have ap: "appendRecord io RECORD_TYPE_MESSAGE (message_bytes ?m) ?s fs = Some (e, s', fs')"
    using a by (auto simp: MeshStore_add_def Let_def bs bind_eq_Some_conv)
  have "nextSeq s \<le> nextSeq s + 1" using word_less_Suc [OF assms(6)] by simp
  then have r: "log_rel fs ?s ms" by (rule log_rel_nextSeq [OF assms(2)])
  obtain l pend where "logged (\<lambda>e. e) fs ?s l pend" using assms(1) by (auto simp: durable_def logged_frame)
  from appendRecord_message_logged [OF this r _ _ _ ap] assms(3-5) show ?thesis by (simp add: durable_def room_def)
qed

lemma store_step_durable:
  assumes "durable fs s" "log_rel fs s ms" "room s" "whole_writes io (limits s)" "op_ok c s"
    and "store_step io c s fs = Some (e, s', fs')" "\<forall>q d. c = SetDelivery q d \<longrightarrow> e \<in> {ERROR_NONE, ERROR_NOT_FOUND}"
  shows "durable fs' s'"
proof (cases c)
  case (Add m)
  with add_durable [OF assms(1-4), of m e] assms(5,6) show ?thesis by auto
next
  case (SetDelivery q d)
  with setDelivery_durable [OF assms(1-4), of q d e] assms(6,7) show ?thesis by auto
next
  case Flush
  with durable_flush [OF assms(1-4)] assms(6) show ?thesis by simp
next
  case (FlushIfNeeded now age)
  with flushIfNeeded_durable [OF assms(1-4)] assms(6) show ?thesis by auto
qed

section \<open>Opening the log again\<close>

definition lists_segments :: "store_io \<Rightarrow> string \<Rightarrow> disk \<Rightarrow> bool" where
  "lists_segments io path fs \<longleftrightarrow> (\<exists>ns. listing io = Some ns \<and> distinct ns \<and> (\<forall>x\<in>set ns. is_segment_name x \<longrightarrow> x \<in> range segment_name) \<and>
     (\<forall>n. segment_name n \<in> set ns \<longleftrightarrow> fs (getSegmentPath path n) \<noteq> None))"

definition opens :: "store_io \<Rightarrow> string \<Rightarrow> disk \<Rightarrow> bool" where
  "opens io path fs \<longleftrightarrow> made io \<in> {ERROR_NONE, ERROR_ALREADY_EXISTS} \<and> memory io \<and> 32 \<le> long_bits io \<and> (\<forall>p. stat_works io p) \<and>
     reads_all io fs \<and> lists_segments io path fs"

lemma scan_segments_records:
  assumes "\<forall>p. file_bytes io fs p = fs p"
  shows "\<forall>(g, rs)\<in>set l. fs (getSegmentPath (directory s) g) = Some (log_bytes rs) \<and> list_all stored_ok rs \<Longrightarrow>
   ordered (map e_seq (build_all l (index s))) \<Longrightarrow>
   scan_segments io fs (map fst l) lv s = Some (if l = [] then lv else of_nat (length (log_bytes (snd (last l)))),
     s\<lparr>index := build_all l (index s), nextSeq := next_after (concat (map (seqs_of \<circ> snd) l)) (nextSeq s)\<rparr>)"
proof (induction l arbitrary: lv s)
  case (Cons a l)
  obtain g rs where a: "a = (g, rs)" by fastforce
  let ?s = "s\<lparr>index := build g 0 rs (index s), nextSeq := next_after (seqs_of rs) (nextSeq s)\<rparr>"
  have ord: "ordered (map e_seq (build_all l (index ?s)))" using Cons.prems(2) a by simp
  then have "ordered (map e_seq (build g 0 rs (index s)))" unfolding build_all_seqs by (simp add: sorted_wrt_append)
  then have "scan (log_bytes rs @ []) g 0 s = Some (0 + of_nat (length (log_bytes rs)), ?s)"
    using Cons.prems(1) a by (subst scan_records) (simp_all add: scan_end mesh_sizes)
  then have "scanSegment io fs g s = Some (of_nat (length (log_bytes rs)), ?s)"
    using Cons.prems(1) a assms by (simp add: scanSegment_def)
  moreover have "\<forall>(g, rs)\<in>set l. fs (getSegmentPath (directory ?s) g) = Some (log_bytes rs) \<and> list_all stored_ok rs" using Cons.prems(1) by auto
  ultimately show ?case using Cons.IH [OF _ ord] a by (simp add: next_after_append)
qed (simp add: next_after_def)

lemma listed_segments:
  assumes "32 \<le> lb" "distinct ns" "\<forall>x\<in>set ns. is_segment_name x \<longrightarrow> x \<in> range segment_name"
    and "\<forall>n. segment_name n \<in> set ns \<longleftrightarrow> fs (getSegmentPath path n) \<noteq> None"
    and "ordered segs" "\<forall>g. fs (getSegmentPath path g) \<noteq> None \<longrightarrow> g \<in> set segs"
  shows "sort (map (segment_of_name lb) (filter is_segment_name ns)) = filter (\<lambda>g. fs (getSegmentPath path g) \<noteq> None) segs"
proof (rule sorted_distinct_set_unique)
  have inj: "inj_on (segment_of_name lb) (set (filter is_segment_name ns))"
    using assms(1,3) segment_of_segment_name by (intro inj_onI) (auto, metis rangeE)
  then show "distinct (sort (map (segment_of_name lb) (filter is_segment_name ns)))" using assms(2) by (simp add: distinct_map)
  show "set (sort (map (segment_of_name lb) (filter is_segment_name ns))) = set (filter (\<lambda>g. fs (getSegmentPath path g) \<noteq> None) segs)"
  proof (intro set_eqI iffI)
    fix g assume "g \<in> set (sort (map (segment_of_name lb) (filter is_segment_name ns)))"
    then obtain x where x: "x \<in> set ns" "is_segment_name x" "g = segment_of_name lb x" by auto
    then obtain n where "x = segment_name n" using assms(3) by auto
    with x assms(1,4,6) show "g \<in> set (filter (\<lambda>g. fs (getSegmentPath path g) \<noteq> None) segs)" by (auto simp: segment_of_segment_name)
  next
    fix g assume "g \<in> set (filter (\<lambda>g. fs (getSegmentPath path g) \<noteq> None) segs)"
    then have "segment_name g \<in> set ns" using assms(4) by simp
    then show "g \<in> set (sort (map (segment_of_name lb) (filter is_segment_name ns)))"
      using segment_of_segment_name [OF assms(1), of g] is_segment_segment_name [of g] by (auto intro!: rev_image_eqI)
  qed
  show "distinct (filter (\<lambda>g. fs (getSegmentPath path g) \<noteq> None) segs)" "sorted (filter (\<lambda>g. fs (getSegmentPath path g) \<noteq> None) segs)"
    using assms(5) by (auto simp: strict_sorted_iff sorted_wrt_filter)
qed simp


lemma build_all_existing: "\<forall>(g, rs)\<in>set l. \<not> P g \<longrightarrow> rs = [] \<Longrightarrow> build_all (filter (\<lambda>x. P (fst x)) l) idx = build_all l idx"
  by (induction l idx rule: build_all.induct) auto

lemma same_delivery: "\<exists>d. (e :: IndexEntry) = e\<lparr>e_delivery := d\<rparr>"
  by (rule exI [of _ "e_delivery e"]) simp

lemma some_delivery: "\<exists>d'. with_delivery q d e = e\<lparr>e_delivery := d'\<rparr>"
  using same_delivery [of e] by (auto simp: with_delivery_def)

lemma build_prefix: "\<forall>i<length idx. i < length (build g off rs idx) \<and> (\<exists>d. build g off rs idx ! i = (idx ! i)\<lparr>e_delivery := d\<rparr>)"
proof (induction rs arbitrary: off idx)
  case Nil
  show ?case by (simp add: same_delivery)
next
  case (Cons r rs)
  have "\<forall>i<length idx. i < length (apply_stored g off r idx) \<and> (\<exists>d. apply_stored g off r idx ! i = (idx ! i)\<lparr>e_delivery := d\<rparr>)"
  proof (cases r)
    case (Message m)
    then show ?thesis by (simp add: nth_append same_delivery)
  next
    case (Delivery q d)
    then show ?thesis by (simp add: some_delivery)
  qed
  with Cons.IH [of "apply_stored g off r idx" "off + of_nat (length (stored_bytes r))"] show ?case by fastforce
qed

lemma build_length: "length idx \<le> length (build g off rs idx)"
  using build_prefix [of idx g off rs] by (metis leI less_irrefl)

lemma open_closed:
  assumes "buffer t = None" "made io \<in> {ERROR_NONE, ERROR_ALREADY_EXISTS}" "memory io" "listing io = Some ns"
    and "sort (map (segment_of_name (long_bits io)) (filter is_segment_name ns)) = segs"
    and "t' = t\<lparr>directory := path, buffer := Some [], index := [], segments := segs, currentSegmentSize := 0, nextSeq := 1\<rparr>"
    and "scan_segments io fs segs 0 t' = Some (lv, s1)"
  shows "MeshStore_open io path t fs = (if segs = [] then Some (ERROR_NONE, s1\<lparr>segments := [0], currentSegmentSize := 0\<rparr>, fs)
           else
             let p = getSegmentPath path (last segs);
                 size = (case fs p of Some d \<Rightarrow> if stat_works io p then of_nat (length d) else 0 | None \<Rightarrow> 0) in
             Some (ERROR_NONE, (if size \<noteq> lv then s1\<lparr>segments := segs @ [last segs + 1], currentSegmentSize := 0\<rparr>
                else s1\<lparr>currentSegmentSize := size\<rparr>), fs))"
proof -
  let ?t = "t\<lparr>index := [], segments := [], currentSegmentSize := 0, nextSeq := 1\<rparr>"
  have c: "MeshStore_close io t fs = Some (?t, fs)" using assms(1) by (simp add: MeshStore_close_def)
  have t': "?t\<lparr>directory := path, buffer := Some [], segments := segs\<rparr> = t'" unfolding assms(6) by simp
  have "\<not> (made io \<noteq> ERROR_NONE \<and> made io \<noteq> ERROR_ALREADY_EXISTS)" using assms(2) by blast
  then show ?thesis unfolding MeshStore_open_def Let_def bind_eq [OF c] prod.case
    by (simp only: if_False assms(3,4,5) option.case t' simp_thms bind_eq [OF assms(7)] prod.case)
qed

lemma reopened_index:
  assumes lg: "logged (\<lambda>e. e) fs s l pend" and r: "log_rel fs s ms" and t: "buffer t = None" "limits t = limits s"
    and io: "opens io (directory s) fs"
  shows "\<exists>s'. MeshStore_open io (directory s) t fs = Some (ERROR_NONE, s', fs) \<and> index s' = build_all l [] \<and> nextSeq s' = next_after (map e_seq (build_all l [])) 1 \<and>
    buffer s' = Some [] \<and> directory s' = directory s \<and> limits s' = limits s \<and>
    segments s' = (let segs = filter (\<lambda>g. fs (getSegmentPath (directory s) g) \<noteq> None) (segments s) in if segs = [] then [0] else segs) \<and>
    unat (currentSegmentSize s') = length (file_or_empty fs (getSegmentPath (directory s) (last (segments s'))))"
proof -
  let ?E = "\<lambda>g. fs (getSegmentPath (directory s) g) \<noteq> None"
  let ?l = "filter (\<lambda>x. ?E (fst x)) l" and ?segs = "filter ?E (segments s)"
  from lg have l: "map fst l = segments s" "index s = build PENDING 0 pend (build_all l [])" "\<forall>g. ?E g \<longrightarrow> g \<in> set (segments s)"
    "\<forall>(g, rs)\<in>set l. file_or_empty fs (getSegmentPath (directory s) g) = log_bytes rs \<and> list_all stored_ok rs \<and> length (log_bytes rs) < 2 ^ 32"
    by (simp_all add: logged_def)
  have segs: "map fst ?l = ?segs" unfolding l(1) [symmetric] by (simp add: filter_map o_def)
  have lE: "\<forall>(g, rs)\<in>set ?l. fs (getSegmentPath (directory s) g) = Some (log_bytes rs) \<and> list_all stored_ok rs \<and> length (log_bytes rs) < 2 ^ 32"
    using l(4) by (fastforce simp: file_or_empty_def)
  have "\<forall>(g, rs)\<in>set l. \<not> ?E g \<longrightarrow> rs = []" using l(4) log_bytes_empty by (fastforce simp: file_or_empty_def)
  then have same: "build_all ?l [] = build_all l []" by (rule build_all_existing)
  have "ordered (map e_seq (index s))" by (rule log_rel_ordered [OF r])
  then have ord: "ordered (map e_seq (build_all l []))" unfolding l(2) build_seqs by (simp add: sorted_wrt_append)
  have bytes: "\<forall>p. file_bytes io fs p = fs p" using io reads_all_bytes by (simp add: opens_def)
  obtain ns where ns: "listing io = Some ns" "distinct ns" "\<forall>x\<in>set ns. is_segment_name x \<longrightarrow> x \<in> range segment_name"
    "\<forall>n. segment_name n \<in> set ns \<longleftrightarrow> ?E n" using io by (auto simp: opens_def lists_segments_def)
  have sorted: "sort (map (segment_of_name (long_bits io)) (filter is_segment_name ns)) = ?segs"
    using io l(3) r by (intro listed_segments ns) (simp_all add: opens_def log_rel_def store_ok_def)
  let ?t = "t\<lparr>directory := directory s, buffer := Some [], index := [], segments := ?segs, currentSegmentSize := 0, nextSeq := 1\<rparr>"
  let ?s = "?t\<lparr>index := build_all l [], nextSeq := next_after (map e_seq (build_all l [])) 1\<rparr>"
  have qs: "concat (map (seqs_of \<circ> snd) ?l) = map e_seq (build_all l [])" using build_all_seqs [of ?l "[]"] same by simp
  have sc: "scan_segments io fs ?segs 0 ?t = Some (if ?l = [] then 0 else of_nat (length (log_bytes (snd (last ?l)))), ?s)"
    using scan_segments_records [OF bytes, of ?l ?t 0] lE ord qs same segs by (fastforce simp: case_prod_unfold)
  have made: "made io \<in> {ERROR_NONE, ERROR_ALREADY_EXISTS}" "memory io" and stat: "\<And>p. stat_works io p" using io by (simp_all add: opens_def)
  note opened = open_closed [OF t(1) made ns(1) sorted refl sc]
  show ?thesis
  proof (cases "?segs = []")
    case True
    have "fs (getSegmentPath (directory s) 0) = None"
    proof (rule ccontr)
      assume "fs (getSegmentPath (directory s) 0) \<noteq> None"
      then have "0 \<in> set ?segs" using l(3) by simp
      with True show False by simp
    qed
    then have "unat (currentSegmentSize (?s\<lparr>segments := [0], currentSegmentSize := 0\<rparr>)) =
        length (file_or_empty fs (getSegmentPath (directory s) (last (segments (?s\<lparr>segments := [0], currentSegmentSize := 0\<rparr>)))))"
      by (simp add: file_or_empty_def)
    then show ?thesis using opened True t(2) by (intro exI [of _ "?s\<lparr>segments := [0], currentSegmentSize := 0\<rparr>"]) (simp add: Let_def)
  next
    case False
    then have ne: "?l \<noteq> []" using segs by auto
    obtain g rs where last: "last ?l = (g, rs)" by fastforce
    have g: "last ?segs = g" using last_map [OF ne, of fst] segs last by simp
    have "(g, rs) \<in> set ?l" using last_in_set [OF ne] last by simp
    then have f: "fs (getSegmentPath (directory s) g) = Some (log_bytes rs)" "length (log_bytes rs) < 2 ^ 32" using lE by auto
    let ?s' = "?s\<lparr>currentSegmentSize := of_nat (length (log_bytes rs))\<rparr>"
    have "MeshStore_open io (directory s) t fs = Some (ERROR_NONE, ?s', fs)"
      unfolding opened Let_def g by (simp only: False if_False f(1) stat if_True option.case ne last snd_conv simp_thms)
    moreover have "unat (of_nat (length (log_bytes rs)) :: 32 word) = length (log_bytes rs)" using f(2) by (simp add: unsigned_of_nat take_bit_nat_eq_self)
    ultimately show ?thesis using False t(2) g f(1) by (intro exI [of _ ?s']) (simp add: Let_def file_or_empty_def)
  qed
qed


text \<open>The messages of which the records are flushed: a prefix of the log, with the delivery states that are flushed.\<close>

definition flushed_prefix :: "MeshMessage list \<Rightarrow> MeshMessage list \<Rightarrow> bool" where
  "flushed_prefix ms' ms \<longleftrightarrow> length ms' \<le> length ms \<and> (\<forall>i<length ms'. \<exists>d. ms' ! i = (ms ! i)\<lparr>m_delivery := d\<rparr>)"

lemma flushed_prefix_seqs: "flushed_prefix ms' ms \<Longrightarrow> map m_seq ms' = take (length ms') (map m_seq ms)"
proof (rule nth_equalityI)
  fix i assume h: "flushed_prefix ms' ms" "i < length (map m_seq ms')"
  then obtain d where "ms' ! i = (ms ! i)\<lparr>m_delivery := d\<rparr>" "i < length ms" by (auto simp: flushed_prefix_def)
  with h show "map m_seq ms' ! i = take (length ms') (map m_seq ms) ! i" by simp
qed (simp add: flushed_prefix_def)

lemma message_delivery: "(m :: MeshMessage)\<lparr>m_delivery := m_delivery m\<rparr> = m"
  by simp

lemma reopened_messages:
  assumes lg: "logged (\<lambda>e. e) fs s l pend" and r: "log_rel fs s ms"
  shows "\<exists>ms'. list_all2 (entry_holds fs s) (build_all l []) ms' \<and> flushed_prefix ms' ms \<and> (pend = [] \<longrightarrow> ms' = ms)"
proof -
  let ?idx = "build_all l []"
  let ?ms = "map2 (\<lambda>e m. m\<lparr>m_delivery := e_delivery e\<rparr>) ?idx ms"
  have i: "index s = build PENDING 0 pend ?idx" and all: "list_all2 (entry_holds fs s) (index s) ms"
    using lg r by (simp_all add: logged_def log_rel_def)
  have len: "length ?idx \<le> length ms"
    using build_length [of ?idx PENDING 0 pend] list_all2_lengthD [OF all] unfolding i by simp
  then have n: "length ?ms = length ?idx" by simp
  have "entry_holds fs s (?idx ! j) (?ms ! j) \<and> (\<exists>d. ?ms ! j = (ms ! j)\<lparr>m_delivery := d\<rparr>)" if j: "j < length ?idx" for j
  proof -
    obtain d where d: "j < length (index s)" "index s ! j = (?idx ! j)\<lparr>e_delivery := d\<rparr>" using build_prefix [of ?idx PENDING 0 pend] j i by auto
    have "?ms ! j = (ms ! j)\<lparr>m_delivery := e_delivery (?idx ! j)\<rparr>" using j len by simp
    moreover have "entry_holds fs s ((?idx ! j)\<lparr>e_delivery := d\<rparr>) (ms ! j)" using list_all2_nthD [OF all d(1)] d(2) by simp
    then have "entry_holds fs s (?idx ! j) ((ms ! j)\<lparr>m_delivery := e_delivery (?idx ! j)\<rparr>)" by (auto simp: entry_holds_def)
    ultimately show ?thesis by auto
  qed
  then have "list_all2 (entry_holds fs s) ?idx ?ms" "flushed_prefix ?ms ms" unfolding list_all2_conv_all_nth flushed_prefix_def using n len by auto
  moreover have "?ms = ms" if "pend = []"
  proof (rule nth_equalityI)
    have idx: "index s = ?idx" using i that by simp
    show "length ?ms = length ms" using all idx list_all2_lengthD by fastforce
    fix j assume j: "j < length ?ms"
    then have "entry_holds fs s (?idx ! j) (ms ! j)" using all idx by (auto simp: list_all2_conv_all_nth)
    then show "?ms ! j = ms ! j" using j entry_holds_fields by fastforce
  qed
  ultimately show ?thesis by blast
qed

lemma sorted_prefix: "length xs \<le> length ys \<Longrightarrow> \<forall>i<length xs. f (xs ! i) = f (ys ! i) \<Longrightarrow> map f xs = take (length xs) (map f ys)"
  by (intro nth_equalityI) auto

lemma member_nonempty: "x \<in> set xs \<Longrightarrow> xs \<noteq> []"
  by auto

lemma reopened:
  assumes lg: "logged (\<lambda>e. e) fs s l pend" and r: "log_rel fs s ms" and t: "buffer t = None" "limits t = limits s"
    and io: "opens io (directory s) fs"
  shows "\<exists>s' ms'. MeshStore_open io (directory s) t fs = Some (ERROR_NONE, s', fs) \<and> log_rel fs s' ms' \<and> flushed_prefix ms' ms \<and>
    (pend = [] \<longrightarrow> ms' = ms) \<and> durable fs s' \<and> directory s' = directory s \<and> limits s' = limits s"
proof -
  let ?E = "\<lambda>g. fs (getSegmentPath (directory s) g) \<noteq> None" and ?idx = "build_all l []"
  let ?segs = "filter ?E (segments s)"
  obtain s' where s': "MeshStore_open io (directory s) t fs = Some (ERROR_NONE, s', fs)" "index s' = ?idx" "nextSeq s' = next_after (map e_seq ?idx) 1"
    "buffer s' = Some []" "directory s' = directory s" "limits s' = limits s" "segments s' = (if ?segs = [] then [0] else ?segs)"
    "unat (currentSegmentSize s') = length (file_or_empty fs (getSegmentPath (directory s) (last (segments s'))))"
    using reopened_index [OF lg r t io] unfolding Let_def by blast
  obtain ms' where ms': "list_all2 (entry_holds fs s) ?idx ms'" "flushed_prefix ms' ms" "pend = [] \<longrightarrow> ms' = ms"
    using reopened_messages [OF lg r] by blast
  from lg have l: "map fst l = segments s" "index s = build PENDING 0 pend ?idx" "\<forall>g. ?E g \<longrightarrow> g \<in> set (segments s)" by (simp_all add: logged_def)
  from r have ok: "store_ok fs s" and srt: "sorted (map e_segment (index s))" by (simp_all add: log_rel_def)
  from ok have segs: "segments s \<noteq> []" "ordered (segments s)" "last (segments s) < PENDING" "\<forall>g\<in>set (segments s). g \<le> last (segments s)"
    by (auto simp: store_ok_def intro: ordered_last)
  then have below: "\<forall>g\<in>set (segments s). g \<noteq> PENDING" by fastforce
  have "fst ` set l = set (segments s)" using l(1) by (metis set_map)
  then have in_segs: "\<forall>e\<in>set ?idx. e_segment e \<in> set (segments s)" using build_all_segments [of l "[]"] by simp
  have holds: "?E (e_segment e) \<and> entry_holds fs s' e m" if "entry_holds fs s e m" "e \<in> set ?idx" for e m
  proof -
    have "e_segment e \<noteq> PENDING" using that(2) in_segs below by blast
    then have "place fs s' (e_segment e) = place fs s (e_segment e)" "place fs s (e_segment e) = fs (getSegmentPath (directory s) (e_segment e))"
      by (simp_all add: place_def s'(5))
    with that(1) show ?thesis by (auto simp: entry_holds_def)
  qed
  have n: "length ?idx = length ms'" and nth: "i < length ms' \<Longrightarrow> entry_holds fs s (?idx ! i) (ms' ! i)" for i
    using ms'(1) by (simp_all add: list_all2_conv_all_nth)
  have each: "?E (e_segment (?idx ! i)) \<and> entry_holds fs s' (?idx ! i) (ms' ! i)" if "i < length ms'" for i
    using that n by (intro holds nth) simp_all
  then have all: "list_all2 (entry_holds fs s') (index s') ms'" by (simp add: list_all2_conv_all_nth n s'(2))
  have files: "\<forall>e\<in>set ?idx. ?E (e_segment e)" using each n by (metis in_set_conv_nth)
  have seqs: "map e_seq ?idx = map m_seq ms'" using ms'(1)
    by (auto simp: list_all2_conv_all_nth entry_holds_seq intro!: nth_equalityI)
  have ms_seqs: "map m_seq ms' = take (length ms') (map m_seq ms)" by (rule flushed_prefix_seqs [OF ms'(2)])
  then have ord: "ordered (map m_seq ms')" using r by (simp add: log_rel_def sorted_wrt_take)
  have "\<forall>q\<in>set (map m_seq ms). q < nextSeq s" using r by (simp add: log_rel_def)
  then have "\<forall>q\<in>set (map m_seq ms'). q < nextSeq s" unfolding ms_seqs by (meson in_set_takeD)
  then have "\<forall>q\<in>set (map m_seq ms'). q < - 1" using word_order.extremum [of "nextSeq s"] by (meson order_less_le_trans)
  then have nq: "\<forall>m\<in>set ms'. m_seq m < nextSeq s'" using next_after_bound [of 1 "map m_seq ms'"] by (simp add: s'(3) seqs)
  have "map e_segment ?idx = take (length ?idx) (map e_segment (index s))"
    unfolding l(2) using build_prefix [of ?idx PENDING 0 pend] by (intro sorted_prefix build_length) fastforce
  then have "sorted (map e_segment ?idx)" using srt by (simp add: sorted_wrt_take)
  moreover have "set (map e_segment (index s')) \<subseteq> insert PENDING (set (segments s'))" using files in_segs by (auto simp: s'(2,7) filter_empty_conv)
  moreover have "store_ok fs s'"
  proof -
    have "last (segments s') < PENDING" and ordered: "ordered (segments s')"
      using segs(2) below s'(7) last_in_set [of ?segs] PENDING_max by (auto simp: sorted_wrt_filter order.strict_iff_order PENDING_def)
    moreover have "fs (getSegmentPath (directory s) n) = None" if "last (segments s') < n" for n
    proof (rule ccontr)
      assume "fs (getSegmentPath (directory s) n) \<noteq> None"
      then have n: "n \<in> set ?segs" using l(3) by simp
      then have "?segs \<noteq> []" by (rule member_nonempty)
      with n have "n \<in> set (segments s')" unfolding s'(7) by (simp only: if_False)
      then show False using ordered_last [OF ordered] that by fastforce
    qed
    moreover have "segments s' \<noteq> []" unfolding s'(7) by (simp only: split: if_split) simp
    moreover have "limits_ok (limits s')" "bufferUsed s' \<le> bufferSize (limits s')" using ok s'(4,6) by (simp_all add: store_ok_def bufferUsed_def)
    ultimately show ?thesis using ordered s'(4,5,8) unfolding store_ok_def by simp
  qed
  ultimately have "log_rel fs s' ms'" using all ord nq by (simp add: log_rel_def s'(2))
  moreover have "durable fs s'"
  proof -
    let ?l = "filter (\<lambda>x. ?E (fst x)) l"
    let ?l' = "if ?segs = [] then [(0, [])] else ?l"
    have "?segs = map fst ?l" unfolding l(1) [symmetric] by (simp add: filter_map o_def)
    then have sl: "map fst ?l' = segments s'" and empty: "?segs = [] \<longleftrightarrow> ?l = []" unfolding s'(7) by simp_all
    have "\<forall>(g, rs)\<in>set l. \<not> ?E g \<longrightarrow> rs = []" using lg log_bytes_empty by (fastforce simp: logged_def file_or_empty_def)
    then have "build_all ?l [] = build_all l []" by (rule build_all_existing)
    then have i: "build_all ?l' [] = index s'" using empty s'(2) by (cases "?l = []") simp_all
    have none: "file_or_empty fs (getSegmentPath (directory s) 0) = []" if "?segs = []"
      using that l(3) by (auto simp: filter_empty_conv file_or_empty_def split: option.split)
    have files: "\<forall>(g, rs)\<in>set ?l'. file_or_empty fs (getSegmentPath (directory s') g) = log_bytes rs \<and> list_all stored_ok rs \<and> length (log_bytes rs) < 2 ^ 32"
      using lg none by (cases "?segs = []") (auto simp: s'(5) logged_def)
    have "\<forall>g. ?E g \<longrightarrow> g \<in> set (segments s')"
    proof (intro allI impI)
      fix g assume "?E g"
      then have n: "g \<in> set ?segs" using l(3) by simp
      then have "?segs \<noteq> []" by (rule member_nonempty)
      with n show "g \<in> set (segments s')" unfolding s'(7) by (simp only: if_False)
    qed
    then have "logged (\<lambda>e. e) fs s' ?l' []" using sl i files s'(4,5,8) unfolding logged_def by simp
    then show ?thesis unfolding durable_def by blast
  qed
  ultimately show ?thesis using s'(1,5,6) ms'(2,3) by blast
qed


section \<open>The log over restarts\<close>

text \<open>
  The states of a log in the directory \<open>path\<close>: it is opened where there is none, operated on with whole writes, and opened again from what the
  disk holds, whether it was closed before or the power was lost (\<open>t\<close> has no buffer).
\<close>

inductive log_states :: "string \<Rightarrow> Limits \<Rightarrow> MeshStore \<Rightarrow> disk \<Rightarrow> bool" for path l where
  log_first: "opens io path fs \<Longrightarrow> \<forall>n. fs (getSegmentPath path n) = None \<Longrightarrow> buffer t = None \<Longrightarrow> limits t = l \<Longrightarrow>
    MeshStore_open io path t fs = Some (e, s, fs') \<Longrightarrow> log_states path l s fs'"
| log_operation: "log_states path l s fs \<Longrightarrow> room s \<Longrightarrow> op_ok c s \<Longrightarrow> whole_writes io l \<Longrightarrow> store_step io c s fs = Some (e, s', fs') \<Longrightarrow>
    \<forall>q d. c = SetDelivery q d \<longrightarrow> e \<in> {ERROR_NONE, ERROR_NOT_FOUND} \<Longrightarrow> log_states path l s' fs'"
| log_restart: "log_states path l s fs \<Longrightarrow> opens io path fs \<Longrightarrow> buffer t = None \<Longrightarrow> limits t = l \<Longrightarrow>
    MeshStore_open io path t fs = Some (e, s', fs') \<Longrightarrow> log_states path l s' fs'"

lemma open_first:
  assumes "opens io path fs" "\<forall>n. fs (getSegmentPath path n) = None" "buffer t = None" "limits_ok (limits t)"
  shows "\<exists>s. MeshStore_open io path t fs = Some (ERROR_NONE, s, fs) \<and> log_rel fs s [] \<and> durable fs s \<and> directory s = path \<and> limits s = limits t \<and>
    nextSeq s = 1 \<and> segments s = [0] \<and> buffer s = Some []"
proof -
  obtain ns where ns: "listing io = Some ns" "\<forall>x\<in>set ns. is_segment_name x \<longrightarrow> x \<in> range segment_name"
    "\<forall>n. segment_name n \<in> set ns \<longleftrightarrow> fs (getSegmentPath path n) \<noteq> None" using assms(1) by (auto simp: opens_def lists_segments_def)
  then have "\<forall>x\<in>set ns. \<not> is_segment_name x" using assms(2) by blast
  then have "filter is_segment_name ns = []" by simp
  then have sort: "sort (map (segment_of_name (long_bits io)) (filter is_segment_name ns)) = []" by simp
  let ?t = "t\<lparr>directory := path, buffer := Some [], index := [], segments := [], currentSegmentSize := 0, nextSeq := 1\<rparr>"
  let ?s = "?t\<lparr>segments := [0], currentSegmentSize := 0\<rparr>"
  have io: "made io \<in> {ERROR_NONE, ERROR_ALREADY_EXISTS}" "memory io" using assms(1) by (simp_all add: opens_def)
  have "MeshStore_open io path t fs = Some (ERROR_NONE, ?s, fs)"
    using open_closed [OF assms(3) io ns(1) sort refl, of fs path 0 ?t] by simp
  moreover have "log_rel fs ?s []"
    using assms(2,4) by (simp add: log_rel_def store_ok_def bufferUsed_def file_or_empty_def PENDING_def word_gt_0)
  moreover have "logged (\<lambda>e. e) fs ?s [(0, [])] []" using assms(2) by (simp add: logged_def file_or_empty_def)
  ultimately show ?thesis unfolding durable_def by (intro exI [of _ ?s]) auto
qed

lemma log_states_inv:
  "log_states path l s fs \<Longrightarrow> limits_ok l \<Longrightarrow> (\<exists>ms. log_rel fs s ms) \<and> durable fs s \<and> directory s = path \<and> limits s = l"
proof (induction rule: log_states.induct)
  case (log_first io fs t e s fs')
  then show ?case using open_first [of io path fs t] by auto
next
  case (log_operation s fs c io e s' fs')
  then obtain ms where r: "log_rel fs s ms" and d: "durable fs s" "directory s = path" "limits s = l" by blast
  have "(\<exists>ms. log_rel fs' s' ms) \<and> limits s' = limits s \<and> directory s' = directory s"
    using store_step_rel [OF r log_operation.hyps(2,3), of io] log_operation.hyps(5) by auto
  moreover have "durable fs' s'" using store_step_durable [OF d(1) r] log_operation.hyps d(3) by blast
  ultimately show ?case using d by simp
next
  case (log_restart s fs io t e s' fs')
  then obtain ms where r: "log_rel fs s ms" and d: "durable fs s" "directory s = path" "limits s = l" by blast
  then obtain ls pend where "logged (\<lambda>e. e) fs s ls pend" by (auto simp: durable_def)
  from reopened [OF this r log_restart.hyps(3), of io] log_restart.hyps d show ?case by auto
qed

lemma log_states_restart:
  assumes "log_states path l s fs" "limits_ok l" "log_rel fs s ms" "opens io path fs" "buffer t = None" "limits t = l"
  shows "\<exists>s' ms'. MeshStore_open io path t fs = Some (ERROR_NONE, s', fs) \<and> log_rel fs s' ms' \<and> flushed_prefix ms' ms \<and>
    (buffer s = Some [] \<longrightarrow> ms' = ms)"
proof -
  have d: "durable fs s" "directory s = path" "limits s = l" using log_states_inv [OF assms(1,2)] by blast+
  then obtain ls pend where lg: "logged (\<lambda>e. e) fs s ls pend" by (auto simp: durable_def)
  have "buffer s = Some [] \<longrightarrow> pend = []" using lg by (cases pend) (auto simp: logged_def)
  with reopened [OF lg assms(3,5), of io, unfolded d(2,3), OF assms(6,4)] show ?thesis by blast
qed


lemma disk_opens:
  assumes "\<forall>g. fs (getSegmentPath path g) \<noteq> None \<longrightarrow> g \<in> set segs"
  shows "\<exists>io. opens io path fs"
proof -
  let ?E = "\<lambda>g. fs (getSegmentPath path g) \<noteq> None"
  have inj: "inj segment_name" by (intro injI) (metis getSegmentPath_name path_inject)
  let ?ns = "map segment_name (filter ?E (remdups segs))"
  let ?io = "\<lparr>long_bits = 32, made = ERROR_NONE, memory = True, listing = Some ?ns,
    readable_bytes = (\<lambda>p. Some (case fs p of None \<Rightarrow> 0 | Some x \<Rightarrow> length x)), appendable_bytes = (\<lambda>p. None), stat_works = (\<lambda>p. True), remove_works = (\<lambda>p. True)\<rparr>"
  have "distinct ?ns" using inj by (simp add: distinct_map inj_on_def)
  moreover have "\<forall>n. segment_name n \<in> set ?ns \<longleftrightarrow> ?E n" using assms inj by (auto simp: inj_eq)
  moreover have "\<forall>x\<in>set ?ns. x \<in> range segment_name" by auto
  ultimately have "lists_segments ?io path fs" unfolding lists_segments_def by (intro exI [of _ ?ns]) simp
  then have "opens ?io path fs" by (simp add: opens_def reads_all_def)
  then show ?thesis ..
qed

lemma log_states_opens:
  assumes "log_states path l s fs" "limits_ok l"
  shows "\<exists>io. opens io path fs"
proof -
  have d: "durable fs s" "directory s = path" using log_states_inv [OF assms] by blast+
  then have "\<forall>g. fs (getSegmentPath path g) \<noteq> None \<longrightarrow> g \<in> set (segments s)" by (auto simp: durable_def logged_def)
  then show ?thesis by (rule disk_opens)
qed

lemma flush_succeeds:
  assumes "log_rel fs s ms" "whole_writes io (limits s)" "\<forall>p. appendable_bytes io p \<noteq> None" "flush io s fs = Some (e, s', fs')"
  shows "e = ERROR_NONE"
proof (rule ccontr)
  assume "e \<noteq> ERROR_NONE"
  have b: "bufferUsed s \<le> bufferSize (limits s)" using assms(1) by (simp add: log_rel_def store_ok_def)
  have "bufferSize (limits s) \<le> n" if "appendable_bytes io p = Some n" for p n
    using that assms(2) by (auto simp: whole_writes_def dest: spec [of _ p])
  then have "\<not> n < bufferUsed s" if "appendable_bytes io p = Some n" for p n using b that by (meson leD le_trans)
  moreover obtain n where "appendable_bytes io (getSegmentPath (directory (flush_segment s)) (last (segments (flush_segment s)))) = Some n"
    using spec [OF assms(3)] by auto
  ultimately show False using \<open>e \<noteq> ERROR_NONE\<close> assms(4)
    by (auto simp: flush_def Let_def bufferUsed_def split: option.splits if_splits prod.splits)
qed

lemma log_states_close:
  assumes "log_states path l s fs" "limits_ok l" "log_rel fs s ms" "room s" "whole_writes io l" "\<forall>p. appendable_bytes io p \<noteq> None"
  shows "\<exists>s' fs' k. MeshStore_close io s fs = Some (s', fs') \<and> (0 < k \<longrightarrow> segmentCount l \<le> length (segments s)) \<and>
    (\<forall>io'. opens io' path fs' \<longrightarrow> (\<exists>s''. MeshStore_open io' path s' fs' = Some (ERROR_NONE, s'', fs') \<and> log_rel fs' s'' (drop k ms)))"
proof -
  have d: "limits s = l" using log_states_inv [OF assms(1,2)] by blast
  obtain e s1 fs1 k where f: "flush io s fs = Some (e, s1, fs1)" "log_rel fs1 s1 (drop k ms)" "e = ERROR_NONE \<longrightarrow> buffer s1 = Some []"
    "flushed s s1" "e \<noteq> ERROR_NONE \<or> length (segments s) < segmentCount (limits s) \<longrightarrow> k = 0"
    using flush_rel [OF assms(3,4), of io] by blast
  have e: "e = ERROR_NONE" using flush_succeeds [OF assms(3) _ assms(6) f(1)] assms(5) d by simp
  have st: "log_states path l s1 fs1" using f(1) by (intro log_operation [OF assms(1,4), of Flush io e]) (simp_all add: assms(5))
  have "(buffer s = None) = False" using assms(3) by (simp add: log_rel_def store_ok_def)
  then have c: "MeshStore_close io s fs = Some (s1\<lparr>buffer := None, index := [], segments := [], currentSegmentSize := 0, nextSeq := 1\<rparr>, fs1)" (is "_ = Some (?s, _)")
    unfolding MeshStore_close_def by (simp only: f(1) if_False Option.bind.simps prod.case)
  have "\<exists>s''. MeshStore_open io' path ?s fs1 = Some (ERROR_NONE, s'', fs1) \<and> log_rel fs1 s'' (drop k ms)" if "opens io' path fs1" for io'
    using log_states_restart [OF st assms(2) f(2) that, of ?s] e f(3,4) d by (auto simp: flushed_def)
  moreover have "0 < k \<longrightarrow> segmentCount l \<le> length (segments s)" using f(5) e d by auto
  ultimately show ?thesis using c by blast
qed

lemma add_with_room:
  assumes "buffer s = Some b" "message_wf m" "length b + 320 \<le> bufferSize (limits s)"
  shows "MeshStore_add io m s fs = Some (ERROR_NONE, m\<lparr>m_seq := nextSeq s\<rparr>, s\<lparr>nextSeq := nextSeq s + 1,
      index := index s @ [entry_of PENDING (of_nat (length b)) (m\<lparr>m_seq := nextSeq s\<rparr>)], firstPendingMs := (if b = [] then 0 else firstPendingMs s),
      buffer := Some (b @ record_bytes RECORD_TYPE_MESSAGE (message_bytes (m\<lparr>m_seq := nextSeq s\<rparr>)))\<rparr>, fs)"
proof -
  let ?m = "m\<lparr>m_seq := nextSeq s\<rparr>" and ?s = "s\<lparr>nextSeq := nextSeq s + 1\<rparr>"
  have bs: "serializeMessage ?m MESSAGE_PAYLOAD_MAX_SIZE = message_bytes ?m" by (rule serialize_message) (simp add: mesh_sizes)
  have ne: "message_bytes ?m \<noteq> []" using message_bytes_length(1) [of ?m] by auto
  have b: "buffer ?s \<noteq> None" using assms(1) by simp
  have fit: "bufferUsed ?s + (RECORD_HEADER_SIZE + length (message_bytes ?m)) \<le> bufferSize (limits ?s)"
    using assms(1,3) message_bytes_length(2) [of ?m] by (simp add: bufferUsed_def mesh_sizes)
  then have f: "(if bufferUsed ?s + (RECORD_HEADER_SIZE + length (message_bytes ?m)) > bufferSize (limits ?s) then flush io ?s fs
      else Some (ERROR_NONE, ?s, fs)) = Some (ERROR_NONE, ?s, fs)" by simp
  have wf: "message_wf ?m" using assms(2) by simp
  obtain h where h: "hashPeer (m_peer (canonical ?m)) = Some h" "makeIndexEntry (snd (deserializeMessage (message_bytes ?m))) PENDING (of_nat (length b)) =
      Some \<lparr>e_seq = m_seq ?m, e_segment = PENDING, e_offset = of_nat (length b), e_delivery = m_delivery ?m, e_channel = m_channel ?m, e_peerHash = h\<rparr>"
    using index_entry_of_message [OF wf, of PENDING "of_nat (length b)"] by blast
  have en: "makeIndexEntry (snd (deserializeMessage (message_bytes ?m))) PENDING (of_nat (length b)) = Some (entry_of PENDING (of_nat (length b)) ?m)"
    unfolding h(2) using h(1) by (simp add: entry_of_def)
  have "bufferUsed ?s = length b" using assms(1) by (simp add: bufferUsed_def)
  then have "appendRecord io RECORD_TYPE_MESSAGE (message_bytes ?m) ?s fs = Some (ERROR_NONE, ?s\<lparr>index := index s @ [entry_of PENDING (of_nat (length b)) ?m],
      firstPendingMs := (if b = [] then 0 else firstPendingMs s), buffer := Some (b @ record_bytes RECORD_TYPE_MESSAGE (message_bytes ?m))\<rparr>, fs)"
    using appendRecord_after [OF b f] fit assms(1) en by simp
  then show ?thesis using ne by (simp add: MeshStore_add_def Let_def bs)
qed

lemma log_history_all: "log_history 0 (length ms) ms = rev ms"
  by (simp add: log_history_def before_def)

lemma some_limits_ok: "limits_ok some_limits"
  by (simp add: limits_ok_def some_limits_def)

lemma some_log:
  "\<exists>s. log_states ''/data'' some_limits s Map.empty \<and> log_rel Map.empty s [canonical (some_message\<lparr>m_seq := 1\<rparr>)] \<and> room s \<and> length (segments s) = 1"
proof -
  let ?io = "\<lparr>long_bits = 32, made = ERROR_NONE, memory = True, listing = Some [], readable_bytes = (\<lambda>p. Some 0),
    appendable_bytes = (\<lambda>p. None), stat_works = (\<lambda>p. True), remove_works = (\<lambda>p. True)\<rparr>"
  have io: "opens ?io ''/data'' Map.empty" "whole_writes ?io some_limits" by (simp_all add: opens_def lists_segments_def reads_all_def whole_writes_def)
  obtain s where s: "MeshStore_open ?io ''/data'' (MeshStore_new some_limits) Map.empty = Some (ERROR_NONE, s, Map.empty)" "log_rel Map.empty s []"
    "nextSeq s = 1" "segments s = [0]" "limits s = some_limits" "buffer s = Some []"
    using open_first [OF io(1), of "MeshStore_new some_limits"] some_limits_ok by (auto simp: MeshStore_new_def)
  have st: "log_states ''/data'' some_limits s Map.empty" by (rule log_first [OF io(1) _ _ _ s(1)]) (simp_all add: MeshStore_new_def)
  have wf: "message_wf some_message" by (simp add: some_message_def message_wf_def MeshMessage_init_def mesh_sizes)
  have rm: "room s" by (simp add: room_def s(4) PENDING_def word_gt_0)
  have "(1 :: 32 word) < - 1" by (simp add: word_less_nat_alt unsigned_minus_1_eq_mask mask_eq_exp_minus_1)
  then have q: "nextSeq s < - 1" by (simp add: s(3))
  have "length ([] :: byte list) + 320 \<le> bufferSize (limits s)" by (simp add: s(5) some_limits_def)
  then obtain s' where a: "MeshStore_add ?io some_message s Map.empty = Some (ERROR_NONE, some_message\<lparr>m_seq := 1\<rparr>, s', Map.empty)" "segments s' = [0]"
    using add_with_room [OF s(6) wf, of ?io Map.empty] s(3,4) by auto
  have "log_rel Map.empty s' [canonical (some_message\<lparr>m_seq := 1\<rparr>)]"
    using add_rel [OF s(2) rm wf q, of ?io] a(1) s(3-5) by (auto simp: some_limits_def)
  moreover have "log_states ''/data'' some_limits s' Map.empty"
    using a(1) wf q by (intro log_operation [OF st rm _ io(2), of "Add some_message" ERROR_NONE]) simp_all
  moreover have "room s'" by (simp add: room_def a(2) PENDING_def word_gt_0)
  ultimately show ?thesis using a(2) by auto
qed






lemma flush_to:
  assumes "buffer s = Some buf" "buf \<noteq> []" "segments s \<noteq> []" "flush_segment s = s1" "p = getSegmentPath (directory s1) (last (segments s1))"
    and "appendable_bytes io p = Some n"
  shows "flush io s fs = (if n < length buf then Some (ERROR_RESOURCE, s1\<lparr>currentSegmentSize := of_nat (segmentSize (limits s1))\<rparr>, fs(p \<mapsto> file_or_empty fs p @ take n buf))
     else case enforceBudget io (segments s1) (s1\<lparr>index := map (settle (last (segments s1)) (currentSegmentSize s1)) (index s1),
         currentSegmentSize := currentSegmentSize s1 + of_nat (length buf), buffer := Some []\<rparr>) (fs(p \<mapsto> file_or_empty fs p @ buf)) of (s, fs) \<Rightarrow> Some (ERROR_NONE, s, fs))"
  using assms by (simp add: flush_def Let_def)

section \<open>A torn write\<close>

lemma reopen_duplicate:
  assumes wf: "message_wf a" "message_wf b" and t: "buffer t = None" and io: "opens io path fs"
    and ra: "ra = record_bytes RECORD_TYPE_MESSAGE (message_bytes a)" and rb: "rb = record_bytes RECORD_TYPE_MESSAGE (message_bytes b)"
    and fs: "fs = [getSegmentPath path 0 \<mapsto> ra, getSegmentPath path 1 \<mapsto> ra @ rb]"
  shows "\<exists>s. MeshStore_open io path t fs = Some (ERROR_NONE, s, fs) \<and> map e_seq (index s) = [m_seq a, m_seq a, m_seq b]"
proof -
  let ?p = "getSegmentPath path"
  have bytes: "file_bytes io fs p = fs p" for p using io by (simp add: opens_def reads_all_bytes)
  obtain ns where ns: "listing io = Some ns" "distinct ns" "\<forall>x\<in>set ns. is_segment_name x \<longrightarrow> x \<in> range segment_name"
    "\<forall>n. segment_name n \<in> set ns \<longleftrightarrow> fs (?p n) \<noteq> None" using io by (auto simp: opens_def lists_segments_def)
  have "32 \<le> long_bits io" using io by (simp add: opens_def)
  from listed_segments [OF this ns(2-4), of "[0, 1]"]
  have sort: "sort (map (segment_of_name (long_bits io)) (filter is_segment_name ns)) = [0, 1]" by (simp add: fs)
  have small: "length (message_bytes m) \<le> MESSAGE_PAYLOAD_MAX_SIZE" for m using message_bytes_length(2) [of m] by (simp add: mesh_sizes)
  have e: "scan [] g off s = Some (off, s)" for g off s by (rule scan_end) (simp add: mesh_sizes)
  have one: "scan (ra @ []) 0 0 s = Some (0 + of_nat (length ra), s\<lparr>index := index s @ [entry_of 0 0 a], nextSeq := max (nextSeq s) (m_seq a + 1)\<rparr>)" for s
    unfolding ra scan_record [OF small] apply_message [OF wf(1)] option.case e by simp
  have two: "scan (ra @ rb @ []) 1 0 s = Some (0 + of_nat (length ra) + of_nat (length rb),
      s\<lparr>index := index s @ [entry_of 1 0 a, entry_of 1 (0 + of_nat (length ra)) b], nextSeq := max (max (nextSeq s) (m_seq a + 1)) (m_seq b + 1)\<rparr>)" for s
    unfolding ra rb scan_record [OF small] apply_message [OF wf(1)] apply_message [OF wf(2)] option.case e by simp
  let ?t = "t\<lparr>directory := path, buffer := Some [], index := [], segments := [0, 1], currentSegmentSize := 0, nextSeq := 1\<rparr>"
  let ?s1 = "?t\<lparr>index := [entry_of 0 0 a], nextSeq := max 1 (m_seq a + 1)\<rparr>"
  let ?s = "?t\<lparr>index := [entry_of 0 0 a, entry_of 1 0 a, entry_of 1 (of_nat (length ra)) b],
    nextSeq := max (max (max 1 (m_seq a + 1)) (m_seq a + 1)) (m_seq b + 1)\<rparr>"
  have files: "file_bytes io fs (?p 0) = Some ra" "file_bytes io fs (?p 1) = Some (ra @ rb)"
    unfolding bytes by (simp_all add: fs)
  have "scanSegment io fs 0 ?t = Some (of_nat (length ra), ?s1)" using one [of ?t] by (simp add: scanSegment_def files)
  moreover have "scanSegment io fs 1 ?s1 = Some (of_nat (length (ra @ rb)), ?s)" using two [of ?s1] by (simp add: scanSegment_def files)
  ultimately have sc: "scan_segments io fs [0, 1] 0 ?t = Some (of_nat (length (ra @ rb)), ?s)" by simp
  have made: "made io \<in> {ERROR_NONE, ERROR_ALREADY_EXISTS}" "memory io" "\<And>p. stat_works io p" using io by (simp_all add: opens_def)
  have "MeshStore_open io path t fs = Some (ERROR_NONE, ?s\<lparr>currentSegmentSize := of_nat (length (ra @ rb))\<rparr>, fs)"
    using open_closed [OF t made(1,2) ns(1) sort refl sc] by (simp add: fs made(3))
  moreover have "map e_seq (index (?s\<lparr>currentSegmentSize := of_nat (length (ra @ rb))\<rparr>)) = [m_seq a, m_seq a, m_seq b]" by (simp add: entry_of_def)
  ultimately show ?thesis by (intro exI conjI)
qed

text \<open>
  a record is stored twice when a write is torn behind it. Two messages wait in the buffer and the write of them ends after the whole first record;
  the retry writes both to the next segment and succeeds. The log still has two messages then, but the one that is opened from these
  files has three: the first message is in it twice, under the same sequence number.
\<close>

theorem torn_retry_duplicates:
  assumes "message_wf a" "message_wf b" "limits_ok l" "640 \<le> bufferSize l" "0 < segmentSize l" "1 < segmentCount l" "buffer t = None"
    and s0: "s0 = (MeshStore_new l)\<lparr>directory := path, buffer := Some [], segments := [0]\<rparr>"
    and torn: "appendable_bytes io1 (getSegmentPath path 0) = Some (length (record_bytes RECORD_TYPE_MESSAGE (message_bytes (a\<lparr>m_seq := 1\<rparr>))))"
    and retry: "appendable_bytes io2 (getSegmentPath path 1) = Some (bufferSize l)"
  shows "\<exists>a' s1 b' s2 s3 fs3 s4 fs4. MeshStore_add io a s0 Map.empty = Some (ERROR_NONE, a', s1, Map.empty) \<and>
    MeshStore_add io b s1 Map.empty = Some (ERROR_NONE, b', s2, Map.empty) \<and> flush io1 s2 Map.empty = Some (ERROR_RESOURCE, s3, fs3) \<and>
    flush io2 s3 fs3 = Some (ERROR_NONE, s4, fs4) \<and> map e_seq (index s4) = [1, 2] \<and> (\<exists>io3. opens io3 path fs4) \<and>
    (\<forall>io3. opens io3 path fs4 \<longrightarrow> (\<exists>s5. MeshStore_open io3 path t fs4 = Some (ERROR_NONE, s5, fs4) \<and> map e_seq (index s5) = [1, 1, 2]))"
proof -
  let ?a = "a\<lparr>m_seq := 1\<rparr>" and ?b = "b\<lparr>m_seq := 2\<rparr>"
  let ?ra = "record_bytes RECORD_TYPE_MESSAGE (message_bytes ?a)" and ?rb = "record_bytes RECORD_TYPE_MESSAGE (message_bytes ?b)"
  have len: "length ?ra \<le> 320" "length ?rb \<le> 320" "0 < length ?rb" using message_bytes_length(2) [of ?a] message_bytes_length(2) [of ?b] by simp_all
  have f0: "buffer s0 = Some []" "index s0 = []" "nextSeq s0 = 1" "limits s0 = l" "segments s0 = [0]" "directory s0 = path" "currentSegmentSize s0 = 0"
    by (simp_all add: s0 MeshStore_new_def)
  have "length ([] :: byte list) + 320 \<le> bufferSize (limits s0)" using assms(4) f0 by simp
  note a1 = add_with_room [OF f0(1) assms(1) this, of io Map.empty]
  then obtain a' s1 where add1: "MeshStore_add io a s0 Map.empty = Some (ERROR_NONE, a', s1, Map.empty)" by blast
  then have f1: "a' = ?a" "buffer s1 = Some ?ra" "index s1 = [entry_of PENDING 0 ?a]" "nextSeq s1 = 2" "limits s1 = l" "segments s1 = [0]" "directory s1 = path"
    "currentSegmentSize s1 = 0"
    unfolding a1 by (auto simp: f0)
  have "length ?ra + 320 \<le> bufferSize (limits s1)" using assms(4) len(1) f1 by simp
  note a2 = add_with_room [OF f1(2) assms(2) this, of io Map.empty]
  then obtain b' s2 where add2: "MeshStore_add io b s1 Map.empty = Some (ERROR_NONE, b', s2, Map.empty)" by blast
  then have f2: "buffer s2 = Some (?ra @ ?rb)" "index s2 = [entry_of PENDING 0 ?a, entry_of PENDING (of_nat (length ?ra)) ?b]" "limits s2 = l" "segments s2 = [0]"
    "directory s2 = path" "currentSegmentSize s2 = 0"
    unfolding a2 by (auto simp: f1)
  let ?p = "getSegmentPath path" and ?L = "of_nat (segmentSize l) :: 32 word"
  let ?fs3 = "[?p 0 \<mapsto> ?ra]" and ?fs4 = "[?p 0 \<mapsto> ?ra, ?p 1 \<mapsto> ?ra @ ?rb]"
  have "unat (currentSegmentSize s2) < segmentSize (limits s2)" using assms(5) f2 by simp
  then have seg2: "flush_segment s2 = s2" by (simp add: flush_segment_def)
  have p2: "?p 0 = getSegmentPath (directory s2) (last (segments s2))" by (simp add: f2)
  have ne: "?ra @ ?rb \<noteq> []" "segments s2 \<noteq> []" using f2(4) by (simp_all add: record_bytes_def)
  let ?s3 = "s2\<lparr>currentSegmentSize := ?L\<rparr>"
  have f3: "flush io1 s2 Map.empty = Some (ERROR_RESOURCE, ?s3, ?fs3)"
    using len(3) unfolding flush_to [OF f2(1) ne seg2 p2 torn] by (simp add: f2 file_or_empty_def)
  have L: "unat ?L = segmentSize l" using assms(3) by (simp add: limits_ok_def unsigned_of_nat take_bit_nat_eq_self)
  have b3: "buffer ?s3 = Some (?ra @ ?rb)" "segments ?s3 \<noteq> []" using f2 by simp_all
  have seg3: "flush_segment ?s3 = ?s3\<lparr>segments := [0, 1], currentSegmentSize := 0\<rparr>" using L by (simp add: flush_segment_def f2)
  have p3: "?p 1 = getSegmentPath (directory (?s3\<lparr>segments := [0, 1], currentSegmentSize := 0\<rparr>)) (last (segments (?s3\<lparr>segments := [0, 1], currentSegmentSize := 0\<rparr>)))"
    by (simp add: f2)
  have "\<not> bufferSize l < length (?ra @ ?rb)" using assms(4) len by simp
  then obtain s4 where f4: "flush io2 ?s3 ?fs3 = Some (ERROR_NONE, s4, ?fs4)" "map e_seq (index s4) = [1, 2]"
    using assms(6) unfolding flush_to [OF b3(1) ne(1) b3(2) seg3 p3 retry] by (simp add: f2 file_or_empty_def entry_of_def)
  have "\<forall>g. ?fs4 (?p g) \<noteq> None \<longrightarrow> g \<in> set [0, 1]" by (simp add: fun_upd_def)
  from disk_opens [OF this] have io: "\<exists>io3. opens io3 path ?fs4" .
  have "\<exists>s5. MeshStore_open io3 path t ?fs4 = Some (ERROR_NONE, s5, ?fs4) \<and> map e_seq (index s5) = [1, 1, 2]" if "opens io3 path ?fs4" for io3
    using reopen_duplicate [OF _ _ assms(7) that refl refl refl] assms(1,2) by simp
  then have op: "\<forall>io3. opens io3 path ?fs4 \<longrightarrow> (\<exists>s5. MeshStore_open io3 path t ?fs4 = Some (ERROR_NONE, s5, ?fs4) \<and> map e_seq (index s5) = [1, 1, 2])" by blast
  note all = conjI [OF add1 conjI [OF add2 conjI [OF f3 conjI [OF f4(1) conjI [OF f4(2) conjI [OF io op]]]]]]
  show ?thesis by (rule exI, rule exI, rule exI, rule exI, rule exI, rule exI, rule exI, rule exI, rule all)
qed

theorem torn_retry_duplicates_witness:
  "\<exists>io fs s. MeshStore_open io ''/data'' (MeshStore_new some_limits) fs = Some (ERROR_NONE, s, fs) \<and> map e_seq (index s) = [1, 1, 2]"
proof -
  let ?io = "\<lparr>long_bits = 32, made = ERROR_NONE, memory = True, listing = None, readable_bytes = (\<lambda>p. None),
       appendable_bytes = (\<lambda>p. Some (if p = getSegmentPath ''/data'' 0 then length (record_bytes RECORD_TYPE_MESSAGE (message_bytes (some_message\<lparr>m_seq := 1\<rparr>))) else 16384)),
       stat_works = (\<lambda>p. True), remove_works = (\<lambda>p. True)\<rparr>"
  have wf: "message_wf some_message" by (simp add: some_message_def message_wf_def MeshMessage_init_def mesh_sizes)
  have l: "640 \<le> bufferSize some_limits" "0 < segmentSize some_limits" "1 < segmentCount some_limits" by (simp_all add: some_limits_def)
  have io: "appendable_bytes ?io (getSegmentPath ''/data'' 0) = Some (length (record_bytes RECORD_TYPE_MESSAGE (message_bytes (some_message\<lparr>m_seq := 1\<rparr>))))"
    "appendable_bytes ?io (getSegmentPath ''/data'' 1) = Some (bufferSize some_limits)" by (simp_all add: some_limits_def)
  have t: "buffer (MeshStore_new some_limits) = None" by (simp add: MeshStore_new_def)
  obtain fs where fs: "\<exists>io3. opens io3 ''/data'' fs" "\<forall>io3. opens io3 ''/data'' fs \<longrightarrow>
      (\<exists>s. MeshStore_open io3 ''/data'' (MeshStore_new some_limits) fs = Some (ERROR_NONE, s, fs) \<and> map e_seq (index s) = [1, 1, 2])"
    using torn_retry_duplicates [OF wf wf some_limits_ok l t some_store_def io, of ?io] by (elim exE conjE) (rule that, blast+)
  then obtain io where "opens io ''/data'' fs" by blast
  from fs(2) [rule_format, OF this] obtain s where "MeshStore_open io ''/data'' (MeshStore_new some_limits) fs = Some (ERROR_NONE, s, fs)"
    "map e_seq (index s) = [1, 1, 2]" by (elim exE conjE) (rule that)
  then show ?thesis by (intro exI conjI)
qed

end
