(* ===== verification/Mesh_Run.thy ===== *)
theory Mesh_Run
  imports Mesh_Invariant Mesh_Recovery
begin

text \<open>
  Runs of the mesh service: turns of its thread and calls of apps in any order, with any answers of radio, files and clock. Every
  one keeps the invariant of \<open>Mesh_Invariant\<close>.
\<close>

section \<open>Sending\<close>

lemma log_radio_data [simp]: "data_ok (log_radio c h) = data_ok h"
  by (simp add: log_radio_def)

lemma log_radio_preds [simp]:
  "backend_off (log_radio c h) = backend_off h" "backend_on ids (log_radio c h) = backend_on ids h" "h_state (log_radio c h) = h_state h"
  "mesh_inv ids (log_radio c h) = mesh_inv ids h"
  by (simp_all add: log_radio_def mesh_inv_defs)

lemma inv_flight:
  assumes "mesh_inv ids h"
  shows "mesh_inv ids (h\<lparr>h_dutyCycleLogged := d\<rparr>)" "mesh_inv ids (h\<lparr>h_airtime := a\<rparr>)" "mesh_inv ids (h\<lparr>h_airtime := a, h_dutyCycleLogged := d\<rparr>)"
  using assms by (simp_all add: mesh_inv_defs)

lemma send_front_inv:
  assumes "mesh_inv ids h" "h_api h \<noteq> None" "\<not> h_txInFlight h" "h_txQueue h \<noteq> []"
  shows "mesh_inv ids (send_front W airtime (hd (h_txQueue h)) h)"
proof -
  obtain f q where q: "h_txQueue h = f # q" using assms(4) by (cases "h_txQueue h") auto
  let ?h = "h\<lparr>h_dutyCycleLogged := False, h_txFrame := f, h_txQueue := q\<rparr>"
  have f: "frame_ok f" "length q \<le> TX_QUEUE_LIMIT" using assms(1) q by (simp_all add: mesh_inv_def data_ok_def queue_ok_def)
  have i: "mesh_inv ids ?h" using assms(1,3) q
    by (auto simp: mesh_inv_defs data_ok_def queue_ok_def sane_def log_ok_def subs_ok_def)
  obtain d where r: "h_radio h = Some d" using assms(1,2) by (auto simp: mesh_inv_defs)
  obtain e tid where t: "ra_transmit (w_radio W) (f_data f) = (e, tid)" by fastforce
  have "mesh_inv ids (?h\<lparr>h_txId := tid, h_txInFlight := True, h_airtime := a\<rparr>)" for a
    using i assms(2) f by (auto simp: mesh_inv_defs data_ok_def queue_ok_def sane_def log_ok_def subs_ok_def)
  moreover have "mesh_inv ids (setDelivery W s d ?h)" for s d using keeps_inv [OF i setDelivery_keeps [OF inv_data [OF i]]] .
  ultimately show ?thesis using i r t q by (simp add: send_front_def Let_def)
qed

lemma pumpTx_inv:
  assumes "mesh_inv ids h"
  shows "mesh_inv ids (pumpTx W h)"
proof (cases "h_txInFlight h \<or> h_txQueue h = [] \<or> h_api h = None")
  case True
  then show ?thesis using assms by (simp add: pumpTx_def)
next
  case False
  have "mesh_inv ids (send_front W a (hd (h_txQueue h)) (h\<lparr>h_airtime := rs\<rparr>))" for a rs
    using send_front_inv [OF inv_flight(2) [OF assms], of rs W a] False by simp
  with False show ?thesis using send_front_inv [OF assms, of W]
    by (auto simp: pumpTx_def Let_def getAirtimeUsedMs_def inv_flight [OF assms])
qed

lemma onTxEvent_inv:
  assumes "mesh_inv ids h"
  shows "mesh_inv ids (onTxEvent W tid st h)"
proof (cases "h_txInFlight h \<and> tid = h_txId h")
  case False
  then show ?thesis using assms by (auto simp: onTxEvent_def)
next
  case True
  let ?over = "h\<lparr>h_txInFlight := False\<rparr>" and ?s = "f_seq (h_txFrame h)"
  have i: "mesh_inv ids ?over" using assms True by (auto simp: mesh_inv_defs data_ok_def queue_ok_def sane_def log_ok_def subs_ok_def)
  have set: "mesh_inv ids (setDelivery W q d g)" if "mesh_inv ids g" for q d g using keeps_inv [OF that setDelivery_keeps [OF inv_data [OF that]]] .
  have get: "mesh_inv ids (snd (store_get W ?s ?over))" using keeps_inv [OF i store_get_keeps [OF inv_data [OF i]]] .
  have busy: "mesh_inv ids (?over\<lparr>h_txQueue := f # h_txQueue h, h_txFrame := g\<rparr>)"
    if "f = (h_txFrame h)\<lparr>f_busyRetries := f_busyRetries (h_txFrame h) + 1\<rparr>" "f_busyRetries (h_txFrame h) < CHANNEL_BUSY_RETRIES" for f g
  proof -
    have "frame_ok f" "list_all frame_ok (h_txQueue h)" "length (h_txQueue h) \<le> TX_QUEUE_LIMIT"
      using assms True that by (auto simp: mesh_inv_def data_ok_def queue_ok_def frame_ok_def)
    with i show ?thesis by (auto simp: mesh_inv_defs data_ok_def queue_ok_def sane_def log_ok_def subs_ok_def)
  qed
  obtain e m h1 where g: "store_get W ?s ?over = ((e, m), h1)" by (metis surj_pair)
  with get have i1: "mesh_inv ids h1" by simp
  show ?thesis using True i i1 set [OF i1] set [OF i] busy assms
    by (cases st) (auto simp: onTxEvent_def Let_def g)
qed

section \<open>The radio\<close>

lemma findRadio_refs:
  "\<exists>h1. keeps h h1 \<and> findRadio W h = (None, h1) \<or> (\<exists>r h1. keeps h h1 \<and> findRadio W h = (Some r, h1\<lparr>h_refs := h_refs h1 + 1\<rparr>))"
  using settings_keeps [of h W] by (auto simp: findRadio_def Let_def split: option.split)

lemma attachRadio_off:
  assumes "data_ok h" "backend_off h" "h_radio h = None"
  shows "case attachRadio W h of (ok, h') \<Rightarrow> data_ok h' \<and> backend_off h' \<and> same_queue h h' \<and> h_state h' = h_state h \<and> (\<not> ok \<longrightarrow> h_radio h' = None)"
  using findRadio_refs [of h W]
proof (elim exE disjE conjE)
  fix h1
  assume "keeps h h1" "findRadio W h = (None, h1)"
  with assms show ?thesis by (simp add: attachRadio_def keeps_def same_thread_def mesh_inv_defs same_queue_def)
next
  fix r h1
  assume "keeps h h1" "findRadio W h = (Some r, h1\<lparr>h_refs := h_refs h1 + 1\<rparr>)"
  with assms show ?thesis by (simp add: attachRadio_def attach_to_def keeps_def same_thread_def mesh_inv_defs same_queue_def)
qed

lemma detachRadio_off:
  assumes "data_ok h" "backend_off h"
  shows "data_ok (detachRadio h) \<and> backend_off (detachRadio h) \<and> h_radio (detachRadio h) = None \<and> same_queue h (detachRadio h) \<and> h_state (detachRadio h) = h_state h"
  using assms by (auto simp: detachRadio_def Let_def device_put_radio_def log_radio_def mesh_inv_defs same_queue_def split: if_splits)

lemma reselectRadio_inv:
  assumes "mesh_inv ids h" "world_ok ids W"
  shows "mesh_inv ids (reselectRadio W h) \<and> same_queue h (reselectRadio W h)"
proof -
  let ?h1 = "detachRadio (deactivateBackend W h)"
  have h1: "data_ok ?h1" "backend_off ?h1" "h_radio ?h1 = None" "same_queue h ?h1"
    using detachRadio_off deactivate_off [OF inv_data [OF assms(1)] inv_off_or_up [OF assms(1)] assms(2)] same_queue_trans by blast+
  obtain ok h2 where a: "attachRadio W ?h1 = (ok, h2)" by fastforce
  then have h2: "data_ok h2" "backend_off h2" "same_queue h h2" using attachRadio_off [OF h1(1-3), of W] h1(4) by (auto intro: same_queue_trans)
  from h2(2) have "backend_off h2 \<or> backend_up h2" by blast
  note c = configure_inv [OF h2(1) this assms(2)]
  then show ?thesis using a h2 c quit_inv [OF h2(1,2), where ids = ids and W = W and st = MESH_STATE_NO_RADIO]
    by (cases ok) (auto simp: reselectRadio_def intro: same_queue_trans)
qed

section \<open>Work\<close>

lemma on_backend_inv:
  assumes "mesh_inv ids h" "h_api h = Some p" "\<And>b. lawful (f (w_api W p) b)"
  shows "mesh_inv ids (snd (on_backend W f h)) \<and> same_queue h (snd (on_backend W f h))"
proof -
  obtain b where b: "h_backend h = Some b" using assms(1,2) by (auto simp: mesh_inv_defs)
  from on_backend_works(1) [where f = f, OF inv_data [OF assms(1)] assms(2) b assms(3)] have w: "works h (snd (on_backend W f h))" .
  from works_inv [OF assms(1) w] works_queue [OF w] show ?thesis by blast
qed

lemma on_radio_rx_inv:
  assumes "mesh_inv ids h" "world_ok ids W"
  shows "mesh_inv ids (on_radio_rx W ev h)"
proof (cases "h_api h")
  case None
  then show ?thesis using assms by (cases ev) (simp add: on_radio_rx_def)
next
  case (Some p)
  obtain bs sig where e: "ev = (bs, sig)" by (cases ev)
  have "lawful (b_on_receive (w_api W p) b bs sig)" for b using assms(2) by (cases sig) (simp add: world_ok_def lawful_api_def)
  from on_backend_inv [where f = "\<lambda>api b. b_on_receive api b bs sig", OF assms(1) Some this]
  have i: "mesh_inv ids (snd (on_backend W (\<lambda>api b. b_on_receive api b bs sig) h))" by blast
  from keeps_inv [OF i emitFrame_keeps [OF inv_data [OF i]]] show ?thesis using i Some e
    by (auto simp: on_radio_rx_def case_prod_beta)
qed

lemma fold_inv: "\<lbrakk>\<And>x h. mesh_inv ids h \<Longrightarrow> mesh_inv ids (f x h); mesh_inv ids h\<rbrakk> \<Longrightarrow> mesh_inv ids (fold f xs h)"
  by (induction xs arbitrary: h) auto

lemma drainRadioEvents_inv:
  assumes "mesh_inv ids h" "world_ok ids W"
  shows "mesh_inv ids (drainRadioEvents W rx tx h)"
proof -
  have r: "mesh_inv ids (fold (on_radio_rx W) rx h)" by (rule fold_inv [OF on_radio_rx_inv [OF _ assms(2)] assms(1)])
  have t: "mesh_inv ids (fold (\<lambda>(tid, st). onTxEvent W tid st) tx g)" if "mesh_inv ids g" for g
    by (rule fold_inv [OF _ that]) (auto intro: onTxEvent_inv)
  show ?thesis using r t assms(1) by (simp add: drainRadioEvents_def Let_def)
qed

lemma sync_lawful:
  assumes "world_ok ids W"
  shows "b_is_valid_contact_address (w_api W p) = Some f1 \<Longrightarrow> lawful (f1 b a)"
    "b_get_contact_uri (w_api W p) = Some f2 \<Longrightarrow> lawful (f2 b c s n)" "b_get_channels (w_api W p) = Some f3 \<Longrightarrow> lawful (f3 b n)"
    "b_set_channel (w_api W p) = Some f4 \<Longrightarrow> lawful (f4 b ch)" "b_remove_channel (w_api W p) = Some f5 \<Longrightarrow> lawful (f5 b i)"
    "b_on_node_name_changed (w_api W p) = Some f6 \<Longrightarrow> lawful (f6 b)"
  using assms by (simp_all add: world_ok_def lawful_api_def)

lemma optional_call_inv:
  assumes "mesh_inv ids h" "h_api h = Some p" "\<And>b. lawful (g b)"
  shows "mesh_inv ids (snd (on_backend W (\<lambda>_. g) h)) \<and> same_queue h (snd (on_backend W (\<lambda>_. g) h))"
  by (rule on_backend_inv [where f = "\<lambda>_. g", OF assms])

lemma run_sync_inv:
  assumes "mesh_inv ids h" "world_ok ids W"
  shows "mesh_inv ids (snd (run_sync W request h)) \<and> same_queue h (snd (run_sync W request h))"
proof -
  note c = configure_inv [OF inv_data [OF assms(1)] inv_off_or_up [OF assms(1)] assms(2)]
  note lawful = sync_lawful [OF assms(2)]
  have tr: "mesh_inv ids (snd (mesh_host_transmit bs 0 h)) \<and> same_queue h (snd (mesh_host_transmit bs 0 h))" for bs
    using keeps_inv [OF assms(1) transmit_keeps] keeps_works [OF transmit_keeps] works_queue by blast
  show ?thesis
  proof (cases "h_api h")
    case None
    then show ?thesis using c assms(1) by (cases request) (simp_all add: run_sync_def)
  next
    case (Some p)
    show ?thesis
      using c assms(1) Some tr
      by (cases request) (auto simp: run_sync_def case_prod_beta lawful optional_call_inv [OF assms(1) Some] split: option.split)
  qed
qed

lemma same_queue_inv: "mesh_inv ids h \<Longrightarrow> mesh_inv ids (h\<lparr>h_calls := ws\<rparr>)" "mesh_inv ids h \<Longrightarrow> mesh_inv ids (h\<lparr>h_answer := a\<rparr>)"
  by (simp_all add: mesh_inv_defs)

lemma erase_inv:
  assumes "mesh_inv ids h"
  shows "mesh_inv ids (h\<lparr>h_txQueue := filter P (h_txQueue h)\<rparr>)"
proof -
  have le: "length (h_txQueue h) \<le> n \<Longrightarrow> length (filter P (h_txQueue h)) \<le> n" for n
    by (rule le_trans [OF length_filter_le])
  have "queue_ok (h\<lparr>h_txQueue := filter P (h_txQueue h)\<rparr>)"
    using inv_data [OF assms] le by (simp add: data_ok_def queue_ok_def list_all_iff)
  then have "data_ok (h\<lparr>h_txQueue := filter P (h_txQueue h)\<rparr>)"
    using inv_data [OF assms] by (simp add: data_ok_def sane_def log_ok_def subs_ok_def)
  with assms show ?thesis by (simp add: mesh_inv_defs)
qed

lemma run_work_inv:
  assumes "mesh_inv ids h" "world_ok ids W"
  shows "mesh_inv ids (run_work W w h) \<and> h_calls (run_work W w h) = h_calls h \<and> g_service (run_work W w h) = g_service h"
proof -
  note c = configure_inv [OF inv_data [OF assms(1)] inv_off_or_up [OF assms(1)] assms(2)] and r = reselectRadio_inv [OF assms]
  have s: "mesh_inv ids (sendStored W q h) \<and> same_queue h (sendStored W q h)" for q
    using sendStored_works [OF inv_on_or_off [OF assms(1)] assms(2)] works_inv [OF assms(1)] works_queue by blast
  have a: "mesh_inv ids (snd (on_backend W (\<lambda>_. f) h)) \<and> same_queue h (snd (on_backend W (\<lambda>_. f) h))"
    if "h_api h = Some p" "b_on_node_name_changed (w_api W p) = Some f" for p f
    using on_backend_inv [where f = "\<lambda>_. f" and W = W, OF assms(1) that(1)] sync_lawful(6) [OF assms(2) that(2)] by blast
  show ?thesis
    using c r s a run_sync_inv [OF assms] erase_inv [OF assms(1)] assms(1)
    by (cases w) (auto simp: run_work_def same_queue_def case_prod_beta same_queue_inv split: option.split)
qed

lemma work_loop_inv:
  assumes "mesh_inv ids h" "world_ok ids W" "h_calls h = ws"
  shows "mesh_inv ids (work_loop W ws h) \<and> h_calls (work_loop W ws h) = [] \<and> g_service (work_loop W ws h) = g_service h"
  using assms(1,3)
proof (induction ws arbitrary: h)
  case (Cons w ws)
  let ?h = "run_work W w (h\<lparr>h_calls := ws\<rparr>)"
  have r: "mesh_inv ids ?h" "h_calls ?h = ws" "g_service ?h = g_service h"
    using run_work_inv [OF same_queue_inv(1) [OF Cons.prems(1)] assms(2), of w ws] by auto
  from Cons.IH [OF r(1,2)] r(3) show ?case by simp
qed simp

lemma runCalls_inv: "mesh_inv ids h \<Longrightarrow> world_ok ids W \<Longrightarrow> mesh_inv ids (runCalls W h) \<and> h_calls (runCalls W h) = [] \<and> g_service (runCalls W h) = g_service h"
  unfolding runCalls_def using work_loop_inv by blast

section \<open>Turns of the thread\<close>

lemma configure_step: "mesh_inv ids h \<Longrightarrow> world_ok ids W \<Longrightarrow> mesh_inv ids (configure W h)"
  using configure_inv inv_data inv_off_or_up by blast

lemma tick_attach:
  assumes "mesh_inv ids h" "world_ok ids W"
  shows "mesh_inv ids (if h_radio h = None then (case attachRadio W h of (True, h) \<Rightarrow> configure W h | (False, h) \<Rightarrow> h) else h)"
proof (cases "h_radio h")
  case None
  then have off: "backend_off h" "h_state h \<noteq> MESH_STATE_ON" using assms(1) by (auto simp: mesh_inv_defs)
  obtain ok h1 where a: "attachRadio W h = (ok, h1)" by fastforce
  have h1: "data_ok h1" "backend_off h1" "h_state h1 = h_state h" using attachRadio_off [OF inv_data [OF assms(1)] off(1) None, of W] a by auto
  then have "mesh_inv ids (configure W h1)" using configure_inv [OF h1(1) _ assms(2)] by blast
  with h1 off a None show ?thesis by (cases ok) (auto simp: mesh_inv_def)
qed (use assms in simp)

lemma tick_state:
  assumes "mesh_inv ids h" "world_ok ids W"
  shows "mesh_inv ids (if h_api h = None then h else if h_radio h = None then abort h
    else if ra_state (w_radio W) = (ERROR_NONE, RADIO_STATE_ERROR) then setState W MESH_STATE_ERROR (deactivateBackend W h) else h)"
proof (cases "h_api h")
  case (Some p)
  then have "h_radio h \<noteq> None" using assms(1) by (auto simp: mesh_inv_defs)
  moreover have "mesh_inv ids (setState W MESH_STATE_ERROR (deactivateBackend W h))"
    using deactivate_off [OF inv_data [OF assms(1)] inv_off_or_up [OF assms(1)] assms(2)] setState_off by blast
  ultimately show ?thesis using assms(1) by auto
qed (use assms in simp)

lemma tick_backend:
  assumes "mesh_inv ids h" "world_ok ids W"
  shows "mesh_inv ids (if h_api h = None then h else snd (on_backend W b_on_tick h))"
proof (cases "h_api h")
  case (Some p)
  have "lawful (b_on_tick (w_api W p) b)" for b using assms(2) by (simp add: world_ok_def lawful_api_def)
  from on_backend_inv [where f = b_on_tick, OF assms(1) Some this] Some show ?thesis by simp
qed (use assms in simp)

lemma tick_inv:
  assumes "mesh_inv ids h" "world_ok ids W"
  shows "mesh_inv ids (tick W h)"
proof -
  define h1 where "h1 = (if h_radio h = None then (case attachRadio W h of (True, h) \<Rightarrow> configure W h | (False, h) \<Rightarrow> h) else h)"
  define h2 where "h2 = (if h_radio h1 \<noteq> None \<and> h_radioAcquired h1 \<and> ra_region (w_radio W) \<noteq> h_appliedRegion h1 then configure W h1 else h1)"
  define h3 where "h3 = (if h_api h2 = None then h2 else if h_radio h2 = None then abort h2
    else if ra_state (w_radio W) = (ERROR_NONE, RADIO_STATE_ERROR) then setState W MESH_STATE_ERROR (deactivateBackend W h2) else h2)"
  define h4 where "h4 = (if h_api h3 = None then h3 else snd (on_backend W b_on_tick h3))"
  have h1: "mesh_inv ids h1" unfolding h1_def by (rule tick_attach [OF assms])
  have h2: "mesh_inv ids h2" unfolding h2_def using h1 configure_step [OF h1 assms(2)] by simp
  have h3: "mesh_inv ids h3" unfolding h3_def by (rule tick_state [OF h2 assms(2)])
  have h4: "mesh_inv ids h4" unfolding h4_def by (rule tick_backend [OF h3 assms(2)])
  have "tick W h = flush_store W h4" unfolding tick_def Let_def h4_def h3_def h2_def h1_def ..
  then show ?thesis using keeps_inv [OF h4 flush_store_keeps [OF inv_data [OF h4]]] by simp
qed

lemma thread_turn_inv:
  assumes "mesh_inv ids h" "world_ok ids W"
  shows "mesh_inv ids (thread_turn W rx tx h)"
proof -
  have r: "mesh_inv ids (runCalls W (drainRadioEvents W rx tx h))" using runCalls_inv [OF drainRadioEvents_inv [OF assms] assms(2)] by blast
  then have "mesh_inv ids ((runCalls W (drainRadioEvents W rx tx h))\<lparr>h_lastTickMs := t\<rparr>)" for t by (simp add: mesh_inv_defs)
  with r show ?thesis using assms(1) by (simp add: thread_turn_def Let_def pumpTx_inv tick_inv [OF _ assms(2)])
qed

lemma thread_end_off:
  assumes "mesh_inv ids h" "world_ok ids W"
  shows "data_ok (thread_end W h) \<and> backend_off (thread_end W h)"
proof -
  have r: "mesh_inv ids (runCalls W h)" using runCalls_inv [OF assms] by blast
  show ?thesis unfolding thread_end_def using deactivate_off [OF inv_data [OF r] inv_off_or_up [OF r] assms(2)] by blast
qed


section \<open>Calls of apps\<close>

lemma inv_globals [simp]:
  "mesh_inv ids (h\<lparr>g_settings := a\<rparr>) = mesh_inv ids h" "mesh_inv ids (h\<lparr>g_files := b\<rparr>) = mesh_inv ids h"
  "mesh_inv ids (h\<lparr>g_backends := c\<rparr>) = mesh_inv ids h" "mesh_inv ids (h\<lparr>h_calls := d\<rparr>) = mesh_inv ids h"
  "mesh_inv ids (h\<lparr>h_answer := e\<rparr>) = mesh_inv ids h" "mesh_inv ids (post w h) = mesh_inv ids h" "mesh_inv ids (post_if_running w h) = mesh_inv ids h"
  "mesh_inv ids (snd (callOnServiceThread q h)) = mesh_inv ids h"
  by (simp_all add: mesh_inv_defs post_def post_if_running_def callOnServiceThread_def)

lemma settings_inv [simp]: "mesh_inv ids h \<Longrightarrow> mesh_inv ids (ensureSettingsLoaded W h)"
  by (rule keeps_inv [OF _ settings_keeps])

lemma save_settings_inv [simp]: "mesh_inv ids (snd (save_settings W h)) = mesh_inv ids h"
  by (simp add: save_settings_def split: prod.split)

lemma presetsApply_keeps: "keeps h (snd (presetsApply W h))" "keeps h (snd (mesh_is_available W h))" "keeps h (snd (mesh_get_radio W n h))"
  using findRadio_refs [of h W] by (auto simp: presetsApply_def mesh_is_available_def mesh_get_radio_def device_put_radio_def)

lemma preset_backend_inv: "mesh_inv ids h \<Longrightarrow> mesh_inv ids (snd (preset_backend W h))"
  by (auto simp: preset_backend_def Let_def case_prod_beta intro: settings_inv keeps_inv [OF _ presetsApply_keeps(1)])

lemma emit_inv: "mesh_inv ids h \<Longrightarrow> mesh_inv ids (emitEvent W t st q d h)"
  by (rule keeps_inv [OF _ emitEvent_keeps [OF inv_data]])

lemma setDelivery_inv: "mesh_inv ids h \<Longrightarrow> mesh_inv ids (setDelivery W q d h)"
  by (rule keeps_inv [OF _ setDelivery_keeps [OF inv_data]])

lemma with_log_inv:
  assumes "mesh_inv ids h" "h_spent h \<or> f (h_store h) (h_disk h) \<noteq> None"
  shows "mesh_inv ids (snd (with_log f h))"
  using assms(2) assms(1) keeps_inv [OF assms(1) spent_abort [OF _ inv_data [OF assms(1)]]]
  by (auto simp: with_log_def split: option.split)

lemma query_inv:
  assumes "mesh_inv ids h"
  shows "mesh_inv ids (snd (mesh_message_get W q h))" "mesh_inv ids (snd (mesh_history_get W q n h))"
    "(case peer of Some a \<Rightarrow> address_ok a | None \<Rightarrow> True) \<Longrightarrow> mesh_inv ids (snd (mesh_conversation_get W peer ch q n h))"
proof -
  note readable = readable_or_spent [OF inv_data [OF assms]]
  have "h_spent h \<or> MeshStore_get (w_store W) q (h_store h) (h_disk h) \<noteq> None" using readable get_total by (metis option.distinct(1))
  from with_log_inv [where f = "MeshStore_get (w_store W) q", OF assms this] show "mesh_inv ids (snd (mesh_message_get W q h))"
    by (auto simp: mesh_message_get_def split: prod.split option.split)
  have rev: "readable_entries io s fs es \<Longrightarrow> readable_entries io s fs (rev es)" for io s fs es by (simp add: readable_entries_def)
  have "h_spent h \<or> getHistory (w_store W) q n (h_store h) (h_disk h) \<noteq> None"
    unfolding getHistory_def using readable rev history_total by (metis option.distinct(1))
  from with_log_inv [where f = "getHistory (w_store W) q n", OF assms this] show "mesh_inv ids (snd (mesh_history_get W q n h))"
    by (simp add: mesh_history_get_def)
  assume "case peer of Some a \<Rightarrow> address_ok a | None \<Rightarrow> True"
  then obtain ph where "(case peer of None \<Rightarrow> Some 0 | Some a \<Rightarrow> hashPeer a) = Some ph"
    using hashPeer_ok by (fastforce simp: address_ok_def split: option.splits)
  then have "h_spent h \<or> getConversation (w_store W) (h_activeBackend h) peer ch q n (h_store h) (h_disk h) \<noteq> None"
    unfolding getConversation_def using readable rev conversation_total by (metis option.distinct(1) bind.bind_lunit)
  from with_log_inv [where f = "getConversation (w_store W) (h_activeBackend h) peer ch q n", OF assms this]
  show "mesh_inv ids (snd (mesh_conversation_get W peer ch q n h))" by (simp add: mesh_conversation_get_def)
qed

lemma send_text_inv:
  assumes "mesh_inv ids h" "case to of Some a \<Rightarrow> address_ok a | None \<Rightarrow> True"
  shows "mesh_inv ids (snd (mesh_send_text W to ch txt h))"
proof -
  have "message_wf (outgoing_message W to ch s h)" for s
    using assms(2) by (auto simp: outgoing_message_def Let_def message_wf_def MeshMessage_init_def address_ok_def mesh_sizes split: option.split)
  then have "mesh_inv ids (snd (store_add W (outgoing_message W to ch s h) h))" for s
    by (rule keeps_inv [OF assms(1) store_add_keeps [OF inv_data [OF assms(1)]]])
  with assms(1) show ?thesis by (auto simp: mesh_send_text_def case_prod_beta split: option.split intro: emit_inv)
qed

lemma cancel_inv: "mesh_inv ids h \<Longrightarrow> mesh_inv ids (snd (mesh_cancel W q h))"
  by (auto simp: mesh_cancel_def case_prod_beta intro: setDelivery_inv keeps_inv [OF _ store_get_keeps [OF inv_data]])

lemma addContact_inv: "mesh_inv ids h \<Longrightarrow> length (addr_bytes a) = MESH_ADDRESS_MAX_LENGTH \<Longrightarrow> mesh_inv ids (snd (addContact W a nm rename h))"
  by (rule keeps_inv [OF _ addContact_keeps]) (simp_all add: inv_data)

lemma remove_contact_inv:
  assumes "mesh_inv ids h"
  shows "mesh_inv ids (snd (mesh_remove_contact W a h))"
proof -
  have "list_all saved_contact_ok (take i (h_contacts h) @ drop (i + 1) (h_contacts h))"
    "length (take i (h_contacts h) @ drop (i + 1) (h_contacts h)) \<le> MAX_CONTACTS" for i
    using inv_data [OF assms] by (auto simp: data_ok_def list_all_iff dest: in_set_takeD in_set_dropD)
  then have "keeps h (saveContacts W (h\<lparr>h_contacts := take i (h_contacts h) @ drop (i + 1) (h_contacts h)\<rparr>))" for i
    using contacts_update_keeps saveContacts_keeps keeps_data_trans by blast
  then show ?thesis using assms keeps_inv [OF assms] by (auto simp: mesh_remove_contact_def Let_def split: option.split intro!: emit_inv)
qed

lemma subs_inv: "mesh_inv ids h \<Longrightarrow> subs_ok (h\<lparr>g_subs := subs, g_subscriptions := ps\<rparr>) \<Longrightarrow> mesh_inv ids (h\<lparr>g_subs := subs, g_subscriptions := ps\<rparr>)"
  by (simp add: mesh_inv_defs data_ok_def sane_def log_ok_def queue_ok_def)

lemma subscribe_inv:
  assumes "mesh_inv ids h"
  shows "mesh_inv ids (snd (snd (mesh_event_subscribe os sub tg g h)))"
proof -
  have "subs_ok h" using inv_data [OF assms] by (simp add: data_ok_def)
  then show ?thesis using assms
    by (auto simp: mesh_event_subscribe_def subs_ok_def ring_ok_def service_sizes split: prod.split intro!: subs_inv)
qed

lemma unsubscribe_inv:
  assumes "mesh_inv ids h"
  shows "mesh_inv ids (snd (snd (mesh_event_unsubscribe os sub g h)))"
proof -
  have s: "subs_ok h" using inv_data [OF assms] by (simp add: data_ok_def)
  have "subs_ok (h\<lparr>g_subs := g_subs h, g_subscriptions := remove1 sub (g_subscriptions h)\<rparr>)"
    using s by (auto simp: subs_ok_def dest: notin_set_remove1)
  from subs_inv [OF assms this] show ?thesis using assms by (simp add: mesh_event_unsubscribe_def)
qed

lemma poll_inv:
  assumes "mesh_inv ids h"
  shows "mesh_inv ids (snd (mesh_event_poll p h))"
proof -
  have s: "subs_ok h" using inv_data [OF assms] by (simp add: data_ok_def)
  let ?s = "(g_subs h p)\<lparr>sub_head := (sub_head (g_subs h p) + 1) mod MESH_EVENT_QUEUE_CAPACITY, sub_count := sub_count (g_subs h p) - 1\<rparr>"
  have "subs_ok (h\<lparr>g_subs := (g_subs h)(p := ?s), g_subscriptions := g_subscriptions h\<rparr>)"
    using s by (auto simp: subs_ok_def ring_ok_def service_sizes)
  from subs_inv [OF assms this] show ?thesis using assms by (simp add: mesh_event_poll_def Let_def)
qed


lemma setState_subs:
  assumes "subs_ok h"
  obtains subs signals where "setState W st h = h\<lparr>h_state := st, g_subs := subs, g_signals := signals\<rparr>"
proof (cases "h_state h = st")
  case True
  then show ?thesis using that [of "g_signals h" "g_subs h"] by (simp add: setState_def)
next
  case False
  have "subs_ok (h\<lparr>h_state := st\<rparr>)" using assms by (simp add: subs_ok_def)
  then obtain subs signals where "emitEvent W MESH_EVENT_STATE st 0 DELIVERY_RECEIVED (h\<lparr>h_state := st\<rparr>) = h\<lparr>h_state := st, g_subs := subs, g_signals := signals\<rparr>"
    using queueEvent_subs_ok(2) unfolding emitEvent_def by fastforce
  with False that show ?thesis by (simp add: setState_def)
qed

section \<open>Steps and runs\<close>

text \<open>What can happen while the service runs. \<open>Op_AddContactEnd\<close> and \<open>Op_ChannelEnd\<close>: the second parts of calls that waited.\<close>

datatype 'g mesh_op =
  Op_Begin | Op_Turn "(byte list \<times> signal) list" "(32 word \<times> RadioTransmissionState) list"
| Op_Register ptr | Op_Unregister ptr | Op_SetEnabled bool | Op_SetNodeName "byte list option" | Op_SetRadio "byte list option"
| Op_SetBackend "byte list" | Op_SetPreset "byte list" | Op_PresetCount | Op_Available | Op_GetRadio nat | Op_GetBackend nat
| Op_SendText "MeshAddress option" byte "byte list option" | Op_Cancel "32 word" | Op_RawSend "byte list" "byte list"
| Op_MessageGet "32 word" | Op_HistoryGet "32 word" nat | Op_ConversationGet "MeshAddress option" byte "32 word" nat
| Op_AddContact MeshAddress | Op_AddContactEnd MeshAddress "byte list option" bool | Op_RemoveContact MeshAddress
| Op_ContactUri "MeshAddress option" nat | Op_GetChannels nat | Op_SetChannel MeshChannel | Op_RemoveChannel byte | Op_ChannelEnd error_t
| Op_Subscribe "'g freertos" ptr ptr "'g TaskEventGroup" | Op_Unsubscribe "'g freertos" ptr "'g TaskEventGroup" | Op_Poll ptr

fun mesh_step :: "'b mesh_world \<Rightarrow> 'g mesh_op \<Rightarrow> 'b mesh \<Rightarrow> 'b mesh" where
  "mesh_step W Op_Begin h = thread_begin W h"
| "mesh_step W (Op_Turn rx tx) h = thread_turn W rx tx h"
| "mesh_step W (Op_Register p) h = snd (mesh_backend_register W p h)"
| "mesh_step W (Op_Unregister p) h = snd (mesh_backend_unregister p h)"
| "mesh_step W (Op_SetEnabled e) h = snd (mesh_set_enabled W e h)"
| "mesh_step W (Op_SetNodeName nm) h = snd (mesh_set_node_name W nm h)"
| "mesh_step W (Op_SetRadio nm) h = snd (mesh_set_radio W nm h)"
| "mesh_step W (Op_SetBackend bid) h = snd (mesh_set_backend W bid h)"
| "mesh_step W (Op_SetPreset nm) h = snd (mesh_set_preset W nm h)"
| "mesh_step W Op_PresetCount h = snd (mesh_get_preset_count W h)"
| "mesh_step W Op_Available h = snd (mesh_is_available W h)"
| "mesh_step W (Op_GetRadio n) h = snd (mesh_get_radio W n h)"
| "mesh_step W (Op_GetBackend n) h = snd (mesh_get_backend W n h)"
| "mesh_step W (Op_SendText to ch s) h = snd (mesh_send_text W to ch s h)"
| "mesh_step W (Op_Cancel q) h = snd (mesh_cancel W q h)"
| "mesh_step W (Op_RawSend bid bs) h = snd (mesh_raw_send bid bs h)"
| "mesh_step W (Op_MessageGet q) h = snd (mesh_message_get W q h)"
| "mesh_step W (Op_HistoryGet q n) h = snd (mesh_history_get W q n h)"
| "mesh_step W (Op_ConversationGet peer ch q n) h = snd (mesh_conversation_get W peer ch q n h)"
| "mesh_step W (Op_AddContact a) h = snd (mesh_add_contact a h)"
| "mesh_step W (Op_AddContactEnd a nm valid) h = snd (mesh_add_contact_end W a nm valid h)"
| "mesh_step W (Op_RemoveContact a) h = snd (mesh_remove_contact W a h)"
| "mesh_step W (Op_ContactUri a n) h = snd (mesh_get_contact_uri a n h)"
| "mesh_step W (Op_GetChannels n) h = snd (mesh_get_channels n h)"
| "mesh_step W (Op_SetChannel c) h = snd (mesh_set_channel c h)"
| "mesh_step W (Op_RemoveChannel i) h = snd (mesh_remove_channel i h)"
| "mesh_step W (Op_ChannelEnd e) h = snd (mesh_channel_end W e h)"
| "mesh_step W (Op_Subscribe os sub tg g) h = snd (snd (mesh_event_subscribe os sub tg g h))"
| "mesh_step W (Op_Unsubscribe os sub g) h = snd (snd (mesh_event_unsubscribe os sub g h))"
| "mesh_step W (Op_Poll p) h = snd (mesh_event_poll p h)"

text \<open>Apps pass addresses that are addresses.\<close>

fun typed_op :: "'g mesh_op \<Rightarrow> bool" where
  "typed_op (Op_SendText to ch s) \<longleftrightarrow> (case to of Some a \<Rightarrow> address_ok a | None \<Rightarrow> True)"
| "typed_op (Op_ConversationGet peer ch q n) \<longleftrightarrow> (case peer of Some a \<Rightarrow> address_ok a | None \<Rightarrow> True)"
| "typed_op (Op_AddContactEnd a nm valid) \<longleftrightarrow> length (addr_bytes a) = MESH_ADDRESS_MAX_LENGTH"
| "typed_op _ \<longleftrightarrow> True"

fun mesh_run :: "('b mesh_world \<times> 'g mesh_op) list \<Rightarrow> 'b mesh \<Rightarrow> 'b mesh" where
  "mesh_run [] h = h"
| "mesh_run ((W, c) # cs) h = mesh_run cs (mesh_step W c h)"

lemma mesh_step_inv:
  assumes "mesh_inv ids h" "world_ok ids W" "typed_op c"
  shows "mesh_inv ids (mesh_step W c h)"
proof (cases c)
  case (Op_ConversationGet peer ch q n)
  with query_inv(3) [OF assms(1)] assms(3) show ?thesis by simp
next
  case (Op_SendText to ch s)
  with send_text_inv [OF assms(1)] assms(3) show ?thesis by simp
next
  case Op_Begin
  with configure_step [OF assms(1,2)] show ?thesis by (simp add: thread_begin_def)
qed (use assms in \<open>auto simp: thread_turn_inv mesh_backend_register_def mesh_backend_unregister_def mesh_set_enabled_def
    mesh_set_node_name_def mesh_set_radio_def mesh_set_backend_def mesh_set_preset_def mesh_get_preset_count_def mesh_get_backend_def cancel_inv mesh_raw_send_def
    mesh_add_contact_def mesh_add_contact_end_def addContact_inv remove_contact_inv mesh_get_contact_uri_def mesh_get_channels_def mesh_set_channel_def
    mesh_remove_channel_def mesh_channel_end_def emitChannelChanged_def emit_inv subscribe_inv unsubscribe_inv poll_inv query_inv Let_def case_prod_beta
    preset_backend_inv split: option.split intro: keeps_inv [OF _ presetsApply_keeps(2)] keeps_inv [OF _ presetsApply_keeps(3)]\<close>)

lemma mesh_run_inv:
  assumes "mesh_inv ids h" "\<forall>(W, c) \<in> set cs. world_ok ids W \<and> typed_op c"
  shows "mesh_inv ids (mesh_run cs h)"
  using assms by (induction cs arbitrary: h) (auto simp: mesh_step_inv)


section \<open>Starting and stopping\<close>

lemma load_loop_ok:
  "length cs \<le> MAX_CONTACTS \<Longrightarrow> list_all saved_contact_ok cs \<Longrightarrow>
   length (load_loop bs cs) \<le> MAX_CONTACTS \<and> list_all saved_contact_ok (load_loop bs cs)"
proof (induction bs cs rule: load_loop.induct)
  case (1 bs cs)
  show ?case
  proof (cases "length cs \<ge> MAX_CONTACTS \<or> length bs < MESH_CONTACT_SIZE")
    case True
    then show ?thesis using "1.prems" by (subst (1 2) load_loop.simps) auto
  next
    case False
    let ?c = "terminate_contact (contact_of_bytes (take MESH_CONTACT_SIZE bs))"
    have "string_ok MESH_BACKEND_ID_MAX_LENGTH (ct_backend ?c)" "string_ok MESH_NAME_MAX_LENGTH (ct_name ?c)"
      "length (addr_bytes (ct_address ?c)) = MESH_ADDRESS_MAX_LENGTH"
      using False by (simp_all add: terminate_contact_def contact_of_bytes_def MESH_CONTACT_SIZE_def mesh_sizes string_ok_def)
    then have ok: "saved_contact_ok ?c" if "0 < addr_length (ct_address ?c)" "unat (addr_length (ct_address ?c)) \<le> MESH_ADDRESS_MAX_LENGTH"
      using that by (simp add: saved_contact_ok_def address_ok_def)
    let ?cs = "if 0 < addr_length (ct_address ?c) \<and> unat (addr_length (ct_address ?c)) \<le> MESH_ADDRESS_MAX_LENGTH then cs @ [?c] else cs"
    have "load_loop bs cs = load_loop (drop MESH_CONTACT_SIZE bs) ?cs"
      using False by (subst load_loop.simps) (simp add: Let_def)
    moreover have "length ?cs \<le> MAX_CONTACTS" "list_all saved_contact_ok ?cs" using False "1.prems" ok by auto
    ultimately show ?thesis using "1.IH" [OF False refl] by simp
  qed
qed


text \<open>The files of a log that ran before, whenever it was cut off, or none.\<close>

definition log_disk :: "string \<Rightarrow> disk \<Rightarrow> bool" where
  "log_disk path fs \<longleftrightarrow> (\<forall>n. fs (getSegmentPath path n) = None) \<or> (\<exists>s. log_states path DEFAULT_LIMITS s fs)"

lemma DEFAULT_LIMITS_ok: "limits_ok DEFAULT_LIMITS"
  by (simp add: limits_ok_def DEFAULT_LIMITS_def)

lemma log_disk_opens:
  assumes "log_disk path fs" "opens io path fs"
  shows "\<exists>s ms. MeshStore_open io path (MeshStore_new DEFAULT_LIMITS) fs = Some (ERROR_NONE, s, fs) \<and> log_rel fs s ms"
proof -
  have new: "buffer (MeshStore_new DEFAULT_LIMITS) = None" "limits (MeshStore_new DEFAULT_LIMITS) = DEFAULT_LIMITS" by (simp_all add: MeshStore_new_def)
  from assms(1) show ?thesis unfolding log_disk_def
  proof
    assume "\<forall>n. fs (getSegmentPath path n) = None"
    from open_first [OF assms(2) this new(1)] DEFAULT_LIMITS_ok show ?thesis unfolding new(2) by blast
  next
    assume "\<exists>s. log_states path DEFAULT_LIMITS s fs"
    then obtain s where s: "log_states path DEFAULT_LIMITS s fs" by blast
    then obtain ms where "log_rel fs s ms" using log_states_inv DEFAULT_LIMITS_ok by blast
    from log_states_restart [OF s DEFAULT_LIMITS_ok this assms(2) new] show ?thesis by blast
  qed
qed

lemma onStart_inv:
  assumes "subs_ok h" "h_refs h = 0" "\<not> h_aborted h" "log_disk path (h_disk h)" "opens (w_store W) path (h_disk h)"
    and start: "onStart W bits (Some path) started (createService h) = (ERROR_NONE, h')"
  shows "mesh_inv ids h' \<and> g_service h' \<and> h_running h' \<and> h_state h' = MESH_STATE_OFF"
proof -
  let ?h = "createService h"
  obtain s ms where s: "MeshStore_open (w_store W) path (MeshStore_new DEFAULT_LIMITS) (h_disk h) = Some (ERROR_NONE, s, h_disk h)"
    "log_rel (h_disk h) s ms" using log_disk_opens [OF assms(4,5)] by blast
  let ?h1 = "loadContacts W (?h\<lparr>h_store := s\<rparr>)"
  have o: "store_open W path ?h = (ERROR_NONE, ?h\<lparr>h_store := s\<rparr>)" using s(1) by (simp add: store_open_def createService_def)
  have "length (load_loop bs []) \<le> MAX_CONTACTS \<and> list_all saved_contact_ok (load_loop bs [])" for bs by (rule load_loop_ok) simp_all
  then have d1: "data_ok ?h1" "backend_off ?h1" "h_radio ?h1 = None" "h_state ?h1 = MESH_STATE_OFF"
    using assms(1-3) s(2)
    by (auto simp: loadContacts_def createService_def data_ok_def sane_def log_ok_def subs_ok_def queue_ok_def mesh_inv_defs split: bool.split option.split)
  obtain ok h2 where a: "attachRadio W ?h1 = (ok, h2)" by fastforce
  have h2: "data_ok h2" "backend_off h2" "h_state h2 = MESH_STATE_OFF" using attachRadio_off [OF d1(1-3), of W] a d1(4) by auto
  then have i2: "mesh_inv ids h2" by (simp add: mesh_inv_def)
  let ?h3 = "ensureSettingsLoaded W h2"
  have k: "keeps h2 ?h3" by (rule settings_keeps)
  from start o a have "h' = ?h3\<lparr>g_service := True, h_running := True\<rparr>"
    by (auto simp: onStart_def Let_def split: if_splits)
  moreover have "mesh_inv ids (?h3\<lparr>g_service := True, h_running := True\<rparr>)"
    using keeps_inv [OF i2 k] by (simp add: mesh_inv_defs)
  ultimately show ?thesis using k h2(3) by (simp add: keeps_def same_thread_def)
qed

lemma store_close_frame:
  assumes "data_ok h"
  shows "\<exists>s fs b. store_close W h = (spend h)\<lparr>h_store := s, h_disk := fs, h_aborted := b\<rparr> \<and> (b \<longrightarrow> h_spent (store_close W h))"
proof (cases "MeshStore_close (w_store W) (h_store h) (h_disk h)")
  case None
  then have "flush (w_store W) (h_store h) (h_disk h) = None" "buffer (h_store h) \<noteq> None" 
    by (auto simp: MeshStore_close_def Option.bind_eq_None_conv split: if_splits prod.splits)
  then have "keeps h (abort (spend h))" using store_step_sane(1) [OF assms, of Flush "w_store W"] by simp
  then have "h_spent (spend h)" using assms by (auto simp: keeps_def data_ok_def sane_def abort_def)
  with None show ?thesis
    by (intro exI [of _ "h_store h"] exI [of _ "h_disk h"] exI [of _ True]) (simp add: store_close_def abort_def spend_def)
next
  case (Some r)
  obtain s fs where r: "r = (s, fs)" by (cases r)
  have "h_aborted h \<longrightarrow> h_spent h" using assms by (auto simp: data_ok_def sane_def)
  with Some r show ?thesis
    by (intro exI [of _ s] exI [of _ fs] exI [of _ "h_aborted h"]) (auto simp: store_close_def spend_def)
qed

lemma onStop_clean:
  assumes "mesh_inv ids h" "world_ok ids W"
  shows "let h' = onStop W h in h_radio h' = None \<and> \<not> h_radioAcquired h' \<and> h_refs h' = 0 \<and> h_api h' = None \<and> h_state h' = MESH_STATE_OFF \<and>
    \<not> g_service h' \<and> (h_aborted h' \<longrightarrow> h_spent h')"
proof -
  let ?h0 = "h\<lparr>g_service := False, h_running := False\<rparr>" and ?h1 = "thread_end W (h\<lparr>g_service := False, h_running := False\<rparr>)"
  have i0: "mesh_inv ids ?h0" using assms(1) by (simp add: mesh_inv_defs)
  have h1: "data_ok ?h1" "backend_off ?h1" using thread_end_off [OF i0 assms(2)] by blast+
  obtain s fs b where c: "store_close W ?h1 = (spend ?h1)\<lparr>h_store := s, h_disk := fs, h_aborted := b\<rparr>" "b \<longrightarrow> h_spent (store_close W ?h1)"
    using store_close_frame [OF h1(1), of W] by blast
  have "g_service ?h1 = g_service (runCalls W ?h0)" and "g_service (runCalls W ?h0) = False"
    using runCalls_inv [OF i0 assms(2)] deactivate_off [OF inv_data inv_off_or_up assms(2), of ids "runCalls W ?h0"]
    by (auto simp: thread_end_def same_queue_def)
  then have g: "\<not> g_service (store_close W ?h1)" by (simp add: c(1) spend_def)
  have "subs_ok (store_close W ?h1)" using h1(1) by (simp add: c(1) spend_def data_ok_def subs_ok_def)
  then obtain subs signals where q: "setState W MESH_STATE_OFF (store_close W ?h1) = (store_close W ?h1)\<lparr>h_state := MESH_STATE_OFF, g_subs := subs, g_signals := signals\<rparr>"
    by (rule setState_subs)
  show ?thesis unfolding onStop_def stop_begin_def Let_def q using h1(2) c g
    by (auto simp: detachRadio_def Let_def device_put_radio_def log_radio_def mesh_inv_defs spend_def split: if_splits)
qed


section \<open>The service is safe\<close>

text \<open>
  C1: the mesh service never dereferences a null pointer or leaves an array, in any run from its start: turns of the thread and calls of apps in any order and with
  any arguments, with any answers of radio, files and clock, and with any backends that pass on addresses of at most their 32 bytes (until the 32 bit
  numbers of messages or segments are used up). At every moment the transmit queue, the retries, the heard nodes and the contacts are within their bounds; the state is on exactly while a backend is
  active; and an active backend has a radio that the service owns and, for LoRa, a region. Stopping gives back the radio and the only reference to it.
\<close>

theorem mesh_service_safe:
  assumes "subs_ok h" "h_refs h = 0" "\<not> h_aborted h" "log_disk path (h_disk h)" "opens (w_store W) path (h_disk h)"
    and "onStart W bits (Some path) started (createService h) = (ERROR_NONE, h1)"
    and "\<forall>(W, c) \<in> set cs. world_ok ids W \<and> typed_op c" "world_ok ids W'"
  shows "let h' = mesh_run cs h1 in
    (h_aborted h' \<longrightarrow> h_spent h') \<and>
    length (h_txQueue h') \<le> 17 \<and> (\<forall>f\<in>set (h_txQueue h'). 0 < length (f_data f) \<and> length (f_data f) \<le> 255 \<and> f_busyRetries f \<le> 3) \<and>
    length (h_nodes h') \<le> 128 \<and> length (h_contacts h') \<le> 64 \<and> subs_ok h' \<and>
    (h_state h' = MESH_STATE_ON \<longleftrightarrow> h_api h' \<noteq> None) \<and> (h_txInFlight h' \<longrightarrow> h_api h' \<noteq> None) \<and>
    (h_api h' \<noteq> None \<longrightarrow> (\<exists>r. h_radio h' = Some r \<and> h_radioAcquired h' \<and> (usesLora r \<longrightarrow> h_appliedRegion h' \<noteq> REGION_UNSET))) \<and>
    h_refs h' = (if h_radio h' = None then 0 else 1) \<and>
    (let h'' = onStop W' h' in h_radio h'' = None \<and> \<not> h_radioAcquired h'' \<and> h_refs h'' = 0 \<and> h_api h'' = None \<and> h_state h'' = MESH_STATE_OFF \<and>
      \<not> g_service h'' \<and> (h_aborted h'' \<longrightarrow> h_spent h''))"
proof -
  have "mesh_inv ids h1" using onStart_inv [OF assms(1-6)] by blast
  from mesh_run_inv [OF this assms(7)] have i: "mesh_inv ids (mesh_run cs h1)" .
  then have q: "list_all frame_ok (h_txQueue (mesh_run cs h1))" "length (h_txQueue (mesh_run cs h1)) \<le> 17"
    by (simp_all add: mesh_inv_def data_ok_def queue_ok_def service_sizes)
  show ?thesis
    unfolding Let_def using i q onStop_clean [OF i assms(8)]
    by (auto simp: mesh_inv_defs data_ok_def sane_def frame_ok_def list_all_iff service_sizes Let_def)
qed

text \<open>A small backend: it sends a text as it is.\<close>

definition demo_api :: "nat MeshBackendApi" where
  "demo_api = \<lparr>b_id = bytes_of ''demo'', b_presets = [], b_create = Done (Some 0), b_destroy = (\<lambda>b. Done ()),
     b_get_radio_profile = (\<lambda>b r m p. Done (b, ERROR_NONE, MeshRadioProfile_init\<lparr>modulation := m, frequency := 869525000\<rparr>)),
     b_on_start = (\<lambda>b. Done (b, ())), b_on_receive = (\<lambda>b bs sig. Done (b + 1, True)), b_on_tick = (\<lambda>b. Done (b, ())),
     b_send_text = (\<lambda>b q to ch s. Host (Transmit s q) (\<lambda>e. Done (b, e))), b_get_channels = None, b_set_channel = None, b_get_contact_uri = None,
     b_is_valid_contact_address = None, b_on_node_name_changed = None, b_remove_channel = None\<rparr>"

definition demo_radio :: radio_device where
  "demo_radio = \<lparr>rd_name = bytes_of ''sx1262'', rd_ready = True, rd_lora = True, rd_espnow = False, rd_get = ERROR_NONE\<rparr>"

definition demo_answers :: radio_answers where
  "demo_answers = \<lparr>ra_set_enabled = (\<lambda>_. ERROR_NONE), ra_modulation = (\<lambda>_. ERROR_NONE), ra_parameter = (\<lambda>_ _. ERROR_NONE), ra_acquire = ERROR_NONE,
     ra_rx_subscribe = ERROR_NONE, ra_tx_subscribe = ERROR_NONE, ra_region = REGION_EU_868, ra_state = (ERROR_NONE, RADIO_STATE_ON),
     ra_transmit = (\<lambda>bs. (ERROR_NONE, 7))\<rparr>"

definition demo_store_io :: store_io where
  "demo_store_io = \<lparr>long_bits = 32, made = ERROR_NONE, memory = True, listing = Some [], readable_bytes = (\<lambda>p. Some 0),
     appendable_bytes = (\<lambda>p. None), stat_works = (\<lambda>p. True), remove_works = (\<lambda>p. True)\<rparr>"

definition demo_world :: "64 word \<Rightarrow> nat mesh_world" where
  "demo_world t = \<lparr>w_api = (\<lambda>_. demo_api), w_micros = t, w_time = 1800000000, w_store = demo_store_io, w_settings = some_settings_io,
     w_contacts = \<lparr>ci_path = True, ci_directory = True, ci_made = ERROR_NONE, ci_readable = Some 1000, ci_writable = Some 1000\<rparr>,
     w_radios = [demo_radio], w_radio = demo_answers, w_airtime = (\<lambda>p n. 100)\<rparr>"

definition demo_boot :: "nat mesh" where
  "demo_boot = (mesh_boot (\<lambda>_. demo_subscription) Map.empty Map.empty None)\<lparr>g_backends := [1]\<rparr>"

definition demo_run :: "(nat mesh_world \<times> unit mesh_op) list" where
  "demo_run = [(demo_world 0, Op_Begin), (demo_world 2000000, Op_SendText None 0 (Some (bytes_of ''hello''))), (demo_world 3000000, Op_Turn [] [])]"

lemma demo_world_ok: "world_ok (\<lambda>_. bytes_of ''demo'') (demo_world t)"
  by (simp add: world_ok_def demo_world_def demo_api_def lawful_api_def)

lemma demo_boot_ok: "subs_ok demo_boot" "h_refs demo_boot = 0" "\<not> h_aborted demo_boot" "h_disk demo_boot = Map.empty"
  by (simp_all add: demo_boot_def mesh_boot_def createService_def subs_ok_def demo_subscription_def service_sizes)

lemma demo_opens: "opens (w_store (demo_world t)) ''/data'' Map.empty"
  by (simp add: demo_world_def demo_store_io_def opens_def lists_segments_def reads_all_def)

lemma demo_starts: "fst (onStart (demo_world t) (0, 0) (Some ''/data'') True (createService demo_boot)) = ERROR_NONE"
proof -
  obtain s ms where "MeshStore_open (w_store (demo_world t)) ''/data'' (MeshStore_new DEFAULT_LIMITS) Map.empty = Some (ERROR_NONE, s, Map.empty)"
    using log_disk_opens [OF _ demo_opens] by (auto simp: log_disk_def)
  then show ?thesis by (simp add: onStart_def store_open_def createService_def demo_boot_def mesh_boot_def Let_def)
qed

theorem mesh_service_safe_witness:
  "length (h_txQueue (mesh_run demo_run (snd (onStart (demo_world 0) (0, 0) (Some ''/data'') True (createService demo_boot))))) \<le> 17"
proof -
  let ?h1 = "snd (onStart (demo_world 0) (0, 0) (Some ''/data'') True (createService demo_boot))"
  have s: "onStart (demo_world 0) (0, 0) (Some ''/data'') True (createService demo_boot) = (ERROR_NONE, ?h1)"
    using demo_starts [of 0] by (metis prod.collapse)
  have d: "log_disk ''/data'' (h_disk demo_boot)" "opens (w_store (demo_world 0)) ''/data'' (h_disk demo_boot)"
    using demo_opens by (simp_all add: log_disk_def demo_boot_ok)
  have r: "\<forall>(W, c) \<in> set demo_run. world_ok (\<lambda>_. bytes_of ''demo'') W \<and> typed_op c"
    using demo_world_ok by (simp add: demo_run_def)
  show ?thesis using mesh_service_safe [OF demo_boot_ok(1-3) d s r demo_world_ok [of 0]] by (simp only: Let_def)
qed


end
