(* ===== verification/Mesh_Demo.thy ===== *)
theory Mesh_Demo
  imports Mesh_Run
begin

text \<open>A small run of the mesh service in full: its states from the start to a backend that is active, on which the examples of other theories rest.\<close>

definition demo_log :: MeshStore where
  "demo_log = (MeshStore_new DEFAULT_LIMITS)\<lparr>directory := ''/data'', buffer := Some [], segments := [0], currentSegmentSize := 0\<rparr>"

text \<open>A device that has loaded the settings; then its service has started, and then its thread has begun.\<close>

definition demo_loaded :: "nat mesh" where "demo_loaded = demo_boot\<lparr>g_settingsLoaded := True\<rparr>"

definition demo_started :: "nat mesh" where
  "demo_started = demo_loaded\<lparr>h_store := demo_log, h_radio := Some demo_radio, h_rxSubscribed := True, h_txSubscribed := True, h_refs := 1,
     g_service := True, h_running := True\<rparr>"

definition demo_profile :: MeshRadioProfile where
  "demo_profile = MeshRadioProfile_init\<lparr>modulation := MODULATION_LORA, frequency := 869525000\<rparr>"

definition demo_setup :: "radio_call list" where
  "demo_setup = [RadioAcquire, RadioEnabled False, RadioModulate MODULATION_LORA] @ map (\<lambda>(p, v). RadioParam p v) (profile_parameters demo_profile) @
     [RadioParam PARAMETER_LBT 1, RadioEnabled True]"

definition demo_on :: "nat mesh" where
  "demo_on = demo_started\<lparr>h_radioAcquired := True, h_api := Some 1, h_backend := Some 0, h_profile := demo_profile, h_appliedRegion := REGION_EU_868,
     h_activeBackend := bytes_of ''demo'', h_state := MESH_STATE_ON, h_radio_log := demo_setup\<rparr>"

lemmas demo_defs = demo_loaded_def demo_boot_def mesh_boot_def createService_def

lemma demo_log_opens: "MeshStore_open demo_store_io ''/data'' (MeshStore_new DEFAULT_LIMITS) Map.empty = Some (ERROR_NONE, demo_log, Map.empty)"
  by (simp add: demo_log_def MeshStore_open_def MeshStore_close_def demo_store_io_def MeshStore_new_def DEFAULT_LIMITS_def Let_def)

lemma demo_world_sel [simp]:
  "w_api (demo_world t) p = demo_api" "w_micros (demo_world t) = t" "w_time (demo_world t) = 1800000000" "w_store (demo_world t) = demo_store_io"
  "w_radios (demo_world t) = [demo_radio]" "w_radio (demo_world t) = demo_answers" "w_airtime (demo_world t) profile n = 100"
  by (simp_all add: demo_world_def)

lemma demo_findRadio: "g_settingsLoaded h \<Longrightarrow> st_radio (g_settings h) = [] \<Longrightarrow> findRadio (demo_world t) h = (Some demo_radio, h\<lparr>h_refs := h_refs h + 1\<rparr>)"
  by (simp add: findRadio_def ensureSettingsLoaded_def chosen_radio_def isMeshRadio_def usesLora_def demo_radio_def Let_def)

lemma demo_start: "onStart (demo_world t) (ERROR_NONE, ERROR_NONE) (Some ''/data'') True (createService demo_loaded) = (ERROR_NONE, demo_started)"
proof -
  let ?h = "createService demo_loaded"
  have o: "store_open (demo_world t) ''/data'' ?h = (ERROR_NONE, ?h\<lparr>h_store := demo_log\<rparr>)"
    by (simp add: store_open_def demo_defs demo_log_opens)
  have l: "loadContacts (demo_world t) (?h\<lparr>h_store := demo_log\<rparr>) = ?h\<lparr>h_store := demo_log\<rparr>"
    by (simp add: loadContacts_def demo_defs split: bool.split option.split)
  have s: "g_settingsLoaded ?h" "st_radio (g_settings ?h) = []" by (simp_all add: demo_defs MeshSettings_init_def)
  have a: "attachRadio (demo_world t) (?h\<lparr>h_store := demo_log\<rparr>) = (True, demo_started\<lparr>g_service := False, h_running := False\<rparr>)"
    using demo_findRadio [of "?h\<lparr>h_store := demo_log\<rparr>" t] s
    by (simp add: attachRadio_def attach_to_def demo_answers_def) (simp add: demo_started_def demo_defs)
  show ?thesis unfolding onStart_def Let_def using o l a
    by (simp add: ensureSettingsLoaded_def) (simp add: demo_started_def demo_defs)
qed

lemma demo_begin: "thread_begin (demo_world t) demo_started = demo_on"
proof -
  have d: "deactivateBackend (demo_world t) demo_started = demo_started" by (simp add: deactivateBackend_def demo_started_def demo_defs)
  let ?h = "(log_radio RadioAcquire demo_started)\<lparr>h_radioAcquired := True\<rparr>"
  have s: "h_radio demo_started = Some demo_radio" "\<not> h_radioAcquired demo_started" "st_backend (g_settings demo_started) = []" "g_backends demo_started = [1]"
    by (simp_all add: demo_started_def demo_defs MeshSettings_init_def)
  have c: "configure (demo_world t) demo_started = activate (demo_world t) demo_radio 1 (findPreset demo_api (st_preset (g_settings ?h))) ?h"
    using s by (simp add: configure_def Let_def d getSelectedBackend_def log_radio_def demo_answers_def)
  show ?thesis
    by (simp add: thread_begin_def c activate_def start_backend_def Let_def)
      (simp add: applyProfile_def profile_parameters_def log_radio_def demo_started_def demo_defs demo_api_def demo_answers_def demo_radio_def usesLora_def
        on_backend_def resubmitPending_def store_outgoing_def findOutgoing_def demo_on_def demo_setup_def demo_profile_def demo_log_def MeshStore_new_def
        setState_def emitEvent_def queueEvent_def Let_def MeshRadioProfile_init_def mesh_sizes bytes_of_def)
qed

text \<open>A frame is handed to the backend's network as it is, and sent.\<close>

lemma demo_on_sel [simp]: "h_running demo_on" "h_calls demo_on = []" "h_api demo_on = Some 1" "h_backend demo_on = Some 0" "g_service demo_on"
  "h_radio demo_on = Some demo_radio" "\<not> h_txInFlight demo_on" "h_txQueue demo_on = []" "h_airtime demo_on = []" "h_lastTickMs demo_on = 0"
  "h_radio_log demo_on = demo_setup" "h_profile demo_on = demo_profile" "h_appliedRegion demo_on = REGION_EU_868" "h_store demo_on = demo_log" "h_disk demo_on = Map.empty"
  "h_rxSubscribed demo_on" "h_txSubscribed demo_on" "g_backends demo_on = [1]" "h_state demo_on = MESH_STATE_ON" "g_subscriptions demo_on = []"
  by (simp_all add: demo_on_def demo_started_def demo_defs)

lemma demo_sent: "sent demo_setup = []"
  by (simp add: demo_setup_def profile_parameters_def)

lemma demo_duty: "modulation demo_profile = MODULATION_LORA" "frequency demo_profile = 869525000"
  by (simp_all add: demo_profile_def)

lemma demo_loaded_ok: "subs_ok demo_loaded" "h_refs demo_loaded = 0" "\<not> h_aborted demo_loaded" "log_disk ''/data'' (h_disk demo_loaded)"
  "opens (w_store (demo_world t)) ''/data'' (h_disk demo_loaded)" "h_radio_log demo_loaded = []" "g_backends demo_loaded = [1]"
  using demo_boot_ok demo_opens [of t] by (simp_all add: demo_loaded_def subs_ok_def log_disk_def) (simp_all add: demo_defs)

end
