(* ===== verification/Mesh_Calls.thy ===== *)
theory Mesh_Calls
  imports Mesh_Demo
begin

text \<open>
  What the functions for apps leave alone: backend, air time and radio belong to the service thread, which they only post work for.
\<close>

text \<open>The first part is left alone; functions for apps only append to the second.\<close>

definition core :: "'b mesh \<Rightarrow> (AirtimeRecord list \<times> AirtimeRecord list \<times> ptr option \<times> ptr list \<times> bool \<times> bool) \<times> work list" where
  "core h = ((h_airtime h, sent (h_radio_log h), h_api h, g_backends h, g_service h, h_running h), h_calls h)"

lemma core_update [simp]:
  "core (h\<lparr>g_settings := a\<rparr>) = core h" "core (h\<lparr>g_files := b\<rparr>) = core h"
  "core (h\<lparr>h_answer := e\<rparr>) = core h" "core (h\<lparr>h_contacts := f\<rparr>) = core h" "core (h\<lparr>h_contacts_file := g\<rparr>) = core h" "core (h\<lparr>h_refs := i\<rparr>) = core h"
  "core (h\<lparr>g_subs := j\<rparr>) = core h" "core (h\<lparr>g_subscriptions := k\<rparr>) = core h" "core (h\<lparr>g_signals := l\<rparr>) = core h" "core (h\<lparr>h_store := m\<rparr>) = core h"
  "core (h\<lparr>h_disk := n\<rparr>) = core h" "core (h\<lparr>h_aborted := x\<rparr>) = core h" "core (h\<lparr>h_spent := y\<rparr>) = core h" "core (h\<lparr>g_settingsLoaded := z\<rparr>) = core h"
  "core (h\<lparr>h_lastTickMs := t\<rparr>) = core h" "core (h\<lparr>h_txInFlight := u\<rparr>) = core h" "core (h\<lparr>h_txQueue := v\<rparr>) = core h" "core (h\<lparr>h_txFrame := w\<rparr>) = core h"
  "core (abort h) = core h" "core (spend h) = core h" "core (post o' h) = (fst (core h), snd (core h) @ [o'])"
  by (simp_all add: core_def post_def abort_def spend_def)

lemma core_queue_loop [simp]: "core (queue_loop e ps h) = core h"
  by (induction ps arbitrary: h) (simp_all add: Let_def)

lemma core_emit [simp]: "core (emitEvent W t st q d h) = core h" "core (emitFrame W st k n sig from nm h) = core h"
  by (simp_all add: emitEvent_def emitFrame_def queueEvent_def)

lemma core_store [simp]: "core (snd (store_add W m h)) = core h" "core (snd (store_get W q h)) = core h" "core (setDelivery W q d h) = core h"
  by (simp_all add: store_add_def store_get_def setDelivery_def Let_def split: option.split prod.split)

lemma core_settings [simp]: "core (ensureSettingsLoaded W h) = core h" "core (snd (save_settings W h)) = core h"
  by (simp_all add: ensureSettingsLoaded_def save_settings_def split: prod.split)

lemma core_radio [simp]: "core (snd (findRadio W h)) = core h" "core (device_put_radio h) = core h"
  using core_settings [of W h] by (simp_all add: findRadio_def device_put_radio_def Let_def split: option.split)

lemma core_preset [simp]: "core (snd (presetsApply W h)) = core h" "core (snd (preset_backend W h)) = core h" "core (snd (mesh_is_available W h)) = core h"
  "core (snd (mesh_get_radio W n h)) = core h"
proof -
  have f: "findRadio W h = (r, g) \<Longrightarrow> core g = core h" for r g using core_radio(1) [of W h] by simp
  then show p: "core (snd (presetsApply W h)) = core h" and "core (snd (mesh_is_available W h)) = core h" and "core (snd (mesh_get_radio W n h)) = core h"
    by (auto simp: presetsApply_def mesh_is_available_def mesh_get_radio_def split: prod.split option.split)
  then show "core (snd (preset_backend W h)) = core h"
    by (simp add: preset_backend_def Let_def case_prod_beta)
qed

lemma core_contacts [simp]: "core (saveContacts W h) = core h" "core (snd (addContact W a nm r h)) = core h"
proof -
  show s: "core (saveContacts W g) = core g" for g by (simp add: saveContacts_def Let_def split: option.split)
  show "core (snd (addContact W a nm r h)) = core h" by (simp add: addContact_def Let_def s split: option.split)
qed

lemma core_with_log [simp]: "core (snd (with_log f h)) = core h"
  by (simp add: with_log_def split: option.split)

lemma core_message_get [simp]: "core (snd (mesh_message_get W q h)) = core h"
proof -
  obtain e r g where g: "with_log (MeshStore_get (w_store W) q) h = ((e, r), g)" by (metis surj_pair)
  then have "core g = core h" using core_with_log [of "MeshStore_get (w_store W) q" h] by simp
  then show ?thesis by (simp add: mesh_message_get_def g split: option.split prod.split)
qed

lemma call_core:
  assumes "c \<noteq> Op_Begin" "\<And>rx tx. c \<noteq> Op_Turn rx tx" "\<And>p. c \<noteq> Op_Register p" "\<And>p. c \<noteq> Op_Unregister p"
  shows "fst (core (mesh_step W c h)) = fst (core h) \<and> (\<exists>ws. snd (core (mesh_step W c h)) = snd (core h) @ ws)"
  using assms
  by (cases c) (auto simp: mesh_set_enabled_def mesh_set_node_name_def
    mesh_set_radio_def mesh_set_backend_def mesh_set_preset_def mesh_get_preset_count_def mesh_get_backend_def mesh_send_text_def mesh_cancel_def mesh_raw_send_def
    mesh_history_get_def mesh_conversation_get_def mesh_add_contact_def mesh_add_contact_end_def mesh_remove_contact_def mesh_get_contact_uri_def
    mesh_get_channels_def mesh_set_channel_def mesh_remove_channel_def mesh_channel_end_def emitChannelChanged_def mesh_event_subscribe_def
    mesh_event_unsubscribe_def mesh_event_poll_def post_if_running_def callOnServiceThread_def Let_def case_prod_beta split: option.split)

section \<open>What the thread leaves alone unless it configures\<close>

lemma core_works: "works h h' \<Longrightarrow> core h' = core h"
  by (auto simp: works_def same_thread_def core_def)

lemma on_backend_core:
  assumes "mesh_inv ids h" "h_api h = Some p" "\<And>b. lawful (f (w_api W p) b)"
  shows "core (snd (on_backend W f h)) = core h"
proof -
  obtain b where b: "h_backend h = Some b" using assms(1,2) by (auto simp: mesh_inv_defs)
  show ?thesis by (rule core_works [OF on_backend_works(1) [where f = f, OF inv_data [OF assms(1)] assms(2) b assms(3)]])
qed

lemma onTxEvent_core [simp]: "core (onTxEvent W tid st h) = core h"
proof -
  obtain e m g where g: "store_get W (f_seq (h_txFrame h)) (h\<lparr>h_txInFlight := False\<rparr>) = ((e, m), g)" by (metis surj_pair)
  then have "core g = core h" using core_store(2) [of W "f_seq (h_txFrame h)" "h\<lparr>h_txInFlight := False\<rparr>"] by simp
  then show ?thesis by (simp add: onTxEvent_def Let_def g split: RadioTransmissionState.split)
qed

lemma drain_core:
  assumes "mesh_inv ids h" "world_ok ids W"
  shows "core (drainRadioEvents W rx tx h) = core h"
proof -
  have r: "core (on_radio_rx W ev g) = core g" if i: "mesh_inv ids g" for ev g
  proof (cases "h_api g")
    case (Some p)
    obtain bs sig where e: "ev = (bs, sig)" by (cases ev)
    have "lawful (b_on_receive (w_api W p) b bs sig)" for b using assms(2) by (cases sig) (simp add: world_ok_def lawful_api_def)
    from on_backend_core [where f = "\<lambda>api b. b_on_receive api b bs sig", OF i Some this]
    have "core (snd (on_backend W (\<lambda>api b. b_on_receive api b bs sig) g)) = core g" .
    then show ?thesis using Some e by (auto simp: on_radio_rx_def case_prod_beta)
  qed (cases ev, simp add: on_radio_rx_def)
  have rx: "mesh_inv ids g \<Longrightarrow> core (fold (on_radio_rx W) rx g) = core g" for g
  proof (induction rx arbitrary: g)
    case (Cons ev rx)
    from Cons.IH [OF on_radio_rx_inv [OF Cons.prems assms(2)]] r [OF Cons.prems] show ?case by simp
  qed simp
  have tx: "core (fold (\<lambda>(tid, st). onTxEvent W tid st) tx g) = core g" for g by (induction tx arbitrary: g) auto
  show ?thesis using rx [OF assms(1)] by (simp add: drainRadioEvents_def Let_def tx)
qed

section \<open>Starting\<close>

lemma attach_core: "core (snd (attachRadio W h)) = core h"
proof -
  obtain r g where g: "findRadio W h = (r, g)" by fastforce
  then have "core g = core h" using core_radio(1) [of W h] by simp
  then show ?thesis by (simp add: attachRadio_def g attach_to_def core_def split: option.split)
qed

lemma onStart_core:
  assumes "onStart W bits path started h = (ERROR_NONE, h')"
  shows "core h' = core (h\<lparr>g_service := True, h_running := True\<rparr>)"
proof -
  obtain dir where f: "path = Some dir" using assms by (auto simp: onStart_def split: option.splits if_splits)
  obtain e h1 where o: "store_open W dir h = (e, h1)" by fastforce
  then have a1: "core h1 = core h" by (auto simp: store_open_def split: option.splits prod.splits)
  have a2: "core (loadContacts W h1) = core h1" by (simp add: loadContacts_def split: bool.split option.split)
  let ?g = "ensureSettingsLoaded W (snd (attachRadio W (loadContacts W h1)))"
  have "h' = ?g\<lparr>g_service := True, h_running := True\<rparr>"
    using assms by (auto simp: onStart_def f o Let_def split: if_splits)
  moreover have "core ?g = core h" using a1 a2 by (simp add: attach_core)
  ultimately show ?thesis by (simp add: core_def)
qed

lemma mesh_run_append: "mesh_run (cs @ ds) h = mesh_run ds (mesh_run cs h)"
  by (induction cs arbitrary: h) auto

end
