(* ===== verification/Mesh_Duty.thy ===== *)
theory Mesh_Duty
  imports Mesh_Calls
begin

text \<open>
  The air time of the mesh service: what it records of the frames that it sent is enough to keep within the duty cycle of the region,
  whatever happens in between.
\<close>

section \<open>What sends nothing\<close>

definition air :: "'b mesh \<Rightarrow> AirtimeRecord list \<times> AirtimeRecord list" where
  "air h = (h_airtime h, sent (h_radio_log h))"

lemma core_air: "fst (core g) = fst (core h) \<Longrightarrow> air g = air h"
  by (simp add: core_def air_def)

lemma air_update [simp]: "air (h\<lparr>h_calls := d\<rparr>) = air h" "air (h\<lparr>h_answer := e\<rparr>) = air h" "air (h\<lparr>h_store := m\<rparr>) = air h"
  "air (h\<lparr>h_disk := n\<rparr>) = air h" "air (h\<lparr>h_lastTickMs := t\<rparr>) = air h" "air (h\<lparr>h_txInFlight := u\<rparr>) = air h" "air (h\<lparr>h_txQueue := v\<rparr>) = air h"
  "air (h\<lparr>h_txFrame := w\<rparr>) = air h" "air (h\<lparr>h_contacts := c\<rparr>) = air h" "air (h\<lparr>g_backends := b\<rparr>) = air h" "air (post o' h) = air h" "air (abort h) = air h" "air (spend h) = air h"
  "air (snd (callOnServiceThread q h)) = air h"
  by (simp_all add: air_def abort_def spend_def post_def callOnServiceThread_def)

lemma air_calls [simp]: "air (emitEvent W t st q d h) = air h" "air (emitFrame W st k n sig from nm h) = air h" "air (snd (store_get W q h)) = air h"
  "air (setDelivery W q d h) = air h" "air (ensureSettingsLoaded W h) = air h" "air (snd (findRadio W h)) = air h"
  by (rule core_air, simp)+

lemma call_air:
  assumes "c \<noteq> Op_Begin" "\<And>rx tx. c \<noteq> Op_Turn rx tx"
  shows "air (mesh_step W c h) = air h"
proof -
  consider p where "c = Op_Register p" | p where "c = Op_Unregister p" | "\<And>p. c \<noteq> Op_Register p" "\<And>p. c \<noteq> Op_Unregister p" by (cases c) auto
  then show ?thesis
  proof cases
    case 3
    with call_core [OF assms(1,2), of W h] show ?thesis by (intro core_air) simp
  qed (simp_all add: mesh_backend_register_def mesh_backend_unregister_def Let_def)
qed

section \<open>The thread before it sends\<close>

lemma same_queue_air: "same_queue h h' \<Longrightarrow> air h' = air h"
  by (simp add: same_queue_def air_def)

lemma drain_air: "mesh_inv ids h \<Longrightarrow> world_ok ids W \<Longrightarrow> air (drainRadioEvents W rx tx h) = air h"
  by (rule core_air) (simp add: drain_core)

lemma run_work_air:
  assumes "mesh_inv ids h" "world_ok ids W"
  shows "air (run_work W w h) = air h"
proof -
  have c: "air (configure W h) = air h" using configure_inv [OF inv_data [OF assms(1)] inv_off_or_up [OF assms(1)] assms(2)] same_queue_air by blast
  have r: "air (reselectRadio W h) = air h" using reselectRadio_inv [OF assms] same_queue_air by blast
  have s: "air (sendStored W q h) = air h" for q
    using works_queue [OF sendStored_works [OF inv_on_or_off [OF assms(1)] assms(2)]] by (rule same_queue_air)
  have a: "air (snd (on_backend W (\<lambda>_. f) h)) = air h"
    if "h_api h = Some p" "b_on_node_name_changed (w_api W p) = Some f" for p f
    using on_backend_inv [where f = "\<lambda>_. f" and W = W, OF assms(1) that(1)] sync_lawful(6) [OF assms(2) that(2)] same_queue_air by blast
  have y: "air (snd (run_sync W q h)) = air h" for q using run_sync_inv [OF assms, of q] same_queue_air by blast
  show ?thesis using c r s a y by (cases w) (auto simp: run_work_def case_prod_beta split: option.split)
qed

lemma runCalls_air:
  assumes "mesh_inv ids h" "world_ok ids W"
  shows "air (runCalls W h) = air h"
proof -
  have "mesh_inv ids g \<Longrightarrow> air (work_loop W ws g) = air g" for ws g
  proof (induction ws arbitrary: g)
    case (Cons w ws)
    have i: "mesh_inv ids (g\<lparr>h_calls := ws\<rparr>)" using Cons.prems by simp
    have "mesh_inv ids (run_work W w (g\<lparr>h_calls := ws\<rparr>))" using run_work_inv [OF i assms(2)] by blast
    from Cons.IH [OF this] run_work_air [OF i assms(2), of w] show ?case by simp
  qed simp
  with assms(1) show ?thesis by (simp add: runCalls_def)
qed

lemma configure_air: "mesh_inv ids h \<Longrightarrow> world_ok ids W \<Longrightarrow> air (configure W h) = air h"
  using configure_inv inv_data inv_off_or_up same_queue_air by blast

lemma attach_air: "air (snd (attachRadio W h)) = air h"
  by (rule core_air) (simp add: attach_core)

lemma setState_air: "air (setState W st h) = air h"
proof -
  have "air (h\<lparr>h_state := st\<rparr>) = air h" by (simp add: air_def)
  then show ?thesis by (simp add: setState_def)
qed

lemma flush_air: "air (flush_store W h) = air h"
  by (simp add: flush_store_def split: option.split prod.split)

lemma tick_air:
  assumes "mesh_inv ids h" "world_ok ids W"
  shows "air (tick W h) = air h"
proof -
  define h1 where "h1 = (if h_radio h = None then (case attachRadio W h of (True, h) \<Rightarrow> configure W h | (False, h) \<Rightarrow> h) else h)"
  define h2 where "h2 = (if h_radio h1 \<noteq> None \<and> h_radioAcquired h1 \<and> ra_region (w_radio W) \<noteq> h_appliedRegion h1 then configure W h1 else h1)"
  define h3 where "h3 = (if h_api h2 = None then h2 else if h_radio h2 = None then abort h2
    else if ra_state (w_radio W) = (ERROR_NONE, RADIO_STATE_ERROR) then setState W MESH_STATE_ERROR (deactivateBackend W h2) else h2)"
  define h4 where "h4 = (if h_api h3 = None then h3 else snd (on_backend W b_on_tick h3))"
  have i1: "mesh_inv ids h1" unfolding h1_def by (rule tick_attach [OF assms])
  have i2: "mesh_inv ids h2" unfolding h2_def using i1 configure_step [OF i1 assms(2)] by simp
  have i3: "mesh_inv ids h3" unfolding h3_def by (rule tick_state [OF i2 assms(2)])
  have a1: "air h1 = air h"
  proof (cases "h_radio h")
    case None
    then have off: "backend_off h" using assms(1) by (auto simp: mesh_inv_defs)
    obtain ok g where a: "attachRadio W h = (ok, g)" by fastforce
    have g: "data_ok g" "backend_off g" "air g = air h" using attachRadio_off [OF inv_data [OF assms(1)] off None, of W] attach_air [of W h] a by auto
    then have "air (configure W g) = air g" using configure_inv [OF g(1) _ assms(2)] same_queue_air by blast
    with g a None show ?thesis by (cases ok) (auto simp: h1_def)
  qed (simp add: h1_def)
  have a2: "air h2 = air h1" unfolding h2_def using configure_air [OF i1 assms(2)] by simp
  have "air (deactivateBackend W h2) = air h2"
    using deactivate_off [OF inv_data [OF i2] inv_off_or_up [OF i2] assms(2)] same_queue_air by blast
  then have a3: "air h3 = air h2" by (simp add: h3_def setState_air)
  have a4: "air h4 = air h3"
  proof (cases "h_api h3")
    case (Some p)
    have "lawful (b_on_tick (w_api W p) b)" for b using assms(2) by (simp add: world_ok_def lawful_api_def)
    from on_backend_inv [where f = b_on_tick, OF i3 Some this] Some show ?thesis by (auto simp: h4_def intro: same_queue_air)
  qed (simp add: h4_def)
  have "tick W h = flush_store W h4" unfolding tick_def Let_def h4_def h3_def h2_def h1_def ..
  then show ?thesis using a1 a2 a3 a4 by (simp add: flush_air)
qed

text \<open>A turn of the thread is something that sends nothing, and then \<open>pumpTx\<close>.\<close>

lemma turn_air:
  assumes "mesh_inv ids h" "world_ok ids W" "h_running h"
  obtains g where "thread_turn W rx tx h = pumpTx W g" "air g = air h"
proof -
  let ?g = "runCalls W (drainRadioEvents W rx tx h)"
  have d: "mesh_inv ids (drainRadioEvents W rx tx h)" "air (drainRadioEvents W rx tx h) = air h" using drainRadioEvents_inv [OF assms(1,2)] drain_air [OF assms(1,2)] .
  have g: "mesh_inv ids ?g" "air ?g = air h" using runCalls_inv [OF d(1) assms(2)] runCalls_air [OF d(1) assms(2)] d(2) by auto
  have "mesh_inv ids (?g\<lparr>h_lastTickMs := t\<rparr>)" for t using g(1) by (simp add: mesh_inv_defs)
  from tick_air [OF this assms(2)] have "air (tick W (?g\<lparr>h_lastTickMs := t\<rparr>)) = air h" for t using g(2) by simp
  note tick = this
  show ?thesis
  proof (cases "getMillis W - h_lastTickMs ?g \<ge> TICK_INTERVAL_MS")
    case True
    with assms(3) show ?thesis using that [OF _ tick] by (simp add: thread_turn_def Let_def)
  next
    case False
    with assms(3) show ?thesis using that [OF _ g(2)] by (simp add: thread_turn_def Let_def)
  qed
qed

section \<open>The record of air times\<close>

definition recent :: "64 word \<Rightarrow> AirtimeRecord list \<Rightarrow> AirtimeRecord list" where
  "recent now rs = filter (\<lambda>r. now - at_timeMs r \<le> of_nat DUTY_CYCLE_WINDOW_MS) rs"

definition used_ms :: "AirtimeRecord list \<Rightarrow> nat" where
  "used_ms rs = sum_list (map (unat \<circ> at_airtimeMs) rs)"

text \<open>What the service recorded until \<open>t\<close> are the frames that it sent, without some that are too old.\<close>

definition recorded :: "64 word \<Rightarrow> 'b mesh \<Rightarrow> bool" where
  "recorded t h \<longleftrightarrow> (\<exists>old. sent (h_radio_log h) = old @ h_airtime h \<and> recent t old = []) \<and> sorted (map at_timeMs (sent (h_radio_log h))) \<and>
     (\<forall>r\<in>set (sent (h_radio_log h)). at_timeMs r \<le> t)"

lemma minus_mono:
  fixes a :: "64 word"
  assumes "a \<le> t" "t \<le> t'"
  shows "t - a \<le> t' - a"
  using assms by (simp add: word_le_nat_alt unat_sub)

lemma recorded_later:
  assumes "recorded t h" "t \<le> t'"
  shows "recorded t' h"
proof -
  obtain old where o: "sent (h_radio_log h) = old @ h_airtime h" "recent t old = []" using assms(1) by (auto simp: recorded_def)
  have le: "at_timeMs r \<le> t" if "r \<in> set old" for r using assms(1) o(1) that by (auto simp: recorded_def)
  have "recent t' old = []"
    unfolding recent_def filter_empty_conv
  proof (intro ballI notI)
    fix r assume r: "r \<in> set old" "t' - at_timeMs r \<le> of_nat DUTY_CYCLE_WINDOW_MS"
    from minus_mono [OF le [OF r(1)] assms(2)] r(2) have "t - at_timeMs r \<le> of_nat DUTY_CYCLE_WINDOW_MS" by (rule order_trans)
    then show False using o(2) r(1) by (auto simp: recent_def filter_empty_conv)
  qed
  with o assms show ?thesis by (auto simp: recorded_def intro: order_trans)
qed

lemma recorded_air: "air g = air h \<Longrightarrow> recorded t g = recorded t h"
  by (simp add: air_def recorded_def)

text \<open>Records of a sorted list that are in the window are what is left after the old ones are dropped.\<close>

lemma prune_recent:
  assumes "sorted (map at_timeMs rs)" "\<forall>r\<in>set rs. at_timeMs r \<le> now"
  shows "prune_airtime now rs = recent now rs"
  using assms
proof (induction rs)
  case (Cons r rs)
  show ?case
  proof (cases "now - at_timeMs r > of_nat DUTY_CYCLE_WINDOW_MS")
    case True
    with Cons show ?thesis by (simp add: prune_airtime_def recent_def)
  next
    case False
    have "now - at_timeMs q \<le> of_nat DUTY_CYCLE_WINDOW_MS" if "q \<in> set rs" for q
    proof -
      have "at_timeMs r \<le> at_timeMs q" "at_timeMs q \<le> now" using Cons.prems that by auto
      then have "now - at_timeMs q \<le> now - at_timeMs r" by (simp add: word_le_nat_alt unat_sub)
      with False show ?thesis by (simp add: not_less order_trans)
    qed
    then have "filter (\<lambda>r. now - at_timeMs r \<le> of_nat DUTY_CYCLE_WINDOW_MS) rs = rs" by (simp add: filter_id_conv)
    with False show ?thesis by (simp add: prune_airtime_def recent_def not_less)
  qed
qed (simp_all add: prune_airtime_def recent_def)

lemma send_front_air:
  assumes "send_front W a f h = h'"
  shows "air h' = air h \<or> h_airtime h' = h_airtime h @ [\<lparr>at_timeMs = getMillis W, at_airtimeMs = a\<rparr>] \<and>
    sent (h_radio_log h') = sent (h_radio_log h) @ [\<lparr>at_timeMs = getMillis W, at_airtimeMs = a\<rparr>] \<and> duty_cycle h' = duty_cycle h"
proof -
  let ?h = "h\<lparr>h_dutyCycleLogged := False, h_txFrame := f, h_txQueue := tl (h_txQueue h)\<rparr>"
  obtain e tid where t: "ra_transmit (w_radio W) (f_data f) = (e, tid)" by fastforce
  have "air ?h = air h" by (simp add: air_def)
  then show ?thesis unfolding assms [symmetric]
    by (simp add: send_front_def Let_def t) (simp add: air_def log_radio_def duty_cycle_def)
qed

text \<open>What \<open>pumpTx\<close> does to the record, and when it sends within a region with a limit.\<close>

lemma pump_recorded:
  assumes "recorded t h" "t \<le> getMillis W"
  shows "recorded (getMillis W) (pumpTx W h) \<and> (sent (h_radio_log (pumpTx W h)) = sent (h_radio_log h) \<or>
    (\<exists>a. sent (h_radio_log (pumpTx W h)) = sent (h_radio_log h) @ [\<lparr>at_timeMs = getMillis W, at_airtimeMs = a\<rparr>] \<and>
      (duty_cycle (pumpTx W h) < 100 \<longrightarrow>
        unat (sum_list (map at_airtimeMs (recent (getMillis W) (sent (h_radio_log h)))) + a) \<le> DUTY_CYCLE_WINDOW_MS * duty_cycle (pumpTx W h) div 100)))"
proof -
  let ?now = "getMillis W"
  have r: "recorded ?now h" using recorded_later [OF assms] .
  then obtain old where o: "sent (h_radio_log h) = old @ h_airtime h" "recent ?now old = []" by (auto simp: recorded_def)
  have p: "prune_airtime ?now (h_airtime h) = recent ?now (h_airtime h)" "recent ?now (sent (h_radio_log h)) = recent ?now (h_airtime h)"
    using r o by (auto simp: recorded_def sorted_append recent_def intro!: prune_recent [unfolded recent_def])
  define h1 where "h1 = h\<lparr>h_airtime := recent ?now (h_airtime h)\<rparr>"
  have drop: "h_airtime h = takeWhile (\<lambda>r. ?now - at_timeMs r > of_nat DUTY_CYCLE_WINDOW_MS) (h_airtime h) @ recent ?now (h_airtime h)"
    unfolding p(1) [symmetric] prune_airtime_def by simp
  have r1: "recorded ?now h1"
  proof -
    let ?old = "old @ takeWhile (\<lambda>r. ?now - at_timeMs r > of_nat DUTY_CYCLE_WINDOW_MS) (h_airtime h)"
    have "recent ?now ?old = []" using o(2) by (auto simp: recent_def filter_empty_conv dest: set_takeWhileD)
    moreover have "sent (h_radio_log h1) = ?old @ h_airtime h1" using o(1) drop by (simp add: h1_def)
    ultimately show ?thesis using r by (auto simp: recorded_def h1_def)
  qed
  have send: "recorded ?now (send_front W a f g) \<and> (sent (h_radio_log (send_front W a f g)) = sent (h_radio_log g) \<or>
      sent (h_radio_log (send_front W a f g)) = sent (h_radio_log g) @ [\<lparr>at_timeMs = ?now, at_airtimeMs = a\<rparr>] \<and> duty_cycle (send_front W a f g) = duty_cycle g)"
    if g: "recorded ?now g" for a f g
    using send_front_air [OF refl, of W a f g]
  proof
    assume s: "air (send_front W a f g) = air g"
    then have "sent (h_radio_log (send_front W a f g)) = sent (h_radio_log g)" by (simp add: air_def)
    with g recorded_air [OF s] show ?thesis by simp
  next
    assume s: "h_airtime (send_front W a f g) = h_airtime g @ [\<lparr>at_timeMs = ?now, at_airtimeMs = a\<rparr>] \<and>
      sent (h_radio_log (send_front W a f g)) = sent (h_radio_log g) @ [\<lparr>at_timeMs = ?now, at_airtimeMs = a\<rparr>] \<and> duty_cycle (send_front W a f g) = duty_cycle g"
    with g show ?thesis by (auto simp: recorded_def sorted_append)
  qed
  let ?f = "hd (h_txQueue h)"
  let ?a = "w_airtime W (h_profile h) (length (f_data ?f))"
  have d1: "duty_cycle h1 = duty_cycle h" "h_radio_log h1 = h_radio_log h" by (simp_all add: h1_def duty_cycle_def)
  consider "pumpTx W h = h" | "pumpTx W h = h1\<lparr>h_dutyCycleLogged := True\<rparr>" | "\<not> duty_cycle h < 100" "pumpTx W h = send_front W ?a ?f h"
    | "unat (sum_list (map at_airtimeMs (recent ?now (h_airtime h))) + ?a) \<le> DUTY_CYCLE_WINDOW_MS * duty_cycle h div 100" "pumpTx W h = send_front W ?a ?f h1"
  proof (cases "h_txInFlight h \<or> h_txQueue h = [] \<or> h_api h = None")
    case True
    with that(1) show ?thesis by (simp add: pumpTx_def)
  next
    case False
    then obtain p where "h_api h = Some p" by auto
    with False have "pumpTx W h = (if duty_cycle h < 100
        then if unat (sum_list (map at_airtimeMs (recent ?now (h_airtime h))) + ?a) > DUTY_CYCLE_WINDOW_MS * duty_cycle h div 100
          then h1\<lparr>h_dutyCycleLogged := True\<rparr> else send_front W ?a ?f h1
        else send_front W ?a ?f h)"
      unfolding h1_def p(1) [symmetric] by (simp add: pumpTx_def Let_def getAirtimeUsedMs_def)
    with that show ?thesis by (meson not_less)
  qed
  then show ?thesis
  proof cases
    case 1
    with r show ?thesis by simp
  next
    case 2
    have "recorded ?now (h1\<lparr>h_dutyCycleLogged := True\<rparr>) = recorded ?now h1" by (rule recorded_air) (simp add: air_def)
    with 2 r1 show ?thesis by (simp add: h1_def)
  next
    case 3
    with send [OF r, of ?a ?f] show ?thesis by (auto simp: not_less)
  next
    case 4
    with send [OF r1, of ?a ?f] p(2) d1 show ?thesis by auto
  qed
qed

lemma step_recorded:
  assumes "mesh_inv ids h" "world_ok ids W" "recorded t h" "t \<le> getMillis W"
  shows "recorded (getMillis W) (mesh_step W c h)"
proof -
  consider "c = Op_Begin" | rx tx where "c = Op_Turn rx tx" | "c \<noteq> Op_Begin" "\<And>rx tx. c \<noteq> Op_Turn rx tx" by (cases c) auto
  then show ?thesis
  proof cases
    case 1
    then show ?thesis using recorded_air [OF configure_air [OF assms(1,2)]] recorded_later [OF assms(3,4)] by (simp add: thread_begin_def)
  next
    case 2
    show ?thesis
    proof (cases "h_running h")
      case True
      from turn_air [OF assms(1,2) True, where rx = rx and tx = tx] obtain g where g: "thread_turn W rx tx h = pumpTx W g" "air g = air h" by blast
      with pump_recorded [OF _ assms(4), of g] assms(3) show ?thesis using recorded_air [OF g(2)] by (simp add: 2 g(1))
    next
      case False
      with recorded_later [OF assms(3,4)] show ?thesis by (simp add: 2 thread_turn_def)
    qed
  next
    case 3
    from recorded_air [OF call_air [OF 3, of W h]] recorded_later [OF assms(3,4)] show ?thesis by simp
  qed
qed

lemma run_recorded:
  assumes "mesh_inv ids h" "\<forall>(W, c) \<in> set cs. world_ok ids W \<and> typed_op c" "recorded t h" "sorted (t # map (getMillis \<circ> fst) cs)"
    "\<forall>x \<in> set (t # map (getMillis \<circ> fst) cs). x \<le> t'"
  shows "recorded t' (mesh_run cs h)"
  using assms
proof (induction cs arbitrary: h t)
  case Nil
  then show ?case using recorded_later by simp
next
  case (Cons a cs)
  obtain W c where a: "a = (W, c)" by fastforce
  have i: "mesh_inv ids (mesh_step W c h)" using mesh_step_inv Cons.prems(1,2) a by fastforce
  have r: "recorded (getMillis W) (mesh_step W c h)" using step_recorded [OF Cons.prems(1) _ Cons.prems(3)] Cons.prems(2,4) a by auto
  have "\<forall>(W, c) \<in> set cs. world_ok ids W \<and> typed_op c" "sorted (getMillis W # map (getMillis \<circ> fst) cs)"
    "\<forall>x \<in> set (getMillis W # map (getMillis \<circ> fst) cs). x \<le> t'" using Cons.prems(2,4,5) by (simp_all add: a comp_def)
  from Cons.IH [OF i this(1) r this(2,3)] have "recorded t' (mesh_run cs (mesh_step W c h))" .
  then show ?case by (simp add: a)
qed

lemma used_sum:
  assumes "used_ms rs < 2 ^ 32"
  shows "used_ms rs = unat (sum_list (map at_airtimeMs rs))"
  using assms
proof (induction rs)
  case (Cons r rs)
  then have "unat (at_airtimeMs r) + unat (sum_list (map at_airtimeMs rs)) < 2 ^ 32" by (simp add: used_ms_def)
  then have "unat (at_airtimeMs r + sum_list (map at_airtimeMs rs)) = unat (at_airtimeMs r) + unat (sum_list (map at_airtimeMs rs))"
    by (simp add: unat_word_ariths)
  with Cons show ?case by (simp add: used_ms_def)
qed (simp add: used_ms_def)

section \<open>The duty cycle\<close>

text \<open>
  C3: the service keeps within the duty cycle. In any run from its start, with a clock that does not go back: whenever a turn of the thread sends a frame, then it is one
  frame, and what the radio sent within the last hour, this frame included, takes no more than the share of the hour that the region allows
  at that moment (1 or 10 percent), however often region, backend, radio and settings changed before. The frames of the hour take less than \<open>2 ^ 32\<close> ms together, which is 49 days.
\<close>

theorem duty_cycle_respected:
  assumes "subs_ok h" "h_refs h = 0" "\<not> h_aborted h" "log_disk path (h_disk h)" "opens (w_store W0) path (h_disk h)" "h_radio_log h = []"
    and "onStart W0 bits (Some path) started (createService h) = (ERROR_NONE, h1)"
    and "\<forall>(W, c) \<in> set (cs @ [(W, Op_Turn rx tx)]). world_ok ids W \<and> typed_op c"
    and "sorted (map (getMillis \<circ> fst) (cs @ [(W, Op_Turn rx tx)]))"
    and "let before = sent (h_radio_log (mesh_run cs h1)); h' = mesh_run (cs @ [(W, Op_Turn rx tx)]) h1; log = sent (h_radio_log h') in
      log \<noteq> before \<and> duty_cycle h' < 100 \<and> used_ms (recent (getMillis W) log) < 2 ^ 32"
  shows "let before = sent (h_radio_log (mesh_run cs h1)); h' = mesh_run (cs @ [(W, Op_Turn rx tx)]) h1; log = sent (h_radio_log h') in
      length log = length before + 1 \<and> used_ms (recent (getMillis W) log) \<le> 3600000 * duty_cycle h' div 100"
proof -
  let ?h2 = "mesh_run cs h1"
  have i1: "mesh_inv ids h1" using onStart_inv [OF assms(1-5,7)] by blast
  have ok: "\<forall>(W, c) \<in> set cs. world_ok ids W \<and> typed_op c" "world_ok ids W" using assms(8) by auto
  have i2: "mesh_inv ids ?h2" by (rule mesh_run_inv [OF i1 ok(1)])
  have "air h1 = ([], [])" using onStart_core [OF assms(7)] assms(6) by (simp add: air_def core_def createService_def)
  then have "recorded 0 h1" by (simp add: air_def recorded_def recent_def)
  then have r2: "recorded (getMillis W) ?h2" by (rule run_recorded [OF i1 ok(1)]) (use assms(9) in \<open>auto simp: sorted_append\<close>)
  have run: "mesh_run (cs @ [(W, Op_Turn rx tx)]) h1 = thread_turn W rx tx ?h2" by (simp add: mesh_run_append)
  have running: "h_running ?h2" 
  proof (rule ccontr)
    assume "\<not> h_running ?h2"
    then have "thread_turn W rx tx ?h2 = ?h2" by (simp add: thread_turn_def)
    with assms(10) show False unfolding run Let_def by simp
  qed
  from turn_air [OF i2 ok(2) running, where rx = rx and tx = tx] obtain g where g: "thread_turn W rx tx ?h2 = pumpTx W g" "air g = air ?h2" by blast
  have s: "sent (h_radio_log g) = sent (h_radio_log ?h2)" using g(2) by (simp add: air_def)
  have rg: "recorded (getMillis W) g" using r2 recorded_air [OF g(2)] by simp
  obtain a where a: "sent (h_radio_log (pumpTx W g)) = sent (h_radio_log ?h2) @ [\<lparr>at_timeMs = getMillis W, at_airtimeMs = a\<rparr>]"
    "unat (sum_list (map at_airtimeMs (recent (getMillis W) (sent (h_radio_log ?h2)))) + a) \<le> DUTY_CYCLE_WINDOW_MS * duty_cycle (pumpTx W g) div 100"
    using pump_recorded [OF rg order_refl] assms(10) unfolding run g(1) s Let_def by blast
  have "recent (getMillis W) (sent (h_radio_log (pumpTx W g))) = recent (getMillis W) (sent (h_radio_log ?h2)) @ [\<lparr>at_timeMs = getMillis W, at_airtimeMs = a\<rparr>]"
    by (simp add: a(1) recent_def)
  with a used_sum [of "recent (getMillis W) (sent (h_radio_log (pumpTx W g)))"] assms(10) show ?thesis
    unfolding run g(1) Let_def by (simp add: DUTY_CYCLE_WINDOW_MS_def)
qed

theorem duty_cycle_respected_witness:
  "let W = demo_world 3000; h' = mesh_run [(demo_world 0, Op_Begin), (demo_world 2000, Op_RawSend (bytes_of ''demo'') [1, 2, 3]), (W, Op_Turn [] [])] demo_started;
     log = sent (h_radio_log h') in used_ms (recent (getMillis W) log) = 100 \<and> used_ms (recent (getMillis W) log) \<le> 3600000 * duty_cycle h' div 100"
proof -
  let ?cs = "[(demo_world 0, Op_Begin :: unit mesh_op), (demo_world 2000, Op_RawSend (bytes_of ''demo'') [1, 2, 3])]"
  let ?W = "demo_world 3000"
  have h2: "mesh_run ?cs demo_started = demo_on\<lparr>h_answer := None, h_calls := [Do_Sync (Sync_RawSend (bytes_of ''demo'') [1, 2, 3])]\<rparr>"
    by (simp add: demo_begin mesh_raw_send_def callOnServiceThread_def post_def RADIO_RX_MAX_PACKET_LENGTH_def)
  have api: "b_id demo_api = bytes_of ''demo''" by (simp add: demo_api_def)
  have h3: "sent (h_radio_log (mesh_run (?cs @ [(?W, Op_Turn [] [])]) demo_started)) = [\<lparr>at_timeMs = 3, at_airtimeMs = 100\<rparr>] \<and>
      duty_cycle (mesh_run (?cs @ [(?W, Op_Turn [] [])]) demo_started) = 10"
    unfolding mesh_run_append h2
    by (simp add: thread_turn_def drainRadioEvents_def runCalls_def run_work_def run_sync_def mesh_host_transmit_def api getMillis_def TICK_INTERVAL_MS_def
      RADIO_RX_MAX_PACKET_LENGTH_def TX_QUEUE_LIMIT_def pumpTx_def duty_cycle_def demo_duty mesh_airtime_duty_cycle_percent_def getAirtimeUsedMs_def prune_airtime_def
      send_front_def demo_answers_def log_radio_def DUTY_CYCLE_WINDOW_MS_def demo_sent Let_def)
  have ok: "\<forall>(W, c) \<in> set (?cs @ [(?W, Op_Turn [] [])]). world_ok (\<lambda>_. bytes_of ''demo'') W \<and> typed_op c"
    "sorted (map (getMillis \<circ> fst) (?cs @ [(?W, Op_Turn [] [])]))"
    using demo_world_ok by (simp_all add: getMillis_def)
  have "used_ms (recent (getMillis ?W) [\<lparr>at_timeMs = 3, at_airtimeMs = 100\<rparr>]) = 100" by (simp add: used_ms_def recent_def getMillis_def)
  moreover have "sent (h_radio_log (mesh_run ?cs demo_started)) = []" unfolding h2 by (simp add: demo_sent)
  ultimately show ?thesis
    using duty_cycle_respected [OF demo_loaded_ok(1-6) demo_start ok] h3 by (simp add: Let_def)
qed

end
