(* ===== verification/Mesh_Registry.thy ===== *)
theory Mesh_Registry
  imports Mesh_Calls
begin

text \<open>
  A backend that was unregistered is released: the service uses only registered backends, but for one whose release was posted to the
  thread and is still to be done.
\<close>

section \<open>The active backend is known\<close>

definition known :: "'b mesh \<Rightarrow> work list \<Rightarrow> bool" where
  "known h ws \<longleftrightarrow> (\<forall>p. h_api h = Some p \<longrightarrow> p \<in> set (g_backends h) \<or> Do_Sync (Sync_Unregister p) \<in> set ws)"

lemma core_known: "fst (core g) = fst (core h) \<Longrightarrow> known g ws = known h ws"
  by (simp add: known_def core_def)

lemma known_calls [simp]: "known (h\<lparr>h_calls := c\<rparr>) ws = known h ws" "known (h\<lparr>h_answer := a\<rparr>) ws = known h ws" "known (h\<lparr>h_lastTickMs := t\<rparr>) ws = known h ws"
  by (simp_all add: known_def)

lemma configure_known:
  assumes "mesh_inv ids h" "world_ok ids W"
  shows "known (configure W h) ws \<and> g_backends (configure W h) = g_backends h \<and> h_calls (configure W h) = h_calls h"
  using configure_inv [OF inv_data [OF assms(1)] inv_off_or_up [OF assms(1)] assms(2)] by (auto simp: known_def same_queue_def)

lemma none_known: "h_api h = None \<Longrightarrow> known h ws"
  by (simp add: known_def)

lemma setState_off_core:
  assumes "data_ok h" "backend_off h"
  shows "h_api (setState W st h) = None"
  using setState_data(2) [OF assms(1), where W = W and st = st] assms(2) by (simp add: same_thread_def backend_off_def)

lemma reselect_known:
  assumes "mesh_inv ids h" "world_ok ids W"
  shows "known (reselectRadio W h) ws \<and> g_backends (reselectRadio W h) = g_backends h"
proof -
  let ?h1 = "detachRadio (deactivateBackend W h)"
  have h1: "data_ok ?h1" "backend_off ?h1" "h_radio ?h1 = None" "same_queue h ?h1"
    using detachRadio_off deactivate_off [OF inv_data [OF assms(1)] inv_off_or_up [OF assms(1)] assms(2)] same_queue_trans by blast+
  obtain ok h2 where a: "attachRadio W ?h1 = (ok, h2)" by fastforce
  then have h2: "data_ok h2" "backend_off h2" "same_queue h h2" using attachRadio_off [OF h1(1-3), of W] h1(4) by (auto intro: same_queue_trans)
  from h2(2) have "backend_off h2 \<or> backend_up h2" by blast
  from configure_inv [OF h2(1) this assms(2)] have "known (configure W h2) ws" "g_backends (configure W h2) = g_backends h2"
    by (auto simp: known_def same_queue_def)
  moreover have "g_backends (setState W MESH_STATE_NO_RADIO h2) = g_backends h2" using setState_queue [OF h2(1)] by (simp add: same_queue_def)
  ultimately show ?thesis using a h2(3) none_known [OF setState_off_core [OF h2(1,2)]]
    by (cases ok) (simp_all add: reselectRadio_def same_queue_def)
qed

lemma run_sync_known:
  assumes "mesh_inv ids h" "world_ok ids W" "known h (Do_Sync q # ws)"
  shows "known (snd (run_sync W q h)) ws"
proof (cases "\<exists>p. q = Sync_Unregister p")
  case True
  then show ?thesis using configure_known [OF assms(1,2), of ws] assms(3) by (auto simp: run_sync_def known_def split: if_splits)
next
  case False
  have k: "known h ws" using assms(3) False by (auto simp: known_def)
  have b: "core (snd (on_backend W (\<lambda>_. g) h)) = core h" if "h_api h = Some p" "\<And>b. lawful (g b)" for p g
    by (rule on_backend_core [where f = "\<lambda>_. g", OF assms(1) that])
  have t: "core (snd (mesh_host_transmit bs 0 h)) = core h" for bs by (simp add: mesh_host_transmit_def)
  note lawful = sync_lawful [OF assms(2)]
  have "core (snd (run_sync W q h)) = core h"
  proof (cases "h_api h")
    case None
    with False show ?thesis by (cases q) (simp_all add: run_sync_def)
  next
    case (Some p)
    with False show ?thesis
      by (cases q) (auto simp: run_sync_def case_prod_beta t lawful b [OF Some] split: option.split)
  qed
  with k show ?thesis using core_known by metis
qed

lemma run_work_known:
  assumes "mesh_inv ids h" "world_ok ids W" "known h (w # ws)"
  shows "known (run_work W w h) ws"
proof -
  have same: ?thesis if "core (run_work W w h) = core h" "\<And>q. w \<noteq> Do_Sync q"
    using assms(3) that by (auto simp: known_def core_def)
  show ?thesis
  proof (cases w)
    case Do_Configure
    with configure_known [OF assms(1,2)] show ?thesis by (simp add: run_work_def)
  next
    case Do_ReselectRadio
    with reselect_known [OF assms(1,2)] show ?thesis by (simp add: run_work_def)
  next
    case (Do_SendStored q)
    with core_works [OF sendStored_works [OF inv_on_or_off [OF assms(1)] assms(2)]] show ?thesis by (intro same) (simp_all add: run_work_def)
  next
    case (Do_EraseFrames q)
    then show ?thesis by (intro same) (simp_all add: run_work_def)
  next
    case Do_AnnounceName
    have "core (snd (on_backend W (\<lambda>_. f) h)) = core h" if "h_api h = Some p" "b_on_node_name_changed (w_api W p) = Some f" for p f
      using on_backend_core [where f = "\<lambda>_. f", OF assms(1) that(1)] sync_lawful(6) [OF assms(2) that(2)] by blast
    with Do_AnnounceName show ?thesis by (intro same) (auto simp: run_work_def split: option.split)
  next
    case (Do_Sync q)
    with run_sync_known [OF assms(1,2)] assms(3) show ?thesis by (simp add: run_work_def case_prod_beta)
  qed
qed

lemma run_work_backends:
  assumes "mesh_inv ids h" "world_ok ids W"
  shows "g_backends (run_work W w h) = g_backends h \<and> h_running (run_work W w h) = h_running h"
proof -
  note c = configure_inv [OF inv_data [OF assms(1)] inv_off_or_up [OF assms(1)] assms(2)] and r = reselectRadio_inv [OF assms]
  have s: "same_queue h (sendStored W q h)" for q
    using sendStored_works [OF inv_on_or_off [OF assms(1)] assms(2)] works_queue by blast
  have a: "same_queue h (snd (on_backend W (\<lambda>_. f) h))"
    if "h_api h = Some p" "b_on_node_name_changed (w_api W p) = Some f" for p f
    using on_backend_inv [where f = "\<lambda>_. f" and W = W, OF assms(1) that(1)] sync_lawful(6) [OF assms(2) that(2)] by blast
  have y: "same_queue h (snd (run_sync W q h))" for q using run_sync_inv [OF assms] by blast
  show ?thesis using c r s a y by (cases w) (auto simp: run_work_def same_queue_def case_prod_beta split: option.split)
qed

lemma work_loop_known:
  assumes "mesh_inv ids h" "world_ok ids W" "known h ws"
  shows "known (work_loop W ws h) [] \<and> g_backends (work_loop W ws h) = g_backends h \<and> h_running (work_loop W ws h) = h_running h"
  using assms(1,3)
proof (induction ws arbitrary: h)
  case (Cons w ws)
  let ?h = "h\<lparr>h_calls := ws\<rparr>"
  have i: "mesh_inv ids ?h" using Cons.prems(1) by simp
  have k: "known (run_work W w ?h) ws" using run_work_known [OF i assms(2), of w ws] Cons.prems(2) by simp
  have "mesh_inv ids (run_work W w ?h)" using run_work_inv [OF i assms(2)] by blast
  from Cons.IH [OF this k] run_work_backends [OF i assms(2), of w] show ?case by simp
qed simp

section \<open>A turn of the thread\<close>

definition flags :: "'b mesh \<Rightarrow> ptr list \<times> bool \<times> bool \<times> work list" where
  "flags h = (g_backends h, g_service h, h_running h, h_calls h)"

lemma flags_same: "same_queue h h' \<Longrightarrow> flags h' = flags h" "core h' = core h \<Longrightarrow> flags h' = flags h"
  by (simp_all add: flags_def same_queue_def core_def)

lemma known_flags: "known h ws \<Longrightarrow> g_backends h = g_backends g \<Longrightarrow> h_api h = h_api g \<Longrightarrow> known g ws"
  by (simp add: known_def)

lemma flags_backends: "flags g = flags h \<Longrightarrow> g_backends g = g_backends h"
  by (simp add: flags_def)

lemma tick_known:
  assumes "mesh_inv ids h" "world_ok ids W" "known h []"
  shows "known (tick W h) [] \<and> flags (tick W h) = flags h"
proof -
  define h1 where "h1 = (if h_radio h = None then (case attachRadio W h of (True, h) \<Rightarrow> configure W h | (False, h) \<Rightarrow> h) else h)"
  define h2 where "h2 = (if h_radio h1 \<noteq> None \<and> h_radioAcquired h1 \<and> ra_region (w_radio W) \<noteq> h_appliedRegion h1 then configure W h1 else h1)"
  define h3 where "h3 = (if h_api h2 = None then h2 else if h_radio h2 = None then abort h2
    else if ra_state (w_radio W) = (ERROR_NONE, RADIO_STATE_ERROR) then setState W MESH_STATE_ERROR (deactivateBackend W h2) else h2)"
  define h4 where "h4 = (if h_api h3 = None then h3 else snd (on_backend W b_on_tick h3))"
  have i1: "mesh_inv ids h1" unfolding h1_def by (rule tick_attach [OF assms(1,2)])
  have i2: "mesh_inv ids h2" unfolding h2_def using i1 configure_step [OF i1 assms(2)] by simp
  have i3: "mesh_inv ids h3" unfolding h3_def by (rule tick_state [OF i2 assms(2)])
  have k1: "known h1 [] \<and> flags h1 = flags h"
  proof (cases "h_radio h")
    case None
    then have off: "backend_off h" using assms(1) by (auto simp: mesh_inv_defs)
    obtain ok g where a: "attachRadio W h = (ok, g)" by fastforce
    have g: "data_ok g" "backend_off g" "same_queue h g" using attachRadio_off [OF inv_data [OF assms(1)] off None, of W] a by auto
    then have c: "same_queue g (configure W g)" "\<forall>q. h_api (configure W g) = Some q \<longrightarrow> q \<in> set (g_backends g)"
      using configure_inv [OF g(1) _ assms(2)] by blast+
    then have "known (configure W g) []" "flags (configure W g) = flags h"
      using flags_same(1) [OF same_queue_trans [OF g(3) c(1)]] by (simp_all add: known_def same_queue_def)
    moreover have "known g []" using g(2) by (intro none_known) (simp add: backend_off_def)
    ultimately show ?thesis using flags_same(1) [OF g(3)] a None by (cases ok) (auto simp: h1_def)
  qed (simp add: h1_def assms(3))
  have k2: "known h2 [] \<and> flags h2 = flags h" 
  proof -
    have "same_queue h1 (configure W h1)" using configure_inv [OF inv_data [OF i1] inv_off_or_up [OF i1] assms(2)] by blast
    from flags_same(1) [OF this] configure_known [OF i1 assms(2)] k1 show ?thesis by (simp add: h2_def)
  qed
  have off: "data_ok (deactivateBackend W h2)" "backend_off (deactivateBackend W h2)" "same_queue h2 (deactivateBackend W h2)"
    using deactivate_off [OF inv_data [OF i2] inv_off_or_up [OF i2] assms(2)] by blast+
  have "flags (setState W MESH_STATE_ERROR (deactivateBackend W h2)) = flags h2"
    using flags_same(1) [OF same_queue_trans [OF off(3) setState_queue [OF off(1)]]] .
  then have k3: "known h3 [] \<and> flags h3 = flags h"
    using k2 none_known [OF setState_off_core [OF off(1,2)]] by (simp add: h3_def) (auto simp: abort_def known_def flags_def)
  have k4: "known h4 [] \<and> flags h4 = flags h"
  proof (cases "h_api h3")
    case (Some p)
    have "lawful (b_on_tick (w_api W p) b)" for b using assms(2) by (simp add: world_ok_def lawful_api_def)
    from on_backend_core [where f = b_on_tick, OF i3 Some this] Some k3 show ?thesis by (auto simp: h4_def known_def core_def flags_def)
  qed (simp add: h4_def k3)
  have f: "core (flush_store W h4) = core h4" by (simp add: flush_store_def split: option.split prod.split)
  have "tick W h = flush_store W h4" unfolding tick_def Let_def h4_def h3_def h2_def h1_def ..
  then show ?thesis using k4 f by (auto simp: known_def core_def flags_def)
qed

lemma pump_registry: "fst (core (pumpTx W h)) = (h_airtime (pumpTx W h), sent (h_radio_log (pumpTx W h)), h_api h, g_backends h, g_service h, h_running h) \<and>
    h_calls (pumpTx W h) = h_calls h"
proof -
  have s: "h_api (setDelivery W q d g) = h_api g \<and> g_backends (setDelivery W q d g) = g_backends g \<and> g_service (setDelivery W q d g) = g_service g \<and>
      h_running (setDelivery W q d g) = h_running g \<and> h_calls (setDelivery W q d g) = h_calls g" for q d g
    using core_store(3) [of W q d g] by (simp add: core_def)
  have "h_api (send_front W a f g) = h_api g \<and> g_backends (send_front W a f g) = g_backends g \<and> g_service (send_front W a f g) = g_service g \<and>
      h_running (send_front W a f g) = h_running g \<and> h_calls (send_front W a f g) = h_calls g" for a f g
    by (simp add: send_front_def Let_def s abort_def log_radio_def split: prod.split)
  then show ?thesis by (simp add: pumpTx_def Let_def core_def getAirtimeUsedMs_def)
qed

lemma turn_known:
  assumes "mesh_inv ids h" "world_ok ids W" "known h (h_calls h)" "h_running h"
  shows "known (thread_turn W rx tx h) [] \<and> flags (thread_turn W rx tx h) = (g_backends h, g_service h, True, [])"
proof -
  let ?d = "drainRadioEvents W rx tx h"
  have d: "mesh_inv ids ?d" "core ?d = core h" using drainRadioEvents_inv [OF assms(1,2)] drain_core [OF assms(1,2)] .
  then have kd: "known ?d (h_calls ?d)" "g_backends ?d = g_backends h" "g_service ?d = g_service h" "h_running ?d" using assms(3,4) by (simp_all add: known_def core_def)
  have w: "mesh_inv ids (runCalls W ?d)" "known (runCalls W ?d) []" "flags (runCalls W ?d) = (g_backends h, g_service h, True, [])"
    using runCalls_inv [OF d(1) assms(2)] work_loop_known [OF d(1) assms(2) kd(1)] kd(2-4) by (simp_all add: runCalls_def flags_def)
  define g where "g = (if getMillis W - h_lastTickMs (runCalls W ?d) \<ge> TICK_INTERVAL_MS then tick W ((runCalls W ?d)\<lparr>h_lastTickMs := getMillis W\<rparr>) else runCalls W ?d)"
  have "mesh_inv ids ((runCalls W ?d)\<lparr>h_lastTickMs := getMillis W\<rparr>)" using w(1) by (simp add: mesh_inv_defs)
  moreover have "flags ((runCalls W ?d)\<lparr>h_lastTickMs := getMillis W\<rparr>) = flags (runCalls W ?d)" by (simp add: flags_def)
  ultimately have g: "known g [] \<and> flags g = flags (runCalls W ?d)"
    using tick_known [OF _ assms(2), of "(runCalls W ?d)\<lparr>h_lastTickMs := getMillis W\<rparr>"] w(2) by (simp add: g_def)
  have "thread_turn W rx tx h = pumpTx W g" using assms(4) by (simp add: thread_turn_def g_def Let_def)
  with g w(3) pump_registry [of W g] show ?thesis by (auto simp: known_def core_def flags_def)
qed

section \<open>The registry in a run\<close>

definition registry_ok :: "(ptr \<Rightarrow> byte list) \<Rightarrow> 'b mesh \<Rightarrow> bool" where
  "registry_ok ids h \<longleftrightarrow> known h (h_calls h) \<and> distinct (map ids (g_backends h)) \<and> g_service h \<and> h_running h"

lemma unregister_loop_mset: "mset (unregister_loop p ps) = mset (remove1 p ps)"
proof (induction ps)
  case (Cons q ps)
  show ?case
  proof (cases "q = p")
    case True
    have "unregister_loop p (q # ps) = (if ps = [] then [] else last ps # butlast ps)" by (cases ps) (simp_all add: True)
    then show ?thesis using True by (cases ps rule: rev_cases) auto
  qed (simp add: Cons)
qed simp

lemma unregister_registry:
  assumes "registry_ok ids h"
  shows "registry_ok ids (snd (mesh_backend_unregister p h)) \<and> p \<notin> set (g_backends (snd (mesh_backend_unregister p h)))"
proof (cases "p \<in> set (g_backends h)")
  case True
  let ?ps = "unregister_loop p (g_backends h)"
  have "distinct (map ids (g_backends h))" using assms by (simp add: registry_ok_def)
  then have d: "distinct (g_backends h)" "inj_on ids (set (g_backends h))" by (simp_all add: distinct_map)
  have s: "set ?ps = set (g_backends h) - {p}" using mset_eq_setD [OF unregister_loop_mset] d(1) by (simp add: set_remove1_eq)
  have "distinct ?ps" using mset_eq_imp_distinct_iff [OF unregister_loop_mset] d(1) by (simp add: distinct_remove1)
  moreover have "inj_on ids (set ?ps)" using d(2) s by (auto intro: inj_on_subset)
  ultimately have "distinct (map ids ?ps)" by (simp add: distinct_map)
  with s assms True show ?thesis
    by (auto simp: mesh_backend_unregister_def callOnServiceThread_def post_def registry_ok_def known_def)
qed (use assms in \<open>simp add: mesh_backend_unregister_def\<close>)

lemma same_backend_refl: "same_backend a a"
  by (simp add: same_backend_def)

lemma register_registry:
  assumes "registry_ok ids h" "world_ok ids W"
  shows "registry_ok ids (snd (mesh_backend_register W p h))"
proof (cases "findBackend W (b_id (w_api W p)) h = None")
  case True
  then have "ids p \<notin> ids ` set (g_backends h)" using assms(2)
    by (force simp: findBackend_def find_None_iff world_ok_def same_backend_refl)
  then show ?thesis using assms(1) True by (auto simp: mesh_backend_register_def registry_ok_def known_def post_def Let_def)
qed (use assms in \<open>simp add: mesh_backend_register_def\<close>)

lemma step_registry:
  assumes "mesh_inv ids h" "world_ok ids W" "registry_ok ids h"
  shows "registry_ok ids (mesh_step W c h) \<and> set (g_backends (mesh_step W c h)) \<subseteq> set (g_backends h) \<union> {p. c = Op_Register p}"
proof -
  have same: ?thesis if "fst (core (mesh_step W c h)) = fst (core h)" "\<exists>ws. snd (core (mesh_step W c h)) = snd (core h) @ ws"
    using assms(3) that by (auto simp: registry_ok_def known_def core_def)
  consider "c = Op_Begin" | rx tx where "c = Op_Turn rx tx" | p where "c = Op_Register p" | p where "c = Op_Unregister p"
    | "c \<noteq> Op_Begin" "\<And>rx tx. c \<noteq> Op_Turn rx tx" "\<And>p. c \<noteq> Op_Register p" "\<And>p. c \<noteq> Op_Unregister p" by (cases c) auto
  then show ?thesis
  proof cases
    case 1
    have "g_service (configure W h) = g_service h \<and> h_running (configure W h) = h_running h"
      using configure_inv [OF inv_data [OF assms(1)] inv_off_or_up [OF assms(1)] assms(2)] by (simp add: same_queue_def)
    with 1 configure_known [OF assms(1,2)] assms(3) show ?thesis by (simp add: thread_begin_def registry_ok_def)
  next
    case 2
    from assms(3) have r: "known h (h_calls h)" "h_running h" "g_service h" by (simp_all add: registry_ok_def)
    have k: "known g ws" if "known g []" for g :: "'a mesh" and ws using that by (auto simp: known_def)
    from turn_known [OF assms(1,2) r(1,2), of rx tx] show ?thesis
      using 2 assms(3) r k by (simp add: registry_ok_def flags_def)
  next
    case 3
    have "set (g_backends (snd (mesh_backend_register W p h))) \<subseteq> set (g_backends h) \<union> {p}" by (auto simp: mesh_backend_register_def Let_def post_def)
    with 3 register_registry [OF assms(3,2)] show ?thesis by simp
  next
    case 4
    have "set (g_backends (snd (mesh_backend_unregister p h))) \<subseteq> set (g_backends h)"
      using mset_eq_setD [OF unregister_loop_mset, of p "g_backends h"] set_remove1_subset [of p "g_backends h"]
      by (auto simp: mesh_backend_unregister_def callOnServiceThread_def post_def)
    with 4 unregister_registry [OF assms(3)] show ?thesis by simp
  next
    case 5
    from same call_core [OF 5, of W h] show ?thesis by blast
  qed
qed

lemma run_registry:
  assumes "mesh_inv ids h" "\<forall>(W, c) \<in> set cs. world_ok ids W \<and> typed_op c" "registry_ok ids h"
  shows "registry_ok ids (mesh_run cs h) \<and> set (g_backends (mesh_run cs h)) \<subseteq> set (g_backends h) \<union> {p. Op_Register p \<in> snd ` set cs}"
  using assms
proof (induction cs arbitrary: h)
  case (Cons a cs)
  obtain W c where a: "a = (W, c)" by fastforce
  have s: "registry_ok ids (mesh_step W c h) \<and> set (g_backends (mesh_step W c h)) \<subseteq> set (g_backends h) \<union> {p. c = Op_Register p}"
    using step_registry [of ids h W c] Cons.prems a by auto
  have "mesh_inv ids (mesh_step W c h)" using mesh_step_inv Cons.prems(1,2) a by fastforce
  from Cons.IH [OF this] Cons.prems(2) s a show ?case by auto
qed simp

section \<open>Release\<close>

text \<open>
  C16: a backend that was unregistered is not used any more. In any run of the service, the active backend is a registered one, or its release is already posted
  to the service thread; no two registered backends have the same id; and when a backend is unregistered, whatever happens in between, then after
  the next turn of the thread it is neither registered nor active, so that its module can be unloaded.
\<close>

theorem unregistered_backend_released:
  assumes "subs_ok h" "h_refs h = 0" "\<not> h_aborted h" "log_disk path (h_disk h)" "opens (w_store W0) path (h_disk h)" "distinct (map ids (g_backends h))"
    and "onStart W0 bits (Some path) started (createService h) = (ERROR_NONE, h1)"
    and "\<forall>(W, c) \<in> set (cs @ (W1, Op_Unregister p) # ds @ [(W2, Op_Turn rx tx)]). world_ok ids W \<and> typed_op c" "Op_Register p \<notin> snd ` set ds"
  shows "let h2 = mesh_run cs h1; h3 = mesh_run (cs @ (W1, Op_Unregister p) # ds @ [(W2, Op_Turn rx tx)]) h1 in
    (\<forall>q. h_api h2 = Some q \<longrightarrow> q \<in> set (g_backends h2) \<or> Do_Sync (Sync_Unregister q) \<in> set (h_calls h2)) \<and> distinct (map ids (g_backends h2)) \<and>
    p \<notin> set (g_backends h3) \<and> h_api h3 \<noteq> Some p"
proof -
  let ?h2 = "mesh_run cs h1" and ?u = "(W1, Op_Unregister p) # ds"
  have i1: "mesh_inv ids h1" "g_service h1" "h_running h1" using onStart_inv [OF assms(1-5,7)] by blast+
  have c1: "core h1 = core ((createService h)\<lparr>g_service := True, h_running := True\<rparr>)" by (rule onStart_core [OF assms(7)])
  then have r1: "registry_ok ids h1" using assms(6) by (simp add: registry_ok_def known_def core_def createService_def)
  have ok: "\<forall>(W, c) \<in> set cs. world_ok ids W \<and> typed_op c" "\<forall>(W, c) \<in> set ds. world_ok ids W \<and> typed_op c" "world_ok ids W1" "world_ok ids W2"
    using assms(8) by auto
  have i2: "mesh_inv ids ?h2" and r2: "registry_ok ids ?h2" using mesh_run_inv [OF i1(1) ok(1)] run_registry [OF i1(1) ok(1) r1] by blast+
  let ?h = "snd (mesh_backend_unregister p ?h2)"
  have i: "mesh_inv ids ?h" using mesh_step_inv [OF i2 ok(3), of "Op_Unregister p"] by simp
  have r: "registry_ok ids ?h" "p \<notin> set (g_backends ?h)" using unregister_registry [OF r2, of p] by simp_all
  let ?g = "mesh_run ds ?h"
  have ig: "mesh_inv ids ?g" by (rule mesh_run_inv [OF i ok(2)])
  have rg: "registry_ok ids ?g" "p \<notin> set (g_backends ?g)" using run_registry [OF i ok(2) r(1)] r(2) assms(9) by auto
  have e: "mesh_run (cs @ (W1, Op_Unregister p) # ds @ [(W2, Op_Turn rx tx)]) h1 = thread_turn W2 rx tx ?g" by (simp add: mesh_run_append)
  have "known (thread_turn W2 rx tx ?g) []" "g_backends (thread_turn W2 rx tx ?g) = g_backends ?g"
    using turn_known [OF ig ok(4), of rx tx] rg(1) by (simp_all add: registry_ok_def flags_def)
  then have "h_api (thread_turn W2 rx tx ?g) \<noteq> Some p \<and> p \<notin> set (g_backends (thread_turn W2 rx tx ?g))" using rg(2) by (auto simp: known_def)
  with r2 show ?thesis unfolding Let_def e by (simp add: registry_ok_def known_def)
qed

theorem unregistered_backend_released_witness:
  "h_api (mesh_run [(demo_world 0, Op_Begin)] demo_started) = Some 1 \<and>
   h_api (mesh_run [(demo_world 0, Op_Begin), (demo_world 0, Op_Unregister 1), (demo_world 5, Op_Turn [] [])] demo_started) \<noteq> Some 1"
proof -
  let ?cs = "[(demo_world 0, Op_Begin :: unit mesh_op)]"
  have ok: "\<forall>(W, c) \<in> set (?cs @ (demo_world 0, Op_Unregister 1) # [] @ [(demo_world 5, Op_Turn [] [])]). world_ok (\<lambda>_. bytes_of ''demo'') W \<and> typed_op c"
    using demo_world_ok by simp
  have "distinct (map (\<lambda>_. bytes_of ''demo'') (g_backends demo_loaded))" by (simp add: demo_loaded_ok)
  from unregistered_backend_released [OF demo_loaded_ok(1-5) this demo_start ok] show ?thesis by (simp add: Let_def demo_begin)
qed



end
