(* ===== verification/Mesh_Delivery.thy ===== *)
theory Mesh_Delivery
  imports Mesh_Calls
begin

text \<open>
  What happens to messages that were not sent when the service changes its backend: they wait in the log, and are handed to the backend once it is active again.
\<close>

section \<open>Sizes of files\<close>

definition fits :: "nat \<Rightarrow> disk \<Rightarrow> bool" where
  "fits B fs \<longleftrightarrow> (\<forall>p d. fs p = Some d \<longrightarrow> length d \<le> B)"

definition reads_upto :: "nat \<Rightarrow> store_io \<Rightarrow> bool" where
  "reads_upto B io \<longleftrightarrow> (\<forall>p. \<exists>n. readable_bytes io p = Some n \<and> B \<le> n)"

lemma fits_mono: "fits A fs \<Longrightarrow> A \<le> B \<Longrightarrow> fits B fs"
  by (meson fits_def le_trans)

lemma fits_reads: "fits A fs \<Longrightarrow> reads_upto B io \<Longrightarrow> A \<le> B \<Longrightarrow> reads_all io fs"
  unfolding fits_def reads_upto_def reads_all_def by (meson le_trans)

lemma enforceBudget_fits: "enforceBudget io segs s fs = (s', fs') \<Longrightarrow> fits B fs \<Longrightarrow> fits B fs'"
proof (induction segs arbitrary: s fs)
  case (Cons g segs)
  have "fits B (fs(p := None))" for p using Cons.prems(2) by (simp add: fits_def)
  with Cons show ?case by (auto simp: Let_def split: if_splits)
qed simp

lemma flush_fits:
  assumes "flush io s fs = Some (e, s', fs')" "fits A fs" "bufferUsed s \<le> n"
  shows "fits (A + n) fs'"
proof -
  have a: "fits (A + n) fs" using assms(2) by (rule fits_mono) simp
  have w: "fits (A + n) (fs(p \<mapsto> file_or_empty fs p @ take m buf))" if "buffer s = Some buf" for p m buf
  proof -
    have "length (file_or_empty fs p) \<le> A" using assms(2) by (auto simp: fits_def file_or_empty_def split: option.split)
    moreover have "length (take m buf) \<le> n" using assms(3) that by (simp add: bufferUsed_def min_def)
    ultimately show ?thesis using a by (auto simp: fits_def)
  qed
  have w2: "fits (A + n) (fs(p \<mapsto> file_or_empty fs p @ buf))" if "buffer s = Some buf" for p buf using w [OF that, of p "length buf"] by simp
  show ?thesis using assms(1) a w w2
    by (auto simp: flush_def Let_def split: option.splits if_splits prod.splits elim!: enforceBudget_fits)
qed

lemma appendRecord_fits:
  assumes "appendRecord io type bs s fs = Some (e, s', fs')" "fits A fs" "bufferUsed s \<le> n"
  shows "fits (A + n) fs'"
proof -
  have a: "fits (A + n) fs" using assms(2) by (rule fits_mono) simp
  show ?thesis using assms(1) a flush_fits [OF _ assms(2,3)]
    by (auto simp: appendRecord_def Let_def bind_Some_iff split: if_splits prod.splits)
qed

lemma setDelivery_fits:
  assumes "MeshStore_setDelivery io q d s fs = Some (e, s', fs')" "fits A fs" "bufferUsed s \<le> n"
  shows "fits (A + n) fs'"
proof (cases "findEntry q (index s)")
  case None
  then show ?thesis using assms(1) fits_mono [OF assms(2)] by (simp add: MeshStore_setDelivery_def)
next
  case (Some i)
  let ?s = "s\<lparr>index := (index s)[i := (index s ! i)\<lparr>e_delivery := d\<rparr>]\<rparr>"
  have a: "appendRecord io RECORD_TYPE_DELIVERY (le32 q @ [d]) ?s fs = Some (e, s', fs')" using assms(1) Some by (simp add: MeshStore_setDelivery_def)
  have "bufferUsed ?s \<le> n" using assms(3) by (simp add: bufferUsed_def)
  from appendRecord_fits [OF a assms(2) this] show ?thesis .
qed

section \<open>Logs of which all segments are in use\<close>

definition full :: "MeshStore \<Rightarrow> bool" where
  "full s \<longleftrightarrow> segmentCount (limits s) \<le> length (segments s)"

lemma enforceBudget_full:
  "enforceBudget io segs s fs = (s', fs') \<Longrightarrow> segmentCount (limits s) \<le> length segs \<Longrightarrow> full s'"
  by (induction segs arbitrary: s fs) (auto simp: full_def Let_def split: if_splits)

lemma flush_full: "flush io s fs = Some (e, s', fs') \<Longrightarrow> full s \<Longrightarrow> full s'"
proof -
  assume f: "flush io s fs = Some (e, s', fs')" and s: "full s"
  have "full (flush_segment s)" using s by (simp add: flush_segment_def full_def)
  then have "segmentCount (limits (flush_segment s)) \<le> length (segments (flush_segment s))" by (simp add: full_def)
  then show ?thesis using f s
    by (auto simp: flush_def Let_def full_def split: option.splits if_splits prod.splits dest!: enforceBudget_full)
qed

lemma appendRecord_full: "appendRecord io type bs s fs = Some (e, s', fs') \<Longrightarrow> full s \<Longrightarrow> full s'"
  using flush_full [of io s fs]
  by (auto simp: appendRecord_def Let_def bind_Some_iff full_def split: if_splits prod.splits)

lemma setDelivery_full: "MeshStore_setDelivery io q d s fs = Some (e, s', fs') \<Longrightarrow> full s \<Longrightarrow> full s'"
proof (cases "findEntry q (index s)")
  case (Some i)
  assume "MeshStore_setDelivery io q d s fs = Some (e, s', fs')" "full s"
  then show ?thesis using Some appendRecord_full [of io RECORD_TYPE_DELIVERY "le32 q @ [d]" "s\<lparr>index := (index s)[i := (index s ! i)\<lparr>e_delivery := d\<rparr>]\<rparr>" fs]
    by (simp add: MeshStore_setDelivery_def full_def)
qed (simp add: MeshStore_setDelivery_def)

section \<open>The messages of the service\<close>

definition messages :: "'b mesh \<Rightarrow> MeshMessage list \<Rightarrow> bool" where
  "messages h ms \<longleftrightarrow> log_rel (h_disk h) (h_store h) ms"

definition log_of :: "'b mesh \<Rightarrow> MeshStore \<times> disk \<times> bool" where
  "log_of h = (h_store h, h_disk h, h_spent h)"

lemma log_of_loop [simp]: "log_of (queue_loop e ps h) = log_of h"
  by (induction ps arbitrary: h) (simp_all add: Let_def log_of_def)

lemma log_of_emit [simp]: "log_of (emitEvent W t st q d h) = log_of h" "log_of (setState W st h) = log_of (h\<lparr>h_state := st\<rparr>)" "log_of (h\<lparr>h_state := st\<rparr>) = log_of h"
  by (simp_all add: emitEvent_def queueEvent_def setState_def) (simp_all add: log_of_def)

lemma messages_log: "log_of g = log_of h \<Longrightarrow> messages g ms = messages h ms"
  by (simp add: log_of_def messages_def)

lemma setDelivery_messages:
  assumes "messages h ms" "\<not> h_spent (setDelivery W q d h)"
  shows "\<exists>k. messages (setDelivery W q d h) (drop k (set_delivery q (delivery_code d) ms)) \<and> limits (h_store (setDelivery W q d h)) = limits (h_store h) \<and>
    \<not> h_spent h \<and> (\<forall>A. fits A (h_disk h) \<longrightarrow> fits (A + bufferSize (limits (h_store h))) (h_disk (setDelivery W q d h))) \<and>
    (\<not> full (h_store (setDelivery W q d h)) \<longrightarrow> k = 0 \<and> \<not> full (h_store h))"
proof -
  have spent: "h_spent (setDelivery W q d h) = h_spent (spend h)"
  proof (cases "MeshStore_setDelivery (w_store W) q (delivery_code d) (h_store h) (h_disk h)")
    case None
    then show ?thesis by (simp add: setDelivery_def abort_def)
  next
    case (Some r)
    obtain e s fs where r: "r = (e, s, fs)" by (cases r)
    have "log_of (emitEvent W MESH_EVENT_DELIVERY st q d ((spend h)\<lparr>h_store := s, h_disk := fs\<rparr>)) = (s, fs, h_spent (spend h))" for st
      unfolding log_of_emit by (simp add: log_of_def)
    with Some r show ?thesis by (simp add: setDelivery_def Let_def log_of_def)
  qed
  then have room: "room (h_store h)" "\<not> h_spent h" using assms(2) by (auto simp: spend_def)
  obtain e s fs k where m: "MeshStore_setDelivery (w_store W) q (delivery_code d) (h_store h) (h_disk h) = Some (e, s, fs)" "flushed (h_store h) s"
    "log_rel fs s (drop k (set_delivery q (delivery_code d) ms))" "\<not> full (h_store h) \<longrightarrow> k = 0"
    unfolding full_def not_le
    using setDelivery_rel [OF assms(1) [unfolded messages_def] room(1), of "w_store W" q "delivery_code d"] by blast
  have l: "log_of (setDelivery W q d h) = (s, fs, h_spent (spend h))" using m(1)
    by (simp add: setDelivery_def Let_def) (simp add: log_of_def)
  have b: "bufferUsed (h_store h) \<le> bufferSize (limits (h_store h))" using assms(1) by (simp add: messages_def log_rel_def store_ok_def)
  from l m room show ?thesis using setDelivery_fits [OF m(1) _ b] setDelivery_full [OF m(1)]
    by (auto simp: log_of_def messages_def flushed_def)
qed

lemma spent_mono: "h_spent h \<Longrightarrow> h_spent (setDelivery W q d h)"
proof -
  assume s: "h_spent h"
  have "log_of (emitEvent W MESH_EVENT_DELIVERY st q d ((spend h)\<lparr>h_store := s', h_disk := fs\<rparr>)) = (s', fs, True)" for st s' fs
    unfolding log_of_emit using s by (simp add: log_of_def spend_def)
  then show ?thesis using s by (auto simp: setDelivery_def Let_def log_of_def abort_def spend_def split: option.split)
qed

lemma spent_mono_fold: "h_spent h \<Longrightarrow> h_spent (fold (\<lambda>q. setDelivery W q d) qs h)"
  by (induction qs arbitrary: h) (simp_all add: spent_mono)

lemma set_delivery_drop: "set_delivery q d (drop k ms) = drop k (set_delivery q d ms)"
  by (simp add: set_delivery_def drop_map)

lemma set_deliveries_drop: "fold (\<lambda>q. set_delivery q d) qs (drop k ms) = drop k (fold (\<lambda>q. set_delivery q d) qs ms)"
  by (induction qs arbitrary: ms) (simp_all add: set_delivery_drop)

lemma set_deliveries: "fold (\<lambda>q. set_delivery q d) qs ms = map (\<lambda>m. if m_seq m \<in> set qs then m\<lparr>m_delivery := d\<rparr> else m) ms"
proof (induction qs arbitrary: ms)
  case (Cons q qs)
  show ?case by (simp only: fold.simps o_apply Cons) (auto simp: set_delivery_def)
qed simp

lemma set_awaiting:
  assumes "distinct (map m_seq ms)"
  shows "fold (\<lambda>q. set_delivery q d) (log_outgoing backend c ms) ms = map (\<lambda>m. if awaits backend c m then m\<lparr>m_delivery := d\<rparr> else m) ms"
proof -
  have "m_seq m \<in> set (log_outgoing backend c ms) \<longleftrightarrow> awaits backend c m" if "m \<in> set ms" for m
    using assms that by (auto simp: log_outgoing_def distinct_map inj_on_def)
  then show ?thesis unfolding set_deliveries by (intro map_cong) auto
qed

lemma deliveries_messages:
  assumes "messages h ms" "\<not> h_spent (fold (\<lambda>q. setDelivery W q d) qs h)"
  shows "\<exists>k. messages (fold (\<lambda>q. setDelivery W q d) qs h) (drop k (fold (\<lambda>q. set_delivery q (delivery_code d)) qs ms)) \<and>
    limits (h_store (fold (\<lambda>q. setDelivery W q d) qs h)) = limits (h_store h) \<and> \<not> h_spent h \<and>
    (\<forall>A. fits A (h_disk h) \<longrightarrow> fits (A + length qs * bufferSize (limits (h_store h))) (h_disk (fold (\<lambda>q. setDelivery W q d) qs h))) \<and>
    (\<not> full (h_store (fold (\<lambda>q. setDelivery W q d) qs h)) \<longrightarrow> k = 0 \<and> \<not> full (h_store h))"
  using assms
proof (induction qs arbitrary: h ms)
  case Nil
  then show ?case by (intro exI [of _ 0]) simp
next
  case (Cons q qs)
  let ?h = "setDelivery W q d h"
  have "\<not> h_spent ?h" using Cons.prems(2) spent_mono_fold by fastforce
  from setDelivery_messages [OF Cons.prems(1) this] obtain k where k: "messages ?h (drop k (set_delivery q (delivery_code d) ms))"
    "limits (h_store ?h) = limits (h_store h)" "\<not> h_spent h" "\<forall>A. fits A (h_disk h) \<longrightarrow> fits (A + bufferSize (limits (h_store h))) (h_disk ?h)"
    "\<not> full (h_store ?h) \<longrightarrow> k = 0 \<and> \<not> full (h_store h)" by blast
  from Cons.IH [OF k(1)] Cons.prems(2) obtain k' where k': "messages (fold (\<lambda>q. setDelivery W q d) qs ?h)
      (drop k' (fold (\<lambda>q. set_delivery q (delivery_code d)) qs (drop k (set_delivery q (delivery_code d) ms))))"
    "limits (h_store (fold (\<lambda>q. setDelivery W q d) qs ?h)) = limits (h_store ?h)"
    "\<forall>A. fits A (h_disk ?h) \<longrightarrow> fits (A + length qs * bufferSize (limits (h_store ?h))) (h_disk (fold (\<lambda>q. setDelivery W q d) qs ?h))"
    "\<not> full (h_store (fold (\<lambda>q. setDelivery W q d) qs ?h)) \<longrightarrow> k' = 0 \<and> \<not> full (h_store ?h)" by auto
  have "fits (A + length (q # qs) * bufferSize (limits (h_store h))) (h_disk (fold (\<lambda>q. setDelivery W q d) (q # qs) h))" if "fits A (h_disk h)" for A
    using k'(3) [THEN spec, of "A + bufferSize (limits (h_store h))"] k(4) that by (simp add: k(2) ac_simps)
  with k k' show ?case unfolding set_deliveries_drop by (intro exI [of _ "k + k'"]) (simp add: add.commute)
qed

lemma messages_distinct: "messages h ms \<Longrightarrow> distinct (map m_seq ms)"
  by (simp add: messages_def log_rel_def strict_sorted_iff)

lemma messages_outgoing:
  assumes "messages h ms" "reads_all (w_store W) (h_disk h)"
  shows "store_outgoing W backend d h = (log_outgoing backend (delivery_code d) ms, h)"
  using log_rel_queries [OF assms(1) [unfolded messages_def] assms(2), of None] by (simp add: store_outgoing_def)

lemma messages_get:
  assumes "messages h ms" "reads_all (w_store W) (h_disk h)"
  shows "store_get W q h = (log_get q ms, h)"
  using log_rel_queries [OF assms(1) [unfolded messages_def] assms(2), of None] by (simp add: store_get_def)

section \<open>A backend that goes\<close>

lemma outgoing_le: "length (log_outgoing backend c ms) \<le> length ms"
  by (simp add: log_outgoing_def)

lemma deactivate_eq:
  assumes "h_api h = Some p" "h_backend h = Some b" "b_destroy (w_api W p) b = Done ()" "messages h ms" "reads_all (w_store W) (h_disk h)"
  shows "\<exists>g. log_of g = log_of h \<and> deactivateBackend W h =
    (fold (\<lambda>seq. setDelivery W seq DELIVERY_BLOCKED) (log_outgoing (b_id (w_api W p)) (delivery_code DELIVERY_QUEUED) ms) g)\<lparr>h_nodes := [], h_activeBackend := []\<rparr>"
proof -
  let ?h1 = "radioOff (h\<lparr>h_api := None, h_backend := None, h_txQueue := [], h_txInFlight := False\<rparr>)"
  have l1: "log_of ?h1 = log_of h" by (simp add: radioOff_def log_radio_def) (simp add: log_of_def)
  then have m1: "messages ?h1 ms" "h_disk ?h1 = h_disk h" using assms(4) messages_log [OF l1] by (simp_all add: log_of_def)
  have "reads_all (w_store W) (h_disk ?h1)" using assms(5) m1(2) by simp
  from messages_outgoing [OF m1(1) this] show ?thesis using assms(1-3) l1
    by (intro exI [of _ ?h1]) (simp add: deactivateBackend_def Let_def)
qed

lemma deactivate_messages:
  assumes "h_api h = Some p" "h_backend h = Some b" "b_destroy (w_api W p) b = Done ()" "messages h ms" "fits A (h_disk h)" "reads_upto A (w_store W)"
    "\<not> h_spent (deactivateBackend W h)"
  shows "\<exists>k. messages (deactivateBackend W h)
      (drop k (map (\<lambda>m. if awaits (b_id (w_api W p)) (delivery_code DELIVERY_QUEUED) m then m\<lparr>m_delivery := delivery_code DELIVERY_BLOCKED\<rparr> else m) ms)) \<and>
    limits (h_store (deactivateBackend W h)) = limits (h_store h) \<and>
    fits (A + length ms * bufferSize (limits (h_store h))) (h_disk (deactivateBackend W h)) \<and>
    (\<not> full (h_store (deactivateBackend W h)) \<longrightarrow> k = 0)"
proof -
  let ?id = "b_id (w_api W p)"
  let ?qs = "log_outgoing ?id (delivery_code DELIVERY_QUEUED) ms"
  obtain h1 where g: "log_of h1 = log_of h" and d: "deactivateBackend W h = (fold (\<lambda>seq. setDelivery W seq DELIVERY_BLOCKED) ?qs h1)\<lparr>h_nodes := [], h_activeBackend := []\<rparr>"
    using deactivate_eq [OF assms(1-4) fits_reads [OF assms(5,6)]] by blast
  let ?h2 = "fold (\<lambda>seq. setDelivery W seq DELIVERY_BLOCKED) ?qs h1"
  have m1: "messages h1 ms" "h_disk h1 = h_disk h" "h_store h1 = h_store h" using assms(4) messages_log [OF g] g by (simp_all add: log_of_def)
  have "\<not> h_spent (deactivateBackend W h)" by (rule assms(7))
  then have "\<not> h_spent ?h2" by (simp add: d)
  from deliveries_messages [OF m1(1) this] obtain k where
    k: "messages ?h2 (drop k (fold (\<lambda>q. set_delivery q (delivery_code DELIVERY_BLOCKED)) ?qs ms))"
      "limits (h_store ?h2) = limits (h_store h)" "fits (A + length ?qs * bufferSize (limits (h_store h))) (h_disk ?h2)"
      "\<not> full (h_store ?h2) \<longrightarrow> k = 0"
    using assms(5) m1(2,3) by auto
  have "fits (A + length ms * bufferSize (limits (h_store h))) (h_disk ?h2)" using k(3) by (rule fits_mono) (simp add: outgoing_le)
  with k(1,2,4) show ?thesis unfolding d set_awaiting [OF messages_distinct [OF assms(4)]] by (intro exI [of _ k]) (simp add: messages_def)
qed

section \<open>A backend that comes back\<close>

text \<open>A backend that only notes what it is asked to send.\<close>

type_synonym submission = "32 word \<times> MeshAddress option \<times> byte \<times> byte list"

definition records :: "submission list MeshBackendApi \<Rightarrow> bool" where
  "records a \<longleftrightarrow> b_create a = Done (Some []) \<and> (\<forall>b. b_destroy a b = Done ()) \<and> (\<forall>b r m i. \<exists>e profile. b_get_radio_profile a b r m i = Done (b, e, profile)) \<and>
     (\<forall>b. b_on_start a b = Done (b, ())) \<and> (\<forall>b q to ch s. b_send_text a b q to ch s = Done (b @ [(q, to, ch, s)], ERROR_NONE)) \<and>
     length (b_id a) \<le> MESH_BACKEND_ID_MAX_LENGTH \<and> 0 \<notin> set (b_id a)"

definition submission_of :: "MeshMessage \<Rightarrow> submission" where
  "submission_of m = (m_seq m, if addr_length (m_peer m) > 0 then Some (m_peer m) else None, m_channel m, c_string (m_text m))"

lemma c_string_id: "0 \<notin> set s \<Longrightarrow> c_string s = s"
  by (auto simp: c_string_def takeWhile_eq_all_conv)

lemma c_string_array: "c_string (string_array n s) = c_string (take n s)" "c_string (take n (string_array n s)) = c_string (take n s)"
proof -
  have "length (c_string (take n s)) \<le> n" by (metis c_string_def length_takeWhile_le le_trans length_take min.cobounded2)
  then show "c_string (take n (string_array n s)) = c_string (take n s)" by (simp add: string_array_def Let_def c_string_def takeWhile_append)
qed (simp add: string_array_def c_string_def Let_def takeWhile_append takeWhile_eq_all_conv)

lemma message_backend:
  assumes "messages h ms" "m \<in> set ms" "awaits bid c m" "length bid \<le> MESH_BACKEND_ID_MAX_LENGTH" "0 \<notin> set bid"
  shows "c_string (m_backend m) = bid"
proof -
  obtain i where i: "i < length ms" "m = ms ! i" using assms(2) by (auto simp: in_set_conv_nth)
  have "list_all2 (entry_holds (h_disk h) (h_store h)) (index (h_store h)) ms" using assms(1) by (simp add: messages_def log_rel_def)
  then have "entry_holds (h_disk h) (h_store h) (index (h_store h) ! i) m" using i by (auto simp: list_all2_conv_all_nth)
  then obtain m0 c where "m = (canonical m0)\<lparr>m_delivery := c\<rparr>" by (auto simp: entry_holds_def)
  then have "m_backend m = string_array MESH_BACKEND_ID_MAX_LENGTH (m_backend m0)" by (simp add: canonical_def)
  then show ?thesis using assms(3-5) by (simp add: awaits_def same_backend_def c_string_id c_string_array)
qed

lemma sendStored_records:
  assumes "messages h ms" "reads_all (w_store W) (h_disk h)" "h_api h = Some p" "h_backend h = Some b" "records (w_api W p)"
    "\<forall>m\<in>set ms. m_seq m = q \<longrightarrow> awaits (b_id (w_api W p)) (delivery_code DELIVERY_QUEUED) m"
  shows "sendStored W q h = h\<lparr>h_backend := Some (b @ map submission_of (filter (\<lambda>m. m_seq m = q) ms))\<rparr>"
proof (cases "find (\<lambda>m. m_seq m = q) ms")
  case None
  then have "filter (\<lambda>m. m_seq m = q) ms = []" by (simp add: find_None_iff filter_empty_conv)
  moreover have "fst (log_get q ms) \<noteq> ERROR_NONE" using None by (simp add: log_get_def)
  ultimately show ?thesis using assms(4) messages_get [OF assms(1,2), of q] by (cases "log_get q ms") (simp add: sendStored_def)
next
  case (Some m)
  then have m: "m \<in> set ms" "m_seq m = q" by (auto simp: find_Some_iff)
  have "distinct (map m_seq xs) \<Longrightarrow> m \<in> set xs \<Longrightarrow> filter (\<lambda>m. m_seq m = q) xs = [m]" for xs
    using m(2) by (induction xs) (auto simp: filter_empty_conv, metis image_eqI)
  then have "filter (\<lambda>m. m_seq m = q) ms = [m]" using messages_distinct [OF assms(1)] m(1) by blast
  moreover have g: "store_get W q h = ((ERROR_NONE, m), h)" using messages_get [OF assms(1,2), of q] Some by (simp add: log_get_def)
  moreover have a: "awaits (b_id (w_api W p)) (delivery_code DELIVERY_QUEUED) m" using assms(6) m by blast
  moreover have "c_string (m_backend m) = b_id (w_api W p)"
    using message_backend [OF assms(1) m(1) a] assms(5) by (simp add: records_def)
  ultimately show ?thesis using assms(3-5) m(2)
    by (simp add: sendStored_def on_backend_def records_def awaits_def submission_of_def)
qed

lemma sendStored_all:
  assumes "messages h ms" "reads_all (w_store W) (h_disk h)" "h_api h = Some p" "h_backend h = Some b" "records (w_api W p)"
    "\<forall>m\<in>set ms. m_seq m \<in> set qs \<longrightarrow> awaits (b_id (w_api W p)) (delivery_code DELIVERY_QUEUED) m"
  shows "fold (sendStored W) qs h = h\<lparr>h_backend := Some (b @ concat (map (\<lambda>q. map submission_of (filter (\<lambda>m. m_seq m = q) ms)) qs))\<rparr>"
  using assms(1,4,6) assms(2,3)
proof (induction qs arbitrary: h b)
  case (Cons q qs)
  let ?b = "b @ map submission_of (filter (\<lambda>m. m_seq m = q) ms)"
  have s: "sendStored W q h = h\<lparr>h_backend := Some ?b\<rparr>"
    using sendStored_records [OF Cons.prems(1,4,5,2) assms(5), of q] Cons.prems(3) by simp
  have "messages (h\<lparr>h_backend := Some ?b\<rparr>) ms" using Cons.prems(1) by (simp add: messages_def)
  from Cons.IH [OF this, of ?b] Cons.prems s show ?case by simp
qed simp

lemma filter_seqs:
  assumes "distinct (map m_seq ms)"
  shows "concat (map (\<lambda>q. filter (\<lambda>m. m_seq m = q) (drop k ms)) (map m_seq (filter P ms))) = filter P (drop k ms)"
  using assms
proof (induction ms arbitrary: k)
  case (Cons m ms)
  have out: "filter (\<lambda>m'. m_seq m' = m_seq m) (drop k ms) = []" for k
    using Cons.prems(1) by (auto simp: filter_empty_conv dest!: in_set_dropD) (metis image_eqI)
  have skip: "map (\<lambda>q. filter (\<lambda>m. m_seq m = q) (m # ms)) (map m_seq (filter P ms)) = map (\<lambda>q. filter (\<lambda>m. m_seq m = q) ms) (map m_seq (filter P ms))"
    using Cons.prems by (auto simp: map_eq_conv)
  show ?case
  proof (cases k)
    case 0
    have "concat (map (\<lambda>q. filter (\<lambda>m. m_seq m = q) (m # ms)) (map m_seq (filter P ms))) = filter P ms"
      unfolding skip using Cons.IH [of 0] Cons.prems by simp
    then have "concat (map (\<lambda>q. filter (\<lambda>m. m_seq m = q) (m # ms)) (map m_seq (filter P (m # ms)))) = filter P (m # ms)"
      using out [of 0] by (simp only: filter.simps list.map concat.simps split: if_split) simp
    then show ?thesis unfolding 0 drop_0 .
  next
    case (Suc j)
    then show ?thesis using Cons.IH [of j] Cons.prems out [of j] by simp
  qed
qed simp

text \<open>What the messages of the log are after those that await the backend were queued again.\<close>

definition requeued :: "byte list \<Rightarrow> MeshMessage list \<Rightarrow> MeshMessage list" where
  "requeued bid ms = map (\<lambda>m. if awaits bid (delivery_code DELIVERY_BLOCKED) m then m\<lparr>m_delivery := delivery_code DELIVERY_QUEUED\<rparr> else m) ms"

lemma backend_loop [simp]: "h_backend (queue_loop e ps h) = h_backend h" "h_api (queue_loop e ps h) = h_api h"
  by (induction ps arbitrary: h) (simp_all add: Let_def)

lemma setDelivery_backend [simp]: "h_backend (setDelivery W q d h) = h_backend h" "h_api (setDelivery W q d h) = h_api h"
  by (simp_all add: setDelivery_def emitEvent_def queueEvent_def abort_def spend_def Let_def split: option.split prod.split)

lemma deliveries_backend [simp]: "h_backend (fold (\<lambda>q. setDelivery W q d) qs h) = h_backend h" "h_api (fold (\<lambda>q. setDelivery W q d) qs h) = h_api h"
  by (induction qs arbitrary: h) simp_all

lemma sendStored_spent:
  assumes "h_spent h" "h_api h = Some p" "records (w_api W p)"
  shows "h_spent (sendStored W q h) \<and> h_api (sendStored W q h) = Some p"
proof -
  obtain e m g where g: "store_get W q h = ((e, m), g)" by (metis surj_pair)
  then have "h_spent g" "h_api g = Some p" using assms(1,2) by (auto simp: store_get_def abort_def split: option.splits)
  then show ?thesis using assms(3) spent_mono [of g W] spent_mono [of "abort g" W]
    by (cases "h_backend g") (auto simp: sendStored_def g on_backend_def records_def abort_def)
qed

lemma sendStored_spent_fold: "h_spent h \<Longrightarrow> h_api h = Some p \<Longrightarrow> records (w_api W p) \<Longrightarrow> h_spent (fold (sendStored W) qs h)"
  by (induction qs arbitrary: h) (simp_all add: sendStored_spent)

lemma resubmit_messages:
  assumes "messages h ms" "fits A (h_disk h)" "reads_upto (A + length ms * bufferSize (limits (h_store h))) (w_store W)" "h_api h = Some p" "h_backend h = Some []"
    "records (w_api W p)" "\<forall>m\<in>set ms. \<not> awaits (b_id (w_api W p)) (delivery_code DELIVERY_QUEUED) m"
    "\<not> h_spent (resubmitPending W h) \<or>
     \<not> h_spent (fold (\<lambda>seq. setDelivery W seq DELIVERY_QUEUED) (log_outgoing (b_id (w_api W p)) (delivery_code DELIVERY_BLOCKED) ms) h)"
  shows "\<exists>k. let ms' = drop k (requeued (b_id (w_api W p)) ms) in messages (resubmitPending W h) ms' \<and> \<not> h_spent (resubmitPending W h) \<and>
    (\<not> full (h_store (resubmitPending W h)) \<longrightarrow> k = 0 \<and> \<not> full (h_store h)) \<and>
    log_of (resubmitPending W h) =
      log_of (fold (\<lambda>seq. setDelivery W seq DELIVERY_QUEUED) (log_outgoing (b_id (w_api W p)) (delivery_code DELIVERY_BLOCKED) ms) h) \<and>
    h_backend (resubmitPending W h) = Some (map submission_of (filter (awaits (b_id (w_api W p)) (delivery_code DELIVERY_QUEUED)) ms'))"
proof -
  let ?id = "b_id (w_api W p)" and ?B = "delivery_code DELIVERY_BLOCKED" and ?Q = "delivery_code DELIVERY_QUEUED"
  let ?qs = "log_outgoing ?id ?B ms" and ?rs = "requeued (b_id (w_api W p)) ms"
  let ?h2 = "fold (\<lambda>seq. setDelivery W seq DELIVERY_QUEUED) ?qs h"
  have "reads_all (w_store W) (h_disk h)" using fits_reads [OF assms(2,3)] by simp
  from messages_outgoing [OF assms(1) this] have r: "resubmitPending W h = fold (sendStored W) ?qs ?h2"
    using assms(4) by (simp add: resubmitPending_def)
  have spent: "\<not> h_spent ?h2"
    using assms(8) sendStored_spent_fold [where p = p and h = ?h2 and W = W and qs = ?qs] assms(4,6) unfolding r by auto
  from deliveries_messages [OF assms(1) spent] obtain k where
    k: "messages ?h2 (drop k (fold (\<lambda>q. set_delivery q ?Q) ?qs ms))" "fits (A + length ?qs * bufferSize (limits (h_store h))) (h_disk ?h2)"
    "\<not> full (h_store ?h2) \<longrightarrow> k = 0 \<and> \<not> full (h_store h)"
    using assms(2) by auto
  have m2: "messages ?h2 (drop k ?rs)" using k(1) unfolding set_awaiting [OF messages_distinct [OF assms(1)]] requeued_def .
  have reads: "reads_all (w_store W) (h_disk ?h2)" using fits_reads [OF k(2) assms(3)] by (simp add: outgoing_le)
  have seqs: "map m_seq ?rs = map m_seq ms" by (simp add: requeued_def)
  then have dist: "distinct (map m_seq ?rs)" using messages_distinct [OF assms(1)] by simp
  have qs: "?qs = map m_seq (filter (awaits ?id ?Q) ?rs)"
    using assms(7) unfolding log_outgoing_def requeued_def
    by (induction ms) (auto simp: awaits_def)
  have "\<forall>m\<in>set (drop k ?rs). m_seq m \<in> set ?qs \<longrightarrow> awaits ?id ?Q m"
    using dist unfolding qs by (auto simp: distinct_map inj_on_def dest: in_set_dropD)
  from sendStored_all [OF m2 reads _ _ assms(6) this] have
    f: "resubmitPending W h = ?h2\<lparr>h_backend := Some (concat (map (\<lambda>q. map submission_of (filter (\<lambda>m. m_seq m = q) (drop k ?rs))) ?qs))\<rparr>"
    using assms(4,5) unfolding r by simp
  have "concat (map (\<lambda>q. map submission_of (filter (\<lambda>m. m_seq m = q) (drop k ?rs))) ?qs) = map submission_of (filter (awaits ?id ?Q) (drop k ?rs))"
    using filter_seqs [OF dist, of k "awaits ?id ?Q"] unfolding qs by (metis (no_types, lifting) map_concat map_map o_def map_cong)
  with m2 f spent k(3) show ?thesis by (intro exI [of _ k]) (simp add: Let_def messages_def log_of_def)
qed

lemma resubmit_spent:
  assumes "h_spent h" "h_api h = Some p" "records (w_api W p)"
  shows "h_spent (resubmitPending W h)"
proof -
  obtain seqs g where g: "store_outgoing W (b_id (w_api W p)) DELIVERY_BLOCKED h = (seqs, g)" by fastforce
  then have "h_spent g" "h_api g = Some p" using assms(1,2) by (auto simp: store_outgoing_def abort_def split: option.splits)
  then show ?thesis using assms(2,3)
    by (auto simp: resubmitPending_def g intro!: sendStored_spent_fold spent_mono_fold)
qed

lemma reads_upto_mono: "reads_upto B io \<Longrightarrow> A \<le> B \<Longrightarrow> reads_upto A io"
  unfolding reads_upto_def by (meson le_trans)

section \<open>Changing the configuration\<close>

lemma setState_backend [simp]: "h_backend (setState W st h) = h_backend h" "h_api (setState W st h) = h_api h"
  by (simp_all add: setState_def emitEvent_def queueEvent_def)

lemma start_records:
  assumes "records (w_api W p)" "start_backend W r p preset h = (True, h')"
  shows "\<exists>profile. h' = h\<lparr>h_api := Some p, h_profile := profile, h_backend := Some []\<rparr>"
proof -
  let ?m = "if usesLora r then MODULATION_LORA else MODULATION_ESPNOW"
  obtain e profile where g: "b_get_radio_profile (w_api W p) [] (h_appliedRegion h) ?m preset = Done ([], e, profile)"
    using assms(1) unfolding records_def by blast
  have c: "b_create (w_api W p) = Done (Some [])" using assms(1) by (simp add: records_def)
  have "e = ERROR_NONE" using assms(2) by (simp add: start_backend_def c g Let_def split: if_splits)
  with assms(2) show ?thesis by (auto simp: start_backend_def c g Let_def)
qed

text \<open>Where \<open>configure\<close> ends with the backend active, it starts it and passes it what it has to send.\<close>

lemma configure_records:
  assumes "mesh_inv ids h" "world_ok ids W" "h_api h \<noteq> None" "records (w_api W p)" "h_api (configure W h) = Some p"
  shows "\<exists>g. configure W h = resubmitPending W g \<and> h_api g = Some p \<and> h_backend g = Some [] \<and> log_of g = log_of (deactivateBackend W h)"
proof -
  let ?h0 = "deactivateBackend W h"
  have h0: "data_ok ?h0" "backend_off ?h0" "h_radio ?h0 = h_radio h" "h_radioAcquired ?h0 = h_radioAcquired h"
    using deactivate_off [OF inv_data [OF assms(1)] inv_off_or_up [OF assms(1)] assms(2)] by blast+
  obtain r where r: "h_radio h = Some r" "h_radioAcquired h" using assms(1,3) by (auto simp: mesh_inv_defs)
  have c: "configure W h = (case getSelectedBackend W ?h0 of None \<Rightarrow> setState W MESH_STATE_NO_BACKEND ?h0
      | Some p \<Rightarrow> activate W r p (findPreset (w_api W p) (st_preset (g_settings ?h0))) ?h0)"
    using h0(3,4) r by (simp add: configure_def Let_def)
  have off: "h_api ?h0 = None" using h0(2) by (simp add: backend_off_def)
  then obtain p' where p': "getSelectedBackend W ?h0 = Some p'" using assms(5) unfolding c by (auto split: option.splits)
  let ?preset = "findPreset (w_api W p') (st_preset (g_settings ?h0))"
  have cp: "configure W h = activate W r p' ?preset ?h0" using p' by (simp add: c)
  have "p' = p" using activate_inv [OF h0(1,2) _ _ assms(2), of r p' ?preset] h0(3,4) r assms(5) unfolding cp by auto
  define h1 where "h1 = ?h0\<lparr>h_appliedRegion := ra_region (w_radio W)\<rparr>"
  have h1: "data_ok h1" "backend_off h1" "h_radio h1 = Some r" "h_radioAcquired h1"
    using h0 r by (simp_all add: h1_def backend_off_update)
  obtain ok h2 where s: "start_backend W r p ?preset h1 = (ok, h2)" by fastforce
  have inv2: "data_ok h2" "if ok then backend_up h2 else backend_off h2" "h_radio h2 = Some r"
    using start_backend_inv [OF h1 assms(2), of p ?preset] s by auto
  obtain okp h3 where a: "applyProfile W h2 = (okp, h3)" by fastforce
  then obtain l where h3: "h3 = h2\<lparr>h_radio_log := l\<rparr>" using applyProfile_log [of h2 W] inv2(3) by auto
  let ?h4 = "setState W MESH_STATE_ON (h3\<lparr>h_activeBackend := take MESH_BACKEND_ID_MAX_LENGTH (b_id (w_api W p))\<rparr>)"
  have act: "configure W h = (if h_appliedRegion h1 = REGION_UNSET \<and> usesLora r then setState W MESH_STATE_NO_REGION h1
     else if \<not> ok then h2 else if \<not> okp then setState W MESH_STATE_ERROR (deactivateBackend W h3)
     else resubmitPending W (snd (on_backend W b_on_start ?h4)))"
    unfolding cp \<open>p' = p\<close> activate_def Let_def h1_def [symmetric] s [unfolded \<open>p' = p\<close>] by (simp add: a split: bool.split)
  have "ok" using assms(5) inv2(2) h1(2) unfolding act by (cases ok) (auto simp: backend_off_def split: if_splits)
  then have "data_ok h3" "backend_up h3" using inv2 h3 by (auto simp: backend_up_def radio_ok_def)
  then have "backend_off (deactivateBackend W h3)" using deactivate_off assms(2) by blast
  then have e: "configure W h = resubmitPending W (snd (on_backend W b_on_start ?h4))"
    using assms(5) h1(2) \<open>ok\<close> unfolding act by (auto simp: backend_off_def split: if_splits)
  obtain profile where h2: "h2 = h1\<lparr>h_api := Some p, h_profile := profile, h_backend := Some []\<rparr>"
    using start_records [OF assms(4), of r ?preset h1 h2] s \<open>ok\<close> by auto
  have "log_of ?h4 = log_of ?h0" unfolding log_of_emit by (simp add: h3 h2 h1_def log_of_def)
  moreover have "h_api ?h4 = Some p" "h_backend ?h4 = Some []" by (simp_all add: h3 h2)
  moreover from this have "snd (on_backend W b_on_start ?h4) = ?h4\<lparr>h_backend := Some []\<rparr>"
    using assms(4) by (simp add: on_backend_def records_def)
  ultimately show ?thesis using e by (intro exI [of _ "snd (on_backend W b_on_start ?h4)"]) (simp add: log_of_def)
qed


section \<open>An example\<close>

lemma setDelivery_buffered:
  assumes "buffer s = Some buf" "length buf + 11 \<le> bufferSize (limits s)"
  shows "\<exists>e s'. MeshStore_setDelivery io q d s fs = Some (e, s', fs) \<and> segments s' = segments s \<and> nextSeq s' = nextSeq s \<and> limits s' = limits s \<and>
    (\<exists>buf'. buffer s' = Some buf' \<and> length buf' \<le> length buf + 11)"
proof (cases "findEntry q (index s)")
  case (Some i)
  then show ?thesis using assms
    by (simp add: MeshStore_setDelivery_def appendRecord_def bufferUsed_def Let_def RECORD_HEADER_SIZE_def RECORD_TYPE_DELIVERY_def RECORD_TYPE_MESSAGE_def)
qed (use assms in \<open>simp add: MeshStore_setDelivery_def\<close>)

definition quiet :: "nat \<Rightarrow> 'b mesh \<Rightarrow> bool" where
  "quiet n h \<longleftrightarrow> \<not> h_spent h \<and> \<not> full (h_store h) \<and> room (h_store h) \<and> nextSeq (h_store h) < - 1 \<and>
     (\<exists>buf. buffer (h_store h) = Some buf \<and> length buf + 11 * n \<le> bufferSize (limits (h_store h)))"

lemma quiet_log: "log_of g = log_of h \<Longrightarrow> quiet n g = quiet n h"
  by (simp add: quiet_def log_of_def)

lemma setDelivery_quiet:
  assumes "quiet (Suc n) h"
  shows "quiet n (setDelivery W q d h)"
proof -
  obtain buf where b: "buffer (h_store h) = Some buf" "length buf + 11 + 11 * n \<le> bufferSize (limits (h_store h))" using assms by (auto simp: quiet_def)
  then obtain e s' buf' where m: "MeshStore_setDelivery (w_store W) q (delivery_code d) (h_store h) (h_disk h) = Some (e, s', h_disk h)"
    "segments s' = segments (h_store h)" "nextSeq s' = nextSeq (h_store h)" "limits s' = limits (h_store h)" "buffer s' = Some buf'" "length buf' \<le> length buf + 11"
    using setDelivery_buffered [OF b(1), of "w_store W" q "delivery_code d" "h_disk h"] by auto
  have "log_of (setDelivery W q d h) = (s', h_disk h, h_spent (spend h))"
    using m(1) by (simp add: setDelivery_def Let_def) (simp add: log_of_def)
  then show ?thesis using assms b(2) m by (auto simp: quiet_def log_of_def spend_def room_def full_def)
qed

lemma deliveries_quiet: "quiet (length qs + n) h \<Longrightarrow> quiet n (fold (\<lambda>q. setDelivery W q d) qs h)"
  by (induction qs arbitrary: h) (simp_all add: setDelivery_quiet)

definition rec_api :: "submission list MeshBackendApi" where
  "rec_api = \<lparr>b_id = bytes_of ''note'', b_presets = [], b_create = Done (Some []), b_destroy = (\<lambda>b. Done ()),
     b_get_radio_profile = (\<lambda>b r m p. Done (b, ERROR_NONE, MeshRadioProfile_init\<lparr>modulation := m, frequency := 869525000\<rparr>)),
     b_on_start = (\<lambda>b. Done (b, ())), b_on_receive = (\<lambda>b bs sig. Done (b, True)), b_on_tick = (\<lambda>b. Done (b, ())),
     b_send_text = (\<lambda>b q to ch s. Done (b @ [(q, to, ch, s)], ERROR_NONE)), b_get_channels = None, b_set_channel = None, b_get_contact_uri = None,
     b_is_valid_contact_address = None, b_on_node_name_changed = None, b_remove_channel = None\<rparr>"

definition rec_world :: "submission list mesh_world" where
  "rec_world = \<lparr>w_api = (\<lambda>_. rec_api), w_micros = 0, w_time = 1800000000, w_store = demo_store_io\<lparr>readable_bytes := \<lambda>p. Some 100000\<rparr>, w_settings = some_settings_io,
     w_contacts = \<lparr>ci_path = True, ci_directory = True, ci_made = ERROR_NONE, ci_readable = Some 1000, ci_writable = Some 1000\<rparr>,
     w_radios = [demo_radio], w_radio = demo_answers, w_airtime = (\<lambda>p n. 100)\<rparr>"

definition rec_message :: MeshMessage where
  "rec_message = some_message\<lparr>m_backend := string_array MESH_BACKEND_ID_MAX_LENGTH (bytes_of ''note''), m_text := string_array MESH_TEXT_MAX_LENGTH (bytes_of ''hello'')\<rparr>"

text \<open>The log with a message that waits, and a service whose backend is active.\<close>

definition rec_log :: MeshStore where
  "rec_log = (case MeshStore_add demo_store_io rec_message demo_log Map.empty of Some (e, m, s, fs) \<Rightarrow> s)"

definition rec_on :: "submission list mesh" where
  "rec_on = (mesh_boot (\<lambda>_. demo_subscription) Map.empty Map.empty None)\<lparr>g_backends := [1], g_settingsLoaded := True, h_store := rec_log, h_radio := Some demo_radio,
     h_refs := 1, h_radioAcquired := True, h_api := Some 1, h_backend := Some [], h_appliedRegion := REGION_EU_868, h_activeBackend := bytes_of ''note'',
     h_state := MESH_STATE_ON, g_service := True, h_running := True\<rparr>"

lemma rec_message_ok: "message_wf rec_message"
  by (simp add: rec_message_def some_message_def MeshMessage_init_def message_wf_def mesh_sizes string_array_def c_string_def bytes_of_def)

definition rec_messages :: "MeshMessage list" where
  "rec_messages = [canonical (rec_message\<lparr>m_seq := 1\<rparr>)]"

lemma rec_add: "log_rel Map.empty rec_log rec_messages \<and> segments rec_log = [0] \<and> nextSeq rec_log = 2 \<and> limits rec_log = DEFAULT_LIMITS \<and>
    (\<exists>buf. buffer rec_log = Some buf \<and> length buf \<le> 400)"
proof -
  let ?m = "rec_message\<lparr>m_seq := 1\<rparr>"
  have d: "buffer demo_log = Some []" "segments demo_log = [0]" "nextSeq demo_log = 1" "limits demo_log = DEFAULT_LIMITS"
    by (simp_all add: demo_log_def MeshStore_new_def)
  have l: "log_rel Map.empty demo_log []" unfolding demo_log_def using log_rel_new [OF DEFAULT_LIMITS_ok, of Map.empty "''/data''"] by (simp add: MeshStore_new_def)
  have room: "room demo_log" "nextSeq demo_log < - 1" by (simp_all add: room_def d PENDING_def word_gt_0 word_less_nat_alt unsigned_minus_1_eq_mask mask_eq_exp_minus_1)
  obtain e s' fs' k where a: "MeshStore_add demo_store_io rec_message demo_log Map.empty = Some (e, ?m, s', fs')"
    "log_rel fs' s' (if e = ERROR_NONE then drop k [] @ [canonical ?m] else [])"
    using add_rel [OF l room(1) rec_message_ok room(2), of demo_store_io] unfolding d by blast
  have bs: "serializeMessage ?m MESSAGE_PAYLOAD_MAX_SIZE = message_bytes ?m" by (rule serialize_message) (simp add: mesh_sizes)
  have len: "message_bytes ?m \<noteq> []" "length (message_bytes ?m) \<le> 314" using message_bytes_length [of ?m] by (auto simp: mesh_sizes)
  have "message_wf ?m" using rec_message_ok by simp
  from index_entry_of_message [OF this] obtain en where en: "makeIndexEntry (snd (deserializeMessage (message_bytes ?m))) PENDING 0 = Some en" by blast
  have "MeshStore_add demo_store_io rec_message demo_log Map.empty = Some (ERROR_NONE, ?m, demo_log\<lparr>nextSeq := 2, index := index demo_log @ [en],
      firstPendingMs := 0, buffer := Some (record_bytes RECORD_TYPE_MESSAGE (message_bytes ?m))\<rparr>, Map.empty)"
    using len en by (simp add: MeshStore_add_def Let_def bs d appendRecord_def bufferUsed_def DEFAULT_LIMITS_def RECORD_HEADER_SIZE_def)
  with a len(2) show ?thesis by (auto simp: rec_log_def d rec_messages_def)
qed

lemma rec_records: "records rec_api"
  by (simp add: records_def rec_api_def bytes_of_def mesh_sizes)

lemma rec_world_ok: "world_ok (\<lambda>_. bytes_of ''note'') rec_world"
  by (simp add: world_ok_def rec_world_def rec_api_def lawful_api_def)

lemma rec_on_inv: "mesh_inv (\<lambda>_. bytes_of ''note'') rec_on"
  using rec_add
  by (auto simp: mesh_inv_defs rec_on_def mesh_boot_def createService_def data_ok_def sane_def log_ok_def subs_ok_def demo_subscription_def service_sizes
    queue_ok_def bytes_of_def mesh_sizes)

lemma settings_loop [simp]: "g_settings (queue_loop e ps h) = g_settings h"
  by (induction ps arbitrary: h) (simp_all add: Let_def)

lemma setDelivery_settings [simp]: "g_settings (setDelivery W q d h) = g_settings h"
  by (simp add: setDelivery_def emitEvent_def queueEvent_def abort_def spend_def Let_def split: option.split prod.split)

lemma deliveries_settings [simp]: "g_settings (fold (\<lambda>q. setDelivery W q d) qs h) = g_settings h"
  by (induction qs arbitrary: h) simp_all

lemma sendStored_api: "records (w_api W p) \<Longrightarrow> h_api h = Some p \<Longrightarrow> h_api (sendStored W q h) = Some p"
proof -
  assume a: "records (w_api W p)" "h_api h = Some p"
  obtain e m g where g: "store_get W q h = ((e, m), g)" by (metis surj_pair)
  then have "h_api g = Some p" using a(2) by (auto simp: store_get_def abort_def split: option.splits)
  then show ?thesis using a(1) by (cases "h_backend g") (auto simp: sendStored_def g on_backend_def records_def abort_def)
qed

lemma resubmit_api:
  assumes "records (w_api W p)" "h_api h = Some p"
  shows "h_api (resubmitPending W h) = Some p"
proof -
  have f: "h_api g = Some p \<Longrightarrow> h_api (fold (sendStored W) qs g) = Some p" for qs g
    by (induction qs arbitrary: g) (simp_all add: sendStored_api [OF assms(1)])
  obtain seqs g where g: "store_outgoing W (b_id (w_api W p)) DELIVERY_BLOCKED h = (seqs, g)" by fastforce
  then have "h_api g = Some p" using assms(2) by (auto simp: store_outgoing_def abort_def split: option.splits)
  then show ?thesis using assms(2) f by (simp add: resubmitPending_def g)
qed

lemma rec_world_sel [simp]: "w_api rec_world q = rec_api" "w_radio rec_world = demo_answers" "b_presets rec_api = []" "b_create rec_api = Done (Some [])"
  "b_id rec_api = bytes_of ''note''" "b_on_start rec_api b = Done (b, ())"
  "b_get_radio_profile rec_api b r m i = Done (b, ERROR_NONE, MeshRadioProfile_init\<lparr>modulation := m, frequency := 869525000\<rparr>)"
  by (simp_all add: rec_world_def rec_api_def)

lemma rec_configure_api: "h_api (configure rec_world rec_on) = Some 1"
proof -
  let ?h0 = "deactivateBackend rec_world rec_on"
  have on: "h_api rec_on = Some 1" "h_radio rec_on = Some demo_radio" "h_radioAcquired rec_on" "g_backends rec_on = [1]" "g_settings rec_on = MeshSettings_init"
    by (simp_all add: rec_on_def mesh_boot_def createService_def)
  note off = deactivate_off [OF inv_data [OF rec_on_inv] inv_off_or_up [OF rec_on_inv] rec_world_ok]
  have "g_settings ?h0 = MeshSettings_init"
    using on(5) by (simp add: deactivateBackend_def rec_on_def mesh_boot_def createService_def rec_api_def store_outgoing_def radioOff_def log_radio_def abort_def Let_def
      split: option.split)
  then have c: "configure rec_world rec_on = activate rec_world demo_radio 1 0 ?h0"
    using off on by (simp add: configure_def getSelectedBackend_def same_queue_def MeshSettings_init_def findPreset_def Let_def)
  have a: "h_api (activate rec_world demo_radio 1 0 h) = Some 1" if "h_radio h = Some demo_radio" for h
    using that resubmit_api [of rec_world 1] rec_records
    by (simp add: activate_def start_backend_def Let_def usesLora_def demo_radio_def demo_answers_def)
      (simp add: applyProfile_def profile_parameters_def log_radio_def demo_answers_def on_backend_def Let_def)
  show ?thesis using off on a [of ?h0] by (simp add: c)
qed

lemma quiet_mono: "quiet n h \<Longrightarrow> m \<le> n \<Longrightarrow> quiet m h"
  unfolding quiet_def by (meson add_le_mono1 add_left_mono le_trans mult_le_mono2)

lemma deliveries_unspent:
  assumes "quiet n h" "length qs \<le> n"
  shows "\<not> h_spent (fold (\<lambda>q. setDelivery W q d) qs h) \<and> quiet (n - length qs) (fold (\<lambda>q. setDelivery W q d) qs h)"
proof -
  have "quiet (length qs + (n - length qs)) h" using assms by simp
  from deliveries_quiet [OF this] show ?thesis by (simp add: quiet_def)
qed

lemma rec_configure: "\<not> h_spent (configure rec_world rec_on) \<and> \<not> full (h_store (configure rec_world rec_on))"
proof -
  let ?h0 = "deactivateBackend rec_world rec_on" and ?id = "bytes_of ''note''"
  have on: "h_api rec_on = Some 1" "h_backend rec_on = Some []" "h_store rec_on = rec_log" "h_disk rec_on = Map.empty" "\<not> h_spent rec_on"
    by (simp_all add: rec_on_def mesh_boot_def createService_def)
  have b: "b_destroy rec_api [] = Done ()" by (simp add: rec_api_def)
  have m: "messages rec_on rec_messages" using rec_add by (simp add: messages_def on)
  have f: "fits 0 (h_disk rec_on)" by (simp add: fits_def on)
  have reads: "reads_upto 100000 (w_store rec_world)" by (simp add: reads_upto_def rec_world_def)
  have q: "quiet 2 rec_on" using rec_add by (auto simp: quiet_def on room_def full_def DEFAULT_LIMITS_def word_less_nat_alt PENDING_def unsigned_minus_1_eq_mask mask_eq_exp_minus_1)
  have len: "length rec_messages = 1" by (simp add: rec_messages_def)
  have out: "length (log_outgoing ?id c rec_messages) \<le> 1" for c using outgoing_le [of ?id c rec_messages] by (simp add: len)
  obtain g0 where g0: "log_of g0 = log_of rec_on"
    "?h0 = (fold (\<lambda>seq. setDelivery rec_world seq DELIVERY_BLOCKED) (log_outgoing ?id (delivery_code DELIVERY_QUEUED) rec_messages) g0)\<lparr>h_nodes := [], h_activeBackend := []\<rparr>"
    using deactivate_eq [of rec_on 1 "[]" rec_world, OF on(1,2) _ m fits_reads [OF f reads]] b by auto
  have "quiet 2 g0" using q quiet_log [OF g0(1)] by simp
  then have "quiet (2 - length (log_outgoing ?id (delivery_code DELIVERY_QUEUED) rec_messages))
      (fold (\<lambda>seq. setDelivery rec_world seq DELIVERY_BLOCKED) (log_outgoing ?id (delivery_code DELIVERY_QUEUED) rec_messages) g0)"
    using deliveries_unspent [of 2 g0] out le_SucI by (metis Suc_1 One_nat_def)
  then have "quiet 1 (fold (\<lambda>seq. setDelivery rec_world seq DELIVERY_BLOCKED) (log_outgoing ?id (delivery_code DELIVERY_QUEUED) rec_messages) g0)"
    by (rule quiet_mono) (use out [of "delivery_code DELIVERY_QUEUED"] in arith)
  then have q0: "quiet 1 ?h0" by (subst quiet_log [of ?h0]) (simp_all add: g0(2) log_of_def)
  then have spent: "\<not> h_spent ?h0" by (simp add: quiet_def)
  obtain g where g: "configure rec_world rec_on = resubmitPending rec_world g" "h_api g = Some 1" "h_backend g = Some []" "log_of g = log_of ?h0"
    using configure_records [OF rec_on_inv rec_world_ok, of 1] on(1) rec_records rec_configure_api by auto
  obtain ms where ms: "messages ?h0 ms" "limits (h_store ?h0) = DEFAULT_LIMITS" "fits (bufferSize DEFAULT_LIMITS) (h_disk ?h0)" "length ms \<le> 1"
    "\<forall>m\<in>set ms. \<not> awaits ?id (delivery_code DELIVERY_QUEUED) m"
  proof -
    have lim: "limits (h_store rec_on) = DEFAULT_LIMITS" using rec_add on(3) by simp
    have "b_destroy (w_api rec_world 1) [] = Done ()" using b by simp
    from deactivate_messages [OF on(1,2) this m f reads_upto_mono [OF reads] spent] obtain k where
      "messages ?h0 (drop k (map (\<lambda>m. if awaits ?id (delivery_code DELIVERY_QUEUED) m then m\<lparr>m_delivery := delivery_code DELIVERY_BLOCKED\<rparr> else m) rec_messages))"
      "limits (h_store ?h0) = DEFAULT_LIMITS" "fits (bufferSize DEFAULT_LIMITS) (h_disk ?h0)"
      by (auto simp: len lim)
    then show thesis by (rule that) (auto simp: len awaits_def dest!: in_set_dropD)
  qed
  have mg: "messages g ms" "h_store g = h_store ?h0" "h_disk g = h_disk ?h0" using ms(1) messages_log [OF g(4)] g(4) by (simp_all add: log_of_def)
  let ?h = "fold (\<lambda>seq. setDelivery rec_world seq DELIVERY_QUEUED) (log_outgoing ?id (delivery_code DELIVERY_BLOCKED) ms) g"
  have "\<exists>n. quiet n ?h" using deliveries_unspent [of 1 g] q0 quiet_log [OF g(4)] outgoing_le [of ?id _ ms] ms(4) le_trans by blast
  then have h: "\<not> h_spent ?h" "\<not> full (h_store ?h)" by (auto simp: quiet_def)
  moreover have "reads_upto (bufferSize DEFAULT_LIMITS + length ms * bufferSize (limits (h_store g))) (w_store rec_world)"
    using reads by (rule reads_upto_mono) (use ms(2,4) in \<open>simp add: mg(2) DEFAULT_LIMITS_def\<close>)
  ultimately show ?thesis using resubmit_messages [OF mg(1), of "bufferSize DEFAULT_LIMITS" rec_world 1] ms g rec_records h
    by (auto simp: mg(3) Let_def log_of_def)
qed

lemma rec_messages_eq: "\<exists>m. rec_messages = [m] \<and> awaits (bytes_of ''note'') (delivery_code DELIVERY_QUEUED) m \<and> submission_of m = (1, None, 0, bytes_of ''hello'')"
proof -
  let ?m = "canonical (rec_message\<lparr>m_seq := 1\<rparr>)"
  have "c_string (bytes_of ''hello'') = bytes_of ''hello''" "c_string (bytes_of ''note'') = bytes_of ''note''" by (simp_all add: c_string_def bytes_of_def)
  then have "c_string (m_text ?m) = bytes_of ''hello''" "c_string (take MESH_BACKEND_ID_MAX_LENGTH (m_backend ?m)) = bytes_of ''note''"
    by (simp_all add: canonical_def rec_message_def c_string_array) (simp_all add: bytes_of_def mesh_sizes)
  moreover from this have "awaits (bytes_of ''note'') (delivery_code DELIVERY_QUEUED) ?m"
    by (simp add: awaits_def same_backend_def) (simp add: canonical_def rec_message_def some_message_def c_string_def bytes_of_def mesh_sizes)
  moreover have "addr_length (m_peer ?m) = 0" "m_channel ?m = 0" "m_seq ?m = 1"
    by (simp_all add: canonical_def rec_message_def some_message_def MeshMessage_init_def)
  ultimately show ?thesis by (intro exI [of _ ?m]) (simp add: rec_messages_def submission_of_def)
qed


end
