(* ===== verification/App_Manifest.thy ===== *)
theory App_Manifest
  imports Preferences "HOL-Library.AList"
begin

text \<open>
  The manifests of app packages (\<open>Modules/app-module\<close>: \<open>manifest.cpp\<close>, \<open>package_manifest_parsing.cpp\<close>, its versions 2 and 3,
  \<open>package_compatibility.cpp\<close>): a text file of \<open>key=value\<close> lines that describes a package and its apps. A fixed array that holds a
  C string is that string. Fields whose errors are all \<open>ERROR_INVALID_ARGUMENT\<close> are read in the option monad. What the code wrote to its results before an
  error is left out: all callers drop it.
\<close>

section \<open>Data\<close>

datatype AppCategory = APP_CATEGORY_SYSTEM | APP_CATEGORY_SETTINGS | APP_CATEGORY_USER

text \<open>A location in memory is an address, one on disk a path.\<close>

datatype AppLocation = APP_LOCATION_MEMORY ptr | APP_LOCATION_PATH string

record AppStackConfig =
  sk_depth :: "16 word"
  sk_memory :: "16 word"

record AppManifest =
  am_id :: string
  am_name :: string
  am_category :: AppCategory
  am_location :: AppLocation
  am_flags :: "8 word"
  am_stack :: AppStackConfig

record PackageManifest =
  pm_id :: string
  pm_version_name :: string
  pm_version_code :: "64 word"
  pm_target_sdk :: string
  pm_requires_device_id :: string
  pm_requires_ram :: "8 word"
  pm_count :: "32 word"

record AppManifestBinding =
  ab_manifest :: AppManifest
  ab_binary :: string

definition APP_MANIFEST_ID_LENGTH :: nat where "APP_MANIFEST_ID_LENGTH = 32"
definition APP_MANIFEST_NAME_LENGTH :: nat where "APP_MANIFEST_NAME_LENGTH = 32"
definition APP_MANIFEST_FLAG_HIDDEN :: "8 word" where "APP_MANIFEST_FLAG_HIDDEN = 1"
definition APP_MANIFEST_FLAG_HEADLESS :: "8 word" where "APP_MANIFEST_FLAG_HEADLESS = 2"
definition APP_MANIFEST_FLAG_CLEANUP :: "8 word" where "APP_MANIFEST_FLAG_CLEANUP = 4"
definition APP_STACK_SIZE_MAX :: nat where "APP_STACK_SIZE_MAX = 65535"
definition PACKAGE_MANIFEST_TARGET_SDK_LENGTH :: nat where "PACKAGE_MANIFEST_TARGET_SDK_LENGTH = 16"
definition PACKAGE_MANIFEST_ID_LENGTH :: nat where "PACKAGE_MANIFEST_ID_LENGTH = 32"
definition PACKAGE_MANIFEST_VERSION_NAME_LENGTH :: nat where "PACKAGE_MANIFEST_VERSION_NAME_LENGTH = 16"
definition PACKAGE_MANIFEST_REQUIRES_DEVICE_ID_LENGTH :: nat where "PACKAGE_MANIFEST_REQUIRES_DEVICE_ID_LENGTH = 64"
definition APP_MANIFEST_BINARY_LENGTH :: nat where "APP_MANIFEST_BINARY_LENGTH = 31"
definition PACKAGE_MANIFEST_MAX_APP_MANIFESTS :: nat where "PACKAGE_MANIFEST_MAX_APP_MANIFESTS = 32"

lemmas manifest_sizes = APP_MANIFEST_ID_LENGTH_def APP_MANIFEST_NAME_LENGTH_def APP_STACK_SIZE_MAX_def PACKAGE_MANIFEST_TARGET_SDK_LENGTH_def
  PACKAGE_MANIFEST_ID_LENGTH_def PACKAGE_MANIFEST_VERSION_NAME_LENGTH_def PACKAGE_MANIFEST_REQUIRES_DEVICE_ID_LENGTH_def
  APP_MANIFEST_BINARY_LENGTH_def PACKAGE_MANIFEST_MAX_APP_MANIFESTS_def

text \<open>The struct when its memory is zero.\<close>

definition AppManifest_zero :: AppManifest where
  "AppManifest_zero = \<lparr>am_id = '''', am_name = '''', am_category = APP_CATEGORY_SYSTEM, am_location = APP_LOCATION_MEMORY 0, am_flags = 0,
     am_stack = \<lparr>sk_depth = 0, sk_memory = 0\<rparr>\<rparr>"

section \<open>Characters and numbers\<close>

definition is_alnum :: "char \<Rightarrow> bool" where
  "is_alnum c \<longleftrightarrow> is_digit c \<or> 65 \<le> (of_char c :: nat) \<and> (of_char c :: nat) \<le> 90 \<or> 97 \<le> (of_char c :: nat) \<and> (of_char c :: nat) \<le> 122"

definition validate_string :: "string \<Rightarrow> (char \<Rightarrow> bool) \<Rightarrow> bool" where
  "validate_string s valid = list_all valid s"

text \<open>\<open>std::from_chars\<close> for an unsigned number of \<open>w\<close> bits: the value and the offset of the first character that is no digit.\<close>

definition from_chars :: "nat \<Rightarrow> string \<Rightarrow> (nat \<times> nat) option" where
  "from_chars w s = (let ds = takeWhile is_digit s in
     if ds = [] \<or> digits_value ds \<ge> 2 ^ w then None else Some (digits_value ds, length ds))"

definition require :: "bool \<Rightarrow> unit option" where
  "require b = (if b then Some () else None)"

section \<open>What is valid\<close>

definition app_manifest_id_is_valid :: "string \<Rightarrow> bool" where
  "app_manifest_id_is_valid v \<longleftrightarrow> 5 \<le> length v \<and> length v \<le> APP_MANIFEST_ID_LENGTH \<and> validate_string v (\<lambda>c. is_alnum c \<or> c = CHR ''.'')"

definition app_manifest_name_is_valid :: "string \<Rightarrow> bool" where
  "app_manifest_name_is_valid v \<longleftrightarrow> 2 \<le> length v \<and> length v \<le> APP_MANIFEST_NAME_LENGTH \<and>
     validate_string v (\<lambda>c. is_alnum c \<or> c = CHR '' '' \<or> c = CHR ''-'')"

definition app_manifest_stack_size_is_valid :: "string \<Rightarrow> bool" where
  "app_manifest_stack_size_is_valid v \<longleftrightarrow> 0 < length v \<and> length v \<le> 10 \<and> validate_string v is_digit"

definition is_valid_format_version :: "string \<Rightarrow> bool" where
  "is_valid_format_version v \<longleftrightarrow> v \<noteq> '''' \<and> validate_string v (\<lambda>c. is_alnum c \<or> c = CHR ''.'')"

definition is_valid_version_name :: "string \<Rightarrow> bool" where
  "is_valid_version_name v \<longleftrightarrow> v \<noteq> '''' \<and> length v \<le> PACKAGE_MANIFEST_VERSION_NAME_LENGTH \<and>
     validate_string v (\<lambda>c. is_alnum c \<or> c = CHR ''.'' \<or> c = CHR ''-'' \<or> c = CHR ''_'')"

definition is_valid_version_code :: "string \<Rightarrow> bool" where
  "is_valid_version_code v \<longleftrightarrow> v \<noteq> '''' \<and> length v \<le> 20 \<and> validate_string v is_digit"

definition is_valid_bool :: "string \<Rightarrow> bool" where
  "is_valid_bool v \<longleftrightarrow> v = ''true'' \<or> v = ''false''"

definition is_valid_binary_name :: "string \<Rightarrow> bool" where
  "is_valid_binary_name v \<longleftrightarrow> v \<noteq> '''' \<and> length v \<le> APP_MANIFEST_BINARY_LENGTH \<and>
     validate_string v (\<lambda>c. is_alnum c \<or> c = CHR ''.'' \<or> c = CHR ''_'' \<or> c = CHR ''-'')"

lemma find_char_less: "find_char s c = Some n \<Longrightarrow> n < length s"
  by (auto simp: find_char_def Let_def length_takeWhile_le le_neq_implies_less split: if_splits)

text \<open>The loop over the items of a list, from an item on.\<close>

function validate_csv_loop :: "(string \<Rightarrow> bool) \<Rightarrow> string \<Rightarrow> bool" where
  "validate_csv_loop valid s = (case find_char s (CHR '','') of
       None \<Rightarrow> s \<noteq> '''' \<and> valid s
     | Some n \<Rightarrow> n \<noteq> 0 \<and> valid (take n s) \<and> validate_csv_loop valid (drop (n + 1) s))"
  by pat_completeness auto
termination
  by (relation "measure (\<lambda>(valid, s). length s)") (auto dest!: find_char_less)

declare validate_csv_loop.simps [simp del]

definition validate_csv_list :: "string \<Rightarrow> (string \<Rightarrow> bool) \<Rightarrow> bool" where
  "validate_csv_list value valid = (if value = '''' then False else validate_csv_loop valid value)"

definition is_device_id :: "string \<Rightarrow> bool" where
  "is_device_id item \<longleftrightarrow> list_all (\<lambda>c. is_alnum c \<or> c = CHR ''-'') item \<and> list_ex is_alnum item"

definition is_valid_device_id_list :: "string \<Rightarrow> bool" where
  "is_valid_device_id_list value = validate_csv_list value is_device_id"

text \<open>The string that fits into an array of \<open>n\<close> bytes.\<close>

definition copy_bounded :: "nat \<Rightarrow> string \<Rightarrow> string option" where
  "copy_bounded n value = (if length value \<ge> n then None else Some (c_str value))"

section \<open>Reading the file\<close>

text \<open>The lines that \<open>std::getline\<close> returns one after the other.\<close>

fun getlines :: "string \<Rightarrow> string list" where
  "getlines [] = []"
| "getlines (c # cs) = (if c = LF then [] # getlines cs
     else case getlines cs of [] \<Rightarrow> [[c]] | l # ls \<Rightarrow> (c # l) # ls)"

text \<open>A \<open>std::map\<close> is its entries; nothing depends on their order.\<close>

type_synonym properties = "(string \<times> string) list"

definition load_line :: "string \<Rightarrow> properties \<Rightarrow> properties" where
  "load_line line ps = (let trimmed_line = trim line WS_LINE in
     if trimmed_line = '''' \<or> hd trimmed_line = CHR ''#'' then ps
     else case split_key_value trimmed_line of
            None \<Rightarrow> ps
          | Some (key, value) \<Rightarrow> AList.update (trim key WS_LINE) (trim value WS_LINE) ps)"

definition load_properties :: "file_map \<Rightarrow> string \<Rightarrow> properties option" where
  "load_properties fs path = map_option (\<lambda>content. fold load_line (getlines content) []) (fs path)"

abbreviation get_value :: "properties \<Rightarrow> string \<Rightarrow> string option" where
  "get_value ps key \<equiv> map_of ps key"

section \<open>Fields of both versions\<close>

definition parse_id :: "properties \<Rightarrow> string \<Rightarrow> string option" where
  "parse_id ps key = do { id \<leftarrow> get_value ps key; require (app_manifest_id_is_valid (c_str id)); copy_bounded (PACKAGE_MANIFEST_ID_LENGTH + 1) id }"

definition parse_version_name :: "properties \<Rightarrow> string \<Rightarrow> string option" where
  "parse_version_name ps key = do {
     v \<leftarrow> get_value ps key; require (is_valid_version_name v); copy_bounded (PACKAGE_MANIFEST_VERSION_NAME_LENGTH + 1) v }"

definition parse_version_code :: "properties \<Rightarrow> string \<Rightarrow> 64 word option" where
  "parse_version_code ps key = do {
     v \<leftarrow> get_value ps key; require (is_valid_version_code v); (n, i) \<leftarrow> from_chars 64 v; Some (of_nat n) }"

definition parse_target_sdk :: "properties \<Rightarrow> string option" where
  "parse_target_sdk ps = do { v \<leftarrow> get_value ps ''target.sdk''; copy_bounded (PACKAGE_MANIFEST_TARGET_SDK_LENGTH + 1) v }"

definition parse_device_ids :: "properties \<Rightarrow> string option" where
  "parse_device_ids ps = (case map_of ps ''requires.device.id'' of
       None \<Rightarrow> Some ''''
     | Some v \<Rightarrow> do { require (is_valid_device_id_list v); copy_bounded (PACKAGE_MANIFEST_REQUIRES_DEVICE_ID_LENGTH + 1) v })"

definition parse_stack_depth :: "properties \<Rightarrow> string \<Rightarrow> 16 word option" where
  "parse_stack_depth ps key = (case map_of ps key of
       None \<Rightarrow> Some 0
     | Some v \<Rightarrow> do {
         require (app_manifest_stack_size_is_valid (c_str v));
         (n, i) \<leftarrow> from_chars 32 v;
         require (n \<le> APP_STACK_SIZE_MAX);
         Some (of_nat n) })"

section \<open>Version 2\<close>

definition package_manifest_parse_v2 :: "properties \<Rightarrow> nat \<Rightarrow> (PackageManifest \<times> AppManifestBinding list) option" where
  "package_manifest_parse_v2 ps capacity = do {
     version \<leftarrow> get_value ps ''manifest.version'';
     require (is_valid_format_version version);
     id \<leftarrow> get_value ps ''app.id'';
     pid \<leftarrow> parse_id ps ''app.id'';
     name \<leftarrow> get_value ps ''app.name'';
     require (app_manifest_name_is_valid (c_str name));
     version_name \<leftarrow> parse_version_name ps ''app.version.name'';
     version_code \<leftarrow> parse_version_code ps ''app.version.code'';
     target_sdk \<leftarrow> parse_target_sdk ps;
     devices \<leftarrow> parse_device_ids ps;
     let package = \<lparr>pm_id = pid, pm_version_name = version_name, pm_version_code = version_code, pm_target_sdk = target_sdk,
       pm_requires_device_id = devices, pm_requires_ram = 0, pm_count = 1\<rparr>;
     if capacity = 0 then Some (package, [])
     else do {
       binary \<leftarrow> copy_bounded (APP_MANIFEST_BINARY_LENGTH + 1) ''app'';
       mid \<leftarrow> copy_bounded (APP_MANIFEST_ID_LENGTH + 1) id;
       mname \<leftarrow> copy_bounded (APP_MANIFEST_NAME_LENGTH + 1) name;
       depth \<leftarrow> parse_stack_depth ps ''app.stack.depth'';
       Some (package, [\<lparr>ab_manifest = AppManifest_zero\<lparr>am_id := mid, am_name := mname, am_stack := \<lparr>sk_depth = depth, sk_memory = 0\<rparr>,
         am_flags := 0, am_category := APP_CATEGORY_USER\<rparr>, ab_binary = binary\<rparr>]) } }"

section \<open>Version 3\<close>

text \<open>The index in a key \<open>app.<index>.<rest>\<close>; \<open>w\<close> is the number of bits of \<open>size_t\<close>.\<close>

definition parse_app_key_index :: "nat \<Rightarrow> string \<Rightarrow> nat option" where
  "parse_app_key_index w key = do {
     require (take 4 key = ''app.'');
     dot \<leftarrow> find_from key (CHR ''.'') 4;
     require (dot \<noteq> 4);
     (index, len) \<leftarrow> from_chars w (substr key 4 (dot - 4));
     require (len = dot - 4);
     Some index }"

definition app_key :: "nat \<Rightarrow> string \<Rightarrow> string" where
  "app_key index rest = ''app.'' @ decimal index @ ''.'' @ rest"

definition parse_flag :: "properties \<Rightarrow> string \<Rightarrow> 8 word \<Rightarrow> 8 word \<Rightarrow> 8 word option" where
  "parse_flag ps key flag flags = (case map_of ps key of
       None \<Rightarrow> Some flags
     | Some v \<Rightarrow> do { require (is_valid_bool v); Some (if v = ''true'' then flags OR flag else flags) })"

definition parse_app_manifest :: "properties \<Rightarrow> nat \<Rightarrow> AppManifestBinding option" where
  "parse_app_manifest ps index = do {
     id \<leftarrow> get_value ps (app_key index ''id'');
     require (app_manifest_id_is_valid (c_str id));
     mid \<leftarrow> copy_bounded (APP_MANIFEST_ID_LENGTH + 1) id;
     binary \<leftarrow> get_value ps (app_key index ''binary'');
     require (is_valid_binary_name binary);
     mbinary \<leftarrow> copy_bounded (APP_MANIFEST_BINARY_LENGTH + 1) binary;
     name \<leftarrow> get_value ps (app_key index ''name'');
     require (app_manifest_name_is_valid (c_str name));
     mname \<leftarrow> copy_bounded (APP_MANIFEST_NAME_LENGTH + 1) name;
     depth \<leftarrow> parse_stack_depth ps (app_key index ''stack.depth'');
     flags \<leftarrow> parse_flag ps (app_key index ''hidden'') APP_MANIFEST_FLAG_HIDDEN 0;
     flags \<leftarrow> parse_flag ps (app_key index ''headless'') APP_MANIFEST_FLAG_HEADLESS flags;
     flags \<leftarrow> parse_flag ps (app_key index ''cleanup'') APP_MANIFEST_FLAG_CLEANUP flags;
     Some \<lparr>ab_manifest = AppManifest_zero\<lparr>am_id := mid, am_name := mname, am_stack := \<lparr>sk_depth = depth, sk_memory = 0\<rparr>,
       am_flags := flags, am_category := APP_CATEGORY_USER\<rparr>, ab_binary = mbinary\<rparr> }"

definition parse_ram :: "properties \<Rightarrow> 8 word option" where
  "parse_ram ps = (case map_of ps ''requires.ram'' of
       None \<Rightarrow> Some 0
     | Some ram \<Rightarrow> do {
         (megabytes, len) \<leftarrow> from_chars 32 ram;
         require (len = length ram - 1 \<and> len < length ram \<and> ram ! len = CHR ''M'' \<and> megabytes \<le> 255);
         Some (of_nat megabytes) })"

text \<open>The number of apps, from one on: \<open>None\<close> where there are too many.\<close>

function count_apps :: "properties \<Rightarrow> nat \<Rightarrow> nat option" where
  "count_apps ps n = (if map_of ps (app_key n ''id'') = None then Some n
     else if n + 1 > PACKAGE_MANIFEST_MAX_APP_MANIFESTS then None else count_apps ps (n + 1))"
  by pat_completeness auto
termination
  by (relation "measure (\<lambda>(ps, n). PACKAGE_MANIFEST_MAX_APP_MANIFESTS - n)") auto

declare count_apps.simps [simp del]

fun parse_apps :: "properties \<Rightarrow> nat list \<Rightarrow> AppManifestBinding list option" where
  "parse_apps ps [] = Some []"
| "parse_apps ps (i # is) = do { b \<leftarrow> parse_app_manifest ps i; bs \<leftarrow> parse_apps ps is; Some (b # bs) }"

definition parse_package :: "properties \<Rightarrow> PackageManifest option" where
  "parse_package ps = do {
     pid \<leftarrow> parse_id ps ''id'';
     version_name \<leftarrow> parse_version_name ps ''version.name'';
     version_code \<leftarrow> parse_version_code ps ''version.code'';
     target_sdk \<leftarrow> parse_target_sdk ps;
     devices \<leftarrow> parse_device_ids ps;
     ram \<leftarrow> parse_ram ps;
     Some \<lparr>pm_id = pid, pm_version_name = version_name, pm_version_code = version_code, pm_target_sdk = target_sdk,
       pm_requires_device_id = devices, pm_requires_ram = ram, pm_count = 0\<rparr> }"

definition package_manifest_parse_v3 :: "nat \<Rightarrow> properties \<Rightarrow> nat \<Rightarrow> error_t + PackageManifest \<times> AppManifestBinding list" where
  "package_manifest_parse_v3 w ps capacity = (case parse_package ps of
       None \<Rightarrow> Inl ERROR_INVALID_ARGUMENT
     | Some package \<Rightarrow>
         case count_apps ps 0 of
           None \<Rightarrow> Inl ERROR_BUFFER_OVERFLOW
         | Some n \<Rightarrow>
             let package = package\<lparr>pm_count := of_nat n\<rparr> in
             if list_ex (\<lambda>(key, v). case parse_app_key_index w key of None \<Rightarrow> False | Some i \<Rightarrow> i \<ge> n) ps then Inl ERROR_INVALID_ARGUMENT
             else if n = 0 \<or> capacity = 0 then Inr (package, [])
             else if n > capacity then Inl ERROR_BUFFER_OVERFLOW
             else case parse_apps ps [0..<n] of
                None \<Rightarrow> Inl ERROR_INVALID_ARGUMENT
              | Some bs \<Rightarrow> Inr (package, bs))"

section \<open>The parser\<close>

definition app_package_manifest_parse :: "nat \<Rightarrow> file_map \<Rightarrow> string \<Rightarrow> nat \<Rightarrow> error_t + PackageManifest \<times> AppManifestBinding list" where
  "app_package_manifest_parse w fs path capacity = (case load_properties fs path of
       None \<Rightarrow> Inl ERROR_NOT_FOUND
     | Some ps \<Rightarrow>
         case get_value ps ''manifest.version'' of
           None \<Rightarrow> Inl ERROR_INVALID_ARGUMENT
         | Some version \<Rightarrow>
             if version = ''0.2'' then
               (case package_manifest_parse_v2 ps capacity of None \<Rightarrow> Inl ERROR_INVALID_ARGUMENT | Some r \<Rightarrow> Inr r)
             else if version = ''0.3'' then package_manifest_parse_v3 w ps capacity
             else Inl ERROR_INVALID_ARGUMENT)"

text \<open>The file is read twice: \<open>fs2\<close> are the files when it is read again.\<close>

definition app_package_manifest_parse_into ::
    "nat \<Rightarrow> file_map \<Rightarrow> file_map \<Rightarrow> string \<Rightarrow> error_t + PackageManifest \<times> AppManifestBinding list" where
  "app_package_manifest_parse_into w fs fs2 path = (case app_package_manifest_parse w fs path 0 of
       Inl e \<Rightarrow> Inl e
     | Inr (package, _) \<Rightarrow>
         let size = unat (pm_count package) in
         case app_package_manifest_parse w fs2 path size of
           Inl e \<Rightarrow> Inl e
         | Inr (package, bs) \<Rightarrow>
             if unat (pm_count package) \<noteq> size then Inl ERROR_INVALID_ARGUMENT
             else Inr (package, bs @ replicate (size - length bs) \<lparr>ab_manifest = AppManifest_zero, ab_binary = ''''\<rparr>))"

section \<open>Compatibility\<close>

function is_device_listed :: "string \<Rightarrow> string \<Rightarrow> bool" where
  "is_device_listed item device_id = (if item = '''' then False
     else case find_char item (CHR '','') of
       None \<Rightarrow> item = device_id
     | Some n \<Rightarrow> take n item = device_id \<or> is_device_listed (drop (n + 1) item) device_id)"
  by pat_completeness auto
termination
  by (relation "measure (\<lambda>(item, d). length item)") (auto dest!: find_char_less)

declare is_device_listed.simps [simp del]

text \<open>The id of the device and the sizes of its memories are arguments.\<close>

definition app_package_manifest_is_compatible :: "string \<Rightarrow> 64 word \<Rightarrow> 64 word \<Rightarrow> PackageManifest \<Rightarrow> bool" where
  "app_package_manifest_is_compatible device_id heap external m =
     (if pm_requires_device_id m \<noteq> '''' \<and> \<not> is_device_listed (pm_requires_device_id m) device_id then False
      else heap + external \<ge> ucast (pm_requires_ram m) * 1024 * 1024)"

end
