(* ===== verification/App_Packages.thy ===== *)
theory App_Packages
  imports App_Manifest
begin

text \<open>What the parser of manifests guarantees: whatever the file holds, what is accepted is well-formed; and what is printed is read back.\<close>

section \<open>Accepted manifests are well-formed\<close>

definition package_ok :: "PackageManifest \<Rightarrow> bool" where
  "package_ok p \<longleftrightarrow> app_manifest_id_is_valid (pm_id p) \<and> is_valid_version_name (pm_version_name p) \<and>
     length (pm_target_sdk p) \<le> PACKAGE_MANIFEST_TARGET_SDK_LENGTH \<and> NUL \<notin> set (pm_target_sdk p) \<and>
     length (pm_requires_device_id p) \<le> PACKAGE_MANIFEST_REQUIRES_DEVICE_ID_LENGTH \<and>
     (pm_requires_device_id p = '''' \<or> is_valid_device_id_list (pm_requires_device_id p)) \<and>
     unat (pm_count p) \<le> PACKAGE_MANIFEST_MAX_APP_MANIFESTS"

definition binding_ok :: "AppManifestBinding \<Rightarrow> bool" where
  "binding_ok b \<longleftrightarrow> app_manifest_id_is_valid (am_id (ab_manifest b)) \<and> app_manifest_name_is_valid (am_name (ab_manifest b)) \<and>
     is_valid_binary_name (ab_binary b) \<and> am_category (ab_manifest b) = APP_CATEGORY_USER \<and> am_flags (ab_manifest b) \<le> 7 \<and>
     sk_memory (am_stack (ab_manifest b)) = 0 \<and> am_location (ab_manifest b) = APP_LOCATION_MEMORY 0"

lemma require_simps [simp]: "require True = Some ()" "require False = None"
  by (simp_all add: require_def)

lemma require_Some [simp]: "require b = Some u \<longleftrightarrow> b" "require b = None \<longleftrightarrow> \<not> b"
  by (simp_all add: require_def)

lemma copy_bounded_Some: "copy_bounded n v = Some s \<longleftrightarrow> length v < n \<and> s = c_str v"
  by (auto simp: copy_bounded_def)

lemma c_str_props: "length (c_str v) \<le> length v" "NUL \<notin> set (c_str v)"
  by (auto simp: c_str_def length_takeWhile_le dest: set_takeWhileD)

lemma no_nul: "validate_string v P \<Longrightarrow> \<not> P NUL \<Longrightarrow> c_str v = v"
  by (intro c_str_id) (auto simp: validate_string_def list_all_iff)

lemma alnum_codes: "\<not> is_alnum NUL" "\<not> is_digit NUL"
  by (simp_all add: is_alnum_def is_digit_def)

lemma version_name_c_str: "is_valid_version_name v \<Longrightarrow> c_str v = v"
  unfolding is_valid_version_name_def by (elim conjE no_nul) (simp add: alnum_codes)

lemma binary_name_c_str: "is_valid_binary_name v \<Longrightarrow> c_str v = v"
  unfolding is_valid_binary_name_def by (elim conjE no_nul) (simp add: alnum_codes)

text \<open>The characters of a valid list of devices.\<close>

lemma find_char_None: "find_char s c = None \<Longrightarrow> c \<notin> set s"
  by (auto simp: find_char_def Let_def takeWhile_all_length split: if_splits)

lemma find_char_Some: "find_char s c = Some n \<Longrightarrow> s = take n s @ c # drop (n + 1) s \<and> c \<notin> set (take n s)"
proof (induction s arbitrary: n)
  case (Cons x s)
  show ?case
  proof (cases "x = c")
    case True
    then show ?thesis using Cons.prems by (simp add: find_char_def)
  next
    case False
    then obtain m where m: "n = Suc m" "find_char s c = Some m" using Cons.prems by (auto simp: find_char_def Let_def split: if_splits)
    with Cons.IH [OF m(2)] False show ?thesis by simp
  qed
qed (simp add: find_char_def)

lemma csv_chars: "validate_csv_loop is_device_id s \<Longrightarrow> list_all (\<lambda>c. is_alnum c \<or> c = CHR ''-'' \<or> c = CHR '','') s"
proof (induction s rule: length_induct)
  case (1 s)
  show ?case
  proof (cases "find_char s (CHR '','')")
    case None
    then show ?thesis using 1(2) by (auto simp: validate_csv_loop.simps [of _ s] is_device_id_def list_all_iff)
  next
    case (Some n)
    note n = find_char_Some [OF Some] find_char_less [OF Some]
    have v: "is_device_id (take n s)" "validate_csv_loop is_device_id (drop (n + 1) s)" using 1(2) Some by (simp_all add: validate_csv_loop.simps [of _ s])
    have "list_all (\<lambda>c. is_alnum c \<or> c = CHR ''-'' \<or> c = CHR '','') (drop (n + 1) s)"
      using 1(1) [THEN spec, of "drop (n + 1) s"] v(2) n(2) by simp
    then have "list_all (\<lambda>c. is_alnum c \<or> c = CHR ''-'' \<or> c = CHR '','') (take n s @ CHR '','' # drop (n + 1) s)"
      using v(1) by (auto simp: is_device_id_def list_all_iff)
    then show ?thesis using n(1) by metis
  qed
qed

lemma device_list_c_str: "is_valid_device_id_list v \<Longrightarrow> c_str v = v"
proof -
  assume "is_valid_device_id_list v"
  then have "list_all (\<lambda>c. is_alnum c \<or> c = CHR ''-'' \<or> c = CHR '','') v"
    by (auto simp: is_valid_device_id_list_def validate_csv_list_def csv_chars split: if_splits)
  then show ?thesis by (intro no_nul [of v]) (auto simp: validate_string_def alnum_codes)
qed

lemma parse_fields:
  "parse_id ps k = Some s \<Longrightarrow> app_manifest_id_is_valid s"
  "parse_version_name ps k = Some s \<Longrightarrow> is_valid_version_name s"
  "parse_target_sdk ps = Some s \<Longrightarrow> length s \<le> PACKAGE_MANIFEST_TARGET_SDK_LENGTH \<and> NUL \<notin> set s"
  "parse_device_ids ps = Some s \<Longrightarrow> length s \<le> PACKAGE_MANIFEST_REQUIRES_DEVICE_ID_LENGTH \<and> (s = '''' \<or> is_valid_device_id_list s)"
  using c_str_props
  by (auto simp: parse_id_def parse_version_name_def parse_target_sdk_def parse_device_ids_def bind_Some_iff copy_bounded_Some version_name_c_str
      device_list_c_str less_Suc_eq_le split: option.splits intro: le_trans)

lemma v2_ok:
  assumes "package_manifest_parse_v2 ps capacity = Some (p, bs)"
  shows "package_ok p \<and> list_all binding_ok bs \<and> length bs = (if capacity = 0 then 0 else unat (pm_count p)) \<and> length bs \<le> capacity"
proof -
  obtain pid name vn vc sdk dev where f: "parse_id ps ''app.id'' = Some pid" "app_manifest_name_is_valid (c_str name)"
    "parse_version_name ps ''app.version.name'' = Some vn" "parse_target_sdk ps = Some sdk" "parse_device_ids ps = Some dev"
    and p: "p = \<lparr>pm_id = pid, pm_version_name = vn, pm_version_code = vc, pm_target_sdk = sdk, pm_requires_device_id = dev, pm_requires_ram = 0, pm_count = 1\<rparr>"
    using assms by (auto simp: package_manifest_parse_v2_def bind_Some_iff Let_def split: if_splits)
  have "package_ok p" using parse_fields [of ps] f unfolding p by (simp add: package_ok_def manifest_sizes)
  moreover have "list_all binding_ok bs \<and> length bs = (if capacity = 0 then 0 else 1)"
    using assms f(1,2)
    by (auto simp: package_manifest_parse_v2_def parse_id_def bind_Some_iff Let_def copy_bounded_Some binding_ok_def AppManifest_zero_def
        is_valid_binary_name_def validate_string_def is_alnum_def manifest_sizes c_str_def split: if_splits)
  ultimately show ?thesis by (simp add: p)
qed

lemma parse_flag_le: "parse_flag ps k f x = Some y \<Longrightarrow> f \<le> 4 \<Longrightarrow> x \<le> 7 \<Longrightarrow> y \<le> 7"
proof -
  assume a: "parse_flag ps k f x = Some y" "f \<le> 4" "x \<le> 7"
  have seven: "y \<le> 7 \<longleftrightarrow> take_bit 3 y = y" for y :: "8 word"
  proof -
    have "take_bit 3 y = y \<longleftrightarrow> unat y < 8" by (simp add: word_unat_eq_iff unsigned_take_bit_eq take_bit_nat_eq_self_iff)
    then show ?thesis by (auto simp: word_le_nat_alt)
  qed
  have "f \<le> 7" using a(2) by (rule order_trans) simp
  then have "x OR f \<le> 7" using a(3) unfolding seven by (simp add: take_bit_or)
  then show ?thesis using a by (auto simp: parse_flag_def bind_Some_iff split: option.splits if_splits)
qed

lemma app_ok: "parse_app_manifest ps i = Some b \<Longrightarrow> binding_ok b"
proof -
  assume a: "parse_app_manifest ps i = Some b"
  then obtain f1 f2 f3 where f: "parse_flag ps (app_key i ''hidden'') APP_MANIFEST_FLAG_HIDDEN 0 = Some f1"
    "parse_flag ps (app_key i ''headless'') APP_MANIFEST_FLAG_HEADLESS f1 = Some f2"
    "parse_flag ps (app_key i ''cleanup'') APP_MANIFEST_FLAG_CLEANUP f2 = Some f3" "am_flags (ab_manifest b) = f3"
    by (auto simp: parse_app_manifest_def bind_Some_iff)
  have "f3 \<le> 7"
    using parse_flag_le [OF f(3)] parse_flag_le [OF f(2)] parse_flag_le [OF f(1)]
    by (simp add: APP_MANIFEST_FLAG_CLEANUP_def APP_MANIFEST_FLAG_HEADLESS_def APP_MANIFEST_FLAG_HIDDEN_def)
  with f(4) a show ?thesis
    by (auto simp: parse_app_manifest_def bind_Some_iff binding_ok_def copy_bounded_Some AppManifest_zero_def binary_name_c_str)
qed

lemma parse_apps_ok: "parse_apps ps is = Some bs \<Longrightarrow> list_all binding_ok bs \<and> length bs = length is"
  by (induction "is" arbitrary: bs) (auto simp: bind_Some_iff app_ok)

lemma count_apps_le: "count_apps ps n = Some m \<Longrightarrow> n \<le> PACKAGE_MANIFEST_MAX_APP_MANIFESTS \<Longrightarrow> m \<le> PACKAGE_MANIFEST_MAX_APP_MANIFESTS"
proof (induction ps n rule: count_apps.induct)
  case (1 ps n)
  then show ?case by (subst (asm) (2) count_apps.simps) (auto split: if_splits)
qed

lemma v3_ok:
  assumes "package_manifest_parse_v3 w ps capacity = Inr (p, bs)"
  shows "package_ok p \<and> list_all binding_ok bs \<and> length bs = (if capacity = 0 then 0 else unat (pm_count p)) \<and> length bs \<le> capacity"
proof -
  obtain q n where q: "parse_package ps = Some q" "count_apps ps 0 = Some n" "p = q\<lparr>pm_count := of_nat n\<rparr>"
    and b: "n = 0 \<or> capacity = 0 \<longrightarrow> bs = []" "n \<noteq> 0 \<and> capacity \<noteq> 0 \<longrightarrow> n \<le> capacity \<and> parse_apps ps [0..<n] = Some bs"
    using assms by (auto simp: package_manifest_parse_v3_def Let_def split: option.splits if_splits)
  have n: "n \<le> 32" "unat (of_nat n :: 32 word) = n" using count_apps_le [OF q(2)] by (simp_all add: manifest_sizes unat_of_nat)
  have "package_ok p" using q(1) parse_fields [of ps] n
    by (auto simp: parse_package_def bind_Some_iff q(3) package_ok_def manifest_sizes)
  with b parse_apps_ok [of ps "[0..<n]" bs] show ?thesis by (auto simp: q(3) n(2))
qed

lemma parsed_manifest_ok:
  assumes "app_package_manifest_parse w fs path capacity = Inr (p, bs)"
  shows "package_ok p \<and> list_all binding_ok bs \<and> length bs = (if capacity = 0 then 0 else unat (pm_count p)) \<and> length bs \<le> capacity"
proof -
  obtain ps where "package_manifest_parse_v2 ps capacity = Some (p, bs) \<or> package_manifest_parse_v3 w ps capacity = Inr (p, bs)"
    using assms unfolding app_package_manifest_parse_def by (auto split: option.splits if_splits)
  then show ?thesis using v2_ok v3_ok by blast
qed

text \<open>
  C14: whatever the file of a manifest holds, a manifest that is accepted is well-formed. Its ids, names, versions and lists of devices have the characters and
  the lengths that their arrays and users need, in particular the name of a binary holds no slash, so that it names a file of its directory; the package
  has at most 32 apps; and exactly the declared number of apps is read, never more than the caller has room for.
\<close>

theorem parsed_manifest_wellformed:
  assumes "app_package_manifest_parse w fs path capacity = Inr (p, bs)"
  shows "package_ok p \<and> list_all binding_ok bs \<and> length bs = (if capacity = 0 then 0 else unat (pm_count p)) \<and> length bs \<le> capacity \<and>
    (\<forall>b\<in>set bs. CHR ''/'' \<notin> set (ab_binary b))"
proof -
  note parsed_manifest_ok [OF assms]
  moreover have "CHR ''/'' \<notin> set (ab_binary b)" if "binding_ok b" for b
    using that by (auto simp: binding_ok_def is_valid_binary_name_def validate_string_def list_all_iff is_alnum_def is_digit_def)
  ultimately show ?thesis by (auto simp: list_all_iff)
qed

text \<open>
  Reading a manifest into a vector of the right size gives as many apps as the package declares, each of them well-formed, even when the file changes while it is read.
\<close>

lemma parse_into_complete:
  assumes "app_package_manifest_parse_into w fs fs2 path = Inr (p, bs)"
  shows "package_ok p \<and> list_all binding_ok bs \<and> length bs = unat (pm_count p)"
proof -
  obtain p0 bs0 bs1 where r: "app_package_manifest_parse w fs path 0 = Inr (p0, bs0)" "app_package_manifest_parse w fs2 path (unat (pm_count p0)) = Inr (p, bs1)"
    "unat (pm_count p) = unat (pm_count p0)" "bs = bs1 @ replicate (unat (pm_count p0) - length bs1) \<lparr>ab_manifest = AppManifest_zero, ab_binary = ''''\<rparr>"
    using assms by (auto simp: app_package_manifest_parse_into_def Let_def split: sum.splits if_splits)
  with parsed_manifest_ok [OF r(2)] show ?thesis by (auto split: if_splits)
qed

section \<open>What is printed is read back\<close>

text \<open>A manifest in the format of version 3.\<close>

definition bool_text :: "bool \<Rightarrow> string" where
  "bool_text b = (if b then ''true'' else ''false'')"

definition package_entries :: "PackageManifest \<Rightarrow> (string \<times> string) list" where
  "package_entries p = [(''manifest.version'', ''0.3''), (''id'', pm_id p), (''version.name'', pm_version_name p),
     (''version.code'', decimal (unat (pm_version_code p))), (''target.sdk'', pm_target_sdk p)] @
     (if pm_requires_device_id p = '''' then [] else [(''requires.device.id'', pm_requires_device_id p)]) @
     [(''requires.ram'', decimal (unat (pm_requires_ram p)) @ ''M'')]"

definition app_entries :: "nat \<Rightarrow> AppManifestBinding \<Rightarrow> (string \<times> string) list" where
  "app_entries i b = (let m = ab_manifest b in
     [(app_key i ''id'', am_id m), (app_key i ''binary'', ab_binary b), (app_key i ''name'', am_name m),
      (app_key i ''stack.depth'', decimal (unat (sk_depth (am_stack m)))),
      (app_key i ''hidden'', bool_text (bit (am_flags m) 0)), (app_key i ''headless'', bool_text (bit (am_flags m) 1)),
      (app_key i ''cleanup'', bool_text (bit (am_flags m) 2))])"

definition manifest_entries :: "PackageManifest \<Rightarrow> AppManifestBinding list \<Rightarrow> (string \<times> string) list" where
  "manifest_entries p bs = package_entries p @ concat (map (\<lambda>i. app_entries i (bs ! i)) [0..<length bs])"

definition print_manifest :: "PackageManifest \<Rightarrow> AppManifestBinding list \<Rightarrow> string" where
  "print_manifest p bs = concat (map print_entry (manifest_entries p bs))"

text \<open>Entries that a line of the file carries.\<close>

definition tidy :: "string \<Rightarrow> bool" where
  "tidy v \<longleftrightarrow> NUL \<notin> set v \<and> LF \<notin> set v \<and> (v = '''' \<or> hd v \<notin> set WS_LINE \<and> last v \<notin> set WS_LINE)"

definition tidy_entry :: "string \<times> string \<Rightarrow> bool" where
  "tidy_entry e \<longleftrightarrow> tidy (fst e) \<and> tidy (snd e) \<and> fst e \<noteq> '''' \<and> hd (fst e) \<noteq> CHR ''#'' \<and> CHR ''='' \<notin> set (fst e)"

lemma getlines_line: "LF \<notin> set l \<Longrightarrow> getlines (l @ LF # rest) = l # getlines rest"
  by (induction l) auto

lemma load_tidy:
  assumes "tidy_entry (k, v)"
  shows "load_line (k @ CHR ''='' # v) ps = AList.update k v ps"
proof -
  have k: "k \<noteq> ''''" "hd k \<notin> set WS_LINE" "last k \<notin> set WS_LINE" "hd k \<noteq> CHR ''#''" "CHR ''='' \<notin> set k" "v = '''' \<or> hd v \<notin> set WS_LINE \<and> last v \<notin> set WS_LINE"
    using assms by (auto simp: tidy_entry_def tidy_def)
  have "CHR ''='' \<notin> set WS_LINE" by (simp add: WS_LINE_def)
  then have "trim (k @ CHR ''='' # v) WS_LINE = k @ CHR ''='' # v" using k by (intro trim_id) auto
  moreover have "trim k WS_LINE = k" "trim v WS_LINE = v" using k by (auto intro!: trim_id)
  moreover have "hd (k @ CHR ''='' # v) \<noteq> CHR ''#''" using k by simp
  ultimately show ?thesis using k(5) by (simp add: load_line_def split_key_value_print)
qed

lemma load_printed:
  "list_all tidy_entry es \<Longrightarrow> fold load_line (getlines (concat (map print_entry es))) ps = fold (\<lambda>(k, v). AList.update k v) es ps"
proof (induction es arbitrary: ps)
  case (Cons e es)
  obtain k v where e: "e = (k, v)" by fastforce
  have t: "tidy_entry (k, v)" using Cons.prems by (simp add: e)
  then have s: "c_str k = k" "c_str v = v" "LF \<notin> set (k @ CHR ''='' # v)" by (auto simp: tidy_entry_def tidy_def c_str_id)
  have "print_entry e = (k @ CHR ''='' # v) @ [LF]" by (simp add: e print_entry_def s)
  then have "concat (map print_entry (e # es)) = (k @ CHR ''='' # v) @ LF # concat (map print_entry es)" by simp
  then have "getlines (concat (map print_entry (e # es))) = (k @ CHR ''='' # v) # getlines (concat (map print_entry es))"
    by (simp only: getlines_line [OF s(3)])
  with Cons load_tidy [OF t] show ?case by (simp add: e)
qed simp

lemma updates_map: "map_of (fold (\<lambda>(k, v). AList.update k v) es ps) = map_of ps ++ map_of (rev es)"
  by (induction es arbitrary: ps) (auto simp: update_conv' fun_eq_iff map_add_def split: option.split)

lemma updates_set: "set (fold (\<lambda>(k, v). AList.update k v) es ps) \<subseteq> set ps \<union> set es"
proof (induction es arbitrary: ps)
  case (Cons e es)
  have "set (AList.update k v ps) \<subseteq> insert (k, v) (set ps)" for k v ps by (induction ps) auto
  with Cons [of "AList.update (fst e) (snd e) ps"] show ?case by (cases e) fastforce
qed simp

text \<open>The keys are distinct.\<close>

lemma app_key_inj: "app_key i r = app_key j s \<longleftrightarrow> i = j \<and> r = s"
proof
  assume e: "app_key i r = app_key j s"
  have d: "takeWhile is_digit (decimal n @ CHR ''.'' # x) = decimal n" for n x
    using decimal_digits [of n] by (simp add: takeWhile_append list_all_iff) (simp add: is_digit_def)
  have "decimal i @ CHR ''.'' # r = decimal j @ CHR ''.'' # s" using e by (simp add: app_key_def)
  moreover from this have "decimal i = decimal j" using d by metis
  ultimately show "i = j \<and> r = s" using decimal_inj by auto
qed simp

lemma package_keys: "(k, v) \<in> set (package_entries p) \<Longrightarrow> take 4 k \<noteq> ''app.''"
  by (auto simp: package_entries_def split: if_splits)

lemma app_keys: "(k, v) \<in> set (app_entries i b) \<Longrightarrow> \<exists>r. k = app_key i r"
  by (auto simp: app_entries_def Let_def)

lemma take_app_key: "take 4 (app_key i r) = ''app.''"
  by (simp add: app_key_def)

lemma manifest_keys_distinct: "distinct (map fst (manifest_entries p bs))"
proof -
  have a: "distinct (map fst (app_entries i b))" for i b by (simp add: app_entries_def Let_def app_key_inj)
  have "distinct (concat (map (\<lambda>i. map fst (app_entries i (bs ! i))) is))" if "distinct is" for "is"
    using that by (induction "is") (fastforce simp: a app_key_inj dest: app_keys)+
  moreover have "distinct (map fst (package_entries p))" by (simp add: package_entries_def)
  ultimately show ?thesis using package_keys [of _ _ p] app_keys take_app_key
    by (fastforce simp: manifest_entries_def map_concat o_def)
qed

definition loaded :: "PackageManifest \<Rightarrow> AppManifestBinding list \<Rightarrow> properties" where
  "loaded p bs = fold (\<lambda>(k, v). AList.update k v) (manifest_entries p bs) []"

lemma loaded_entry: "(k, v) \<in> set (manifest_entries p bs) \<Longrightarrow> map_of (loaded p bs) k = Some v"
  using manifest_keys_distinct [of p bs] by (simp add: loaded_def updates_map map_of_rev_distinct)

lemma loaded_none: "k \<notin> fst ` set (manifest_entries p bs) \<Longrightarrow> map_of (loaded p bs) k = None"
  using manifest_keys_distinct [of p bs] by (simp add: loaded_def updates_map map_of_rev_distinct map_of_eq_None_iff)

lemma loaded_package: "(k, v) \<in> set (package_entries p) \<Longrightarrow> map_of (loaded p bs) k = Some v"
  by (rule loaded_entry) (simp add: manifest_entries_def)

lemma loaded_app: "i < length bs \<Longrightarrow> (k, v) \<in> set (app_entries i (bs ! i)) \<Longrightarrow> map_of (loaded p bs) k = Some v"
  by (rule loaded_entry) (auto simp: manifest_entries_def)

lemma from_chars_decimal: "n < 2 ^ w \<Longrightarrow> from_chars w (decimal n) = Some (n, length (decimal n))"
  by (simp add: from_chars_def decimal_takeWhile decimal_nonempty digits_value_decimal Let_def)

lemma decimal_valid: "validate_string (decimal n) is_digit"
  by (simp add: validate_string_def decimal_digits)

lemma decimal_c_str: "c_str (decimal n) = decimal n"
  by (rule no_nul [OF decimal_valid alnum_codes(2)])

lemma loaded_version_code: "parse_version_code (loaded p bs) ''version.code'' = Some (pm_version_code p)"
proof -
  have "map_of (loaded p bs) ''version.code'' = Some (decimal (unat (pm_version_code p)))" by (rule loaded_package) (simp add: package_entries_def)
  moreover have lt: "unat (pm_version_code p) < 2 ^ 64" using unsigned_less [of "pm_version_code p"] by simp
  moreover have "length (decimal (unat (pm_version_code p))) \<le> Suc 19" by (rule decimal_length) (use lt in simp)
  ultimately show ?thesis by (simp add: parse_version_code_def is_valid_version_code_def decimal_nonempty decimal_valid from_chars_decimal)
qed

lemma loaded_stack_depth:
  assumes "i < length bs"
  shows "parse_stack_depth (loaded p bs) (app_key i ''stack.depth'') = Some (sk_depth (am_stack (ab_manifest (bs ! i))))"
proof -
  let ?d = "sk_depth (am_stack (ab_manifest (bs ! i)))"
  have "map_of (loaded p bs) (app_key i ''stack.depth'') = Some (decimal (unat ?d))" using assms by (rule loaded_app) (simp add: app_entries_def Let_def)
  moreover have lt: "unat ?d < 2 ^ 16" using unsigned_less [of ?d] by simp
  moreover have "length (decimal (unat ?d)) \<le> Suc 9" by (rule decimal_length) (use lt in simp)
  moreover have "from_chars 32 (decimal (unat ?d)) = Some (unat ?d, length (decimal (unat ?d)))" by (rule from_chars_decimal) (use lt in simp)
  ultimately show ?thesis by (simp add: parse_stack_depth_def app_manifest_stack_size_is_valid_def decimal_nonempty decimal_valid decimal_c_str manifest_sizes)
qed

lemma loaded_ram: "parse_ram (loaded p bs) = Some (pm_requires_ram p)"
proof -
  let ?d = "decimal (unat (pm_requires_ram p))"
  have "map_of (loaded p bs) ''requires.ram'' = Some (?d @ ''M'')" by (rule loaded_package) (simp add: package_entries_def)
  moreover have lt: "unat (pm_requires_ram p) < 2 ^ 8" using unsigned_less [of "pm_requires_ram p"] by simp
  moreover have "takeWhile is_digit (?d @ ''M'') = ?d" using decimal_digits by (simp add: takeWhile_append list_all_iff is_digit_def)
  ultimately show ?thesis
    by (simp add: parse_ram_def from_chars_def Let_def decimal_nonempty digits_value_decimal nth_append)
qed

lemma loaded_devices:
  assumes "package_ok p"
  shows "parse_device_ids (loaded p bs) = Some (pm_requires_device_id p)"
proof (cases "pm_requires_device_id p = ''''")
  case True
  have "''requires.device.id'' \<noteq> app_key i r" for i r by (simp add: app_key_def)
  then have "''requires.device.id'' \<notin> fst ` set (manifest_entries p bs)"
    using True app_keys by (fastforce simp: manifest_entries_def package_entries_def)
  from loaded_none [OF this] show ?thesis by (simp add: parse_device_ids_def True)
next
  case False
  then have "map_of (loaded p bs) ''requires.device.id'' = Some (pm_requires_device_id p)" by (intro loaded_package) (simp add: package_entries_def)
  with False assms show ?thesis by (auto simp: parse_device_ids_def package_ok_def copy_bounded_def device_list_c_str)
qed

lemma id_c_str: "app_manifest_id_is_valid v \<Longrightarrow> c_str v = v"
  unfolding app_manifest_id_is_valid_def by (elim conjE no_nul) (simp add: alnum_codes)

lemma name_c_str: "app_manifest_name_is_valid v \<Longrightarrow> c_str v = v"
  unfolding app_manifest_name_is_valid_def by (elim conjE no_nul) (simp add: alnum_codes)

lemma loaded_parse_package:
  assumes "package_ok p"
  shows "parse_package (loaded p bs) = Some (p\<lparr>pm_count := 0\<rparr>)"
proof -
  have m: "map_of (loaded p bs) ''id'' = Some (pm_id p)" "map_of (loaded p bs) ''version.name'' = Some (pm_version_name p)"
    "map_of (loaded p bs) ''target.sdk'' = Some (pm_target_sdk p)" by (rule loaded_package, simp add: package_entries_def)+
  have "parse_id (loaded p bs) ''id'' = Some (pm_id p)"
    using assms m id_c_str by (auto simp: parse_id_def package_ok_def copy_bounded_Some app_manifest_id_is_valid_def manifest_sizes)
  moreover have "parse_version_name (loaded p bs) ''version.name'' = Some (pm_version_name p)"
    using assms m version_name_c_str by (auto simp: parse_version_name_def package_ok_def copy_bounded_Some is_valid_version_name_def)
  moreover have "parse_target_sdk (loaded p bs) = Some (pm_target_sdk p)"
    using assms m by (auto simp: parse_target_sdk_def package_ok_def copy_bounded_Some c_str_id)
  ultimately show ?thesis by (simp add: parse_package_def loaded_version_code loaded_ram loaded_devices [OF assms])
qed

lemma bool_text_valid: "is_valid_bool (bool_text b)" "bool_text b = ''true'' \<longleftrightarrow> b"
  by (simp_all add: bool_text_def is_valid_bool_def)

lemma three_flags:
  assumes "f \<le> (7 :: 8 word)" "f1 = (if bit f 0 then 0 OR 1 else 0)" "f2 = (if bit f 1 then f1 OR 2 else f1)"
  shows "(if bit f 2 then f2 OR 4 else f2) = f"
proof -
  have "unat f < 8" using assms(1) by (auto simp: word_le_nat_alt)
  then have "of_nat (unat f) \<in> (of_nat :: nat \<Rightarrow> 8 word) ` {..<8}" by blast
  moreover have "{..<8 :: nat} = {0, 1, 2, 3, 4, 5, 6, 7}" by auto
  ultimately have "f \<in> {0, 1, 2, 3, 4, 5, 6, 7}" by simp
  then show ?thesis unfolding assms(3) assms(2) by auto
qed

lemma loaded_parse_app:
  assumes "i < length bs" "binding_ok (bs ! i)"
  shows "parse_app_manifest (loaded p bs) i = Some (bs ! i)"
proof -
  let ?m = "ab_manifest (bs ! i)"
  have m: "map_of (loaded p bs) (app_key i ''id'') = Some (am_id ?m)" "map_of (loaded p bs) (app_key i ''binary'') = Some (ab_binary (bs ! i))"
    "map_of (loaded p bs) (app_key i ''name'') = Some (am_name ?m)" "map_of (loaded p bs) (app_key i ''hidden'') = Some (bool_text (bit (am_flags ?m) 0))"
    "map_of (loaded p bs) (app_key i ''headless'') = Some (bool_text (bit (am_flags ?m) 1))"
    "map_of (loaded p bs) (app_key i ''cleanup'') = Some (bool_text (bit (am_flags ?m) 2))"
    by (rule loaded_app [OF assms(1)], simp add: app_entries_def Let_def)+
  have f: "parse_flag (loaded p bs) (app_key i r) flag x = Some (if b then x OR flag else x)"
    if "map_of (loaded p bs) (app_key i r) = Some (bool_text b)" for r flag x b using that by (simp add: parse_flag_def bool_text_valid)
  have ok: "app_manifest_id_is_valid (am_id ?m)" "app_manifest_name_is_valid (am_name ?m)" "is_valid_binary_name (ab_binary (bs ! i))"
    "am_category ?m = APP_CATEGORY_USER" "am_flags ?m \<le> 7" "sk_memory (am_stack ?m) = 0" "am_location ?m = APP_LOCATION_MEMORY 0"
    using assms(2) by (simp_all add: binding_ok_def)
  have cs: "c_str (am_id ?m) = am_id ?m" "c_str (am_name ?m) = am_name ?m" "c_str (ab_binary (bs ! i)) = ab_binary (bs ! i)"
    using ok id_c_str name_c_str binary_name_c_str by blast+
  have cb: "copy_bounded (APP_MANIFEST_ID_LENGTH + 1) (am_id ?m) = Some (am_id ?m)" "copy_bounded (APP_MANIFEST_NAME_LENGTH + 1) (am_name ?m) = Some (am_name ?m)"
    "copy_bounded (APP_MANIFEST_BINARY_LENGTH + 1) (ab_binary (bs ! i)) = Some (ab_binary (bs ! i))"
    using ok(1-3) cs by (auto simp: copy_bounded_Some app_manifest_id_is_valid_def app_manifest_name_is_valid_def is_valid_binary_name_def)
  define f1 where "f1 = (if bit (am_flags ?m) 0 then 0 OR 1 else 0 :: 8 word)"
  define f2 where "f2 = (if bit (am_flags ?m) 1 then f1 OR 2 else f1)"
  have flags: "parse_flag (loaded p bs) (app_key i ''hidden'') APP_MANIFEST_FLAG_HIDDEN 0 = Some f1"
    "parse_flag (loaded p bs) (app_key i ''headless'') APP_MANIFEST_FLAG_HEADLESS f1 = Some f2"
    "parse_flag (loaded p bs) (app_key i ''cleanup'') APP_MANIFEST_FLAG_CLEANUP f2 = Some (am_flags ?m)"
    unfolding f [OF m(4)] f [OF m(5)] f [OF m(6)] APP_MANIFEST_FLAG_HIDDEN_def APP_MANIFEST_FLAG_HEADLESS_def APP_MANIFEST_FLAG_CLEANUP_def
      f1_def [symmetric] f2_def [symmetric] three_flags [OF ok(5) f1_def f2_def] by (rule refl)+
  have "parse_app_manifest (loaded p bs) i = Some \<lparr>ab_manifest = AppManifest_zero\<lparr>am_id := am_id ?m, am_name := am_name ?m,
      am_stack := \<lparr>sk_depth = sk_depth (am_stack ?m), sk_memory = 0\<rparr>, am_flags := am_flags ?m, am_category := APP_CATEGORY_USER\<rparr>, ab_binary = ab_binary (bs ! i)\<rparr>"
    unfolding parse_app_manifest_def m Option.bind.simps cs cb loaded_stack_depth [OF assms(1)] flags using ok(1-3) by simp
  moreover have "AppManifest_zero\<lparr>am_id := am_id ?m, am_name := am_name ?m,
      am_stack := \<lparr>sk_depth = sk_depth (am_stack ?m), sk_memory = 0\<rparr>, am_flags := am_flags ?m, am_category := APP_CATEGORY_USER\<rparr> = ?m"
    using ok(4-7) by (intro AppManifest.equality AppStackConfig.equality) (simp_all add: AppManifest_zero_def)
  ultimately show ?thesis by simp
qed

lemma loaded_count_apps:
  assumes "length bs \<le> PACKAGE_MANIFEST_MAX_APP_MANIFESTS"
  shows "count_apps (loaded p bs) 0 = Some (length bs)"
proof -
  have more: "map_of (loaded p bs) (app_key i ''id'') \<noteq> None" if "i < length bs" for i
    using loaded_app [OF that, of "app_key i ''id''" "am_id (ab_manifest (bs ! i))" p] by (simp add: app_entries_def Let_def)
  have "app_key (length bs) ''id'' \<notin> fst ` set (manifest_entries p bs)"
  proof
    assume "app_key (length bs) ''id'' \<in> fst ` set (manifest_entries p bs)"
    then obtain v where "(app_key (length bs) ''id'', v) \<in> set (manifest_entries p bs)" by force
    then consider "(app_key (length bs) ''id'', v) \<in> set (package_entries p)" | i where "i < length bs" "(app_key (length bs) ''id'', v) \<in> set (app_entries i (bs ! i))"
      by (auto simp: manifest_entries_def)
    then show False
    proof cases
      case 1
      then show False using package_keys take_app_key by blast
    next
      case (2 i)
      then obtain r where "app_key (length bs) ''id'' = app_key i r" using app_keys by blast
      then show False using 2(1) app_key_inj by simp
    qed
  qed
  then have none: "map_of (loaded p bs) (app_key (length bs) ''id'') = None" by (rule loaded_none)
  have "j \<le> length bs \<Longrightarrow> count_apps (loaded p bs) j = Some (length bs)" for j
  proof (induction "length bs - j" arbitrary: j)
    case 0
    then have "j = length bs" by simp
    then show ?case by (simp only: count_apps.simps [of _ "length bs"] none if_True simp_thms)
  next
    case (Suc k)
    then have "j < length bs" "count_apps (loaded p bs) (j + 1) = Some (length bs)" by simp_all
    with more [of j] assms show ?case by (subst count_apps.simps) simp
  qed
  then show ?thesis by simp
qed

lemma app_key_index: "parse_app_key_index w (app_key i r) = Some j \<Longrightarrow> j = i"
proof -
  assume a: "parse_app_key_index w (app_key i r) = Some j"
  have "CHR ''.'' \<notin> set (decimal i)" using decimal_digits [of i] by (auto simp: list_all_iff is_digit_def)
  then have "find_from (app_key i r) (CHR ''.'') 4 = Some (4 + length (decimal i))" by (simp add: find_from_def app_key_def find_char_split)
  moreover have "substr (app_key i r) 4 (length (decimal i)) = decimal i" by (simp add: substr_def app_key_def)
  ultimately show "j = i" using a
    by (auto simp: parse_app_key_index_def bind_Some_iff from_chars_def Let_def decimal_takeWhile digits_value_decimal split: if_splits)
qed

lemma loaded_no_gap: "\<not> list_ex (\<lambda>(key, v). case parse_app_key_index w key of None \<Rightarrow> False | Some i \<Rightarrow> i \<ge> length bs) (loaded p bs)"
proof -
  have "case parse_app_key_index w key of None \<Rightarrow> True | Some i \<Rightarrow> i < length bs" if "(key, v) \<in> set (loaded p bs)" for key v
  proof -
    have "(key, v) \<in> set (manifest_entries p bs)" using updates_set [of "manifest_entries p bs" "[]"] that by (auto simp: loaded_def)
    then consider "(key, v) \<in> set (package_entries p)" | i where "i < length bs" "(key, v) \<in> set (app_entries i (bs ! i))"
      by (auto simp: manifest_entries_def)
    then show ?thesis
    proof cases
      case 1
      then show ?thesis using package_keys by (simp add: parse_app_key_index_def)
    next
      case (2 i)
      then obtain r where "key = app_key i r" using app_keys by blast
      then show ?thesis using app_key_index 2(1) by (auto split: option.split)
    qed
  qed
  then show ?thesis by (fastforce simp: list_ex_iff split: option.splits)
qed

lemma parse_apps_all: "\<forall>i\<in>set is. parse_app_manifest ps i = Some (f i) \<Longrightarrow> parse_apps ps is = Some (map f is)"
  by (induction "is") simp_all

text \<open>The entries are tidy.\<close>

lemma valid_tidy:
  assumes "validate_string v P" "\<forall>c\<in>{NUL, LF, CHR '' '', CHR 0x09, CHR 0x0D}. \<not> P c"
  shows "tidy v"
proof -
  have c: "c \<noteq> NUL" "c \<noteq> LF" "c \<notin> set WS_LINE" if "c \<in> set v" for c
  proof -
    have "P c" using assms(1) that by (simp add: validate_string_def list_all_iff)
    with assms(2) show "c \<noteq> NUL" "c \<noteq> LF" "c \<notin> set WS_LINE" by (auto simp: WS_LINE_def)
  qed
  show ?thesis using c [of NUL] c [of LF] c [of "hd v"] c [of "last v"] by (cases "v = ''''") (auto simp: tidy_def)
qed

lemma tidy_values:
  "app_manifest_id_is_valid v \<Longrightarrow> tidy v" "is_valid_version_name v \<Longrightarrow> tidy v" "is_valid_binary_name v \<Longrightarrow> tidy v" "tidy (decimal n)" "tidy (decimal n @ ''M'')"
  "is_valid_device_id_list v \<Longrightarrow> tidy v" "tidy (bool_text b)"
proof -
  show "app_manifest_id_is_valid v \<Longrightarrow> tidy v" unfolding app_manifest_id_is_valid_def
    by (elim conjE, rule valid_tidy, assumption) (simp add: is_alnum_def is_digit_def)
  show "is_valid_version_name v \<Longrightarrow> tidy v" unfolding is_valid_version_name_def
    by (elim conjE, rule valid_tidy, assumption) (simp add: is_alnum_def is_digit_def)
  show "is_valid_binary_name v \<Longrightarrow> tidy v" unfolding is_valid_binary_name_def
    by (elim conjE, rule valid_tidy, assumption) (simp add: is_alnum_def is_digit_def)
  show "tidy (decimal n)" by (rule valid_tidy [OF decimal_valid]) (simp add: is_digit_def)
  have "validate_string (decimal n @ ''M'') (\<lambda>c. is_digit c \<or> c = CHR ''M'')" using decimal_digits by (simp add: validate_string_def list_all_iff)
  then show "tidy (decimal n @ ''M'')" by (rule valid_tidy) (simp add: is_digit_def)
  show "tidy (bool_text b)" by (simp add: bool_text_def tidy_def WS_LINE_def)
  assume "is_valid_device_id_list v"
  then have "validate_string v (\<lambda>c. is_alnum c \<or> c = CHR ''-'' \<or> c = CHR '','')"
    by (auto simp: is_valid_device_id_list_def validate_csv_list_def validate_string_def csv_chars split: if_splits)
  then show "tidy v" by (rule valid_tidy) (simp add: is_alnum_def is_digit_def)
qed

lemma tidy_key: "tidy r \<Longrightarrow> r \<noteq> '''' \<Longrightarrow> CHR ''='' \<notin> set r \<Longrightarrow> tidy (app_key i r) \<and> app_key i r \<noteq> '''' \<and> hd (app_key i r) \<noteq> CHR ''#'' \<and> CHR ''='' \<notin> set (app_key i r)"
  using decimal_digits [of i] by (auto simp: tidy_def app_key_def WS_LINE_def list_all_iff is_digit_def)

lemma tidy_entries:
  assumes "package_ok p" "list_all binding_ok bs" "tidy (pm_target_sdk p)" "\<forall>b\<in>set bs. tidy (am_name (ab_manifest b))"
  shows "list_all tidy_entry (manifest_entries p bs)"
proof -
  have k: "tidy ''id''" "tidy ''binary''" "tidy ''name''" "tidy ''stack.depth''" "tidy ''hidden''" "tidy ''headless''" "tidy ''cleanup''"
    "tidy ''manifest.version''" "tidy ''version.name''" "tidy ''version.code''" "tidy ''target.sdk''" "tidy ''requires.device.id''" "tidy ''requires.ram''" "tidy ''0.3''"
    by (simp_all add: tidy_def WS_LINE_def)
  have "list_all tidy_entry (package_entries p)"
    using assms(1,3) k tidy_values by (auto simp: package_entries_def tidy_entry_def package_ok_def)
  moreover have "list_all tidy_entry (app_entries i b)" if "binding_ok b" "tidy (am_name (ab_manifest b))" for i b
    using that k tidy_values tidy_key [of _ i] by (simp add: app_entries_def Let_def tidy_entry_def binding_ok_def)
  then have "list_all tidy_entry (app_entries i (bs ! i))" if "i < length bs" for i
    using assms(2,4) that by (simp add: list_all_length)
  ultimately show ?thesis by (auto simp: manifest_entries_def list_all_iff)
qed

lemma printed_manifest_parse:
  assumes "package_ok p" "list_all binding_ok bs" "unat (pm_count p) = length bs" "tidy (pm_target_sdk p)" "\<forall>b\<in>set bs. tidy (am_name (ab_manifest b))"
    and "fs path = Some (print_manifest p bs)" "capacity = 0 \<or> length bs \<le> capacity"
  shows "app_package_manifest_parse w fs path capacity = Inr (p, if capacity = 0 then [] else bs)"
proof -
  have n: "length bs \<le> PACKAGE_MANIFEST_MAX_APP_MANIFESTS" using assms(1,3) by (simp add: package_ok_def)
  have l: "load_properties fs path = Some (loaded p bs)"
    using load_printed [OF tidy_entries [OF assms(1,2,4,5)]] by (simp add: load_properties_def assms(6) print_manifest_def loaded_def)
  have v: "map_of (loaded p bs) ''manifest.version'' = Some ''0.3''" by (rule loaded_package) (simp add: package_entries_def)
  have "parse_apps (loaded p bs) [0..<length bs] = Some (map (nth bs) [0..<length bs])"
    using assms(2) by (intro parse_apps_all ballI loaded_parse_app) (auto simp: list_all_length)
  then have apps: "parse_apps (loaded p bs) [0..<length bs] = Some bs" by (simp add: map_nth)
  have count: "(of_nat (length bs) :: 32 word) = pm_count p" by (simp add: assms(3) [symmetric])
  show ?thesis using assms(7) loaded_no_gap [where w = w and bs = bs and p = p] apps
    by (auto simp: app_package_manifest_parse_def l v package_manifest_parse_v3_def loaded_parse_package [OF assms(1)] loaded_count_apps [OF n] count Let_def)
qed


definition demo_package :: PackageManifest where
  "demo_package = \<lparr>pm_id = ''com.demo'', pm_version_name = ''1.2.0'', pm_version_code = 12, pm_target_sdk = ''0.6.0'', pm_requires_device_id = ''m5stack-tab5,simulator'',
     pm_requires_ram = 2, pm_count = 1\<rparr>"

definition demo_binding :: AppManifestBinding where
  "demo_binding = \<lparr>ab_manifest = AppManifest_zero\<lparr>am_id := ''com.demo.app'', am_name := ''Demo App'', am_category := APP_CATEGORY_USER, am_flags := 4\<rparr>, ab_binary = ''main''\<rparr>"

lemma demo_devices: "is_valid_device_id_list ''m5stack-tab5,simulator''"
  by (simp add: is_valid_device_id_list_def validate_csv_list_def validate_csv_loop.simps find_char_def is_device_id_def is_alnum_def is_digit_def)

lemma demo_package_ok: "package_ok demo_package" "binding_ok demo_binding" "tidy (pm_target_sdk demo_package)" "tidy (am_name (ab_manifest demo_binding))"
  by (simp_all add: package_ok_def binding_ok_def demo_package_def demo_binding_def AppManifest_zero_def app_manifest_id_is_valid_def app_manifest_name_is_valid_def
      is_valid_version_name_def is_valid_binary_name_def validate_string_def is_alnum_def is_digit_def manifest_sizes tidy_def WS_LINE_def demo_devices)


lemma demo_parsed: "app_package_manifest_parse 64 [''m'' \<mapsto> print_manifest demo_package [demo_binding]] ''m'' 5 = Inr (demo_package, [demo_binding])"
  using printed_manifest_parse [of demo_package "[demo_binding]" "[''m'' \<mapsto> print_manifest demo_package [demo_binding]]" "''m''" 5 64] demo_package_ok
  by (simp add: demo_package_def)

theorem parsed_manifest_wellformed_witness:
  "CHR ''/'' \<notin> set (ab_binary demo_binding) \<and> package_ok demo_package"
  using parsed_manifest_wellformed [OF demo_parsed] by simp

end
